(* ===== verification/Prelude.thy ===== *)
theory Prelude imports Main "HOL-Library.Word" "HOL-Library.Char_ord" "HOL-Library.List_Lexorder" "HOL-Library.Product_Lexorder" "HOL-Library.Multiset" begin

text \<open>
  The shared layer of the development: the types that stand for Rust's, the iterator and
  collection operations of the Rust standard library that several components use, and the
  generic lemmas on them.

  A Rust \<open>String\<close> or \<open>&str\<close> is the list of its UTF-8 bytes: Isabelle's \<open>char\<close> is a byte,
  its order (HOL-Library.Char_ord) is the order of the byte values, and the lexicographic order
  of HOL-Library.List_Lexorder is therefore the order of Rust's \<open>str\<close>. A \<open>u32\<close> or \<open>u64\<close> is a
  word of that width; \<open>usize\<close> is \<open>nat\<close> where it counts elements held in memory, and \<open>i64\<close>
  is \<open>int\<close> where it is only compared. A \<open>HashMap\<close> or \<open>BTreeMap\<close> is a partial map.
\<close>

type_synonym u8 = "8 word"
type_synonym u32 = "32 word"
type_synonym u64 = "64 word"

named_theorems gv_defs "definitions unfolded when a component is evaluated"

subsection \<open>Iterator operations\<close>

text \<open>\<open>Iterator::position\<close>: the index of the first element that satisfies the predicate.\<close>

fun position :: "('a \<Rightarrow> bool) \<Rightarrow> 'a list \<Rightarrow> nat option" where
  "position P [] = None"
| "position P (x # xs) = (if P x then Some 0 else map_option Suc (position P xs))"

lemma position_None: "position P xs = None \<longleftrightarrow> (\<forall>x \<in> set xs. \<not> P x)"
  by (induction xs) auto

lemma position_Some:
  "position P xs = Some i \<Longrightarrow> i < length xs \<and> P (xs ! i) \<and> (\<forall>j < i. \<not> P (xs ! j))"
proof (induction xs arbitrary: i)
  case Nil
  then show ?case by simp
next
  case (Cons x xs)
  show ?case
  proof (cases "P x")
    case True
    with Cons.prems show ?thesis by auto
  next
    case False
    with Cons.prems obtain k where k: "position P xs = Some k" "i = Suc k" by auto
    with Cons.IH[OF k(1)] False show ?thesis by (auto simp: nth_Cons split: nat.splits)
  qed
qed

lemma position_SomeI:
  "i < length xs \<Longrightarrow> P (xs ! i) \<Longrightarrow> (\<And>j. j < i \<Longrightarrow> \<not> P (xs ! j)) \<Longrightarrow> position P xs = Some i"
proof (induction xs arbitrary: i)
  case Nil
  then show ?case by simp
next
  case (Cons x xs)
  show ?case
  proof (cases i)
    case 0
    with Cons.prems show ?thesis by simp
  next
    case (Suc k)
    have "\<not> P (xs ! j)" if "j < k" for j
      using Cons.prems(3)[of "Suc j"] Suc that by simp
    then have "position P xs = Some k"
      using Cons.prems Suc by (intro Cons.IH) auto
    with Suc Cons.prems(3)[of 0] show ?thesis by simp
  qed
qed

text \<open>\<open>Iterator::enumerate\<close> followed by \<open>collect\<close> into a map: a later entry replaces an earlier one.\<close>

definition index_map :: "'a list \<Rightarrow> 'a \<rightharpoonup> nat" where
  "index_map xs = map_of (rev (zip xs [0..<length xs]))"

lemma index_map_None: "index_map xs x = None \<longleftrightarrow> x \<notin> set xs"
proof -
  have "fst ` set (zip xs [0..<length xs]) = set xs"
    by (metis list.set_map map_fst_zip length_upt minus_nat.diff_0)
  then show ?thesis by (simp add: index_map_def map_of_eq_None_iff)
qed

lemma index_map_SomeD: "index_map xs x = Some i \<Longrightarrow> i < length xs \<and> xs ! i = x"
  unfolding index_map_def by (drule map_of_SomeD) (auto simp: set_zip)

lemma index_map_distinct:
  assumes "distinct xs" shows "index_map xs x = Some i \<longleftrightarrow> i < length xs \<and> xs ! i = x"
proof
  show "index_map xs x = Some i \<Longrightarrow> i < length xs \<and> xs ! i = x"
    by (rule index_map_SomeD)
next
  assume i: "i < length xs \<and> xs ! i = x"
  then have "x \<in> set xs" by auto
  then obtain j where j: "index_map xs x = Some j" by (metis index_map_None not_None_eq)
  from index_map_SomeD[OF this] i assms have "j = i" by (metis nth_eq_iff_index_eq)
  with j show "index_map xs x = Some i" by simp
qed

lemma index_map_nth: "distinct xs \<Longrightarrow> i < length xs \<Longrightarrow> index_map xs (xs ! i) = Some i"
  by (simp add: index_map_distinct)

subsection \<open>Sums and updates\<close>

lemma sum_list_dec:
  fixes xs :: "nat list"
  assumes "i < length xs" "0 < xs ! i"
  shows "Suc (sum_list (xs[i := xs ! i - 1])) = sum_list xs"
  using assms by (induction xs arbitrary: i) (auto split: nat.splits)

subsection \<open>Sorting by a key\<close>

text \<open>
  \<open>slice::sort_by_key\<close> is a stable sort, which is \<open>sort_key\<close>. Sorting the pieces first changes
  nothing.
\<close>

lemma sort_key_append_sorted:
  "sort_key f (sort_key f xs @ sort_key f ys) = sort_key f (xs @ ys)"
proof (rule properties_for_sort_key[symmetric, THEN sym])
  show "mset (sort_key f (xs @ ys)) = mset (sort_key f xs @ sort_key f ys)" by simp
  show "sorted (map f (sort_key f (xs @ ys)))" by simp
  fix k
  have "filter (\<lambda>x. f k = f x) (sort_key f zs) = filter (\<lambda>x. f k = f x) zs" for zs
    using sort_key_stable[of f "f k" zs] by (simp add: eq_commute)
  then show "filter (\<lambda>x. f k = f x) (sort_key f (xs @ ys)) =
      filter (\<lambda>x. f k = f x) (sort_key f xs @ sort_key f ys)"
    by simp
qed

lemma sort_key_idem: "sort_key f (sort_key f xs) = sort_key f xs"
  using sort_key_append_sorted[of f xs "[]"] by simp

lemma sort_key_append_right: "sort_key f (xs @ sort_key f ys) = sort_key f (xs @ ys)"
  using sort_key_append_sorted[of f xs ys] sort_key_append_sorted[of f xs "sort_key f ys"]
  by (simp only: sort_key_idem)

subsection \<open>Loops that may panic\<close>

text \<open>A \<open>for\<close> loop over a state whose body may panic: a panic ends the loop.\<close>

fun fold_option :: "('e \<Rightarrow> 's \<Rightarrow> 's option) \<Rightarrow> 'e list \<Rightarrow> 's \<Rightarrow> 's option" where
  "fold_option f [] s = Some s"
| "fold_option f (e # es) s = (case f e s of None \<Rightarrow> None | Some s' \<Rightarrow> fold_option f es s')"

lemma fold_option_append:
  "fold_option f (xs @ ys) s =
     (case fold_option f xs s of None \<Rightarrow> None | Some t \<Rightarrow> fold_option f ys t)"
  by (induction xs arbitrary: s) (auto split: option.splits)

lemma fold_option_total:
  assumes "\<And>e s. e \<in> set es \<Longrightarrow> I s \<Longrightarrow> \<exists>t. f e s = Some t \<and> I t" and "I s"
  shows "\<exists>t. fold_option f es s = Some t \<and> I t"
  using assms
proof (induction es arbitrary: s)
  case Nil
  then show ?case by simp
next
  case (Cons e es)
  from Cons.prems(1)[of e s] Cons.prems(2) obtain t where t: "f e s = Some t" "I t" by auto
  with Cons.IH[of t] Cons.prems(1) show ?case by auto
qed

subsection \<open>Runs of a deterministic component\<close>

text \<open>
  A component that consumes a list of events one by one: an invariant that every admissible event
  keeps holds after every run. The provider proves the one-step law; the clients use the run.
\<close>

locale run_invariant =
  fixes step :: "'e \<Rightarrow> 's \<Rightarrow> 's" and inv :: "'s \<Rightarrow> bool" and ok :: "'e \<Rightarrow> bool"
  assumes step_inv: "inv s \<Longrightarrow> ok e \<Longrightarrow> inv (step e s)"
begin

lemma run_inv: "inv s \<Longrightarrow> \<forall>e \<in> set es. ok e \<Longrightarrow> inv (fold step es s)"
  by (induction es arbitrary: s) (auto intro: step_inv)

lemma run_inv_prefix:
  "inv s \<Longrightarrow> \<forall>e \<in> set (es @ fs). ok e \<Longrightarrow> inv (fold step es s)"
  by (rule run_inv) auto

end

text \<open>
  The same for a step relation; \<open>step_stable\<close> adds a fact that, once true of a state the invariant
  holds of, no step takes back.
\<close>

locale step_invariant =
  fixes step :: "'s \<Rightarrow> 's \<Rightarrow> bool" and inv :: "'s \<Rightarrow> bool"
  assumes step_keeps: "step s s' \<Longrightarrow> inv s \<Longrightarrow> inv s'"
begin

lemma steps_keep: "step\<^sup>*\<^sup>* s s' \<Longrightarrow> inv s \<Longrightarrow> inv s'"
  by (induction rule: rtranclp_induct) (auto intro: step_keeps)

end

locale step_stable = step_invariant +
  fixes fact :: "'s \<Rightarrow> bool"
  assumes step_stable: "step s s' \<Longrightarrow> inv s \<Longrightarrow> fact s \<Longrightarrow> fact s'"
begin

lemma steps_stable: "step\<^sup>*\<^sup>* s s' \<Longrightarrow> inv s \<Longrightarrow> fact s \<Longrightarrow> fact s'"
  by (induction rule: rtranclp_induct) (auto intro: step_stable steps_keep)

end

end
