(* ===== verification/Graph_Model.thy ===== *)
theory Graph_Model imports Prelude begin

text \<open>
  The repository domain of \<open>crates/git-vista-core/src/model.rs\<close>: commits, refs and the rows,
  edges and stubs of the laid-out graph. An \<open>Oid\<close> is the newtype over its hex string; commit
  times (\<open>i64\<close>) are only ever compared.
\<close>

type_synonym oid = string

definition oid_short :: "oid \<Rightarrow> string" where
  "oid_short i = take (min (length i) 7) i"

record commit_summary =
  cs_id :: oid
  cs_parents :: "oid list"
  cs_summary :: string
  cs_author :: string
  cs_time :: int

definition is_merge :: "commit_summary \<Rightarrow> bool" where
  "is_merge c \<longleftrightarrow> length (cs_parents c) > 1"

datatype ref_kind = Head | Branch | RemoteBranch | Tag

record git_ref =
  ref_name :: string
  ref_kind :: ref_kind
  ref_target :: oid

definition is_branch :: "git_ref \<Rightarrow> bool" where
  "is_branch r \<longleftrightarrow> ref_kind r = Branch \<or> ref_kind r = RemoteBranch"

definition is_ref_moves_target :: "git_ref \<Rightarrow> bool" where
  "is_ref_moves_target r \<longleftrightarrow> ref_kind r = Head \<or> ref_kind r = Branch"

record graph_row =
  gr_commit :: commit_summary
  gr_row :: nat
  gr_lane :: nat
  gr_refs :: "git_ref list"
  gr_color :: nat
  gr_on_remote :: bool

record edge =
  from_row :: nat
  from_lane :: nat
  to_row :: nat
  to_lane :: nat

record branch_stub =
  bs_name :: string
  bs_anchor_row :: nat
  bs_anchor_lane :: nat
  bs_lane :: nat
  bs_color :: nat
  bs_depth :: nat

record frame_stub =
  fs_name :: string
  fs_anchor_commit :: oid
  fs_lane_offset :: nat
  fs_color :: nat
  fs_depth :: nat

text \<open>
  Of \<open>Graph\<close> the layout writes the rows, the edges, the lane count and the stubs; the other
  fields are stamped by the server afterwards and are left out.
\<close>

record graph =
  g_rows :: "graph_row list"
  g_edges :: "edge list"
  g_lane_count :: nat
  g_stubs :: "branch_stub list"

abbreviation row_id :: "graph_row \<Rightarrow> oid" where
  "row_id r \<equiv> cs_id (gr_commit r)"

abbreviation first_parent :: "commit_summary \<Rightarrow> oid option" where
  "first_parent c \<equiv> (case cs_parents c of [] \<Rightarrow> None | p # _ \<Rightarrow> Some p)"

lemma oid_short_length: "length (oid_short i) \<le> 7"
  by (simp add: oid_short_def)

end
