(* ===== verification/Palette.thy ===== *)
theory Palette imports Graph_Model begin

text \<open>
  \<open>crates/git-vista-core/src/color.rs\<close>: the palette, the slot a branch name hashes to (FNV-1a over
  the name's bytes in wrapping \<open>u64\<close> arithmetic) and the colour a slot is painted in. And the
  colouring priority shared by the two colouring passes: the claim key, its order (the derived
  \<open>Ord\<close> of \<open>ClaimKey\<close>: field by field), the rank of a ref and the slot of a line's name.
\<close>

unbundle bit_operations_syntax

definition branch_palette :: nat where
  "branch_palette = 6"

definition trunk_color :: string where
  "trunk_color = ''#2f81f7''"

definition branch_colors :: "string list" where
  "branch_colors = [''#3fb950'', ''#d29922'', ''#db61a2'', ''#a371f7'', ''#f78166'', ''#39c5cf'']"

definition fnv1a :: "string \<Rightarrow> u64" where
  "fnv1a name = fold (\<lambda>b h. (h XOR of_char b) * 0x100000001b3) name 0xcbf29ce484222325"

definition stable_color_slot :: "string \<Rightarrow> nat" where
  "stable_color_slot name = 1 + unat (fnv1a name mod of_nat branch_palette)"

definition branch_color :: "nat \<Rightarrow> string" where
  "branch_color slot =
     (if slot = 0 then trunk_color else branch_colors ! ((slot - 1) mod length branch_colors))"

lemma stable_color_slot_range: "1 \<le> stable_color_slot name \<and> stable_color_slot name \<le> branch_palette"
proof -
  have "unat (fnv1a name mod of_nat branch_palette) = unat (fnv1a name) mod 6"
    by (simp add: branch_palette_def unat_mod_distrib)
  then show ?thesis using mod_less_divisor[of 6 "unat (fnv1a name)"]
    by (simp add: stable_color_slot_def branch_palette_def)
qed

lemma slot_index: "stable_color_slot name - 1 < length branch_colors"
  using stable_color_slot_range[of name] by (auto simp: branch_colors_def branch_palette_def)

lemma branch_color_slot:
  "branch_color (stable_color_slot name) = branch_colors ! (stable_color_slot name - 1)"
  using stable_color_slot_range[of name] mod_less[OF slot_index[of name]]
  by (simp add: branch_color_def)

lemma trunk_color_fresh: "trunk_color \<notin> set branch_colors"
  by (simp add: branch_colors_def trunk_color_def)

text \<open>
  Only the trunk is blue: no other slot, wrapped or not, is painted in the trunk's colour, and
  two branch names share a colour only when they share a slot.
\<close>

theorem trunk_color_exclusive:
  "branch_color (Suc k) \<noteq> branch_color 0 \<and>
   (branch_color (stable_color_slot a) = branch_color (stable_color_slot b) \<longleftrightarrow>
      stable_color_slot a = stable_color_slot b)"
proof
  have "branch_colors ! (k mod length branch_colors) \<in> set branch_colors"
    by (rule nth_mem) (simp add: branch_colors_def)
  then show "branch_color (Suc k) \<noteq> branch_color 0"
    using trunk_color_fresh by (auto simp: branch_color_def)
next
  have d: "distinct branch_colors" by (simp add: branch_colors_def)
  have "branch_color (stable_color_slot a) = branch_color (stable_color_slot b) \<longleftrightarrow>
      stable_color_slot a - 1 = stable_color_slot b - 1"
    by (simp only: branch_color_slot nth_eq_iff_index_eq[OF d slot_index slot_index])
  also have "\<dots> \<longleftrightarrow> stable_color_slot a = stable_color_slot b"
    using stable_color_slot_range[of a] stable_color_slot_range[of b] by arith
  finally show "branch_color (stable_color_slot a) = branch_color (stable_color_slot b) \<longleftrightarrow>
      stable_color_slot a = stable_color_slot b" .
qed

subsection \<open>Claim keys\<close>

datatype claim_key = ClaimKey (trunk_rank: nat) (is_remote: bool) (emitted_tip_row: nat) (ck_name: string)

fun claim_tuple :: "claim_key \<Rightarrow> nat \<times> bool \<times> nat \<times> string" where
  "claim_tuple (ClaimKey rank remote row name) = (rank, remote, row, name)"

lemma claim_tuple_inj: "claim_tuple a = claim_tuple b \<longleftrightarrow> a = b"
  by (cases a; cases b) simp

instantiation claim_key :: linorder
begin

definition less_eq_claim_key :: "claim_key \<Rightarrow> claim_key \<Rightarrow> bool" where
  "less_eq_claim_key a b \<longleftrightarrow> claim_tuple a \<le> claim_tuple b"

definition less_claim_key :: "claim_key \<Rightarrow> claim_key \<Rightarrow> bool" where
  "less_claim_key a b \<longleftrightarrow> claim_tuple a < claim_tuple b"

instance
  by standard (auto simp: less_eq_claim_key_def less_claim_key_def claim_tuple_inj[symmetric])

end

text \<open>\<open>RANK_MAIN\<close> to \<open>RANK_BRANCH\<close>; a synthetic line ranks below every branch.\<close>

definition rank_synthetic :: nat where
  "rank_synthetic = 4"

definition ref_rank :: "string option \<Rightarrow> git_ref \<Rightarrow> nat" where
  "ref_rank head_branch r =
     (let is_local = ref_kind r = Branch
      in if is_local \<and> ref_name r = ''main'' then 0
         else if is_local \<and> ref_name r = ''master'' then 1
         else if is_local \<and> head_branch = Some (ref_name r) then 2
         else 3)"

definition has_local :: "git_ref list \<Rightarrow> string \<Rightarrow> bool" where
  "has_local refs name \<longleftrightarrow> list_ex (\<lambda>r. ref_kind r = Branch \<and> ref_name r = name) refs"

definition trunk_name :: "git_ref list \<Rightarrow> string option \<Rightarrow> string option" where
  "trunk_name refs head_branch =
     (if has_local refs ''main'' then Some ''main''
      else if has_local refs ''master'' then Some ''master''
      else case head_branch of Some h \<Rightarrow> if has_local refs h then Some h else None | None \<Rightarrow> None)"

definition line_slot :: "git_ref list \<Rightarrow> string option \<Rightarrow> string \<Rightarrow> nat" where
  "line_slot refs head_branch name =
     (if Some name = trunk_name refs head_branch then 0 else stable_color_slot name)"

definition synthetic_name :: "oid \<Rightarrow> string" where
  "synthetic_name i = CHR ''~'' # oid_short i"

lemma ref_rank_less: "ref_rank head_branch r < rank_synthetic"
  by (simp add: ref_rank_def rank_synthetic_def Let_def)

lemma ClaimKey_less:
  "ClaimKey r1 m1 t1 n1 < ClaimKey r2 m2 t2 n2 \<longleftrightarrow> (r1, m1, t1, n1) < (r2, m2, t2, n2)"
  by (simp add: less_claim_key_def)

end
