(* ===== verification/Topology.thy ===== *)
theory Topology imports Graph_Model begin

text \<open>
  \<open>crates/git-vista-core/src/layout/topology.rs\<close>: the date-ordered topological sort that
  normalises the commit order, the two lane-picking helpers, and the choice of the commit whose
  line owns lane 0.

  The \<open>BinaryHeap<(i64, Reverse<String>, usize)>\<close> is a list whose \<open>pop\<close> removes the greatest
  entry; \<open>heap_before\<close> is that tuple order. An index out of range or a \<open>usize\<close> that would
  underflow is a panic, the result \<open>None\<close> of the walk; \<open>walk_total\<close> shows it never happens.
\<close>

type_synonym heap_entry = "int \<times> string \<times> nat"

definition heap_before :: "heap_entry \<Rightarrow> heap_entry \<Rightarrow> bool" where
  "heap_before a b = (case a of (ta, ia, na) \<Rightarrow> case b of (tb, ib, nb) \<Rightarrow>
     tb < ta \<or> (tb = ta \<and> (ia < ib \<or> (ia = ib \<and> nb \<le> na))))"

fun heap_max :: "heap_entry \<Rightarrow> heap_entry list \<Rightarrow> heap_entry" where
  "heap_max a [] = a"
| "heap_max a (b # bs) = (if heap_before a b then heap_max a bs else heap_max b bs)"

definition heap_key :: "commit_summary list \<Rightarrow> nat \<Rightarrow> heap_entry" where
  "heap_key cs i = (cs_time (cs ! i), cs_id (cs ! i), i)"

definition count_parents :: "(oid \<rightharpoonup> nat) \<Rightarrow> oid list \<Rightarrow> nat list \<Rightarrow> nat list" where
  "count_parents ix ps pc =
     fold (\<lambda>p pc. case ix p of Some i \<Rightarrow> pc[i := pc ! i + 1] | None \<Rightarrow> pc) ps pc"

definition pending_children :: "commit_summary list \<Rightarrow> nat list" where
  "pending_children cs =
     (let ix = index_map (map cs_id cs)
      in fold (\<lambda>c pc. count_parents ix (cs_parents c) pc) cs (replicate (length cs) 0))"

text \<open>The body of \<open>for p in &commits[i].parents\<close> in the walk.\<close>

fun release_parents ::
  "commit_summary list \<Rightarrow> (oid \<rightharpoonup> nat) \<Rightarrow> oid list \<Rightarrow> nat list \<Rightarrow> heap_entry list \<Rightarrow>
     (nat list \<times> heap_entry list) option" where
  "release_parents cs ix [] pc ready = Some (pc, ready)"
| "release_parents cs ix (p # ps) pc ready =
     (case ix p of
        None \<Rightarrow> release_parents cs ix ps pc ready
      | Some i \<Rightarrow>
          if length pc \<le> i \<or> pc ! i = 0 then None
          else let pc' = pc[i := pc ! i - 1]
               in release_parents cs ix ps pc'
                    (if pc' ! i = 0 then heap_key cs i # ready else ready))"

lemma release_parents_measure:
  "release_parents cs ix ps pc ready = Some (pc', ready') \<Longrightarrow>
     length ready' + sum_list pc' \<le> length ready + sum_list pc"
proof (induction cs ix ps pc ready arbitrary: pc' ready' rule: release_parents.induct)
  case (1 cs ix pc ready)
  then show ?case by simp
next
  case (2 cs ix p ps pc ready)
  show ?case
  proof (cases "ix p")
    case None
    with 2 show ?thesis by simp
  next
    case (Some i)
    with "2.prems" have b: "i < length pc" "0 < pc ! i" by (auto split: if_splits)
    let ?pc = "pc[i := pc ! i - 1]"
    let ?rd = "if ?pc ! i = 0 then heap_key cs i # ready else ready"
    have rest: "release_parents cs ix ps ?pc ?rd = Some (pc', ready')"
      using "2.prems" Some b by (simp add: Let_def split: if_splits)
    have "length ready' + sum_list pc' \<le> length ?rd + sum_list ?pc"
      using "2.IH"(2)[OF Some _ refl] b rest by simp
    moreover have "length ?rd \<le> Suc (length ready)" by simp
    ultimately show ?thesis using sum_list_dec[OF b] by linarith
  qed
qed

definition record_ties ::
  "commit_summary list \<Rightarrow> bool \<Rightarrow> heap_entry \<Rightarrow> heap_entry list \<Rightarrow> oid set \<Rightarrow> oid set" where
  "record_ties cs want e ready ties =
     (if \<not> want then ties
      else let tied = filter (\<lambda>(t, _, _). t = fst e) ready
           in if tied = [] then ties
              else insert (cs_id (cs ! snd (snd e)))
                     (ties \<union> set (map (\<lambda>(_, _, i). cs_id (cs ! i)) tied)))"

lemma heap_max_in: "heap_max h hs \<in> set (h # hs)"
  by (induction h hs rule: heap_max.induct) auto

text \<open>The \<open>while let Some(..) = ready.pop()\<close> loop.\<close>

function walk_loop ::
  "commit_summary list \<Rightarrow> (oid \<rightharpoonup> nat) \<Rightarrow> bool \<Rightarrow> nat list \<Rightarrow> heap_entry list \<Rightarrow> nat list \<Rightarrow>
     oid set \<Rightarrow> (nat list \<times> oid set) option" where
  "walk_loop cs ix want pc [] order ties = Some (order, ties)"
| "walk_loop cs ix want pc (h # hs) order ties =
     (let e = heap_max h hs; ready = remove1 e (h # hs); i = snd (snd e);
          ties' = record_ties cs want e ready ties
      in case release_parents cs ix (cs_parents (cs ! i)) pc ready of
           None \<Rightarrow> None
         | Some (pc', ready') \<Rightarrow> walk_loop cs ix want pc' ready' (order @ [i]) ties')"
  by pat_completeness auto

termination
proof (relation "measure (\<lambda>(cs, ix, want, pc, ready, order, ties). length ready + sum_list pc)")
  fix cs ix and want :: bool and pc h hs and order :: "nat list" and ties :: "oid set"
  fix e ready i ties' z pc' ready'
  assume e: "e = heap_max h hs" and ready: "ready = remove1 e (h # hs)"
    and i: "i = snd (snd e)" and ties': "ties' = record_ties cs want e ready ties"
    and rel: "release_parents cs ix (cs_parents (cs ! i)) pc ready = Some z" "(pc', ready') = z"
  have "length ready = length (h # hs) - 1"
    using heap_max_in[of h hs] by (simp only: e ready length_remove1 if_True)
  with release_parents_measure[of cs ix "cs_parents (cs ! i)" pc ready pc' ready'] rel
  show "((cs, ix, want, pc', ready', order @ [i], ties'), (cs, ix, want, pc, h # hs, order, ties))
      \<in> measure (\<lambda>(cs, ix, want, pc, ready, order, ties). length ready + sum_list pc)"
    by simp
qed simp

text \<open>
  \<open>walk\<close>, \<open>stable_topo_order\<close> and \<open>topo_order_with_id_ties\<close>. When the walk emitted fewer
  commits than it was given (a cycle), the arrival order is returned; taking a commit out of its
  slot a second time (\<open>slots[i].take().expect(..)\<close>) is a panic.
\<close>

definition initial_ready :: "commit_summary list \<Rightarrow> heap_entry list" where
  "initial_ready cs =
     map (heap_key cs) (filter (\<lambda>i. pending_children cs ! i = 0) [0..<length cs])"

definition walk :: "commit_summary list \<Rightarrow> bool \<Rightarrow> (commit_summary list \<times> oid set) option" where
  "walk cs want =
     (case walk_loop cs (index_map (map cs_id cs)) want (pending_children cs)
             (initial_ready cs) [] {} of
        None \<Rightarrow> None
      | Some (order, ties) \<Rightarrow>
          if length order \<noteq> length cs then Some (cs, ties)
          else if \<not> distinct order then None
          else Some (map (\<lambda>i. cs ! i) order, ties))"

definition stable_topo_order :: "commit_summary list \<Rightarrow> commit_summary list option" where
  "stable_topo_order cs = map_option fst (walk cs False)"

definition topo_order_with_id_ties ::
  "commit_summary list \<Rightarrow> (commit_summary list \<times> oid set) option" where
  "topo_order_with_id_ties cs = walk cs True"

subsection \<open>The walk as a greedy choice\<close>

text \<open>
  \<open>occ cs j i\<close> counts how often commit \<open>j\<close> names commit \<open>i\<close> as a parent; \<open>avail cs S\<close> are
  the commits not in \<open>S\<close> all of whose children are in \<open>S\<close>. \<open>greedy_ix\<close> is the abstract walk:
  it takes, again and again, the first available commit in the heap's order, until none is left.
\<close>

abbreviation ids_ix :: "commit_summary list \<Rightarrow> oid \<rightharpoonup> nat" where
  "ids_ix cs \<equiv> index_map (map cs_id cs)"

definition occ :: "commit_summary list \<Rightarrow> nat \<Rightarrow> nat \<Rightarrow> nat" where
  "occ cs j i = count_list (map (ids_ix cs) (cs_parents (cs ! j))) (Some i)"

definition avail :: "commit_summary list \<Rightarrow> nat set \<Rightarrow> nat set" where
  "avail cs S = {i. i < length cs \<and> i \<notin> S \<and> (\<forall>j < length cs. j \<notin> S \<longrightarrow> occ cs j i = 0)}"

fun greedy_ix :: "commit_summary list \<Rightarrow> nat set \<Rightarrow> nat list \<Rightarrow> bool" where
  "greedy_ix cs S [] \<longleftrightarrow> avail cs S = {}"
| "greedy_ix cs S (i # is) \<longleftrightarrow>
     i \<in> avail cs S \<and> (\<forall>j \<in> avail cs S. heap_before (heap_key cs i) (heap_key cs j)) \<and>
     greedy_ix cs (insert i S) is"

lemma heap_before_total: "heap_before a b \<or> heap_before b a"
  by (cases a; cases b) (auto simp: heap_before_def)

lemma heap_before_refl [simp]: "heap_before a a"
  using heap_before_total[of a a] by simp

lemma heap_before_trans: "heap_before a b \<Longrightarrow> heap_before b c \<Longrightarrow> heap_before a c"
  by (cases a; cases b; cases c) (auto simp: heap_before_def)

lemma heap_max_before: "x \<in> set (h # hs) \<Longrightarrow> heap_before (heap_max h hs) x"
proof (induction h hs arbitrary: x rule: heap_max.induct)
  case (1 a)
  then show ?case by simp
next
  case (2 a b bs)
  show ?case
  proof (cases "heap_before a b")
    case True
    have "heap_before (heap_max a bs) y" if "y \<in> set (a # bs)" for y
      using "2.IH"(1)[OF True that] .
    then have "heap_before (heap_max a bs) a" "\<forall>y \<in> set bs. heap_before (heap_max a bs) y"
      by (simp_all del: split_paired_All)
    moreover from this have "heap_before (heap_max a bs) b" using True by (blast intro: heap_before_trans)
    ultimately show ?thesis using True "2.prems" by (simp del: split_paired_All) blast
  next
    case False
    have "heap_before (heap_max b bs) y" if "y \<in> set (b # bs)" for y
      using "2.IH"(2)[OF False that] .
    then have "heap_before (heap_max b bs) b" "\<forall>y \<in> set bs. heap_before (heap_max b bs) y"
      by (simp_all del: split_paired_All)
    moreover from this have "heap_before (heap_max b bs) a"
      using False heap_before_total[of a b] by (blast intro: heap_before_trans)
    ultimately show ?thesis using False "2.prems" by (simp del: split_paired_All) blast
  qed
qed

lemma heap_key_inj: "heap_key cs i = heap_key cs j \<longleftrightarrow> i = j"
  by (auto simp: heap_key_def)

lemma ids_ix_bound: "ids_ix cs p = Some i \<Longrightarrow> i < length cs"
  using index_map_SomeD[of "map cs_id cs" p i] by simp

lemma count_parents_nth:
  assumes "\<forall>p \<in> set ps. \<forall>i. ix p = Some i \<longrightarrow> i < length pc"
  shows "length (count_parents ix ps pc) = length pc \<and>
    (\<forall>i < length pc. count_parents ix ps pc ! i = pc ! i + count_list (map ix ps) (Some i))"
  using assms
proof (induction ps arbitrary: pc)
  case Nil
  then show ?case by (simp add: count_parents_def)
next
  case (Cons p ps)
  show ?case
  proof (cases "ix p")
    case None
    then have "count_parents ix (p # ps) pc = count_parents ix ps pc"
      by (simp add: count_parents_def)
    with None Cons.IH[of pc] Cons.prems show ?thesis by simp
  next
    case (Some k)
    then have step: "count_parents ix (p # ps) pc = count_parents ix ps (pc[k := pc ! k + 1])"
      by (simp add: count_parents_def)
    have k: "k < length pc" using Cons.prems Some by simp
    have "\<forall>p \<in> set ps. \<forall>i. ix p = Some i \<longrightarrow> i < length (pc[k := pc ! k + 1])"
      using Cons.prems by simp
    from Cons.IH[OF this] Some k step show ?thesis
      by (auto simp: nth_list_update)
  qed
qed

lemma pending_children_fold:
  assumes "length pc = length cs"
  shows "length (fold (\<lambda>c pc. count_parents (ids_ix cs) (cs_parents c) pc) ds pc) = length cs \<and>
    (\<forall>i < length cs. fold (\<lambda>c pc. count_parents (ids_ix cs) (cs_parents c) pc) ds pc ! i =
       pc ! i + sum_list (map (\<lambda>c. count_list (map (ids_ix cs) (cs_parents c)) (Some i)) ds))"
  using assms
proof (induction ds arbitrary: pc)
  case Nil
  then show ?case by simp
next
  case (Cons d ds)
  have c: "length (count_parents (ids_ix cs) (cs_parents d) pc) = length cs \<and>
      (\<forall>i < length cs. count_parents (ids_ix cs) (cs_parents d) pc ! i =
         pc ! i + count_list (map (ids_ix cs) (cs_parents d)) (Some i))"
    using count_parents_nth[of "cs_parents d" "ids_ix cs" pc] Cons.prems by (auto dest: ids_ix_bound)
  with Cons.IH[of "count_parents (ids_ix cs) (cs_parents d) pc"] show ?case by simp
qed

lemma pending_children_nth:
  "length (pending_children cs) = length cs"
  "i < length cs \<Longrightarrow> pending_children cs ! i = (\<Sum>j < length cs. occ cs j i)"
proof -
  note f = pending_children_fold[of "replicate (length cs) 0" cs cs, simplified]
  show "length (pending_children cs) = length cs"
    using f by (simp add: pending_children_def)
  assume i: "i < length cs"
  have "sum_list (map (\<lambda>c. count_list (map (ids_ix cs) (cs_parents c)) (Some i)) cs) =
      (\<Sum>j < length cs. occ cs j i)"
    by (simp add: sum_list_sum_nth occ_def lessThan_atLeast0)
  with f i show "pending_children cs ! i = (\<Sum>j < length cs. occ cs j i)"
    by (simp add: pending_children_def)
qed

text \<open>
  Releasing the parents of one commit never panics while the counters cover the parents still to
  be released, and it keeps the heap in step with the counters.
\<close>

definition ready_inv :: "commit_summary list \<Rightarrow> nat set \<Rightarrow> nat list \<Rightarrow> heap_entry list \<Rightarrow> bool" where
  "ready_inv cs D pc ready \<longleftrightarrow>
     length pc = length cs \<and> distinct ready \<and> D \<subseteq> {..<length cs} \<and> (\<forall>i \<in> D. pc ! i = 0) \<and>
     set ready = heap_key cs ` {i. i < length cs \<and> pc ! i = 0 \<and> i \<notin> D}"

lemma ready_inv_dec:
  assumes inv: "ready_inv cs D pc ready" and i: "i < length cs" "0 < pc ! i"
  shows "ready_inv cs D (pc[i := pc ! i - 1])
     (if pc[i := pc ! i - 1] ! i = 0 then heap_key cs i # ready else ready)"
proof -
  have iD: "i \<notin> D" using inv i by (auto simp: ready_inv_def)
  have len: "length pc = length cs" using inv by (simp add: ready_inv_def)
  have "{k. k < length cs \<and> pc[i := pc ! i - 1] ! k = 0 \<and> k \<notin> D} =
      {k. k < length cs \<and> pc ! k = 0 \<and> k \<notin> D} \<union> (if pc ! i = 1 then {i} else {})"
    using i iD len by (auto simp: nth_list_update)
  moreover have "heap_key cs i \<notin> set ready"
    using inv i by (auto simp: ready_inv_def heap_key_inj)
  ultimately show ?thesis
    using inv i iD len by (auto simp: ready_inv_def nth_list_update)
qed

lemma release_parents_ok:
  assumes "ready_inv cs D pc ready"
    and "\<And>i. i < length cs \<Longrightarrow> count_list (map (ids_ix cs) ps) (Some i) \<le> pc ! i"
  shows "\<exists>pc' ready'. release_parents cs (ids_ix cs) ps pc ready = Some (pc', ready') \<and>
     ready_inv cs D pc' ready' \<and>
     (\<forall>i < length cs. pc' ! i = pc ! i - count_list (map (ids_ix cs) ps) (Some i))"
  using assms
proof (induction ps arbitrary: pc ready)
  case Nil
  then show ?case by simp
next
  case (Cons p ps)
  show ?case
  proof (cases "ids_ix cs p")
    case None
    with Cons.IH[OF Cons.prems(1)] Cons.prems(2) show ?thesis by fastforce
  next
    case (Some i)
    have b: "i < length cs" "0 < pc ! i"
      using ids_ix_bound[OF Some] Cons.prems(2)[of i] Some by auto
    have len: "length pc = length cs" using Cons.prems(1) by (simp add: ready_inv_def)
    let ?pc = "pc[i := pc ! i - 1]"
    let ?rd = "if ?pc ! i = 0 then heap_key cs i # ready else ready"
    have inv': "ready_inv cs D ?pc ?rd" by (rule ready_inv_dec[OF Cons.prems(1) b])
    have "count_list (map (ids_ix cs) ps) (Some k) \<le> ?pc ! k" if "k < length cs" for k
      using Cons.prems(2)[OF that] Some b that len by (auto simp: nth_list_update split: if_splits)
    from Cons.IH[OF inv' this] obtain pc' ready' where
      r: "release_parents cs (ids_ix cs) ps ?pc ?rd = Some (pc', ready')"
         "ready_inv cs D pc' ready'"
         "\<forall>k < length cs. pc' ! k = ?pc ! k - count_list (map (ids_ix cs) ps) (Some k)"
      by blast
    have "release_parents cs (ids_ix cs) (p # ps) pc ready = Some (pc', ready')"
      using Some b len r(1) by (simp add: Let_def)
    moreover have "\<forall>k < length cs. pc' ! k = pc ! k - count_list (map (ids_ix cs) (p # ps)) (Some k)"
      using r(3) Some b len by (auto simp: nth_list_update)
    ultimately show ?thesis using r(2) by blast
  qed
qed

text \<open>The state of the loop: the counters count the children still to be emitted.\<close>

definition walk_inv ::
  "commit_summary list \<Rightarrow> nat list \<Rightarrow> heap_entry list \<Rightarrow> nat set \<Rightarrow> bool" where
  "walk_inv cs pc ready S \<longleftrightarrow> ready_inv cs S pc ready \<and>
     (\<forall>i < length cs. pc ! i = (\<Sum>j \<in> {..<length cs} - S. occ cs j i))"

lemma walk_inv_avail:
  assumes "walk_inv cs pc ready S"
  shows "avail cs S = {i. i < length cs \<and> pc ! i = 0 \<and> i \<notin> S}"
    and "set ready = heap_key cs ` avail cs S"
proof -
  show "avail cs S = {i. i < length cs \<and> pc ! i = 0 \<and> i \<notin> S}"
    using assms by (auto simp: walk_inv_def avail_def)
  then show "set ready = heap_key cs ` avail cs S"
    using assms by (simp add: walk_inv_def ready_inv_def)
qed

lemma walk_inv_initial: "walk_inv cs (pending_children cs) (initial_ready cs) {}"
proof -
  have "distinct (initial_ready cs)"
    by (simp add: initial_ready_def distinct_map inj_on_def heap_key_inj)
  then show ?thesis
    by (auto simp: walk_inv_def ready_inv_def pending_children_nth initial_ready_def
        lessThan_def)
qed

lemma walk_inv_step:
  assumes inv: "walk_inv cs pc (h # hs) S"
  defines "e \<equiv> heap_max h hs"
  defines "i \<equiv> snd (snd e)"
  shows "i \<in> avail cs S \<and> (\<forall>j \<in> avail cs S. heap_before (heap_key cs i) (heap_key cs j)) \<and>
    (\<exists>pc' ready'. release_parents cs (ids_ix cs) (cs_parents (cs ! i)) pc (remove1 e (h # hs)) =
        Some (pc', ready') \<and> walk_inv cs pc' ready' (insert i S))"
proof -
  have e_in: "e \<in> set (h # hs)" unfolding e_def by (rule heap_max_in)
  have ready: "set (h # hs) = heap_key cs ` avail cs S" by (rule walk_inv_avail(2)[OF inv])
  with e_in obtain k where k: "k \<in> avail cs S" "e = heap_key cs k" by blast
  then have "i = k" by (simp add: i_def heap_key_def)
  with k have i: "i \<in> avail cs S" and e: "e = heap_key cs i" by simp_all
  have best: "\<forall>j \<in> avail cs S. heap_before (heap_key cs i) (heap_key cs j)"
  proof
    fix j assume "j \<in> avail cs S"
    then have "heap_key cs j \<in> set (h # hs)" using ready by simp
    from heap_max_before[OF this] show "heap_before (heap_key cs i) (heap_key cs j)"
      by (simp add: e[symmetric] e_def)
  qed
  have iS: "i < length cs" "i \<notin> S" "pc ! i = 0"
    using i walk_inv_avail(1)[OF inv] by auto
  have r: "ready_inv cs S pc (h # hs)"
    and pc: "\<And>k. k < length cs \<Longrightarrow> pc ! k = (\<Sum>j \<in> {..<length cs} - S. occ cs j k)"
    using inv by (auto simp: walk_inv_def)
  have r': "ready_inv cs (insert i S) pc (remove1 e (h # hs))"
  proof -
    have "set (remove1 e (h # hs)) = set (h # hs) - {e}"
      using r by (intro set_remove1_eq) (simp add: ready_inv_def)
    also have "\<dots> = heap_key cs ` {k. k < length cs \<and> pc ! k = 0 \<and> k \<notin> insert i S}"
      using r by (auto simp: ready_inv_def e heap_key_inj)
    finally show ?thesis
      using r iS distinct_remove1[of "h # hs" e] by (simp add: ready_inv_def del: remove1.simps)
  qed
  have rest: "(\<Sum>j \<in> {..<length cs} - S. occ cs j k) =
      occ cs i k + (\<Sum>j \<in> {..<length cs} - insert i S. occ cs j k)" for k
  proof -
    have eq: "{..<length cs} - S = insert i ({..<length cs} - insert i S)" using iS by auto
    show ?thesis by (subst eq, subst sum.insert) auto
  qed
  have "count_list (map (ids_ix cs) (cs_parents (cs ! i))) (Some k) \<le> pc ! k" if "k < length cs" for k
    using pc[OF that] rest[of k] by (simp add: occ_def)
  from release_parents_ok[OF r' this] obtain pc' ready' where
    rel: "release_parents cs (ids_ix cs) (cs_parents (cs ! i)) pc (remove1 e (h # hs)) =
        Some (pc', ready')" "ready_inv cs (insert i S) pc' ready'"
      "\<forall>k < length cs. pc' ! k = pc ! k - occ cs i k"
    by (auto simp: occ_def)
  then have "walk_inv cs pc' ready' (insert i S)"
    using pc rest by (simp add: walk_inv_def)
  with i best rel(1) show ?thesis by blast
qed

lemma walk_loop_greedy:
  assumes "walk_inv cs pc ready S"
  shows "\<exists>rest ties'. walk_loop cs (ids_ix cs) want pc ready order ties = Some (order @ rest, ties') \<and>
     greedy_ix cs S rest"
  using assms
proof (induction cs "ids_ix cs" want pc ready order ties arbitrary: S rule: walk_loop.induct)
  case (1 cs want pc order ties)
  then show ?case using walk_inv_avail(2)[OF 1] by simp
next
  case (2 cs want pc h hs order ties)
  let ?e = "heap_max h hs"
  let ?i = "snd (snd ?e)"
  from walk_inv_step[OF "2.prems"] obtain pc' ready' where
    s: "?i \<in> avail cs S" "\<forall>j \<in> avail cs S. heap_before (heap_key cs ?i) (heap_key cs j)"
      "release_parents cs (ids_ix cs) (cs_parents (cs ! ?i)) pc (remove1 ?e (h # hs)) =
         Some (pc', ready')" "walk_inv cs pc' ready' (insert ?i S)"
    by blast
  from "2.hyps"[OF refl refl refl refl s(3) refl s(4)] s show ?case
    by (simp add: Let_def del: remove1.simps) fastforce
qed

lemma greedy_ix_facts:
  assumes "greedy_ix cs S is"
  shows "distinct is \<and> set is \<inter> S = {} \<and> set is \<subseteq> {..<length cs} \<and>
     avail cs (S \<union> set is) = {} \<and>
     (\<forall>k < length is. is ! k \<in> avail cs (S \<union> set (take k is)))"
  using assms
proof (induction cs S "is" rule: greedy_ix.induct)
  case (1 cs S)
  then show ?case by simp
next
  case (2 cs S i "is")
  then have IH: "distinct is" "set is \<inter> insert i S = {}" "set is \<subseteq> {..<length cs}"
      "avail cs (insert i S \<union> set is) = {}"
      "\<forall>k < length is. is ! k \<in> avail cs (insert i S \<union> set (take k is))"
    and i: "i \<in> avail cs S" by auto
  have "\<forall>k < length (i # is). (i # is) ! k \<in> avail cs (S \<union> set (take k (i # is)))"
  proof (intro allI impI)
    fix k assume "k < length (i # is)"
    with IH(5) i show "(i # is) ! k \<in> avail cs (S \<union> set (take k (i # is)))"
      by (cases k) auto
  qed
  with IH i show ?case by (auto simp: avail_def)
qed

subsection \<open>What the sort guarantees\<close>

definition parent_rel :: "commit_summary list \<Rightarrow> (oid \<times> oid) set" where
  "parent_rel cs = {(cs_id c, p) |c p. c \<in> set cs \<and> p \<in> set (cs_parents c) \<and> p \<in> cs_id ` set cs}"

lemma finite_parent_rel: "finite (parent_rel cs)"
proof -
  have "parent_rel cs \<subseteq> (cs_id ` set cs) \<times> (cs_id ` set cs)" by (auto simp: parent_rel_def)
  then show ?thesis by (rule finite_subset) simp
qed

lemma occ_zero_iff:
  assumes "distinct (map cs_id cs)" "i < length cs"
  shows "occ cs j i = 0 \<longleftrightarrow> cs_id (cs ! i) \<notin> set (cs_parents (cs ! j))"
proof -
  have "ids_ix cs p = Some i \<longleftrightarrow> p = cs_id (cs ! i)" for p
    using assms index_map_distinct[OF assms(1), of p i] by auto
  then have "Some i \<in> set (map (ids_ix cs) ps) \<longleftrightarrow> cs_id (cs ! i) \<in> set ps" for ps
    by (simp add: image_iff eq_commute[of "Some i"] del: not_Some_eq)
  then show ?thesis by (simp add: occ_def count_list_0_iff)
qed

lemma avail_nonempty:
  assumes "distinct (map cs_id cs)" "acyclic (parent_rel cs)" "k < length cs" "k \<notin> S"
  shows "avail cs S \<noteq> {}"
proof -
  have wf: "wf (parent_rel cs)" by (rule finite_acyclic_wf[OF finite_parent_rel assms(2)])
  let ?Q = "{cs_id (cs ! i) |i. i < length cs \<and> i \<notin> S}"
  have kQ: "cs_id (cs ! k) \<in> ?Q" using assms(3,4) by blast
  obtain z where z: "z \<in> ?Q" "\<forall>y. (y, z) \<in> parent_rel cs \<longrightarrow> y \<notin> ?Q"
    by (rule wfE_min[OF wf kQ]) blast
  from z(1) obtain i where i: "i < length cs" "i \<notin> S" "z = cs_id (cs ! i)" by blast
  have "occ cs j i = 0" if j: "j < length cs" "j \<notin> S" for j
  proof (rule ccontr)
    assume "occ cs j i \<noteq> 0"
    with occ_zero_iff[OF assms(1) i(1)] have "z \<in> set (cs_parents (cs ! j))" by (simp add: i(3))
    with j i have "(cs_id (cs ! j), z) \<in> parent_rel cs" by (auto simp: parent_rel_def)
    with z(2) j show False by blast
  qed
  with i have "i \<in> avail cs S" by (simp add: avail_def)
  then show ?thesis by blast
qed

lemma walk_result:
  "\<exists>order ties. walk_loop cs (ids_ix cs) want (pending_children cs) (initial_ready cs) [] {} =
     Some (order, ties) \<and> greedy_ix cs {} order"
  using walk_loop_greedy[OF walk_inv_initial, of cs want "[]" "{}"] by auto

lemma full_order_mset:
  assumes "distinct order" "set order \<subseteq> {..<length cs}" "length order = length cs"
  shows "mset (map (\<lambda>i. cs ! i) order) = mset cs"
proof -
  have "set order = {..<length cs}"
    using assms by (metis card_lessThan card_subset_eq distinct_card finite_lessThan)
  then have "mset order = mset [0..<length cs]"
    using set_eq_iff_mset_eq_distinct[OF assms(1) distinct_upt, of 0 "length cs"]
    by (simp add: lessThan_atLeast0)
  then have "mset (map (\<lambda>i. cs ! i) order) = mset (map (\<lambda>i. cs ! i) [0..<length cs])"
    by (simp only: mset_map)
  then show ?thesis by (simp only: map_nth)
qed

lemma topo_total: "\<exists>ds. stable_topo_order cs = Some ds \<and> mset ds = mset cs"
proof -
  from walk_result[of cs False] obtain order ties where
    w: "walk_loop cs (ids_ix cs) False (pending_children cs) (initial_ready cs) [] {} =
      Some (order, ties)" and g: "greedy_ix cs {} order"
    by blast
  from greedy_ix_facts[OF g] full_order_mset[of order cs] w show ?thesis
    by (simp add: stable_topo_order_def walk_def)
qed

text \<open>
  The topological sort always returns (no index is out of range, no counter underflows, the
  loop terminates), and what it returns is a reordering of the commits it was given.
\<close>

theorem stable_topo_order_total:
  "\<exists>ds. stable_topo_order cs = Some ds \<and> mset ds = mset cs"
  by (rule topo_total)

lemma walk_acyclic:
  assumes "distinct (map cs_id cs)" "acyclic (parent_rel cs)"
  shows "\<exists>order. stable_topo_order cs = Some (map (\<lambda>i. cs ! i) order) \<and> greedy_ix cs {} order \<and>
     distinct order \<and> set order = {..<length cs}"
proof -
  from walk_result[of cs False] obtain order ties where
    w: "walk_loop cs (ids_ix cs) False (pending_children cs) (initial_ready cs) [] {} =
      Some (order, ties)" and g: "greedy_ix cs {} order"
    by blast
  note f = greedy_ix_facts[OF g]
  have "k \<in> set order" if "k < length cs" for k
    using avail_nonempty[OF assms that, of "set order"] f by auto
  with f have "set order = {..<length cs}" by auto
  moreover from this f have "length order = length cs"
    by (metis card_lessThan distinct_card)
  ultimately show ?thesis using w f g by (auto simp: stable_topo_order_def walk_def)
qed

lemma topo_children_first:
  assumes "distinct (map cs_id cs)" and "acyclic (parent_rel cs)"
    and "stable_topo_order cs = Some ds"
    and "child < length ds" and "par < length ds"
    and "cs_id (ds ! par) \<in> set (cs_parents (ds ! child))"
  shows "child < par"
proof -
  from walk_acyclic[OF assms(1,2)] assms(3) obtain order where
    ds: "ds = map (\<lambda>i. cs ! i) order" and g: "greedy_ix cs {} order"
    and o: "distinct order" "set order = {..<length cs}"
    by auto
  let ?c = "order ! child" and ?p = "order ! par"
  have len: "child < length order" "par < length order" using assms(4,5) ds by auto
  then have c: "?c < length cs" and p: "?p < length cs"
    using o(2) by (auto simp: set_eq_iff in_set_conv_nth)
  have "occ cs ?c ?p \<noteq> 0"
    using occ_zero_iff[OF assms(1) p] assms(6) ds len by simp
  moreover have "?p \<in> avail cs (set (take par order))"
    using greedy_ix_facts[OF g] len(2) by simp
  ultimately have "?c \<in> set (take par order)"
    using c by (auto simp: avail_def)
  then obtain k where "k < par" "k < length order" "order ! k = ?c"
    by (auto simp: in_set_conv_nth)
  with o(1) len(1) have "k = child" by (simp add: nth_eq_iff_index_eq)
  with \<open>k < par\<close> show ?thesis by simp
qed

text \<open>
  On a history without cycles and without repeated ids the sort puts every commit above all
  of its parents, the order the lane walk and the colouring rely on.
\<close>

theorem stable_topo_order_children_first:
  assumes "distinct (map cs_id cs)" and "acyclic (parent_rel cs)"
    and "stable_topo_order cs = Some ds"
    and "child < length ds" and "par < length ds"
    and "cs_id (ds ! par) \<in> set (cs_parents (ds ! child))"
  shows "child < par"
  using assms by (rule topo_children_first)

text \<open>
  The abstract walk over the set of commits, without indices: \<open>greedy\<close> admits at most one list
  for a set of commits, so the order is a function of the set alone.
\<close>

definition available :: "commit_summary set \<Rightarrow> oid set \<Rightarrow> commit_summary set" where
  "available C S = {c \<in> C. cs_id c \<notin> S \<and> (\<forall>d \<in> C. cs_id d \<notin> S \<longrightarrow> cs_id c \<notin> set (cs_parents d))}"

definition newer :: "commit_summary \<Rightarrow> commit_summary \<Rightarrow> bool" where
  "newer c d \<longleftrightarrow> cs_time d < cs_time c \<or> (cs_time d = cs_time c \<and> cs_id c \<le> cs_id d)"

fun greedy :: "commit_summary set \<Rightarrow> oid set \<Rightarrow> commit_summary list \<Rightarrow> bool" where
  "greedy C S [] \<longleftrightarrow> available C S = {}"
| "greedy C S (c # cs) \<longleftrightarrow>
     c \<in> available C S \<and> (\<forall>d \<in> available C S. newer c d) \<and> greedy C (insert (cs_id c) S) cs"

lemma newer_antisym: "newer c d \<Longrightarrow> newer d c \<Longrightarrow> cs_id c = cs_id d"
  by (auto simp: newer_def)

lemma greedy_unique:
  assumes "inj_on cs_id C" "greedy C S xs" "greedy C S ys"
  shows "xs = ys"
  using assms(2,3)
proof (induction xs arbitrary: S ys)
  case Nil
  then show ?case by (cases ys) auto
next
  case (Cons x xs)
  then obtain y ys' where ys: "ys = y # ys'" by (cases ys) auto
  with Cons.prems have xy: "newer x y" "newer y x" "x \<in> C" "y \<in> C"
    by (auto simp: available_def)
  have "x = y" by (rule inj_onD[OF assms(1) newer_antisym[OF xy(1,2)] xy(3,4)])
  with Cons ys show ?case by auto
qed

lemma available_ix:
  assumes "distinct (map cs_id cs)" "S \<subseteq> {..<length cs}"
  shows "available (set cs) ((\<lambda>i. cs_id (cs ! i)) ` S) = (\<lambda>i. cs ! i) ` avail cs S"
proof -
  have inS: "cs_id (cs ! i) \<in> (\<lambda>i. cs_id (cs ! i)) ` S \<longleftrightarrow> i \<in> S" if "i < length cs" for i
    using that assms nth_eq_iff_index_eq[OF assms(1)] by fastforce
  have "cs ! i \<in> available (set cs) ((\<lambda>i. cs_id (cs ! i)) ` S) \<longleftrightarrow> i \<in> avail cs S"
    if "i < length cs" for i
  proof -
    have "cs ! i \<in> set cs" using that by simp
    moreover have "(\<forall>d \<in> set cs. cs_id d \<notin> (\<lambda>i. cs_id (cs ! i)) ` S \<longrightarrow> cs_id (cs ! i) \<notin> set (cs_parents d)) \<longleftrightarrow>
        (\<forall>j < length cs. j \<notin> S \<longrightarrow> occ cs j i = 0)"
      unfolding all_set_conv_all_nth using inS occ_zero_iff[OF assms(1) that] by metis
    ultimately show ?thesis
      using that inS[OF that] unfolding available_def avail_def mem_Collect_eq by blast
  qed
  moreover have "available (set cs) ((\<lambda>i. cs_id (cs ! i)) ` S) \<subseteq> (\<lambda>i. cs ! i) ` {..<length cs}"
    by (auto simp: available_def in_set_conv_nth)
  moreover have "avail cs S \<subseteq> {..<length cs}" by (auto simp: avail_def)
  ultimately show ?thesis by blast
qed

lemma greedy_of_ix:
  assumes "distinct (map cs_id cs)" "S \<subseteq> {..<length cs}" "greedy_ix cs S is"
  shows "greedy (set cs) ((\<lambda>i. cs_id (cs ! i)) ` S) (map (\<lambda>i. cs ! i) is)"
  using assms(2,3)
proof (induction "is" arbitrary: S)
  case Nil
  with available_ix[OF assms(1)] show ?case by simp
next
  case (Cons i "is")
  have av: "available (set cs) ((\<lambda>i. cs_id (cs ! i)) ` S) = (\<lambda>i. cs ! i) ` avail cs S"
    by (rule available_ix[OF assms(1) Cons.prems(1)])
  have i: "i \<in> avail cs S" "i < length cs" using Cons.prems(2) by (auto simp: avail_def)
  have "\<forall>j \<in> avail cs S. newer (cs ! i) (cs ! j)"
    using Cons.prems(2) by (auto simp: newer_def heap_before_def heap_key_def)
  moreover have "greedy (set cs) ((\<lambda>i. cs_id (cs ! i)) ` insert i S) (map (\<lambda>i. cs ! i) is)"
    using Cons.prems i(2) by (intro Cons.IH) auto
  ultimately show ?case using av i by simp
qed

text \<open>
  The order is a function of the commits alone: however the history walk happened to queue
  them, two listings of the same commits are normalised to the same order.
\<close>

theorem stable_topo_order_deterministic:
  assumes "distinct (map cs_id xs)" and "acyclic (parent_rel xs)" and "mset xs = mset ys"
  shows "stable_topo_order xs = stable_topo_order ys"
proof -
  have dy: "distinct (map cs_id ys)"
    using assms(1,3) by (metis mset_map mset_eq_imp_distinct_iff)
  have sets: "set xs = set ys" by (rule mset_eq_setD[OF assms(3)])
  then have ay: "acyclic (parent_rel ys)"
    using assms(2) by (simp add: parent_rel_def)
  from walk_acyclic[OF assms(1,2)] obtain ox where
    x: "stable_topo_order xs = Some (map (\<lambda>i. xs ! i) ox)" "greedy_ix xs {} ox" by blast
  from walk_acyclic[OF dy ay] obtain oy where
    y: "stable_topo_order ys = Some (map (\<lambda>i. ys ! i) oy)" "greedy_ix ys {} oy" by blast
  have "greedy (set xs) {} (map (\<lambda>i. xs ! i) ox)" "greedy (set xs) {} (map (\<lambda>i. ys ! i) oy)"
    using greedy_of_ix[OF assms(1) _ x(2)] greedy_of_ix[OF dy _ y(2)] sets by simp_all
  moreover have "inj_on cs_id (set xs)" using assms(1) by (simp add: distinct_map)
  ultimately show ?thesis using x(1) y(1) greedy_unique by metis
qed

text \<open>A merge history used to instantiate the theorems on the sort.\<close>

definition sample_history :: "commit_summary list" where
  "sample_history =
     [\<lparr>cs_id = ''a'', cs_parents = [], cs_summary = [], cs_author = [], cs_time = 1\<rparr>,
      \<lparr>cs_id = ''d'', cs_parents = [''b'', ''c''], cs_summary = [], cs_author = [], cs_time = 3\<rparr>,
      \<lparr>cs_id = ''c'', cs_parents = [''a''], cs_summary = [], cs_author = [], cs_time = 2\<rparr>,
      \<lparr>cs_id = ''b'', cs_parents = [''a''], cs_summary = [], cs_author = [], cs_time = 2\<rparr>]"

lemma sample_history_distinct: "distinct (map cs_id sample_history)"
  by (simp add: sample_history_def)

lemma sample_history_acyclic: "acyclic (parent_rel sample_history)"
proof -
  let ?rank = "\<lambda>s::string. if s = ''d'' then (0::nat) else if s = ''a'' then 2 else 1"
  have "parent_rel sample_history \<subseteq> measure ?rank"
    by (auto simp: parent_rel_def sample_history_def)
  then show ?thesis by (meson wf_acyclic wf_measure wf_subset)
qed

lemma sample_history_order:
  "stable_topo_order sample_history =
     Some [sample_history ! 1, sample_history ! 3, sample_history ! 2, sample_history ! 0]"
  by code_simp

definition sample_sorted :: "commit_summary list" where
  "sample_sorted = [sample_history ! 1, sample_history ! 3, sample_history ! 2, sample_history ! 0]"

lemma stable_topo_order_children_first_witness:
  "stable_topo_order sample_history = Some sample_sorted \<and> (1::nat) < 3"
  using stable_topo_order_children_first[OF sample_history_distinct sample_history_acyclic,
      of sample_sorted 1 3] sample_history_order
  by (simp add: sample_sorted_def sample_history_def)

lemma stable_topo_order_deterministic_witness:
  "stable_topo_order sample_history = stable_topo_order (rev sample_history) \<and>
   sample_history \<noteq> rev sample_history"
  using stable_topo_order_deterministic[OF sample_history_distinct sample_history_acyclic,
      of "rev sample_history"]
  by (simp add: sample_history_def)

subsection \<open>Lane picking and the trunk\<close>

type_synonym lanes = "oid option list"

definition leftmost_free :: "lanes \<Rightarrow> lanes \<times> nat" where
  "leftmost_free ls =
     (case position (\<lambda>s. s = None) ls of
        Some i \<Rightarrow> (ls, i)
      | None \<Rightarrow> (ls @ [None], length ls))"

definition leftmost_free_right_of :: "lanes \<Rightarrow> nat \<Rightarrow> lanes \<times> nat" where
  "leftmost_free_right_of ls after =
     (case find (\<lambda>i. ls ! i = None) [after + 1..<length ls] of
        Some i \<Rightarrow> (ls, i)
      | None \<Rightarrow> (ls @ [None], length ls))"

text \<open>
  The interface the lane walk relies on: an allocator hands out a free lane and leaves every
  reservation where it is. Both helpers provide it.
\<close>

locale lane_alloc =
  fixes alloc :: "lanes \<Rightarrow> lanes \<times> nat"
  assumes alloc_free: "alloc ls = (ls', i) \<Longrightarrow> i < length ls' \<and> ls' ! i = None"
    and alloc_shape: "alloc ls = (ls', i) \<Longrightarrow> ls' = ls \<or> ls' = ls @ [None]"
begin

lemma alloc_keeps:
  assumes "alloc ls = (ls', i)" "j < length ls" "ls ! j = Some q"
  shows "j < length ls' \<and> ls' ! j = Some q \<and> j \<noteq> i"
  using alloc_free[OF assms(1)] alloc_shape[OF assms(1)] assms(2,3)
  by (auto simp: nth_append split: if_splits)

lemma alloc_set: "alloc ls = (ls', i) \<Longrightarrow> Some q \<in> set ls' \<longleftrightarrow> Some q \<in> set ls"
  using alloc_shape[of ls ls' i] by auto

lemma alloc_update_keeps:
  assumes "alloc ls = (ls', i)" "j < length ls" "ls ! j = Some q"
  shows "j < length (ls'[i := v]) \<and> ls'[i := v] ! j = Some q"
  using alloc_keeps[OF assms] by simp

lemma alloc_update_set:
  assumes "alloc ls = (ls', i)"
  shows "Some q \<in> set (ls'[i := Some p]) \<longleftrightarrow> q = p \<or> Some q \<in> set ls"
proof
  assume "Some q \<in> set (ls'[i := Some p])"
  then show "q = p \<or> Some q \<in> set ls"
    using set_update_subset_insert[of ls' i "Some p"] alloc_set[OF assms] by auto
next
  assume "q = p \<or> Some q \<in> set ls"
  then show "Some q \<in> set (ls'[i := Some p])"
  proof
    assume "q = p"
    then show ?thesis using alloc_free[OF assms] by (simp add: set_update_memI)
  next
    assume "Some q \<in> set ls"
    then obtain j where "j < length ls" "ls ! j = Some q" by (auto simp: in_set_conv_nth)
    from alloc_update_keeps[OF assms this, of "Some p"] show ?thesis by (metis nth_mem)
  qed
qed

end

interpretation leftmost: lane_alloc leftmost_free
  by unfold_locales
    (auto simp: leftmost_free_def position_None split: option.splits dest: position_Some)

interpretation rightward: lane_alloc "\<lambda>ls. leftmost_free_right_of ls after" for after
  by unfold_locales
    (auto simp: leftmost_free_right_of_def find_None_iff find_Some_iff split: option.splits)

lemma leftmost_free_right_of_gt:
  "leftmost_free_right_of ls after = (ls', i) \<Longrightarrow> after < length ls \<Longrightarrow> after < i"
  by (auto simp: leftmost_free_right_of_def find_Some_iff split: option.splits)

definition local_target :: "git_ref list \<Rightarrow> string \<Rightarrow> oid option" where
  "local_target refs name =
     map_option ref_target (find (\<lambda>r. ref_kind r = Branch \<and> ref_name r = name) refs)"

definition trunk_reserve_tip :: "git_ref list \<Rightarrow> string option \<Rightarrow> oid option" where
  "trunk_reserve_tip refs head_branch =
     (case local_target refs ''main'' of
        Some t \<Rightarrow> Some t
      | None \<Rightarrow> (case local_target refs ''master'' of
          Some t \<Rightarrow> Some t
        | None \<Rightarrow> Option.bind head_branch (local_target refs)))"

end
