(* ===== verification/Coloring.thy ===== *)
theory Coloring imports Palette Topology begin

text \<open>
  \<open>crates/git-vista-core/src/layout/color.rs\<close>: the whole-graph colouring pass. Branch refs seed
  the colouring in priority order; each seed claims its first-parent chain down to the first row
  that is already owned, a local branch whose tip is owned becomes a stub, and what is left over
  starts synthetic lines. \<open>colors\<close> is the map \<open>color_of\<close> from a row to its slot; a row index out
  of range is a panic (\<open>None\<close>), and \<open>assign_branch_colors_total\<close> shows it cannot happen on rows
  that are numbered by their position.
\<close>

type_synonym colors = "nat \<rightharpoonup> nat"

definition usize_max :: nat where
  "usize_max = 2 ^ 64 - 1"

definition row_index :: "graph_row list \<Rightarrow> oid \<rightharpoonup> nat" where
  "row_index rows = map_of (rev (map (\<lambda>r. (row_id r, gr_row r)) rows))"

definition seed_key ::
  "(oid \<rightharpoonup> nat) \<Rightarrow> string option \<Rightarrow> git_ref \<Rightarrow> nat \<times> bool \<times> nat \<times> string" where
  "seed_key ix head_branch r =
     (ref_rank head_branch r, ref_kind r = RemoteBranch,
      case ix (ref_target r) of Some row \<Rightarrow> row | None \<Rightarrow> usize_max, ref_name r)"

definition color_seeds ::
  "(oid \<rightharpoonup> nat) \<Rightarrow> git_ref list \<Rightarrow> string option \<Rightarrow> git_ref list" where
  "color_seeds ix refs head_branch = sort_key (seed_key ix head_branch) (filter is_branch refs)"

text \<open>The row the walk goes to from a row: its first parent, when that is in the window.\<close>

definition next_row_of :: "graph_row list \<Rightarrow> (oid \<rightharpoonup> nat) \<Rightarrow> nat \<Rightarrow> nat option" where
  "next_row_of rows ix row = Option.bind (first_parent (gr_commit (rows ! row))) ix"

text \<open>The closure \<open>claim\<close>, after its slot is chosen.\<close>

function claim_chain ::
  "graph_row list \<Rightarrow> (oid \<rightharpoonup> nat) \<Rightarrow> nat \<Rightarrow> nat option \<Rightarrow> colors \<Rightarrow> colors option" where
  "claim_chain rows ix slot None col = Some col"
| "claim_chain rows ix slot (Some row) col =
     (if col row \<noteq> None then Some col
      else if length rows \<le> row then None
      else claim_chain rows ix slot (next_row_of rows ix row) (col(row \<mapsto> slot)))"
  by pat_completeness auto

termination
proof (relation "measure (\<lambda>(rows, ix, slot, cur, col). card {r. r < length rows \<and> col r = None})")
  fix rows :: "graph_row list" and ix :: "oid \<rightharpoonup> nat" and slot row :: nat and col :: colors
  assume a: "\<not> col row \<noteq> None" "\<not> length rows \<le> row"
  have "{r. r < length rows \<and> (col(row \<mapsto> slot)) r = None} =
      {r. r < length rows \<and> col r = None} - {row}" by auto
  moreover have "card ({r. r < length rows \<and> col r = None} - {row}) <
      card {r. r < length rows \<and> col r = None}"
    using a by (intro card_Diff1_less) auto
  ultimately show "((rows, ix, slot, next_row_of rows ix row, col(row \<mapsto> slot)),
      (rows, ix, slot, Some row, col))
      \<in> measure (\<lambda>(rows, ix, slot, cur, col). card {r. r < length rows \<and> col r = None})"
    by simp
qed simp

definition color_seed ::
  "graph_row list \<Rightarrow> (oid \<rightharpoonup> nat) \<Rightarrow> git_ref list \<Rightarrow> string option \<Rightarrow> git_ref \<Rightarrow>
     colors \<times> (string \<times> nat) list \<Rightarrow> (colors \<times> (string \<times> nat) list) option" where
  "color_seed rows ix refs head_branch seed st =
     (case st of (col, stubs) \<Rightarrow>
        (let tip = ix (ref_target seed); is_local = ref_kind seed = Branch;
             claimed = map_option (\<lambda>col'. (col', stubs))
               (claim_chain rows ix (line_slot refs head_branch (ref_name seed)) tip col)
         in case tip of
              Some row \<Rightarrow>
                if is_local \<and> col row \<noteq> None then Some (col, stubs @ [(ref_name seed, row)])
                else claimed
            | None \<Rightarrow> claimed))"

definition color_leftover ::
  "graph_row list \<Rightarrow> (oid \<rightharpoonup> nat) \<Rightarrow> git_ref list \<Rightarrow> string option \<Rightarrow> nat \<Rightarrow> colors \<Rightarrow>
     colors option" where
  "color_leftover rows ix refs head_branch row col =
     (if col row \<noteq> None then Some col
      else claim_chain rows ix (line_slot refs head_branch (synthetic_name (row_id (rows ! row))))
             (Some row) col)"

definition paint :: "colors \<Rightarrow> graph_row \<Rightarrow> graph_row" where
  "paint col r = r\<lparr>gr_color := (case col (gr_row r) of Some c \<Rightarrow> c | None \<Rightarrow> 0)\<rparr>"

definition assign_branch_colors ::
  "graph_row list \<Rightarrow> git_ref list \<Rightarrow> string option \<Rightarrow>
     (graph_row list \<times> (string \<times> nat) list) option" where
  "assign_branch_colors rows refs head_branch =
     (let ix = row_index rows
      in case fold_option (color_seed rows ix refs head_branch) (color_seeds ix refs head_branch)
                (\<lambda>_. None, []) of
           None \<Rightarrow> None
         | Some (col, stubs) \<Rightarrow>
             (case fold_option (color_leftover rows ix refs head_branch) [0..<length rows] col of
                None \<Rightarrow> None
              | Some col' \<Rightarrow> Some (map (paint col') rows, stubs)))"

subsection \<open>Chains\<close>

text \<open>
  \<open>chain\<close> is the first-parent walk as a relation: \<open>chain rows ix a b\<close> when the walk from row
  \<open>a\<close> comes through row \<open>b\<close>. A colouring is closed when it never stops inside a chain.
\<close>

inductive chain :: "graph_row list \<Rightarrow> (oid \<rightharpoonup> nat) \<Rightarrow> nat \<Rightarrow> nat \<Rightarrow> bool"
  for rows :: "graph_row list" and ix :: "oid \<rightharpoonup> nat" where
  chain_here: "chain rows ix a a"
| chain_down: "next_row_of rows ix a = Some b \<Longrightarrow> chain rows ix b c \<Longrightarrow> chain rows ix a c"

inductive_cases chain_cases: "chain rows ix a c"

lemma chain_iff: "chain rows ix a c \<longleftrightarrow> a = c \<or> (\<exists>b. next_row_of rows ix a = Some b \<and> chain rows ix b c)"
  by (auto elim: chain_cases intro: chain.intros)

lemma chain_snoc: "chain rows ix a b \<Longrightarrow> next_row_of rows ix b = Some c \<Longrightarrow> chain rows ix a c"
  by (induction rule: chain.induct) (auto intro: chain.intros)

lemma chain_last:
  "chain rows ix a c \<Longrightarrow> a = c \<or> (\<exists>b. chain rows ix a b \<and> next_row_of rows ix b = Some c)"
  by (induction rule: chain.induct) (auto intro: chain.intros)

definition in_window :: "graph_row list \<Rightarrow> (oid \<rightharpoonup> nat) \<Rightarrow> bool" where
  "in_window rows ix \<longleftrightarrow> (\<forall>p i. ix p = Some i \<longrightarrow> i < length rows)"

lemma in_window_next: "in_window rows ix \<Longrightarrow> next_row_of rows ix r = Some b \<Longrightarrow> b < length rows"
  by (auto simp: next_row_of_def in_window_def bind_eq_Some_conv)

definition closed_under :: "graph_row list \<Rightarrow> (oid \<rightharpoonup> nat) \<Rightarrow> colors \<Rightarrow> bool" where
  "closed_under rows ix col \<longleftrightarrow>
     (\<forall>r b. col r \<noteq> None \<longrightarrow> next_row_of rows ix r = Some b \<longrightarrow> col b \<noteq> None)"

lemma closed_chain: "chain rows ix a c \<Longrightarrow> closed_under rows ix col \<Longrightarrow> col a \<noteq> None \<Longrightarrow> col c \<noteq> None"
  by (induction rule: chain.induct) (auto simp: closed_under_def)

definition claimed_by :: "graph_row list \<Rightarrow> (oid \<rightharpoonup> nat) \<Rightarrow> nat \<Rightarrow> nat option \<Rightarrow> colors \<Rightarrow> colors" where
  "claimed_by rows ix slot cur col =
     (\<lambda>r. if col r \<noteq> None then col r
          else case cur of Some a \<Rightarrow> if chain rows ix a r then Some slot else None | None \<Rightarrow> None)"

lemma claim_chain_walk:
  assumes "in_window rows ix" and "\<And>a. cur = Some a \<Longrightarrow> a < length rows"
    and "\<And>r b. col r \<noteq> None \<Longrightarrow> next_row_of rows ix r = Some b \<Longrightarrow> col b \<noteq> None \<or> cur = Some b"
  shows "claim_chain rows ix slot cur col = Some (claimed_by rows ix slot cur col)"
  using assms
proof (induction rows ix slot cur col rule: claim_chain.induct)
  case (1 rows ix slot col)
  show ?case by (auto simp: claimed_by_def)
next
  case (2 rows ix slot row col)
  show ?case
  proof (cases "col row = None")
    case False
    then have "closed_under rows ix col" using "2.prems"(3) by (fastforce simp: closed_under_def)
    from closed_chain[OF _ this] False
    have "chain rows ix row r \<Longrightarrow> col r \<noteq> None" for r by blast
    then have "claimed_by rows ix slot (Some row) col = col" by (auto simp: claimed_by_def fun_eq_iff)
    with False show ?thesis by simp
  next
    case True
    let ?col = "col(row \<mapsto> slot)" and ?nx = "next_row_of rows ix row"
    have row: "row < length rows" using "2.prems"(2) by simp
    have "claim_chain rows ix slot ?nx ?col = Some (claimed_by rows ix slot ?nx ?col)"
    proof (rule "2.IH")
      show "\<not> col row \<noteq> None" "\<not> length rows \<le> row" using True row by auto
      show "in_window rows ix" by fact
      show "a < length rows" if "?nx = Some a" for a using in_window_next[OF "2.prems"(1) that] .
      show "?col b \<noteq> None \<or> ?nx = Some b"
        if "?col r \<noteq> None" "next_row_of rows ix r = Some b" for r b
        using that "2.prems"(3)[of r b] by (auto split: if_splits)
    qed
    moreover have "claimed_by rows ix slot ?nx ?col = claimed_by rows ix slot (Some row) col"
    proof
      fix r
      show "claimed_by rows ix slot ?nx ?col r = claimed_by rows ix slot (Some row) col r"
        using True chain_iff[of rows ix row r] by (auto simp: claimed_by_def split: option.splits)
    qed
    ultimately show ?thesis using True row by simp
  qed
qed

lemma claim_chain_closed:
  assumes "in_window rows ix" "closed_under rows ix col" "\<And>a. cur = Some a \<Longrightarrow> a < length rows"
  shows "claim_chain rows ix slot cur col = Some (claimed_by rows ix slot cur col)"
  using assms by (intro claim_chain_walk) (auto simp: closed_under_def)

lemma claimed_by_closed:
  assumes "closed_under rows ix col" shows "closed_under rows ix (claimed_by rows ix slot cur col)"
  using assms by (auto simp: closed_under_def claimed_by_def split: option.splits intro: chain_snoc)

subsection \<open>No index is ever out of range\<close>

definition numbered :: "graph_row list \<Rightarrow> bool" where
  "numbered rows \<longleftrightarrow> map gr_row rows = [0..<length rows]"

lemma numbered_nth: "numbered rows \<Longrightarrow> i < length rows \<Longrightarrow> gr_row (rows ! i) = i"
  unfolding numbered_def by (metis add_0 nth_map nth_upt)

lemma row_index_numbered:
  assumes "numbered rows" shows "row_index rows = index_map (map row_id rows)"
proof -
  have "map (\<lambda>r. (row_id r, gr_row r)) rows = zip (map row_id rows) (map gr_row rows)"
    by (simp add: zip_map_map zip_same_conv_map)
  with assms show ?thesis by (simp add: row_index_def index_map_def numbered_def)
qed

lemma row_index_window: "numbered rows \<Longrightarrow> in_window rows (row_index rows)"
  by (auto simp: in_window_def row_index_numbered dest: index_map_SomeD)

lemma claim_chain_total:
  assumes "in_window rows ix" "closed_under rows ix col" "\<And>a. cur = Some a \<Longrightarrow> a < length rows"
  shows "\<exists>col'. claim_chain rows ix slot cur col = Some col' \<and> closed_under rows ix col'"
  using claim_chain_closed[OF assms] claimed_by_closed[OF assms(2)] by blast

definition seeds_inv :: "graph_row list \<Rightarrow> (oid \<rightharpoonup> nat) \<Rightarrow> colors \<times> (string \<times> nat) list \<Rightarrow> bool" where
  "seeds_inv rows ix st \<longleftrightarrow>
     closed_under rows ix (fst st) \<and> (\<forall>stub \<in> set (snd st). snd stub < length rows)"

lemma color_seed_total:
  assumes "in_window rows ix" "seeds_inv rows ix st"
  shows "\<exists>st'. color_seed rows ix refs head_branch seed st = Some st' \<and> seeds_inv rows ix st'"
proof -
  obtain col stubs where st: "st = (col, stubs)" by fastforce
  have tip: "a < length rows" if "ix (ref_target seed) = Some a" for a
    using assms(1) that by (simp add: in_window_def)
  have "closed_under rows ix col" using assms(2) st by (simp add: seeds_inv_def)
  from claim_chain_total[OF assms(1) this tip] obtain col' where
    "claim_chain rows ix (line_slot refs head_branch (ref_name seed)) (ix (ref_target seed)) col = Some col'"
    "closed_under rows ix col'" by blast
  with st assms(2) tip show ?thesis
    by (cases "ix (ref_target seed)"; cases "ref_kind seed = Branch \<and> col (the (ix (ref_target seed))) \<noteq> None")
      (auto simp add: color_seed_def seeds_inv_def)
qed

lemma color_leftover_total:
  assumes "in_window rows ix" "row < length rows" "closed_under rows ix col"
  shows "\<exists>col'. color_leftover rows ix refs head_branch row col = Some col' \<and> closed_under rows ix col'"
  using assms claim_chain_total[of rows ix col "Some row"] by (auto simp: color_leftover_def)

lemma assign_branch_colors_total:
  assumes "numbered rows"
  shows "\<exists>col stubs. assign_branch_colors rows refs head_branch = Some (map (paint col) rows, stubs) \<and>
    (\<forall>stub \<in> set stubs. snd stub < length rows)"
proof -
  let ?ix = "row_index rows"
  note w = row_index_window[OF assms]
  have "seeds_inv rows ?ix (\<lambda>_. None, [])" by (simp add: closed_under_def seeds_inv_def)
  then have "\<exists>st. fold_option (color_seed rows ?ix refs head_branch)
      (color_seeds ?ix refs head_branch) (\<lambda>_. None, []) = Some st \<and> seeds_inv rows ?ix st"
    using color_seed_total[OF w] by (intro fold_option_total) auto
  then obtain st where st: "fold_option (color_seed rows ?ix refs head_branch)
      (color_seeds ?ix refs head_branch) (\<lambda>_. None, []) = Some st" "seeds_inv rows ?ix st"
    by blast
  have "\<exists>col. fold_option (color_leftover rows ?ix refs head_branch) [0..<length rows] (fst st) =
      Some col \<and> closed_under rows ?ix col"
  proof (rule fold_option_total)
    show "closed_under rows ?ix (fst st)" using st(2) by (simp add: seeds_inv_def)
    show "\<exists>t. color_leftover rows ?ix refs head_branch row col = Some t \<and> closed_under rows ?ix t"
      if "row \<in> set [0..<length rows]" "closed_under rows ?ix col" for row col
      using color_leftover_total[OF w _ that(2)] that(1) by simp
  qed
  with st(1) show ?thesis 
    using st(2) by (cases st) (auto simp add: assign_branch_colors_def Let_def seeds_inv_def)
qed

subsection \<open>The claim that wins a row\<close>

text \<open>
  Every branch ref in the window and every row has one claim. \<open>claims_at\<close> collects the claims
  whose chain comes through a row and \<open>winning_key\<close> is the smallest. The pass gives every row the
  slot of its winning claim, and makes a stub of every local branch that does not win its own tip.
\<close>

definition ref_claim :: "string option \<Rightarrow> git_ref \<Rightarrow> nat \<Rightarrow> claim_key" where
  "ref_claim head_branch r row =
     ClaimKey (ref_rank head_branch r) (ref_kind r = RemoteBranch) row (ref_name r)"

definition synthetic_claim :: "oid \<Rightarrow> nat \<Rightarrow> claim_key" where
  "synthetic_claim i row = ClaimKey rank_synthetic False row (synthetic_name i)"

definition seed_claims :: "(oid \<rightharpoonup> nat) \<Rightarrow> string option \<Rightarrow> git_ref list \<Rightarrow> claim_key list" where
  "seed_claims ix head_branch seeds =
     List.map_filter (\<lambda>r. map_option (ref_claim head_branch r) (ix (ref_target r))) seeds"

definition synthetic_claims :: "graph_row list \<Rightarrow> claim_key list" where
  "synthetic_claims rows = map (\<lambda>i. synthetic_claim (row_id (rows ! i)) i) [0..<length rows]"

definition all_claims ::
  "graph_row list \<Rightarrow> git_ref list \<Rightarrow> string option \<Rightarrow> claim_key list" where
  "all_claims rows refs head_branch =
     seed_claims (row_index rows) head_branch (color_seeds (row_index rows) refs head_branch) @
     synthetic_claims rows"

definition claims_at ::
  "graph_row list \<Rightarrow> git_ref list \<Rightarrow> string option \<Rightarrow> nat \<Rightarrow> claim_key set" where
  "claims_at rows refs head_branch r =
     {k \<in> set (all_claims rows refs head_branch). chain rows (row_index rows) (emitted_tip_row k) r}"

definition winning_key ::
  "graph_row list \<Rightarrow> git_ref list \<Rightarrow> string option \<Rightarrow> nat \<Rightarrow> claim_key" where
  "winning_key rows refs head_branch r = Min (claims_at rows refs head_branch r)"

definition claim_slot :: "git_ref list \<Rightarrow> string option \<Rightarrow> claim_key \<Rightarrow> nat" where
  "claim_slot refs head_branch k = line_slot refs head_branch (ck_name k)"

definition demoted :: "graph_row list \<Rightarrow> git_ref list \<Rightarrow> string option \<Rightarrow> git_ref \<Rightarrow> bool" where
  "demoted rows refs head_branch r \<longleftrightarrow> ref_kind r = Branch \<and>
     (case row_index rows (ref_target r) of None \<Rightarrow> False
      | Some row \<Rightarrow> winning_key rows refs head_branch row \<noteq> ref_claim head_branch r row)"

definition distinct_branches :: "git_ref list \<Rightarrow> bool" where
  "distinct_branches refs \<longleftrightarrow> distinct (map (\<lambda>r. (ref_kind r, ref_name r)) (filter is_branch refs))"

lemma find_sorted_Min:
  fixes L :: "'a::linorder list"
  assumes "sorted_wrt (<) L" "\<exists>x \<in> set L. P x"
  shows "find P L = Some (Min {x \<in> set L. P x})"
  using assms
proof (induction L)
  case Nil
  then show ?case by simp
next
  case (Cons x L)
  show ?case
  proof (cases "P x")
    case True
    have "Min {y \<in> set (x # L). P y} = x"
    proof (rule Min_eqI)
      show "finite {y \<in> set (x # L). P y}" by simp
      show "x \<le> y" if "y \<in> {y \<in> set (x # L). P y}" for y using Cons.prems(1) that by fastforce
      show "x \<in> {y \<in> set (x # L). P y}" using True by simp
    qed
    with True show ?thesis by simp
  next
    case False
    then have "{y \<in> set (x # L). P y} = {y \<in> set L. P y}" by auto
    with False Cons show ?thesis by simp
  qed
qed

text \<open>The colouring after the claims \<open>ks\<close> have been walked, and its one-step law.\<close>

definition walked ::
  "graph_row list \<Rightarrow> (oid \<rightharpoonup> nat) \<Rightarrow> (claim_key \<Rightarrow> nat) \<Rightarrow> claim_key list \<Rightarrow> colors" where
  "walked rows ix slot ks = (\<lambda>r. map_option slot (find (\<lambda>k. chain rows ix (emitted_tip_row k) r) ks))"

lemma find_append: "find P (xs @ ys) = (case find P xs of None \<Rightarrow> find P ys | Some x \<Rightarrow> Some x)"
  by (induction xs) auto

lemma walked_snoc:
  "walked rows ix slot (ks @ [k]) =
     claimed_by rows ix (slot k) (Some (emitted_tip_row k)) (walked rows ix slot ks)"
  by (auto simp: walked_def claimed_by_def find_append fun_eq_iff split: option.splits)

lemma walked_closed: "closed_under rows ix (walked rows ix slot ks)"
  by (auto simp: closed_under_def walked_def find_None_iff intro: chain_snoc)

lemma walked_None: "walked rows ix slot ks r = None \<longleftrightarrow> (\<forall>k \<in> set ks. \<not> chain rows ix (emitted_tip_row k) r)"
  by (auto simp: walked_def find_None_iff)

lemma claimed_by_owned:
  assumes "closed_under rows ix col" "col a \<noteq> None" shows "claimed_by rows ix slot (Some a) col = col"
  using closed_chain[OF _ assms(1,2)] by (auto simp: claimed_by_def fun_eq_iff)

lemma claimed_by_None: "claimed_by rows ix slot None col = col"
  by (auto simp: claimed_by_def fun_eq_iff)

text \<open>With distinct branch refs the claims are strictly ordered, in the order they are walked.\<close>

lemma emitted_tip_ref_claim [simp]: "emitted_tip_row (ref_claim head_branch r row) = row"
  by (simp add: ref_claim_def)

lemma emitted_tip_synthetic_claim [simp]: "emitted_tip_row (synthetic_claim i row) = row"
  by (simp add: synthetic_claim_def)

lemma ref_claim_below_synthetic: "ref_claim head_branch r row < synthetic_claim i row'"
  using ref_rank_less[of head_branch r]
  by (simp add: ref_claim_def synthetic_claim_def ClaimKey_less rank_synthetic_def)

lemma seed_claims_Cons:
  "seed_claims ix head_branch (r # rs) =
     (case ix (ref_target r) of None \<Rightarrow> [] | Some row \<Rightarrow> [ref_claim head_branch r row]) @
     seed_claims ix head_branch rs"
  by (simp add: seed_claims_def List.map_filter_def split: option.splits)

lemma seed_claims_Nil [simp]: "seed_claims ix head_branch [] = []"
  by (simp add: seed_claims_def List.map_filter_def)

lemma seed_claims_append:
  "seed_claims ix head_branch (rs @ ss) = seed_claims ix head_branch rs @ seed_claims ix head_branch ss"
  by (induction rs) (simp_all add: seed_claims_Cons)

lemma seed_claims_in:
  "k \<in> set (seed_claims ix head_branch rs) \<longleftrightarrow>
     (\<exists>r \<in> set rs. \<exists>row. ix (ref_target r) = Some row \<and> k = ref_claim head_branch r row)"
proof (induction rs)
  case Nil
  then show ?case by simp
next
  case (Cons r rs)
  then show ?case by (cases "ix (ref_target r)") (auto simp: seed_claims_Cons)
qed

lemma seed_key_claim:
  "ix (ref_target r) = Some row \<Longrightarrow> ix (ref_target q) = Some row' \<Longrightarrow>
     seed_key ix head_branch r < seed_key ix head_branch q \<longleftrightarrow>
       ref_claim head_branch r row < ref_claim head_branch q row'"
  by (simp add: seed_key_def ref_claim_def ClaimKey_less)

lemma seed_claims_sorted:
  assumes "sorted_wrt (\<lambda>r q. seed_key ix head_branch r < seed_key ix head_branch q) rs"
  shows "sorted_wrt (<) (seed_claims ix head_branch rs)"
  using assms
  by (induction rs)
    (auto simp: seed_claims_Cons seed_claims_in seed_key_claim[THEN iffD1] split: option.splits)

lemma seed_key_inj:
  assumes "is_branch r" "is_branch q" "seed_key ix head_branch r = seed_key ix head_branch q"
  shows "(ref_kind r, ref_name r) = (ref_kind q, ref_name q)"
  using assms by (auto simp: is_branch_def seed_key_def)

lemma strictly_sorted_keys:
  fixes f :: "'a \<Rightarrow> 'b::linorder"
  shows "sorted (map f xs) \<Longrightarrow> distinct (map f xs) \<Longrightarrow> sorted_wrt (\<lambda>x y. f x < f y) xs"
  by (induction xs) (auto simp: order_le_less)

lemma color_seeds_sorted:
  assumes "distinct_branches refs"
  shows "sorted_wrt (\<lambda>r q. seed_key ix head_branch r < seed_key ix head_branch q)
    (color_seeds ix refs head_branch)"
proof (rule strictly_sorted_keys)
  let ?b = "filter is_branch refs"
  have "distinct ?b" "inj_on (\<lambda>r. (ref_kind r, ref_name r)) (set ?b)"
    using assms by (auto simp: distinct_branches_def distinct_map)
  moreover from this(2) have "inj_on (seed_key ix head_branch) (set ?b)"
    using seed_key_inj[of _ _ ix head_branch] unfolding inj_on_def set_filter
    by (metis (mono_tags, lifting) mem_Collect_eq)
  ultimately show "distinct (map (seed_key ix head_branch) (color_seeds ix refs head_branch))"
    by (simp add: color_seeds_def distinct_map)
qed (simp add: color_seeds_def)

lemma synthetic_claims_sorted: "sorted_wrt (<) (synthetic_claims rows)"
  by (simp add: synthetic_claims_def sorted_wrt_map synthetic_claim_def ClaimKey_less
      sorted_wrt_iff_nth_less)

lemma all_claims_sorted:
  assumes "distinct_branches refs" shows "sorted_wrt (<) (all_claims rows refs head_branch)"
  using seed_claims_sorted[OF color_seeds_sorted[OF assms]] synthetic_claims_sorted
  by (auto simp: all_claims_def sorted_wrt_append seed_claims_in synthetic_claims_def
      ref_claim_below_synthetic)

lemma own_claim:
  "r < length rows \<Longrightarrow> synthetic_claim (row_id (rows ! r)) r \<in> claims_at rows refs head_branch r"
  by (simp add: claims_at_def all_claims_def synthetic_claims_def chain_here)

lemma claims_at_finite [simp]: "finite (claims_at rows refs head_branch r)"
  by (simp add: claims_at_def)

lemma winning_key_find:
  assumes "distinct_branches refs" "r < length rows"
  shows "find (\<lambda>k. chain rows (row_index rows) (emitted_tip_row k) r) (all_claims rows refs head_branch) =
    Some (winning_key rows refs head_branch r)"
  unfolding winning_key_def claims_at_def
proof (rule find_sorted_Min[OF all_claims_sorted[OF assms(1)]])
  show "\<exists>k \<in> set (all_claims rows refs head_branch). chain rows (row_index rows) (emitted_tip_row k) r"
    using own_claim[OF assms(2), of refs head_branch] unfolding claims_at_def by blast
qed

lemma tip_owned:
  assumes d: "distinct_branches refs" and n: "numbered rows"
    and seeds: "color_seeds (row_index rows) refs head_branch = pre @ s # post"
    and tip: "row_index rows (ref_target s) = Some row"
  shows "walked rows (row_index rows) slot (seed_claims (row_index rows) head_branch pre) row \<noteq> None
    \<longleftrightarrow> winning_key rows refs head_branch row \<noteq> ref_claim head_branch s row"
proof -
  let ?P = "\<lambda>k. chain rows (row_index rows) (emitted_tip_row k) row"
  let ?A = "seed_claims (row_index rows) head_branch pre" and ?k = "ref_claim head_branch s row"
  have row: "row < length rows" using row_index_window[OF n] tip by (simp add: in_window_def)
  obtain B where L: "all_claims rows refs head_branch = ?A @ ?k # B"
    by (simp add: all_claims_def seeds seed_claims_append seed_claims_Cons tip)
  have w: "Some (winning_key rows refs head_branch row) = find ?P (?A @ ?k # B)"
    using winning_key_find[OF d row, of head_branch] L by simp
  have k: "?P ?k" by (simp add: chain_here)
  show ?thesis
  proof (cases "find ?P ?A")
    case None
    then have "winning_key rows refs head_branch row = ?k" using w k by (simp add: find_append)
    with None show ?thesis by (simp add: walked_def)
  next
    case (Some x)
    then have "winning_key rows refs head_branch row = x" using w by (simp add: find_append)
    moreover have "x \<in> set ?A" using Some by (auto simp: find_Some_iff)
    moreover have "x < ?k"
      using all_claims_sorted[OF d, of rows head_branch] \<open>x \<in> set ?A\<close>
      by (simp add: L sorted_wrt_append)
    ultimately show ?thesis using Some by (simp add: walked_def)
  qed
qed

lemma color_seed_step:
  fixes head_branch :: "string option"
  assumes d: "distinct_branches refs" and n: "numbered rows"
    and seeds: "color_seeds (row_index rows) refs head_branch = pre @ s # post"
  defines "w \<equiv> walked rows (row_index rows) (claim_slot refs head_branch)"
  shows "color_seed rows (row_index rows) refs head_branch s
      (w (seed_claims (row_index rows) head_branch pre), stubs) =
    Some (w (seed_claims (row_index rows) head_branch (pre @ [s])),
      stubs @ (if demoted rows refs head_branch s
        then [(ref_name s, the (row_index rows (ref_target s)))] else []))"
proof (cases "row_index rows (ref_target s)")
  case None
  then show ?thesis
    by (simp add: color_seed_def demoted_def seed_claims_append seed_claims_Cons)
next
  case (Some row)
  let ?ix = "row_index rows" and ?k = "ref_claim head_branch s row"
  let ?A = "seed_claims ?ix head_branch pre"
  have row: "row < length rows" using row_index_window[OF n] Some by (simp add: in_window_def)
  have keys: "seed_claims ?ix head_branch (pre @ [s]) = ?A @ [?k]"
    by (simp add: seed_claims_append seed_claims_Cons Some)
  have next_w: "w (?A @ [?k]) = claimed_by rows ?ix (claim_slot refs head_branch ?k) (Some row) (w ?A)"
    by (simp add: w_def walked_snoc)
  have dem: "demoted rows refs head_branch s \<longleftrightarrow> ref_kind s = Branch \<and> w ?A row \<noteq> None"
    unfolding w_def using tip_owned[OF d n seeds Some] by (simp add: demoted_def Some)
  have slot: "claim_slot refs head_branch ?k = line_slot refs head_branch (ref_name s)"
    by (simp add: claim_slot_def ref_claim_def)
  have "claim_chain rows ?ix (line_slot refs head_branch (ref_name s)) (Some row) (w ?A) =
      Some (w (?A @ [?k]))"
    unfolding next_w slot unfolding w_def
    by (rule claim_chain_closed[OF row_index_window[OF n] walked_closed]) (use row in simp)
  moreover have "w (?A @ [?k]) = w ?A" if "w ?A row \<noteq> None"
    using that unfolding next_w by (simp add: w_def claimed_by_owned[OF walked_closed])
  ultimately show ?thesis
    by (auto simp: color_seed_def Some keys dem simp del: claim_chain.simps)
qed

lemma color_seeds_run:
  assumes d: "distinct_branches refs" and n: "numbered rows"
    and "color_seeds (row_index rows) refs head_branch = pre @ post"
  shows "fold_option (color_seed rows (row_index rows) refs head_branch) pre (\<lambda>_. None, []) =
    Some (walked rows (row_index rows) (claim_slot refs head_branch)
            (seed_claims (row_index rows) head_branch pre),
      map (\<lambda>s. (ref_name s, the (row_index rows (ref_target s))))
        (filter (demoted rows refs head_branch) pre))"
  using assms(3)
proof (induction pre arbitrary: post rule: rev_induct)
  case Nil
  show ?case by (simp add: walked_def)
next
  case (snoc s pre)
  then have "color_seeds (row_index rows) refs head_branch = pre @ s # post" by simp
  from snoc.IH[OF this] color_seed_step[OF d n this] show ?case
    by (simp add: fold_option_append)
qed

lemma color_leftover_run:
  fixes refs :: "git_ref list" and head_branch :: "string option"
  assumes n: "numbered rows" and "m \<le> length rows"
  defines "w \<equiv> walked rows (row_index rows) (claim_slot refs head_branch)"
  shows "fold_option (color_leftover rows (row_index rows) refs head_branch) [0..<m] (w ks) =
    Some (w (ks @ map (\<lambda>i. synthetic_claim (row_id (rows ! i)) i) [0..<m]))"
  using assms(2)
proof (induction m)
  case 0
  show ?case by simp
next
  case (Suc m)
  let ?ks = "ks @ map (\<lambda>i. synthetic_claim (row_id (rows ! i)) i) [0..<m]"
  let ?k = "synthetic_claim (row_id (rows ! m)) m"
  have next_w: "w (?ks @ [?k]) =
      claimed_by rows (row_index rows) (claim_slot refs head_branch ?k) (Some m) (w ?ks)"
    by (simp only: w_def walked_snoc emitted_tip_synthetic_claim)
  have slot: "claim_slot refs head_branch ?k =
      line_slot refs head_branch (synthetic_name (row_id (rows ! m)))"
    by (simp add: claim_slot_def synthetic_claim_def)
  have "claim_chain rows (row_index rows) (line_slot refs head_branch (synthetic_name (row_id (rows ! m))))
      (Some m) (w ?ks) = Some (w (?ks @ [?k]))"
    unfolding next_w slot unfolding w_def
    by (rule claim_chain_closed[OF row_index_window[OF n] walked_closed]) (use Suc.prems in simp)
  moreover have "w (?ks @ [?k]) = w ?ks" if "w ?ks m \<noteq> None"
    using that unfolding next_w by (simp add: w_def claimed_by_owned[OF walked_closed])
  ultimately have "color_leftover rows (row_index rows) refs head_branch m (w ?ks) = Some (w (?ks @ [?k]))"
    by (simp add: color_leftover_def del: claim_chain.simps)
  with Suc show ?case by (simp add: fold_option_append)
qed

lemma walked_all_claims:
  assumes "distinct_branches refs" "r < length rows"
  shows "walked rows (row_index rows) slot (all_claims rows refs head_branch) r =
    Some (slot (winning_key rows refs head_branch r))"
  using winning_key_find[OF assms, of head_branch] by (simp add: walked_def)

lemma assign_branch_colors_result:
  assumes d: "distinct_branches refs" and n: "numbered rows"
  shows "assign_branch_colors rows refs head_branch =
    Some (map (\<lambda>r. r\<lparr>gr_color := claim_slot refs head_branch (winning_key rows refs head_branch (gr_row r))\<rparr>) rows,
      map (\<lambda>s. (ref_name s, the (row_index rows (ref_target s))))
        (filter (demoted rows refs head_branch) (color_seeds (row_index rows) refs head_branch)))"
proof -
  let ?w = "walked rows (row_index rows) (claim_slot refs head_branch) (all_claims rows refs head_branch)"
  have "paint ?w r = r\<lparr>gr_color := claim_slot refs head_branch (winning_key rows refs head_branch (gr_row r))\<rparr>"
    if "r \<in> set rows" for r
  proof -
    have "gr_row r < length rows" using that n by (auto simp: in_set_conv_nth numbered_nth)
    then show ?thesis by (simp add: paint_def walked_all_claims[OF d])
  qed
  then show ?thesis
    using color_seeds_run[OF d n, of head_branch _ "[]"]
      color_leftover_run[OF n order_refl, of refs head_branch
        "seed_claims (row_index rows) head_branch (color_seeds (row_index rows) refs head_branch)"]
    by (simp add: assign_branch_colors_def Let_def all_claims_def synthetic_claims_def)
qed

lemma winning_key_in:
  "r < length rows \<Longrightarrow> winning_key rows refs head_branch r \<in> claims_at rows refs head_branch r"
  unfolding winning_key_def by (rule Min_in) (use own_claim[of r rows refs head_branch] in auto)

lemma winning_key_le: "k \<in> claims_at rows refs head_branch r \<Longrightarrow> winning_key rows refs head_branch r \<le> k"
  by (simp add: winning_key_def)

lemma ref_claim_at:
  assumes "r \<in> set refs" "is_branch r" "row_index rows (ref_target r) = Some row"
  shows "ref_claim head_branch r row \<in> claims_at rows refs head_branch row"
  using assms by (auto simp: claims_at_def all_claims_def seed_claims_in color_seeds_def chain_here)

lemma demoted_iff:
  assumes "r \<in> set refs" "row_index rows (ref_target r) = Some row"
  shows "demoted rows refs head_branch r \<longleftrightarrow>
    ref_kind r = Branch \<and> winning_key rows refs head_branch row < ref_claim head_branch r row"
  using winning_key_le[OF ref_claim_at[OF assms(1) _ assms(2)]] assms(2)
  by (auto simp: demoted_def is_branch_def order_le_less)

text \<open>
  The colouring obeys the priority: with distinct branch refs, every row takes the slot of
  the smallest claim (trunk rank, then local before remote, then newest tip, then name; synthetic
  lines last) whose first-parent chain comes through it, and the stubs are exactly the local
  branches in the window whose own tip is taken by a smaller claim, anchored at that tip.
\<close>

theorem branch_coloring_priority:
  assumes "distinct_branches refs" and "numbered rows"
  shows "\<exists>rows' stubs. assign_branch_colors rows refs head_branch = Some (rows', stubs) \<and>
    length rows' = length rows \<and>
    (\<forall>i < length rows. \<exists>k \<in> claims_at rows refs head_branch i.
       (\<forall>k' \<in> claims_at rows refs head_branch i. k \<le> k') \<and>
       rows' ! i = (rows ! i)\<lparr>gr_color := claim_slot refs head_branch k\<rparr>) \<and>
    (\<forall>name row. (name, row) \<in> set stubs \<longleftrightarrow>
       (\<exists>r \<in> set refs. ref_kind r = Branch \<and> ref_name r = name \<and>
          row_index rows (ref_target r) = Some row \<and>
          (\<exists>k \<in> claims_at rows refs head_branch row. k < ref_claim head_branch r row)))"
proof -
  let ?rows = "map (\<lambda>r. r\<lparr>gr_color := claim_slot refs head_branch
      (winning_key rows refs head_branch (gr_row r))\<rparr>) rows"
  let ?stubs = "map (\<lambda>s. (ref_name s, the (row_index rows (ref_target s))))
      (filter (demoted rows refs head_branch) (color_seeds (row_index rows) refs head_branch))"
  note result = assign_branch_colors_result[OF assms, of head_branch]
  have row: "row < length rows" if "row_index rows p = Some row" for p row
    using row_index_window[OF assms(2)] that by (simp add: in_window_def)
  have stub: "demoted rows refs head_branch r \<longleftrightarrow> ref_kind r = Branch \<and>
      (\<exists>k \<in> claims_at rows refs head_branch row. k < ref_claim head_branch r row)"
    if "r \<in> set refs" "row_index rows (ref_target r) = Some row" for r row
    using demoted_iff[OF that, of head_branch] winning_key_in[OF row[OF that(2)]] winning_key_le
    by (meson le_less_trans)
  have win: "\<exists>k \<in> claims_at rows refs head_branch i.
       (\<forall>k' \<in> claims_at rows refs head_branch i. k \<le> k') \<and>
       (rows ! i)\<lparr>gr_color := claim_slot refs head_branch (winning_key rows refs head_branch (gr_row (rows ! i)))\<rparr>
         = (rows ! i)\<lparr>gr_color := claim_slot refs head_branch k\<rparr>" if "i < length rows" for i
    using winning_key_in[OF that] winning_key_le that
    by (intro bexI[of _ "winning_key rows refs head_branch i"]) (auto simp: numbered_nth[OF assms(2)])
  have mem: "(name, row) \<in> set (map (\<lambda>s. (ref_name s, the (row_index rows (ref_target s))))
        (filter (demoted rows refs head_branch) (color_seeds (row_index rows) refs head_branch))) \<longleftrightarrow>
      (\<exists>r \<in> set refs. demoted rows refs head_branch r \<and> ref_name r = name \<and>
        row_index rows (ref_target r) = Some row)" for name row
    by (auto simp: color_seeds_def image_iff demoted_def is_branch_def split: option.splits)
  show ?thesis
  proof (rule exI, rule exI, intro conjI)
    show "assign_branch_colors rows refs head_branch = Some (?rows, ?stubs)" by (rule result)
    show "\<forall>name row. (name, row) \<in> set ?stubs \<longleftrightarrow>
       (\<exists>r \<in> set refs. ref_kind r = Branch \<and> ref_name r = name \<and>
          row_index rows (ref_target r) = Some row \<and>
          (\<exists>k \<in> claims_at rows refs head_branch row. k < ref_claim head_branch r row))"
      using mem stub by meson
  qed (use win in simp_all)
qed

text \<open>Refs over the sample history: the trunk, a branch inside its line, and a remote branch.\<close>

definition sample_refs :: "git_ref list" where
  "sample_refs =
     [\<lparr>ref_name = ''topic'', ref_kind = Branch, ref_target = ''b''\<rparr>,
      \<lparr>ref_name = ''main'', ref_kind = Branch, ref_target = ''d''\<rparr>,
      \<lparr>ref_name = ''origin/main'', ref_kind = RemoteBranch, ref_target = ''c''\<rparr>]"

definition sample_rows :: "graph_row list" where
  "sample_rows = map (\<lambda>(i, c). \<lparr>gr_commit = c, gr_row = i, gr_lane = 0, gr_refs = [], gr_color = 0,
     gr_on_remote = False\<rparr>) (enumerate 0 sample_sorted)"

lemma sample_refs_distinct: "distinct_branches sample_refs"
  by (simp add: distinct_branches_def sample_refs_def is_branch_def)

lemma sample_rows_numbered: "numbered sample_rows"
  by (simp add: numbered_def sample_rows_def sample_sorted_def enumerate_eq_zip upt_rec)

lemma branch_coloring_priority_witness:
  "\<exists>rows' stubs. assign_branch_colors sample_rows sample_refs (Some ''main'') = Some (rows', stubs) \<and>
     length rows' = 4"
  using branch_coloring_priority[OF sample_refs_distinct sample_rows_numbered, of "Some ''main''"]
  by (auto simp: sample_rows_def sample_sorted_def)

end
