(* ===== verification/Lane_Stream.thy ===== *)
theory Lane_Stream imports Topology begin

text \<open>
  \<open>crates/git-vista-core/src/layout/stream.rs\<close>: the lane walk, one commit at a time, which can be
  cut at any row into a chunk and a checkpoint. The snapshot-membership predicate of \<open>push\<close>
  (\<open>FnMut(&Oid) -> bool\<close>, a set lookup at every call site) is the argument \<open>inside\<close>.
\<close>

record pending_edge =
  pe_parent :: oid
  pe_ordinal :: nat
  pe_from_row :: nat
  pe_from_lane :: nat

record resolved_edge =
  re_edge :: edge
  re_ordinal :: nat

record layout_chunk =
  ch_rows :: "graph_row list"
  ch_resolved :: "resolved_edge list"
  ch_lane_count :: nat

record layout_checkpoint =
  ck_open_lanes :: lanes
  ck_pending :: "pending_edge list"
  ck_next_row :: nat
  ck_high_water :: nat

record stream_layout =
  open_lanes :: lanes
  pending_edges :: "pending_edge list"
  next_row :: nat
  high_water :: nat
  out_rows :: "graph_row list"
  out_edges :: "resolved_edge list"

definition stream_new :: "oid option \<Rightarrow> stream_layout" where
  "stream_new trunk_tip =
     \<lparr>open_lanes = (case trunk_tip of Some tip \<Rightarrow> [Some tip] | None \<Rightarrow> []),
      pending_edges = [], next_row = 0, high_water = 0, out_rows = [], out_edges = []\<rparr>"

definition stream_resume :: "layout_checkpoint \<Rightarrow> stream_layout" where
  "stream_resume ck =
     \<lparr>open_lanes = ck_open_lanes ck, pending_edges = ck_pending ck, next_row = ck_next_row ck,
      high_water = ck_high_water ck, out_rows = [], out_edges = []\<rparr>"

subsection \<open>Placing one commit\<close>

text \<open>The lanes that expect the commit: the leftmost is taken and the rest are freed.\<close>

definition pick_lane :: "oid \<Rightarrow> lanes \<Rightarrow> lanes \<times> nat" where
  "pick_lane c ls =
     (case filter (\<lambda>i. ls ! i = Some c) [0..<length ls] of
        i # rest \<Rightarrow> (fold (\<lambda>j ls. ls[j := None]) rest ls, i)
      | [] \<Rightarrow> leftmost_free ls)"

definition resolve_edge :: "nat \<Rightarrow> nat \<Rightarrow> pending_edge \<Rightarrow> resolved_edge" where
  "resolve_edge row lane pe =
     \<lparr>re_edge = \<lparr>from_row = pe_from_row pe, from_lane = pe_from_lane pe,
                 to_row = row, to_lane = lane\<rparr>,
      re_ordinal = pe_ordinal pe\<rparr>"

definition continue_first_parent :: "(oid \<Rightarrow> bool) \<Rightarrow> oid list \<Rightarrow> nat \<Rightarrow> lanes \<Rightarrow> lanes" where
  "continue_first_parent inside ps lane ls =
     ls[lane := (case ps of p # _ \<Rightarrow> if inside p then Some p else None | [] \<Rightarrow> None)]"

definition place_merge_parent :: "(oid \<Rightarrow> bool) \<Rightarrow> nat \<Rightarrow> oid \<Rightarrow> lanes \<Rightarrow> lanes" where
  "place_merge_parent inside lane p ls =
     (if \<not> inside p then ls
      else if Some p \<in> set ls then ls
      else (case leftmost_free_right_of ls lane of (ls', i) \<Rightarrow> ls'[i := Some p]))"

definition new_pending ::
  "(oid \<Rightarrow> bool) \<Rightarrow> oid list \<Rightarrow> nat \<Rightarrow> nat \<Rightarrow> pending_edge list" where
  "new_pending inside ps row lane =
     map (\<lambda>(k, p). \<lparr>pe_parent = p, pe_ordinal = k, pe_from_row = row, pe_from_lane = lane\<rparr>)
       (filter (\<lambda>(k, p). inside p) (enumerate 0 ps))"

definition push :: "(oid \<Rightarrow> bool) \<Rightarrow> commit_summary \<Rightarrow> stream_layout \<Rightarrow> stream_layout" where
  "push inside c s =
     (let row = next_row s;
          (lanes1, lane) = pick_lane (cs_id c) (open_lanes s);
          resolved = map (resolve_edge row lane)
                       (filter (\<lambda>pe. pe_parent pe = cs_id c) (pending_edges s));
          waiting = filter (\<lambda>pe. pe_parent pe \<noteq> cs_id c) (pending_edges s);
          lanes2 = continue_first_parent inside (cs_parents c) lane lanes1;
          lanes3 = fold (place_merge_parent inside lane) (drop 1 (cs_parents c)) lanes2
      in \<lparr>open_lanes = lanes3,
          pending_edges = waiting @ new_pending inside (cs_parents c) row lane,
          next_row = row + 1,
          high_water = max (high_water s) (lane + 1),
          out_rows = out_rows s @
            [\<lparr>gr_commit = c, gr_row = row, gr_lane = lane, gr_refs = [], gr_color = 0,
              gr_on_remote = False\<rparr>],
          out_edges = out_edges s @ resolved\<rparr>)"

definition resolved_key :: "resolved_edge \<Rightarrow> nat \<times> nat \<times> nat \<times> nat \<times> nat" where
  "resolved_key r = (from_row (re_edge r), re_ordinal r, to_row (re_edge r),
     from_lane (re_edge r), to_lane (re_edge r))"

definition sort_resolved_edges :: "resolved_edge list \<Rightarrow> resolved_edge list" where
  "sort_resolved_edges = sort_key resolved_key"

definition checkpoint :: "stream_layout \<Rightarrow> layout_chunk \<times> layout_checkpoint" where
  "checkpoint s =
     (\<lparr>ch_rows = out_rows s, ch_resolved = sort_resolved_edges (out_edges s),
       ch_lane_count = high_water s\<rparr>,
      \<lparr>ck_open_lanes = open_lanes s, ck_pending = pending_edges s, ck_next_row = next_row s,
       ck_high_water = high_water s\<rparr>)"

definition finish :: "stream_layout \<Rightarrow> layout_chunk" where
  "finish s = fst (checkpoint s)"

definition strip_resolved_edges :: "resolved_edge list \<Rightarrow> edge list" where
  "strip_resolved_edges = map re_edge"

text \<open>
  \<open>canonicalize_edges\<close> panics (\<open>None\<close>) when an edge names a row outside the slice or no parent of
  its child; \<open>sort_by_key\<close> only evaluates keys when there are two elements to compare.
\<close>

definition edge_key :: "graph_row list \<Rightarrow> edge \<Rightarrow> (nat \<times> nat \<times> nat \<times> nat \<times> nat) option" where
  "edge_key rows e =
     (if length rows \<le> to_row e \<or> length rows \<le> from_row e then None
      else case position (\<lambda>p. p = row_id (rows ! to_row e))
                  (cs_parents (gr_commit (rows ! from_row e))) of
          None \<Rightarrow> None
        | Some k \<Rightarrow> Some (from_row e, k, to_row e, from_lane e, to_lane e))"

definition canonicalize_edges :: "graph_row list \<Rightarrow> edge list \<Rightarrow> edge list option" where
  "canonicalize_edges rows es =
     (if length es < 2 then Some es
      else if list_all (\<lambda>e. edge_key rows e \<noteq> None) es
      then Some (sort_key (\<lambda>e. the (edge_key rows e)) es)
      else None)"

abbreviation feed :: "(oid \<Rightarrow> bool) \<Rightarrow> commit_summary list \<Rightarrow> stream_layout \<Rightarrow> stream_layout" where
  "feed inside \<equiv> fold (push inside)"

text \<open>\<open>layout_topology\<close> of \<open>layout/mod.rs\<close>: one window through the same walk.\<close>

definition layout_topology :: "commit_summary list \<Rightarrow> oid option \<Rightarrow> graph option" where
  "layout_topology commits trunk_tip =
     (let present = (\<lambda>i. i \<in> set (map cs_id commits));
          tip = (case trunk_tip of Some t \<Rightarrow> if present t then Some t else None | None \<Rightarrow> None);
          chunk = finish (feed present commits (stream_new tip))
      in map_option
           (\<lambda>es. \<lparr>g_rows = ch_rows chunk, g_edges = es, g_lane_count = ch_lane_count chunk,
                  g_stubs = []\<rparr>)
           (canonicalize_edges (ch_rows chunk) (strip_resolved_edges (ch_resolved chunk))))"

subsection \<open>Paging\<close>

text \<open>
  Serving one page: resume from the checkpoint, feed the page's commits, cut again.
\<close>

fun serve_pages ::
  "(oid \<Rightarrow> bool) \<Rightarrow> commit_summary list list \<Rightarrow> layout_checkpoint \<Rightarrow> layout_chunk list" where
  "serve_pages inside [] ck = []"
| "serve_pages inside (page # pages) ck =
     (case checkpoint (feed inside page (stream_resume ck)) of
        (chunk, ck') \<Rightarrow> chunk # serve_pages inside pages ck')"

text \<open>The buffers are write-only: the walk never reads the rows or edges it has emitted.\<close>

definition with_buffers ::
  "graph_row list \<Rightarrow> resolved_edge list \<Rightarrow> stream_layout \<Rightarrow> stream_layout" where
  "with_buffers rs es s = s\<lparr>out_rows := rs @ out_rows s, out_edges := es @ out_edges s\<rparr>"

lemma push_with_buffers: "push inside c (with_buffers rs es s) = with_buffers rs es (push inside c s)"
  by (simp add: push_def with_buffers_def Let_def split: prod.splits)

lemma feed_with_buffers: "feed inside cs (with_buffers rs es s) = with_buffers rs es (feed inside cs s)"
  by (induction cs arbitrary: s) (simp_all add: push_with_buffers)

lemma resume_checkpoint:
  "s = with_buffers (out_rows s) (out_edges s) (stream_resume (snd (checkpoint s)))"
  by (simp add: with_buffers_def stream_resume_def checkpoint_def)

lemma feed_resume:
  "feed inside cs s =
     with_buffers (out_rows s) (out_edges s) (feed inside cs (stream_resume (snd (checkpoint s))))"
  by (subst resume_checkpoint) (simp only: feed_with_buffers)

lemma push_next_row: "next_row (push inside c s) = Suc (next_row s)"
  by (simp add: push_def Let_def split: prod.splits)

text \<open>
  C22: however a history is cut into pages, the pages' rows are the rows of the one-shot walk in
  order, their edges are its edges (each on exactly one page, with the same multiplicity), and
  the lane count of the last page is the one-shot lane count.
\<close>

theorem paged_layout_equals_one_shot:
  "let one = finish (feed inside (concat pages) (stream_resume ck));
       chunks = serve_pages inside pages ck
   in concat (map ch_rows chunks) = ch_rows one \<and>
      sort_resolved_edges (concat (map ch_resolved chunks)) = ch_resolved one \<and>
      (if pages = [] then ck_high_water ck else ch_lane_count (last chunks)) = ch_lane_count one"
proof (induction pages arbitrary: ck)
  case Nil
  show ?case
    by (simp add: finish_def checkpoint_def stream_resume_def sort_resolved_edges_def)
next
  case (Cons page pages)
  let ?s = "feed inside page (stream_resume ck)"
  let ?ck = "snd (checkpoint ?s)"
  let ?t = "feed inside (concat pages) (stream_resume ?ck)"
  have full: "feed inside (concat (page # pages)) (stream_resume ck) =
      with_buffers (out_rows ?s) (out_edges ?s) ?t"
    using feed_resume[of inside "concat pages" ?s] by simp
  have chunks: "serve_pages inside (page # pages) ck = finish ?s # serve_pages inside pages ?ck"
    by (simp add: finish_def split: prod.splits)
  have hw: "ck_high_water ?ck = ch_lane_count (finish ?s)"
    by (simp add: finish_def checkpoint_def)
  have len: "serve_pages inside pages ?ck = [] \<longleftrightarrow> pages = []"
    by (cases pages) (auto split: prod.splits)
  note IH = Cons.IH[of ?ck, unfolded Let_def]
  have rows: "ch_rows (finish (with_buffers rs es u)) = rs @ ch_rows (finish u)"
    and lanes: "ch_lane_count (finish (with_buffers rs es u)) = ch_lane_count (finish u)"
    and edges: "ch_resolved (finish (with_buffers rs es u)) =
      sort_resolved_edges (sort_resolved_edges es @ ch_resolved (finish u))" for rs es u
    by (simp_all add: finish_def checkpoint_def with_buffers_def sort_resolved_edges_def
        sort_key_append_sorted)
  have sorted: "sort_resolved_edges (sort_resolved_edges es @ sort_resolved_edges fs) =
      sort_resolved_edges (sort_resolved_edges es @ fs)" for es fs
    by (simp only: sort_resolved_edges_def sort_key_append_right)
  have fin: "ch_rows (finish ?s) = out_rows ?s"
      "ch_resolved (finish ?s) = sort_resolved_edges (out_edges ?s)"
    by (simp_all add: finish_def checkpoint_def)
  have "sort_resolved_edges (concat (map ch_resolved (finish ?s # serve_pages inside pages ?ck))) =
      sort_resolved_edges (sort_resolved_edges (out_edges ?s) @ ch_resolved (finish ?t))"
  proof -
    let ?rest = "concat (map ch_resolved (serve_pages inside pages ?ck))"
    have "sort_resolved_edges (sort_resolved_edges (out_edges ?s) @ ?rest) =
        sort_resolved_edges (sort_resolved_edges (out_edges ?s) @ sort_resolved_edges ?rest)"
      by (rule sorted[symmetric])
    then show ?thesis using IH by (simp add: fin)
  qed
  moreover have "ch_lane_count (last (finish ?s # serve_pages inside pages ?ck)) =
      ch_lane_count (finish ?t)"
    using IH hw len by (cases "pages = []") simp_all
  ultimately show ?case
    unfolding Let_def full chunks rows lanes edges using IH fin by simp
qed

subsection \<open>Reservations\<close>

definition holds_lane :: "nat \<Rightarrow> oid \<Rightarrow> stream_layout \<Rightarrow> bool" where
  "holds_lane j q s \<longleftrightarrow> j < length (open_lanes s) \<and> open_lanes s ! j = Some q"

lemma fold_free_nth:
  "length (fold (\<lambda>j ls. ls[j := None]) js ls) = length ls \<and>
   (\<forall>k < length ls. fold (\<lambda>j ls. ls[j := None]) js ls ! k = (if k \<in> set js then None else ls ! k))"
  by (induction js arbitrary: ls) (auto simp: nth_list_update)

lemma pick_lane_keeps:
  assumes "pick_lane c ls = (ls1, lane)" "j < length ls" "ls ! j = Some q" "q \<noteq> c"
  shows "j < length ls1 \<and> ls1 ! j = Some q \<and> j \<noteq> lane"
proof (cases "filter (\<lambda>i. ls ! i = Some c) [0..<length ls]")
  case Nil
  then show ?thesis using assms leftmost.alloc_keeps[of ls ls1 lane j q] by (simp add: pick_lane_def)
next
  case (Cons i rest)
  have "j \<notin> set (filter (\<lambda>i. ls ! i = Some c) [0..<length ls])" using assms(3,4) by simp
  then have "j \<notin> set (i # rest)" by (simp only: Cons not_False_eq_True)
  with Cons assms fold_free_nth[of rest ls] show ?thesis by (auto simp: pick_lane_def)
qed

lemma pick_lane_bound: "pick_lane c ls = (ls1, lane) \<Longrightarrow> lane < length ls1"
proof (cases "filter (\<lambda>i. ls ! i = Some c) [0..<length ls]")
  case Nil
  then show "pick_lane c ls = (ls1, lane) \<Longrightarrow> ?thesis"
    using leftmost.alloc_free[of ls ls1 lane] by (simp add: pick_lane_def)
next
  case (Cons i rest)
  then have "i \<in> set (filter (\<lambda>i. ls ! i = Some c) [0..<length ls])" by simp
  then have "i < length ls" by simp
  with Cons fold_free_nth[of rest ls] show "pick_lane c ls = (ls1, lane) \<Longrightarrow> ?thesis"
    by (auto simp: pick_lane_def)
qed

lemma pick_lane_leftmost:
  assumes "pick_lane c ls = (ls1, lane)" "j < length ls" "ls ! j = Some c"
  shows "lane \<le> j \<and> lane < length ls \<and> ls ! lane = Some c"
proof -
  let ?f = "filter (\<lambda>i. ls ! i = Some c) [0..<length ls]"
  have j: "j \<in> set ?f" using assms(2,3) by simp
  then obtain i rest where f: "?f = i # rest" by (cases ?f) auto
  have "sorted ?f" using sorted_wrt_filter[of "(\<le>)" "[0..<length ls]"] by simp
  with f j have "i \<le> j" by auto
  have "i \<in> set ?f" by (simp only: f) simp
  then have "i < length ls \<and> ls ! i = Some c" by simp
  with \<open>i \<le> j\<close> show ?thesis using assms(1) f by (simp add: pick_lane_def)
qed

lemma place_merge_parent_keeps:
  assumes "j < length ls" "ls ! j = Some q"
  shows "j < length (place_merge_parent inside lane p ls) \<and>
    place_merge_parent inside lane p ls ! j = Some q"
  using assms rightward.alloc_update_keeps[where after = lane and ls = ls]
  by (auto simp: place_merge_parent_def split: prod.splits)

lemma place_merge_parents_keep:
  assumes "j < length ls" "ls ! j = Some q"
  shows "j < length (fold (place_merge_parent inside lane) ps ls) \<and>
    fold (place_merge_parent inside lane) ps ls ! j = Some q"
  using assms by (induction ps arbitrary: ls) (auto dest: place_merge_parent_keeps)

lemma place_merge_parent_reserves:
  "inside p \<Longrightarrow> Some p \<in> set (place_merge_parent inside lane p ls)"
  by (cases "leftmost_free_right_of ls lane")
    (simp add: place_merge_parent_def rightward.alloc_update_set)

lemma place_merge_parents_reserve:
  assumes "p \<in> set ps" "inside p"
  shows "Some p \<in> set (fold (place_merge_parent inside lane) ps ls)"
  using assms(1)
proof (induction ps arbitrary: ls)
  case Nil
  then show ?case by simp
next
  case (Cons q qs)
  show ?case
  proof (cases "p \<in> set qs")
    case True
    then show ?thesis using Cons.IH by simp
  next
    case False
    with Cons.prems have "p = q" by simp
    with place_merge_parent_reserves[of inside p lane ls] assms(2) obtain j where
      "j < length (place_merge_parent inside lane q ls)"
      "place_merge_parent inside lane q ls ! j = Some p"
      by (auto simp: in_set_conv_nth)
    from place_merge_parents_keep[OF this, of inside lane qs] show ?thesis
      by simp (metis nth_mem)
  qed
qed

text \<open>The components of a push, once its lane is known.\<close>

lemma push_sel:
  assumes "pick_lane (cs_id c) (open_lanes s) = (ls1, lane)"
  shows "open_lanes (push inside c s) =
      fold (place_merge_parent inside lane) (drop 1 (cs_parents c))
        (continue_first_parent inside (cs_parents c) lane ls1)"
    and "pending_edges (push inside c s) =
      filter (\<lambda>pe. pe_parent pe \<noteq> cs_id c) (pending_edges s) @
        new_pending inside (cs_parents c) (next_row s) lane"
    and "out_rows (push inside c s) = out_rows s @
      [\<lparr>gr_commit = c, gr_row = next_row s, gr_lane = lane, gr_refs = [], gr_color = 0,
        gr_on_remote = False\<rparr>]"
    and "out_edges (push inside c s) = out_edges s @
      map (resolve_edge (next_row s) lane) (filter (\<lambda>pe. pe_parent pe = cs_id c) (pending_edges s))"
    and "high_water (push inside c s) = max (high_water s) (lane + 1)"
  using assms by (simp_all add: push_def Let_def)

lemma push_keeps:
  assumes "holds_lane j q s" "cs_id c \<noteq> q"
  shows "holds_lane j q (push inside c s) \<and> gr_lane (last (out_rows (push inside c s))) \<noteq> j"
proof -
  obtain ls1 lane where p: "pick_lane (cs_id c) (open_lanes s) = (ls1, lane)" by fastforce
  from pick_lane_keeps[OF p, of j q] assms
  have k: "j < length ls1" "ls1 ! j = Some q" "j \<noteq> lane" by (auto simp: holds_lane_def)
  then have "j < length (continue_first_parent inside (cs_parents c) lane ls1)"
    "continue_first_parent inside (cs_parents c) lane ls1 ! j = Some q"
    by (simp_all add: continue_first_parent_def)
  from place_merge_parents_keep[OF this] k(3) show ?thesis
    by (simp add: holds_lane_def push_sel[OF p])
qed

text \<open>A lane waiting for \<open>q\<close>, and the rows from \<open>n\<close> on that stay out of it.\<close>

definition lane_kept :: "nat \<Rightarrow> oid \<Rightarrow> nat \<Rightarrow> stream_layout \<Rightarrow> bool" where
  "lane_kept j q n s \<longleftrightarrow> holds_lane j q s \<and> n \<le> length (out_rows s) \<and>
     (\<forall>r \<in> set (drop n (out_rows s)). gr_lane r \<noteq> j)"

interpretation kept: run_invariant "push inside" "lane_kept j q n" "\<lambda>c. cs_id c \<noteq> q"
  for inside j q n
proof
  fix s and c :: commit_summary
  assume k: "lane_kept j q n s" "cs_id c \<noteq> q"
  obtain ls1 lane where p: "pick_lane (cs_id c) (open_lanes s) = (ls1, lane)" by fastforce
  from push_keeps[of j q s c inside] k show "lane_kept j q n (push inside c s)"
    by (auto simp: lane_kept_def push_sel[OF p])
qed

text \<open>
  A lane reserved for a commit belongs to it until its row arrives: no other row is drawn in
  that lane in between, and the commit itself lands in the leftmost lane reserved for it.
\<close>

theorem reserved_lane_exclusive:
  fixes inside :: "oid \<Rightarrow> bool"
  assumes "holds_lane j q s" and "\<forall>c \<in> set before. cs_id c \<noteq> q" and "cs_id c = q"
  defines "t \<equiv> feed inside before s"
  shows "(\<forall>r \<in> set (drop (length (out_rows s)) (out_rows t)). gr_lane r \<noteq> j) \<and>
    holds_lane j q t \<and> gr_lane (last (out_rows (push inside c t))) \<le> j \<and>
    holds_lane (gr_lane (last (out_rows (push inside c t)))) q t"
proof -
  have "lane_kept j q (length (out_rows s)) t"
    unfolding t_def using assms(1,2) by (intro kept.run_inv) (auto simp: lane_kept_def)
  then have k: "holds_lane j q t"
      "\<forall>r \<in> set (drop (length (out_rows s)) (out_rows t)). gr_lane r \<noteq> j"
    by (simp_all add: lane_kept_def)
  obtain ls1 lane where p: "pick_lane (cs_id c) (open_lanes t) = (ls1, lane)" by fastforce
  from pick_lane_leftmost[OF p, of j] k(1) assms(3)
  have "lane \<le> j" "holds_lane lane q t" by (auto simp: holds_lane_def)
  with k show ?thesis by (simp add: push_sel[OF p])
qed

lemma reserved_lane_exclusive_witness:
  "let t = feed (\<lambda>_. True) [sample_sorted ! 1] (stream_new (Some ''d''))
   in (\<forall>r \<in> set (out_rows t). gr_lane r \<noteq> 0) \<and> holds_lane 0 ''d'' t \<and>
      gr_lane (last (out_rows (push (\<lambda>_. True) (sample_sorted ! 0) t))) = 0"
  using reserved_lane_exclusive[of 0 "''d''" "stream_new (Some ''d'')" "[sample_sorted ! 1]" "sample_sorted ! 0"
      "\<lambda>_. True"]
  by (simp add: holds_lane_def stream_new_def sample_sorted_def sample_history_def Let_def)

text \<open>
  Lane 0 is the trunk's: with the trunk's tip reserved, every commit above the tip is drawn
  to the right of lane 0 and the tip itself is drawn in lane 0.
\<close>

theorem trunk_owns_lane_zero:
  fixes inside :: "oid \<Rightarrow> bool"
  assumes "\<forall>c \<in> set newer_ones. cs_id c \<noteq> tip" and "cs_id c = tip"
  defines "t \<equiv> feed inside newer_ones (stream_new (Some tip))"
  shows "(\<forall>r \<in> set (out_rows t). 0 < gr_lane r) \<and> gr_lane (last (out_rows (push inside c t))) = 0"
proof -
  have "lane_kept 0 tip 0 t"
    unfolding t_def using assms(1)
    by (intro kept.run_inv) (auto simp: lane_kept_def holds_lane_def stream_new_def)
  then have k: "holds_lane 0 tip t" "\<forall>r \<in> set (out_rows t). gr_lane r \<noteq> 0"
    by (simp_all add: lane_kept_def)
  obtain ls1 lane where p: "pick_lane (cs_id c) (open_lanes t) = (ls1, lane)" by fastforce
  from pick_lane_leftmost[OF p, of 0] k(1) assms(2) have "lane = 0" by (auto simp: holds_lane_def)
  with k(2) show ?thesis by (auto simp: push_sel[OF p])
qed

lemma trunk_owns_lane_zero_witness:
  "list_all (\<lambda>r. 0 < gr_lane r) (out_rows (feed (\<lambda>_. True) [sample_sorted ! 1] (stream_new (Some ''d'')))) \<and>
   gr_lane (last (out_rows (push (\<lambda>_. True) (sample_sorted ! 0)
     (feed (\<lambda>_. True) [sample_sorted ! 1] (stream_new (Some ''d'')))))) = 0"
  using trunk_owns_lane_zero[of "[sample_sorted ! 1]" "''d''" "sample_sorted ! 0" "\<lambda>_. True"]
  by (simp add: sample_sorted_def sample_history_def list_all_iff)

subsection \<open>Edges\<close>

text \<open>
  \<open>link\<close> identifies a parent link by its child's row and its place in the child's parent vector;
  \<open>all_links\<close> lists the links whose parent is in the snapshot. \<open>pending_ok\<close> and \<open>resolved_ok\<close>
  say what a link in the two lists of the walk must look like after the commits \<open>cs\<close>.
\<close>

definition all_links :: "(oid \<Rightarrow> bool) \<Rightarrow> commit_summary list \<Rightarrow> (nat \<times> nat) list" where
  "all_links inside cs =
     concat (map (\<lambda>(i, c). map (\<lambda>(k, p). (i, k)) (filter (\<lambda>(k, p). inside p) (enumerate 0 (cs_parents c))))
       (enumerate 0 cs))"

definition pending_link :: "pending_edge \<Rightarrow> nat \<times> nat" where
  "pending_link pe = (pe_from_row pe, pe_ordinal pe)"

definition resolved_link :: "resolved_edge \<Rightarrow> nat \<times> nat" where
  "resolved_link r = (from_row (re_edge r), re_ordinal r)"

definition pending_ok ::
  "(oid \<Rightarrow> bool) \<Rightarrow> commit_summary list \<Rightarrow> stream_layout \<Rightarrow> pending_edge \<Rightarrow> bool" where
  "pending_ok inside cs s pe \<longleftrightarrow>
     pe_from_row pe < length cs \<and> pe_ordinal pe < length (cs_parents (cs ! pe_from_row pe)) \<and>
     pe_parent pe = cs_parents (cs ! pe_from_row pe) ! pe_ordinal pe \<and> inside (pe_parent pe) \<and>
     pe_from_lane pe = gr_lane (out_rows s ! pe_from_row pe) \<and>
     pe_parent pe \<notin> cs_id ` set (drop (Suc (pe_from_row pe)) cs) \<and>
     (\<exists>j. holds_lane j (pe_parent pe) s) \<and>
     (pe_ordinal pe = 0 \<longrightarrow> holds_lane (pe_from_lane pe) (pe_parent pe) s)"

definition resolved_ok :: "graph_row list \<Rightarrow> resolved_edge \<Rightarrow> bool" where
  "resolved_ok rows r \<longleftrightarrow> (let e = re_edge r; child = rows ! from_row e; par = rows ! to_row e in
     from_row e < to_row e \<and> to_row e < length rows \<and>
     re_ordinal r < length (cs_parents (gr_commit child)) \<and>
     row_id par = cs_parents (gr_commit child) ! re_ordinal r \<and>
     from_lane e = gr_lane child \<and> to_lane e = gr_lane par \<and>
     (re_ordinal r = 0 \<longrightarrow> to_lane e \<le> from_lane e))"

definition rows_ok :: "commit_summary list \<Rightarrow> stream_layout \<Rightarrow> bool" where
  "rows_ok cs s \<longleftrightarrow> map gr_commit (out_rows s) = cs \<and> map gr_row (out_rows s) = [0..<length cs] \<and>
     next_row s = length cs \<and> (\<forall>r \<in> set (out_rows s). gr_lane r < high_water s)"

definition geometry :: "(oid \<Rightarrow> bool) \<Rightarrow> commit_summary list \<Rightarrow> stream_layout \<Rightarrow> bool" where
  "geometry inside cs s \<longleftrightarrow> rows_ok cs s \<and>
     (\<forall>pe \<in> set (pending_edges s). pending_ok inside cs s pe) \<and>
     (\<forall>r \<in> set (out_edges s). resolved_ok (out_rows s) r) \<and>
     mset (map pending_link (pending_edges s)) + mset (map resolved_link (out_edges s)) =
       mset (all_links inside cs)"

lemma all_links_snoc:
  "all_links inside (cs @ [c]) = all_links inside cs @
     map (\<lambda>(k, p). (length cs, k)) (filter (\<lambda>(k, p). inside p) (enumerate 0 (cs_parents c)))"
  by (simp add: all_links_def enumerate_append_eq)

lemma new_pending_links:
  "map pending_link (new_pending inside ps row lane) =
     map (\<lambda>(k, p). (row, k)) (filter (\<lambda>(k, p). inside p) (enumerate 0 ps))"
  by (simp add: new_pending_def pending_link_def case_prod_unfold)

lemma new_pending_in:
  "pe \<in> set (new_pending inside ps row lane) \<Longrightarrow>
     pe_from_row pe = row \<and> pe_from_lane pe = lane \<and> pe_ordinal pe < length ps \<and>
     pe_parent pe = ps ! pe_ordinal pe \<and> inside (pe_parent pe)"
  by (auto simp: new_pending_def in_set_enumerate_eq)

lemma resolve_edge_links: "resolved_link (resolve_edge row lane pe) = pending_link pe"
  by (simp add: resolved_link_def resolve_edge_def pending_link_def)

lemma resolved_ok_append: "resolved_ok rows r \<Longrightarrow> resolved_ok (rows @ later) r"
  by (auto simp: resolved_ok_def Let_def nth_append)

lemma geometry_new: "geometry inside [] (stream_new tip)"
  by (simp add: geometry_def rows_ok_def stream_new_def all_links_def)

lemma new_pending_holds:
  assumes p: "pick_lane (cs_id c) (open_lanes s) = (ls1, lane)"
    and pe: "pe \<in> set (new_pending inside (cs_parents c) (next_row s) lane)"
  shows "(\<exists>j. holds_lane j (pe_parent pe) (push inside c s)) \<and>
    (pe_ordinal pe = 0 \<longrightarrow> holds_lane lane (pe_parent pe) (push inside c s))"
proof -
  note n = new_pending_in[OF pe]
  let ?ls2 = "continue_first_parent inside (cs_parents c) lane ls1"
  have first: "holds_lane lane (pe_parent pe) (push inside c s)" if "pe_ordinal pe = 0"
  proof -
    have "lane < length ?ls2" "?ls2 ! lane = Some (pe_parent pe)"
      using n that pick_lane_bound[OF p]
      by (cases "cs_parents c"; simp add: continue_first_parent_def)+
    from place_merge_parents_keep[OF this] show ?thesis
      by (simp add: holds_lane_def push_sel[OF p])
  qed
  have "\<exists>j. holds_lane j (pe_parent pe) (push inside c s)"
  proof (cases "pe_ordinal pe")
    case 0
    with first show ?thesis by blast
  next
    case (Suc k)
    with n have "pe_parent pe \<in> set (drop 1 (cs_parents c))"
      by (cases "cs_parents c") auto
    from place_merge_parents_reserve[OF this, of inside lane ?ls2] n show ?thesis
      by (auto simp: holds_lane_def push_sel[OF p] in_set_conv_nth)
  qed
  with first show ?thesis by blast
qed

lemma geometry_push:
  assumes g: "geometry inside cs s"
  shows "geometry inside (cs @ [c]) (push inside c s)"
proof -
  obtain ls1 lane where p: "pick_lane (cs_id c) (open_lanes s) = (ls1, lane)" by fastforce
  note sel = push_sel[OF p]
  have r: "rows_ok cs s" using g by (simp add: geometry_def)
  then have len: "length (out_rows s) = length cs" "next_row s = length cs"
    by (auto simp: rows_ok_def dest: arg_cong[of _ _ length])
  have commits: "\<And>i. i < length cs \<Longrightarrow> gr_commit (out_rows s ! i) = cs ! i"
    using r len by (metis nth_map rows_ok_def)
  have rows': "rows_ok (cs @ [c]) (push inside c s)"
    using r by (auto simp: rows_ok_def sel push_next_row)
  have pend: "pending_ok inside (cs @ [c]) (push inside c s) pe"
    if pe: "pe \<in> set (pending_edges (push inside c s))" for pe
  proof (cases "pe \<in> set (new_pending inside (cs_parents c) (next_row s) lane)")
    case True
    from new_pending_in[OF this] new_pending_holds[OF p this] len show ?thesis
      unfolding pending_ok_def by (auto simp: sel nth_append)
  next
    case False
    with pe have old: "pe \<in> set (pending_edges s)" "cs_id c \<noteq> pe_parent pe"
      by (auto simp: sel)
    then have ok: "pending_ok inside cs s pe" using g by (simp add: geometry_def)
    have "\<And>j. holds_lane j (pe_parent pe) s \<Longrightarrow> holds_lane j (pe_parent pe) (push inside c s)"
      using push_keeps old(2) by blast
    with ok have "\<exists>j. holds_lane j (pe_parent pe) (push inside c s)"
        "pe_ordinal pe = 0 \<longrightarrow> holds_lane (pe_from_lane pe) (pe_parent pe) (push inside c s)"
      unfolding pending_ok_def by blast+
    with ok old(2) len show ?thesis
      unfolding pending_ok_def by (auto simp: sel(3) nth_append)
  qed
  have "resolved_ok (out_rows (push inside c s)) (resolve_edge (next_row s) lane pe)"
    if "pe \<in> set (pending_edges s)" "pe_parent pe = cs_id c" for pe
  proof -
    have ok: "pending_ok inside cs s pe" using g that by (simp add: geometry_def)
    have "lane \<le> pe_from_lane pe" if "pe_ordinal pe = 0"
      using ok that pick_lane_leftmost[OF p, of "pe_from_lane pe"] \<open>pe_parent pe = cs_id c\<close>
      by (auto simp: pending_ok_def holds_lane_def)
    then show ?thesis
      using ok commits len \<open>pe_parent pe = cs_id c\<close>
      by (auto simp: resolved_ok_def pending_ok_def resolve_edge_def sel(3) nth_append Let_def)
  qed
  then have res: "\<forall>r \<in> set (out_edges (push inside c s)). resolved_ok (out_rows (push inside c s)) r"
    using g by (auto simp: geometry_def sel resolved_ok_append)
  have "mset (map pending_link (pending_edges s)) =
      mset (map pending_link (filter (\<lambda>pe. pe_parent pe = cs_id c) (pending_edges s))) +
      mset (map pending_link (filter (\<lambda>pe. pe_parent pe \<noteq> cs_id c) (pending_edges s)))"
    using multiset_partition[of "mset (pending_edges s)" "\<lambda>pe. pe_parent pe = cs_id c"]
    by (simp flip: image_mset_union)
  then have links: "mset (map pending_link (pending_edges (push inside c s))) +
      mset (map resolved_link (out_edges (push inside c s))) = mset (all_links inside (cs @ [c]))"
    using g len
    by (simp add: geometry_def sel all_links_snoc new_pending_links resolve_edge_links comp_def
        ac_simps del: mset_map)
  show ?thesis using rows' pend res links by (simp add: geometry_def)
qed

lemma geometry_feed: "geometry inside cs s \<Longrightarrow> geometry inside (cs @ ds) (feed inside ds s)"
proof (induction ds arbitrary: cs s)
  case Nil
  then show ?case by simp
next
  case (Cons d ds)
  from Cons.IH[OF geometry_push[OF Cons.prems, of d]] show ?case by simp
qed

definition children_first :: "commit_summary list \<Rightarrow> bool" where
  "children_first cs \<longleftrightarrow> (\<forall>i < length cs. \<forall>p \<in> set (cs_parents (cs ! i)).
     p \<in> cs_id ` set cs \<longrightarrow> p \<in> cs_id ` set (drop (Suc i) cs))"

text \<open>
  C35: on a window ordered children first, the walk draws exactly one edge for every parent link
  whose parent is in the window and no other edge; an edge joins the child's row to a lower row,
  which is the named parent's, it starts and ends in those rows' final lanes, and a first-parent
  edge never moves right. Rows are numbered 0, 1, 2 in the order fed and stay left of the lane
  count.
\<close>

theorem lane_walk_edges_exact:
  fixes tip :: "oid option"
  assumes "children_first cs"
  defines "chunk \<equiv> finish (feed (\<lambda>i. i \<in> cs_id ` set cs) cs (stream_new tip))"
  shows "map gr_commit (ch_rows chunk) = cs \<and> map gr_row (ch_rows chunk) = [0..<length cs] \<and>
    (\<forall>r \<in> set (ch_rows chunk). gr_lane r < ch_lane_count chunk) \<and>
    (\<forall>r \<in> set (ch_resolved chunk). resolved_ok (ch_rows chunk) r) \<and>
    mset (map resolved_link (ch_resolved chunk)) = mset (all_links (\<lambda>i. i \<in> cs_id ` set cs) cs)"
proof -
  let ?in = "\<lambda>i. i \<in> cs_id ` set cs"
  let ?s = "feed ?in cs (stream_new tip)"
  have g: "geometry ?in cs ?s" using geometry_feed[OF geometry_new, of ?in cs tip] by simp
  have "pending_edges ?s = []"
  proof (rule ccontr)
    assume "pending_edges ?s \<noteq> []"
    then obtain pe where "pe \<in> set (pending_edges ?s)" by (cases "pending_edges ?s") auto
    with g have ok: "pending_ok ?in cs ?s pe" by (simp add: geometry_def)
    let ?i = "pe_from_row pe"
    from ok have "?i < length cs" "pe_parent pe \<in> set (cs_parents (cs ! ?i))"
        "pe_parent pe \<in> cs_id ` set cs" "pe_parent pe \<notin> cs_id ` set (drop (Suc ?i) cs)"
      unfolding pending_ok_def by (metis nth_mem)+
    with assms(1) show False unfolding children_first_def by blast
  qed
  with g show ?thesis
    by (simp add: chunk_def geometry_def rows_ok_def finish_def checkpoint_def
        sort_resolved_edges_def)
qed

lemma sample_children_first: "children_first sample_sorted"
  by (simp add: children_first_def sample_sorted_def sample_history_def All_less_Suc numeral_eq_Suc)

lemma sample_links:
  "all_links (\<lambda>i. i \<in> cs_id ` set sample_sorted) sample_sorted = [(0, 0), (0, 1), (1, 0), (2, 0)]"
  by code_simp

lemma lane_walk_edges_exact_witness:
  "let chunk = finish (feed (\<lambda>i. i \<in> cs_id ` set sample_sorted) sample_sorted (stream_new None))
   in map gr_commit (ch_rows chunk) = sample_sorted \<and>
      mset (map resolved_link (ch_resolved chunk)) = mset [(0, 0), (0, 1), (1, 0), (2, 0)]"
  using lane_walk_edges_exact[OF sample_children_first, of None]
  unfolding Let_def sample_links by blast

end
