(* ===== verification/Layout.thy ===== *)
theory Layout imports Coloring Lane_Stream begin

text \<open>
  \<open>crates/git-vista-core/src/layout/mod.rs\<close> and \<open>layout/badges.rs\<close>: the decoration pass over a
  laid-out graph (colours, stub cascades, badges) and the two entry points. A row index out of
  range is a panic, the result \<open>None\<close>.
\<close>

subsection \<open>Stub cascades\<close>

text \<open>The groups of \<open>decorate\<close>: stub names by anchor row, in order of first appearance.\<close>

fun add_to_group :: "string \<times> nat \<Rightarrow> (nat \<times> string list) list \<Rightarrow> (nat \<times> string list) list" where
  "add_to_group (name, row) [] = [(row, [name])]"
| "add_to_group (name, row) ((r, names) # groups) =
     (if r = row then (r, names @ [name]) # groups
      else (r, names) # add_to_group (name, row) groups)"

definition group_stubs :: "(string \<times> nat) list \<Rightarrow> (nat \<times> string list) list" where
  "group_stubs stub_seeds = fold add_to_group stub_seeds []"

definition cascade :: "graph_row list \<Rightarrow> nat \<Rightarrow> nat \<Rightarrow> string list \<Rightarrow> branch_stub list" where
  "cascade rows anchor_row base names =
     map (\<lambda>(depth, name).
         \<lparr>bs_name = name, bs_anchor_row = anchor_row, bs_anchor_lane = gr_lane (rows ! anchor_row),
          bs_lane = base + depth, bs_color = stable_color_slot name, bs_depth = depth\<rparr>)
       (enumerate 0 names)"

text \<open>The loop over the groups; the state is \<open>next_lane\<close> and the stubs so far.\<close>

definition place_cascade ::
  "graph_row list \<Rightarrow> nat \<times> string list \<Rightarrow> nat \<times> branch_stub list \<Rightarrow>
     (nat \<times> branch_stub list) option" where
  "place_cascade rows grp st =
     (case grp of (anchor_row, names) \<Rightarrow> case st of (next_lane, stubs) \<Rightarrow>
        if names = [] then Some st
        else if length rows \<le> anchor_row then None
        else Some (next_lane + length names, stubs @ cascade rows anchor_row next_lane names))"

subsection \<open>Badges\<close>

definition attach_badge ::
  "(oid \<rightharpoonup> nat) \<Rightarrow> string set \<Rightarrow> git_ref \<Rightarrow> graph_row list \<Rightarrow> graph_row list option" where
  "attach_badge ix skip r rows =
     (if ref_kind r = Branch \<and> ref_name r \<in> skip then Some rows
      else case ix (ref_target r) of
             None \<Rightarrow> Some rows
           | Some row \<Rightarrow>
               if length rows \<le> row then None
               else Some (rows[row := (rows ! row)\<lparr>gr_refs := gr_refs (rows ! row) @ [r]\<rparr>]))"

definition attach_ref_badges ::
  "graph_row list \<Rightarrow> git_ref list \<Rightarrow> string set \<Rightarrow> graph_row list option" where
  "attach_ref_badges rows refs skip = fold_option (attach_badge (row_index rows) skip) refs rows"

subsection \<open>The decoration pass and the entry points\<close>

definition decorate :: "graph \<Rightarrow> git_ref list \<Rightarrow> string option \<Rightarrow> graph option" where
  "decorate g refs head_branch =
     (case assign_branch_colors (g_rows g) refs head_branch of
        None \<Rightarrow> None
      | Some (rows, stub_seeds) \<Rightarrow>
          (case fold_option (place_cascade rows) (group_stubs stub_seeds) (g_lane_count g, []) of
             None \<Rightarrow> None
           | Some (next_lane, stubs) \<Rightarrow>
               map_option
                 (\<lambda>rows'. g\<lparr>g_rows := rows', g_lane_count := max (g_lane_count g) next_lane,
                           g_stubs := stubs\<rparr>)
                 (attach_ref_badges rows refs (set (map fst stub_seeds)))))"

definition layout :: "commit_summary list \<Rightarrow> graph option" where
  "layout commits =
     (case stable_topo_order commits of
        None \<Rightarrow> None
      | Some cs \<Rightarrow> Option.bind (layout_topology cs None) (\<lambda>g. decorate g [] None))"

definition layout_with_refs ::
  "commit_summary list \<Rightarrow> git_ref list \<Rightarrow> string option \<Rightarrow> graph option" where
  "layout_with_refs commits refs head_branch =
     (case stable_topo_order commits of
        None \<Rightarrow> None
      | Some cs \<Rightarrow> Option.bind (layout_topology cs (trunk_reserve_tip refs head_branch))
                     (\<lambda>g. decorate g refs head_branch))"

subsection \<open>The cascades\<close>

lemma add_to_group_rows:
  "fst ` set (add_to_group x groups) = insert (snd x) (fst ` set groups)"
  by (induction x groups rule: add_to_group.induct) auto

lemma add_to_group_distinct:
  "distinct (map fst groups) \<Longrightarrow> distinct (map fst (add_to_group x groups))"
proof (induction x groups rule: add_to_group.induct)
  case (2 name row r names groups)
  then show ?case using add_to_group_rows[of "(name, row)" groups] by force
qed simp

definition named_at :: "nat \<Rightarrow> (string \<times> nat) list \<Rightarrow> string list" where
  "named_at row seeds = map fst (filter (\<lambda>x. snd x = row) seeds)"

definition groups_of :: "(string \<times> nat) list \<Rightarrow> (nat \<times> string list) list \<Rightarrow> bool" where
  "groups_of seeds groups \<longleftrightarrow>
     distinct (map fst groups) \<and> fst ` set groups = snd ` set seeds \<and>
     (\<forall>(row, names) \<in> set groups. names = named_at row seeds)"

lemma add_to_group_names:
  assumes "distinct (map fst groups)" "\<forall>(row, names) \<in> set groups. names = f row"
    and "snd x \<notin> fst ` set groups \<Longrightarrow> f (snd x) = []"
  shows "\<forall>(row, names) \<in> set (add_to_group x groups).
    names = (if row = snd x then f row @ [fst x] else f row)"
  using assms
proof (induction x groups rule: add_to_group.induct)
  case (1 name row)
  then show ?case by simp
next
  case (2 name row r names groups)
  show ?case
  proof (cases "r = row")
    case True
    with "2.prems" show ?thesis by (fastforce simp: image_iff)
  next
    case False
    with 2 show ?thesis by auto
  qed
qed

lemma group_stubs_ok: "groups_of seeds (group_stubs seeds)"
proof (induction seeds rule: rev_induct)
  case Nil
  show ?case by (simp add: group_stubs_def groups_of_def)
next
  case (snoc x seeds)
  have step: "group_stubs (seeds @ [x]) = add_to_group x (group_stubs seeds)"
    by (simp add: group_stubs_def)
  have "\<forall>(row, names) \<in> set (add_to_group x (group_stubs seeds)).
      names = (if row = snd x then named_at row seeds @ [fst x] else named_at row seeds)"
    using snoc by (intro add_to_group_names)
      (use image_iff in \<open>fastforce simp: groups_of_def named_at_def filter_empty_conv\<close>)+
  then show ?case
    using snoc add_to_group_rows[of x "group_stubs seeds"] add_to_group_distinct[of "group_stubs seeds" x]
    by (auto simp: groups_of_def step named_at_def)
qed

lemma group_stubs_in:
  assumes "(row, names) \<in> set (group_stubs seeds)"
  shows "names = named_at row seeds \<and> row \<in> snd ` set seeds"
proof -
  have "row \<in> fst ` set (group_stubs seeds)" using assms by (rule image_eqI[rotated]) simp
  then show ?thesis using group_stubs_ok[of seeds] assms unfolding groups_of_def by blast
qed

lemma group_stubs_nonempty: "(row, names) \<in> set (group_stubs seeds) \<Longrightarrow> names \<noteq> []"
  using group_stubs_in[of row names seeds] by (auto simp: named_at_def filter_empty_conv)

lemma cascade_lanes: "map bs_lane (cascade rows row base names) = [base..<base + length names]"
  by (rule nth_equalityI) (simp_all add: cascade_def nth_enumerate_eq)

lemma cascade_in:
  "s \<in> set (cascade rows row base names) \<Longrightarrow>
     bs_anchor_row s = row \<and> bs_anchor_lane s = gr_lane (rows ! row) \<and>
     bs_color s = stable_color_slot (bs_name s) \<and> bs_depth s < length names \<and>
     bs_name s = names ! bs_depth s \<and> bs_lane s = base + bs_depth s"
  by (auto simp: cascade_def in_set_enumerate_eq)

text \<open>What the loop over the groups has placed.\<close>

definition stub_ok :: "graph_row list \<Rightarrow> (string \<times> nat) list \<Rightarrow> branch_stub \<Rightarrow> bool" where
  "stub_ok rows seeds s \<longleftrightarrow>
     bs_anchor_row s < length rows \<and> bs_anchor_lane s = gr_lane (rows ! bs_anchor_row s) \<and>
     bs_color s = stable_color_slot (bs_name s) \<and>
     bs_depth s < length (named_at (bs_anchor_row s) seeds) \<and>
     bs_name s = named_at (bs_anchor_row s) seeds ! bs_depth s"

definition placed :: "graph_row list \<Rightarrow> (string \<times> nat) list \<Rightarrow> nat \<Rightarrow> nat \<times> branch_stub list \<Rightarrow> bool" where
  "placed rows seeds base st \<longleftrightarrow>
     base \<le> fst st \<and> map bs_lane (snd st) = [base..<fst st] \<and> (\<forall>s \<in> set (snd st). stub_ok rows seeds s)"

lemma place_cascade_ok:
  assumes "placed rows seeds base st" "(row, names) \<in> set (group_stubs seeds)" "row < length rows"
  shows "\<exists>st'. place_cascade rows (row, names) st = Some st' \<and> placed rows seeds base st'"
proof -
  obtain nl stubs where st: "st = (nl, stubs)" by fastforce
  note n = group_stubs_in[OF assms(2)] group_stubs_nonempty[OF assms(2)]
  have "stub_ok rows seeds s" if "s \<in> set (cascade rows row nl names)" for s
    using cascade_in[OF that] n(1) assms(3) by (simp add: stub_ok_def)
  moreover have "[base..<nl] @ [nl..<nl + length names] = [base..<nl + length names]"
    using assms(1) st upt_add_eq_append[of base nl "length names"] by (simp add: placed_def)
  ultimately show ?thesis
    using assms(1,3) n(2) by (auto simp: place_cascade_def st placed_def cascade_lanes)
qed

lemma place_cascades_ok:
  assumes "\<forall>x \<in> set seeds. snd x < length rows"
  shows "\<exists>st. fold_option (place_cascade rows) (group_stubs seeds) (base, []) = Some st \<and>
    placed rows seeds base st"
proof (rule fold_option_total)
  show "placed rows seeds base (base, [])" by (simp add: placed_def)
  show "\<exists>t. place_cascade rows g st = Some t \<and> placed rows seeds base t"
    if "g \<in> set (group_stubs seeds)" "placed rows seeds base st" for g st
  proof -
    obtain row names where g: "g = (row, names)" by fastforce
    from that g have "row < length rows" using group_stubs_in assms by force
    with place_cascade_ok[of rows seeds base st row names] that g show ?thesis by blast
  qed
qed

text \<open>The stubs at one anchor row are the names seeded there, in order, one deeper each.\<close>

definition stub_view :: "branch_stub \<Rightarrow> nat \<times> nat \<times> string \<times> nat" where
  "stub_view s = (bs_anchor_row s, bs_depth s, bs_name s, bs_color s)"

definition stubs_at :: "nat \<Rightarrow> string list \<Rightarrow> (nat \<times> nat \<times> string \<times> nat) list" where
  "stubs_at row names = map (\<lambda>(depth, name). (row, depth, name, stable_color_slot name)) (enumerate 0 names)"

lemma cascade_view: "map stub_view (cascade rows row base names) = stubs_at row names"
  by (simp add: cascade_def stubs_at_def stub_view_def case_prod_unfold)

lemma place_cascades_view:
  "fold_option (place_cascade rows) groups (nl, stubs) = Some (nl', stubs') \<Longrightarrow>
     map stub_view stubs' = map stub_view stubs @ concat (map (\<lambda>(row, names). stubs_at row names) groups)"
proof (induction groups arbitrary: nl stubs)
  case Nil
  then show ?case by simp
next
  case (Cons g groups)
  obtain row names where g: "g = (row, names)" by fastforce
  show ?case
  proof (cases "names = []")
    case True
    with Cons g show ?thesis by (simp add: place_cascade_def stubs_at_def)
  next
    case False
    then have "place_cascade rows g (nl, stubs) = (if length rows \<le> row then None
        else Some (nl + length names, stubs @ cascade rows row nl names))"
      by (simp add: g place_cascade_def)
    with Cons.prems have "fold_option (place_cascade rows) groups
        (nl + length names, stubs @ cascade rows row nl names) = Some (nl', stubs')"
      by (simp split: if_splits)
    from Cons.IH[OF this] g show ?thesis by (simp add: cascade_view)
  qed
qed

lemma stubs_at_rows: "filter (\<lambda>v. fst v = i) (stubs_at row names) = (if row = i then stubs_at row names else [])"
  by (auto simp: stubs_at_def filter_empty_conv case_prod_unfold intro!: filter_True)

lemma concat_stubs_at:
  assumes "distinct (map fst groups)" "(i, names) \<in> set groups"
  shows "filter (\<lambda>v. fst v = i) (concat (map (\<lambda>(row, names). stubs_at row names) groups)) = stubs_at i names"
  using assms
proof (induction groups)
  case Nil
  then show ?case by simp
next
  case (Cons g groups)
  have other: "filter (\<lambda>v. fst v = i) (concat (map (\<lambda>(row, names). stubs_at row names) gs)) = []"
    if "i \<notin> fst ` set gs" for gs
    using that by (induction gs) (auto simp: stubs_at_rows)
  show ?case
  proof (cases "g = (i, names)")
    case True
    with Cons.prems other[of groups] show ?thesis by (simp add: stubs_at_rows)
  next
    case False
    with Cons.prems have "(i, names) \<in> set groups" by simp
    moreover from this Cons.prems have "fst g \<noteq> i" by (metis distinct.simps(2) fst_conv image_eqI list.set_map list.simps(9))
    ultimately show ?thesis using Cons by (cases g) (simp add: stubs_at_rows)
  qed
qed

lemma stubs_at_row:
  assumes "fold_option (place_cascade rows) (group_stubs seeds) (base, []) = Some (nl, stubs)"
  shows "filter (\<lambda>v. fst v = i) (map stub_view stubs) = stubs_at i (named_at i seeds)"
proof -
  have v: "map stub_view stubs =
      concat (map (\<lambda>(row, names). stubs_at row names) (group_stubs seeds))"
    using place_cascades_view[OF assms] by simp
  note g = group_stubs_ok[of seeds, unfolded groups_of_def]
  show ?thesis
  proof (cases "i \<in> fst ` set (group_stubs seeds)")
    case True
    then obtain names where n: "(i, names) \<in> set (group_stubs seeds)" by force
    with group_stubs_in have "names = named_at i seeds" by blast
    with concat_stubs_at[OF _ n] g v show ?thesis by simp
  next
    case False
    then have "named_at i seeds = []" using g by (auto simp: named_at_def filter_empty_conv)
    moreover have "filter (\<lambda>v. fst v = i) (concat (map (\<lambda>(row, names). stubs_at row names) gs)) = []"
      if "i \<notin> fst ` set gs" for gs
      using that by (induction gs) (auto simp: stubs_at_rows)
    ultimately show ?thesis using v False by (simp add: stubs_at_def)
  qed
qed

lemma stub_names:
  assumes "fold_option (place_cascade rows) (group_stubs seeds) (base, []) = Some (nl, stubs)"
  shows "bs_name ` set stubs = fst ` set seeds"
proof -
  have name: "bs_name s = fst (snd (snd (stub_view s)))" for s by (simp add: stub_view_def)
  have "n \<in> bs_name ` set stubs \<longleftrightarrow> (\<exists>i. n \<in> (\<lambda>v. fst (snd (snd v))) ` set (stubs_at i (named_at i seeds)))" for n
    unfolding stubs_at_row[OF assms, symmetric] name by auto
  moreover have "(\<lambda>v. fst (snd (snd v))) ` set (stubs_at i names) = set names" for i names
  proof -
    have "map (\<lambda>v. fst (snd (snd v))) (stubs_at i names) = names"
      by (simp add: stubs_at_def comp_def case_prod_unfold)
    then show ?thesis by (metis list.set_map)
  qed
  ultimately have "n \<in> bs_name ` set stubs \<longleftrightarrow> (\<exists>i. n \<in> set (named_at i seeds))" for n by simp
  moreover have "(\<exists>i. n \<in> set (named_at i seeds)) \<longleftrightarrow> n \<in> fst ` set seeds" for n
    by (auto simp: named_at_def)
  ultimately show ?thesis by blast
qed

subsection \<open>Badges\<close>

lemma attach_badge_ids:
  "attach_badge ix skip r rows = Some rows' \<Longrightarrow>
     map gr_commit rows' = map gr_commit rows \<and> map gr_row rows' = map gr_row rows \<and>
     map gr_lane rows' = map gr_lane rows \<and> map gr_color rows' = map gr_color rows"
  by (auto simp: attach_badge_def map_update split: option.splits if_splits)
    (metis list_update_id map_update nth_map)+

text \<open>\<open>badged\<close>: the rows \<open>rows\<close> with the refs of \<open>refs\<close> attached.\<close>

definition badges_on :: "(oid \<rightharpoonup> nat) \<Rightarrow> string set \<Rightarrow> git_ref list \<Rightarrow> nat \<Rightarrow> git_ref list" where
  "badges_on ix skip refs i =
     filter (\<lambda>r. ix (ref_target r) = Some i \<and> \<not> (ref_kind r = Branch \<and> ref_name r \<in> skip)) refs"

definition with_badges ::
  "(oid \<rightharpoonup> nat) \<Rightarrow> string set \<Rightarrow> git_ref list \<Rightarrow> graph_row list \<Rightarrow> graph_row list" where
  "with_badges ix skip refs rows =
     map (\<lambda>i. (rows ! i)\<lparr>gr_refs := gr_refs (rows ! i) @ badges_on ix skip refs i\<rparr>) [0..<length rows]"

lemma with_badges_length [simp]: "length (with_badges ix skip refs rows) = length rows"
  by (simp add: with_badges_def)

lemma with_badges_nth:
  "i < length rows \<Longrightarrow> with_badges ix skip refs rows ! i =
     (rows ! i)\<lparr>gr_refs := gr_refs (rows ! i) @ badges_on ix skip refs i\<rparr>"
  by (simp add: with_badges_def)

lemma attach_badge_step:
  assumes "in_window rows ix"
  shows "attach_badge ix skip r (with_badges ix skip refs rows) =
    Some (with_badges ix skip (refs @ [r]) rows)"
proof -
  have "with_badges ix skip (refs @ [r]) rows =
      (if ref_kind r = Branch \<and> ref_name r \<in> skip then with_badges ix skip refs rows
       else case ix (ref_target r) of None \<Rightarrow> with_badges ix skip refs rows
         | Some row \<Rightarrow> (with_badges ix skip refs rows)[row := (with_badges ix skip refs rows ! row)
             \<lparr>gr_refs := gr_refs (with_badges ix skip refs rows ! row) @ [r]\<rparr>])"
    using assms
    by (intro nth_equalityI)
      (auto simp: with_badges_nth badges_on_def nth_list_update in_window_def split: option.splits)
  moreover have "\<not> length rows \<le> row" if "ix (ref_target r) = Some row" for row
    using assms that by (auto simp: in_window_def not_le)
  ultimately show ?thesis by (cases "ix (ref_target r)") (simp_all add: attach_badge_def)
qed

lemma attach_badges_run:
  assumes "in_window rows ix"
  shows "fold_option (attach_badge ix skip) refs rows = Some (with_badges ix skip refs rows)"
proof (induction refs rule: rev_induct)
  case Nil
  have "with_badges ix skip [] rows = rows"
    by (rule nth_equalityI) (simp_all add: with_badges_nth badges_on_def)
  then show ?case by simp
next
  case (snoc r refs)
  then show ?case using attach_badge_step[OF assms] by (simp add: fold_option_append)
qed

lemma attach_ref_badges_result:
  "numbered rows \<Longrightarrow> attach_ref_badges rows refs skip = Some (with_badges (row_index rows) skip refs rows)"
  by (simp add: attach_ref_badges_def attach_badges_run row_index_window)

subsection \<open>The decoration pass returns\<close>

lemma paint_numbered: "numbered rows \<Longrightarrow> numbered (map (paint col) rows)"
  by (simp add: numbered_def paint_def comp_def)

lemma row_index_paint: "row_index (map (paint col) rows) = row_index rows"
  by (simp add: row_index_def paint_def comp_def)

lemma decorate_result:
  assumes n: "numbered (g_rows g)"
  shows "\<exists>col seeds next_lane stubs.
    assign_branch_colors (g_rows g) refs head_branch = Some (map (paint col) (g_rows g), seeds) \<and>
    placed (g_rows g) seeds (g_lane_count g) (next_lane, stubs) \<and>
    fold_option (place_cascade (map (paint col) (g_rows g))) (group_stubs seeds) (g_lane_count g, []) =
      Some (next_lane, stubs) \<and>
    decorate g refs head_branch = Some (g\<lparr>
      g_rows := with_badges (row_index (g_rows g)) (set (map fst seeds)) refs (map (paint col) (g_rows g)),
      g_lane_count := next_lane, g_stubs := stubs\<rparr>)"
proof -
  obtain col seeds where a: "assign_branch_colors (g_rows g) refs head_branch =
      Some (map (paint col) (g_rows g), seeds)" "\<forall>x \<in> set seeds. snd x < length (g_rows g)"
    using assign_branch_colors_total[OF n] by blast
  let ?rows = "map (paint col) (g_rows g)"
  obtain next_lane stubs where p: "fold_option (place_cascade ?rows) (group_stubs seeds)
      (g_lane_count g, []) = Some (next_lane, stubs)" "placed ?rows seeds (g_lane_count g) (next_lane, stubs)"
    using place_cascades_ok[of seeds ?rows "g_lane_count g"] a(2) by auto
  have ok: "stub_ok ?rows seeds s \<longleftrightarrow> stub_ok (g_rows g) seeds s" for s
    by (auto simp: stub_ok_def paint_def)
  from p(2) have p2: "placed (g_rows g) seeds (g_lane_count g) (next_lane, stubs)"
    by (simp add: placed_def ok)
  then have "max (g_lane_count g) next_lane = next_lane" by (simp add: placed_def)
  with a(1) p(1) have "decorate g refs head_branch = Some (g\<lparr>
      g_rows := with_badges (row_index (g_rows g)) (set (map fst seeds)) refs ?rows,
      g_lane_count := next_lane, g_stubs := stubs\<rparr>)"
    by (simp add: decorate_def attach_ref_badges_result paint_numbered[OF n] row_index_paint)
  with a(1) p(1) p2 show ?thesis by blast
qed

subsection \<open>The topology pass returns\<close>

lemma finish_geometry:
  assumes "geometry inside cs s"
  shows "map gr_commit (ch_rows (finish s)) = cs \<and> numbered (ch_rows (finish s)) \<and>
    (\<forall>r \<in> set (ch_rows (finish s)). gr_lane r < ch_lane_count (finish s)) \<and>
    (\<forall>r \<in> set (ch_resolved (finish s)). resolved_ok (ch_rows (finish s)) r)"
  using assms
  by (auto simp: finish_def checkpoint_def geometry_def rows_ok_def numbered_def
      sort_resolved_edges_def dest: arg_cong[of _ _ length])

lemma push_blank:
  "\<forall>r \<in> set (out_rows s). gr_refs r = [] \<and> gr_color r = 0 \<Longrightarrow>
     \<forall>r \<in> set (out_rows (push inside c s)). gr_refs r = [] \<and> gr_color r = 0"
  by (cases "pick_lane (cs_id c) (open_lanes s)") (simp add: push_sel)

lemma feed_blank:
  "\<forall>r \<in> set (out_rows s). gr_refs r = [] \<and> gr_color r = 0 \<Longrightarrow>
     \<forall>r \<in> set (out_rows (feed inside cs s)). gr_refs r = [] \<and> gr_color r = 0"
proof (induction cs arbitrary: s)
  case Nil
  then show ?case by simp
next
  case (Cons c cs)
  from Cons.IH[OF push_blank[OF Cons.prems]] show ?case by simp
qed

lemma resolved_ok_key: "resolved_ok rows r \<Longrightarrow> edge_key rows (re_edge r) \<noteq> None"
  by (auto simp: resolved_ok_def edge_key_def Let_def position_None split: option.splits)

lemma layout_topology_result:
  "\<exists>g. layout_topology cs tip = Some g \<and> map gr_commit (g_rows g) = cs \<and> numbered (g_rows g) \<and>
     (\<forall>r \<in> set (g_rows g). gr_lane r < g_lane_count g \<and> gr_refs r = [] \<and> gr_color r = 0) \<and> g_stubs g = []"
proof -
  let ?in = "\<lambda>i. i \<in> set (map cs_id cs)"
  let ?tip = "case tip of Some t \<Rightarrow> if ?in t then Some t else None | None \<Rightarrow> None"
  let ?s = "feed ?in cs (stream_new ?tip)"
  have g: "geometry ?in cs ?s" using geometry_feed[OF geometry_new, of ?in cs ?tip] by simp
  note f = finish_geometry[OF g]
  have "\<forall>r \<in> set (ch_rows (finish ?s)). gr_refs r = [] \<and> gr_color r = 0"
    using feed_blank[of "stream_new ?tip" ?in cs] by (simp add: finish_def checkpoint_def stream_new_def)
  moreover have "\<exists>es. canonicalize_edges (ch_rows (finish ?s)) (strip_resolved_edges (ch_resolved (finish ?s))) = Some es"
  proof -
    have "list_all (\<lambda>e. edge_key (ch_rows (finish ?s)) e \<noteq> None)
        (strip_resolved_edges (ch_resolved (finish ?s)))"
      using f resolved_ok_key unfolding list_all_iff strip_resolved_edges_def by fastforce
    then show ?thesis by (simp add: canonicalize_edges_def)
  qed
  then obtain es where "layout_topology cs tip = Some \<lparr>g_rows = ch_rows (finish ?s), g_edges = es,
      g_lane_count = ch_lane_count (finish ?s), g_stubs = []\<rparr>"
    unfolding layout_topology_def Let_def by fastforce
  moreover have "\<exists>x. g = Some x \<and> P x" if "g = Some y" "P y" for g :: "graph option" and y P
    using that by blast
  ultimately show ?thesis using f by simp
qed

subsection \<open>The entry points\<close>

lemma with_badges_commits:
  "map gr_commit (with_badges ix skip refs (map (paint col) rows)) = map gr_commit rows"
  "map gr_lane (with_badges ix skip refs (map (paint col) rows)) = map gr_lane rows"
  "map gr_row (with_badges ix skip refs (map (paint col) rows)) = map gr_row rows"
  by (rule nth_equalityI; simp add: with_badges_nth paint_def)+

lemma layout_with_refs_total:
  "\<exists>g. layout_with_refs commits refs head_branch = Some g \<and>
     mset (map gr_commit (g_rows g)) = mset commits \<and> numbered (g_rows g)"
proof -
  obtain cs where cs: "stable_topo_order commits = Some cs" "mset cs = mset commits"
    using topo_total by blast
  obtain g where g: "layout_topology cs (trunk_reserve_tip refs head_branch) = Some g"
      "map gr_commit (g_rows g) = cs" "numbered (g_rows g)"
    using layout_topology_result by blast
  from decorate_result[OF g(3), of refs head_branch] obtain col next_lane stubs
    and seeds :: "(string \<times> nat) list" where
    "decorate g refs head_branch = Some (g\<lparr>
      g_rows := with_badges (row_index (g_rows g)) (set (map fst seeds)) refs (map (paint col) (g_rows g)),
      g_lane_count := next_lane, g_stubs := stubs\<rparr>)"
    by (elim exE conjE) blast
  with cs g show ?thesis
    by (simp add: layout_with_refs_def numbered_def with_badges_commits del: mset_map)
qed

text \<open>
  The layout never panics: for every list of commits (cyclic, with repeated ids or with
  parents outside the window included) and every set of refs, the two entry points return a
  graph, its rows are the given commits reordered, and the rows are numbered by their position.
\<close>

theorem layout_total:
  "\<exists>g. layout_with_refs commits refs head_branch = Some g \<and>
     mset (map gr_commit (g_rows g)) = mset commits \<and> numbered (g_rows g)"
  by (rule layout_with_refs_total)

text \<open>
  The stub columns never collide with each other or with the commits: there is a column
  that every commit is left of, the stubs take the columns from there on, one each without a
  gap, up to the lane count; each stub is anchored at an existing row, in that row's lane, and
  is never painted in the trunk's colour.
\<close>

theorem stub_lanes_disjoint:
  "\<exists>g commit_lanes. layout_with_refs commits refs head_branch = Some g \<and>
    (\<forall>r \<in> set (g_rows g). gr_lane r < commit_lanes) \<and>
    commit_lanes \<le> g_lane_count g \<and> map bs_lane (g_stubs g) = [commit_lanes..<g_lane_count g] \<and>
    (\<forall>s \<in> set (g_stubs g). bs_anchor_row s < length (g_rows g) \<and>
       bs_anchor_lane s = gr_lane (g_rows g ! bs_anchor_row s) \<and> bs_color s \<noteq> 0)"
proof -
  obtain cs where cs: "stable_topo_order commits = Some cs" using topo_total by blast
  obtain t where t: "layout_topology cs (trunk_reserve_tip refs head_branch) = Some t"
      "numbered (g_rows t)" "\<forall>r \<in> set (g_rows t). gr_lane r < g_lane_count t"
    using layout_topology_result by blast
  from decorate_result[OF t(2), of refs head_branch] obtain col seeds next_lane stubs where
    p: "placed (g_rows t) seeds (g_lane_count t) (next_lane, stubs)" and
    d: "decorate t refs head_branch = Some (t\<lparr>
      g_rows := with_badges (row_index (g_rows t)) (set (map fst seeds)) refs (map (paint col) (g_rows t)),
      g_lane_count := next_lane, g_stubs := stubs\<rparr>)"
    by blast
  let ?g = "t\<lparr>
      g_rows := with_badges (row_index (g_rows t)) (set (map fst seeds)) refs (map (paint col) (g_rows t)),
      g_lane_count := next_lane, g_stubs := stubs\<rparr>"
  obtain g where g: "g = ?g" by simp
  have lay: "layout_with_refs commits refs head_branch = Some g"
    using d cs t(1) by (simp add: layout_with_refs_def g)
  have lanes: "gr_lane ` set (g_rows g) = gr_lane ` set (g_rows t)"
    using with_badges_commits(2) unfolding g by (metis (no_types, lifting) graph.select_convs(1)
      graph.surjective graph.update_convs(1,3,4) list.set_map)
  have "\<forall>r \<in> set (g_rows g). gr_lane r < g_lane_count t" using t(3) lanes by force
  moreover have "bs_color s \<noteq> 0" if "stub_ok (g_rows t) seeds s" for s
    using that stable_color_slot_range[of "bs_name s"] by (simp add: stub_ok_def)
  ultimately show ?thesis
    using p lay by (intro exI[of _ g] exI[of _ "g_lane_count t"])
      (auto simp: g placed_def stub_ok_def with_badges_nth paint_def)
qed

lemma row_index_nth:
  assumes "numbered rows" "distinct (map row_id rows)" "i < length rows"
  shows "row_index rows p = Some i \<longleftrightarrow> p = row_id (rows ! i)"
  using assms index_map_distinct[OF assms(2), of p i] by (auto simp: row_index_numbered)

lemma stub_lanes_disjoint_witness:
  "\<exists>g commit_lanes. layout_with_refs sample_history sample_refs (Some ''main'') = Some g \<and>
    (\<forall>r \<in> set (g_rows g). gr_lane r < commit_lanes) \<and>
    commit_lanes \<le> g_lane_count g \<and> map bs_lane (g_stubs g) = [commit_lanes..<g_lane_count g] \<and>
    (\<forall>s \<in> set (g_stubs g). bs_anchor_row s < length (g_rows g) \<and>
       bs_anchor_lane s = gr_lane (g_rows g ! bs_anchor_row s) \<and> bs_color s \<noteq> 0)"
  by (rule stub_lanes_disjoint[of sample_history sample_refs "Some ''main''"])

text \<open>
  No ref is lost and none is drawn twice: the badges of a row are exactly, and in the refs'
  order, the refs that point at its commit and are not drawn as a stub line, and only local
  branches become stub lines.
\<close>

theorem refs_drawn_once:
  assumes "layout_with_refs commits refs head_branch = Some g" and "distinct (map cs_id commits)"
    and "distinct_branches refs" and "i < length (g_rows g)"
  shows "gr_refs (g_rows g ! i) = filter (\<lambda>r. ref_target r = row_id (g_rows g ! i) \<and>
      \<not> (ref_kind r = Branch \<and> ref_name r \<in> bs_name ` set (g_stubs g))) refs \<and>
    (\<forall>s \<in> set (g_stubs g). \<exists>r \<in> set refs. ref_kind r = Branch \<and> ref_name r = bs_name s)"
proof -
  obtain cs where cs: "stable_topo_order commits = Some cs" "mset cs = mset commits"
    using topo_total by blast
  obtain t where t: "layout_topology cs (trunk_reserve_tip refs head_branch) = Some t"
      "map gr_commit (g_rows t) = cs" "numbered (g_rows t)" "\<forall>r \<in> set (g_rows t). gr_refs r = []"
    using layout_topology_result by blast
  have d: "distinct (map row_id (g_rows t))"
  proof -
    have "map row_id (g_rows t) = map cs_id cs" using t(2) by auto
    moreover have "mset (map cs_id cs) = mset (map cs_id commits)" using cs(2) by (simp only: mset_map)
    ultimately show ?thesis using assms(2) mset_eq_imp_distinct_iff by metis
  qed
  from decorate_result[OF t(3), of refs head_branch] obtain col seeds next_lane stubs where
    a: "assign_branch_colors (g_rows t) refs head_branch = Some (map (paint col) (g_rows t), seeds)" and
    f: "fold_option (place_cascade (map (paint col) (g_rows t))) (group_stubs seeds)
      (g_lane_count t, []) = Some (next_lane, stubs)" and
    dec: "decorate t refs head_branch = Some (t\<lparr>
      g_rows := with_badges (row_index (g_rows t)) (set (map fst seeds)) refs (map (paint col) (g_rows t)),
      g_lane_count := next_lane, g_stubs := stubs\<rparr>)" by blast
  with assms(1) cs t(1) have g: "g = t\<lparr>
      g_rows := with_badges (row_index (g_rows t)) (set (map fst seeds)) refs (map (paint col) (g_rows t)),
      g_lane_count := next_lane, g_stubs := stubs\<rparr>" by (simp add: layout_with_refs_def)
  have i: "i < length (g_rows t)" using assms(4) by (simp add: g)
  have "g_rows t ! i \<in> set (g_rows t)" using i by simp
  then have "gr_refs (g_rows g ! i) = filter (\<lambda>r. ref_target r = row_id (g_rows g ! i) \<and>
      \<not> (ref_kind r = Branch \<and> ref_name r \<in> bs_name ` set (g_stubs g))) refs"
    using i t(4) stub_names[OF f]
    by (simp add: g with_badges_nth paint_def badges_on_def row_index_nth[OF t(3) d i])
  moreover have "seeds = map (\<lambda>s. (ref_name s, the (row_index (g_rows t) (ref_target s))))
        (filter (demoted (g_rows t) refs head_branch) (color_seeds (row_index (g_rows t)) refs head_branch))"
    using a assign_branch_colors_result[OF assms(3) t(3), of head_branch] by simp
  then have "\<forall>n \<in> fst ` set seeds. \<exists>r \<in> set refs. ref_kind r = Branch \<and> ref_name r = n"
    by (auto simp: color_seeds_def demoted_def)
  then have "\<forall>n \<in> bs_name ` set stubs. \<exists>r \<in> set refs. ref_kind r = Branch \<and> ref_name r = n"
    by (simp only: stub_names[OF f])
  then have "\<forall>s \<in> set (g_stubs g). \<exists>r \<in> set refs. ref_kind r = Branch \<and> ref_name r = bs_name s"
    by (simp add: g)
  ultimately show ?thesis by (rule conjI)
qed

lemma refs_drawn_once_witness:
  "\<exists>g. layout_with_refs sample_history sample_refs (Some ''main'') = Some g \<and>
     (\<forall>s \<in> set (g_stubs g). \<exists>r \<in> set sample_refs. ref_kind r = Branch \<and> ref_name r = bs_name s) \<and>
     gr_refs (g_rows g ! 3) = filter (\<lambda>r. ref_target r = row_id (g_rows g ! 3) \<and>
       \<not> (ref_kind r = Branch \<and> ref_name r \<in> bs_name ` set (g_stubs g))) sample_refs"
proof -
  obtain g where g: "layout_with_refs sample_history sample_refs (Some ''main'') = Some g"
      "mset (map gr_commit (g_rows g)) = mset sample_history"
    using layout_with_refs_total by blast
  have "length (g_rows g) = length sample_history"
    using arg_cong[OF g(2), of size] by simp
  then have "3 < length (g_rows g)" by (simp add: sample_history_def)
  then show ?thesis
    using refs_drawn_once[OF g(1) sample_history_distinct sample_refs_distinct, of 3] g(1) by auto
qed

end
