(* ===== verification/Replay.thy ===== *)
theory Replay imports Layout begin

text \<open>
  \<open>crates/git-vista-core/src/layout/replay.rs\<close>: the streaming classifier that colours, badges and
  stubs paged history one row at a time, and its refinement of the whole-graph passes. The
  indices in \<open>by_target\<close> and the entries of \<open>seeds\<close> are built by \<open>replay_new\<close> from the refs, so
  every \<open>refs ! j\<close> and \<open>seeds ! j\<close> below is in range (\<open>at_row_new\<close>).
\<close>

record seed =
  sd_trunk_rank :: nat
  sd_is_remote :: bool
  sd_slot :: nat

record claim =
  cl_key :: claim_key
  cl_slot :: nat

record replay_classifier =
  rc_refs :: "git_ref list"
  rc_by_target :: "oid \<rightharpoonup> nat list"
  rc_seeds :: "seed option list"
  rc_pending :: "oid \<rightharpoonup> claim"
  rc_next_stub_offset :: nat

definition index_by_target :: "git_ref list \<Rightarrow> oid \<rightharpoonup> nat list" where
  "index_by_target refs =
     fold (\<lambda>(i, r) m. m(ref_target r \<mapsto> (case m (ref_target r) of None \<Rightarrow> [] | Some is \<Rightarrow> is) @ [i]))
       (enumerate 0 refs) Map.empty"

definition ref_seed :: "git_ref list \<Rightarrow> string option \<Rightarrow> git_ref \<Rightarrow> seed option" where
  "ref_seed refs head_branch r =
     (if \<not> is_branch r then None
      else Some \<lparr>sd_trunk_rank = ref_rank head_branch r, sd_is_remote = (ref_kind r = RemoteBranch),
                 sd_slot = line_slot refs head_branch (ref_name r)\<rparr>)"

definition replay_new :: "git_ref list \<Rightarrow> string option \<Rightarrow> replay_classifier" where
  "replay_new refs head_branch =
     \<lparr>rc_refs = refs, rc_by_target = index_by_target refs,
      rc_seeds = map (ref_seed refs head_branch) refs, rc_pending = Map.empty,
      rc_next_stub_offset = 0\<rparr>"

subsection \<open>One row\<close>

definition at_this_row :: "replay_classifier \<Rightarrow> oid \<Rightarrow> nat list" where
  "at_this_row rc i = (case rc_by_target rc i of None \<Rightarrow> [] | Some is \<Rightarrow> is)"

definition tip_claims :: "replay_classifier \<Rightarrow> oid \<Rightarrow> nat \<Rightarrow> (nat \<times> claim) list" where
  "tip_claims rc i row =
     List.map_filter
       (\<lambda>j. map_option
          (\<lambda>sd. (j, \<lparr>cl_key = ClaimKey (sd_trunk_rank sd) (sd_is_remote sd) row (ref_name (rc_refs rc ! j)),
                     cl_slot = sd_slot sd\<rparr>))
          (rc_seeds rc ! j))
       (at_this_row rc i)"

definition better :: "claim \<Rightarrow> claim \<Rightarrow> claim" where
  "better candidate winner = (if cl_key candidate < cl_key winner then candidate else winner)"

definition row_winner :: "replay_classifier \<Rightarrow> oid \<Rightarrow> nat \<Rightarrow> claim" where
  "row_winner rc i row =
     (let own = \<lparr>cl_key = ClaimKey rank_synthetic False row (synthetic_name i),
                 cl_slot = stable_color_slot (synthetic_name i)\<rparr>;
          standing = (case rc_pending rc i of Some propagated \<Rightarrow> better propagated own | None \<Rightarrow> own)
      in fold better (map snd (tip_claims rc i row)) standing)"

definition propagate :: "claim \<Rightarrow> oid option \<Rightarrow> (oid \<rightharpoonup> claim) \<Rightarrow> oid \<rightharpoonup> claim" where
  "propagate winner parent pending =
     (case parent of
        None \<Rightarrow> pending
      | Some p \<Rightarrow>
          if (case pending p of Some existing \<Rightarrow> cl_key winner < cl_key existing | None \<Rightarrow> True)
          then pending(p \<mapsto> winner) else pending)"

definition stub_names_at :: "replay_classifier \<Rightarrow> oid \<Rightarrow> nat \<Rightarrow> string list" where
  "stub_names_at rc i row =
     (let winner = row_winner rc i row;
          losers = sort_key (\<lambda>c. cl_key (snd c))
            (filter (\<lambda>c. ref_kind (rc_refs rc ! fst c) = Branch \<and> cl_key (snd c) \<noteq> cl_key winner)
               (tip_claims rc i row))
      in map (\<lambda>c. ref_name (rc_refs rc ! fst c)) losers)"

definition replay_decorate ::
  "replay_classifier \<Rightarrow> graph_row \<Rightarrow> bool \<Rightarrow> replay_classifier \<times> graph_row \<times> frame_stub list" where
  "replay_decorate rc row emit =
     (let i = row_id row; winner = row_winner rc i (gr_row row);
          names = stub_names_at rc i (gr_row row); offset = rc_next_stub_offset rc;
          stubs = (if emit
            then map (\<lambda>(depth, name). \<lparr>fs_name = name, fs_anchor_commit = i,
                   fs_lane_offset = offset + depth, fs_color = stable_color_slot name,
                   fs_depth = depth\<rparr>) (enumerate 0 names)
            else []);
          badges = (if emit
            then map ((!) (rc_refs rc))
                   (filter (\<lambda>j. \<not> (ref_kind (rc_refs rc ! j) = Branch \<and>
                                  ref_name (rc_refs rc ! j) \<in> set names)) (at_this_row rc i))
            else [])
      in (rc\<lparr>rc_pending := propagate winner (first_parent (gr_commit row)) ((rc_pending rc)(i := None)),
             rc_next_stub_offset := offset + length names\<rparr>,
          row\<lparr>gr_color := cl_slot winner, gr_refs := gr_refs row @ badges\<rparr>,
          stubs))"

definition replay_branch_colors :: "replay_classifier \<Rightarrow> (string \<times> nat) list" where
  "replay_branch_colors rc =
     List.map_filter (\<lambda>(r, sd). map_option (\<lambda>s. (ref_name r, sd_slot s)) sd)
       (zip (rc_refs rc) (rc_seeds rc))"

text \<open>A walk over rows in order, each with its \<open>emit\<close> flag.\<close>

fun replay_rows ::
  "replay_classifier \<Rightarrow> (graph_row \<times> bool) list \<Rightarrow> (graph_row \<times> frame_stub list) list" where
  "replay_rows rc [] = []"
| "replay_rows rc ((row, emit) # rest) =
     (case replay_decorate rc row emit of (rc', row', stubs) \<Rightarrow> (row', stubs) # replay_rows rc' rest)"

subsection \<open>Prefix replay\<close>

lemma replay_decorate_state: "fst (replay_decorate rc row emit) = fst (replay_decorate rc row emit')"
  by (simp add: replay_decorate_def Let_def)

lemma replay_rows_Cons:
  "replay_rows rc ((row, emit) # rest) =
     snd (replay_decorate rc row emit) # replay_rows (fst (replay_decorate rc row emit)) rest"
  by (simp add: case_prod_unfold)

text \<open>
  Paging by prefix replay is exact: whatever rows of the prefix are replayed without being
  emitted, the rows of the page come out with the same colours, badges and stubs, stub columns
  included, as in a walk that emits everything.
\<close>

theorem prefix_replay_exact:
  "drop (length prefix) (replay_rows rc (prefix @ page)) =
     drop (length prefix) (replay_rows rc (map (\<lambda>(row, _). (row, True)) prefix @ page))"
proof (induction prefix arbitrary: rc)
  case Nil
  show ?case by simp
next
  case (Cons x prefix)
  obtain row emit where x: "x = (row, emit)" by fastforce
  have "fst (replay_decorate rc row emit) = fst (replay_decorate rc row True)"
    by (rule replay_decorate_state)
  with Cons.IH[of "fst (replay_decorate rc row True)"] show ?case
    by (simp add: x replay_rows_Cons del: replay_rows.simps)
qed

subsection \<open>The ref tables\<close>

lemma nth_filter_idx: "map ((!) xs) (filter (\<lambda>j. P (xs ! j)) [0..<length xs]) = filter P xs"
proof -
  have "filter P (map ((!) xs) [0..<length xs]) = map ((!) xs) (filter (P \<circ> (!) xs) [0..<length xs])"
    by (rule filter_map)
  then show ?thesis by (simp add: map_nth comp_def)
qed

lemma index_by_target_lookup:
  "(case index_by_target refs i of None \<Rightarrow> [] | Some is \<Rightarrow> is) =
     filter (\<lambda>j. ref_target (refs ! j) = i) [0..<length refs]"
proof (induction refs rule: rev_induct)
  case Nil
  show ?case by (simp add: index_by_target_def)
next
  case (snoc r refs)
  have "index_by_target (refs @ [r]) = (index_by_target refs)(ref_target r \<mapsto>
      (case index_by_target refs (ref_target r) of None \<Rightarrow> [] | Some is \<Rightarrow> is) @ [length refs])"
    by (simp add: index_by_target_def enumerate_append_eq)
  moreover have "filter (\<lambda>j. ref_target ((refs @ [r]) ! j) = i) [0..<length refs] =
      filter (\<lambda>j. ref_target (refs ! j) = i) [0..<length refs]"
    by (intro filter_cong) (auto simp: nth_append)
  ultimately show ?case using snoc by (auto simp: nth_append)
qed

text \<open>The parts of the state that no row changes.\<close>

definition tables_ok :: "git_ref list \<Rightarrow> string option \<Rightarrow> replay_classifier \<Rightarrow> bool" where
  "tables_ok refs head_branch rc \<longleftrightarrow> rc_refs rc = refs \<and> rc_by_target rc = index_by_target refs \<and>
     rc_seeds rc = map (ref_seed refs head_branch) refs"

lemma at_row_new:
  "tables_ok refs head_branch rc \<Longrightarrow>
     at_this_row rc i = filter (\<lambda>j. ref_target (refs ! j) = i) [0..<length refs]"
  by (simp add: at_this_row_def tables_ok_def index_by_target_lookup)

definition key_claim :: "git_ref list \<Rightarrow> string option \<Rightarrow> claim_key \<Rightarrow> claim" where
  "key_claim refs head_branch k = \<lparr>cl_key = k, cl_slot = claim_slot refs head_branch k\<rparr>"

lemma key_claim_key [simp]: "cl_key (key_claim refs head_branch k) = k"
  by (simp add: key_claim_def)

lemma map_filter_guard:
  assumes "\<And>j. j \<in> set js \<Longrightarrow> f j = (if P j then Some (g j) else None)"
  shows "List.map_filter f (filter Q js) = map g (filter (\<lambda>j. P j \<and> Q j) js)"
  using assms by (induction js) (auto simp: map_filter_simps)

lemma tip_claims_new:
  assumes "tables_ok refs head_branch rc"
  shows "tip_claims rc i row =
    map (\<lambda>j. (j, key_claim refs head_branch (ref_claim head_branch (refs ! j) row)))
      (filter (\<lambda>j. is_branch (refs ! j) \<and> ref_target (refs ! j) = i) [0..<length refs])"
  unfolding tip_claims_def at_row_new[OF assms] using assms
  by (intro map_filter_guard)
    (simp add: tables_ok_def ref_seed_def key_claim_def ref_claim_def claim_slot_def)

text \<open>No local branch is called like a synthetic line; git refuses \<open>~\<close> in a ref name.\<close>

definition no_tilde :: "git_ref list \<Rightarrow> bool" where
  "no_tilde refs \<longleftrightarrow> (\<forall>r \<in> set refs. ref_kind r = Branch \<longrightarrow> take 1 (ref_name r) \<noteq> ''~'')"

lemma synthetic_not_trunk:
  "no_tilde refs \<Longrightarrow> line_slot refs head_branch (synthetic_name i) = stable_color_slot (synthetic_name i)"
  by (force simp: line_slot_def trunk_name_def has_local_def list_ex_iff no_tilde_def synthetic_name_def
      split: option.splits if_splits)

lemma synthetic_key_claim:
  "no_tilde refs \<Longrightarrow> \<lparr>cl_key = ClaimKey rank_synthetic False row (synthetic_name i),
     cl_slot = stable_color_slot (synthetic_name i)\<rparr> = key_claim refs head_branch (synthetic_claim i row)"
  by (simp add: key_claim_def synthetic_claim_def claim_slot_def synthetic_not_trunk)

lemma better_key_claim:
  "better (key_claim refs hb a) (key_claim refs hb b) = key_claim refs hb (min a b)"
  by (auto simp: better_def min_def)

lemma fold_better_key_claim:
  "fold better (map (key_claim refs hb) ks) (key_claim refs hb k) = key_claim refs hb (Min (insert k (set ks)))"
proof (induction ks arbitrary: k)
  case Nil
  then show ?case by simp
next
  case (Cons x ks)
  have "Min (insert k (set (x # ks))) = Min (insert (min x k) (set ks))"
    by (cases "ks = []") (auto simp: min.assoc min.commute min.left_commute)
  with Cons show ?case by (simp add: better_key_claim)
qed

subsection \<open>The winning claim, row by row\<close>

text \<open>
  \<open>window_ok\<close>: rows numbered by position, without repeated ids, every first parent in the window
  below its child: what the lane walk produces from a topologically ordered history.
\<close>

definition window_ok :: "graph_row list \<Rightarrow> bool" where
  "window_ok rows \<longleftrightarrow> numbered rows \<and> distinct (map row_id rows) \<and>
     (\<forall>a b. a < length rows \<longrightarrow> next_row_of rows (row_index rows) a = Some b \<longrightarrow> a < b)"

lemma window_okD:
  assumes "window_ok rows"
  shows "numbered rows" "distinct (map row_id rows)"
    "a < length rows \<Longrightarrow> next_row_of rows (row_index rows) a = Some b \<Longrightarrow> a < b"
  using assms by (auto simp: window_ok_def)

lemma chain_window: "in_window rows ix \<Longrightarrow> chain rows ix a c \<Longrightarrow> a < length rows \<Longrightarrow> c < length rows"
  by (rotate_tac, induction rule: chain.induct) (auto dest: in_window_next)

lemma claim_tip_window:
  assumes "numbered rows" "k \<in> set (all_claims rows refs head_branch)"
  shows "emitted_tip_row k < length rows"
  using assms row_index_window[OF assms(1)]
  by (auto simp: all_claims_def seed_claims_in synthetic_claims_def in_window_def)

lemma tip_claims_at:
  assumes w: "window_ok rows" and j: "j < length rows"
  shows "{k \<in> set (all_claims rows refs head_branch). emitted_tip_row k = j} =
    insert (synthetic_claim (row_id (rows ! j)) j)
      ((\<lambda>r. ref_claim head_branch r j) ` {r \<in> set refs. is_branch r \<and> ref_target r = row_id (rows ! j)})"
proof -
  note ix = row_index_nth[OF window_okD(1,2)[OF w] j]
  have seed: "k \<in> set (seed_claims (row_index rows) head_branch rs) \<and> emitted_tip_row k = j \<longleftrightarrow>
      (\<exists>r \<in> set rs. ref_target r = row_id (rows ! j) \<and> k = ref_claim head_branch r j)" for k rs
    unfolding seed_claims_in ix[symmetric] by (metis emitted_tip_ref_claim)
  have syn: "k \<in> set (synthetic_claims rows) \<and> emitted_tip_row k = j \<longleftrightarrow>
      k = synthetic_claim (row_id (rows ! j)) j" for k
    using j by (auto simp: synthetic_claims_def)
  show ?thesis
  proof (rule set_eqI)
    fix k
    have "k \<in> {k \<in> set (all_claims rows refs head_branch). emitted_tip_row k = j} \<longleftrightarrow>
        (k \<in> set (seed_claims (row_index rows) head_branch (color_seeds (row_index rows) refs head_branch))
           \<and> emitted_tip_row k = j) \<or> (k \<in> set (synthetic_claims rows) \<and> emitted_tip_row k = j)"
      by (auto simp: all_claims_def)
    also have "\<dots> \<longleftrightarrow> k \<in> insert (synthetic_claim (row_id (rows ! j)) j)
      ((\<lambda>r. ref_claim head_branch r j) ` {r \<in> set refs. is_branch r \<and> ref_target r = row_id (rows ! j)})"
      unfolding seed syn by (auto simp: color_seeds_def)
    finally show "k \<in> {k \<in> set (all_claims rows refs head_branch). emitted_tip_row k = j} \<longleftrightarrow>
      k \<in> insert (synthetic_claim (row_id (rows ! j)) j)
      ((\<lambda>r. ref_claim head_branch r j) ` {r \<in> set refs. is_branch r \<and> ref_target r = row_id (rows ! j)})" .
  qed
qed

definition first_children :: "graph_row list \<Rightarrow> nat \<Rightarrow> nat set" where
  "first_children rows j = {a. a < length rows \<and> next_row_of rows (row_index rows) a = Some j}"

lemma first_children_finite [simp]: "finite (first_children rows j)"
  by (simp add: first_children_def)

lemma claims_at_step:
  assumes w: "window_ok rows" and j: "j < length rows"
  shows "claims_at rows refs head_branch j =
    {k \<in> set (all_claims rows refs head_branch). emitted_tip_row k = j} \<union>
    (\<Union>a \<in> first_children rows j. claims_at rows refs head_branch a)"
proof -
  note n = window_okD(1)[OF w]
  have "\<exists>a \<in> first_children rows j. k \<in> claims_at rows refs head_branch a"
    if "k \<in> claims_at rows refs head_branch j" "emitted_tip_row k \<noteq> j" for k
  proof -
    from that have k: "k \<in> set (all_claims rows refs head_branch)"
        "chain rows (row_index rows) (emitted_tip_row k) j" by (auto simp: claims_at_def)
    from chain_last[OF k(2)] that(2) obtain a where
      a: "chain rows (row_index rows) (emitted_tip_row k) a" "next_row_of rows (row_index rows) a = Some j"
      by blast
    have "a < length rows" using chain_window[OF row_index_window[OF n] a(1) claim_tip_window[OF n k(1)]] .
    with a k show ?thesis by (auto simp: first_children_def claims_at_def)
  qed
  then show ?thesis
    by (auto simp: claims_at_def first_children_def intro: chain_here chain_snoc)
qed

lemma winning_key_eqI:
  assumes "k \<in> claims_at rows refs head_branch j"
    and "\<And>k'. k' \<in> claims_at rows refs head_branch j \<Longrightarrow> k \<le> k'"
  shows "winning_key rows refs head_branch j = k"
  unfolding winning_key_def using assms by (intro Min_eqI) auto

text \<open>
  The claims that wait for row \<open>j\<close> once the rows above \<open>i\<close> have been decorated, and the invariant
  that the map of pending claims holds the best of them.
\<close>

definition waiting_keys ::
  "graph_row list \<Rightarrow> git_ref list \<Rightarrow> string option \<Rightarrow> nat \<Rightarrow> nat \<Rightarrow> claim_key set" where
  "waiting_keys rows refs head_branch i j =
     winning_key rows refs head_branch ` {a \<in> first_children rows j. a < i}"

definition best_waiting ::
  "graph_row list \<Rightarrow> git_ref list \<Rightarrow> string option \<Rightarrow> nat \<Rightarrow> nat \<Rightarrow> claim option" where
  "best_waiting rows refs head_branch i j =
     (let ks = waiting_keys rows refs head_branch i j
      in if ks = {} then None else Some (key_claim refs head_branch (Min ks)))"

definition replay_inv ::
  "graph_row list \<Rightarrow> git_ref list \<Rightarrow> string option \<Rightarrow> nat \<Rightarrow> replay_classifier \<Rightarrow> bool" where
  "replay_inv rows refs head_branch i rc \<longleftrightarrow> tables_ok refs head_branch rc \<and>
     (\<forall>j. i \<le> j \<and> j < length rows \<longrightarrow>
        rc_pending rc (row_id (rows ! j)) = best_waiting rows refs head_branch i j)"

lemma waiting_keys_finite [simp]: "finite (waiting_keys rows refs head_branch i j)"
  by (simp add: waiting_keys_def first_children_def)

lemma Min_standing:
  fixes W :: "'k::linorder set"
  assumes "finite W" "finite T"
  shows "Min (insert (if W = {} then s else min (Min W) s) T) = Min (insert s (W \<union> T))"
  using assms by (cases "T = {}"; cases "W = {}")
    (simp_all add: Min_Un min.assoc min.commute min.left_commute)

lemma row_winner_waiting:
  assumes inv: "replay_inv rows refs head_branch j rc" and j: "j < length rows"
    and nt: "no_tilde refs"
  shows "row_winner rc (row_id (rows ! j)) j = key_claim refs head_branch
    (Min (insert (synthetic_claim (row_id (rows ! j)) j) (waiting_keys rows refs head_branch j j \<union>
      (\<lambda>r. ref_claim head_branch r j) ` {r \<in> set refs. is_branch r \<and> ref_target r = row_id (rows ! j)})))"
proof -
  let ?i = "row_id (rows ! j)" and ?W = "waiting_keys rows refs head_branch j j"
  let ?syn = "synthetic_claim ?i j"
  let ?rs = "filter (\<lambda>r. is_branch r \<and> ref_target r = ?i) refs"
  have t: "tables_ok refs head_branch rc" using inv by (simp add: replay_inv_def)
  let ?ks = "map (\<lambda>r. ref_claim head_branch r j) ?rs"
  have tips: "map snd (tip_claims rc ?i j) = map (key_claim refs head_branch) ?ks"
    unfolding tip_claims_new[OF t]
    by (simp add: comp_def
        nth_filter_idx[where P = "\<lambda>r. is_branch r \<and> ref_target r = ?i", symmetric])
  have "rc_pending rc ?i = best_waiting rows refs head_branch j j"
    using inv j by (simp add: replay_inv_def)
  then have standing: "(case rc_pending rc ?i of Some propagated \<Rightarrow> better propagated (key_claim refs head_branch ?syn)
       | None \<Rightarrow> key_claim refs head_branch ?syn) =
      key_claim refs head_branch (if ?W = {} then ?syn else min (Min ?W) ?syn)"
    by (simp add: best_waiting_def Let_def better_key_claim)
  have "row_winner rc ?i j = fold better (map (key_claim refs head_branch) ?ks)
      (key_claim refs head_branch (if ?W = {} then ?syn else min (Min ?W) ?syn))"
    by (simp only: row_winner_def Let_def synthetic_key_claim[OF nt, of _ _ head_branch] tips standing)
  also have "\<dots> = key_claim refs head_branch (Min (insert ?syn (?W \<union> set ?ks)))"
    unfolding fold_better_key_claim by (subst Min_standing) simp_all
  finally show ?thesis by simp
qed

lemma row_winner_best:
  assumes w: "window_ok rows" and inv: "replay_inv rows refs head_branch j rc" and j: "j < length rows"
    and nt: "no_tilde refs"
  shows "row_winner rc (row_id (rows ! j)) j = key_claim refs head_branch (winning_key rows refs head_branch j)"
proof -
  let ?T = "{k \<in> set (all_claims rows refs head_branch). emitted_tip_row k = j}"
  let ?W = "waiting_keys rows refs head_branch j j"
  have below: "a < j" if "a \<in> first_children rows j" for a
    using window_okD(3)[OF w] that by (auto simp: first_children_def)
  have W: "?W = winning_key rows refs head_branch ` first_children rows j"
    using below by (auto simp: waiting_keys_def)
  have child: "winning_key rows refs head_branch a \<in> claims_at rows refs head_branch a"
    if "a \<in> first_children rows j" for a
    using that by (auto simp: first_children_def intro: winning_key_in)
  have "winning_key rows refs head_branch j = Min (?T \<union> ?W)"
  proof (rule winning_key_eqI)
    have ne: "?T \<union> ?W \<noteq> {}" using tip_claims_at[OF w j] by blast
    have "Min (?T \<union> ?W) \<in> ?T \<union> ?W" by (rule Min_in[OF _ ne]) simp
    moreover have "?T \<union> ?W \<subseteq> claims_at rows refs head_branch j"
      using child unfolding claims_at_step[OF w j] W by blast
    ultimately show "Min (?T \<union> ?W) \<in> claims_at rows refs head_branch j" by blast
    show "Min (?T \<union> ?W) \<le> k" if k: "k \<in> claims_at rows refs head_branch j" for k
    proof -
      from k consider "k \<in> ?T" | a where "a \<in> first_children rows j" "k \<in> claims_at rows refs head_branch a"
        by (auto simp: claims_at_step[OF w j])
      then show ?thesis
      proof cases
        case 1
        then show ?thesis by (intro Min_le) auto
      next
        case (2 a)
        then have "Min (?T \<union> ?W) \<le> winning_key rows refs head_branch a" by (intro Min_le) (auto simp: W)
        also have "\<dots> \<le> k" using winning_key_le[OF 2(2)] .
        finally show ?thesis .
      qed
    qed
  qed
  moreover have "?T \<union> ?W = insert (synthetic_claim (row_id (rows ! j)) j) (?W \<union>
      (\<lambda>r. ref_claim head_branch r j) ` {r \<in> set refs. is_branch r \<and> ref_target r = row_id (rows ! j)})"
    unfolding tip_claims_at[OF w j] by blast
  ultimately show ?thesis using row_winner_waiting[OF inv j nt] by simp
qed

lemma propagate_best:
  assumes w: "window_ok rows" and inv: "replay_inv rows refs head_branch i rc"
    and i: "i < length rows" and j: "i < j" "j < length rows"
  shows "propagate (key_claim refs head_branch (winning_key rows refs head_branch i))
      (first_parent (gr_commit (rows ! i))) ((rc_pending rc)(row_id (rows ! i) := None)) (row_id (rows ! j)) =
    best_waiting rows refs head_branch (Suc i) j"
proof -
  let ?W = "winning_key rows refs head_branch i" and ?ks = "waiting_keys rows refs head_branch i j"
  let ?p = "first_parent (gr_commit (rows ! i))"
  have ne: "row_id (rows ! i) \<noteq> row_id (rows ! j)"
    using nth_eq_iff_index_eq[OF window_okD(2)[OF w], of i j] i j by simp
  have pend: "((rc_pending rc)(row_id (rows ! i) := None)) (row_id (rows ! j)) =
      best_waiting rows refs head_branch i j"
    using inv j ne by (simp add: replay_inv_def)
  have child: "i \<in> first_children rows j \<longleftrightarrow> ?p = Some (row_id (rows ! j))"
    using row_index_nth[OF window_okD(1,2)[OF w] j(2)] i
    by (auto simp: first_children_def next_row_of_def bind_eq_Some_conv)
  have "{a \<in> first_children rows j. a < Suc i} =
      (if i \<in> first_children rows j then {i} else {}) \<union> {a \<in> first_children rows j. a < i}"
    by (auto simp: less_Suc_eq)
  then have ks: "waiting_keys rows refs head_branch (Suc i) j =
      (if ?p = Some (row_id (rows ! j)) then insert ?W ?ks else ?ks)"
    by (simp add: waiting_keys_def child)
  show ?thesis
  proof (cases "?p = Some (row_id (rows ! j))")
    case False
    then have "best_waiting rows refs head_branch (Suc i) j = best_waiting rows refs head_branch i j"
      by (simp add: best_waiting_def ks)
    moreover have "propagate c ?p m (row_id (rows ! j)) = m (row_id (rows ! j))" for c m
      using False by (auto simp: propagate_def split: option.splits)
    ultimately show ?thesis using pend by simp
  next
    case True
    obtain m where m: "m = Min ?ks" by simp
    have "Min (insert ?W ?ks) = (if ?ks = {} then ?W else min ?W m)" by (simp add: m)
    with True pend ne show ?thesis
      unfolding best_waiting_def ks Let_def m[symmetric]
      by (cases "?ks = {}") (auto simp: propagate_def min_def)
  qed
qed

lemma replay_decorate_inv:
  assumes w: "window_ok rows" and inv: "replay_inv rows refs head_branch i rc" and i: "i < length rows"
    and nt: "no_tilde refs"
  shows "replay_inv rows refs head_branch (Suc i) (fst (replay_decorate rc (rows ! i) emit))"
proof -
  have row: "gr_row (rows ! i) = i" using numbered_nth[OF window_okD(1)[OF w] i] .
  show ?thesis
    using inv propagate_best[OF w inv i]
    by (simp add: replay_inv_def tables_ok_def replay_decorate_def Let_def row
        row_winner_best[OF w inv i nt] Suc_le_eq)
qed

subsection \<open>Stubs and badges\<close>

lemma sort_key_map: "sort_key f (map g xs) = map g (sort_key (\<lambda>x. f (g x)) xs)"
proof -
  have "insort_key f (g x) (map g ys) = map g (insort_key (\<lambda>x. f (g x)) x ys)" for x ys
    by (induction ys) auto
  then show ?thesis by (induction xs) auto
qed

lemma sort_key_same_order:
  assumes "\<And>x y. x \<in> set xs \<Longrightarrow> y \<in> set xs \<Longrightarrow> f x \<le> f y \<longleftrightarrow> g x \<le> g y"
  shows "sort_key f xs = sort_key g xs"
proof -
  have ins: "insort_key f x ys = insort_key g x ys" if "\<forall>y \<in> set ys. f x \<le> f y \<longleftrightarrow> g x \<le> g y" for x ys
    using that by (induction ys) auto
  have "foldr (insort_key f) zs [] = foldr (insort_key g) zs []" if "set zs \<subseteq> set xs" for zs
    using that
  proof (induction zs)
    case (Cons z zs)
    then have eq: "sort_key f zs = sort_key g zs" by (simp add: sort_key_def)
    have "insort_key f z (sort_key g zs) = insort_key g z (sort_key g zs)"
      using Cons.prems assms by (intro ins) auto
    with eq show ?case by (simp add: sort_key_def)
  qed simp
  then show ?thesis by (simp add: sort_key_def)
qed

definition stub_seeds_of :: "graph_row list \<Rightarrow> git_ref list \<Rightarrow> string option \<Rightarrow> (string \<times> nat) list" where
  "stub_seeds_of rows refs head_branch =
     map (\<lambda>s. (ref_name s, the (row_index rows (ref_target s))))
       (filter (demoted rows refs head_branch) (color_seeds (row_index rows) refs head_branch))"

lemma named_at_seeds:
  assumes w: "window_ok rows" and i: "i < length rows"
  shows "named_at i (stub_seeds_of rows refs head_branch) =
    map ref_name (sort_key (\<lambda>r. ref_claim head_branch r i)
      (filter (\<lambda>r. ref_kind r = Branch \<and> ref_target r = row_id (rows ! i) \<and>
         ref_claim head_branch r i \<noteq> winning_key rows refs head_branch i) refs))"
proof -
  note ix = row_index_nth[OF window_okD(1,2)[OF w] i]
  let ?Q = "\<lambda>r. ref_kind r = Branch \<and> ref_target r = row_id (rows ! i) \<and>
      ref_claim head_branch r i \<noteq> winning_key rows refs head_branch i"
  have "(demoted rows refs head_branch r \<and> the (row_index rows (ref_target r)) = i) \<longleftrightarrow> ?Q r" for r
    using ix[of "ref_target r"] by (cases "row_index rows (ref_target r)") (auto simp: demoted_def)
  then have "named_at i (stub_seeds_of rows refs head_branch) =
      map ref_name (filter ?Q (color_seeds (row_index rows) refs head_branch))"
    by (simp add: named_at_def stub_seeds_of_def filter_map comp_def)
  also have "filter ?Q (color_seeds (row_index rows) refs head_branch) =
      sort_key (seed_key (row_index rows) head_branch) (filter ?Q refs)"
    by (simp add: color_seeds_def filter_sort) (intro arg_cong[of _ _ "sort_key _"] filter_cong;
      auto simp: is_branch_def)
  also have "\<dots> = sort_key (\<lambda>r. ref_claim head_branch r i) (filter ?Q refs)"
    using ix
    by (intro sort_key_same_order)
      (auto simp: seed_key_def ref_claim_def less_eq_claim_key_def)
  finally show ?thesis .
qed

lemma stub_names_at_new:
  assumes w: "window_ok rows" and inv: "replay_inv rows refs head_branch i rc" and i: "i < length rows"
    and nt: "no_tilde refs"
  shows "stub_names_at rc (row_id (rows ! i)) i = named_at i (stub_seeds_of rows refs head_branch)"
proof -
  have t: "tables_ok refs head_branch rc" using inv by (simp add: replay_inv_def)
  let ?W = "winning_key rows refs head_branch i"
  let ?Q = "\<lambda>r. ref_kind r = Branch \<and> ref_target r = row_id (rows ! i) \<and> ref_claim head_branch r i \<noteq> ?W"
  have "stub_names_at rc (row_id (rows ! i)) i =
      map (\<lambda>j. ref_name (refs ! j)) (sort_key (\<lambda>j. ref_claim head_branch (refs ! j) i)
        (filter (\<lambda>j. ?Q (refs ! j)) [0..<length refs]))"
    using t unfolding stub_names_at_def tip_claims_new[OF t] row_winner_best[OF w inv i nt]
    by (simp add: filter_map sort_key_map comp_def tables_ok_def)
      (intro arg_cong[of _ _ "\<lambda>xs. map _ (sort_key _ xs)"] filter_cong; auto simp: is_branch_def)
  also have "\<dots> = map ref_name (sort_key (\<lambda>r. ref_claim head_branch r i)
      (map ((!) refs) (filter (\<lambda>j. ?Q (refs ! j)) [0..<length refs])))"
    by (simp add: sort_key_map)
  also have "\<dots> = map ref_name (sort_key (\<lambda>r. ref_claim head_branch r i) (filter ?Q refs))"
    by (simp only: nth_filter_idx[where P = ?Q])
  finally show ?thesis by (simp only: named_at_seeds[OF w i])
qed

lemma stub_name_local:
  assumes d: "distinct_branches refs" and w: "window_ok rows" and i: "i < length rows"
    and r: "r \<in> set refs" "ref_kind r = Branch" "ref_target r = row_id (rows ! i)"
  shows "ref_name r \<in> set (named_at i (stub_seeds_of rows refs head_branch)) \<longleftrightarrow>
    ref_name r \<in> fst ` set (stub_seeds_of rows refs head_branch)"
proof
  assume "ref_name r \<in> fst ` set (stub_seeds_of rows refs head_branch)"
  then obtain s where s: "s \<in> set refs" "demoted rows refs head_branch s" "ref_name s = ref_name r"
    by (auto simp: stub_seeds_of_def color_seeds_def)
  have "s = r"
  proof -
    have "inj_on (\<lambda>r. (ref_kind r, ref_name r)) (set (filter is_branch refs))"
      using d by (simp add: distinct_branches_def distinct_map)
    moreover have "ref_kind s = Branch" using s(2) by (simp add: demoted_def)
    ultimately show ?thesis using s r by (auto simp: inj_on_def is_branch_def)
  qed
  moreover have "row_index rows (ref_target r) = Some i"
    using row_index_nth[OF window_okD(1,2)[OF w] i] r(3) by simp
  ultimately have "(ref_name r, i) \<in> set (stub_seeds_of rows refs head_branch)"
    using s r by (force simp: stub_seeds_of_def color_seeds_def is_branch_def)
  then show "ref_name r \<in> set (named_at i (stub_seeds_of rows refs head_branch))"
    by (force simp: named_at_def)
qed (auto simp: named_at_def)

definition frame_view :: "nat \<Rightarrow> frame_stub \<Rightarrow> nat \<times> nat \<times> string \<times> nat" where
  "frame_view row s = (row, fs_depth s, fs_name s, fs_color s)"

text \<open>Row \<open>i\<close> as the whole-graph passes leave it.\<close>

definition final_row :: "graph_row list \<Rightarrow> git_ref list \<Rightarrow> string option \<Rightarrow> nat \<Rightarrow> graph_row" where
  "final_row rows refs head_branch i =
     (rows ! i)\<lparr>gr_color := claim_slot refs head_branch (winning_key rows refs head_branch i),
       gr_refs := gr_refs (rows ! i) @
         badges_on (row_index rows) (fst ` set (stub_seeds_of rows refs head_branch)) refs i\<rparr>"

lemma replay_decorate_row:
  assumes d: "distinct_branches refs" and w: "window_ok rows"
    and inv: "replay_inv rows refs head_branch i rc" and i: "i < length rows" and nt: "no_tilde refs"
  shows "fst (snd (replay_decorate rc (rows ! i) True)) = final_row rows refs head_branch i \<and>
    map (frame_view i) (snd (snd (replay_decorate rc (rows ! i) True))) =
      stubs_at i (named_at i (stub_seeds_of rows refs head_branch)) \<and>
    (\<forall>s \<in> set (snd (snd (replay_decorate rc (rows ! i) True))). fs_anchor_commit s = row_id (rows ! i))"
proof -
  have t: "tables_ok refs head_branch rc" using inv by (simp add: replay_inv_def)
  have row: "gr_row (rows ! i) = i" using numbered_nth[OF window_okD(1)[OF w] i] .
  let ?names = "named_at i (stub_seeds_of rows refs head_branch)"
  let ?Q = "\<lambda>r. \<not> (ref_kind r = Branch \<and> ref_name r \<in> set ?names) \<and> ref_target r = row_id (rows ! i)"
  have "map ((!) refs) (filter (\<lambda>j. \<not> (ref_kind (refs ! j) = Branch \<and> ref_name (refs ! j) \<in> set ?names))
      (at_this_row rc (row_id (rows ! i)))) = map ((!) refs) (filter (\<lambda>j. ?Q (refs ! j)) [0..<length refs])"
    by (simp add: at_row_new[OF t] conj_commute)
  also have "\<dots> = filter ?Q refs" by (rule nth_filter_idx)
  also have "\<dots> = badges_on (row_index rows) (fst ` set (stub_seeds_of rows refs head_branch)) refs i"
    unfolding badges_on_def row_index_nth[OF window_okD(1,2)[OF w] i]
    using stub_name_local[OF d w i] by (intro filter_cong) auto
  finally have badges: "map ((!) refs) (filter (\<lambda>j. \<not> (ref_kind (refs ! j) = Branch \<and>
      ref_name (refs ! j) \<in> set ?names)) (at_this_row rc (row_id (rows ! i)))) =
      badges_on (row_index rows) (fst ` set (stub_seeds_of rows refs head_branch)) refs i" .
  have refs: "rc_refs rc = refs" using t by (simp add: tables_ok_def)
  show ?thesis
    by (auto simp: replay_decorate_def Let_def row refs stub_names_at_new[OF w inv i nt]
        row_winner_best[OF w inv i nt] final_row_def badges[simplified] key_claim_def frame_view_def stubs_at_def
        case_prod_unfold)
qed

lemma replay_rows_from:
  assumes d: "distinct_branches refs" and w: "window_ok rows" and nt: "no_tilde refs"
    and inv: "replay_inv rows refs head_branch i rc" and "i \<le> length rows"
  defines "out \<equiv> \<lambda>i rc. replay_rows rc (map (\<lambda>r. (r, True)) (drop i rows))"
  shows "map fst (out i rc) = map (final_row rows refs head_branch) [i..<length rows] \<and>
    (\<forall>k < length rows - i.
       map (frame_view (i + k)) (snd (out i rc ! k)) =
         stubs_at (i + k) (named_at (i + k) (stub_seeds_of rows refs head_branch)) \<and>
       (\<forall>s \<in> set (snd (out i rc ! k)). fs_anchor_commit s = row_id (rows ! (i + k))))"
  using assms(4,5)
proof (induction "length rows - i" arbitrary: i rc)
  case 0
  then show ?case by (simp add: out_def)
next
  case (Suc m)
  then have i: "i < length rows" by simp
  let ?rc = "fst (replay_decorate rc (rows ! i) True)"
  have out: "out i rc = snd (replay_decorate rc (rows ! i) True) # out (Suc i) ?rc"
    using Cons_nth_drop_Suc[OF i] unfolding out_def by (metis list.simps(9) replay_rows_Cons)
  have "m = length rows - Suc i" "Suc i \<le> length rows" using Suc.hyps(2) i by simp_all
  from Suc.hyps(1)[OF this(1) replay_decorate_inv[OF w Suc.prems(1) i nt] this(2)]
  have IH: "map fst (out (Suc i) ?rc) = map (final_row rows refs head_branch) [Suc i..<length rows]"
    "\<And>k. k < length rows - Suc i \<Longrightarrow> map (frame_view (Suc i + k)) (snd (out (Suc i) ?rc ! k)) =
         stubs_at (Suc i + k) (named_at (Suc i + k) (stub_seeds_of rows refs head_branch)) \<and>
       (\<forall>s \<in> set (snd (out (Suc i) ?rc ! k)). fs_anchor_commit s = row_id (rows ! (Suc i + k)))"
    by blast+
  note now = replay_decorate_row[OF d w Suc.prems(1) i nt]
  show ?case
  proof (intro conjI allI impI)
    show "map fst (out i rc) = map (final_row rows refs head_branch) [i..<length rows]"
      using now IH(1) i by (simp add: out upt_conv_Cons)
    fix k
    assume k: "k < length rows - i"
    show "map (frame_view (i + k)) (snd (out i rc ! k)) =
        stubs_at (i + k) (named_at (i + k) (stub_seeds_of rows refs head_branch))"
      using now IH(2)[of "k - 1"] k i by (cases k) (simp_all add: out)
    show "\<forall>s \<in> set (snd (out i rc ! k)). fs_anchor_commit s = row_id (rows ! (i + k))"
      using now IH(2)[of "k - 1"] k i by (cases k) (simp_all add: out)
  qed
qed

lemma replay_inv_new: "replay_inv rows refs head_branch 0 (replay_new refs head_branch)"
  by (simp add: replay_inv_def tables_ok_def replay_new_def best_waiting_def waiting_keys_def)

lemma decorate_rows:
  assumes d: "distinct_branches refs" and n: "numbered (g_rows g)"
    and dec: "decorate g refs head_branch = Some g'"
  shows "g_rows g' = map (final_row (g_rows g) refs head_branch) [0..<length (g_rows g)] \<and>
    filter (\<lambda>v. fst v = i) (map stub_view (g_stubs g')) =
      stubs_at i (named_at i (stub_seeds_of (g_rows g) refs head_branch))"
proof -
  from decorate_result[OF n, of refs head_branch] obtain col seeds next_lane stubs where
    a: "assign_branch_colors (g_rows g) refs head_branch = Some (map (paint col) (g_rows g), seeds)" and
    f: "fold_option (place_cascade (map (paint col) (g_rows g))) (group_stubs seeds)
      (g_lane_count g, []) = Some (next_lane, stubs)" and
    g': "g' = g\<lparr>
      g_rows := with_badges (row_index (g_rows g)) (set (map fst seeds)) refs (map (paint col) (g_rows g)),
      g_lane_count := next_lane, g_stubs := stubs\<rparr>"
    using dec by auto
  have res: "map (paint col) (g_rows g) = map (\<lambda>r. r\<lparr>gr_color :=
        claim_slot refs head_branch (winning_key (g_rows g) refs head_branch (gr_row r))\<rparr>) (g_rows g)"
      "seeds = stub_seeds_of (g_rows g) refs head_branch"
    using a assign_branch_colors_result[OF d n, of head_branch] by (simp_all add: stub_seeds_of_def)
  have "g_rows g' = map (final_row (g_rows g) refs head_branch) [0..<length (g_rows g)]"
    unfolding g' res(1) res(2)
    by (rule nth_equalityI) (simp_all add: with_badges_nth final_row_def numbered_nth[OF n])
  then show ?thesis using stubs_at_row[OF f, of i] by (simp add: g' res(2))
qed

lemma replay_refines_decorate:
  assumes "window_ok (g_rows g)" and "distinct_branches refs" and "no_tilde refs"
    and "decorate g refs head_branch = Some g'"
  defines "out \<equiv> replay_rows (replay_new refs head_branch) (map (\<lambda>r. (r, True)) (g_rows g))"
  shows "map fst out = g_rows g' \<and> length out = length (g_rows g) \<and>
    (\<forall>i < length out. map (frame_view i) (snd (out ! i)) =
       filter (\<lambda>v. fst v = i) (map stub_view (g_stubs g')) \<and>
       (\<forall>s \<in> set (snd (out ! i)). fs_anchor_commit s = row_id (g_rows g ! i)))"
proof -
  note dec = decorate_rows[OF assms(2) window_okD(1)[OF assms(1)] assms(4)]
  have r: "map fst out = map (final_row (g_rows g) refs head_branch) [0..<length (g_rows g)] \<and>
    (\<forall>k < length (g_rows g). map (frame_view k) (snd (out ! k)) =
         stubs_at k (named_at k (stub_seeds_of (g_rows g) refs head_branch)) \<and>
       (\<forall>s \<in> set (snd (out ! k)). fs_anchor_commit s = row_id (g_rows g ! k)))"
    using replay_rows_from[OF assms(2,1,3) replay_inv_new, of head_branch] by (simp add: out_def)
  moreover from r have "length out = length (g_rows g)" by (auto dest: arg_cong[of _ _ length])
  ultimately show ?thesis using dec by simp
qed

lemma topology_window_ok:
  assumes d: "distinct (map cs_id commits)" and a: "acyclic (parent_rel commits)"
    and cs: "stable_topo_order commits = Some cs"
    and g: "map gr_commit (g_rows g) = cs" "numbered (g_rows g)"
  shows "window_ok (g_rows g)"
proof -
  have "mset cs = mset commits" using topo_total[of commits] cs by auto
  then have dcs: "distinct (map cs_id cs)"
  proof -
    have "mset (map cs_id cs) = mset (map cs_id commits)"
      using \<open>mset cs = mset commits\<close> by (simp only: mset_map)
    then show ?thesis using d mset_eq_imp_distinct_iff by metis
  qed
  have ids: "map row_id (g_rows g) = map cs_id cs" unfolding g(1)[symmetric] by simp
  have len: "length (g_rows g) = length cs" unfolding g(1)[symmetric] by simp
  have "i < j" if i: "i < length cs" and nx: "next_row_of (g_rows g) (row_index (g_rows g)) i = Some j" for i j
  proof -
    have ci: "gr_commit (g_rows g ! i) = cs ! i" using i unfolding g(1)[symmetric] by simp
    from nx obtain p where p: "first_parent (cs ! i) = Some p" "row_index (g_rows g) p = Some j"
      by (auto simp: next_row_of_def bind_eq_Some_conv ci)
    then have "j < length cs" "cs_id (cs ! j) = p"
      using index_map_SomeD[of "map cs_id cs" p j] by (auto simp: row_index_numbered[OF g(2)] ids)
    moreover have "p \<in> set (cs_parents (cs ! i))" using p(1) by (cases "cs_parents (cs ! i)") auto
    ultimately show ?thesis using topo_children_first[OF d a cs i] by blast
  qed
  with g(2) dcs ids len show ?thesis by (simp add: window_ok_def)
qed

text \<open>
  C5: the streaming classifier refines the whole-graph passes: on a history without cycles and
  repeated ids, decorating the rows of the lane walk one at a time gives exactly the rows (colours
  and badges) of \<open>layout_with_refs\<close>, and at every row the stubs of that row with the same names,
  depths and colours in the same order, each anchored at the row's commit.
\<close>

theorem paged_decoration_equals_whole_graph:
  assumes "distinct (map cs_id commits)" and "acyclic (parent_rel commits)"
    and "distinct_branches refs" and "no_tilde refs"
  shows "\<exists>cs g g'. stable_topo_order commits = Some cs \<and>
    layout_topology cs (trunk_reserve_tip refs head_branch) = Some g \<and>
    layout_with_refs commits refs head_branch = Some g' \<and>
    (let out = replay_rows (replay_new refs head_branch) (map (\<lambda>r. (r, True)) (g_rows g))
     in map fst out = g_rows g' \<and> length out = length commits \<and>
       (\<forall>i < length out. map (frame_view i) (snd (out ! i)) =
          filter (\<lambda>v. fst v = i) (map stub_view (g_stubs g')) \<and>
          (\<forall>s \<in> set (snd (out ! i)). fs_anchor_commit s = row_id (g_rows g ! i))))"
proof -
  obtain cs where cs: "stable_topo_order commits = Some cs" "mset cs = mset commits"
    using topo_total by blast
  obtain g where g: "layout_topology cs (trunk_reserve_tip refs head_branch) = Some g"
      "map gr_commit (g_rows g) = cs" "numbered (g_rows g)"
    using layout_topology_result by blast
  obtain g' where g': "layout_with_refs commits refs head_branch = Some g'"
    using layout_with_refs_total by blast
  have dec: "decorate g refs head_branch = Some g'" using g' cs(1) g(1) by (simp add: layout_with_refs_def)
  have len: "length (g_rows g) = length commits"
    using g(2) cs(2) by (metis length_map mset_eq_length)
  have w: "window_ok (g_rows g)" by (rule topology_window_ok[OF assms(1,2) cs(1) g(2,3)])
  from cs(1) g(1) g' replay_refines_decorate[OF w assms(3,4) dec] show ?thesis
    unfolding len Let_def by blast
qed

lemma sample_refs_no_tilde: "no_tilde sample_refs"
  by (simp add: no_tilde_def sample_refs_def)

lemma paged_decoration_equals_whole_graph_witness:
  "\<exists>cs g g'. stable_topo_order sample_history = Some cs \<and>
    layout_topology cs (trunk_reserve_tip sample_refs (Some ''main'')) = Some g \<and>
    layout_with_refs sample_history sample_refs (Some ''main'') = Some g' \<and>
    map fst (replay_rows (replay_new sample_refs (Some ''main'')) (map (\<lambda>r. (r, True)) (g_rows g))) =
      g_rows g'"
  using paged_decoration_equals_whole_graph[OF sample_history_distinct sample_history_acyclic
      sample_refs_distinct sample_refs_no_tilde, of "Some ''main''"]
  unfolding Let_def by blast

end
