(* ===== verification/Text.thy ===== *)
theory Text imports Prelude begin

text \<open>
  The operations of Rust's \<open>str\<close> that the parsers and printers of this development use, on byte
  strings, with the facts about them that the round trips rest on: prefixes and suffixes, splitting,
  decimal numbers, octal escapes and the UTF-8 decoder behind \<open>String::from_utf8_lossy\<close>.
\<close>

subsection \<open>Prefixes, suffixes and splitting\<close>

fun strip_prefix :: "string \<Rightarrow> string \<Rightarrow> string option" where
  "strip_prefix [] s = Some s"
| "strip_prefix (p # ps) [] = None"
| "strip_prefix (p # ps) (c # cs) = (if p = c then strip_prefix ps cs else None)"

definition starts_with :: "string \<Rightarrow> string \<Rightarrow> bool" where
  "starts_with p s \<longleftrightarrow> strip_prefix p s \<noteq> None"

definition strip_suffix :: "string \<Rightarrow> string \<Rightarrow> string option" where
  "strip_suffix p s = map_option rev (strip_prefix (rev p) (rev s))"

text \<open>\<open>str::split_once\<close>: the text before and after the first occurrence.\<close>

fun split_once :: "string \<Rightarrow> string \<Rightarrow> (string \<times> string) option" where
  "split_once pat [] = (if pat = [] then Some ([], []) else None)"
| "split_once pat (c # cs) =
     (case strip_prefix pat (c # cs) of
        Some rest \<Rightarrow> Some ([], rest)
      | None \<Rightarrow> map_option (\<lambda>(a, b). (c # a, b)) (split_once pat cs))"

text \<open>\<open>str::split\<close> on one character: as many pieces as separators, plus one.\<close>

fun split_on :: "char \<Rightarrow> string \<Rightarrow> string list" where
  "split_on c [] = [[]]"
| "split_on c (x # xs) =
     (if x = c then [] # split_on c xs
      else case split_on c xs of p # ps \<Rightarrow> (x # p) # ps | [] \<Rightarrow> [[x]])"

fun join :: "string \<Rightarrow> string list \<Rightarrow> string" where
  "join sep [] = []"
| "join sep [l] = l"
| "join sep (l # m # ls) = l @ sep @ join sep (m # ls)"

lemma strip_prefix_append [simp]: "strip_prefix p (p @ s) = Some s"
  by (induction p) auto

lemma strip_prefix_Some: "strip_prefix p s = Some r \<longleftrightarrow> s = p @ r"
  by (induction p s rule: strip_prefix.induct) auto

lemma strip_prefix_None: "strip_prefix p s = None \<longleftrightarrow> (\<forall>r. s \<noteq> p @ r)"
  using strip_prefix_Some[of p s] by (cases "strip_prefix p s") auto

lemma strip_suffix_Some: "strip_suffix p s = Some r \<longleftrightarrow> s = r @ p"
  by (auto simp: strip_suffix_def strip_prefix_Some) (metis rev_append rev_rev_ident)+

lemma strip_suffix_append [simp]: "strip_suffix p (s @ p) = Some s"
  by (simp add: strip_suffix_Some)

lemma strip_suffix_None: "strip_suffix p s = None \<longleftrightarrow> (\<forall>r. s \<noteq> r @ p)"
  using strip_suffix_Some[of p s] by (cases "strip_suffix p s") auto

lemma strip_suffix_last: "s \<noteq> [] \<Longrightarrow> last s \<noteq> c \<Longrightarrow> strip_suffix [c] s = None"
  by (auto simp: strip_suffix_None)

lemma split_once_first:
  assumes "p \<notin> set pre"
  shows "split_once (p # ps) (pre @ (p # ps) @ post) = Some (pre, post)"
  using assms
proof (induction pre)
  case Nil
  have "strip_prefix (p # ps) ((p # ps) @ post) = Some post" by (rule strip_prefix_append)
  then show ?case by simp
next
  case (Cons x pre)
  then show ?case by auto
qed

lemma split_once_absent: "p \<notin> set s \<Longrightarrow> split_once (p # ps) s = None"
  by (induction s) auto

lemma split_on_nonempty: "split_on c s \<noteq> []"
  by (cases s) (auto split: list.splits)

lemma split_on_whole: "c \<notin> set s \<Longrightarrow> split_on c s = [s]"
  by (induction s) auto

lemma split_on_append: "c \<notin> set l \<Longrightarrow> split_on c (l @ c # s) = l # split_on c s"
  by (induction l) auto

subsection \<open>Lines\<close>

definition terminated :: "string list \<Rightarrow> string" where
  "terminated ls = concat (map (\<lambda>l. l @ [CHR 0x0A]) ls)"

lemma terminated_simps [simp]:
  "terminated [] = []" "terminated (l # ls) = l @ CHR 0x0A # terminated ls"
  "terminated (ls @ ms) = terminated ls @ terminated ms"
  by (simp_all add: terminated_def)

lemma split_on_terminated:
  assumes "\<forall>l \<in> set ls. CHR 0x0A \<notin> set l"
  shows "split_on (CHR 0x0A) (terminated ls) = ls @ [[]]"
  using assms by (induction ls) (auto simp: split_on_append)

lemma split_on_init:
  "split_on c (s @ [c]) = split_on c s @ [[]]"
proof (induction s)
  case (Cons x s)
  then show ?case using split_on_nonempty[of c s] by (auto split: list.splits)
qed simp

subsection \<open>Decimal numbers\<close>

definition digit_char :: "nat \<Rightarrow> char" where
  "digit_char d = char_of (48 + d)"

definition digit_value :: "char \<Rightarrow> nat option" where
  "digit_value c = (let n = of_char c in if 48 \<le> n \<and> n \<le> 57 then Some (n - 48) else None)"

function decimal :: "int \<Rightarrow> string" where
  "decimal n = (if n < 10 then [digit_char (nat n)] else decimal (n div 10) @ [digit_char (nat (n mod 10))])"
  by pat_completeness auto
termination by (relation "measure nat") auto

declare decimal.simps [simp del]

text \<open>
  \<open>str::parse\<close> of an unsigned integer with greatest value \<open>limit\<close>: an optional plus sign, then
  at least one digit; a value that does not fit is an error at the digit where it overflows.
\<close>

fun parse_digits :: "int \<Rightarrow> string \<Rightarrow> int \<Rightarrow> int option" where
  "parse_digits limit [] acc = Some acc"
| "parse_digits limit (c # cs) acc =
     (case digit_value c of
        None \<Rightarrow> None
      | Some d \<Rightarrow> let acc' = acc * 10 + int d in if limit < acc' then None else parse_digits limit cs acc')"

definition parse_uint :: "int \<Rightarrow> string \<Rightarrow> int option" where
  "parse_uint limit s =
     (case s of
        [] \<Rightarrow> None
      | c # cs \<Rightarrow>
          if c = CHR ''+'' \<and> cs \<noteq> [] then parse_digits limit cs 0 else parse_digits limit s 0)"

lemma digit_value_char [simp]: "d < 10 \<Longrightarrow> digit_value (digit_char d) = Some d"
  by (simp add: digit_value_def digit_char_def)

lemma digit_char_range: "d < 10 \<Longrightarrow> 48 \<le> (of_char (digit_char d) :: nat) \<and> (of_char (digit_char d) :: nat) \<le> 57"
  by (simp add: digit_char_def)

lemma parse_digits_append:
  "parse_digits limit (s @ t) acc = Option.bind (parse_digits limit s acc) (parse_digits limit t)"
  by (induction s arbitrary: acc) (auto simp: Let_def split: option.splits)

lemma parse_digits_decimal: "0 \<le> n \<Longrightarrow> n \<le> limit \<Longrightarrow> parse_digits limit (decimal n) 0 = Some n"
proof (induction n rule: decimal.induct)
  case (1 n)
  show ?case
  proof (cases "n < 10")
    case True
    with "1.prems" have "nat n < 10" by simp
    with True "1.prems" show ?thesis by (simp add: decimal.simps[of n] Let_def)
  next
    case False
    have "n div 10 \<le> limit" using "1.prems" by linarith
    then have IH: "parse_digits limit (decimal (n div 10)) 0 = Some (n div 10)"
      using "1.IH"[OF False] "1.prems" by simp
    have "nat (n mod 10) < 10" by (simp add: nat_less_iff)
    then have last: "digit_value (digit_char (nat (n mod 10))) = Some (nat (n mod 10))" by simp
    have "n div 10 * 10 + n mod 10 = n" by simp
    then show ?thesis
      using False "1.prems" by (simp add: decimal.simps[of n] parse_digits_append Let_def IH last)
  qed
qed

lemma decimal_digits:
  "0 \<le> n \<Longrightarrow> c \<in> set (decimal n) \<Longrightarrow> 48 \<le> (of_char c :: nat) \<and> (of_char c :: nat) \<le> 57"
proof (induction n rule: decimal.induct)
  case (1 n)
  show ?case
  proof (cases "n < 10")
    case True
    with "1.prems" digit_char_range[of "nat n"] show ?thesis by (simp add: decimal.simps[of n])
  next
    case False
    have "nat (n mod 10) < 10" by (simp add: nat_less_iff)
    from False "1.prems" "1.IH"[OF False] digit_char_range[OF this] show ?thesis
      by (auto simp: decimal.simps[of n])
  qed
qed

lemma decimal_nonempty: "decimal n \<noteq> []"
  by (simp add: decimal.simps[of n])

lemma decimal_free:
  "0 \<le> n \<Longrightarrow> 48 > (of_char c :: nat) \<or> 57 < (of_char c :: nat) \<Longrightarrow> c \<notin> set (decimal n)"
  using decimal_digits[of n c] by auto

lemma parse_uint_decimal: "0 \<le> n \<Longrightarrow> n \<le> limit \<Longrightarrow> parse_uint limit (decimal n) = Some n"
proof -
  assume n: "0 \<le> n" "n \<le> limit"
  obtain c cs where c: "decimal n = c # cs" using decimal_nonempty[of n] by (cases "decimal n") auto
  then have "c \<noteq> CHR ''+''" using decimal_free[OF n(1), of "CHR ''+''"] by auto
  with c parse_digits_decimal[OF n] show ?thesis by (simp add: parse_uint_def)
qed

definition u32_max :: int where
  "u32_max = 2 ^ 32 - 1"

definition parse_u32 :: "string \<Rightarrow> u32 option" where
  "parse_u32 s = map_option of_int (parse_uint u32_max s)"

definition parse_u8 :: "string \<Rightarrow> u8 option" where
  "parse_u8 s = map_option of_int (parse_uint 255 s)"

definition show_u32 :: "u32 \<Rightarrow> string" where
  "show_u32 w = decimal (uint w)"

lemma parse_show_u32 [simp]: "parse_u32 (show_u32 w) = Some w"
proof -
  have "uint w < 2 ^ LENGTH(32)" by (rule unsigned_less)
  then have "uint w \<le> u32_max" by (simp add: u32_max_def)
  then show ?thesis by (simp add: parse_u32_def show_u32_def parse_uint_decimal)
qed

lemma show_u32_free: "48 > (of_char c :: nat) \<or> 57 < (of_char c :: nat) \<Longrightarrow> c \<notin> set (show_u32 w)"
  by (simp add: show_u32_def decimal_free)

text \<open>\<open>to_ascii_lowercase\<close>, one byte.\<close>

definition ascii_lower :: "char \<Rightarrow> char" where
  "ascii_lower c = (let n = (of_char c :: nat) in if 65 \<le> n \<and> n \<le> 90 then char_of (n + 32) else c)"

subsection \<open>UTF-8\<close>

text \<open>
  \<open>String::from_utf8_lossy\<close>: well-formed sequences are kept, and every maximal prefix of a
  well-formed sequence that is cut short (or a byte that starts none) becomes one U+FFFD. A Rust
  \<open>String\<close> is always \<open>valid_utf8\<close>.
\<close>

definition byte :: "char \<Rightarrow> nat" where
  "byte c = of_char c"

definition replacement :: string where
  "replacement = [CHR 0xEF, CHR 0xBF, CHR 0xBD]"

definition tail_byte :: "char \<Rightarrow> bool" where
  "tail_byte c \<longleftrightarrow> 128 \<le> byte c \<and> byte c < 192"

text \<open>The bytes that may follow a lead byte: how many more there are, and the second byte's range.\<close>

definition lead :: "char \<Rightarrow> (nat \<times> nat \<times> nat) option" where
  "lead c = (let b = byte c in
     if 194 \<le> b \<and> b \<le> 223 then Some (1, 128, 191)
     else if b = 224 then Some (2, 160, 191)
     else if b = 237 then Some (2, 128, 159)
     else if 225 \<le> b \<and> b \<le> 239 then Some (2, 128, 191)
     else if b = 240 then Some (3, 144, 191)
     else if 241 \<le> b \<and> b \<le> 243 then Some (3, 128, 191)
     else if b = 244 then Some (3, 128, 143)
     else None)"

text \<open>
  The sequence at the front: its length, and whether it is well formed. At most \<open>more\<close> tail
  bytes are taken, the first of them within the lead byte's range.
\<close>

definition sequence :: "char \<Rightarrow> string \<Rightarrow> nat \<times> bool" where
  "sequence c s =
     (if byte c < 128 then (1, True)
      else case lead c of
             None \<Rightarrow> (1, False)
           | Some (more, lo, hi) \<Rightarrow>
               (case s of
                  [] \<Rightarrow> (1, False)
                | d # t \<Rightarrow>
                    if \<not> (lo \<le> byte d \<and> byte d \<le> hi) then (1, False)
                    else let tl = takeWhile tail_byte (take (more - 1) t)
                         in (2 + length tl, length tl = more - 1)))"

lemma sequence_pos: "0 < fst (sequence c s)"
  by (auto simp: sequence_def Let_def split: option.splits list.splits)

function utf8_lossy :: "string \<Rightarrow> string" where
  "utf8_lossy [] = []"
| "utf8_lossy (c # s) =
     (case sequence c s of (n, ok) \<Rightarrow>
        (if ok then take n (c # s) else replacement) @ utf8_lossy (drop (n - 1) s))"
  by pat_completeness auto
termination by (relation "measure length") auto

function valid_utf8 :: "string \<Rightarrow> bool" where
  "valid_utf8 [] = True"
| "valid_utf8 (c # s) = (case sequence c s of (n, ok) \<Rightarrow> ok \<and> valid_utf8 (drop (n - 1) s))"
  by pat_completeness auto
termination by (relation "measure length") auto

lemma utf8_lossy_valid: "valid_utf8 s \<Longrightarrow> utf8_lossy s = s"
proof (induction s rule: valid_utf8.induct)
  case (2 c s)
  obtain n ok where n: "sequence c s = (n, ok)" by fastforce
  with "2.prems" have ok: ok "valid_utf8 (drop (n - 1) s)" by auto
  from "2.IH"[OF n[symmetric]] ok have IH: "utf8_lossy (drop (n - 1) s) = drop (n - 1) s" by simp
  have "0 < n" using sequence_pos[of c s] n by simp
  then have "take n (c # s) @ drop (n - 1) s = c # s" by (cases n) auto
  with n ok IH show ?case by simp
qed simp

lemma ascii_valid_utf8: "\<forall>c \<in> set s. byte c < 128 \<Longrightarrow> valid_utf8 s"
  by (induction s) (auto simp: sequence_def)

end
