(* ===== verification/Diff.thy ===== *)
theory Diff imports Text begin

text \<open>
  \<open>crates/git-vista-protocol/src/diff.rs\<close>: the structured diff, the four comparison modes and their
  \<open>git diff\<close> arguments, and the parser of unified-diff text. The parser skips what it does not
  recognise and never fails. Serialisation (serde) is left out. \<open>CommitOid\<close> and \<open>RefName\<close> are the
  strings they wrap.
\<close>

datatype line_kind = Context | Added | Removed

record diff_line =
  dl_kind :: line_kind
  dl_text :: string
  dl_no_newline_at_eof :: bool

record hunk =
  h_old_start :: u32
  h_old_len :: u32
  h_new_start :: u32
  h_new_len :: u32
  h_section_heading :: string
  h_lines :: "diff_line list"

datatype file_diff =
    Hunks "string option" "string option" "hunk list"
  | ModeChangeOnly string string string
  | Binary "string option" "string option"
  | Renamed string string u8 bool
  | Combined string string

subsection \<open>Comparison modes\<close>

datatype comparison_basis = Direct | SinceMergeBase

datatype diff_spec =
    WorktreeVsIndex
  | IndexVsCommit string
  | CommitVsCommit string string comparison_basis
  | RefVsRef string string comparison_basis

fun reversed :: "diff_spec \<Rightarrow> diff_spec option" where
  "reversed WorktreeVsIndex = None"
| "reversed (IndexVsCommit commit) = None"
| "reversed (CommitVsCommit base target basis) = Some (CommitVsCommit target base basis)"
| "reversed (RefVsRef base target basis) = Some (RefVsRef target base basis)"

fun reversal_is_inverse :: "diff_spec \<Rightarrow> bool" where
  "reversal_is_inverse (CommitVsCommit base target basis) \<longleftrightarrow> basis = Direct"
| "reversal_is_inverse (RefVsRef base target basis) \<longleftrightarrow> basis = Direct"
| "reversal_is_inverse spec \<longleftrightarrow> False"

fun push_endpoints :: "string \<Rightarrow> string \<Rightarrow> comparison_basis \<Rightarrow> string list" where
  "push_endpoints base target Direct = [base, target]"
| "push_endpoints base target SinceMergeBase = [base @ ''...'' @ target]"

fun diff_spec_argv_with :: "diff_spec \<Rightarrow> string list \<Rightarrow> string list" where
  "diff_spec_argv_with WorktreeVsIndex extra = ''diff'' # extra"
| "diff_spec_argv_with (IndexVsCommit commit) extra = ''diff'' # ''--cached'' # extra @ [commit]"
| "diff_spec_argv_with (CommitVsCommit base target basis) extra =
     ''diff'' # extra @ push_endpoints base target basis"
| "diff_spec_argv_with (RefVsRef base target basis) extra =
     ''diff'' # extra @ push_endpoints base target basis"

definition diff_spec_argv :: "diff_spec \<Rightarrow> string list" where
  "diff_spec_argv spec = diff_spec_argv_with spec []"

text \<open>
  Swapping the endpoints is defined exactly for the two-sided modes; it is an involution, it
  keeps the question asked (the basis), and it is an inverse patch exactly for the direct basis.
\<close>

theorem reversed_involution:
  "(case reversed spec of
      None \<Rightarrow> \<not> reversal_is_inverse spec \<and> (spec = WorktreeVsIndex \<or> (\<exists>c. spec = IndexVsCommit c))
    | Some swapped \<Rightarrow> reversed swapped = Some spec \<and>
        reversal_is_inverse swapped = reversal_is_inverse spec \<and>
        (reversal_is_inverse spec \<longleftrightarrow> length (diff_spec_argv spec) = 3))"
  by (cases spec rule: reversed.cases; cases "case spec of CommitVsCommit _ _ b \<Rightarrow> b | RefVsRef _ _ b \<Rightarrow> b | _ \<Rightarrow> Direct")
    (auto simp: diff_spec_argv_def)

subsection \<open>Lines and paths\<close>

definition newline :: char where
  "newline = CHR 0x0A"

definition split_diff_lines :: "string \<Rightarrow> string list" where
  "split_diff_lines text =
     (if text = [] then []
      else split_on newline (case strip_suffix [newline] text of Some t \<Rightarrow> t | None \<Rightarrow> text))"

definition section_start :: "string \<Rightarrow> bool" where
  "section_start line \<longleftrightarrow> starts_with ''diff --git '' line \<or>
     starts_with ''diff --combined '' line \<or> starts_with ''diff --cc '' line"

definition or_else :: "'a option \<Rightarrow> 'a option \<Rightarrow> 'a option" where
  "or_else a b = (case a of Some x \<Rightarrow> Some x | None \<Rightarrow> b)"

definition unwrap_or :: "'a \<Rightarrow> 'a option \<Rightarrow> 'a" where
  "unwrap_or d a = (case a of Some x \<Rightarrow> x | None \<Rightarrow> d)"

definition strip_ab_prefix :: "string \<Rightarrow> string" where
  "strip_ab_prefix path =
     unwrap_or path (or_else (strip_prefix ''a/'' path) (strip_prefix ''b/'' path))"

definition octal_digit :: "char \<Rightarrow> nat option" where
  "octal_digit c = (if 48 \<le> byte c \<and> byte c \<le> 55 then Some (byte c - 48) else None)"

text \<open>The value of up to \<open>n\<close> further octal digits, and what follows them.\<close>

fun octal_run :: "nat \<Rightarrow> nat \<Rightarrow> string \<Rightarrow> nat \<times> string" where
  "octal_run 0 v s = (v, s)"
| "octal_run (Suc n) v [] = (v, [])"
| "octal_run (Suc n) v (c # s) =
     (case octal_digit c of Some d \<Rightarrow> octal_run n (v * 8 + d) s | None \<Rightarrow> (v, c # s))"

lemma octal_run_length: "(v', rest) = octal_run n v s \<Longrightarrow> length rest \<le> length s"
  by (induction n v s rule: octal_run.induct) (auto split: option.splits)

text \<open>The escape loop of \<open>unquote_c_style\<close>; \<open>v as u8\<close> keeps the low eight bits.\<close>

function unescape :: "string \<Rightarrow> string" where
  "unescape [] = []"
| "unescape (c # s) =
     (if c \<noteq> CHR 0x5C then c # unescape s
      else case s of
             [] \<Rightarrow> [CHR 0x5C]
           | d # t \<Rightarrow>
               if d = CHR ''n'' then CHR 0x0A # unescape t
               else if d = CHR ''t'' then CHR 0x09 # unescape t
               else if d = CHR ''r'' then CHR 0x0D # unescape t
               else if d = CHR 0x22 then CHR 0x22 # unescape t
               else if d = CHR 0x5C then CHR 0x5C # unescape t
               else case octal_digit d of
                      Some v \<Rightarrow> (case octal_run 2 v t of (v', rest) \<Rightarrow> char_of v' # unescape rest)
                    | None \<Rightarrow> CHR 0x5C # d # unescape t)"
  by pat_completeness auto
termination
  by (relation "measure length") (auto dest!: octal_run_length)

definition unquote_c_style :: "string \<Rightarrow> string" where
  "unquote_c_style path =
     (case Option.bind (strip_prefix [CHR 0x22] path) (strip_suffix [CHR 0x22]) of
        None \<Rightarrow> path
      | Some inner \<Rightarrow> utf8_lossy (unescape inner))"

definition path_or_dev_null :: "string \<Rightarrow> string option" where
  "path_or_dev_null raw =
     (let path = unwrap_or raw (strip_suffix [CHR 0x09] raw)
      in if path = ''/dev/null'' then None else Some (strip_ab_prefix (unquote_c_style path)))"

definition git_git_line_path :: "string \<Rightarrow> string" where
  "git_git_line_path header =
     (case strip_prefix ''diff --git '' header of
        None \<Rightarrow> []
      | Some rest \<Rightarrow>
          strip_ab_prefix (case split_once '' b/'' rest of Some (a_side, _) \<Rightarrow> a_side | None \<Rightarrow> rest))"

subsection \<open>Hunks\<close>

definition parse_range :: "string \<Rightarrow> (u32 \<times> u32) option" where
  "parse_range rg =
     (case split_once '','' rg of
        Some (start, len) \<Rightarrow>
          Option.bind (parse_u32 start) (\<lambda>s. map_option (\<lambda>l. (s, l)) (parse_u32 len))
      | None \<Rightarrow> map_option (\<lambda>s. (s, 1)) (parse_u32 rg))"

definition parse_hunk_header :: "string \<Rightarrow> hunk option" where
  "parse_hunk_header text =
     Option.bind (strip_prefix ''-'' text) (\<lambda>r1.
     Option.bind (split_once '' +'' r1) (\<lambda>(old_range, r2).
     Option.bind (split_once '' @@'' r2) (\<lambda>(new_range, r3).
     Option.bind (parse_range old_range) (\<lambda>(os, ol).
     Option.bind (parse_range new_range) (\<lambda>(ns, nl).
       Some \<lparr>h_old_start = os, h_old_len = ol, h_new_start = ns, h_new_len = nl,
             h_section_heading = unwrap_or r3 (strip_prefix '' '' r3), h_lines = []\<rparr>)))))"

definition no_newline_marker :: string where
  "no_newline_marker = CHR 0x5C # '' No newline at end of file''"

definition flag_last :: "diff_line list \<Rightarrow> diff_line list" where
  "flag_last ls = (if ls = [] then [] else butlast ls @ [(last ls)\<lparr>dl_no_newline_at_eof := True\<rparr>])"

definition marker_kind :: "char \<Rightarrow> line_kind option" where
  "marker_kind c = (if c = CHR ''+'' then Some Added else if c = CHR ''-'' then Some Removed
     else if c = CHR '' '' then Some Context else None)"

text \<open>The body of the inner loop: one line of a hunk.\<close>

definition body_line :: "string \<Rightarrow> hunk \<Rightarrow> hunk" where
  "body_line line h =
     (if line = no_newline_marker then h\<lparr>h_lines := flag_last (h_lines h)\<rparr>
      else case line of
             [] \<Rightarrow> h
           | c # text \<Rightarrow>
               (case marker_kind c of
                  None \<Rightarrow> h
                | Some kind \<Rightarrow> h\<lparr>h_lines := h_lines h @
                    [\<lparr>dl_kind = kind, dl_text = text, dl_no_newline_at_eof = False\<rparr>]\<rparr>))"

abbreviation hunk_start :: "string \<Rightarrow> bool" where
  "hunk_start line \<equiv> starts_with ''@@ '' line"

function parse_hunks :: "string list \<Rightarrow> hunk list" where
  "parse_hunks [] = []"
| "parse_hunks (l # ls) =
     (case Option.bind (strip_prefix ''@@ '' l) parse_hunk_header of
        None \<Rightarrow> parse_hunks ls
      | Some h \<Rightarrow>
          fold body_line (takeWhile (\<lambda>m. \<not> hunk_start m) ls) h #
          parse_hunks (dropWhile (\<lambda>m. \<not> hunk_start m) ls))"
  by pat_completeness auto
termination
  by (relation "measure length") (auto simp: less_Suc_eq_le length_dropWhile_le)

subsection \<open>File sections\<close>

record file_section =
  sc_old_mode :: "string option"
  sc_new_mode :: "string option"
  sc_similarity :: "u8 option"
  sc_rename_from :: "string option"
  sc_rename_to :: "string option"
  sc_is_copy :: bool
  sc_old_side :: "string option option"
  sc_new_side :: "string option option"
  sc_binary :: "(string option \<times> string option) option"
  sc_new_file :: bool
  sc_deleted_file :: bool

definition empty_section :: file_section where
  "empty_section = \<lparr>sc_old_mode = None, sc_new_mode = None, sc_similarity = None,
     sc_rename_from = None, sc_rename_to = None, sc_is_copy = False, sc_old_side = None,
     sc_new_side = None, sc_binary = None, sc_new_file = False, sc_deleted_file = False\<rparr>"

definition trim_percent :: "string \<Rightarrow> string" where
  "trim_percent s = rev (dropWhile (\<lambda>c. c = CHR ''%'') (rev s))"

definition binary_sides :: "string \<Rightarrow> (string option \<times> string option) option" where
  "binary_sides rest =
     map_option (\<lambda>(a, b). (path_or_dev_null a, path_or_dev_null b))
       (Option.bind (strip_suffix '' differ'' rest) (split_once '' and ''))"

text \<open>
  One header line, in the order of the \<open>else if\<close> chain. \<open>binary_old\<close> and \<open>binary_new\<close> are always
  set together and are one field here.
\<close>

definition header_line :: "string \<Rightarrow> file_section \<Rightarrow> file_section" where
  "header_line line sc =
     (if starts_with ''new file mode '' line then sc\<lparr>sc_new_file := True\<rparr>
      else if starts_with ''deleted file mode '' line then sc\<lparr>sc_deleted_file := True\<rparr>
      else case strip_prefix ''old mode '' line of Some v \<Rightarrow> sc\<lparr>sc_old_mode := Some v\<rparr> | None \<Rightarrow>
      (case strip_prefix ''new mode '' line of Some v \<Rightarrow> sc\<lparr>sc_new_mode := Some v\<rparr> | None \<Rightarrow>
      (case strip_prefix ''similarity index '' line of
         Some v \<Rightarrow> sc\<lparr>sc_similarity := parse_u8 (trim_percent v)\<rparr> | None \<Rightarrow>
      (case strip_prefix ''rename from '' line of Some v \<Rightarrow> sc\<lparr>sc_rename_from := Some v\<rparr> | None \<Rightarrow>
      (case strip_prefix ''rename to '' line of Some v \<Rightarrow> sc\<lparr>sc_rename_to := Some v\<rparr> | None \<Rightarrow>
      (case strip_prefix ''copy from '' line of
         Some v \<Rightarrow> sc\<lparr>sc_rename_from := Some v, sc_is_copy := True\<rparr> | None \<Rightarrow>
      (case strip_prefix ''copy to '' line of
         Some v \<Rightarrow> sc\<lparr>sc_rename_to := Some v, sc_is_copy := True\<rparr> | None \<Rightarrow>
      (case strip_prefix ''Binary files '' line of
         Some rest \<Rightarrow>
           (case binary_sides rest of Some sides \<Rightarrow> sc\<lparr>sc_binary := Some sides\<rparr> | None \<Rightarrow> sc) | None \<Rightarrow>
      (case strip_prefix ''--- '' line of
         Some v \<Rightarrow> sc\<lparr>sc_old_side := Some (path_or_dev_null v)\<rparr> | None \<Rightarrow>
      (case strip_prefix ''+++ '' line of
         Some v \<Rightarrow> sc\<lparr>sc_new_side := Some (path_or_dev_null v)\<rparr> | None \<Rightarrow> sc))))))))))"

text \<open>The scan ends after the \<open>+++\<close> line; no earlier branch of the chain takes such a line.\<close>

fun scan_header :: "string list \<Rightarrow> file_section \<Rightarrow> file_section \<times> string list" where
  "scan_header [] sc = (sc, [])"
| "scan_header (l # ls) sc =
     (let sc' = header_line l sc
      in if starts_with ''+++ '' l then (sc', ls) else scan_header ls sc')"

definition flatten :: "'a option option \<Rightarrow> 'a option" where
  "flatten a = (case a of Some b \<Rightarrow> b | None \<Rightarrow> None)"

text \<open>A section without \<open>---\<close> and \<open>+++\<close> lines: a rename, a mode change, an empty file, or nothing.\<close>

definition headerless_section :: "string \<Rightarrow> file_section \<Rightarrow> file_diff option" where
  "headerless_section first sc =
     (case (sc_rename_from sc, sc_rename_to sc) of
        (Some a, Some b) \<Rightarrow> Some (Renamed a b (unwrap_or 0 (sc_similarity sc)) (sc_is_copy sc))
      | _ \<Rightarrow>
        (case (sc_old_mode sc, sc_new_mode sc) of
           (Some om, Some nm) \<Rightarrow> Some (ModeChangeOnly (git_git_line_path first) om nm)
         | _ \<Rightarrow>
           if sc_new_file sc \<or> sc_deleted_file sc then
             let path = git_git_line_path first
             in Some (Hunks (if sc_new_file sc then None else Some path)
                       (if sc_deleted_file sc then None else Some path) [])
           else None))"

definition parse_file_section :: "string list \<Rightarrow> file_diff option" where
  "parse_file_section ls =
     (case scan_header (tl ls) empty_section of (sc, rest) \<Rightarrow>
        (case sc_binary sc of
           Some (old, new) \<Rightarrow> Some (Binary old new)
         | None \<Rightarrow>
             if sc_old_side sc = None \<and> sc_new_side sc = None then headerless_section (hd ls) sc
             else Some (Hunks (flatten (sc_old_side sc)) (flatten (sc_new_side sc)) (parse_hunks rest))))"

lemma headerless_no_hunks: "headerless_section first sc = Some (Hunks old new hs) \<Longrightarrow> hs = []"
  by (auto simp: headerless_section_def Let_def split: option.splits if_splits)

definition combined_path :: "string \<Rightarrow> string option" where
  "combined_path line = or_else (strip_prefix ''diff --combined '' line) (strip_prefix ''diff --cc '' line)"

text \<open>One pass over the lines; a section is its first line and the lines up to the next section.\<close>

function parse_lines :: "string list \<Rightarrow> file_diff list" where
  "parse_lines [] = []"
| "parse_lines (l # ls) =
     (let block = takeWhile (\<lambda>m. \<not> section_start m) ls;
          later = dropWhile (\<lambda>m. \<not> section_start m) ls
      in case combined_path l of
           Some path \<Rightarrow> Combined path (join [newline] (l # block)) # parse_lines later
         | None \<Rightarrow>
             if starts_with ''diff --git '' l then
               (case parse_file_section (l # block) of
                  Some file \<Rightarrow> file # parse_lines later
                | None \<Rightarrow> parse_lines later)
             else parse_lines ls)"
  by pat_completeness auto
termination
  by (relation "measure length") (auto simp: less_Suc_eq_le length_dropWhile_le)

definition parse_unified_diff :: "string \<Rightarrow> file_diff list" where
  "parse_unified_diff text = parse_lines (split_diff_lines text)"

subsection \<open>Sections are independent\<close>

lemma split_terminated_lines:
  assumes "\<forall>l \<in> set ls. newline \<notin> set l" shows "split_diff_lines (terminated ls) = ls"
proof (cases ls rule: rev_cases)
  case Nil
  then show ?thesis by (simp add: split_diff_lines_def)
next
  case (snoc ms l)
  have "split_on newline (terminated ls) = ls @ [[]]"
    using split_on_terminated[of ls] assms by (simp add: newline_def)
  moreover have t: "terminated ls = (terminated ms @ l) @ [newline]" by (simp add: snoc newline_def)
  ultimately have "split_on newline (terminated ms @ l) = ls"
    using split_on_init[of newline "terminated ms @ l"] by simp
  moreover have "strip_suffix [newline] (terminated ls) = Some (terminated ms @ l)"
    unfolding t by (rule strip_suffix_append)
  moreover have "terminated ls \<noteq> []" by (simp add: t)
  ultimately show ?thesis by (simp add: split_diff_lines_def)
qed

definition is_section :: "string list \<Rightarrow> bool" where
  "is_section ls \<longleftrightarrow> ls \<noteq> [] \<and> section_start (hd ls) \<and> (\<forall>m \<in> set (tl ls). \<not> section_start m)"

definition parse_section :: "string list \<Rightarrow> file_diff option" where
  "parse_section ls =
     (case combined_path (hd ls) of
        Some path \<Rightarrow> Some (Combined path (join [newline] ls))
      | None \<Rightarrow> parse_file_section ls)"

lemma not_section_start:
  "\<not> section_start l \<Longrightarrow> combined_path l = None \<and> \<not> starts_with ''diff --git '' l"
  by (simp add: section_start_def combined_path_def starts_with_def or_else_def split: option.splits)

lemma parse_lines_junk: "\<forall>l \<in> set junk. \<not> section_start l \<Longrightarrow> parse_lines (junk @ ls) = parse_lines ls"
  by (induction junk) (simp_all add: not_section_start Let_def)

lemma section_start_git:
  "section_start l \<Longrightarrow> combined_path l = None \<Longrightarrow> starts_with ''diff --git '' l"
  by (auto simp: section_start_def combined_path_def starts_with_def or_else_def split: option.splits)

lemma parse_lines_section:
  assumes "is_section s" "rest = [] \<or> section_start (hd rest)"
  shows "parse_lines (s @ rest) = (case parse_section s of Some f \<Rightarrow> [f] | None \<Rightarrow> []) @ parse_lines rest"
proof -
  obtain l block where s: "s = l # block" "section_start l" "\<forall>m \<in> set block. \<not> section_start m"
    using assms(1) by (cases s) (auto simp: is_section_def)
  have tk: "takeWhile (\<lambda>m. \<not> section_start m) (block @ rest) = block"
    and dr: "dropWhile (\<lambda>m. \<not> section_start m) (block @ rest) = rest"
    using s(3) assms(2) by (cases rest; simp add: takeWhile_append dropWhile_append)+
  show ?thesis
    using section_start_git[OF s(2)]
    by (cases "combined_path l") (auto simp: s(1) Let_def parse_section_def tk dr split: option.splits)
qed

text \<open>
  Files are parsed independently: the result for a text is the results for its file sections,
  in order, with text before the first section and unintelligible sections skipped, so a section
  can neither absorb nor corrupt its neighbour; a combined section is kept verbatim.
\<close>

theorem sections_independent:
  assumes "\<forall>l \<in> set junk. \<not> section_start l" and "\<forall>s \<in> set ss. is_section s"
    and "\<forall>l \<in> set (junk @ concat ss). newline \<notin> set l"
  shows "parse_unified_diff (terminated (junk @ concat ss)) = List.map_filter parse_section ss"
proof -
  have "parse_lines (concat ss) = List.map_filter parse_section ss" using assms(2)
  proof (induction ss)
    case (Cons s ss)
    have "concat ss = [] \<or> section_start (hd (concat ss))"
      using Cons.prems by (cases ss) (auto simp: is_section_def hd_append)
    from parse_lines_section[OF _ this, of s] Cons show ?case
      by (auto simp: map_filter_simps split: option.splits)
  qed (simp add: map_filter_simps)
  then show ?thesis
    using split_terminated_lines[OF assms(3)] parse_lines_junk[OF assms(1)]
    by (simp add: parse_unified_diff_def)
qed

lemma sections_independent_witness:
  "parse_unified_diff (terminated (''warning'' # [''diff --cc x'', ''++y''] @ [''diff --git a/m b/m'', ''old mode 1'', ''new mode 2''])) =
     List.map_filter parse_section
       [[''diff --cc x'', ''++y''], [''diff --git a/m b/m'', ''old mode 1'', ''new mode 2'']]"
  using sections_independent[of "[''warning'']"
      "[[''diff --cc x'', ''++y''], [''diff --git a/m b/m'', ''old mode 1'', ''new mode 2'']]"]
  by (simp add: section_start_def starts_with_def is_section_def newline_def)

end
