(* ===== verification/Patch_Plan.thy ===== *)
theory Patch_Plan imports Diff begin

text \<open>
  \<open>crates/git-vista-protocol/src/patch_plan.rs\<close>: the partial staging selection, its strict
  deserialisation routing and its structural validation. The opaque tokens are strings; an error
  carries the path it is about.
\<close>

datatype stage_direction = Stage | Unstage

record hunk_ref =
  hr_index :: u32
  hr_old_start :: u32
  hr_new_start :: u32

record hunk_lines =
  hl_hunk :: hunk_ref
  hl_lines :: "u32 list"

datatype selection_shape =
    EntireFile
  | SelectHunks "hunk_ref list"
  | SelectLines "hunk_lines list"

record file_selection =
  fs_path :: string
  fs_selection :: selection_shape

record patch_plan =
  pp_repository :: string
  pp_worktree :: string
  pp_generation :: string
  pp_direction :: stage_direction
  pp_files :: "file_selection list"

subsection \<open>The wire form\<close>

text \<open>
  \<open>SelectionShapeWire\<close>: a tag and an optional \<open>hunks\<close> list whose elements are references or line
  selections. The untagged enum reads an empty list as references.
\<close>

datatype select_tag = TagEntireFile | TagHunks | TagLines

datatype hunks_wire = WireRefs "hunk_ref list" | WireLines "hunk_lines list"

datatype shape_error = EntireFileWithHunks | HunksWithLines | LinesWithRefs | MissingHunks

fun deserialize_shape :: "select_tag \<Rightarrow> hunks_wire option \<Rightarrow> shape_error + selection_shape" where
  "deserialize_shape TagEntireFile None = Inr EntireFile"
| "deserialize_shape TagEntireFile (Some w) = Inl EntireFileWithHunks"
| "deserialize_shape TagHunks (Some (WireRefs hunks)) = Inr (SelectHunks hunks)"
| "deserialize_shape TagHunks (Some (WireLines ls)) = Inl HunksWithLines"
| "deserialize_shape TagLines (Some (WireLines hunks)) = Inr (SelectLines hunks)"
| "deserialize_shape TagLines (Some (WireRefs refs)) =
     (if refs = [] then Inr (SelectLines []) else Inl LinesWithRefs)"
| "deserialize_shape TagHunks None = Inl MissingHunks"
| "deserialize_shape TagLines None = Inl MissingHunks"

text \<open>
  What the untagged enum makes of a list (the first matching variant), and what the derived
  \<open>Serialize\<close> writes.
\<close>

fun untagged :: "hunks_wire \<Rightarrow> hunks_wire" where
  "untagged (WireLines []) = WireRefs []"
| "untagged w = w"

fun serialize_shape :: "selection_shape \<Rightarrow> select_tag \<times> hunks_wire option" where
  "serialize_shape EntireFile = (TagEntireFile, None)"
| "serialize_shape (SelectHunks hunks) = (TagHunks, Some (WireRefs hunks))"
| "serialize_shape (SelectLines hunks) = (TagLines, Some (untagged (WireLines hunks)))"

text \<open>
  The strict route accepts a body exactly when it is the written form of the selection it
  becomes, so no payload is ever dropped or read at a different granularity.
\<close>

theorem selection_wire_exact:
  "deserialize_shape tag (map_option untagged payload) = Inr shape \<longleftrightarrow>
     serialize_shape shape = (tag, map_option untagged payload)"
proof -
  have u: "untagged (WireLines hunks) = (if hunks = [] then WireRefs [] else WireLines hunks)" for hunks
    by (cases hunks) auto
  have r: "untagged (WireRefs hunks) = WireRefs hunks" for hunks by simp
  have "deserialize_shape tag None = Inr shape \<longleftrightarrow> serialize_shape shape = (tag, None)"
    by (cases shape; cases tag) auto
  moreover have "deserialize_shape tag (Some (WireRefs hs)) = Inr shape \<longleftrightarrow>
      serialize_shape shape = (tag, Some (WireRefs hs))" for hs
    by (cases shape; cases tag) (auto simp: u)
  moreover have "deserialize_shape tag (Some (WireLines hs)) = Inr shape \<longleftrightarrow>
      serialize_shape shape = (tag, Some (WireLines hs))" if "hs \<noteq> []" for hs
    using that by (cases shape; cases tag) (auto simp: u)
  ultimately show ?thesis
    by (cases payload; cases "the payload") (auto simp: u)
qed

subsection \<open>Validation\<close>

datatype patch_plan_error =
    NoFiles
  | EmptyPath
  | DuplicatePath string
  | NoHunks string
  | UnorderedHunks string
  | MisorderedAnchors string
  | NoLines string
  | UnorderedLines string

fun ascending_from :: "u32 option \<Rightarrow> u32 list \<Rightarrow> bool" where
  "ascending_from prev [] = True"
| "ascending_from prev (v # vs) =
     (if (case prev of Some p \<Rightarrow> p \<ge> v | None \<Rightarrow> False) then False else ascending_from (Some v) vs)"

definition strictly_ascending :: "u32 list \<Rightarrow> bool" where
  "strictly_ascending vs = ascending_from None vs"

datatype disorder = DisorderIndex | DisorderAnchor

fun disorder_for_path :: "disorder \<Rightarrow> string \<Rightarrow> patch_plan_error" where
  "disorder_for_path DisorderIndex path = UnorderedHunks path"
| "disorder_for_path DisorderAnchor path = MisorderedAnchors path"

definition well_ordered :: "hunk_ref list \<Rightarrow> disorder + unit" where
  "well_ordered hunks =
     (if \<not> strictly_ascending (map hr_index hunks) then Inl DisorderIndex
      else if \<not> strictly_ascending (map hr_old_start hunks) \<or> \<not> strictly_ascending (map hr_new_start hunks)
      then Inl DisorderAnchor
      else Inr ())"

fun check_lines :: "string \<Rightarrow> hunk_lines list \<Rightarrow> patch_plan_error + unit" where
  "check_lines path [] = Inr ()"
| "check_lines path (sel # sels) =
     (if hl_lines sel = [] then Inl (NoLines path)
      else if \<not> strictly_ascending (hl_lines sel) then Inl (UnorderedLines path)
      else check_lines path sels)"

fun check_selection :: "string \<Rightarrow> selection_shape \<Rightarrow> patch_plan_error + unit" where
  "check_selection path EntireFile = Inr ()"
| "check_selection path (SelectHunks hunks) =
     (if hunks = [] then Inl (NoHunks path)
      else case well_ordered hunks of Inl d \<Rightarrow> Inl (disorder_for_path d path) | Inr u \<Rightarrow> Inr ())"
| "check_selection path (SelectLines hunks) =
     (if hunks = [] then Inl (NoHunks path)
      else case well_ordered (map hl_hunk hunks) of
             Inl d \<Rightarrow> Inl (disorder_for_path d path)
           | Inr u \<Rightarrow> check_lines path hunks)"

fun check_files :: "string set \<Rightarrow> file_selection list \<Rightarrow> patch_plan_error + unit" where
  "check_files seen [] = Inr ()"
| "check_files seen (f # fs) =
     (if fs_path f = [] then Inl EmptyPath
      else if fs_path f \<in> seen then Inl (DuplicatePath (fs_path f))
      else case check_selection (fs_path f) (fs_selection f) of
             Inl e \<Rightarrow> Inl e
           | Inr u \<Rightarrow> check_files (insert (fs_path f) seen) fs)"

definition validate :: "patch_plan \<Rightarrow> patch_plan_error + unit" where
  "validate plan = (if pp_files plan = [] then Inl NoFiles else check_files {} (pp_files plan))"

text \<open>The specification: the canonical form of a plan.\<close>

definition ascending_refs :: "hunk_ref list \<Rightarrow> bool" where
  "ascending_refs hunks \<longleftrightarrow> sorted_wrt (<) (map hr_index hunks) \<and>
     sorted_wrt (<) (map hr_old_start hunks) \<and> sorted_wrt (<) (map hr_new_start hunks)"

fun canonical_selection :: "selection_shape \<Rightarrow> bool" where
  "canonical_selection EntireFile \<longleftrightarrow> True"
| "canonical_selection (SelectHunks hunks) \<longleftrightarrow> hunks \<noteq> [] \<and> ascending_refs hunks"
| "canonical_selection (SelectLines hunks) \<longleftrightarrow> hunks \<noteq> [] \<and> ascending_refs (map hl_hunk hunks) \<and>
     (\<forall>sel \<in> set hunks. hl_lines sel \<noteq> [] \<and> sorted_wrt (<) (hl_lines sel))"

definition canonical_plan :: "patch_plan \<Rightarrow> bool" where
  "canonical_plan plan \<longleftrightarrow> pp_files plan \<noteq> [] \<and> distinct (map fs_path (pp_files plan)) \<and>
     (\<forall>f \<in> set (pp_files plan). fs_path f \<noteq> [] \<and> canonical_selection (fs_selection f))"

lemma ascending_from_iff:
  "ascending_from prev vs \<longleftrightarrow> sorted_wrt (<) vs \<and> (case prev of Some p \<Rightarrow> \<forall>v \<in> set vs. p < v | None \<Rightarrow> True)"
proof (induction prev vs rule: ascending_from.induct)
  case (2 prev v vs)
  show ?case using 2 by (cases prev) (auto simp: not_le intro: less_trans)
qed (simp split: option.splits)

lemma strictly_ascending_iff: "strictly_ascending vs \<longleftrightarrow> sorted_wrt (<) vs"
  by (simp add: strictly_ascending_def ascending_from_iff)

lemma well_ordered_ok: "well_ordered hunks = Inr u \<longleftrightarrow> ascending_refs hunks"
  by (auto simp: well_ordered_def strictly_ascending_iff ascending_refs_def)

lemma check_lines_ok:
  "check_lines path sels = Inr u \<longleftrightarrow> (\<forall>sel \<in> set sels. hl_lines sel \<noteq> [] \<and> sorted_wrt (<) (hl_lines sel))"
  by (induction sels) (auto simp: strictly_ascending_iff)

lemma check_selection_ok: "check_selection path shape = Inr u \<longleftrightarrow> canonical_selection shape"
  by (cases shape)
    (auto split: sum.splits simp: check_lines_ok well_ordered_ok[of _ "()", symmetric])

lemma check_files_ok:
  "check_files seen fs = Inr u \<longleftrightarrow> distinct (map fs_path fs) \<and> seen \<inter> fs_path ` set fs = {} \<and>
     (\<forall>f \<in> set fs. fs_path f \<noteq> [] \<and> canonical_selection (fs_selection f))"
proof (induction fs arbitrary: seen)
  case (Cons f fs)
  show ?case
  proof (cases "check_selection (fs_path f) (fs_selection f)")
    case (Inl e)
    then have "\<not> canonical_selection (fs_selection f)"
      using check_selection_ok[of "fs_path f" "fs_selection f" "()"] by simp
    with Inl show ?thesis by auto
  next
    case (Inr v)
    then have "canonical_selection (fs_selection f)"
      using check_selection_ok[of "fs_path f" "fs_selection f" v] by simp
    with Inr Cons.IH[of "insert (fs_path f) seen"] show ?thesis by auto
  qed
qed simp

text \<open>
  Validation accepts exactly the canonical plans: something is selected, every path is
  non-empty and named once, every hunk and line list is non-empty and strictly ascending, and the
  header anchors ascend with the ordinals.
\<close>

theorem validate_iff_canonical: "validate plan = Inr () \<longleftrightarrow> canonical_plan plan"
  by (auto simp: validate_def canonical_plan_def check_files_ok)

end
