(* ===== verification/Patch_Build.thy ===== *)
theory Patch_Build imports Patch_Plan begin

text \<open>
  \<open>crates/git-vista-protocol/src/patch_build.rs\<close>: the patch text and the path list that execute a
  validated plan against the pinned diff. \<open>write!\<close> into a \<open>String\<close> never fails; a \<open>u32\<close> counter
  wraps at its width.
\<close>

record selected_patch =
  sp_patch :: string
  sp_whole_files :: "string list"

datatype selection_mismatch =
    UnknownPath string
  | NotHunkAddressable string
  | HunkOutOfRange string u32
  | AnchorMismatch string u32
  | LineOutOfRange string u32 u32
  | ContextLineSelected string u32 u32

fun canonical_path :: "file_diff \<Rightarrow> string option" where
  "canonical_path (Hunks old_path new_path hunks) = or_else new_path old_path"
| "canonical_path (Binary old_path new_path) = or_else new_path old_path"
| "canonical_path (ModeChangeOnly path old_mode new_mode) = Some path"
| "canonical_path (Combined path raw) = Some path"
| "canonical_path (Renamed old_path new_path similarity is_copy) = Some new_path"

subsection \<open>Quoted paths\<close>

definition needs_quoting :: "string \<Rightarrow> bool" where
  "needs_quoting path \<longleftrightarrow> list_ex (\<lambda>b. b = CHR 0x22 \<or> b = CHR 0x5C \<or> byte b < 32 \<or> byte b = 127 \<or> 128 \<le> byte b) path"

text \<open>\<open>{b:03o}\<close>: at least three octal digits; a byte never has more.\<close>

definition octal3 :: "char \<Rightarrow> string" where
  "octal3 b = [digit_char (byte b div 64), digit_char (byte b div 8 mod 8), digit_char (byte b mod 8)]"

definition quote_byte :: "char \<Rightarrow> string" where
  "quote_byte b =
     (if b = CHR 0x22 then [CHR 0x5C, CHR 0x22]
      else if b = CHR 0x5C then [CHR 0x5C, CHR 0x5C]
      else if b = CHR 0x0A then CHR 0x5C # ''n''
      else if b = CHR 0x09 then CHR 0x5C # ''t''
      else if b = CHR 0x0D then CHR 0x5C # ''r''
      else if 32 \<le> byte b \<and> byte b \<le> 126 then [b]
      else CHR 0x5C # octal3 b)"

definition push_quoted_path :: "string \<Rightarrow> string \<Rightarrow> string \<Rightarrow> string" where
  "push_quoted_path patch prefix path =
     (if \<not> needs_quoting path then patch @ prefix @ path
      else patch @ [CHR 0x22] @ concat (map quote_byte (prefix @ path)) @ [CHR 0x22])"

definition emit_file_headers :: "string \<Rightarrow> string option \<Rightarrow> string option \<Rightarrow> string" where
  "emit_file_headers patch old_path new_path =
     (let p1 = (case old_path of Some p \<Rightarrow> push_quoted_path (patch @ ''--- '') ''a/'' p
                | None \<Rightarrow> patch @ ''--- /dev/null'') @ [newline]
      in (case new_path of Some p \<Rightarrow> push_quoted_path (p1 @ ''+++ '') ''b/'' p
          | None \<Rightarrow> p1 @ ''+++ /dev/null'') @ [newline])"

subsection \<open>Whole hunks\<close>

fun kind_marker :: "line_kind \<Rightarrow> char" where
  "kind_marker Context = CHR '' ''"
| "kind_marker Added = CHR ''+''"
| "kind_marker Removed = CHR ''-''"

definition header_text :: "u32 \<Rightarrow> u32 \<Rightarrow> u32 \<Rightarrow> u32 \<Rightarrow> string \<Rightarrow> string" where
  "header_text os ol ns nl heading =
     ''@@ -'' @ show_u32 os @ '','' @ show_u32 ol @ '' +'' @ show_u32 ns @ '','' @ show_u32 nl @ '' @@'' @
     (if heading \<noteq> [] then '' '' @ heading else []) @ [newline]"

definition line_text :: "char \<Rightarrow> string \<Rightarrow> bool \<Rightarrow> string" where
  "line_text marker text no_newline_at_eof =
     [marker] @ text @ [newline] @ (if no_newline_at_eof then no_newline_marker @ [newline] else [])"

definition append_hunk :: "string \<Rightarrow> hunk \<Rightarrow> string" where
  "append_hunk patch h =
     fold (\<lambda>l p. p @ line_text (kind_marker (dl_kind l)) (dl_text l) (dl_no_newline_at_eof l)) (h_lines h)
       (patch @ header_text (h_old_start h) (h_old_len h) (h_new_start h) (h_new_len h) (h_section_heading h))"

subsection \<open>Sub-hunks\<close>

record emitted =
  em_marker :: char
  em_text :: string
  em_no_newline_at_eof :: bool

text \<open>One line of the first pass; the state is \<open>old_len\<close>, \<open>new_len\<close> and the body.\<close>

definition emit_line ::
  "u32 set \<Rightarrow> nat \<times> diff_line \<Rightarrow> u32 \<times> u32 \<times> emitted list \<Rightarrow> u32 \<times> u32 \<times> emitted list" where
  "emit_line selected il st =
     (case il of (i, l) \<Rightarrow> case st of (old_len, new_len, body) \<Rightarrow>
        let entry = (\<lambda>m. \<lparr>em_marker = m, em_text = dl_text l,
                          em_no_newline_at_eof = dl_no_newline_at_eof l\<rparr>);
            is_selected = (of_nat i \<in> selected)
        in case dl_kind l of
             Context \<Rightarrow> (old_len + 1, new_len + 1, body @ [entry (CHR '' '')])
           | Added \<Rightarrow>
               if is_selected then (old_len, new_len + 1, body @ [entry (CHR ''+'')])
               else (old_len, new_len, body)
           | Removed \<Rightarrow>
               if is_selected then (old_len + 1, new_len, body @ [entry (CHR ''-'')])
               else (old_len + 1, new_len + 1, body @ [entry (CHR '' '')]))"

definition rposition :: "('a \<Rightarrow> bool) \<Rightarrow> 'a list \<Rightarrow> nat option" where
  "rposition P xs = map_option (\<lambda>k. length xs - 1 - k) (position P (rev xs))"

text \<open>The terminal-flag fixup of one entry.\<close>

definition fix_entry :: "nat option \<Rightarrow> nat \<times> emitted \<Rightarrow> emitted list" where
  "fix_entry last_new ie =
     (case ie of (i, e) \<Rightarrow>
        if em_marker e = CHR ''+'' \<and> em_no_newline_at_eof e \<and> last_new \<noteq> Some i
        then [e\<lparr>em_no_newline_at_eof := False\<rparr>]
        else if em_marker e = CHR '' '' \<and> em_no_newline_at_eof e \<and> last_new \<noteq> Some i
        then [e\<lparr>em_marker := CHR ''-''\<rparr>, e\<lparr>em_marker := CHR ''+'', em_no_newline_at_eof := False\<rparr>]
        else [e])"

definition fix_body :: "emitted list \<Rightarrow> emitted list" where
  "fix_body body =
     (let last_new = rposition (\<lambda>e. em_marker e \<noteq> CHR ''-'') body
      in concat (map (fix_entry last_new) (enumerate 0 body)))"

definition append_sub_hunk :: "string \<Rightarrow> hunk \<Rightarrow> u32 list \<Rightarrow> string" where
  "append_sub_hunk patch h selected_lines =
     (case fold (emit_line (set selected_lines)) (enumerate 0 (h_lines h)) (0, 0, []) of
        (old_len, new_len, body) \<Rightarrow>
          fold (\<lambda>e p. p @ line_text (em_marker e) (em_text e) (em_no_newline_at_eof e)) (fix_body body)
            (patch @ header_text (h_old_start h) old_len (h_new_start h) new_len (h_section_heading h)))"

subsection \<open>The plan against the pinned diff\<close>

definition find_hunk ::
  "string \<Rightarrow> hunk list \<Rightarrow> hunk_ref \<Rightarrow> selection_mismatch + hunk" where
  "find_hunk path hunks r =
     (if length hunks \<le> unat (hr_index r) then Inl (HunkOutOfRange path (hr_index r))
      else let h = hunks ! unat (hr_index r)
           in if h_old_start h \<noteq> hr_old_start r \<or> h_new_start h \<noteq> hr_new_start r
              then Inl (AnchorMismatch path (hr_index r))
              else Inr h)"

fun append_hunks ::
  "string \<Rightarrow> hunk list \<Rightarrow> hunk_ref list \<Rightarrow> string \<Rightarrow> selection_mismatch + string" where
  "append_hunks path hunks [] patch = Inr patch"
| "append_hunks path hunks (r # rs) patch =
     (case find_hunk path hunks r of
        Inl e \<Rightarrow> Inl e
      | Inr h \<Rightarrow> append_hunks path hunks rs (append_hunk patch h))"

fun append_file_patch ::
  "string \<Rightarrow> string \<Rightarrow> file_diff \<Rightarrow> hunk_ref list \<Rightarrow> selection_mismatch + string" where
  "append_file_patch patch path (Hunks old_path new_path hunks) selected =
     append_hunks path hunks selected (emit_file_headers patch old_path new_path)"
| "append_file_patch patch path file selected = Inl (NotHunkAddressable path)"

fun check_line_indices ::
  "string \<Rightarrow> u32 \<Rightarrow> hunk \<Rightarrow> u32 list \<Rightarrow> selection_mismatch + unit" where
  "check_line_indices path hi h [] = Inr ()"
| "check_line_indices path hi h (i # is) =
     (if length (h_lines h) \<le> unat i then Inl (LineOutOfRange path hi i)
      else if dl_kind (h_lines h ! unat i) = Context then Inl (ContextLineSelected path hi i)
      else check_line_indices path hi h is)"

fun append_sub_hunks ::
  "string \<Rightarrow> hunk list \<Rightarrow> hunk_lines list \<Rightarrow> string \<Rightarrow> selection_mismatch + string" where
  "append_sub_hunks path hunks [] patch = Inr patch"
| "append_sub_hunks path hunks (sel # sels) patch =
     (case find_hunk path hunks (hl_hunk sel) of
        Inl e \<Rightarrow> Inl e
      | Inr h \<Rightarrow>
          (case check_line_indices path (hr_index (hl_hunk sel)) h (hl_lines sel) of
             Inl e \<Rightarrow> Inl e
           | Inr u \<Rightarrow> append_sub_hunks path hunks sels (append_sub_hunk patch h (hl_lines sel))))"

fun append_file_patch_lines ::
  "string \<Rightarrow> string \<Rightarrow> file_diff \<Rightarrow> hunk_lines list \<Rightarrow> selection_mismatch + string" where
  "append_file_patch_lines patch path (Hunks old_path new_path hunks) selected =
     append_sub_hunks path hunks selected (emit_file_headers patch old_path new_path)"
| "append_file_patch_lines patch path file selected = Inl (NotHunkAddressable path)"

definition by_path :: "file_diff list \<Rightarrow> string \<rightharpoonup> file_diff" where
  "by_path files = map_of (rev (List.map_filter (\<lambda>f. map_option (\<lambda>p. (p, f)) (canonical_path f)) files))"

fun build_files ::
  "(string \<rightharpoonup> file_diff) \<Rightarrow> file_selection list \<Rightarrow> selected_patch \<Rightarrow> selection_mismatch + selected_patch" where
  "build_files ix [] sp = Inr sp"
| "build_files ix (f # fs) sp =
     (case ix (fs_path f) of
        None \<Rightarrow> Inl (UnknownPath (fs_path f))
      | Some file \<Rightarrow>
          (case fs_selection f of
             EntireFile \<Rightarrow> build_files ix fs (sp\<lparr>sp_whole_files := sp_whole_files sp @ [fs_path f]\<rparr>)
           | SelectHunks selected \<Rightarrow>
               (case append_file_patch (sp_patch sp) (fs_path f) file selected of
                  Inl e \<Rightarrow> Inl e
                | Inr patch \<Rightarrow> build_files ix fs (sp\<lparr>sp_patch := patch\<rparr>))
           | SelectLines selected \<Rightarrow>
               (case append_file_patch_lines (sp_patch sp) (fs_path f) file selected of
                  Inl e \<Rightarrow> Inl e
                | Inr patch \<Rightarrow> build_files ix fs (sp\<lparr>sp_patch := patch\<rparr>))))"

definition build_selected_patch ::
  "file_diff list \<Rightarrow> patch_plan \<Rightarrow> selection_mismatch + selected_patch" where
  "build_selected_patch pinned plan =
     build_files (by_path pinned) (pp_files plan) \<lparr>sp_patch = [], sp_whole_files = []\<rparr>"

subsection \<open>The text of a hunk, line by line\<close>

definition header_core :: "u32 \<Rightarrow> u32 \<Rightarrow> u32 \<Rightarrow> u32 \<Rightarrow> string \<Rightarrow> string" where
  "header_core os ol ns nl heading =
     ''@@ '' @ ''-'' @ (show_u32 os @ '','' @ show_u32 ol) @ '' +'' @ (show_u32 ns @ '','' @ show_u32 nl) @
     '' @@'' @ (if heading \<noteq> [] then '' '' @ heading else [])"

definition entry_lines :: "char \<Rightarrow> string \<Rightarrow> bool \<Rightarrow> string list" where
  "entry_lines m t f = (m # t) # (if f then [no_newline_marker] else [])"

definition hunk_strings :: "hunk \<Rightarrow> string list" where
  "hunk_strings h =
     header_core (h_old_start h) (h_old_len h) (h_new_start h) (h_new_len h) (h_section_heading h) #
     concat (map (\<lambda>l. entry_lines (kind_marker (dl_kind l)) (dl_text l) (dl_no_newline_at_eof l)) (h_lines h))"

lemma header_text_core: "header_text os ol ns nl heading = terminated [header_core os ol ns nl heading]"
  by (simp add: header_text_def header_core_def newline_def)

lemma line_text_entry: "line_text m t f = terminated (entry_lines m t f)"
  by (simp add: line_text_def entry_lines_def newline_def)

lemma fold_append: "fold (\<lambda>x p. p @ f x) xs p = p @ concat (map f xs)"
  by (induction xs arbitrary: p) auto

lemma concat_terminated: "concat (map (\<lambda>x. terminated (f x)) xs) = terminated (concat (map f xs))"
  by (induction xs) auto

lemma append_hunk_strings: "append_hunk patch h = patch @ terminated (hunk_strings h)"
  by (simp add: append_hunk_def fold_append header_text_core line_text_entry concat_terminated hunk_strings_def)

lemma parse_range_pair: "parse_range (show_u32 a @ '','' @ show_u32 b) = Some (a, b)"
proof -
  have "split_once '','' (show_u32 a @ '','' @ show_u32 b) = Some (show_u32 a, show_u32 b)"
    by (rule split_once_first) (simp add: show_u32_free)
  then show ?thesis by (simp add: parse_range_def)
qed

lemma parse_header_core:
  "Option.bind (strip_prefix ''@@ '' (header_core os ol ns nl heading)) parse_hunk_header =
     Some \<lparr>h_old_start = os, h_old_len = ol, h_new_start = ns, h_new_len = nl,
           h_section_heading = heading, h_lines = []\<rparr>"
proof -
  let ?old = "show_u32 os @ '','' @ show_u32 ol" and ?new = "show_u32 ns @ '','' @ show_u32 nl"
  let ?tail = "if heading \<noteq> [] then '' '' @ heading else []"
  have "strip_prefix ''@@ '' (header_core os ol ns nl heading) =
      Some (''-'' @ ?old @ '' +'' @ ?new @ '' @@'' @ ?tail)"
    unfolding header_core_def by (rule strip_prefix_append)
  moreover have "strip_prefix ''-'' (''-'' @ ?old @ '' +'' @ ?new @ '' @@'' @ ?tail) =
      Some (?old @ '' +'' @ ?new @ '' @@'' @ ?tail)"
    by (rule strip_prefix_append)
  moreover have "split_once '' +'' (?old @ '' +'' @ ?new @ '' @@'' @ ?tail) = Some (?old, ?new @ '' @@'' @ ?tail)"
    by (rule split_once_first) (simp add: show_u32_free)
  moreover have "split_once '' @@'' (?new @ '' @@'' @ ?tail) = Some (?new, ?tail)"
    by (rule split_once_first) (simp add: show_u32_free)
  moreover have "unwrap_or ?tail (strip_prefix '' '' ?tail) = heading"
    by (simp add: unwrap_or_def)
  ultimately show ?thesis
    by (simp only: parse_hunk_header_def bind.bind_lunit prod.case parse_range_pair)
qed

lemma marker_kind_inverse [simp]: "marker_kind (kind_marker k) = Some k"
  by (cases k) (simp_all add: marker_kind_def)

lemma entry_not_hunk_start: "m \<noteq> CHR ''@'' \<Longrightarrow> x \<in> set (entry_lines m t f) \<Longrightarrow> \<not> hunk_start x"
  by (auto simp: entry_lines_def starts_with_def no_newline_marker_def split: if_splits)

lemma body_entry:
  assumes "marker_kind m = Some k"
  shows "fold body_line (entry_lines m t f) h =
    h\<lparr>h_lines := h_lines h @ [\<lparr>dl_kind = k, dl_text = t, dl_no_newline_at_eof = f\<rparr>]\<rparr>"
proof -
  have "m # t \<noteq> no_newline_marker" using assms by (auto simp: no_newline_marker_def marker_kind_def)
  then show ?thesis using assms by (simp add: entry_lines_def body_line_def flag_last_def)
qed

lemma body_entries:
  "fold body_line (concat (map (\<lambda>l. entry_lines (kind_marker (dl_kind l)) (dl_text l) (dl_no_newline_at_eof l)) ls)) h =
     h\<lparr>h_lines := h_lines h @ ls\<rparr>"
  by (induction ls arbitrary: h) (simp_all add: body_entry)

lemma kind_marker_at: "kind_marker k \<noteq> CHR ''@''"
  by (cases k) auto

lemma hunk_strings_start: "hunk_start (hd (hunk_strings h))"
  by (simp add: hunk_strings_def header_core_def starts_with_def)

lemma parse_hunk_strings:
  assumes "rest = [] \<or> hunk_start (hd rest)"
  shows "parse_hunks (hunk_strings h @ rest) = h # parse_hunks rest"
proof -
  let ?body = "concat (map (\<lambda>l. entry_lines (kind_marker (dl_kind l)) (dl_text l) (dl_no_newline_at_eof l)) (h_lines h))"
  have "\<forall>x \<in> set ?body. \<not> hunk_start x" using entry_not_hunk_start[OF kind_marker_at] by auto
  then have "takeWhile (\<lambda>m. \<not> hunk_start m) (?body @ rest) = ?body"
      "dropWhile (\<lambda>m. \<not> hunk_start m) (?body @ rest) = rest"
    using assms by (cases rest; simp add: takeWhile_append dropWhile_append)+
  then show ?thesis
    by (simp add: hunk_strings_def parse_header_core body_entries)
qed

lemma parse_hunks_strings: "parse_hunks (concat (map hunk_strings hs)) = hs"
proof (induction hs)
  case (Cons h hs)
  have "concat (map hunk_strings hs) = [] \<or> hunk_start (hd (concat (map hunk_strings hs)))"
    using hunk_strings_start by (cases hs) (auto simp: hunk_strings_def)
  from parse_hunk_strings[OF this, of h] Cons show ?case by simp
qed simp

text \<open>A hunk whose texts hold no newline, which is every hunk the parser produces.\<close>

definition newline_free :: "hunk \<Rightarrow> bool" where
  "newline_free h \<longleftrightarrow> newline \<notin> set (h_section_heading h) \<and> (\<forall>l \<in> set (h_lines h). newline \<notin> set (dl_text l))"

lemma marker_no_newline [simp]: "newline \<notin> set no_newline_marker"
  by (simp add: newline_def no_newline_marker_def)

lemma header_core_line: "newline \<notin> set heading \<Longrightarrow> newline \<notin> set (header_core os ol ns nl heading)"
  by (simp add: header_core_def newline_def show_u32_free)

lemma entry_lines_line:
  "newline \<notin> set t \<Longrightarrow> m \<noteq> newline \<Longrightarrow> x \<in> set (entry_lines m t f) \<Longrightarrow> newline \<notin> set x"
  by (auto simp: entry_lines_def split: if_splits)

lemma hunk_strings_lines: "newline_free h \<Longrightarrow> x \<in> set (hunk_strings h) \<Longrightarrow> newline \<notin> set x"
proof -
  assume h: "newline_free h" and x: "x \<in> set (hunk_strings h)"
  have "kind_marker k \<noteq> newline" for k by (cases k) (simp_all add: newline_def)
  then have "newline \<notin> set y" if "l \<in> set (h_lines h)"
      "y \<in> set (entry_lines (kind_marker (dl_kind l)) (dl_text l) (dl_no_newline_at_eof l))" for l y
    using h that entry_lines_line unfolding newline_free_def by blast
  with h x show ?thesis by (auto simp: hunk_strings_def newline_free_def header_core_line)
qed

text \<open>
  Re-serialising hunks loses nothing: the text of any sequence of hunks, with their ranges,
  headings, lines and end-of-file markers, parses back to exactly those hunks.
\<close>

theorem hunk_text_roundtrip:
  assumes "\<forall>h \<in> set hs. newline_free h"
  shows "parse_hunks (split_diff_lines (fold (\<lambda>h patch. append_hunk patch h) hs [])) = hs"
proof -
  have "fold (\<lambda>h patch. append_hunk patch h) hs p = p @ terminated (concat (map hunk_strings hs))" for p
    by (induction hs arbitrary: p) (simp_all add: append_hunk_strings)
  moreover have "\<forall>l \<in> set (concat (map hunk_strings hs)). newline \<notin> set l"
    using assms hunk_strings_lines by auto
  ultimately show ?thesis by (simp add: split_terminated_lines parse_hunks_strings)
qed

subsection \<open>The two sides of a sub-hunk\<close>

text \<open>
  The side of a hunk is its sequence of lines with their end-of-file flags: the old side without
  the added lines, the new side without the removed ones. \<open>kept\<close> lists, for a selection, the lines
  the new side must consist of. \<open>sub_hunk\<close> is the hunk that the emitted text denotes.
\<close>

definition old_side :: "diff_line list \<Rightarrow> (string \<times> bool) list" where
  "old_side ls = map (\<lambda>l. (dl_text l, dl_no_newline_at_eof l)) (filter (\<lambda>l. dl_kind l \<noteq> Added) ls)"

definition new_side :: "diff_line list \<Rightarrow> (string \<times> bool) list" where
  "new_side ls = map (\<lambda>l. (dl_text l, dl_no_newline_at_eof l)) (filter (\<lambda>l. dl_kind l \<noteq> Removed) ls)"

definition kept :: "u32 set \<Rightarrow> nat \<times> diff_line \<Rightarrow> bool" where
  "kept selected il \<longleftrightarrow> (case dl_kind (snd il) of Context \<Rightarrow> True
     | Added \<Rightarrow> of_nat (fst il) \<in> selected | Removed \<Rightarrow> of_nat (fst il) \<notin> selected)"

definition emitted_line :: "emitted \<Rightarrow> diff_line" where
  "emitted_line e = \<lparr>dl_kind = the (marker_kind (em_marker e)), dl_text = em_text e,
     dl_no_newline_at_eof = em_no_newline_at_eof e\<rparr>"

definition good_marker :: "emitted \<Rightarrow> bool" where
  "good_marker e \<longleftrightarrow> em_marker e \<in> {CHR '' '', CHR ''+'', CHR ''-''}"

text \<open>The first pass as a map over the numbered lines.\<close>

definition emit_entry :: "u32 set \<Rightarrow> nat \<times> diff_line \<Rightarrow> emitted list" where
  "emit_entry selected il =
     (let entry = (\<lambda>m. \<lparr>em_marker = m, em_text = dl_text (snd il),
                        em_no_newline_at_eof = dl_no_newline_at_eof (snd il)\<rparr>);
          is_selected = (of_nat (fst il) \<in> selected)
      in case dl_kind (snd il) of
           Context \<Rightarrow> [entry (CHR '' '')]
         | Added \<Rightarrow> if is_selected then [entry (CHR ''+'')] else []
         | Removed \<Rightarrow> if is_selected then [entry (CHR ''-'')] else [entry (CHR '' '')])"

definition emit_body :: "u32 set \<Rightarrow> (nat \<times> diff_line) list \<Rightarrow> emitted list" where
  "emit_body selected ils = concat (map (emit_entry selected) ils)"

lemma emit_body_good: "e \<in> set (emit_body selected ils) \<Longrightarrow> good_marker e"
proof -
  have "good_marker e" if "e \<in> set (emit_entry selected il)" for il
    using that by (cases "dl_kind (snd il)") (auto simp: emit_entry_def good_marker_def Let_def split: if_splits)
  then show "e \<in> set (emit_body selected ils) \<Longrightarrow> good_marker e" by (auto simp: emit_body_def)
qed

lemma emit_line_step:
  "emit_line selected il (ol, nl, body) =
     (ol + of_nat (length (filter (\<lambda>e. em_marker e \<noteq> CHR ''+'') (emit_entry selected il))),
      nl + of_nat (length (filter (\<lambda>e. em_marker e \<noteq> CHR ''-'') (emit_entry selected il))),
      body @ emit_entry selected il)"
  by (cases "dl_kind (snd il)") (auto simp: emit_line_def emit_entry_def Let_def split: prod.splits)

lemma emit_lines_fold:
  "fold (emit_line selected) ils (ol, nl, body) =
     (ol + of_nat (length (filter (\<lambda>e. em_marker e \<noteq> CHR ''+'') (emit_body selected ils))),
      nl + of_nat (length (filter (\<lambda>e. em_marker e \<noteq> CHR ''-'') (emit_body selected ils))),
      body @ emit_body selected ils)"
proof (induction ils arbitrary: ol nl body)
  case (Cons il ils)
  show ?case by (simp add: emit_line_step Cons emit_body_def algebra_simps)
qed (simp add: emit_body_def)

definition entry_pair :: "emitted \<Rightarrow> string \<times> bool" where
  "entry_pair e = (em_text e, em_no_newline_at_eof e)"

definition old_entries :: "emitted list \<Rightarrow> (string \<times> bool) list" where
  "old_entries es = map entry_pair (filter (\<lambda>e. em_marker e \<noteq> CHR ''+'') es)"

definition new_entries :: "emitted list \<Rightarrow> (string \<times> bool) list" where
  "new_entries es = map entry_pair (filter (\<lambda>e. em_marker e \<noteq> CHR ''-'') es)"

lemma entries_simps [simp]:
  "old_entries [] = []" "new_entries [] = []"
  "old_entries (es @ fs) = old_entries es @ old_entries fs"
  "new_entries (es @ fs) = new_entries es @ new_entries fs"
  by (simp_all add: old_entries_def new_entries_def)

lemma old_entries_body: "old_entries (emit_body selected ils) = old_side (map snd ils)"
  by (induction ils)
    (auto simp: emit_body_def emit_entry_def old_entries_def old_side_def entry_pair_def Let_def
      split: line_kind.splits)

lemma new_entries_body:
  "new_entries (emit_body selected ils) =
     map (\<lambda>il. (dl_text (snd il), dl_no_newline_at_eof (snd il))) (filter (kept selected) ils)"
  by (induction ils)
    (auto simp: emit_body_def emit_entry_def new_entries_def kept_def entry_pair_def Let_def
      split: line_kind.splits)

subsection \<open>The fixup\<close>

lemma rposition_None: "rposition P xs = None \<longleftrightarrow> (\<forall>x \<in> set xs. \<not> P x)"
  by (simp add: rposition_def position_None)

lemma rposition_Some:
  assumes "rposition P xs = Some i"
  shows "\<exists>pre x post. xs = pre @ x # post \<and> i = length pre \<and> P x \<and> (\<forall>y \<in> set post. \<not> P y)"
proof -
  from assms obtain k where k: "position P (rev xs) = Some k" "i = length xs - 1 - k"
    by (auto simp: rposition_def)
  note p = position_Some[OF k(1)]
  let ?pre = "rev (drop (Suc k) (rev xs))" and ?post = "rev (take k (rev xs))" and ?x = "rev xs ! k"
  have "rev xs = take k (rev xs) @ ?x # drop (Suc k) (rev xs)" using p id_take_nth_drop by blast
  then have "xs = ?pre @ ?x # ?post" by (metis append.assoc append_Cons append_Nil rev.simps(2) rev_append rev_rev_ident)
  moreover have "i = length ?pre" using p k(2) by simp
  moreover have "\<forall>y \<in> set ?post. \<not> P y" using p by (auto simp: in_set_conv_nth)
  ultimately show ?thesis using p by blast
qed

lemma fix_entry_old: "old_entries (fix_entry ln (i, e)) = old_entries [e]"
  by (auto simp: fix_entry_def old_entries_def entry_pair_def)

lemma fix_entry_new:
  "map fst (new_entries (fix_entry ln (i, e))) = map fst (new_entries [e])"
  "ln \<noteq> Some i \<Longrightarrow> good_marker e \<Longrightarrow> \<forall>x \<in> set (new_entries (fix_entry ln (i, e))). \<not> snd x"
  by (auto simp: fix_entry_def new_entries_def entry_pair_def good_marker_def)

lemma fix_entry_good: "good_marker e \<Longrightarrow> f \<in> set (fix_entry ln (i, e)) \<Longrightarrow> good_marker f"
  by (auto simp: fix_entry_def good_marker_def split: if_splits)

definition fix_from :: "nat option \<Rightarrow> nat \<Rightarrow> emitted list \<Rightarrow> emitted list" where
  "fix_from ln k es = concat (map (fix_entry ln) (enumerate k es))"

lemma fix_from_simps [simp]:
  "fix_from ln k [] = []" "fix_from ln k (e # es) = fix_entry ln (k, e) @ fix_from ln (Suc k) es"
  by (simp_all add: fix_from_def)

lemma fix_from_append: "fix_from ln k (es @ fs) = fix_from ln k es @ fix_from ln (k + length es) fs"
  by (simp add: fix_from_def enumerate_append_eq)

lemma fix_from_old: "old_entries (fix_from ln k es) = old_entries es"
proof (induction es arbitrary: k)
  case (Cons e es)
  have "old_entries (e # es) = old_entries [e] @ old_entries es" by (simp flip: entries_simps)
  with Cons fix_entry_old[of ln k e] show ?case by simp
qed simp

lemma fix_from_new: "map fst (new_entries (fix_from ln k es)) = map fst (new_entries es)"
proof (induction es arbitrary: k)
  case (Cons e es)
  have "new_entries (e # es) = new_entries [e] @ new_entries es" by (simp flip: entries_simps)
  with Cons fix_entry_new(1)[of ln k e] show ?case by simp
qed simp

lemma fix_from_flags:
  "\<forall>e \<in> set es. good_marker e \<Longrightarrow> \<forall>i. k \<le> i \<and> i < k + length es \<longrightarrow> ln \<noteq> Some i \<Longrightarrow>
     \<forall>x \<in> set (new_entries (fix_from ln k es)). \<not> snd x"
proof (induction es arbitrary: k)
  case (Cons e es)
  have "ln \<noteq> Some k" using Cons.prems(2) by simp
  with fix_entry_new(2)[of ln k e] Cons.prems(1)
  have "\<forall>x \<in> set (new_entries (fix_entry ln (k, e))). \<not> snd x" by simp
  moreover have "\<forall>x \<in> set (new_entries (fix_from ln (Suc k) es)). \<not> snd x"
    using Cons.prems by (intro Cons.IH) auto
  ultimately show ?case by auto
qed simp

lemma fix_body_flags:
  assumes "\<forall>e \<in> set body. good_marker e"
  shows "\<forall>x \<in> set (butlast (new_entries (fix_body body))). \<not> snd x"
proof (cases "rposition (\<lambda>e. em_marker e \<noteq> CHR ''-'') body")
  case None
  have "\<forall>x \<in> set (new_entries (fix_from None 0 body)). \<not> snd x"
    using assms by (intro fix_from_flags) auto
  then show ?thesis using None by (auto simp: fix_body_def fix_from_def dest: in_set_butlastD)
next
  case (Some i)
  from rposition_Some[OF Some] obtain pre x post where
    b: "body = pre @ x # post" "i = length pre" "em_marker x \<noteq> CHR ''-''"
       "\<forall>y \<in> set post. em_marker y = CHR ''-''" by auto
  have split: "fix_body body = fix_from (Some i) 0 pre @ fix_entry (Some i) (i, x) @ fix_from (Some i) (Suc i) post"
    using Some b(2) by (simp add: fix_body_def Let_def b(1) fix_from_append flip: fix_from_def)
  have pre: "\<forall>y \<in> set (new_entries (fix_from (Some i) 0 pre)). \<not> snd y"
    using assms b by (intro fix_from_flags) auto
  have "new_entries post = []" using b(4) by (auto simp: new_entries_def filter_empty_conv)
  then have post: "new_entries (fix_from (Some i) (Suc i) post) = []"
    using fix_from_new[of "Some i" "Suc i" post] by simp
  have "new_entries (fix_entry (Some i) (i, x)) = [entry_pair x]"
    using b(3) by (simp add: fix_entry_def new_entries_def)
  with pre post split show ?thesis by simp
qed

lemma fix_body_from: "fix_body body = fix_from (rposition (\<lambda>e. em_marker e \<noteq> CHR ''-'') body) 0 body"
  by (simp add: fix_body_def fix_from_def)

lemma fix_body_good: "\<forall>e \<in> set body. good_marker e \<Longrightarrow> e \<in> set (fix_body body) \<Longrightarrow> good_marker e"
  by (auto simp: fix_body_def in_set_enumerate_eq dest: fix_entry_good[rotated])

text \<open>The hunk that the emitted sub-hunk denotes.\<close>

definition sub_hunk :: "hunk \<Rightarrow> u32 list \<Rightarrow> hunk" where
  "sub_hunk h selected_lines =
     (let es = fix_body (emit_body (set selected_lines) (enumerate 0 (h_lines h)))
      in h\<lparr>h_old_len := of_nat (length (old_entries es)), h_new_len := of_nat (length (new_entries es)),
           h_lines := map emitted_line es\<rparr>)"

lemma good_marker_kind: "good_marker e \<Longrightarrow> kind_marker (dl_kind (emitted_line e)) = em_marker e"
  by (auto simp: good_marker_def emitted_line_def marker_kind_def)

lemma good_marker_sides:
  "good_marker e \<Longrightarrow> dl_kind (emitted_line e) = Added \<longleftrightarrow> em_marker e = CHR ''+''"
  "good_marker e \<Longrightarrow> dl_kind (emitted_line e) = Removed \<longleftrightarrow> em_marker e = CHR ''-''"
  by (auto simp: good_marker_def emitted_line_def marker_kind_def)

lemma sides_of_entries:
  assumes "\<forall>e \<in> set es. good_marker e"
  shows "old_side (map emitted_line es) = old_entries es" "new_side (map emitted_line es) = new_entries es"
  using assms
  by (induction es)
    (simp_all add: old_side_def new_side_def old_entries_def new_entries_def entry_pair_def
      good_marker_sides, simp_all add: emitted_line_def)

lemma append_sub_hunk_text: "append_sub_hunk patch h sel = append_hunk patch (sub_hunk h sel)"
proof -
  let ?body = "emit_body (set sel) (enumerate 0 (h_lines h))"
  have good: "\<forall>e \<in> set (fix_body ?body). good_marker e"
    using fix_body_good emit_body_good by blast
  have lens: "length (filter (\<lambda>e. em_marker e \<noteq> CHR ''+'') ?body) = length (old_entries (fix_body ?body))"
      "length (filter (\<lambda>e. em_marker e \<noteq> CHR ''-'') ?body) = length (new_entries (fix_body ?body))"
    using fix_from_old fix_from_new[THEN arg_cong[of _ _ length]]
    unfolding fix_body_from by (simp_all add: old_entries_def new_entries_def)
  have "concat (map (\<lambda>e. line_text (em_marker e) (em_text e) (em_no_newline_at_eof e)) (fix_body ?body)) =
      concat (map (\<lambda>l. line_text (kind_marker (dl_kind l)) (dl_text l) (dl_no_newline_at_eof l))
        (map emitted_line (fix_body ?body)))"
    unfolding map_map
    by (intro arg_cong[of _ _ concat] map_cong)
      (use good in \<open>auto simp: good_marker_kind\<close>, simp_all add: emitted_line_def)
  then show ?thesis
    unfolding append_sub_hunk_def append_hunk_def sub_hunk_def emit_lines_fold
    by (simp add: fold_append Let_def lens)
qed

lemma emitted_texts:
  "e \<in> set (fix_body (emit_body selected ils)) \<Longrightarrow> \<exists>il \<in> set ils. em_text e = dl_text (snd il)"
proof -
  have "em_text e \<in> em_text ` set es" if "e \<in> set (fix_from ln k es)" for ln k es
    using that by (induction es arbitrary: k) (auto simp: fix_entry_def split: if_splits)
  moreover have "\<exists>il \<in> set ils. em_text f = dl_text (snd il)" if "f \<in> set (emit_body selected ils)" for f
  proof -
    have "em_text f = dl_text (snd il)" if "f \<in> set (emit_entry selected il)" for il
      using that by (cases "dl_kind (snd il)") (auto simp: emit_entry_def Let_def split: if_splits)
    with that show ?thesis by (auto simp: emit_body_def)
  qed
  ultimately show "e \<in> set (fix_body (emit_body selected ils)) \<Longrightarrow> ?thesis"
    unfolding fix_body_from by force
qed

lemma sub_hunk_newline_free: "newline_free h \<Longrightarrow> newline_free (sub_hunk h sel)"
proof -
  assume h: "newline_free h"
  have "newline \<notin> set (em_text e)"
    if e: "e \<in> set (fix_body (emit_body (set sel) (enumerate 0 (h_lines h))))" for e
  proof -
    from emitted_texts[OF e] obtain il where il: "il \<in> set (enumerate 0 (h_lines h))" "em_text e = dl_text (snd il)"
      by blast
    from il(1) have "fst il < length (h_lines h) \<and> h_lines h ! fst il = snd il"
      by (auto simp: in_set_enumerate_eq)
    then have "snd il \<in> set (h_lines h)" by (metis nth_mem)
    with il(2) h show ?thesis by (simp add: newline_free_def)
  qed
  with h show ?thesis by (simp add: sub_hunk_def newline_free_def Let_def emitted_line_def)
qed

text \<open>
  C27: a line-level selection builds a hunk that applies: its text parses back to one hunk at the
  original anchors whose old side is the original old side, flags included; whose new side is
  exactly the context lines, the selected added lines and the unselected removed lines, in order;
  whose two counts are the lengths of the two sides; and in which only the last line of the new
  side can claim to end the file without a newline.
\<close>

theorem sub_hunk_sides:
  assumes "newline_free h"
  shows "\<exists>s. parse_hunks (split_diff_lines (append_sub_hunk [] h sel)) = [s] \<and>
    h_old_start s = h_old_start h \<and> h_new_start s = h_new_start h \<and>
    h_section_heading s = h_section_heading h \<and>
    old_side (h_lines s) = old_side (h_lines h) \<and>
    map fst (new_side (h_lines s)) =
      map (\<lambda>il. dl_text (snd il)) (filter (kept (set sel)) (enumerate 0 (h_lines h))) \<and>
    h_old_len s = of_nat (length (old_side (h_lines s))) \<and>
    h_new_len s = of_nat (length (new_side (h_lines s))) \<and>
    (\<forall>x \<in> set (butlast (new_side (h_lines s))). \<not> snd x)"
proof -
  let ?body = "emit_body (set sel) (enumerate 0 (h_lines h))"
  let ?s = "sub_hunk h sel"
  have good: "\<forall>e \<in> set ?body. good_marker e" using emit_body_good by blast
  then have good': "\<forall>e \<in> set (fix_body ?body). good_marker e" using fix_body_good by blast
  have sides: "old_side (h_lines ?s) = old_entries (fix_body ?body)"
      "new_side (h_lines ?s) = new_entries (fix_body ?body)"
    using sides_of_entries[OF good'] by (simp_all add: sub_hunk_def Let_def)
  have "\<forall>l \<in> set (hunk_strings ?s). newline \<notin> set l"
    using hunk_strings_lines[OF sub_hunk_newline_free[OF assms]] by blast
  then have "parse_hunks (split_diff_lines (append_sub_hunk [] h sel)) = [?s]"
    using parse_hunks_strings[of "[?s]"]
    by (simp add: append_sub_hunk_text append_hunk_strings split_terminated_lines)
  moreover have "old_entries (fix_body ?body) = old_side (h_lines h)"
    by (simp add: fix_body_from fix_from_old old_entries_body)
  moreover have "map fst (new_entries (fix_body ?body)) =
      map (\<lambda>il. dl_text (snd il)) (filter (kept (set sel)) (enumerate 0 (h_lines h)))"
    by (simp add: fix_body_from fix_from_new new_entries_body comp_def)
  moreover note fix_body_flags[OF good]
  moreover have "h_old_len ?s = of_nat (length (old_side (h_lines ?s)))"
      "h_new_len ?s = of_nat (length (new_side (h_lines ?s)))"
    unfolding sides by (simp_all add: sub_hunk_def Let_def)
  moreover have "h_old_start ?s = h_old_start h" "h_new_start ?s = h_new_start h"
      "h_section_heading ?s = h_section_heading h"
    by (simp_all add: sub_hunk_def Let_def)
  ultimately show ?thesis unfolding sides[symmetric] by blast
qed

subsection \<open>Quoting\<close>

lemma octal_digit_char: "d < 8 \<Longrightarrow> octal_digit (digit_char d) = Some d"
  by (simp add: octal_digit_def digit_char_def byte_def)

lemma octal_compose: "(q::nat) = p * 8 + r \<Longrightarrow> q * 8 + s = b \<Longrightarrow> (p * 8 + r) * 8 + s = b"
  by simp

lemma byte_octal: "(byte b div 64 * 8 + byte b div 8 mod 8) * 8 + byte b mod 8 = byte b"
proof (rule octal_compose[of "byte b div 8"])
  show "byte b div 8 = byte b div 64 * 8 + byte b div 8 mod 8"
    using div_mult_mod_eq[of "byte b div 8" 8] by (simp add: div_mult2_eq[symmetric])
  show "byte b div 8 * 8 + byte b mod 8 = byte b" by (rule div_mult_mod_eq)
qed

lemma octal_run_two:
  assumes "octal_digit c = Some x" "octal_digit d = Some y"
  shows "octal_run 2 v (c # d # s) = ((v * 8 + x) * 8 + y, s)"
  using assms by (simp add: numeral_2_eq_2)

lemma byte_bound: "byte b < 256"
  by (simp add: byte_def)

lemma char_of_byte: "char_of (byte b) = b"
  by (simp add: byte_def)

lemma octal_first: "octal_digit (digit_char (byte b div 64)) = Some (byte b div 64)"
  using byte_bound[of b] by (intro octal_digit_char) linarith

lemma digit_char_not:
  "d < 8 \<Longrightarrow> digit_char d \<noteq> CHR ''n'' \<and> digit_char d \<noteq> CHR ''t'' \<and> digit_char d \<noteq> CHR ''r'' \<and>
     digit_char d \<noteq> CHR 0x22 \<and> digit_char d \<noteq> CHR 0x5C"
  using octal_digit_char[of d] by (auto simp: octal_digit_def byte_def)

lemma unescape_quote_byte: "unescape (quote_byte b @ s) = b # unescape s"
proof (cases "b \<in> {CHR 0x22, CHR 0x5C, CHR 0x0A, CHR 0x09, CHR 0x0D} \<or> (32 \<le> byte b \<and> byte b \<le> 126)")
  case True
  then show ?thesis by (auto simp: quote_byte_def)
next
  case False
  then have q: "quote_byte b @ s = CHR 0x5C # digit_char (byte b div 64) #
      digit_char (byte b div 8 mod 8) # digit_char (byte b mod 8) # s"
    by (simp add: quote_byte_def octal3_def)
  have run: "octal_run 2 (byte b div 64) (digit_char (byte b div 8 mod 8) # digit_char (byte b mod 8) # s) =
      (byte b, s)"
    by (subst octal_run_two[OF octal_digit_char octal_digit_char]) (simp_all only: byte_octal mod_less_divisor zero_less_numeral)
  have "byte b div 64 < 8" using byte_bound[of b] by linarith
  from digit_char_not[OF this] show ?thesis
    unfolding q by (simp add: octal_first run char_of_byte)
qed

lemma unescape_quoted: "unescape (concat (map quote_byte s)) = s"
  by (induction s) (simp_all add: unescape_quote_byte)

lemma path_of_unquoted:
  assumes "pre \<in> {''a/'', ''b/''}" "strip_suffix [CHR 0x09] raw = None" "raw \<noteq> ''/dev/null''"
    and "unquote_c_style raw = pre @ path"
  shows "path_or_dev_null raw = Some path"
proof -
  have "strip_ab_prefix (pre @ path) = path"
    using assms(1) by (auto simp: strip_ab_prefix_def or_else_def unwrap_or_def)
  then show ?thesis by (simp add: path_or_dev_null_def unwrap_or_def assms(2-4))
qed

lemma quoted_path_unquote:
  assumes "pre \<in> {''a/'', ''b/''}" "valid_utf8 (pre @ path)"
  shows "path_or_dev_null (push_quoted_path [] pre path) = Some path"
proof (cases "needs_quoting path")
  case True
  let ?q = "concat (map quote_byte (pre @ path))"
  have shape: "push_quoted_path [] pre path = [CHR 0x22] @ (?q @ [CHR 0x22])"
    using True by (simp add: push_quoted_path_def)
  have n: "strip_suffix [CHR 0x09] ([CHR 0x22] @ (?q @ [CHR 0x22])) = None"
    by (rule strip_suffix_last) simp_all
  have u: "unquote_c_style ([CHR 0x22] @ (?q @ [CHR 0x22])) = pre @ path"
    using assms(2) unfolding unquote_c_style_def strip_prefix_append bind.bind_lunit strip_suffix_append
    by (simp add: unescape_quoted utf8_lossy_valid del: map_append concat_append)
  show ?thesis unfolding shape by (rule path_of_unquoted[OF assms(1) n _ u]) simp
next
  case False
  then have "\<forall>b \<in> set path. b \<noteq> CHR 0x22 \<and> \<not> byte b < 32"
    unfolding needs_quoting_def list_ex_iff by blast
  moreover have "byte (CHR 0x09) < 32" by (simp add: byte_def)
  ultimately have plain: "\<forall>b \<in> set path. b \<noteq> CHR 0x09" by blast
  have shape: "push_quoted_path [] pre path = pre @ path"
    using False by (simp add: push_quoted_path_def)
  have "last (pre @ path) \<noteq> CHR 0x09"
    using plain assms(1) by (cases path rule: rev_cases) auto
  then have n: "strip_suffix [CHR 0x09] (pre @ path) = None"
    using assms(1) by (intro strip_suffix_last) auto
  have u: "unquote_c_style (pre @ path) = pre @ path"
    using assms(1) by (auto simp: unquote_c_style_def)
  have d: "pre @ path \<noteq> ''/dev/null''" using assms(1) by auto
  show ?thesis unfolding shape by (rule path_of_unquoted[OF assms(1) n d u])
qed

lemma digit_char_line: "d < 10 \<Longrightarrow> newline \<noteq> digit_char d"
proof
  assume "d < 10" "newline = digit_char d"
  then have "48 \<le> (of_char newline :: nat)" using digit_char_range[of d] by simp
  then show False by (simp add: newline_def)
qed

lemma quote_byte_line: "newline \<notin> set (quote_byte b)"
proof -
  have "byte b div 64 < 10" using byte_bound[of b] by linarith
  then have "newline \<notin> set (octal3 b)"
    using digit_char_line[of "byte b div 64"] digit_char_line[of "byte b div 8 mod 8"]
      digit_char_line[of "byte b mod 8"]
    by (simp add: octal3_def)
  then show ?thesis by (auto simp: quote_byte_def newline_def byte_def)
qed

lemma quoted_path_line:
  assumes "newline \<notin> set pre" shows "newline \<notin> set (push_quoted_path [] pre path)"
proof (cases "needs_quoting path")
  case True
  then show ?thesis using quote_byte_line by (auto simp: push_quoted_path_def) (simp add: newline_def)
next
  case False
  then have "\<forall>b \<in> set path. \<not> byte b < 32" unfolding needs_quoting_def list_ex_iff by blast
  moreover have "byte newline < 32" by (simp add: byte_def newline_def)
  ultimately show ?thesis using False assms by (auto simp: push_quoted_path_def)
qed

definition header_side :: "string \<Rightarrow> string option \<Rightarrow> string" where
  "header_side pre path = (case path of Some p \<Rightarrow> push_quoted_path [] pre p | None \<Rightarrow> ''/dev/null'')"

lemma emit_file_headers_lines:
  "emit_file_headers patch old_path new_path =
     patch @ terminated [''--- '' @ header_side ''a/'' old_path, ''+++ '' @ header_side ''b/'' new_path]"
  by (simp add: emit_file_headers_def header_side_def Let_def newline_def push_quoted_path_def
      split: option.splits)

lemma header_side_line: "newline \<notin> set pre \<Longrightarrow> newline \<notin> set (header_side pre path)"
  using quoted_path_line[of pre] by (cases path) (simp_all add: header_side_def newline_def)

lemma valid_utf8_side: "valid_utf8 (''a/'' @ s) = valid_utf8 s" "valid_utf8 (''b/'' @ s) = valid_utf8 s"
  by (simp_all add: sequence_def byte_def)

lemma header_side_reads:
  assumes "pre \<in> {''a/'', ''b/''}" "\<forall>p. path = Some p \<longrightarrow> valid_utf8 (pre @ p)"
  shows "path_or_dev_null (header_side pre path) = path"
proof (cases path)
  case None
  have "strip_suffix [CHR 0x09] ''/dev/null'' = None" by (rule strip_suffix_last) simp_all
  with None show ?thesis by (simp add: header_side_def path_or_dev_null_def unwrap_or_def)
next
  case (Some p)
  with assms quoted_path_unquote[of pre p] show ?thesis by (simp add: header_side_def)
qed

text \<open>
  File headers keep their names: whatever bytes a path holds (quotes, backslashes, control
  bytes, spaces, non-ASCII), the two header lines the builder writes are two lines that the parser
  reads back as the same two paths, a missing side included.
\<close>

theorem file_header_roundtrip:
  assumes "\<forall>p. old_path = Some p \<longrightarrow> valid_utf8 p" and "\<forall>p. new_path = Some p \<longrightarrow> valid_utf8 p"
  shows "\<exists>old new. split_diff_lines (emit_file_headers [] old_path new_path) = [''--- '' @ old, ''+++ '' @ new] \<and>
    path_or_dev_null old = old_path \<and> path_or_dev_null new = new_path"
proof -
  have "\<forall>l \<in> set [''--- '' @ header_side ''a/'' old_path, ''+++ '' @ header_side ''b/'' new_path]. newline \<notin> set l"
    using header_side_line[of "''a/''" old_path] header_side_line[of "''b/''" new_path]
    by (simp add: newline_def)
  from split_terminated_lines[OF this] have
    "split_diff_lines (emit_file_headers [] old_path new_path) =
      [''--- '' @ header_side ''a/'' old_path, ''+++ '' @ header_side ''b/'' new_path]"
    by (simp only: emit_file_headers_lines append_Nil)
  moreover have "path_or_dev_null (header_side ''a/'' old_path) = old_path"
    using assms(1) valid_utf8_side(1) by (intro header_side_reads) simp_all
  moreover have "path_or_dev_null (header_side ''b/'' new_path) = new_path"
    using assms(2) valid_utf8_side(2) by (intro header_side_reads) simp_all
  ultimately show ?thesis by blast
qed

subsection \<open>Everything the parser returns is newline-free\<close>

definition free_lines :: "string list \<Rightarrow> bool" where
  "free_lines ls \<longleftrightarrow> (\<forall>l \<in> set ls. newline \<notin> set l)"

lemma split_on_free: "p \<in> set (split_on c s) \<Longrightarrow> c \<notin> set p"
proof (induction s arbitrary: p)
  case (Cons x s)
  then show ?case using split_on_nonempty[of c s] by (auto split: if_splits list.splits)
qed simp

lemma split_diff_lines_free: "free_lines (split_diff_lines text)"
  using split_on_free by (auto simp: free_lines_def split_diff_lines_def split: if_splits)

lemma split_once_parts: "split_once pat s = Some (a, b) \<Longrightarrow> set a \<union> set b \<subseteq> set s"
proof (induction s arbitrary: a b)
  case (Cons c s)
  show ?case
  proof (cases "strip_prefix pat (c # s)")
    case None
    with Cons.prems obtain a' where "split_once pat s = Some (a', b)" "a = c # a'" by auto
    with Cons.IH show ?thesis by fastforce
  next
    case (Some rest)
    then have "c # s = pat @ rest" by (simp add: strip_prefix_Some)
    then have "set (c # s) = set pat \<union> set rest" by (metis set_append)
    with Some Cons.prems show ?thesis by auto
  qed
qed (auto split: if_splits)

lemma strip_prefix_part: "strip_prefix pat s = Some r \<Longrightarrow> set r \<subseteq> set s"
  by (auto simp: strip_prefix_Some)

lemma parse_hunk_header_free:
  assumes "parse_hunk_header s = Some h" "newline \<notin> set s" shows "newline_free h"
proof -
  from assms(1) obtain r1 o_rg r2 n_rg r3 where
    r: "strip_prefix ''-'' s = Some r1" "split_once '' +'' r1 = Some (o_rg, r2)"
       "split_once '' @@'' r2 = Some (n_rg, r3)" "h_lines h = []"
       "h_section_heading h = unwrap_or r3 (strip_prefix '' '' r3)"
    by (auto simp: parse_hunk_header_def bind_eq_Some_conv)
  have "set r3 \<subseteq> set s"
    using strip_prefix_part[OF r(1)] split_once_parts[OF r(2)] split_once_parts[OF r(3)] by blast
  moreover have "set (h_section_heading h) \<subseteq> set r3"
    unfolding r(5) using strip_prefix_part[of "'' ''" r3]
    by (cases "strip_prefix '' '' r3") (auto simp: unwrap_or_def)
  ultimately show ?thesis using assms(2) r(4) by (auto simp: newline_free_def)
qed

lemma flag_last_texts: "l \<in> set (flag_last ls) \<Longrightarrow> \<exists>m \<in> set ls. dl_text l = dl_text m"
  by (cases ls rule: rev_cases) (auto simp: flag_last_def)

lemma body_line_free: "newline \<notin> set l \<Longrightarrow> newline_free h \<Longrightarrow> newline_free (body_line l h)"
  using flag_last_texts[of _ "h_lines h"]
  by (cases l) (fastforce simp: body_line_def newline_free_def split: option.splits)+

lemma fold_body_line_free: "free_lines ls \<Longrightarrow> newline_free h \<Longrightarrow> newline_free (fold body_line ls h)"
  by (induction ls arbitrary: h) (simp_all add: free_lines_def body_line_free)

lemma free_lines_parts:
  "free_lines (l # ls) \<Longrightarrow> newline \<notin> set l \<and> free_lines ls"
  "free_lines ls \<Longrightarrow> free_lines (takeWhile P ls)"
  "free_lines ls \<Longrightarrow> free_lines (dropWhile P ls)"
  by (auto simp: free_lines_def dest: set_takeWhileD set_dropWhileD)

lemma parse_hunks_free: "free_lines ls \<Longrightarrow> h \<in> set (parse_hunks ls) \<Longrightarrow> newline_free h"
proof (induction ls arbitrary: h rule: parse_hunks.induct)
  case (2 l ls)
  note p = free_lines_parts(1)[OF "2.prems"(1)]
  show ?case
  proof (cases "Option.bind (strip_prefix ''@@ '' l) parse_hunk_header")
    case None
    with 2 p show ?thesis by simp
  next
    case (Some g)
    then obtain r where "strip_prefix ''@@ '' l = Some r" "parse_hunk_header r = Some g"
      by (auto simp: bind_eq_Some_conv)
    with p have "newline_free g" using parse_hunk_header_free strip_prefix_part by blast
    then have "newline_free (fold body_line (takeWhile (\<lambda>m. \<not> hunk_start m) ls) g)"
      using p free_lines_parts(2) by (intro fold_body_line_free) auto
    moreover have "free_lines (dropWhile (\<lambda>m. \<not> hunk_start m) ls)" using p free_lines_parts(3) by auto
    ultimately show ?thesis using 2 Some by auto
  qed
qed simp

lemma scan_header_free: "free_lines ls \<Longrightarrow> free_lines (snd (scan_header ls sc))"
  by (induction ls sc rule: scan_header.induct) (auto simp: free_lines_def Let_def)

lemma parse_file_section_free:
  assumes "free_lines ls" "parse_file_section ls = Some (Hunks o_path n_path hs)" "h \<in> set hs"
  shows "newline_free h"
proof -
  have "free_lines (tl ls)" using assms(1) by (cases ls) (auto simp: free_lines_def)
  obtain sc rest where s: "scan_header (tl ls) empty_section = (sc, rest)" by fastforce
  with scan_header_free[OF \<open>free_lines (tl ls)\<close>, of empty_section] have "free_lines rest" by simp
  moreover have "hs = [] \<or> hs = parse_hunks rest"
    using assms(2) headerless_no_hunks[of "hd ls" sc o_path n_path hs]
    by (cases "sc_binary sc") (auto simp: parse_file_section_def s split: if_splits)
  ultimately show ?thesis using assms(3) parse_hunks_free by auto
qed

lemma parse_lines_free:
  "free_lines ls \<Longrightarrow> Hunks o_path n_path hs \<in> set (parse_lines ls) \<Longrightarrow> h \<in> set hs \<Longrightarrow> newline_free h"
proof (induction ls rule: parse_lines.induct)
  case (2 l ls)
  note p = free_lines_parts(1)[OF "2.prems"(1)]
  let ?block = "takeWhile (\<lambda>m. \<not> section_start m) ls" and ?later = "dropWhile (\<lambda>m. \<not> section_start m) ls"
  have later: "free_lines ?later" using p by (blast intro: free_lines_parts(3))
  have "free_lines ?block" using p by (blast intro: free_lines_parts(2))
  with p have block: "free_lines (l # ?block)" by (simp add: free_lines_def)
  show ?case
  proof (cases "combined_path l")
    case (Some path)
    with "2.prems"(2) have "Hunks o_path n_path hs \<in> set (parse_lines ?later)" by (simp add: Let_def)
    with "2.IH"(4)[OF refl refl Some] later "2.prems"(3) show ?thesis by blast
  next
    case None
    show ?thesis
    proof (cases "starts_with ''diff --git '' l")
      case False
      with "2.prems"(2) None have "Hunks o_path n_path hs \<in> set (parse_lines ls)" by (simp add: Let_def)
      with "2.IH"(3)[OF refl refl None False] p "2.prems"(3) show ?thesis by blast
    next
      case True
      show ?thesis
      proof (cases "parse_file_section (l # ?block)")
        case No: None
        with "2.prems"(2) None True have "Hunks o_path n_path hs \<in> set (parse_lines ?later)" by (simp add: Let_def)
        with "2.IH"(1)[OF refl refl None True No] later "2.prems"(3) show ?thesis by blast
      next
        case (Some parsed)
        with "2.prems"(2) None True have "parsed = Hunks o_path n_path hs \<or>
            Hunks o_path n_path hs \<in> set (parse_lines ?later)" by (auto simp: Let_def)
        then show ?thesis
          using "2.IH"(2)[OF refl refl None True Some] later "2.prems"(3)
            parse_file_section_free[OF block] Some by blast
      qed
    qed
  qed
qed simp

lemma parse_unified_diff_free:
  "Hunks o_path n_path hs \<in> set (parse_unified_diff text) \<Longrightarrow> h \<in> set hs \<Longrightarrow> newline_free h"
  unfolding parse_unified_diff_def using parse_lines_free[OF split_diff_lines_free] .

subsection \<open>The built selection\<close>

text \<open>
  What a selection must resolve to: \<open>chosen\<close> are the hunks its text has to carry, and \<open>part\<close> is
  that text.
\<close>

fun file_hunks :: "file_diff \<Rightarrow> hunk list" where
  "file_hunks (Hunks old_path new_path hunks) = hunks"
| "file_hunks _ = []"

fun file_headers :: "file_diff \<Rightarrow> string" where
  "file_headers (Hunks old_path new_path hunks) = emit_file_headers [] old_path new_path"
| "file_headers _ = []"

fun chosen :: "file_diff \<Rightarrow> selection_shape \<Rightarrow> hunk list" where
  "chosen f EntireFile = []"
| "chosen f (SelectHunks refs) = map (\<lambda>r. file_hunks f ! unat (hr_index r)) refs"
| "chosen f (SelectLines sels) =
     map (\<lambda>s. sub_hunk (file_hunks f ! unat (hr_index (hl_hunk s))) (hl_lines s)) sels"

definition part :: "file_diff \<Rightarrow> selection_shape \<Rightarrow> string" where
  "part f shape = file_headers f @ terminated (concat (map hunk_strings (chosen f shape)))"

definition anchored :: "hunk list \<Rightarrow> hunk_ref \<Rightarrow> bool" where
  "anchored hunks r \<longleftrightarrow> unat (hr_index r) < length hunks \<and>
     h_old_start (hunks ! unat (hr_index r)) = hr_old_start r \<and>
     h_new_start (hunks ! unat (hr_index r)) = hr_new_start r"

definition lines_selectable :: "hunk \<Rightarrow> u32 list \<Rightarrow> bool" where
  "lines_selectable h is \<longleftrightarrow>
     (\<forall>i \<in> set is. unat i < length (h_lines h) \<and> dl_kind (h_lines h ! unat i) \<noteq> Context)"

fun resolves :: "file_diff \<Rightarrow> selection_shape \<Rightarrow> bool" where
  "resolves f EntireFile \<longleftrightarrow> True"
| "resolves f (SelectHunks refs) \<longleftrightarrow> (\<exists>o_path n_path. f = Hunks o_path n_path (file_hunks f)) \<and>
     (\<forall>r \<in> set refs. anchored (file_hunks f) r)"
| "resolves f (SelectLines sels) \<longleftrightarrow> (\<exists>o_path n_path. f = Hunks o_path n_path (file_hunks f)) \<and>
     (\<forall>s \<in> set sels. anchored (file_hunks f) (hl_hunk s) \<and>
        lines_selectable (file_hunks f ! unat (hr_index (hl_hunk s))) (hl_lines s))"

lemma find_hunk_ok: "find_hunk path hunks r = Inr h \<longleftrightarrow> anchored hunks r \<and> h = hunks ! unat (hr_index r)"
  by (auto simp: find_hunk_def anchored_def Let_def)

lemma check_line_indices_ok: "check_line_indices path hi h is = Inr u \<longleftrightarrow> lines_selectable h is"
  by (induction "is") (auto simp: lines_selectable_def not_le)

lemma append_hunks_ok:
  "append_hunks path hunks rs patch = Inr out \<longleftrightarrow> (\<forall>r \<in> set rs. anchored hunks r) \<and>
     out = patch @ terminated (concat (map (\<lambda>r. hunk_strings (hunks ! unat (hr_index r))) rs))"
proof (induction rs arbitrary: patch)
  case (Cons r rs)
  show ?case
  proof (cases "find_hunk path hunks r")
    case (Inl e)
    then have "\<not> anchored hunks r" using find_hunk_ok[of path hunks r] by auto
    with Inl show ?thesis by simp
  next
    case (Inr h)
    then have "anchored hunks r" "h = hunks ! unat (hr_index r)" using find_hunk_ok by auto
    with Inr Cons show ?thesis by (auto simp: append_hunk_strings)
  qed
qed auto

lemma append_sub_hunks_ok:
  "append_sub_hunks path hunks sels patch = Inr out \<longleftrightarrow>
     (\<forall>s \<in> set sels. anchored hunks (hl_hunk s) \<and>
        lines_selectable (hunks ! unat (hr_index (hl_hunk s))) (hl_lines s)) \<and>
     out = patch @ terminated (concat (map (\<lambda>s. hunk_strings
       (sub_hunk (hunks ! unat (hr_index (hl_hunk s))) (hl_lines s))) sels))"
proof (induction sels arbitrary: patch)
  case (Cons s sels)
  show ?case
  proof (cases "find_hunk path hunks (hl_hunk s)")
    case (Inl e)
    then have "\<not> anchored hunks (hl_hunk s)" using find_hunk_ok[of path hunks "hl_hunk s"] by auto
    with Inl show ?thesis by simp
  next
    case (Inr h)
    then have h: "anchored hunks (hl_hunk s)" "h = hunks ! unat (hr_index (hl_hunk s))"
      using find_hunk_ok by auto
    show ?thesis
    proof (cases "check_line_indices path (hr_index (hl_hunk s)) h (hl_lines s)")
      case e: (Inl e)
      then have "\<not> lines_selectable h (hl_lines s)"
        using check_line_indices_ok[of path "hr_index (hl_hunk s)" h "hl_lines s" "()"] by simp
      with Inr e h show ?thesis by simp
    next
      case u: (Inr u)
      then have "lines_selectable h (hl_lines s)" using check_line_indices_ok by blast
      with Inr u h Cons show ?thesis by (auto simp: append_sub_hunk_text append_hunk_strings)
    qed
  qed
qed auto

lemma file_headers_append:
  "emit_file_headers patch o_path n_path = patch @ emit_file_headers [] o_path n_path"
  by (simp add: emit_file_headers_lines)

lemma append_file_patch_ok:
  "append_file_patch patch path f refs = Inr out \<longleftrightarrow>
     resolves f (SelectHunks refs) \<and> out = patch @ part f (SelectHunks refs)"
  by (cases f)
    (auto simp: append_hunks_ok part_def comp_def file_headers_append[of patch])

lemma append_file_patch_lines_ok:
  "append_file_patch_lines patch path f sels = Inr out \<longleftrightarrow>
     resolves f (SelectLines sels) \<and> out = patch @ part f (SelectLines sels)"
  by (cases f)
    (auto simp: append_sub_hunks_ok part_def comp_def file_headers_append[of patch])

fun is_entire :: "selection_shape \<Rightarrow> bool" where
  "is_entire EntireFile \<longleftrightarrow> True"
| "is_entire _ \<longleftrightarrow> False"

definition parts_of :: "(string \<rightharpoonup> file_diff) \<Rightarrow> file_selection list \<Rightarrow> string list" where
  "parts_of ix fs = map (\<lambda>f. part (the (ix (fs_path f))) (fs_selection f))
     (filter (\<lambda>f. \<not> is_entire (fs_selection f)) fs)"

lemma build_files_ok:
  "build_files ix fs sp = Inr out \<longleftrightarrow>
     (\<forall>f \<in> set fs. \<exists>d. ix (fs_path f) = Some d \<and> resolves d (fs_selection f)) \<and>
     out = sp\<lparr>sp_patch := sp_patch sp @ concat (parts_of ix fs),
       sp_whole_files := sp_whole_files sp @ map fs_path (filter (\<lambda>f. is_entire (fs_selection f)) fs)\<rparr>"
proof (induction fs arbitrary: sp)
  case Nil
  then show ?case by (auto simp: parts_of_def)
next
  case (Cons f fs)
  show ?case
  proof (cases "ix (fs_path f)")
    case None
    then show ?thesis by auto
  next
    case d: (Some d)
    show ?thesis
    proof (cases "fs_selection f")
      case EntireFile
      with d Cons show ?thesis by (auto simp: parts_of_def)
    next
      case (SelectHunks refs)
      show ?thesis
      proof (cases "append_file_patch (sp_patch sp) (fs_path f) d refs")
        case (Inl e)
        then have "\<not> resolves d (SelectHunks refs)"
          using append_file_patch_ok[of "sp_patch sp" "fs_path f" d refs] by auto
        with Inl d SelectHunks show ?thesis by (auto simp del: resolves.simps)
      next
        case (Inr patch)
        with append_file_patch_ok have "resolves d (SelectHunks refs)" "patch = sp_patch sp @ part d (SelectHunks refs)"
          by blast+
        with Inr d SelectHunks Cons show ?thesis by (auto simp: parts_of_def simp del: resolves.simps)
      qed
    next
      case (SelectLines sels)
      show ?thesis
      proof (cases "append_file_patch_lines (sp_patch sp) (fs_path f) d sels")
        case (Inl e)
        then have "\<not> resolves d (SelectLines sels)"
          using append_file_patch_lines_ok[of "sp_patch sp" "fs_path f" d sels] by auto
        with Inl d SelectLines show ?thesis by (auto simp del: resolves.simps)
      next
        case (Inr patch)
        with append_file_patch_lines_ok have "resolves d (SelectLines sels)" "patch = sp_patch sp @ part d (SelectLines sels)"
          by blast+
        with Inr d SelectLines Cons show ?thesis by (auto simp: parts_of_def simp del: resolves.simps)
      qed
    qed
  qed
qed

lemma by_path_in: "by_path files p = Some f \<Longrightarrow> f \<in> set files \<and> canonical_path f = Some p"
proof -
  assume "by_path files p = Some f"
  then have "(p, f) \<in> set (List.map_filter (\<lambda>f. map_option (\<lambda>p. (p, f)) (canonical_path f)) files)"
    unfolding by_path_def by (drule_tac map_of_SomeD) simp
  then show ?thesis by (auto simp: map_filter_def)
qed

text \<open>
  C34: a plan builds exactly when every selection resolves: its path is a file of the pinned diff
  and, for a partial selection, the file has hunks, every ordinal exists with the anchors the plan
  names, and every line index names an added or removed line. Otherwise nothing is built. What is
  built is the entire-file paths in plan order and one part of text per partial selection.
\<close>

theorem build_succeeds_iff:
  "build_selected_patch pinned plan = Inr out \<longleftrightarrow>
     (\<forall>f \<in> set (pp_files plan). \<exists>d. by_path pinned (fs_path f) = Some d \<and> resolves d (fs_selection f)) \<and>
     sp_patch out = concat (parts_of (by_path pinned) (pp_files plan)) \<and>
     sp_whole_files out = map fs_path (filter (\<lambda>f. is_entire (fs_selection f)) (pp_files plan))"
  by (cases out) (auto simp: build_selected_patch_def build_files_ok)

lemma part_lines:
  assumes "\<forall>h \<in> set (chosen d shape). newline_free h" and "d = Hunks o_path n_path hs"
  shows "part d shape = terminated ([''--- '' @ header_side ''a/'' o_path, ''+++ '' @ header_side ''b/'' n_path] @
      concat (map hunk_strings (chosen d shape)))"
    and "\<forall>l \<in> set ([''--- '' @ header_side ''a/'' o_path, ''+++ '' @ header_side ''b/'' n_path] @
      concat (map hunk_strings (chosen d shape))). newline \<notin> set l"
proof -
  let ?head = "[''--- '' @ header_side ''a/'' o_path, ''+++ '' @ header_side ''b/'' n_path]"
  show "part d shape = terminated (?head @ concat (map hunk_strings (chosen d shape)))"
    by (simp add: part_def assms(2) emit_file_headers_lines)
  have "\<forall>l \<in> set ?head. newline \<notin> set l"
    using header_side_line[of "''a/''" o_path] header_side_line[of "''b/''" n_path]
    by (simp add: newline_def)
  moreover have "\<forall>l \<in> set (concat (map hunk_strings (chosen d shape))). newline \<notin> set l"
    using assms(1) hunk_strings_lines by auto
  ultimately show "\<forall>l \<in> set (?head @ concat (map hunk_strings (chosen d shape))). newline \<notin> set l"
    unfolding set_append by blast
qed

text \<open>
  The lines of the text for one file: the two header lines, which read back as the paths of the file
  (every Rust string is valid UTF-8), and after them the chosen hunks.
\<close>

definition carries :: "file_diff list \<Rightarrow> file_selection \<Rightarrow> string list \<Rightarrow> bool" where
  "carries files f ls \<longleftrightarrow>
     (\<exists>old_path new_path hunks old new body.
        Hunks old_path new_path hunks \<in> set files \<and>
        canonical_path (Hunks old_path new_path hunks) = Some (fs_path f) \<and>
        ls = (''--- '' @ old) # (''+++ '' @ new) # body \<and>
        (pred_option valid_utf8 old_path \<longrightarrow> path_or_dev_null old = old_path) \<and>
        (pred_option valid_utf8 new_path \<longrightarrow> path_or_dev_null new = new_path) \<and>
        body = concat (map hunk_strings (chosen (Hunks old_path new_path hunks) (fs_selection f))) \<and>
        parse_hunks ls = chosen (Hunks old_path new_path hunks) (fs_selection f))"

lemma part_carries:
  assumes "\<forall>h \<in> set (chosen d (fs_selection f)). newline_free h" "d = Hunks o_path n_path hs"
    and "d \<in> set files" "canonical_path d = Some (fs_path f)"
  shows "\<exists>ls. part d (fs_selection f) = terminated ls \<and> (\<forall>l \<in> set ls. newline \<notin> set l) \<and> carries files f ls"
proof -
  let ?o = "header_side ''a/'' o_path" and ?n = "header_side ''b/'' n_path"
  let ?ls = "[''--- '' @ ?o, ''+++ '' @ ?n] @ concat (map hunk_strings (chosen d (fs_selection f)))"
  note lines = part_lines[OF assms(1,2)]
  have "parse_hunks ?ls = chosen d (fs_selection f)" using assms(1) by (simp add: parse_hunks_strings)
  moreover have "pred_option valid_utf8 o_path \<longrightarrow> path_or_dev_null ?o = o_path"
    using header_side_reads[of "''a/''" o_path] valid_utf8_side(1) by (cases o_path) simp_all
  moreover have "pred_option valid_utf8 n_path \<longrightarrow> path_or_dev_null ?n = n_path"
    using header_side_reads[of "''b/''" n_path] valid_utf8_side(2) by (cases n_path) simp_all
  ultimately have "carries files f ?ls"
    unfolding carries_def using assms(2-4) by (intro exI[of _ o_path] exI[of _ n_path] exI[of _ hs] exI[of _ ?o] exI[of _ ?n]) auto
  with lines show ?thesis by blast
qed

text \<open>
  C7: the text executes the selection and nothing else. For a diff the parser produced, what is built is
  the paths that are selected whole, in plan order, and a text whose lines are, for each partial
  selection in plan order and with nothing before, between or after them, two header lines that name the
  selected file's two sides and the lines of exactly its chosen hunks, whole or restricted to the chosen
  lines, which parse back to them.
\<close>

theorem built_parts_carry_selection:
  assumes "build_selected_patch (parse_unified_diff text) plan = Inr out"
  shows "(\<exists>parts. split_diff_lines (sp_patch out) = concat parts \<and>
      list_all2 (carries (parse_unified_diff text)) (filter (\<lambda>f. \<not> is_entire (fs_selection f)) (pp_files plan)) parts) \<and>
    sp_whole_files out = map fs_path (filter (\<lambda>f. is_entire (fs_selection f)) (pp_files plan))"
proof -
  let ?files = "parse_unified_diff text" and ?ix = "by_path (parse_unified_diff text)"
  let ?fs = "filter (\<lambda>f. \<not> is_entire (fs_selection f)) (pp_files plan)"
  have built: "\<forall>f \<in> set (pp_files plan). \<exists>d. ?ix (fs_path f) = Some d \<and> resolves d (fs_selection f)"
    "sp_patch out = concat (parts_of ?ix (pp_files plan))"
    "sp_whole_files out = map fs_path (filter (\<lambda>f. is_entire (fs_selection f)) (pp_files plan))"
    using assms by (auto simp: build_selected_patch_def build_files_ok)
  have "\<exists>ls. part (the (?ix (fs_path f))) (fs_selection f) = terminated ls \<and> (\<forall>l \<in> set ls. newline \<notin> set l) \<and>
      carries ?files f ls" if f: "f \<in> set ?fs" for f
  proof -
    obtain d where d: "?ix (fs_path f) = Some d" "resolves d (fs_selection f)" using built(1) f by auto
    note in_diff = by_path_in[OF d(1)]
    have partial: "\<not> is_entire (fs_selection f)" using f by simp
    obtain o_path n_path where h: "d = Hunks o_path n_path (file_hunks d)"
      using d(2) partial by (cases "fs_selection f") auto
    then have free: "newline_free g" if "g \<in> set (file_hunks d)" for g
      using parse_unified_diff_free[of o_path n_path "file_hunks d" "text" g] in_diff that by simp
    have "\<forall>g \<in> set (chosen d (fs_selection f)). newline_free g"
      using d(2) partial free sub_hunk_newline_free
      by (cases "fs_selection f") (auto simp: anchored_def)
    from part_carries[OF this h] in_diff d(1) show ?thesis by simp
  qed
  then obtain ls where ls: "\<And>f. f \<in> set ?fs \<Longrightarrow> part (the (?ix (fs_path f))) (fs_selection f) = terminated (ls f) \<and>
      (\<forall>l \<in> set (ls f). newline \<notin> set l) \<and> carries ?files f (ls f)" by metis
  have "parts_of ?ix (pp_files plan) = map (\<lambda>f. terminated (ls f)) ?fs"
    unfolding parts_of_def by (rule map_cong[OF refl]) (use ls in blast)
  then have "sp_patch out = terminated (concat (map ls ?fs))"
    using built(2) concat_terminated[of ls ?fs] by simp
  moreover have "\<forall>l \<in> set (concat (map ls ?fs)). newline \<notin> set l" using ls by fastforce
  ultimately have "split_diff_lines (sp_patch out) = concat (map ls ?fs)" using split_terminated_lines by simp
  moreover have "list_all2 (carries ?files) ?fs (map ls ?fs)"
    using ls by (simp add: list_all2_conv_all_nth del: set_filter)
  ultimately show ?thesis using built(3) by blast
qed

subsection \<open>Instances\<close>

definition sample_hunk :: hunk where
  "sample_hunk = \<lparr>h_old_start = 4, h_old_len = 2, h_new_start = 4, h_new_len = 2,
     h_section_heading = ''fn f'',
     h_lines =
       [\<lparr>dl_kind = Context, dl_text = ''x'', dl_no_newline_at_eof = False\<rparr>,
        \<lparr>dl_kind = Removed, dl_text = ''y'', dl_no_newline_at_eof = True\<rparr>,
        \<lparr>dl_kind = Added, dl_text = ''z'', dl_no_newline_at_eof = False\<rparr>]\<rparr>"

lemma sample_hunk_free: "newline_free sample_hunk"
  by (simp add: newline_free_def sample_hunk_def newline_def)

lemma hunk_text_roundtrip_witness:
  "parse_hunks (split_diff_lines (append_hunk [] sample_hunk)) = [sample_hunk]"
  using hunk_text_roundtrip[of "[sample_hunk]"] sample_hunk_free by simp

text \<open>Selecting only the added line splits the flagged line into a removed and an added one.\<close>

lemma sub_hunk_sides_witness:
  "\<exists>s. parse_hunks (split_diff_lines (append_sub_hunk [] sample_hunk [2])) = [s] \<and>
     old_side (h_lines s) = [(''x'', False), (''y'', True)] \<and>
     map fst (new_side (h_lines s)) = [''x'', ''y'', ''z'']"
  using sub_hunk_sides[OF sample_hunk_free, of "[2]"]
  by (auto simp: sample_hunk_def old_side_def kept_def)

lemma file_header_roundtrip_witness:
  "\<exists>old new. split_diff_lines (emit_file_headers [] (Some (CHR 0x5C # CHR 0x22 # ''a'')) None) = [''--- '' @ old, ''+++ '' @ new] \<and>
     path_or_dev_null old = Some (CHR 0x5C # CHR 0x22 # ''a'') \<and> path_or_dev_null new = None"
  by (rule file_header_roundtrip)
    (auto intro!: ascii_valid_utf8 simp: byte_def simp del: valid_utf8.simps)

definition sample_diff_text :: string where
  "sample_diff_text = terminated
     [''diff --git a/f b/f'', ''index 1..2 100644'', ''--- a/f'', ''+++ b/f'',
      ''@@ -1,2 +1 @@'', '' x'', ''-y'']"

definition sample_plan :: patch_plan where
  "sample_plan = \<lparr>pp_repository = ''r'', pp_worktree = ''w'', pp_generation = ''g'', pp_direction = Stage,
     pp_files = [\<lparr>fs_path = ''f'', fs_selection = SelectHunks
       [\<lparr>hr_index = 0, hr_old_start = 1, hr_new_start = 1\<rparr>]\<rparr>]\<rparr>"

lemma sample_build:
  "\<exists>out. build_selected_patch (parse_unified_diff sample_diff_text) sample_plan = Inr out"
proof -
  have "(case build_selected_patch (parse_unified_diff sample_diff_text) sample_plan of
      Inl e \<Rightarrow> False | Inr out \<Rightarrow> True)" by code_simp
  then show ?thesis by (auto split: sum.splits)
qed

lemma build_succeeds_iff_witness:
  "\<exists>out. build_selected_patch (parse_unified_diff sample_diff_text) sample_plan = Inr out \<and>
     sp_whole_files out = [] \<and>
     sp_patch out = concat (parts_of (by_path (parse_unified_diff sample_diff_text)) (pp_files sample_plan))"
proof -
  obtain out where o: "build_selected_patch (parse_unified_diff sample_diff_text) sample_plan = Inr out"
    using sample_build by blast
  note built = build_succeeds_iff[THEN iffD1, OF o]
  have "sp_whole_files out = map fs_path (filter (\<lambda>f. is_entire (fs_selection f)) (pp_files sample_plan))"
    using built by (rule conjunct2[OF conjunct2])
  moreover have
    "sp_patch out = concat (parts_of (by_path (parse_unified_diff sample_diff_text)) (pp_files sample_plan))"
    using built by (rule conjunct1[OF conjunct2])
  moreover have "filter (\<lambda>f. is_entire (fs_selection f)) (pp_files sample_plan) = []"
    by (simp add: sample_plan_def)
  ultimately show ?thesis using o by (intro exI[of _ out] conjI) (simp_all only: list.map)
qed

lemma built_parts_carry_selection_witness:
  "\<exists>out ls. build_selected_patch (parse_unified_diff sample_diff_text) sample_plan = Inr out \<and>
     sp_whole_files out = [] \<and> split_diff_lines (sp_patch out) = ls \<and>
     list_ex (\<lambda>f. carries (parse_unified_diff sample_diff_text) f ls) (pp_files sample_plan)"
proof -
  obtain out where o: "build_selected_patch (parse_unified_diff sample_diff_text) sample_plan = Inr out"
    using sample_build by blast
  from built_parts_carry_selection[OF o] o show ?thesis
    by (auto simp: sample_plan_def list_all2_Cons1)
qed

end
