(* ===== verification/Whitespace.thy ===== *)
theory Whitespace imports Text begin

text \<open>
  The Unicode-aware operations of Rust's \<open>str\<close> on the bytes of well-formed UTF-8:
  \<open>char::is_whitespace\<close>, \<open>trim().is_empty()\<close>, \<open>split_whitespace\<close>, \<open>chars().count()\<close>, and
  \<open>contains\<close>. The encoding of a whitespace character starts with an ASCII byte or a lead byte, and
  never inside another character, so that scanning byte by byte finds exactly the whitespace
  characters.
\<close>

abbreviation newline_char :: char where "newline_char \<equiv> CHR 0x0A"
abbreviation space_char :: char where "space_char \<equiv> CHR 0x20"

fun contains :: "string \<Rightarrow> string \<Rightarrow> bool" where
  "contains p [] = (p = [])"
| "contains p (c # s) = (starts_with p (c # s) \<or> contains p s)"

lemma starts_with_iff: "starts_with p s \<longleftrightarrow> (\<exists>r. s = p @ r)"
  unfolding starts_with_def strip_prefix_None by blast

lemma contains_iff: "contains p s \<longleftrightarrow> (\<exists>a b. s = a @ p @ b)"
proof (induction s)
  case (Cons c s)
  have "(\<exists>a b. c # s = a @ p @ b) \<longleftrightarrow> (\<exists>b. c # s = p @ b) \<or> (\<exists>a b. s = a @ p @ b)"
    by (auto simp: Cons_eq_append_conv)
  with Cons show ?case by (simp add: starts_with_iff)
qed auto

text \<open>The UTF-8 encodings of the characters with the \<open>White_Space\<close> property.\<close>

definition white_space :: "string list" where
  "white_space =
     [[CHR 0x09], [CHR 0x0A], [CHR 0x0B], [CHR 0x0C], [CHR 0x0D], [CHR 0x20],
      [CHR 0xC2, CHR 0x85], [CHR 0xC2, CHR 0xA0], [CHR 0xE1, CHR 0x9A, CHR 0x80],
      [CHR 0xE2, CHR 0x80, CHR 0x80], [CHR 0xE2, CHR 0x80, CHR 0x81],
      [CHR 0xE2, CHR 0x80, CHR 0x82], [CHR 0xE2, CHR 0x80, CHR 0x83],
      [CHR 0xE2, CHR 0x80, CHR 0x84], [CHR 0xE2, CHR 0x80, CHR 0x85],
      [CHR 0xE2, CHR 0x80, CHR 0x86], [CHR 0xE2, CHR 0x80, CHR 0x87],
      [CHR 0xE2, CHR 0x80, CHR 0x88], [CHR 0xE2, CHR 0x80, CHR 0x89],
      [CHR 0xE2, CHR 0x80, CHR 0x8A], [CHR 0xE2, CHR 0x80, CHR 0xA8],
      [CHR 0xE2, CHR 0x80, CHR 0xA9], [CHR 0xE2, CHR 0x80, CHR 0xAF],
      [CHR 0xE2, CHR 0x81, CHR 0x9F], [CHR 0xE3, CHR 0x80, CHR 0x80]]"

text \<open>The length of the whitespace character at the front of a text, 0 when there is none.\<close>

definition ws_len :: "string \<Rightarrow> nat" where
  "ws_len s =
     (case find (\<lambda>p. starts_with p s) white_space of Some p \<Rightarrow> length p | None \<Rightarrow> 0)"

function blank :: "string \<Rightarrow> bool" where
  "blank [] = True"
| "blank (c # s) = (0 < ws_len (c # s) \<and> blank (drop (ws_len (c # s) - 1) s))"
  by pat_completeness auto
termination by (relation "measure length") auto

text \<open>\<open>split_whitespace\<close>, with the word read so far.\<close>

function words_from :: "string \<Rightarrow> string \<Rightarrow> string list" where
  "words_from cur [] = (if cur = [] then [] else [cur])"
| "words_from cur (c # s) =
     (if ws_len (c # s) = 0 then words_from (cur @ [c]) s
      else (if cur = [] then [] else [cur]) @ words_from [] (drop (ws_len (c # s) - 1) s))"
  by pat_completeness auto
termination by (relation "measure (\<lambda>(cur, s). length s)") auto

abbreviation split_whitespace :: "string \<Rightarrow> string list" where
  "split_whitespace \<equiv> words_from []"

definition char_count :: "string \<Rightarrow> nat" where
  "char_count s = length (filter (\<lambda>c. \<not> tail_byte c) s)"

subsection \<open>Whitespace at the front\<close>

lemma white_space_nonempty: "[] \<notin> set white_space"
  by (simp add: white_space_def)

lemma ws_len_pos: "0 < ws_len s \<longleftrightarrow> (\<exists>p \<in> set white_space. starts_with p s)"
proof -
  have len: "\<forall>p \<in> set white_space. 0 < length p" using white_space_nonempty by auto
  show ?thesis
  proof (cases "find (\<lambda>p. starts_with p s) white_space")
    case None
    then have "\<forall>p \<in> set white_space. \<not> starts_with p s" by (auto simp: find_None_iff)
    with None show ?thesis by (simp add: ws_len_def)
  next
    case (Some p)
    then have "p \<in> set white_space" "starts_with p s" by (auto simp: find_Some_iff)
    with len Some show ?thesis by (auto simp: ws_len_def)
  qed
qed

lemma ws_len_append:
  assumes "0 < ws_len x" shows "0 < ws_len (x @ y)"
proof -
  from assms obtain p r where "p \<in> set white_space" "x = p @ r" by (auto simp: ws_len_pos starts_with_iff)
  then show ?thesis by (auto simp: ws_len_pos starts_with_iff intro!: bexI[of _ p])
qed

lemma ws_len_Nil [simp]: "ws_len [] = 0"
  by (simp add: ws_len_def white_space_def starts_with_def)

lemma white_space_sep:
  assumes "p \<in> set white_space" "b \<in> {space_char, newline_char}"
  shows "p = [b] \<or> b \<notin> set p"
  using assms by (auto simp: white_space_def)

lemma ws_len_sep:
  assumes "a \<noteq> []" "b \<in> {space_char, newline_char}"
  shows "ws_len (a @ b # s) = ws_len a"
proof -
  have eq: "starts_with p (a @ b # s) = starts_with p a" if p: "p \<in> set white_space" for p
  proof
    assume "starts_with p (a @ b # s)"
    then obtain r where r: "a @ b # s = p @ r" by (auto simp: starts_with_iff)
    from white_space_sep[OF p assms(2)] show "starts_with p a"
    proof
      assume "p = [b]"
      with r assms(1) show ?thesis by (cases a) (auto simp: starts_with_iff)
    next
      assume free: "b \<notin> set p"
      from r consider us where "a = p @ us" | us where "a @ us = p" "b # s = us @ r"
        by (auto simp: append_eq_append_conv2)
      then show ?thesis
      proof cases
        case (1 us)
        then show ?thesis by (auto simp: starts_with_iff)
      next
        case (2 us)
        with free have "us = []" by (cases us) auto
        with 2 show ?thesis by (auto simp: starts_with_iff)
      qed
    qed
  next
    assume "starts_with p a"
    then show "starts_with p (a @ b # s)" by (auto simp: starts_with_iff)
  qed
  have "find (\<lambda>p. starts_with p (a @ b # s)) white_space = find (\<lambda>p. starts_with p a) white_space"
    by (rule find_cong) (simp_all add: eq)
  then show ?thesis by (simp add: ws_len_def)
qed

lemma ws_len_one:
  assumes "b \<in> {space_char, newline_char}"
  shows "ws_len (b # s) = 1"
proof -
  have "starts_with [b] (b # s)" by (simp add: starts_with_iff)
  moreover have "\<not> starts_with p (b # s)" if "p \<in> set white_space" "p \<noteq> [b]" for p
    using white_space_sep[OF that(1) assms] that white_space_nonempty
    by (cases p) (auto simp: starts_with_iff)
  moreover have "[b] \<in> set white_space" using assms by (auto simp: white_space_def)
  ultimately have one: "\<And>p. p \<in> set white_space \<Longrightarrow> starts_with p (b # s) \<Longrightarrow> p = [b]"
    and some: "find (\<lambda>p. starts_with p (b # s)) white_space \<noteq> None"
    by (blast, auto simp: find_None_iff)
  from some obtain p where p: "find (\<lambda>p. starts_with p (b # s)) white_space = Some p" by auto
  then have "p \<in> set white_space" "starts_with p (b # s)" by (auto simp: find_Some_iff)
  then have "p = [b]" by (rule one)
  with p have "find (\<lambda>p. starts_with p (b # s)) white_space = Some [b]" by simp
  then show ?thesis by (simp add: ws_len_def)
qed

subsection \<open>Words\<close>

lemma words_sep:
  assumes "b \<in> {space_char, newline_char}"
  shows "words_from cur (a @ b # s) = words_from cur a @ words_from [] s"
proof (induction cur a rule: words_from.induct)
  case (1 cur)
  then show ?case using ws_len_one[OF assms, of s] by simp
next
  case (2 cur c a)
  have l: "ws_len (c # a @ b # s) = ws_len (c # a)"
    using ws_len_sep[OF _ assms, of "c # a" s] by simp
  show ?case
  proof (cases "ws_len (c # a) = 0")
    case True
    with 2(1) l show ?thesis by simp
  next
    case False
    then obtain p where p: "find (\<lambda>p. starts_with p (c # a)) white_space = Some p" "ws_len (c # a) = length p"
      by (auto simp: ws_len_def split: option.splits)
    then obtain r where "c # a = p @ r" by (auto simp: find_Some_iff starts_with_iff)
    from arg_cong[OF this, of length] have "length p \<le> Suc (length a)" by simp
    with 2(2)[OF False] l False p(2) show ?thesis by simp
  qed
qed

text \<open>A word is a text that reads as one word.\<close>

abbreviation word_of :: "string \<Rightarrow> bool" where
  "word_of w \<equiv> split_whitespace w = [w]"

lemma words_no_space:
  assumes "\<And>u v. w = v @ u \<Longrightarrow> u \<noteq> [] \<Longrightarrow> ws_len u = 0"
  shows "words_from cur w = (if cur @ w = [] then [] else [cur @ w])"
  using assms
proof (induction w arbitrary: cur)
  case (Cons c w)
  have z: "ws_len (c # w) = 0" using Cons.prems[of "[]"] by simp
  have "words_from (cur @ [c]) w = [cur @ [c] @ w]"
    using Cons.IH[of "cur @ [c]"] Cons.prems[of "c # _"] by simp
  with z show ?case by simp
qed simp

lemma words_are_words_from:
  assumes "\<And>u v. cur = v @ u \<Longrightarrow> u \<noteq> [] \<Longrightarrow> ws_len (u @ s) = 0"
  shows "\<forall>w \<in> set (words_from cur s). word_of w"
  using assms
proof (induction cur s rule: words_from.induct)
  case (1 cur)
  then have "words_from [] cur = (if cur = [] then [] else [cur])"
    using words_no_space[of cur "[]"] by simp
  then show ?case by simp
next
  case (2 cur c s)
  have cur: "words_from [] cur = (if cur = [] then [] else [cur])"
  proof -
    have "ws_len u = 0" if "cur = v @ u" "u \<noteq> []" for u v
      using 2(3)[OF that] ws_len_append[of u "c # s"] by (cases "ws_len u") auto
    from words_no_space[of cur "[]", OF this] show ?thesis by simp
  qed
  show ?case
  proof (cases "ws_len (c # s) = 0")
    case True
    have "ws_len (u @ s) = 0" if "cur @ [c] = v @ u" "u \<noteq> []" for u v
    proof -
      from that obtain u' where u': "u = u' @ [c]" "cur = v @ u'"
        by (cases u rule: rev_cases) auto
      show ?thesis
      proof (cases "u' = []")
        case True
        with u' \<open>ws_len (c # s) = 0\<close> show ?thesis by simp
      next
        case False
        with 2(3)[OF u'(2)] u'(1) show ?thesis by simp
      qed
    qed
    from 2(1)[OF True this] True show ?thesis by simp
  next
    case False
    have "\<forall>w \<in> set (words_from [] (drop (ws_len (c # s) - 1) s)). word_of w"
      using 2(2)[OF False] by simp
    with False cur show ?thesis by auto
  qed
qed

lemma words_are_words: "w \<in> set (split_whitespace s) \<Longrightarrow> word_of w"
  using words_are_words_from[of "[]" s] by simp

lemma words_lines: "concat (map split_whitespace (split_on newline_char s)) = split_whitespace s"
proof (induction "length s" arbitrary: s rule: less_induct)
  case less
  show ?case
  proof (cases "newline_char \<in> set s")
    case False
    then show ?thesis by (simp add: split_on_whole)
  next
    case True
    then obtain a b where ab: "s = a @ newline_char # b" "newline_char \<notin> set a"
      by (meson split_list_first)
    then have "concat (map split_whitespace (split_on newline_char b)) = split_whitespace b"
      by (intro less) simp
    with ab show ?thesis by (simp add: split_on_append words_sep)
  qed
qed

end
