(* ===== verification/Newtypes.thy ===== *)
theory Newtypes imports Whitespace begin

text \<open>
  \<open>crates/git-vista-protocol/src/newtype.rs\<close> and the validated newtypes of \<open>plan.rs\<close> and
  \<open>operation.rs\<close>. A newtype is the string it wraps; its constructor \<open>new\<close> returns that string
  or the error, and \<open>Deserialize\<close> runs the same constructor. The \<open>&'static str\<close> fields of an
  error are kept; the texts of \<open>Display\<close> are not modelled.
\<close>

datatype plan_field_error =
    Empty_field string
  | OptionShaped string
  | NotHex string string
  | TooLong string nat
  | NotToken string
  | NotWorktreeRelative string
  | NotStashSelector string
  | NotRemoteName string
  | NotWorktreeName string

type_synonym checked = "plan_field_error + unit"

text \<open>The \<open>?\<close> operator between two checks.\<close>

fun also_check :: "checked \<Rightarrow> checked \<Rightarrow> checked" where
  "also_check (Inl e) next_check = Inl e"
| "also_check (Inr u) next_check = next_check"

definition ascii_digit :: "char \<Rightarrow> bool" where
  "ascii_digit c \<longleftrightarrow> 48 \<le> byte c \<and> byte c \<le> 57"

definition ascii_alphanumeric :: "char \<Rightarrow> bool" where
  "ascii_alphanumeric c \<longleftrightarrow>
     ascii_digit c \<or> (65 \<le> byte c \<and> byte c \<le> 90) \<or> (97 \<le> byte c \<and> byte c \<le> 122)"

definition require_non_empty :: "string \<Rightarrow> string \<Rightarrow> checked" where
  "require_non_empty v field = (if blank v then Inl (Empty_field field) else Inr ())"

definition require_git_safe :: "string \<Rightarrow> string \<Rightarrow> checked" where
  "require_git_safe v field =
     also_check (require_non_empty v field)
       (if starts_with ''-'' v then Inl (OptionShaped field) else Inr ())"

definition require_hex :: "string \<Rightarrow> nat list \<Rightarrow> string \<Rightarrow> string \<Rightarrow> checked" where
  "require_hex v lens field expected =
     (if length v \<in> set lens \<and> list_all (\<lambda>b. ascii_digit b \<or> (97 \<le> byte b \<and> byte b \<le> 102)) v
      then Inr () else Inl (NotHex field expected))"

definition require_worktree_relative_path :: "string \<Rightarrow> string \<Rightarrow> checked" where
  "require_worktree_relative_path v field =
     also_check (require_git_safe v field)
       (if CHR 0x00 \<in> set v \<or> starts_with ''/'' v then Inl (NotWorktreeRelative field)
        else if list_ex (\<lambda>c. c = ''..'' \<or> c = ''.'') (split_on (CHR ''/'') v)
        then Inl (NotWorktreeRelative field)
        else Inr ())"

definition name_char :: "char \<Rightarrow> bool" where
  "name_char b \<longleftrightarrow> ascii_alphanumeric b \<or> b = CHR ''.'' \<or> b = CHR ''-'' \<or> b = CHR ''_''"

definition require_worktree_name :: "string \<Rightarrow> string \<Rightarrow> nat \<Rightarrow> checked" where
  "require_worktree_name v field max_len =
     also_check (require_git_safe v field)
       (if max_len < length v then Inl (TooLong field max_len)
        else if \<not> list_all name_char v \<or> starts_with ''.'' v \<or> contains ''..'' v \<or> CHR 0x00 \<in> set v
        then Inl (NotWorktreeName field)
        else Inr ())"

definition require_remote_name :: "string \<Rightarrow> string \<Rightarrow> nat \<Rightarrow> checked" where
  "require_remote_name v field max_len =
     also_check (require_git_safe v field)
       (if max_len < length v then Inl (TooLong field max_len)
        else if \<not> list_all name_char v \<or> starts_with ''.'' v \<or> contains ''..'' v
        then Inl (NotRemoteName field)
        else Inr ())"

definition require_non_empty_bounded :: "string \<Rightarrow> string \<Rightarrow> nat \<Rightarrow> checked" where
  "require_non_empty_bounded v field max_len =
     also_check (require_non_empty v field)
       (if max_len < length v then Inl (TooLong field max_len) else Inr ())"

definition stash_open :: string where "stash_open = ''stash@'' @ ''{''"

definition require_stash_selector :: "string \<Rightarrow> string \<Rightarrow> checked" where
  "require_stash_selector v field =
     also_check (require_non_empty v field)
       (if 32 < length v then Inl (TooLong field 32)
        else case strip_prefix stash_open v of
               None \<Rightarrow> Inl (NotStashSelector field)
             | Some rest \<Rightarrow>
                 (case strip_suffix ''}'' rest of
                    None \<Rightarrow> Inl (NotStashSelector field)
                  | Some digits \<Rightarrow>
                      if digits = [] \<or> \<not> list_all ascii_digit digits
                      then Inl (NotStashSelector field)
                      else Inr ()))"

definition require_token :: "string \<Rightarrow> string \<Rightarrow> nat \<Rightarrow> checked" where
  "require_token v field max_len =
     also_check (require_non_empty v field)
       (if max_len < length v then Inl (TooLong field max_len)
        else if \<not> list_all (\<lambda>b. ascii_alphanumeric b \<or> b = CHR ''-'' \<or> b = CHR ''_'') v
        then Inl (NotToken field)
        else Inr ())"

text \<open>\<open>validated_string!\<close>: the constructor \<open>new\<close> of a newtype with validator \<open>validate\<close>.\<close>

definition validated :: "(string \<Rightarrow> checked) \<Rightarrow> string \<Rightarrow> plan_field_error + string" where
  "validated validate v = (case validate v of Inl e \<Rightarrow> Inl e | Inr u \<Rightarrow> Inr v)"

definition repository_token_new :: "string \<Rightarrow> plan_field_error + string" where
  "repository_token_new = validated (\<lambda>v. require_non_empty v ''repository id'')"

definition worktree_token_new :: "string \<Rightarrow> plan_field_error + string" where
  "worktree_token_new = validated (\<lambda>v. require_non_empty v ''worktree id'')"

definition worktree_sibling_id_new :: "string \<Rightarrow> plan_field_error + string" where
  "worktree_sibling_id_new = validated (\<lambda>v. require_non_empty v ''worktree id'')"

definition generation_token_new :: "string \<Rightarrow> plan_field_error + string" where
  "generation_token_new = validated (\<lambda>v. require_non_empty v ''generation token'')"

definition operation_hash_new :: "string \<Rightarrow> plan_field_error + string" where
  "operation_hash_new = validated (\<lambda>v. require_hex v [64] ''operation hash'' ''64'')"

definition commit_oid_new :: "string \<Rightarrow> plan_field_error + string" where
  "commit_oid_new = validated (\<lambda>v. require_hex v [40, 64] ''commit id'' ''40 or 64'')"

definition branch_name_new :: "string \<Rightarrow> plan_field_error + string" where
  "branch_name_new = validated (\<lambda>v. require_git_safe v ''branch name'')"

definition ref_name_new :: "string \<Rightarrow> plan_field_error + string" where
  "ref_name_new = validated (\<lambda>v. require_git_safe v ''ref name'')"

definition commit_message_new :: "string \<Rightarrow> plan_field_error + string" where
  "commit_message_new = validated (\<lambda>v. require_non_empty v ''commit message'')"

definition max_remote_name_len :: nat where "max_remote_name_len = 100"

definition remote_name_new :: "string \<Rightarrow> plan_field_error + string" where
  "remote_name_new = validated (\<lambda>v. require_remote_name v ''remote name'' max_remote_name_len)"

definition max_worktree_name_len :: nat where "max_worktree_name_len = 100"

definition worktree_name_new :: "string \<Rightarrow> plan_field_error + string" where
  "worktree_name_new = validated (\<lambda>v. require_worktree_name v ''worktree name'' max_worktree_name_len)"

definition tag_name_new :: "string \<Rightarrow> plan_field_error + string" where
  "tag_name_new = validated (\<lambda>v. require_git_safe v ''tag name'')"

definition max_tag_message_len :: nat where "max_tag_message_len = 16 * 1024"

definition max_stash_message_len :: nat where "max_stash_message_len = 16 * 1024"

definition stash_message_new :: "string \<Rightarrow> plan_field_error + string" where
  "stash_message_new =
     validated (\<lambda>v. require_non_empty_bounded v ''stash message'' max_stash_message_len)"

definition stash_selector_new :: "string \<Rightarrow> plan_field_error + string" where
  "stash_selector_new = validated (\<lambda>v. require_stash_selector v ''stash selector'')"

definition tag_message_new :: "string \<Rightarrow> plan_field_error + string" where
  "tag_message_new = validated (\<lambda>v. require_non_empty_bounded v ''tag message'' max_tag_message_len)"

definition worktree_path_new :: "string \<Rightarrow> plan_field_error + string" where
  "worktree_path_new = validated (\<lambda>v. require_worktree_relative_path v ''path'')"

definition max_idempotency_key_len :: nat where "max_idempotency_key_len = 128"

definition idempotency_key_new :: "string \<Rightarrow> plan_field_error + string" where
  "idempotency_key_new = validated (\<lambda>v. require_token v ''idempotency key'' max_idempotency_key_len)"

definition max_operation_id_len :: nat where "max_operation_id_len = 64"

definition operation_id_new :: "string \<Rightarrow> plan_field_error + string" where
  "operation_id_new = validated (\<lambda>v. require_token v ''operation id'' max_operation_id_len)"

text \<open>
  \<open>StashSelector::at\<close>, whose \<open>expect\<close> panics (\<open>None\<close>) when the formatted text is refused, and
  \<open>StashSelector::index\<close>.
\<close>

definition usize_max :: int where "usize_max = 2 ^ 64 - 1"

definition stash_selector_at :: "u64 \<Rightarrow> string option" where
  "stash_selector_at index =
     (case stash_selector_new (stash_open @ decimal (uint index) @ ''}'') of
        Inl e \<Rightarrow> None
      | Inr s \<Rightarrow> Some s)"

definition stash_selector_index :: "string \<Rightarrow> u64 option" where
  "stash_selector_index s =
     Option.bind (Option.bind (strip_prefix stash_open s) (strip_suffix ''}''))
       (\<lambda>digits. map_option of_int (parse_uint usize_max digits))"

subsection \<open>What a check accepts\<close>

lemma also_check_Inr [simp]: "also_check c d = Inr u \<longleftrightarrow> c = Inr () \<and> d = Inr ()"
  by (cases c) auto

lemma validated_Inr: "validated f v = Inr w \<longleftrightarrow> f v = Inr () \<and> w = v"
  by (auto simp: validated_def split: sum.splits)

lemma require_non_empty_ok [simp]: "require_non_empty v f = Inr u \<longleftrightarrow> \<not> blank v"
  by (simp add: require_non_empty_def)

lemma starts_with_char: "starts_with [c] v \<longleftrightarrow> (\<exists>r. v = c # r)"
  by (simp add: starts_with_iff)

lemma require_git_safe_ok [simp]:
  "require_git_safe v f = Inr u \<longleftrightarrow> \<not> blank v \<and> \<not> starts_with ''-'' v"
  by (simp add: require_git_safe_def)

lemmas newtype_new = repository_token_new_def worktree_token_new_def worktree_sibling_id_new_def
  generation_token_new_def operation_hash_new_def commit_oid_new_def branch_name_new_def
  ref_name_new_def commit_message_new_def remote_name_new_def worktree_name_new_def tag_name_new_def
  stash_message_new_def stash_selector_new_def tag_message_new_def worktree_path_new_def
  idempotency_key_new_def operation_id_new_def validated_Inr

subsection \<open>Paths and names cannot leave their directory\<close>

text \<open>
  What a relative or absolute path means to the operating system without symbolic links: each
  component is entered, \<open>.\<close> and empty components stay, \<open>..\<close> leaves, and a leading slash starts
  at the root directory. \<open>lexical_join\<close> is \<open>Path::join\<close> followed by that resolution.
\<close>

definition enter_component :: "string \<Rightarrow> string list \<Rightarrow> string list" where
  "enter_component c dir =
     (if c = [] \<or> c = ''.'' then dir else if c = ''..'' then butlast dir else dir @ [c])"

definition lexical_join :: "string list \<Rightarrow> string \<Rightarrow> string list" where
  "lexical_join root p =
     fold enter_component (split_on (CHR ''/'') p) (if starts_with ''/'' p then [] else root)"

lemma enter_components:
  "\<forall>c \<in> set cs. c \<noteq> ''..'' \<and> c \<noteq> ''.'' \<Longrightarrow>
     fold enter_component cs dir = dir @ filter (\<lambda>c. c \<noteq> []) cs"
  by (induction cs arbitrary: dir) (auto simp: enter_component_def)

lemma split_on_hd: "c # s = v \<Longrightarrow> c \<noteq> d \<Longrightarrow> \<exists>p ps. split_on d v = (c # p) # ps"
  using split_on_nonempty[of d s] by (auto split: list.splits)

text \<open>
  C33: a path that passes the wire check can only name something strictly inside the directory it
  is joined to: whatever the root, following its components lexically ends below the root.
\<close>

theorem worktree_path_contained:
  assumes "worktree_path_new v = Inr p"
  shows "\<exists>rel. rel \<noteq> [] \<and> lexical_join root p = root @ rel \<and> CHR 0x00 \<notin> set p"
proof -
  from assms have v: "p = v" "\<not> blank v" "CHR 0x00 \<notin> set v" "\<not> starts_with ''/'' v"
    "\<forall>c \<in> set (split_on (CHR ''/'') v). c \<noteq> ''..'' \<and> c \<noteq> ''.''"
    by (auto simp: newtype_new require_worktree_relative_path_def list_ex_iff split: if_splits)
  from v(2) obtain c s where cs: "c # s = v" by (cases v) auto
  with v(4) have "c \<noteq> CHR ''/''" by (auto simp: starts_with_char)
  from split_on_hd[OF cs this] obtain q qs where "split_on (CHR ''/'') v = (c # q) # qs" by blast
  then have "filter (\<lambda>c. c \<noteq> []) (split_on (CHR ''/'') v) \<noteq> []" by simp
  with v enter_components[OF v(5), of root] show ?thesis by (auto simp: lexical_join_def)
qed

lemma worktree_path_contained_witness:
  "\<exists>rel. rel \<noteq> [] \<and> lexical_join [''home'', ''repo''] ''src//lib.rs'' = [''home'', ''repo''] @ rel \<and>
     CHR 0x00 \<notin> set ''src//lib.rs''"
  by (rule worktree_path_contained[of "''src//lib.rs''"]) code_simp

text \<open>
  The name of a new worktree is one ordinary path component: joined to the managed root it is
  a direct child of it, it is not hidden (so it is not \<open>.git\<close>), it cannot be read as an option, and
  it is at most 100 bytes long.
\<close>

theorem worktree_name_is_direct_child:
  assumes "worktree_name_new v = Inr n"
  shows "lexical_join root n = root @ [n] \<and> hd n \<noteq> CHR ''.'' \<and> hd n \<noteq> CHR ''-'' \<and>
    n \<noteq> [] \<and> length n \<le> 100"
proof -
  from assms have v: "n = v" "\<not> blank v" "\<not> starts_with ''-'' v" "\<not> starts_with ''.'' v"
    "list_all name_char v" "length v \<le> 100"
    by (auto simp: newtype_new require_worktree_name_def max_worktree_name_len_def split: if_splits)
  from v(2) obtain c s where cs: "v = c # s" by (cases v) auto
  have "CHR ''/'' \<notin> set v"
    using v(5) by (auto simp: list_all_iff name_char_def ascii_alphanumeric_def ascii_digit_def byte_def)
  then have "split_on (CHR ''/'') v = [v]" by (rule split_on_whole)
  moreover have "v \<noteq> ''.''" "v \<noteq> ''..''" "\<not> starts_with ''/'' v"
    using v(4) \<open>CHR ''/'' \<notin> set v\<close> by (auto simp: starts_with_char)
  ultimately show ?thesis
    using v cs by (auto simp: lexical_join_def enter_component_def starts_with_char)
qed

lemma worktree_name_is_direct_child_witness:
  "lexical_join [''root''] ''desk-2.x'' = [''root''] @ [''desk-2.x''] \<and> hd ''desk-2.x'' \<noteq> CHR ''.'' \<and>
     hd ''desk-2.x'' \<noteq> CHR ''-'' \<and> ''desk-2.x'' \<noteq> [] \<and> length ''desk-2.x'' \<le> 100"
  by (rule worktree_name_is_direct_child[of "''desk-2.x''"]) code_simp

text \<open>
  A remote's name cannot be read by git as a URL, a scp-style address, a path or an option: it
  has no colon, slash, at sign, tilde, backslash or space, does not start with a dot or a dash, and
  never contains two dots in a row.
\<close>

theorem remote_name_is_no_target:
  assumes "remote_name_new v = Inr r"
  shows "set r \<inter> {CHR '':'', CHR ''/'', CHR ''@'', CHR ''~'', CHR 0x5C, space_char, newline_char} = {} \<and>
    r \<noteq> [] \<and> hd r \<noteq> CHR ''.'' \<and> hd r \<noteq> CHR ''-'' \<and> (\<nexists>a b. r = a @ ''..'' @ b) \<and> length r \<le> 100"
proof -
  from assms have v: "r = v" "\<not> blank v" "\<not> starts_with ''-'' v" "\<not> starts_with ''.'' v"
    "\<not> contains ''..'' v" "list_all name_char v" "length v \<le> 100"
    by (auto simp: newtype_new require_remote_name_def max_remote_name_len_def split: if_splits)
  have "\<not> name_char c" if "c \<in> {CHR '':'', CHR ''/'', CHR ''@'', CHR ''~'', CHR 0x5C, space_char, newline_char}" for c
    using that by (auto simp: name_char_def ascii_alphanumeric_def ascii_digit_def byte_def)
  with v(6) have "set v \<inter> {CHR '':'', CHR ''/'', CHR ''@'', CHR ''~'', CHR 0x5C, space_char, newline_char} = {}"
    unfolding list_all_iff by blast
  moreover from v(2) obtain c s where "v = c # s" by (cases v) auto
  ultimately show ?thesis using v by (auto simp: starts_with_char contains_iff)
qed

lemma remote_name_is_no_target_witness:
  "set ''fork-2'' \<inter> {CHR '':'', CHR ''/'', CHR ''@'', CHR ''~'', CHR 0x5C, space_char, newline_char} = {} \<and>
    ''fork-2'' \<noteq> [] \<and> hd ''fork-2'' \<noteq> CHR ''.'' \<and> hd ''fork-2'' \<noteq> CHR ''-'' \<and>
    (\<nexists>a b. ''fork-2'' = a @ ''..'' @ b) \<and> length ''fork-2'' \<le> 100"
  by (rule remote_name_is_no_target[of "''fork-2''"]) code_simp

subsection \<open>Stash selectors\<close>

lemma decimal_length: "0 \<le> n \<Longrightarrow> n < 10 ^ k \<Longrightarrow> 0 < k \<Longrightarrow> length (decimal n) \<le> k"
proof (induction n arbitrary: k rule: decimal.induct)
  case (1 n)
  show ?case
  proof (cases "n < 10")
    case True
    with "1.prems" show ?thesis by (simp add: decimal.simps[of n])
  next
    case False
    then obtain j where k: "k = Suc j" using "1.prems" by (cases k) auto
    with False "1.prems" have "0 < j" by (cases j) auto
    moreover have "n div 10 < 10 ^ j" using "1.prems"(2) k by (simp add: div_less_iff_less_mult)
    ultimately have "length (decimal (n div 10)) \<le> j"
      using "1.IH"[OF False, of j] "1.prems" by simp
    with False k show ?thesis by (simp add: decimal.simps[of n])
  qed
qed

lemma decimal_ascii_digits: "0 \<le> n \<Longrightarrow> list_all ascii_digit (decimal n)"
  using decimal_digits[of n] by (auto simp: list_all_iff ascii_digit_def byte_def)

text \<open>
  Building the selector of a stash position never panics, and reading it back gives the same
  position, for every position a 64-bit \<open>usize\<close> can hold.
\<close>

theorem stash_selector_roundtrip:
  "\<exists>s. stash_selector_at i = Some s \<and> stash_selector_index s = Some i"
proof -
  let ?d = "decimal (uint i)" and ?s = "stash_open @ decimal (uint i) @ ''}''"
  have i: "0 \<le> uint i" "uint i < 2 ^ 64" using unsigned_less[of i] by auto
  then have small: "uint i \<le> usize_max" "uint i < 10 ^ 20" by (auto simp: usize_max_def)
  have len: "length ?d \<le> 20" by (rule decimal_length[OF i(1) small(2)]) simp
  have pre: "strip_prefix stash_open ?s = Some (?d @ ''}'')" by (rule strip_prefix_append)
  have "ws_len (CHR ''s'' # t) = 0" for t
    by (simp add: ws_len_def white_space_def starts_with_def)
  then have "\<not> blank ?s" by (simp add: stash_open_def)
  moreover have "length stash_open = 7" by (simp add: stash_open_def)
  ultimately have "require_stash_selector ?s f = Inr ()" for f
    using len decimal_ascii_digits[OF i(1)] decimal_nonempty[of "uint i"]
    by (simp add: require_stash_selector_def pre del: blank.simps strip_prefix.simps append.simps)
  then have "stash_selector_at i = Some ?s"
    by (simp add: stash_selector_at_def stash_selector_new_def validated_def)
  moreover have "stash_selector_index ?s = Some i"
    using parse_uint_decimal[OF i(1) small(1)] pre
    by (simp add: stash_selector_index_def del: strip_prefix.simps append.simps)
  ultimately show ?thesis by blast
qed

end
