(* ===== verification/Plan_Model.thy ===== *)
theory Plan_Model imports Newtypes Patch_Plan begin

text \<open>
  \<open>crates/git-vista-protocol/src/plan.rs\<close>: the closed vocabulary of operations and the reviewable
  plan. The validated newtypes are the strings they wrap (theory Newtypes);
  \<open>wf_operation\<close> says that every field of an operation is a value its newtype's constructor
  returned, which the private field and \<open>Deserialize\<close> guarantee in the code. \<open>NonZeroU8\<close> is a
  byte that is not zero; an \<open>i64\<close> of \<open>UnixSeconds\<close> is an integer, as it is only
  printed and compared.
\<close>

type_synonym commit_oid = string
type_synonym branch_name = string
type_synonym ref_name = string
type_synonym remote_name = string
type_synonym tag_name = string
type_synonym worktree_path = string
type_synonym stash_selector = string
type_synonym generation_token = string
type_synonym unix_seconds = int

datatype merge_strategy = Strategy_Merge | Strategy_Rebase

datatype force_publish = Force_None | With_Lease commit_oid

datatype bisect_verdict = Verdict_Good | Verdict_Bad | Verdict_Skip

record tag_annotation =
  ta_message :: string
  ta_sign :: bool

text \<open>\<open>conflict.rs\<close>: the side a conflict is resolved to.\<close>

datatype resolution = TakeOurs | TakeTheirs | TakeDeletion

text \<open>The arguments of a constructor are the fields of the source's variant, in their order.\<close>

datatype git_operation =
    CreateBranch branch_name commit_oid
  | CommitOnHead string bool
  | EmptyCommitOnBranch branch_name string commit_oid
  | StageAll
  | UnstageAll
  | CheckoutBranch branch_name
  | MergeBranch branch_name
  | PushBranch branch_name remote_name bool force_publish
  | ResolveConflict worktree_path resolution
  | ResolveConflictContent worktree_path
      "commit_oid option \<times> commit_oid option \<times> commit_oid option" generation_token string
  | DeleteBranch branch_name
  | ForceDeleteBranch branch_name
  | RebaseOntoBase ref_name
  | RestoreBranch branch_name commit_oid
  | ResetBranch branch_name commit_oid commit_oid
  | SequenceContinue
  | SequenceSkip
  | SequenceAbort
  | CherryPick commit_oid
  | CherryPickMerge commit_oid u8
  | RevertCommit commit_oid
  | RevertMerge commit_oid u8
  | ResetTestRepo
  | StageSelection stage_direction generation_token string "string list"
  | DiscardTrackedPaths "worktree_path list"
  | DeleteUntrackedPaths "worktree_path list"
  | RemoveWorktree string
  | AmendCommit string commit_oid bool
  | FetchRemote remote_name
  | PullBranch remote_name branch_name merge_strategy
  | CreateTag tag_name commit_oid "tag_annotation option"
  | DeleteLocalTag tag_name
  | DeleteRemoteTag tag_name remote_name
  | PushTag tag_name remote_name
  | PushStash "string option" bool bool
  | ApplyStash stash_selector commit_oid
  | BranchFromStash branch_name stash_selector commit_oid
  | DropStash stash_selector commit_oid
  | AddWorktree string branch_name
  | BisectStart commit_oid "commit_oid list"
  | BisectMark bisect_verdict
  | BisectReset

datatype risk_level = Risk_Safe | Risk_Reversible | Risk_Destructive | Risk_Remote

datatype precondition =
    RefAt ref_name commit_oid
  | RefExists ref_name
  | RefAbsent ref_name
  | BranchCheckedOut branch_name
  | BranchNotCheckedOut branch_name
  | CleanWorktree
  | RemoteConfigured remote_name
  | SeedRecorded
  | BranchFreeInEveryOtherWorktree branch_name

datatype ref_state = Ref_Absent | Ref_At commit_oid | Ref_Symbolic ref_name | Ref_Computed

record ref_change =
  rch_ref_name :: ref_name
  rch_before :: ref_state
  rch_after :: ref_state

datatype recovery_strategy =
    Rec_NotNeeded
  | Rec_ResetRef ref_name commit_oid
  | Rec_RecreateBranch branch_name commit_oid
  | Rec_DeleteCreatedBranch branch_name
  | Rec_RecreateTag tag_name commit_oid
  | Rec_RecreateStashEntry commit_oid "string option"
  | Rec_DeleteCreatedTag tag_name
  | Rec_CheckoutPrevious branch_name
  | Rec_RevertCommit commit_oid
  | Rec_RecoverableIfStaged
  | Rec_ConflictRecreatableWhileInProgress
  | Rec_BisectReset
  | Rec_Irrecoverable

datatype advisory =
    DefaultBranchPush branch_name remote_name
  | DefaultBranchUnknown string
  | RemoteHistoryReplaced branch_name remote_name

record plan =
  pl_repository :: string
  pl_worktree :: string
  pl_generation :: generation_token
  pl_operation :: git_operation
  pl_operation_hash :: string
  pl_issued_at :: unix_seconds
  pl_expires_at :: unix_seconds
  pl_risk :: risk_level
  pl_preconditions :: "precondition list"
  pl_expected_ref_changes :: "ref_change list"
  pl_advisories :: "advisory list"
  pl_recovery :: recovery_strategy

text \<open>\<open>impl From<&BranchName> for RefName\<close>.\<close>

definition ref_of_branch :: "branch_name \<Rightarrow> ref_name" where
  "ref_of_branch branch = branch"

subsection \<open>Values the constructors returned\<close>

definition is_valid :: "(string \<Rightarrow> plan_field_error + string) \<Rightarrow> string \<Rightarrow> bool" where
  "is_valid new s \<longleftrightarrow> new s = Inr s"

primrec wf_force :: "force_publish \<Rightarrow> bool" where
  "wf_force Force_None = True"
| "wf_force (With_Lease tip) = is_valid commit_oid_new tip"

primrec wf_operation :: "git_operation \<Rightarrow> bool" where
  "wf_operation (CreateBranch name at) = (is_valid branch_name_new name \<and> is_valid commit_oid_new at)"
| "wf_operation (CommitOnHead msg allow_empty) = is_valid commit_message_new msg"
| "wf_operation (EmptyCommitOnBranch branch msg expected_tip) =
     (is_valid branch_name_new branch \<and> is_valid commit_message_new msg \<and> is_valid commit_oid_new expected_tip)"
| "wf_operation StageAll = True"
| "wf_operation UnstageAll = True"
| "wf_operation (CheckoutBranch branch) = is_valid branch_name_new branch"
| "wf_operation (MergeBranch branch) = is_valid branch_name_new branch"
| "wf_operation (PushBranch branch remote set_upstream force) =
     (is_valid branch_name_new branch \<and> is_valid remote_name_new remote \<and> wf_force force)"
| "wf_operation (ResolveConflict path r) = is_valid worktree_path_new path"
| "wf_operation (ResolveConflictContent path stages source content) =
     (is_valid worktree_path_new path \<and> is_valid generation_token_new source \<and>
      (case stages of (a, b, c) \<Rightarrow> pred_option (is_valid commit_oid_new) a \<and>
         pred_option (is_valid commit_oid_new) b \<and> pred_option (is_valid commit_oid_new) c))"
| "wf_operation (DeleteBranch branch) = is_valid branch_name_new branch"
| "wf_operation (ForceDeleteBranch branch) = is_valid branch_name_new branch"
| "wf_operation (RebaseOntoBase base) = is_valid ref_name_new base"
| "wf_operation (RestoreBranch name tip) = (is_valid branch_name_new name \<and> is_valid commit_oid_new tip)"
| "wf_operation (ResetBranch branch to expected_tip) =
     (is_valid branch_name_new branch \<and> is_valid commit_oid_new to \<and> is_valid commit_oid_new expected_tip)"
| "wf_operation SequenceContinue = True"
| "wf_operation SequenceSkip = True"
| "wf_operation SequenceAbort = True"
| "wf_operation (CherryPick commit) = is_valid commit_oid_new commit"
| "wf_operation (CherryPickMerge commit mainline) = (is_valid commit_oid_new commit \<and> mainline \<noteq> 0)"
| "wf_operation (RevertCommit commit) = is_valid commit_oid_new commit"
| "wf_operation (RevertMerge commit mainline) = (is_valid commit_oid_new commit \<and> mainline \<noteq> 0)"
| "wf_operation ResetTestRepo = True"
| "wf_operation (StageSelection direction generation patch whole_files) =
     is_valid generation_token_new generation"
| "wf_operation (DiscardTrackedPaths paths) = list_all (is_valid worktree_path_new) paths"
| "wf_operation (DeleteUntrackedPaths paths) = list_all (is_valid worktree_path_new) paths"
| "wf_operation (RemoveWorktree sibling) = is_valid worktree_sibling_id_new sibling"
| "wf_operation (AmendCommit msg expected_tip allow_empty) =
     (is_valid commit_message_new msg \<and> is_valid commit_oid_new expected_tip)"
| "wf_operation (FetchRemote remote) = is_valid remote_name_new remote"
| "wf_operation (PullBranch remote branch strategy) =
     (is_valid remote_name_new remote \<and> is_valid branch_name_new branch)"
| "wf_operation (CreateTag name target annotation) =
     (is_valid tag_name_new name \<and> is_valid commit_oid_new target \<and>
      pred_option (\<lambda>a. is_valid tag_message_new (ta_message a)) annotation)"
| "wf_operation (DeleteLocalTag name) = is_valid tag_name_new name"
| "wf_operation (DeleteRemoteTag name remote) = (is_valid tag_name_new name \<and> is_valid remote_name_new remote)"
| "wf_operation (PushTag name remote) = (is_valid tag_name_new name \<and> is_valid remote_name_new remote)"
| "wf_operation (PushStash msg keep_index include_untracked) = pred_option (is_valid stash_message_new) msg"
| "wf_operation (ApplyStash entry expected_oid) =
     (is_valid stash_selector_new entry \<and> is_valid commit_oid_new expected_oid)"
| "wf_operation (BranchFromStash name entry expected_oid) =
     (is_valid branch_name_new name \<and> is_valid stash_selector_new entry \<and> is_valid commit_oid_new expected_oid)"
| "wf_operation (DropStash entry expected_oid) =
     (is_valid stash_selector_new entry \<and> is_valid commit_oid_new expected_oid)"
| "wf_operation (AddWorktree name branch) = (is_valid worktree_name_new name \<and> is_valid branch_name_new branch)"
| "wf_operation (BisectStart bad good) =
     (is_valid commit_oid_new bad \<and> list_all (is_valid commit_oid_new) good)"
| "wf_operation (BisectMark verdict) = True"
| "wf_operation BisectReset = True"

subsection \<open>What validity gives\<close>

text \<open>No value that reaches git's command line as a name can be taken for an option.\<close>

definition plain_arg :: "string \<Rightarrow> bool" where
  "plain_arg s \<longleftrightarrow> s \<noteq> [] \<and> hd s \<noteq> CHR ''-''"

lemma plain_arg_Cons [simp]: "plain_arg (c # s) \<longleftrightarrow> c \<noteq> CHR ''-''"
  by (simp add: plain_arg_def)

lemma git_safe_plain: "require_git_safe v f = Inr u \<Longrightarrow> plain_arg v"
  by (cases v) (auto simp: starts_with_char plain_arg_def)

lemma hex_plain: "require_hex v [40, 64] f e = Inr u \<Longrightarrow> plain_arg v"
  by (cases v) (auto simp: require_hex_def plain_arg_def ascii_digit_def byte_def split: if_splits)

lemma valid_plain:
  "is_valid branch_name_new s \<Longrightarrow> plain_arg s"
  "is_valid ref_name_new s \<Longrightarrow> plain_arg s"
  "is_valid tag_name_new s \<Longrightarrow> plain_arg s"
  "is_valid commit_oid_new s \<Longrightarrow> plain_arg s"
  "is_valid remote_name_new s \<Longrightarrow> plain_arg s"
  "is_valid worktree_path_new s \<Longrightarrow> plain_arg s"
  using git_safe_plain[of s] hex_plain[of s]
  by (fastforce simp: is_valid_def newtype_new require_remote_name_def
        require_worktree_relative_path_def)+

lemma valid_selector_plain: "is_valid stash_selector_new s \<Longrightarrow> plain_arg s"
  by (auto simp: is_valid_def newtype_new require_stash_selector_def strip_prefix_Some stash_open_def
        split: if_splits option.splits)

end
