(* ===== verification/Argv.thy ===== *)
theory Argv imports Plan_Model begin

text \<open>
  The argv builders of \<open>crates/git-vista-protocol/src/plan_export.rs\<close>: one function per operation,
  the argument list without the leading \<open>git\<close>, shared by the executors and the export.
\<close>

type_synonym argv = "string list"

definition create_branch_argv :: "branch_name \<Rightarrow> commit_oid \<Rightarrow> argv" where
  "create_branch_argv name at = [''branch'', name, at]"

definition commit_on_head_argv :: "string \<Rightarrow> bool \<Rightarrow> argv" where
  "commit_on_head_argv msg allow_empty =
     [''commit''] @ (if allow_empty then [''--allow-empty''] else []) @ [''-m'', msg]"

definition amend_commit_argv :: "string \<Rightarrow> bool \<Rightarrow> argv" where
  "amend_commit_argv msg allow_empty =
     [''commit'', ''--amend''] @ (if allow_empty then [''--allow-empty''] else []) @ [''-m'', msg]"

definition stage_all_argv :: argv where
  "stage_all_argv = [''add'', ''-A'']"

definition unstage_all_argv :: argv where
  "unstage_all_argv = [''reset'', ''-q'', ''HEAD'']"

definition checkout_argv :: "branch_name \<Rightarrow> argv" where
  "checkout_argv branch = [''checkout'', branch]"

definition merge_argv :: "ref_name \<Rightarrow> argv" where
  "merge_argv tgt = [''merge'', ''--no-edit'', tgt]"

definition delete_branch_argv :: "branch_name \<Rightarrow> bool \<Rightarrow> argv" where
  "delete_branch_argv branch force = [''branch'', if force then ''-D'' else ''-d'', branch]"

definition rebase_argv :: "ref_name \<Rightarrow> argv" where
  "rebase_argv base = [''rebase'', base]"

definition rebase_abort_argv :: argv where
  "rebase_abort_argv = [''rebase'', ''--abort'']"

text \<open>\<open>-m <parent>\<close> for a merge commit, nothing otherwise.\<close>

definition mainline_args :: "u8 option \<Rightarrow> argv" where
  "mainline_args mainline = (case mainline of Some m \<Rightarrow> [''-m'', decimal (uint m)] | None \<Rightarrow> [])"

definition cherry_pick_argv :: "commit_oid \<Rightarrow> u8 option \<Rightarrow> argv" where
  "cherry_pick_argv commit mainline = [''cherry-pick''] @ mainline_args mainline @ [commit]"

definition revert_compute_argv :: "commit_oid \<Rightarrow> u8 option \<Rightarrow> argv" where
  "revert_compute_argv commit mainline = [''revert'', ''--no-commit''] @ mainline_args mainline @ [commit]"

definition revert_commit_argv :: argv where
  "revert_commit_argv = [''commit'', ''--allow-empty'', ''--no-edit'']"

definition revert_abort_argv :: argv where
  "revert_abort_argv = [''revert'', ''--abort'']"

text \<open>\<open>tracking_ref\<close>, whose \<open>expect\<close> panics (\<open>None\<close>) when the joined name is refused.\<close>

definition tracking_ref :: "remote_name \<Rightarrow> branch_name \<Rightarrow> ref_name option" where
  "tracking_ref remote branch =
     (case ref_name_new (remote @ ''/'' @ branch) of Inl e \<Rightarrow> None | Inr r \<Rightarrow> Some r)"

definition fetch_argv :: "remote_name \<Rightarrow> argv" where
  "fetch_argv remote = [''fetch'', ''--progress'', remote]"

definition push_argv :: "branch_name \<Rightarrow> remote_name \<Rightarrow> bool \<Rightarrow> force_publish \<Rightarrow> argv" where
  "push_argv branch remote set_upstream force =
     [''push'', ''--progress''] @ (if set_upstream then [''--set-upstream''] else []) @
     (case force of
        Force_None \<Rightarrow> []
      | With_Lease expected_remote_tip \<Rightarrow>
          [''--force-with-lease='' @ branch @ '':'' @ expected_remote_tip]) @
     [remote, branch]"

definition create_tag_argv :: "tag_name \<Rightarrow> commit_oid \<Rightarrow> tag_annotation option \<Rightarrow> argv" where
  "create_tag_argv name tgt annotation =
     [''tag''] @
     (case annotation of
        None \<Rightarrow> []
      | Some a \<Rightarrow> [if ta_sign a then ''-s'' else ''-a'', ''-m'', ta_message a]) @
     [name, tgt]"

definition delete_local_tag_argv :: "tag_name \<Rightarrow> argv" where
  "delete_local_tag_argv name = [''tag'', ''-d'', name]"

definition push_tag_argv :: "tag_name \<Rightarrow> remote_name \<Rightarrow> argv" where
  "push_tag_argv name remote = [''push'', ''--progress'', remote, ''refs/tags/'' @ name]"

definition delete_remote_tag_argv :: "tag_name \<Rightarrow> remote_name \<Rightarrow> argv" where
  "delete_remote_tag_argv name remote =
     [''push'', ''--progress'', remote, ''--delete'', ''refs/tags/'' @ name]"

definition push_stash_argv :: "string option \<Rightarrow> bool \<Rightarrow> bool \<Rightarrow> argv" where
  "push_stash_argv msg keep_index include_untracked =
     [''stash'', ''push''] @ (if keep_index then [''--keep-index''] else []) @
     (if include_untracked then [''--include-untracked''] else []) @
     (case msg of Some m \<Rightarrow> [''-m'', m] | None \<Rightarrow> [])"

definition apply_stash_argv :: "stash_selector \<Rightarrow> argv" where
  "apply_stash_argv entry = [''stash'', ''apply'', entry]"

definition branch_from_stash_argv :: "branch_name \<Rightarrow> stash_selector \<Rightarrow> argv" where
  "branch_from_stash_argv name entry = [''stash'', ''branch'', name, entry]"

definition drop_stash_argv :: "stash_selector \<Rightarrow> argv" where
  "drop_stash_argv entry = [''stash'', ''drop'', entry]"

definition reset_hard_argv :: "commit_oid \<Rightarrow> argv" where
  "reset_hard_argv tgt = [''reset'', ''--hard'', tgt]"

definition move_branch_argv :: "branch_name \<Rightarrow> commit_oid \<Rightarrow> argv" where
  "move_branch_argv branch tgt = [''branch'', ''-f'', branch, tgt]"

datatype sequence_kind = Seq_CherryPick | Seq_Revert

fun subcommand :: "sequence_kind \<Rightarrow> string" where
  "subcommand Seq_CherryPick = ''cherry-pick''"
| "subcommand Seq_Revert = ''revert''"

datatype sequence_verb = Verb_Continue | Verb_Skip | Verb_Abort

fun verb_flag :: "sequence_verb \<Rightarrow> string" where
  "verb_flag Verb_Continue = ''--continue''"
| "verb_flag Verb_Skip = ''--skip''"
| "verb_flag Verb_Abort = ''--abort''"

definition sequence_argv :: "sequence_kind \<Rightarrow> sequence_verb \<Rightarrow> argv" where
  "sequence_argv kind verb = [subcommand kind, verb_flag verb]"

definition bisect_start_argv :: "commit_oid \<Rightarrow> commit_oid list \<Rightarrow> argv" where
  "bisect_start_argv bad good = [''bisect'', ''start'', bad] @ good"

definition bisect_mark_argv :: "bisect_verdict \<Rightarrow> argv" where
  "bisect_mark_argv verdict =
     [''bisect'', case verdict of Verdict_Good \<Rightarrow> ''good'' | Verdict_Bad \<Rightarrow> ''bad'' | Verdict_Skip \<Rightarrow> ''skip'']"

definition bisect_reset_argv :: argv where
  "bisect_reset_argv = [''bisect'', ''reset'']"

definition resolve_conflict_argv :: "worktree_path \<Rightarrow> resolution \<Rightarrow> argv" where
  "resolve_conflict_argv path r =
     (case r of
        TakeOurs \<Rightarrow> [''checkout'', ''--ours'', ''--'', path]
      | TakeTheirs \<Rightarrow> [''checkout'', ''--theirs'', ''--'', path]
      | TakeDeletion \<Rightarrow> [''rm'', ''-f'', ''--'', path])"

definition stage_resolved_path_argv :: "worktree_path \<Rightarrow> argv" where
  "stage_resolved_path_argv path = [''add'', ''--'', path]"

definition discard_tracked_argv :: "worktree_path list \<Rightarrow> argv" where
  "discard_tracked_argv paths = [''checkout'', ''HEAD'', ''--''] @ paths"

definition delete_untracked_argv :: "worktree_path list \<Rightarrow> argv" where
  "delete_untracked_argv paths = [''clean'', ''-f'', ''--''] @ paths"

lemmas argv_defs = create_branch_argv_def commit_on_head_argv_def amend_commit_argv_def
  stage_all_argv_def unstage_all_argv_def checkout_argv_def merge_argv_def delete_branch_argv_def
  rebase_argv_def rebase_abort_argv_def mainline_args_def cherry_pick_argv_def
  revert_compute_argv_def revert_commit_argv_def revert_abort_argv_def fetch_argv_def push_argv_def
  create_tag_argv_def delete_local_tag_argv_def push_tag_argv_def delete_remote_tag_argv_def
  push_stash_argv_def apply_stash_argv_def branch_from_stash_argv_def drop_stash_argv_def
  reset_hard_argv_def move_branch_argv_def sequence_argv_def bisect_start_argv_def
  bisect_mark_argv_def bisect_reset_argv_def resolve_conflict_argv_def stage_resolved_path_argv_def
  discard_tracked_argv_def delete_untracked_argv_def

subsection \<open>The remote-tracking name\<close>

lemma name_char_not_white: "name_char c \<Longrightarrow> ws_len (c # s) = 0"
proof -
  assume c: "name_char c"
  have "\<forall>p \<in> set white_space. p \<noteq> [] \<and> \<not> name_char (hd p)"
    by (simp add: white_space_def name_char_def ascii_alphanumeric_def ascii_digit_def byte_def)
  with c have "\<not> 0 < ws_len (c # s)"
    unfolding ws_len_pos starts_with_iff by (metis append_Cons list.sel(1) neq_Nil_conv)
  then show ?thesis by simp
qed

lemma remote_name_cases:
  assumes "is_valid remote_name_new remote"
  obtains c s where "remote = c # s" "name_char c" "c \<noteq> CHR ''-''"
  using assms
  by (cases remote)
    (auto simp: is_valid_def newtype_new require_remote_name_def starts_with_char split: if_splits)

lemma tracking_ref_some:
  assumes "is_valid remote_name_new remote"
  shows "tracking_ref remote branch = Some (remote @ ''/'' @ branch)"
    and "plain_arg (remote @ ''/'' @ branch)"
proof -
  from assms obtain c s where r: "remote = c # s" "name_char c" "c \<noteq> CHR ''-''"
    by (rule remote_name_cases)
  then have "ref_name_new (remote @ ''/'' @ branch) = Inr (remote @ ''/'' @ branch)"
    by (simp add: newtype_new name_char_not_white starts_with_char)
  then show "tracking_ref remote branch = Some (remote @ ''/'' @ branch)"
    by (simp add: tracking_ref_def)
  from r show "plain_arg (remote @ ''/'' @ branch)" by simp
qed

end
