(* ===== verification/Effects.thy ===== *)
theory Effects imports Plan_Model begin

text \<open>
  \<open>crates/git-vista-protocol/src/effects.rs\<close>: what an operation does to the working tree, to the
  index and to the network, one arm per operation in the order of the source, and
  \<open>explain.rs\<close>: the explanation of a plan as typed facts under its six topics.
\<close>

datatype wt_effect =
    Wt_Untouched | Wt_FilesRewritten | Wt_FilesRemoved | Wt_MayConflict | Wt_RewrittenIfCheckedOut

datatype ix_effect =
    Ix_Untouched | Ix_EntriesStaged | Ix_EntriesUnstaged | Ix_StagesResolved | Ix_Rebuilt
  | Ix_MayGainConflictStages | Ix_RebuiltIfCheckedOut

primrec worktree_effect :: "git_operation \<Rightarrow> wt_effect" where
  "worktree_effect (CreateBranch x1 x2) = Wt_Untouched"
| "worktree_effect (AddWorktree x1 x2) = Wt_Untouched"
| "worktree_effect (DeleteBranch x1) = Wt_Untouched"
| "worktree_effect (ForceDeleteBranch x1) = Wt_Untouched"
| "worktree_effect (RestoreBranch x1 x2) = Wt_Untouched"
| "worktree_effect (CreateTag x1 x2 x3) = Wt_Untouched"
| "worktree_effect (DeleteLocalTag x1) = Wt_Untouched"
| "worktree_effect (DeleteRemoteTag x1 x2) = Wt_Untouched"
| "worktree_effect (PushTag x1 x2) = Wt_Untouched"
| "worktree_effect (PushBranch x1 x2 x3 x4) = Wt_Untouched"
| "worktree_effect (FetchRemote x1) = Wt_Untouched"
| "worktree_effect (CommitOnHead x1 x2) = Wt_Untouched"
| "worktree_effect (EmptyCommitOnBranch x1 x2 x3) = Wt_Untouched"
| "worktree_effect (AmendCommit x1 x2 x3) = Wt_Untouched"
| "worktree_effect StageAll = Wt_Untouched"
| "worktree_effect UnstageAll = Wt_Untouched"
| "worktree_effect (StageSelection x1 x2 x3 x4) = Wt_Untouched"
| "worktree_effect (DropStash x1 x2) = Wt_Untouched"
| "worktree_effect (CheckoutBranch x1) = Wt_FilesRewritten"
| "worktree_effect (BisectStart x1 x2) = Wt_FilesRewritten"
| "worktree_effect (BisectMark x1) = Wt_FilesRewritten"
| "worktree_effect BisectReset = Wt_FilesRewritten"
| "worktree_effect (ResolveConflict x1 x2) = Wt_FilesRewritten"
| "worktree_effect (ResolveConflictContent x1 x2 x3 x4) = Wt_FilesRewritten"
| "worktree_effect (DiscardTrackedPaths x1) = Wt_FilesRewritten"
| "worktree_effect SequenceAbort = Wt_FilesRewritten"
| "worktree_effect (PushStash x1 x2 x3) = Wt_FilesRewritten"
| "worktree_effect ResetTestRepo = Wt_FilesRewritten"
| "worktree_effect (DeleteUntrackedPaths x1) = Wt_FilesRemoved"
| "worktree_effect (RemoveWorktree x1) = Wt_Untouched"
| "worktree_effect (MergeBranch x1) = Wt_MayConflict"
| "worktree_effect (RebaseOntoBase x1) = Wt_MayConflict"
| "worktree_effect (PullBranch x1 x2 x3) = Wt_MayConflict"
| "worktree_effect (CherryPick x1) = Wt_MayConflict"
| "worktree_effect (CherryPickMerge x1 x2) = Wt_MayConflict"
| "worktree_effect (RevertCommit x1) = Wt_MayConflict"
| "worktree_effect (RevertMerge x1 x2) = Wt_MayConflict"
| "worktree_effect SequenceContinue = Wt_MayConflict"
| "worktree_effect SequenceSkip = Wt_MayConflict"
| "worktree_effect (ApplyStash x1 x2) = Wt_MayConflict"
| "worktree_effect (BranchFromStash x1 x2 x3) = Wt_MayConflict"
| "worktree_effect (ResetBranch x1 x2 x3) = Wt_RewrittenIfCheckedOut"

primrec index_effect :: "git_operation \<Rightarrow> ix_effect" where
  "index_effect (CreateBranch x1 x2) = Ix_Untouched"
| "index_effect (AddWorktree x1 x2) = Ix_Untouched"
| "index_effect (DeleteBranch x1) = Ix_Untouched"
| "index_effect (ForceDeleteBranch x1) = Ix_Untouched"
| "index_effect (RestoreBranch x1 x2) = Ix_Untouched"
| "index_effect (CreateTag x1 x2 x3) = Ix_Untouched"
| "index_effect (DeleteLocalTag x1) = Ix_Untouched"
| "index_effect (DeleteRemoteTag x1 x2) = Ix_Untouched"
| "index_effect (PushTag x1 x2) = Ix_Untouched"
| "index_effect (PushBranch x1 x2 x3 x4) = Ix_Untouched"
| "index_effect (FetchRemote x1) = Ix_Untouched"
| "index_effect (DropStash x1 x2) = Ix_Untouched"
| "index_effect (CommitOnHead x1 x2) = Ix_Untouched"
| "index_effect (EmptyCommitOnBranch x1 x2 x3) = Ix_Untouched"
| "index_effect (AmendCommit x1 x2 x3) = Ix_Untouched"
| "index_effect (DiscardTrackedPaths x1) = Ix_Untouched"
| "index_effect (DeleteUntrackedPaths x1) = Ix_Untouched"
| "index_effect (RemoveWorktree x1) = Ix_Untouched"
| "index_effect StageAll = Ix_EntriesStaged"
| "index_effect UnstageAll = Ix_EntriesUnstaged"
| "index_effect (StageSelection direction generation patch whole_files) =
     (case direction of Stage \<Rightarrow> Ix_EntriesStaged | Unstage \<Rightarrow> Ix_EntriesUnstaged)"
| "index_effect (ResolveConflict x1 x2) = Ix_StagesResolved"
| "index_effect (ResolveConflictContent x1 x2 x3 x4) = Ix_StagesResolved"
| "index_effect (CheckoutBranch x1) = Ix_Rebuilt"
| "index_effect (BisectStart x1 x2) = Ix_Rebuilt"
| "index_effect (BisectMark x1) = Ix_Rebuilt"
| "index_effect BisectReset = Ix_Rebuilt"
| "index_effect (MergeBranch x1) = Ix_Rebuilt"
| "index_effect (PullBranch x1 x2 x3) = Ix_Rebuilt"
| "index_effect (RebaseOntoBase x1) = Ix_Rebuilt"
| "index_effect (CherryPick x1) = Ix_Rebuilt"
| "index_effect (CherryPickMerge x1 x2) = Ix_Rebuilt"
| "index_effect (RevertCommit x1) = Ix_Rebuilt"
| "index_effect (RevertMerge x1 x2) = Ix_Rebuilt"
| "index_effect SequenceContinue = Ix_Rebuilt"
| "index_effect SequenceSkip = Ix_Rebuilt"
| "index_effect SequenceAbort = Ix_Rebuilt"
| "index_effect ResetTestRepo = Ix_Rebuilt"
| "index_effect (PushStash x1 x2 x3) = Ix_Rebuilt"
| "index_effect (BranchFromStash x1 x2 x3) = Ix_Rebuilt"
| "index_effect (ApplyStash x1 x2) = Ix_MayGainConflictStages"
| "index_effect (ResetBranch x1 x2 x3) = Ix_RebuiltIfCheckedOut"

datatype network_need = Net_Remote | Net_Local

primrec network_need_for_operation :: "git_operation \<Rightarrow> network_need" where
  "network_need_for_operation (PushBranch x1 x2 x3 x4) = Net_Remote"
| "network_need_for_operation (FetchRemote x1) = Net_Remote"
| "network_need_for_operation (PullBranch x1 x2 x3) = Net_Remote"
| "network_need_for_operation (DeleteRemoteTag x1 x2) = Net_Remote"
| "network_need_for_operation (PushTag x1 x2) = Net_Remote"
| "network_need_for_operation (PushStash x1 x2 x3) = Net_Local"
| "network_need_for_operation (ApplyStash x1 x2) = Net_Local"
| "network_need_for_operation (BranchFromStash x1 x2 x3) = Net_Local"
| "network_need_for_operation (DropStash x1 x2) = Net_Local"
| "network_need_for_operation (ResolveConflict x1 x2) = Net_Local"
| "network_need_for_operation (ResolveConflictContent x1 x2 x3 x4) = Net_Local"
| "network_need_for_operation (CreateBranch x1 x2) = Net_Local"
| "network_need_for_operation (AddWorktree x1 x2) = Net_Local"
| "network_need_for_operation (CommitOnHead x1 x2) = Net_Local"
| "network_need_for_operation (EmptyCommitOnBranch x1 x2 x3) = Net_Local"
| "network_need_for_operation StageAll = Net_Local"
| "network_need_for_operation UnstageAll = Net_Local"
| "network_need_for_operation (CheckoutBranch x1) = Net_Local"
| "network_need_for_operation (BisectStart x1 x2) = Net_Local"
| "network_need_for_operation (BisectMark x1) = Net_Local"
| "network_need_for_operation BisectReset = Net_Local"
| "network_need_for_operation (MergeBranch x1) = Net_Local"
| "network_need_for_operation (DeleteBranch x1) = Net_Local"
| "network_need_for_operation (ForceDeleteBranch x1) = Net_Local"
| "network_need_for_operation (RebaseOntoBase x1) = Net_Local"
| "network_need_for_operation (RestoreBranch x1 x2) = Net_Local"
| "network_need_for_operation (ResetBranch x1 x2 x3) = Net_Local"
| "network_need_for_operation (RevertCommit x1) = Net_Local"
| "network_need_for_operation (RevertMerge x1 x2) = Net_Local"
| "network_need_for_operation SequenceContinue = Net_Local"
| "network_need_for_operation SequenceSkip = Net_Local"
| "network_need_for_operation SequenceAbort = Net_Local"
| "network_need_for_operation (CherryPick x1) = Net_Local"
| "network_need_for_operation (CherryPickMerge x1 x2) = Net_Local"
| "network_need_for_operation (StageSelection x1 x2 x3 x4) = Net_Local"
| "network_need_for_operation ResetTestRepo = Net_Local"
| "network_need_for_operation (DiscardTrackedPaths x1) = Net_Local"
| "network_need_for_operation (DeleteUntrackedPaths x1) = Net_Local"
| "network_need_for_operation (RemoveWorktree x1) = Net_Local"
| "network_need_for_operation (AmendCommit x1 x2 x3) = Net_Local"
| "network_need_for_operation (CreateTag x1 x2 x3) = Net_Local"
| "network_need_for_operation (DeleteLocalTag x1) = Net_Local"

subsection \<open>The explanation of a plan\<close>

datatype topic = MustBeTrueFirst | WhatMoves | IndexAndWorktree | Topic_Remote | HowToUndo | WorthKnowing

datatype explanation_fact =
    Fact_Precondition precondition
  | Fact_RefMoves ref_change
  | Fact_Worktree wt_effect
  | Fact_Index ix_effect
  | Fact_Remote network_need
  | Fact_Recovery recovery_strategy
  | Fact_Advisory advisory
  | Fact_Risk risk_level

record section_of =
  sec_topic :: topic
  sec_facts :: "explanation_fact list"

type_synonym explanation = "section_of list"

definition facts_for :: "explanation \<Rightarrow> topic \<Rightarrow> explanation_fact list" where
  "facts_for e t = (case find (\<lambda>s. sec_topic s = t) e of Some s \<Rightarrow> sec_facts s | None \<Rightarrow> [])"

definition all_facts :: "explanation \<Rightarrow> explanation_fact list" where
  "all_facts e = concat (map sec_facts e)"

definition explain :: "plan \<Rightarrow> explanation" where
  "explain p =
     [\<lparr>sec_topic = MustBeTrueFirst, sec_facts = map Fact_Precondition (pl_preconditions p)\<rparr>,
      \<lparr>sec_topic = WhatMoves, sec_facts = map Fact_RefMoves (pl_expected_ref_changes p)\<rparr>,
      \<lparr>sec_topic = IndexAndWorktree,
       sec_facts = [Fact_Worktree (worktree_effect (pl_operation p)), Fact_Index (index_effect (pl_operation p))]\<rparr>,
      \<lparr>sec_topic = Topic_Remote, sec_facts = [Fact_Remote (network_need_for_operation (pl_operation p))]\<rparr>,
      \<lparr>sec_topic = HowToUndo, sec_facts = [Fact_Recovery (pl_recovery p)]\<rparr>,
      \<lparr>sec_topic = WorthKnowing, sec_facts = Fact_Risk (pl_risk p) # map Fact_Advisory (pl_advisories p)\<rparr>]"

text \<open>
  Each section of an explanation is found under its own topic, and the sections together are all
  its facts.
\<close>

lemma facts_by_topic:
  "all_facts (explain p) =
     concat (map (facts_for (explain p))
       [MustBeTrueFirst, WhatMoves, IndexAndWorktree, Topic_Remote, HowToUndo, WorthKnowing])"
  by (simp add: all_facts_def facts_for_def explain_def)

end
