(* ===== verification/Plan_Export.thy ===== *)
theory Plan_Export imports Argv Effects begin

text \<open>
  \<open>crates/git-vista-protocol/src/plan_export.rs\<close>: the classification of every operation into
  the steps a person can type, with the sentence printed beside each step. A \<open>None\<close> is the panic
  of \<open>tracking_ref\<close>; it is shown never to happen. Typographic quotes and dashes are their UTF-8
  bytes.
\<close>

abbreviation lq :: string where "lq \<equiv> [CHR 0xE2, CHR 0x80, CHR 0x98]"
abbreviation rq :: string where "rq \<equiv> [CHR 0xE2, CHR 0x80, CHR 0x99]"
abbreviation ldq :: string where "ldq \<equiv> [CHR 0xE2, CHR 0x80, CHR 0x9C]"
abbreviation rdq :: string where "rdq \<equiv> [CHR 0xE2, CHR 0x80, CHR 0x9D]"
abbreviation em_dash :: string where "em_dash \<equiv> [CHR 0xE2, CHR 0x80, CHR 0x94]"
abbreviation nl :: string where "nl \<equiv> [CHR 0x0A]"

record step =
  st_argv :: argv
  st_why :: string

definition new_step :: "argv \<Rightarrow> string \<Rightarrow> step" where
  "new_step a why = \<lparr>st_argv = a, st_why = why\<rparr>"

record candidate =
  cand_when :: string
  cand_steps :: "step list"

datatype export =
    Commands "step list"
  | ChosenAtRunTime string "candidate list"
  | Chained string
  | NotACommandLine string

definition count_paths :: "nat \<Rightarrow> string" where
  "count_paths n = (if n = 1 then ''1 file'' else decimal (int n) @ '' files'')"

definition short :: "commit_oid \<Rightarrow> string" where
  "short oid = take 8 oid"

definition revert_steps :: "commit_oid \<Rightarrow> u8 option \<Rightarrow> step list" where
  "revert_steps commit mainline =
     [new_step (revert_compute_argv commit mainline)
        (''Work out the opposite of '' @ short commit @
         '' and put it in the index, without committing yet.'' @
         (case mainline of
            None \<Rightarrow> []
          | Some m \<Rightarrow> '' Because it is a merge, -m '' @ decimal (uint m) @ '' says which parent to measure the change against.'')),
      new_step revert_commit_argv
        (''Commit that as its own commit. --allow-empty because a revert whose change '' @
         ''is already gone is still a real answer, and the two steps exist precisely so '' @
         ''this one can say so. If the first command reported conflicts, resolve them '' @
         ''before running this, or run `git revert --abort` to unwind.'')]"

definition sequence_export :: "sequence_verb \<Rightarrow> string \<Rightarrow> export" where
  "sequence_export verb what_it_does =
     ChosenAtRunTime
       (''which sequence the repository is in the middle of '' @ em_dash @
        '' git keeps one at a time, and records it as .git/CHERRY_PICK_HEAD or '' @
        ''.git/REVERT_HEAD'')
       [\<lparr>cand_when = ''a cherry-pick is in progress (.git/CHERRY_PICK_HEAD exists)'',
         cand_steps = [new_step (sequence_argv Seq_CherryPick verb)
           (''Tell the in-progress cherry-pick to '' @ what_it_does @ ''.'')]\<rparr>,
        \<lparr>cand_when = ''a revert is in progress (.git/REVERT_HEAD exists)'',
         cand_steps = [new_step (sequence_argv Seq_Revert verb)
           (''Tell the in-progress revert to '' @ what_it_does @ ''.'')]\<rparr>]"

subsection \<open>The arms of \<open>export_operation\<close>\<close>

definition pull_export :: "remote_name \<Rightarrow> branch_name \<Rightarrow> merge_strategy \<Rightarrow> export option" where
  "pull_export remote branch strategy =
     (case tracking_ref remote branch of
        None \<Rightarrow> None
      | Some integration \<Rightarrow>
          Some (Commands
            [new_step (fetch_argv remote)
               (''Download new commits from '' @ lq @ remote @ rq @ '' '' @ em_dash @
                '' nothing moves yet.''),
             (case strategy of
                Strategy_Merge \<Rightarrow> new_step (merge_argv integration)
                  (''Merge the downloaded '' @ lq @ integration @ rq @
                   '' into the checked-out branch, keeping both histories and adding a '' @
                   ''merge commit.'')
              | Strategy_Rebase \<Rightarrow> new_step (rebase_argv integration)
                  (''Replay the checked-out branch's own commits on top of the downloaded '' @
                   lq @ integration @ rq @ ''. Every replayed commit gets a new id.''))]))"

definition push_export :: "branch_name \<Rightarrow> remote_name \<Rightarrow> bool \<Rightarrow> force_publish \<Rightarrow> export" where
  "push_export branch remote set_upstream force =
     Commands [new_step (push_argv branch remote set_upstream force)
       (case force of
          Force_None \<Rightarrow>
            ''Send '' @ lq @ branch @ rq @ '' to '' @ lq @ remote @ rq @
            ''. This leaves the machine '' @ em_dash @
            '' nothing local can recall it once other people have fetched it.''
        | With_Lease tip \<Rightarrow>
            ''Overwrite '' @ lq @ branch @ rq @ '' on '' @ lq @ remote @ rq @
            '', but only if the remote is still where this plan saw it '' @ em_dash @
            '' that is what the lease checks. Commits the remote branch held stop being '' @
            ''referenced there.'')]"

definition create_tag_export :: "tag_name \<Rightarrow> commit_oid \<Rightarrow> tag_annotation option \<Rightarrow> export" where
  "create_tag_export name tgt annotation =
     Commands [new_step (create_tag_argv name tgt annotation)
       (case annotation of
          None \<Rightarrow>
            ''Tag '' @ short tgt @ '' as '' @ lq @ name @ rq @ '' '' @ em_dash @
            '' a lightweight tag, which is just a name for a commit.''
        | Some a \<Rightarrow>
            if ta_sign a
            then ''Tag '' @ short tgt @ '' as '' @ lq @ name @ rq @
                 '' with a signed tag object carrying the message. Signing needs a gpg '' @
                 ''key this shell can reach.''
            else ''Tag '' @ short tgt @ '' as '' @ lq @ name @ rq @
                 '' with an annotated tag object carrying the message.'')]"

definition delete_local_tag_export :: "tag_name \<Rightarrow> export" where
  "delete_local_tag_export name =
     Commands [new_step (delete_local_tag_argv name)
       (''Delete the local tag '' @ lq @ name @ rq @ ''. Any remote copy is untouched.'')]"

definition push_tag_export :: "tag_name \<Rightarrow> remote_name \<Rightarrow> export" where
  "push_tag_export name remote =
     Commands [new_step (push_tag_argv name remote)
       (''Send tag '' @ lq @ name @ rq @ '' to '' @ lq @ remote @ rq @
        ''. The full refs/tags/ path is spelled out so a same-named branch on the '' @
        ''remote cannot be matched instead.'')]"

definition delete_remote_tag_export :: "tag_name \<Rightarrow> remote_name \<Rightarrow> export" where
  "delete_remote_tag_export name remote =
     Commands [new_step (delete_remote_tag_argv name remote)
       (''Delete tag '' @ lq @ name @ rq @ '' on '' @ lq @ remote @ rq @
        ''. The local tag is untouched, and anyone who already fetched the tag still '' @
        ''has it.'')]"

definition push_stash_export :: "string option \<Rightarrow> bool \<Rightarrow> bool \<Rightarrow> export" where
  "push_stash_export msg keep_index include_untracked =
     Commands [new_step (push_stash_argv msg keep_index include_untracked)
       (''Put the working-tree changes aside on the stash'' @
        (if include_untracked then '', including files git is not yet tracking'' else []) @
        (if keep_index then '', leaving the staged version in place'' else []) @ ''.'')]"

definition apply_stash_export :: "stash_selector \<Rightarrow> export" where
  "apply_stash_export entry =
     Commands [new_step (apply_stash_argv entry)
       (''Re-apply the changes held in '' @ entry @
        '' to the working tree. The stash entry stays on the stack.'')]"

definition branch_from_stash_export :: "branch_name \<Rightarrow> stash_selector \<Rightarrow> export" where
  "branch_from_stash_export name entry =
     Commands [new_step (branch_from_stash_argv name entry)
       (''Create branch '' @ lq @ name @ rq @ '' from the commit '' @ entry @
        '' was made on, apply the stashed changes there, and drop the entry if that '' @
        ''succeeds.'')]"

definition drop_stash_export :: "stash_selector \<Rightarrow> export" where
  "drop_stash_export entry =
     Commands [new_step (drop_stash_argv entry)
       (''Discard stash entry '' @ entry @
        ''. Its commit survives in the reflog until git garbage-collects it, and not '' @
        ''after.'')]"

definition resolve_conflict_export :: "worktree_path \<Rightarrow> resolution \<Rightarrow> export" where
  "resolve_conflict_export path r =
     Commands
       (new_step (resolve_conflict_argv path r)
          (case r of
             TakeOurs \<Rightarrow> ''Resolve '' @ path @
                                    '' by keeping this branch's version whole.''
           | TakeTheirs \<Rightarrow> ''Resolve '' @ path @
                                      '' by keeping the incoming version whole.''
           | TakeDeletion \<Rightarrow>
               ''Resolve '' @ path @ '' by removing the file '' @ em_dash @
               '' this stages the removal too.'') #
        (if r = TakeDeletion then []
         else [new_step (stage_resolved_path_argv path)
           (''Mark '' @ path @
            '' resolved. Until this runs the file still counts as conflicted, even '' @
            ''though its contents are now correct.'')]))"

definition discard_tracked_export :: "worktree_path list \<Rightarrow> export" where
  "discard_tracked_export paths =
     Commands [new_step (discard_tracked_argv paths)
       (''Throw away the uncommitted edits to '' @ count_paths (length paths) @
        '' and restore the committed version. Staged and unstaged changes alike '' @ em_dash @
        '' this is not undoable.'')]"

definition delete_untracked_export :: "worktree_path list \<Rightarrow> export" where
  "delete_untracked_export paths =
     Commands [new_step (delete_untracked_argv paths)
       (''Delete '' @ count_paths (length paths) @
        '' that git has never tracked. Git holds no copy, so this is not undoable by '' @
        ''anything.'')]"

definition reset_branch_export :: "branch_name \<Rightarrow> commit_oid \<Rightarrow> export" where
  "reset_branch_export branch tgt =
     ChosenAtRunTime
       (''whether '' @ lq @ branch @ rq @ '' is the branch you currently have checked out'')
       [\<lparr>cand_when = lq @ branch @ rq @ '' IS the checked-out branch'',
         cand_steps = [new_step (move_branch_argv branch tgt)
           (''Move '' @ lq @ branch @ rq @ '' back to '' @ short tgt @
            '' and rewrite the working tree to match. The app refuses this outright if '' @
            ''the working tree is dirty, and so should you '' @ em_dash @
            '' it eats uncommitted work.'')]\<rparr>,
        \<lparr>cand_when = lq @ branch @ rq @ '' is NOT the checked-out branch'',
         cand_steps = [new_step (reset_hard_argv tgt)
           (''Move the branch label '' @ lq @ branch @ rq @ '' back to '' @ short tgt @
            ''. No file is touched.'')]\<rparr>]"

definition sequence_continue_export :: export where
  "sequence_continue_export =
     sequence_export Verb_Continue
       (''carry on with the rest of the sequence now that the conflicts are resolved'')"

definition sequence_skip_export :: export where
  "sequence_skip_export =
     sequence_export Verb_Skip
       (''abandon the commit currently being applied and move to the next one. The '' @
        ''original commit stays in history'')"

definition sequence_abort_export :: export where
  "sequence_abort_export =
     sequence_export Verb_Abort
       (''unwind the whole sequence back to where it started. Every conflict resolution '' @
        ''made so far in it is discarded'')"

definition empty_commit_export :: "branch_name \<Rightarrow> export" where
  "empty_commit_export branch =
     Chained
       (''This writes a commit object with `git commit-tree` and then points '' @ lq @ branch @
        rq @ '' at it with `git update-ref` '' @ em_dash @
        '' and the id to point at is whatever the first command prints. There is no '' @
        ''literal to write down for the second line, so it cannot be a hand-typed '' @
        ''checklist. A generated script can express it with command substitution.'')"

definition stage_selection_export :: export where
  "stage_selection_export =
     NotACommandLine
       (''This stages a hand-picked selection by feeding a patch to `git apply` on '' @
        ''standard input. The patch is the operation's real content and it is not an '' @
        ''argument, so there is no command line to copy '' @ em_dash @
        '' it would need the patch written to a file first.'')"

definition resolve_content_export :: "worktree_path \<Rightarrow> export" where
  "resolve_content_export path =
     NotACommandLine
       (''This resolves '' @ path @
        '' by writing the exact file contents you composed in the editor. Those bytes '' @
        ''are the operation; git is only asked to stage the result afterwards. No '' @
        ''argument list can carry a file's contents.'')"

definition add_worktree_export :: "branch_name \<Rightarrow> export" where
  "add_worktree_export branch =
     NotACommandLine
       (''This opens a second working tree on '' @ lq @ branch @ rq @
        '' inside a folder git-vista owns and names itself, so the path is not '' @
        ''something you chose and is not part of this operation. Printing a command '' @
        ''with a guessed path would create a worktree somewhere else rather than the '' @
        ''one described here. To do it by hand in a folder of your own choosing, the '' @
        ''command is `git worktree add <path> '' @ branch @ ''`.'')"

definition reset_test_repo_export :: export where
  "reset_test_repo_export =
     NotACommandLine
       (''Resetting the built-in demo repository is a program, not a command: it '' @
        ''unbundles a seed, rewrites every ref to match it, forces the working tree '' @
        ''back, and deletes whatever branches the seed does not name. It exists to give '' @
        ''the app a known fixture and has no meaning typed by hand.'')"

definition remove_worktree_export :: export where
  "remove_worktree_export =
     NotACommandLine
       (''This closes a linked worktree addressed by an internal id, resolved to a real '' @
        ''path by this server immediately before it runs. Printing a command with a '' @
        ''guessed path could act on the wrong desk, so none is printed. To do it by '' @
        ''hand, first find the worktree's path with `git worktree list`, then `git '' @
        ''worktree remove <path>` '' @ em_dash @
        '' git itself will refuse if the working tree is not clean.'')"

definition bisect_start_export :: "commit_oid \<Rightarrow> commit_oid list \<Rightarrow> export" where
  "bisect_start_export bad good =
     Commands [new_step (bisect_start_argv bad good)
       (''Start a bisect: bad at '' @ short bad @ '', good at '' @ join '', '' (map short good) @
        ''.'')]"

definition bisect_mark_export :: "bisect_verdict \<Rightarrow> export" where
  "bisect_mark_export verdict =
     Commands [new_step (bisect_mark_argv verdict)
       (''Mark the current candidate as '' @
        (case verdict of
             Verdict_Good \<Rightarrow> ''good''
           | Verdict_Bad \<Rightarrow> ''bad''
           | Verdict_Skip \<Rightarrow> ''skip (untestable)'') @
        ''.'')]"

definition bisect_reset_export :: export where
  "bisect_reset_export =
     Commands [new_step bisect_reset_argv
       (''End the bisect and return to where it started.'')]"

text \<open>\<open>export_operation\<close>: the exhaustive match.\<close>

primrec export_operation :: "git_operation \<Rightarrow> export option" where
  "export_operation (CreateBranch name at) =
     Some (Commands [new_step (create_branch_argv name at)
       (''Create branch '' @ lq @ name @ rq @ '' pointing at commit '' @ short at @ ''.'')])"
| "export_operation (CommitOnHead msg allow_empty) =
     Some (Commands [new_step (commit_on_head_argv msg allow_empty)
       (if allow_empty
        then ''Commit the staged changes, allowing a commit that changes nothing.''
        else ''Commit the staged changes on the checked-out branch.'')])"
| "export_operation (AmendCommit msg expected_tip allow_empty) =
     Some (Commands [new_step (amend_commit_argv msg allow_empty)
       (''Replace the tip commit '' @ short expected_tip @
        '' with a new one carrying this message. The old commit stays in the reflog.'')])"
| "export_operation StageAll =
     Some (Commands [new_step stage_all_argv
       (''Stage every change in the working tree, including new files.'')])"
| "export_operation UnstageAll =
     Some (Commands [new_step unstage_all_argv
       (''Unstage everything. Every edit stays in the working tree.'')])"
| "export_operation (CheckoutBranch branch) =
     Some (Commands [new_step (checkout_argv branch)
       (''Switch to branch '' @ lq @ branch @ rq @
        ''. Git refuses this itself if it would overwrite uncommitted work.'')])"
| "export_operation (MergeBranch branch) =
     Some (Commands [new_step (merge_argv (ref_of_branch branch))
       (''Merge '' @ lq @ branch @ rq @
        '' into the checked-out branch, taking git's own merge message rather than '' @
        ''opening an editor.'')])"
| "export_operation (DeleteBranch branch) =
     Some (Commands [new_step (delete_branch_argv branch False)
       (''Delete branch '' @ lq @ branch @ rq @
        ''. The lower-case -d is the safe one: git refuses if the branch holds commits '' @
        ''that are nowhere else.'')])"
| "export_operation (ForceDeleteBranch branch) =
     Some (Commands [new_step (delete_branch_argv branch True)
       (''Delete branch '' @ lq @ branch @ rq @
        '' even though it holds commits that are nowhere else. Those commits become '' @
        ''unreachable '' @ em_dash @
        '' recoverable from the reflog until git garbage-collects them, and not after.'')])"
| "export_operation (RebaseOntoBase base) =
     Some (Commands [new_step (rebase_argv base)
       (''Replay the checked-out branch's commits on top of '' @ lq @ base @ rq @
        ''. Every replayed commit gets a new id.'')])"
| "export_operation (RestoreBranch name tip) =
     Some (Commands [new_step (create_branch_argv name tip)
       (''Re-create the deleted branch '' @ lq @ name @ rq @ '' at '' @ short tip @
        '', the tip it had when it was deleted.'')])"
| "export_operation (CherryPick commit) =
     Some (Commands [new_step (cherry_pick_argv commit None)
       (''Apply '' @ short commit @ [CHR 0x27] @
        ''s changes to the checked-out branch as a new commit.'')])"
| "export_operation (CherryPickMerge commit mainline) =
     Some (Commands [new_step (cherry_pick_argv commit (Some mainline))
       (''Apply merge commit '' @ short commit @ [CHR 0x27] @
        ''s changes as a new commit, measuring them against parent '' @ decimal (uint mainline) @
        '' '' @ em_dash @ '' that is what -m picks.'')])"
| "export_operation (RevertCommit commit) = Some (Commands (revert_steps commit None))"
| "export_operation (RevertMerge commit mainline) = Some (Commands (revert_steps commit (Some mainline)))"
| "export_operation (FetchRemote remote) =
     Some (Commands [new_step (fetch_argv remote)
       (''Download new commits from '' @ lq @ remote @ rq @
        ''. Nothing in the working tree or on any local branch moves.'')])"
| "export_operation (PullBranch remote branch strategy) = pull_export remote branch strategy"
| "export_operation (PushBranch branch remote set_upstream force) =
     Some (push_export branch remote set_upstream force)"
| "export_operation (CreateTag name tgt annotation) = Some (create_tag_export name tgt annotation)"
| "export_operation (DeleteLocalTag name) = Some (delete_local_tag_export name)"
| "export_operation (PushTag name remote) = Some (push_tag_export name remote)"
| "export_operation (DeleteRemoteTag name remote) = Some (delete_remote_tag_export name remote)"
| "export_operation (PushStash msg keep_index include_untracked) =
     Some (push_stash_export msg keep_index include_untracked)"
| "export_operation (ApplyStash entry expected_oid) = Some (apply_stash_export entry)"
| "export_operation (BranchFromStash name entry expected_oid) = Some (branch_from_stash_export name entry)"
| "export_operation (DropStash entry expected_oid) = Some (drop_stash_export entry)"
| "export_operation (ResolveConflict path r) = Some (resolve_conflict_export path r)"
| "export_operation (DiscardTrackedPaths paths) = Some (discard_tracked_export paths)"
| "export_operation (DeleteUntrackedPaths paths) = Some (delete_untracked_export paths)"
| "export_operation (ResetBranch branch tgt expected_tip) = Some (reset_branch_export branch tgt)"
| "export_operation SequenceContinue = Some sequence_continue_export"
| "export_operation SequenceSkip = Some sequence_skip_export"
| "export_operation SequenceAbort = Some sequence_abort_export"
| "export_operation (EmptyCommitOnBranch branch msg expected_tip) = Some (empty_commit_export branch)"
| "export_operation (StageSelection direction generation patch whole_files) = Some stage_selection_export"
| "export_operation (ResolveConflictContent path stages source content) = Some (resolve_content_export path)"
| "export_operation (AddWorktree name branch) = Some (add_worktree_export branch)"
| "export_operation ResetTestRepo = Some reset_test_repo_export"
| "export_operation (RemoveWorktree sibling) = Some remove_worktree_export"
| "export_operation (BisectStart bad good) = Some (bisect_start_export bad good)"
| "export_operation (BisectMark verdict) = Some (bisect_mark_export verdict)"
| "export_operation BisectReset = Some bisect_reset_export"

lemmas export_arms = pull_export_def push_export_def create_tag_export_def delete_local_tag_export_def
  push_tag_export_def delete_remote_tag_export_def push_stash_export_def apply_stash_export_def
  branch_from_stash_export_def drop_stash_export_def resolve_conflict_export_def
  discard_tracked_export_def delete_untracked_export_def reset_branch_export_def
  sequence_continue_export_def sequence_skip_export_def sequence_abort_export_def sequence_export_def
  empty_commit_export_def stage_selection_export_def resolve_content_export_def add_worktree_export_def
  reset_test_repo_export_def remove_worktree_export_def bisect_start_export_def bisect_mark_export_def
  bisect_reset_export_def revert_steps_def

subsection \<open>The export against the other classifiers\<close>

primrec steps_of :: "export \<Rightarrow> step list" where
  "steps_of (Commands steps) = steps"
| "steps_of (ChosenAtRunTime decided_by candidates) = concat (map cand_steps candidates)"
| "steps_of (Chained why) = []"
| "steps_of (NotACommandLine why) = []"

text \<open>
  The words of an argument list that git reads as options: everything that starts with a dash, up
  to \<open>--\<close>, except the value that follows \<open>-m\<close>.
\<close>

fun option_words :: "argv \<Rightarrow> argv" where
  "option_words [] = []"
| "option_words [a] = (if plain_arg a \<or> a = ''--'' then [] else [a])"
| "option_words (a # b # rest) =
     (if a = ''--'' then []
      else if a = ''-m'' then a # option_words rest
      else if plain_arg a then option_words (b # rest)
      else a # option_words (b # rest))"

definition own_flags :: "string set" where
  "own_flags = {''--allow-empty'', ''--amend'', ''-A'', ''-q'', ''--no-edit'', ''-D'', ''-d'', ''-m'',
     ''--no-commit'', ''--progress'', ''--set-upstream'', ''-s'', ''-a'', ''--delete'', ''--keep-index'',
     ''--include-untracked'', ''--hard'', ''-f'', ''--continue'', ''--skip'', ''--abort'', ''--ours'',
     ''--theirs''}"

definition own_option :: "string \<Rightarrow> bool" where
  "own_option a \<longleftrightarrow> a \<in> own_flags \<or> starts_with ''--force-with-lease='' a"

lemma own_flags_own [simp]:
  "own_option ''--allow-empty''" "own_option ''--amend''" "own_option ''-A''" "own_option ''-q''"
  "own_option ''--no-edit''" "own_option ''-D''" "own_option ''-d''" "own_option ''-m''"
  "own_option ''--no-commit''" "own_option ''--progress''" "own_option ''--set-upstream''"
  "own_option ''-s''" "own_option ''-a''" "own_option ''--delete''" "own_option ''--keep-index''"
  "own_option ''--include-untracked''" "own_option ''--hard''" "own_option ''-f''"
  "own_option ''--continue''" "own_option ''--skip''" "own_option ''--abort''" "own_option ''--ours''"
  "own_option ''--theirs''"
  by (simp_all add: own_option_def own_flags_def)

lemma own_option_lease0: "own_option (''--force-with-lease='' @ s)"
  unfolding own_option_def starts_with_iff by blast

lemmas own_option_lease [simp] = own_option_lease0[unfolded append.simps]

lemma option_words_Cons:
  "option_words (a # rest) =
     (if a = ''--'' then []
      else if a = ''-m'' then a # option_words (tl rest)
      else if plain_arg a then option_words rest
      else a # option_words rest)"
  by (cases rest) auto

lemma option_words_plain: "list_all plain_arg as \<Longrightarrow> option_words as = []"
proof (induction as)
  case (Cons a as)
  then have "plain_arg a" "a \<noteq> ''--''" "a \<noteq> ''-m''" by auto
  with Cons show ?case by (simp add: option_words_Cons)
qed simp

declare option_words.simps(2,3) [simp del]

lemma pred_option_iff: "pred_option P x \<longleftrightarrow> (case x of None \<Rightarrow> True | Some y \<Rightarrow> P y)"
  by (cases x) auto

lemma list_all_mono': "list_all P xs \<Longrightarrow> (\<And>x. P x \<Longrightarrow> Q x) \<Longrightarrow> list_all Q xs"
  by (simp add: list_all_iff)

lemma plain_not_dashes: "plain_arg a \<Longrightarrow> (a = ''--'') = False" "plain_arg a \<Longrightarrow> (a = ''-m'') = False"
  by auto

lemmas plain_simps = valid_plain valid_selector_plain plain_not_dashes option_words_Cons

lemma export_safe:
  assumes "wf_operation op"
  shows "\<exists>e. export_operation op = Some e \<and>
    list_all (\<lambda>s. list_all own_option (option_words (tl (st_argv s)))) (steps_of e)"
  using assms
proof (cases op)
  case (PullBranch remote branch strategy)
  with assms have v: "is_valid remote_name_new remote" "plain_arg remote" by (auto intro: valid_plain)
  show ?thesis
    using tracking_ref_some[OF v(1), of branch] v(2) plain_not_dashes
    by (cases strategy) (auto simp: PullBranch pull_export_def new_step_def argv_defs option_words_Cons)
next
  case (BisectStart bad good)
  with assms have "list_all plain_arg (bad # good)"
    by (auto elim: list_all_mono' intro: valid_plain)
  from option_words_plain[OF this] show ?thesis
    by (simp add: BisectStart bisect_start_export_def new_step_def argv_defs option_words_Cons)
qed (auto simp: export_arms new_step_def argv_defs plain_simps ref_of_branch_def pred_option_iff
       split: option.splits force_publish.splits resolution.splits bisect_verdict.splits)

text \<open>
  C20: no exported command line can be steered by the data of the plan: for every operation made of
  validated values the export never panics, and in every step it prints, each word that git would
  read as an option is one of the flags the builders write themselves (or the lease of a forced
  push); a branch, tag, remote, path, commit or stash entry is never taken for an option.
\<close>

theorem no_option_injection:
  assumes "wf_operation op"
  shows "\<exists>e. export_operation op = Some e \<and>
    (\<forall>s \<in> set (steps_of e). \<forall>w \<in> set (option_words (tl (st_argv s))). own_option w)"
  using export_safe[OF assms] by (simp add: list_all_iff)

lemma no_option_injection_witness:
  "\<exists>e. export_operation (PushBranch ''main'' ''origin'' True Force_None) = Some e \<and>
    (\<forall>s \<in> set (steps_of e). \<forall>w \<in> set (option_words (tl (st_argv s))). own_option w)"
  by (rule no_option_injection) code_simp

definition talks_to_remote :: "argv \<Rightarrow> bool" where
  "talks_to_remote a \<longleftrightarrow> a \<noteq> [] \<and> hd a \<in> {''push'', ''fetch''}"

text \<open>
  The network classifier that chooses the sandbox tier agrees with the command lines: an
  operation is classified as remote exactly when one of the commands printed for it is a push or a
  fetch.
\<close>

theorem network_need_matches_argv:
  assumes "export_operation op = Some e"
  shows "network_need_for_operation op = Net_Remote \<longleftrightarrow> (\<exists>s \<in> set (steps_of e). talks_to_remote (st_argv s))"
  using assms
  by (cases op)
    (auto simp: export_arms new_step_def argv_defs talks_to_remote_def
      split: option.splits force_publish.splits resolution.splits bisect_verdict.splits if_splits)

lemma network_need_matches_argv_witness:
  "(network_need_for_operation (FetchRemote ''origin'') = Net_Remote) \<and>
   (\<exists>e. export_operation (FetchRemote ''origin'') = Some e \<and> (\<exists>s \<in> set (steps_of e). talks_to_remote (st_argv s)))"
proof -
  obtain e where e: "export_operation (FetchRemote ''origin'') = Some e" by simp
  have "network_need_for_operation (FetchRemote ''origin'') = Net_Remote" by simp
  with network_need_matches_argv[OF e] e show ?thesis by blast
qed

text \<open>The commands of git that write files of the working tree they run in.\<close>

definition writes_files :: "argv \<Rightarrow> bool" where
  "writes_files a \<longleftrightarrow>
     (case a of
        [] \<Rightarrow> False
      | c # rest \<Rightarrow>
          c \<in> {''checkout'', ''merge'', ''rebase'', ''cherry-pick'', ''revert'', ''clean'', ''rm'', ''bisect''} \<or>
          (c = ''stash'' \<and> rest \<noteq> [] \<and> hd rest \<in> {''push'', ''apply'', ''branch''}) \<or>
          (c = ''reset'' \<and> ''--hard'' \<in> set rest))"

text \<open>
  The working-tree classifier agrees with the command lines: for an operation that is a list
  of commands it says "untouched" exactly when none of them writes a file, and it says "removed" only
  for the one operation whose command is a clean.
\<close>

theorem worktree_effect_matches_argv:
  assumes "export_operation op = Some (Commands steps)"
  shows "(worktree_effect op = Wt_Untouched \<longleftrightarrow> (\<forall>s \<in> set steps. \<not> writes_files (st_argv s))) \<and>
    (worktree_effect op = Wt_FilesRemoved \<longleftrightarrow> (\<exists>s \<in> set steps. hd (st_argv s) = ''clean''))"
  using assms
  by (cases op)
    (auto simp: export_arms new_step_def argv_defs writes_files_def
      split: option.splits force_publish.splits resolution.splits bisect_verdict.splits
        merge_strategy.splits if_splits)

lemma worktree_effect_matches_argv_witness:
  "\<exists>steps. export_operation (MergeBranch ''topic'') = Some (Commands steps) \<and>
     (\<exists>s \<in> set steps. writes_files (st_argv s))"
proof -
  obtain steps where e: "export_operation (MergeBranch ''topic'') = Some (Commands steps)" by simp
  have "worktree_effect (MergeBranch ''topic'') \<noteq> Wt_Untouched" by simp
  with worktree_effect_matches_argv[OF e] e show ?thesis by blast
qed

end
