(* ===== verification/Plan_Render.thy ===== *)
theory Plan_Render imports Plan_Export begin

text \<open>
  The renderings of \<open>crates/git-vista-protocol/src/plan_export.rs\<close>: one step as a command line for
  POSIX shells and for fish, the wrapped sentences, the printable checklist and the fish script.
  The shells are not part of the program: what the development relies on about them is the
  documented quoting rules, stated as predicates on a word splitter (\<open>posix_shell\<close>,
  \<open>fish_shell\<close>) that concrete splitters are shown to satisfy.
\<close>

datatype rendered = Portable string | ShellSpecific string string

primrec for_fish :: "rendered \<Rightarrow> string" where
  "for_fish (Portable line) = line"
| "for_fish (ShellSpecific posix fish) = fish"

primrec for_posix :: "rendered \<Rightarrow> string" where
  "for_posix (Portable line) = line"
| "for_posix (ShellSpecific posix fish) = posix"

definition safe_char :: "char \<Rightarrow> bool" where
  "safe_char c \<longleftrightarrow> ascii_alphanumeric c \<or>
     c \<in> {CHR ''_'', CHR ''-'', CHR ''.'', CHR ''/'', CHR ''='', CHR '':'', CHR ''@'', CHR 0x5E,
          CHR ''{'', CHR ''}'', CHR '',''}"

definition is_shell_safe :: "string \<Rightarrow> bool" where
  "is_shell_safe arg \<longleftrightarrow> arg \<noteq> [] \<and> list_all safe_char arg"

abbreviation squote :: char where "squote \<equiv> CHR 0x27"
abbreviation backslash :: char where "backslash \<equiv> CHR 0x5C"

text \<open>\<open>str::replace\<close> of one character.\<close>

definition replace_char :: "char \<Rightarrow> string \<Rightarrow> string \<Rightarrow> string" where
  "replace_char c by_text s = concat (map (\<lambda>d. if d = c then by_text else [d]) s)"

text \<open>One turn of the loop of \<open>render\<close>: whether the line is still portable, and both spellings.\<close>

definition render_arg :: "string \<Rightarrow> bool \<times> string \<times> string \<Rightarrow> bool \<times> string \<times> string" where
  "render_arg arg st =
     (case st of (portable, posix, fish) \<Rightarrow>
        let posix = posix @ '' ''; fish = fish @ '' ''
        in if is_shell_safe arg then (portable, posix @ arg, fish @ arg)
           else if squote \<in> set arg
           then (False,
                 posix @ [squote] @ replace_char squote [squote, backslash, squote, squote] arg @ [squote],
                 fish @ [squote] @ replace_char squote [backslash, squote] arg @ [squote])
           else (portable, posix @ [squote] @ arg @ [squote], fish @ [squote] @ arg @ [squote]))"

definition render :: "step \<Rightarrow> rendered" where
  "render step =
     (case fold render_arg (st_argv step) (True, ''git'', ''git'') of
        (portable, posix, fish) \<Rightarrow> if portable then Portable posix else ShellSpecific posix fish)"

subsection \<open>Wrapped text\<close>

text \<open>\<open>str::lines\<close>.\<close>

definition strip_cr :: "string \<Rightarrow> string" where
  "strip_cr l = (case strip_suffix [CHR 0x0D] l of Some l' \<Rightarrow> l' | None \<Rightarrow> l)"

definition str_lines :: "string \<Rightarrow> string list" where
  "str_lines s =
     (let ps = split_on newline_char s
      in map strip_cr (butlast ps) @ (if last ps = [] then [] else [last ps]))"

text \<open>One word of \<open>wrapped\<close>; the state is the text so far and the column.\<close>

definition wrap_word :: "string \<Rightarrow> string \<times> nat \<Rightarrow> string \<times> nat" where
  "wrap_word w st =
     (case st of (out, column) \<Rightarrow>
        let width = char_count w
        in if 0 < column \<and> 76 < column + 1 + width then (out @ nl @ w, width)
           else if 0 < column then (out @ '' '' @ w, column + 1 + width)
           else (out @ w, width))"

definition wrap_paragraph :: "string \<Rightarrow> string" where
  "wrap_paragraph p = fst (fold wrap_word (split_whitespace p) ([], 0)) @ nl"

definition wrapped :: "string \<Rightarrow> string" where
  "wrapped s = concat (map wrap_paragraph (split_on newline_char s))"

definition format_step :: "nat \<Rightarrow> step \<Rightarrow> string" where
  "format_step n step =
     (case render step of
        Portable line \<Rightarrow> ''  '' @ decimal (int n) @ ''. '' @ line @ nl
      | ShellSpecific posix fish \<Rightarrow>
          ''  '' @ decimal (int n) @ ''. (this one is spelled differently per shell '' @ em_dash @
          nl @
          ''      an argument contains a single quote)'' @ nl @
          ''      fish:      '' @ fish @ nl @
          ''      sh / bash: '' @ posix @ nl) @
     concat (map (\<lambda>line. ''      '' @ line @ nl) (str_lines (wrapped (st_why step)))) @
     ''      [ ] done'' @ nl @ nl"

subsection \<open>The checklist\<close>

primrec operation_name :: "git_operation \<Rightarrow> string" where
  "operation_name (CreateBranch x1 x2) = ''create a branch''"
| "operation_name (CommitOnHead x1 x2) = ''commit''"
| "operation_name (EmptyCommitOnBranch x1 x2 x3) = ''empty commit on another branch''"
| "operation_name StageAll = ''stage everything''"
| "operation_name UnstageAll = ''unstage everything''"
| "operation_name (CheckoutBranch x1) = ''switch branch''"
| "operation_name (AddWorktree x1 x2) = ''open a second desk (add a worktree)''"
| "operation_name (MergeBranch x1) = ''merge a branch''"
| "operation_name (PushBranch x1 x2 x3 x4) = ''push a branch''"
| "operation_name (ResolveConflict x1 x2) = ''resolve a conflict by taking a side''"
| "operation_name (ResolveConflictContent x1 x2 x3 x4) = ''resolve a conflict with edited content''"
| "operation_name (DeleteBranch x1) = ''delete a branch (safe)''"
| "operation_name (ForceDeleteBranch x1) = ''force-delete a branch''"
| "operation_name (RebaseOntoBase x1) = ''rebase''"
| "operation_name (RestoreBranch x1 x2) = ''restore a deleted branch''"
| "operation_name (ResetBranch x1 x2 x3) = ''move a branch back (undo)''"
| "operation_name SequenceContinue = ''continue the sequence in progress''"
| "operation_name SequenceSkip = ''skip this commit in the sequence''"
| "operation_name SequenceAbort = ''abort the sequence in progress''"
| "operation_name (CherryPick x1) = ''cherry-pick a commit''"
| "operation_name (CherryPickMerge x1 x2) = ''cherry-pick a merge commit''"
| "operation_name (RevertCommit x1) = ''revert a commit''"
| "operation_name (RevertMerge x1 x2) = ''revert a merge commit''"
| "operation_name ResetTestRepo = ''reset the demo repository''"
| "operation_name (StageSelection x1 x2 x3 x4) = ''stage a hand-picked selection''"
| "operation_name (DiscardTrackedPaths x1) = ''discard changes to tracked files''"
| "operation_name (DeleteUntrackedPaths x1) = ''delete untracked files''"
| "operation_name (RemoveWorktree x1) = ''remove a linked worktree''"
| "operation_name (BisectStart x1 x2) = ''start a bisect''"
| "operation_name (BisectMark x1) = ''mark the bisect candidate''"
| "operation_name BisectReset = ''end the bisect''"
| "operation_name (AmendCommit x1 x2 x3) = ''amend the last commit''"
| "operation_name (FetchRemote x1) = ''fetch from a remote''"
| "operation_name (PullBranch x1 x2 x3) = ''pull''"
| "operation_name (CreateTag x1 x2 x3) = ''create a tag''"
| "operation_name (DeleteLocalTag x1) = ''delete a local tag''"
| "operation_name (DeleteRemoteTag x1 x2) = ''delete a tag on the remote''"
| "operation_name (PushTag x1 x2) = ''push a tag''"
| "operation_name (PushStash x1 x2 x3) = ''stash changes''"
| "operation_name (ApplyStash x1 x2) = ''apply a stash entry''"
| "operation_name (BranchFromStash x1 x2 x3) = ''branch from a stash entry''"
| "operation_name (DropStash x1 x2) = ''drop a stash entry''"

primrec risk_word :: "risk_level \<Rightarrow> string" where
  "risk_word Risk_Safe = ''safe '' @ em_dash @ '' nothing can be lost''"
| "risk_word Risk_Reversible = ''reversible '' @ em_dash @ '' the app records how to undo this''"
| "risk_word Risk_Destructive = ''DESTRUCTIVE '' @ em_dash @
                                '' something can become unreachable''"
| "risk_word Risk_Remote = ''remote '' @ em_dash @
                           '' this leaves your machine and cannot be recalled''"

primrec describe_precondition :: "precondition \<Rightarrow> string" where
  "describe_precondition (RefAt ref_name oid) =
     lq @ ref_name @ rq @ '' is still at '' @ short oid @ '' '' @ em_dash @
     '' check with `git rev-parse '' @ ref_name @ ''`''"
| "describe_precondition (RefExists ref_name) = lq @ ref_name @ rq @ '' exists''"
| "describe_precondition (RefAbsent ref_name) = lq @ ref_name @ rq @ '' does NOT exist yet''"
| "describe_precondition (BranchCheckedOut branch) = lq @ branch @ rq @
                                                     '' is the checked-out branch''"
| "describe_precondition (BranchNotCheckedOut branch) = lq @ branch @ rq @
                                                        '' is NOT the checked-out branch''"
| "describe_precondition CleanWorktree =
     ''the working tree has no uncommitted changes '' @ em_dash @ '' check with `git status`''"
| "describe_precondition (RemoteConfigured remote) =
     ''a remote named '' @ lq @ remote @ rq @ '' is configured '' @ em_dash @
     '' check with `git remote`''"
| "describe_precondition SeedRecorded = ''the demo repository's seed state has been '' @
                                        ''recorded''"
| "describe_precondition (BranchFreeInEveryOtherWorktree branch) =
     ''no OTHER worktree of this repository has '' @ lq @ branch @ rq @ '' checked out '' @
     em_dash @ '' check with `git worktree list`''"

primrec describe_recovery :: "recovery_strategy \<Rightarrow> string" where
  "describe_recovery Rec_NotNeeded = ''Nothing is lost by this, so there is nothing to '' @
                                     ''recover.''"
| "describe_recovery (Rec_ResetRef ref_name to_oid) =
     ''The way back is to put '' @ lq @ ref_name @ rq @ '' back at '' @ short to_oid @
     '', which is where it is now. Write that id down before you start '' @ em_dash @
     '' after the fact, `git reflog` is where it lives, and the reflog is local and '' @
     ''expires.''"
| "describe_recovery (Rec_RecreateBranch name at) =
     ''The way back is to re-create branch '' @ lq @ name @ rq @ '' at '' @ short at @
     ''. Write that id down before you start: once the branch is gone, the reflog is '' @
     ''the only thing still naming it, and it expires.''"
| "describe_recovery (Rec_DeleteCreatedBranch name) =
     ''This creates branch '' @ lq @ name @ rq @
     ''. The way back is to delete it again; nothing else is touched.''"
| "describe_recovery (Rec_RecreateTag name at) =
     ''The way back is to re-create tag '' @ lq @ name @ rq @ '' at '' @ short at @ ''.''"
| "describe_recovery (Rec_DeleteCreatedTag name) =
     ''This creates tag '' @ lq @ name @ rq @ ''. The way back is to delete it again.''"
| "describe_recovery (Rec_RecreateStashEntry at msg) =
     ''The way back is to re-create the stash entry from commit '' @ short at @
     (case msg of
        Some m \<Rightarrow> '' (it was labelled '' @ ldq @ m @ rdq @ '')''
      | None \<Rightarrow> []) @
     ''. A dropped stash commit survives until git garbage-collects it, and not after.''"
| "describe_recovery (Rec_CheckoutPrevious branch) =
     ''The way back is to switch to '' @ lq @ branch @ rq @ '' again '' @ em_dash @
     '' the branch you are on now.''"
| "describe_recovery (Rec_RevertCommit commit) =
     ''The way back is to revert '' @ short commit @
     '', which adds a commit undoing it rather than removing it from history.''"
| "describe_recovery Rec_RecoverableIfStaged =
     ''Changes that were STAGED survive as dangling objects until git garbage-collects '' @
     ''them, so they can be dug out with `git fsck --unreachable`. Changes that were '' @
     ''never staged are gone: git never had a copy.''"
| "describe_recovery Rec_ConflictRecreatableWhileInProgress =
     ''While the operation that produced the conflict is still in progress, the '' @
     ''conflicted state can be re-created '' @ em_dash @
     '' the three sides are still in the index. Once the sequence is finished or '' @
     ''aborted, it cannot.''"
| "describe_recovery Rec_Irrecoverable =
     ''Nothing can undo this. The effect leaves this machine, or it destroys the only '' @
     ''copy. Be sure before you run it.''"
| "describe_recovery Rec_BisectReset =
     ''The way back is `git bisect reset`, which returns to where the bisect started '' @
     ''and clears its state '' @ em_dash @
     '' a plain ref move cannot do either, since the bisect may need to reattach a branch.''"

definition show_i64 :: "int \<Rightarrow> string" where
  "show_i64 n = (if n < 0 then CHR ''-'' # decimal (- n) else decimal n)"

definition format_steps :: "step list \<Rightarrow> string" where
  "format_steps steps = concat (map (\<lambda>(i, s). format_step (i + 1) s) (enumerate 0 steps))"

definition checklist_header :: "plan \<Rightarrow> string" where
  "checklist_header p =
     ''GIT-VISTA '' @ em_dash @ '' PLAN CHECKLIST'' @ nl @
     ''=========================='' @ nl @ nl @
     ''Operation:   '' @ operation_name (pl_operation p) @ nl @
     ''Risk:        '' @ risk_word (pl_risk p) @ nl @
     ''Generation:  '' @ pl_generation p @ nl @
     ''Issued:      '' @ show_i64 (pl_issued_at p) @ '' (unix seconds)'' @ nl @
     ''App expiry:  '' @ show_i64 (pl_expires_at p) @ '' (unix seconds)'' @ nl @ nl @
     ''This is a printout. The expiry and the generation above are what the APP'' @ nl @
     ''checks before it will run this plan itself '' @ em_dash @
     '' they cannot stop a command you'' @ nl @
     ''type by hand. If the repository has moved on since this was printed, these'' @ nl @
     ''commands may do something other than what they say. Re-generate rather than'' @ nl @
     ''guessing.'' @ nl @ nl @
     (if pl_preconditions p = [] then []
      else ''CHECK FIRST '' @ em_dash @ '' the app refuses the plan unless all of these hold:'' @
           nl @
        concat (map (\<lambda>c. ''  [ ] '' @ describe_precondition c @ nl) (pl_preconditions p)) @
        ''or exit $status'' @ nl @ nl)"

primrec checklist_body :: "export \<Rightarrow> string" where
  "checklist_body (Commands steps) =
     ''COMMANDS '' @ em_dash @ '' in this order:'' @ nl @ nl @ format_steps steps"
| "checklist_body (ChosenAtRunTime decided_by candidates) =
     ''THIS ONE DEPENDS ON THE REPOSITORY '' @ em_dash @ '' read before typing.'' @ nl @ nl @
     ''The app picks the command when it runs, from '' @ decided_by @ ''.'' @ nl @
     ''No single command line is printed here because the wrong one would be'' @ nl @
     ''a real command that does the wrong thing. Check the condition, then use'' @ nl @
     ''the matching block.'' @ nl @ nl @
     concat (map (\<lambda>c. ''IF '' @ cand_when c @ '':'' @ nl @ nl @ format_steps (cand_steps c)) candidates)"
| "checklist_body (Chained why) = ''NOT A HAND-TYPED CHECKLIST'' @ nl @ nl @ wrapped why @ nl"
| "checklist_body (NotACommandLine why) = ''NOT A COMMAND LINE'' @ nl @ nl @ wrapped why @ nl"

definition checklist :: "plan \<Rightarrow> string option" where
  "checklist p =
     map_option
       (\<lambda>e. checklist_header p @ checklist_body e @ nl @ ''RECOVERY'' @ nl @ nl @
          wrapped (describe_recovery (pl_recovery p)))
       (export_operation (pl_operation p))"

subsection \<open>The fish script\<close>

definition script_header :: "plan \<Rightarrow> string" where
  "script_header p =
     ''#!/usr/bin/env fish'' @ nl @
     ''# git-vista plan export'' @ nl @
     ''# Shell: fish (this file is not POSIX sh or bash)'' @ nl @
     ''# Fail-fast: each command exits immediately with its own non-zero status.'' @ nl @
     ''# Generation: '' @ pl_generation p @ nl @
     ''# App expiry: '' @ show_i64 (pl_expires_at p) @ '' (unix seconds)'' @ nl @
     ''# Re-generate if the repository has moved since this plan was built.'' @ nl @ nl"

definition script_step :: "nat \<times> step \<Rightarrow> string" where
  "script_step ist =
     (case ist of (i, s) \<Rightarrow>
        ''# Step '' @ decimal (int (i + 1)) @ '': '' @ join '' '' (split_whitespace (st_why s)) @
        nl @
        for_fish (render s) @ nl @ ''or exit $status'' @ nl @ nl)"

text \<open>The reason a plan has no script is \<open>ScriptUnavailable\<close>.\<close>

definition fish_script :: "plan \<Rightarrow> (string + string) option" where
  "fish_script p =
     map_option
       (\<lambda>e. case e of
          Commands steps \<Rightarrow> Inr (script_header p @ concat (map script_step (enumerate 0 steps)))
        | ChosenAtRunTime decided_by candidates \<Rightarrow>
            Inl (''the executor chooses this operation's argv at run time from '' @ decided_by)
        | Chained why \<Rightarrow> Inl why
        | NotACommandLine why \<Rightarrow> Inl why)
       (export_operation (pl_operation p))"

end
