(* ===== verification/Shell_Words.thy ===== *)
theory Shell_Words imports Plan_Render begin

text \<open>
  What the rendered command lines mean to a shell. The two predicates state the quoting rules of the
  POSIX shell and of fish on the words the renderer can write; \<open>sh_lex\<close> and \<open>fish_lex\<close> are
  concrete word splitters that satisfy them.
\<close>

subsection \<open>Quoting rules\<close>

datatype posix_seg = Bare string | Quoted string | Escaped_quote

fun posix_spell :: "posix_seg \<Rightarrow> string" where
  "posix_spell (Bare s) = s"
| "posix_spell (Quoted s) = [squote] @ s @ [squote]"
| "posix_spell Escaped_quote = [backslash, squote]"

fun posix_meaning :: "posix_seg \<Rightarrow> string" where
  "posix_meaning (Bare s) = s"
| "posix_meaning (Quoted s) = s"
| "posix_meaning Escaped_quote = [squote]"

fun posix_ok :: "posix_seg \<Rightarrow> bool" where
  "posix_ok (Bare s) \<longleftrightarrow> s \<noteq> [] \<and> list_all safe_char s"
| "posix_ok (Quoted s) \<longleftrightarrow> squote \<notin> set s \<and> CHR 0x00 \<notin> set s"
| "posix_ok Escaped_quote \<longleftrightarrow> True"

text \<open>
  POSIX.1-2017, Shell Command Language 2.2 and 2.3: after the command word, blanks separate words; a
  word is a sequence of unquoted characters, single-quoted strings, in which every character stands
  for itself, and backslash-quoted characters.
\<close>

definition posix_shell :: "(string \<Rightarrow> string list option) \<Rightarrow> bool" where
  "posix_shell splits \<longleftrightarrow>
     (\<forall>ws. list_all (\<lambda>w. w \<noteq> [] \<and> list_all posix_ok w) ws \<longrightarrow>
        splits (''git'' @ concat (map (\<lambda>w. '' '' @ concat (map posix_spell w)) ws)) =
          Some (''git'' # map (\<lambda>w. concat (map posix_meaning w)) ws))"

datatype fish_item = Lit char | Esc_quote | Esc_backslash

fun fish_item_spell :: "fish_item \<Rightarrow> string" where
  "fish_item_spell (Lit c) = [c]"
| "fish_item_spell Esc_quote = [backslash, squote]"
| "fish_item_spell Esc_backslash = [backslash, backslash]"

fun fish_item_meaning :: "fish_item \<Rightarrow> char" where
  "fish_item_meaning (Lit c) = c"
| "fish_item_meaning Esc_quote = squote"
| "fish_item_meaning Esc_backslash = backslash"

fun fish_item_ok :: "fish_item \<Rightarrow> bool" where
  "fish_item_ok (Lit c) \<longleftrightarrow> c \<noteq> squote \<and> c \<noteq> backslash \<and> c \<noteq> CHR 0x00"
| "fish_item_ok Esc_quote \<longleftrightarrow> True"
| "fish_item_ok Esc_backslash \<longleftrightarrow> True"

datatype fish_word = Fish_bare string | Fish_quoted "fish_item list"

fun fish_spell :: "fish_word \<Rightarrow> string" where
  "fish_spell (Fish_bare s) = s"
| "fish_spell (Fish_quoted xs) = [squote] @ concat (map fish_item_spell xs) @ [squote]"

fun fish_meaning :: "fish_word \<Rightarrow> string" where
  "fish_meaning (Fish_bare s) = s"
| "fish_meaning (Fish_quoted xs) = map fish_item_meaning xs"

fun fish_ok :: "fish_word \<Rightarrow> bool" where
  "fish_ok (Fish_bare s) \<longleftrightarrow> s \<noteq> [] \<and> list_all safe_char s \<and> CHR '','' \<notin> set s"
| "fish_ok (Fish_quoted xs) \<longleftrightarrow> list_all fish_item_ok xs"

text \<open>
  The fish language, "Quotes" and "Brace expansion": between single quotes the only escape sequences
  are the quote and the backslash, each after a backslash; braces are literal unless a comma stands
  between them.
\<close>

definition fish_shell :: "(string \<Rightarrow> string list option) \<Rightarrow> bool" where
  "fish_shell splits \<longleftrightarrow>
     (\<forall>ws. list_all fish_ok ws \<longrightarrow>
        splits (''git'' @ concat (map (\<lambda>w. '' '' @ fish_spell w) ws)) = Some (''git'' # map fish_meaning ws))"

subsection \<open>What \<open>render\<close> writes\<close>

definition posix_quote :: "string \<Rightarrow> string" where
  "posix_quote a =
     (if is_shell_safe a then a
      else [squote] @ replace_char squote [squote, backslash, squote, squote] a @ [squote])"

definition fish_quote :: "string \<Rightarrow> string" where
  "fish_quote a =
     (if is_shell_safe a then a
      else [squote] @ replace_char squote [backslash, squote] a @ [squote])"

lemma replace_char_absent: "c \<notin> set a \<Longrightarrow> replace_char c t a = a"
proof (induction a)
  case (Cons d a)
  then show ?case by (auto simp: replace_char_def)
qed (simp add: replace_char_def)

lemma safe_no_quote: "is_shell_safe a \<Longrightarrow> squote \<notin> set a"
  by (auto simp: is_shell_safe_def list_all_iff safe_char_def ascii_alphanumeric_def ascii_digit_def byte_def)

lemma render_arg_eq:
  "render_arg a (portable, p, f) =
     (portable \<and> squote \<notin> set a, p @ '' '' @ posix_quote a, f @ '' '' @ fish_quote a)"
proof (cases "is_shell_safe a")
  case True
  with safe_no_quote[OF True] show ?thesis
    by (simp add: render_arg_def Let_def posix_quote_def fish_quote_def)
next
  case False
  then show ?thesis
    by (cases "squote \<in> set a")
      (simp_all add: render_arg_def Let_def posix_quote_def fish_quote_def replace_char_absent)
qed

lemma render_fold:
  "fold render_arg as (portable, p, f) =
     (portable \<and> (\<forall>a \<in> set as. squote \<notin> set a), p @ concat (map (\<lambda>a. '' '' @ posix_quote a) as),
      f @ concat (map (\<lambda>a. '' '' @ fish_quote a) as))"
proof (induction as arbitrary: portable p f)
  case (Cons a as)
  show ?case by (simp add: render_arg_eq Cons.IH)
qed simp

lemma quotes_agree: "squote \<notin> set a \<Longrightarrow> fish_quote a = posix_quote a"
  by (simp add: posix_quote_def fish_quote_def replace_char_absent)

lemma render_eq:
  "for_posix (render s) = ''git'' @ concat (map (\<lambda>a. '' '' @ posix_quote a) (st_argv s))"
  "for_fish (render s) = ''git'' @ concat (map (\<lambda>a. '' '' @ fish_quote a) (st_argv s))"
  "(\<exists>line. render s = Portable line) \<longleftrightarrow> (\<forall>a \<in> set (st_argv s). squote \<notin> set a)"
proof -
  have same: "concat (map (\<lambda>a. '' '' @ fish_quote a) as) = concat (map (\<lambda>a. '' '' @ posix_quote a) as)"
    if "\<forall>a \<in> set as. squote \<notin> set a" for as
    using that by (intro arg_cong[of _ _ concat]) (auto simp: quotes_agree)
  show "for_posix (render s) = ''git'' @ concat (map (\<lambda>a. '' '' @ posix_quote a) (st_argv s))"
    and "(\<exists>line. render s = Portable line) \<longleftrightarrow> (\<forall>a \<in> set (st_argv s). squote \<notin> set a)"
    by (auto simp: render_def render_fold)
  show "for_fish (render s) = ''git'' @ concat (map (\<lambda>a. '' '' @ fish_quote a) (st_argv s))"
    using same[of "st_argv s"] by (auto simp: render_def render_fold)
qed

subsection \<open>The command line reads back as the argument list\<close>

fun quote_segs :: "string list \<Rightarrow> posix_seg list" where
  "quote_segs [] = []"
| "quote_segs [p] = [Quoted p]"
| "quote_segs (p # q # ps) = Quoted p # Escaped_quote # quote_segs (q # ps)"

lemma quote_segs_Cons:
  "ps \<noteq> [] \<Longrightarrow> quote_segs (p # ps) = Quoted p # Escaped_quote # quote_segs ps"
  by (cases ps) auto

lemma quote_segs_spell:
  "[squote] @ replace_char squote [squote, backslash, squote, squote] a @ [squote] =
     concat (map posix_spell (quote_segs (split_on squote a)))"
proof (induction a)
  case (Cons c a)
  obtain p ps where s: "split_on squote a = p # ps"
    using split_on_nonempty[of squote a] by (cases "split_on squote a") auto
  show ?case
  proof (cases "c = squote")
    case True
    with Cons s show ?thesis by (simp add: replace_char_def)
  next
    case False
    with Cons s show ?thesis by (cases ps) (auto simp: replace_char_def)
  qed
qed (simp add: replace_char_def)

lemma quote_segs_meaning: "concat (map posix_meaning (quote_segs (split_on squote a))) = a"
proof (induction a)
  case (Cons c a)
  obtain p ps where "split_on squote a = p # ps"
    using split_on_nonempty[of squote a] by (cases "split_on squote a") auto
  with Cons show ?case by (cases ps) (auto split: if_splits)
qed simp

lemma quote_segs_ok:
  assumes "CHR 0x00 \<notin> set a"
  shows "list_all posix_ok (quote_segs (split_on squote a))"
  using assms
proof (induction a)
  case (Cons c a)
  obtain p ps where "split_on squote a = p # ps"
    using split_on_nonempty[of squote a] by (cases "split_on squote a") auto
  with Cons show ?case by (cases ps) auto
qed simp

lemma quote_segs_nonempty: "quote_segs (split_on squote a) \<noteq> []"
  using split_on_nonempty[of squote a] by (cases "split_on squote a"; cases "tl (split_on squote a)") auto

definition posix_word :: "string \<Rightarrow> posix_seg list" where
  "posix_word a = (if is_shell_safe a then [Bare a] else quote_segs (split_on squote a))"

lemma posix_word:
  "posix_quote a = concat (map posix_spell (posix_word a))"
  "concat (map posix_meaning (posix_word a)) = a"
  "CHR 0x00 \<notin> set a \<Longrightarrow> posix_word a \<noteq> [] \<and> list_all posix_ok (posix_word a)"
  using quote_segs_spell[of a]
  by (auto simp: posix_word_def posix_quote_def quote_segs_meaning quote_segs_ok quote_segs_nonempty
      is_shell_safe_def)

text \<open>
  Pasted into a POSIX shell, the command line of a step runs exactly the step: whatever
  characters the arguments hold (anything but NUL), a shell that follows the quoting rules splits
  the line into \<open>git\<close> and the argument list the executor would pass.
\<close>

theorem posix_line_roundtrip:
  assumes "posix_shell splits" and "\<forall>a \<in> set (st_argv s). CHR 0x00 \<notin> set a"
  shows "splits (for_posix (render s)) = Some (''git'' # st_argv s)"
proof -
  let ?ws = "map posix_word (st_argv s)"
  have "list_all (\<lambda>w. w \<noteq> [] \<and> list_all posix_ok w) ?ws"
    using assms(2) posix_word(3) by (auto simp: list_all_iff)
  with assms(1) have "splits (''git'' @ concat (map (\<lambda>w. '' '' @ concat (map posix_spell w)) ?ws)) =
      Some (''git'' # map (\<lambda>w. concat (map posix_meaning w)) ?ws)"
    unfolding posix_shell_def by blast
  then show ?thesis by (simp add: render_eq posix_word(1,2) comp_def)
qed

definition fish_items :: "string \<Rightarrow> fish_item list" where
  "fish_items a = map (\<lambda>c. if c = squote then Esc_quote else Lit c) a"

lemma fish_items:
  "replace_char squote [backslash, squote] a = concat (map fish_item_spell (fish_items a))"
  "map fish_item_meaning (fish_items a) = a"
  "backslash \<notin> set a \<Longrightarrow> CHR 0x00 \<notin> set a \<Longrightarrow> list_all fish_item_ok (fish_items a)"
proof (induction a)
  case (Cons c a)
  {
    case 1
    with Cons show ?case by (auto simp: replace_char_def fish_items_def)
  next
    case 2
    with Cons show ?case by (simp add: fish_items_def)
  next
    case 3
    with Cons show ?case by (auto simp: fish_items_def)
  }
qed (simp_all add: replace_char_def fish_items_def)

definition fish_word_of :: "string \<Rightarrow> fish_word" where
  "fish_word_of a = (if is_shell_safe a then Fish_bare a else Fish_quoted (fish_items a))"

lemma fish_word_of:
  "fish_quote a = fish_spell (fish_word_of a)"
  "fish_meaning (fish_word_of a) = a"
  by (simp_all add: fish_word_of_def fish_quote_def fish_items)

text \<open>
  The same for fish, for arguments without a backslash and, where they are written without
  quotes, without a comma. The two conditions are necessary for the code as it is: it writes a
  backslash unescaped between single quotes, where fish reads a pair of them as one, and leaves braces
  and commas unquoted.
\<close>

theorem fish_line_roundtrip:
  assumes "fish_shell splits"
    and "\<forall>a \<in> set (st_argv s). backslash \<notin> set a \<and> CHR 0x00 \<notin> set a"
    and "\<forall>a \<in> set (st_argv s). is_shell_safe a \<longrightarrow> CHR '','' \<notin> set a"
  shows "splits (for_fish (render s)) = Some (''git'' # st_argv s)"
proof -
  let ?ws = "map fish_word_of (st_argv s)"
  have "fish_ok (fish_word_of a)" if "a \<in> set (st_argv s)" for a
    using assms(2,3) that fish_items(3)[of a] by (auto simp: fish_word_of_def is_shell_safe_def)
  then have "list_all fish_ok ?ws" by (simp add: list_all_iff)
  with assms(1) have "splits (''git'' @ concat (map (\<lambda>w. '' '' @ fish_spell w) ?ws)) =
      Some (''git'' # map fish_meaning ?ws)"
    unfolding fish_shell_def by blast
  then show ?thesis by (simp add: render_eq fish_word_of comp_def)
qed

subsection \<open>Splitters that follow the rules\<close>

text \<open>
  The word so far and whether one was begun, whether a single quote is open, and the rest of the
  line. An open quote or a dangling backslash at the end of the line is an error.
\<close>

fun sh_lex :: "bool \<Rightarrow> string \<Rightarrow> bool \<Rightarrow> string \<Rightarrow> string list option" where
  "sh_lex begun w quoted [] = (if quoted then None else Some (if begun then [w] else []))"
| "sh_lex begun w True (c # s) =
     (if c = squote then sh_lex True w False s else sh_lex True (w @ [c]) True s)"
| "sh_lex begun w False (c # s) =
     (if c = space_char then map_option (\<lambda>ws. (if begun then [w] else []) @ ws) (sh_lex False [] False s)
      else if c = squote then sh_lex True w True s
      else if c = backslash then (case s of [] \<Rightarrow> None | d # t \<Rightarrow> sh_lex True (w @ [d]) False t)
      else sh_lex True (w @ [c]) False s)"

fun fish_lex :: "bool \<Rightarrow> string \<Rightarrow> bool \<Rightarrow> string \<Rightarrow> string list option" where
  "fish_lex begun w quoted [] = (if quoted then None else Some (if begun then [w] else []))"
| "fish_lex begun w True (c # s) =
     (if c = squote then fish_lex True w False s
      else if c = backslash
      then (case s of
              [] \<Rightarrow> None
            | d # t \<Rightarrow>
                if d = squote \<or> d = backslash then fish_lex True (w @ [d]) True t
                else fish_lex True (w @ [c]) True (d # t))
      else fish_lex True (w @ [c]) True s)"
| "fish_lex begun w False (c # s) =
     (if c = space_char then map_option (\<lambda>ws. (if begun then [w] else []) @ ws) (fish_lex False [] False s)
      else if c = squote then fish_lex True w True s
      else fish_lex True (w @ [c]) False s)"

lemma safe_char_plain: "safe_char c \<Longrightarrow> c \<noteq> space_char \<and> c \<noteq> squote \<and> c \<noteq> backslash"
  by (auto simp: safe_char_def ascii_alphanumeric_def ascii_digit_def byte_def)

lemma sh_lex_bare:
  "list_all safe_char v \<Longrightarrow> v \<noteq> [] \<or> begun \<Longrightarrow> sh_lex begun w False (v @ s) = sh_lex True (w @ v) False s"
proof (induction v arbitrary: begun w)
  case (Cons c v)
  then show ?case using safe_char_plain[of c] by (simp add: Cons.IH)
qed simp

lemma sh_lex_quoted:
  "squote \<notin> set v \<Longrightarrow> sh_lex begun w True (v @ squote # s) = sh_lex True (w @ v) False s"
  by (induction v arbitrary: begun w) auto

lemma sh_lex_seg:
  "posix_ok g \<Longrightarrow> sh_lex begun w False (posix_spell g @ s) = sh_lex True (w @ posix_meaning g) False s"
  by (cases g) (simp_all add: sh_lex_bare sh_lex_quoted)

lemma sh_lex_segs:
  "list_all posix_ok gs \<Longrightarrow> gs \<noteq> [] \<or> begun \<Longrightarrow>
     sh_lex begun w False (concat (map posix_spell gs) @ s) =
       sh_lex True (w @ concat (map posix_meaning gs)) False s"
  by (induction gs arbitrary: begun w) (auto simp: sh_lex_seg)

lemma sh_lex_words:
  "list_all (\<lambda>w. w \<noteq> [] \<and> list_all posix_ok w) ws \<Longrightarrow>
     sh_lex True v False (concat (map (\<lambda>w. '' '' @ concat (map posix_spell w)) ws)) =
       Some (v # map (\<lambda>w. concat (map posix_meaning w)) ws)"
proof (induction ws arbitrary: v)
  case (Cons w ws)
  let ?rest = "concat (map (\<lambda>w. '' '' @ concat (map posix_spell w)) ws)"
  have "sh_lex False [] False (concat (map posix_spell w) @ ?rest) =
      Some (concat (map posix_meaning w) # map (\<lambda>w. concat (map posix_meaning w)) ws)"
    using Cons sh_lex_segs[of w False "[]" ?rest] by simp
  then show ?case by simp
qed simp

lemma sh_lex_posix: "posix_shell (sh_lex False [] False)"
  unfolding posix_shell_def by (simp add: sh_lex_words[simplified])

lemma fish_lex_bare:
  "list_all safe_char v \<Longrightarrow> v \<noteq> [] \<or> begun \<Longrightarrow> fish_lex begun w False (v @ s) = fish_lex True (w @ v) False s"
proof (induction v arbitrary: begun w)
  case (Cons c v)
  then show ?case using safe_char_plain[of c] by (simp add: Cons.IH)
qed simp

lemma fish_lex_items:
  "list_all fish_item_ok xs \<Longrightarrow>
     fish_lex begun w True (concat (map fish_item_spell xs) @ squote # s) =
       fish_lex True (w @ map fish_item_meaning xs) False s"
proof (induction xs arbitrary: begun w)
  case (Cons x xs)
  then show ?case by (cases x) auto
qed simp

lemma fish_lex_word:
  "fish_ok g \<Longrightarrow> fish_lex False [] False (fish_spell g @ s) = fish_lex True (fish_meaning g) False s"
  by (cases g) (simp_all add: fish_lex_bare fish_lex_items)

lemma fish_lex_words:
  "list_all fish_ok ws \<Longrightarrow>
     fish_lex True v False (concat (map (\<lambda>w. '' '' @ fish_spell w) ws)) = Some (v # map fish_meaning ws)"
  by (induction ws arbitrary: v) (simp_all add: fish_lex_word)

lemma fish_lex_fish: "fish_shell (fish_lex False [] False)"
  unfolding fish_shell_def by (simp add: fish_lex_words[simplified])

definition sample_step :: step where
  "sample_step = new_step (commit_on_head_argv ''it's; rm'' False) []"

lemma posix_line_roundtrip_witness:
  "sh_lex False [] False (for_posix (render sample_step)) = Some [''git'', ''commit'', ''-m'', ''it's; rm'']"
  using posix_line_roundtrip[OF sh_lex_posix, of sample_step]
  by (simp add: sample_step_def new_step_def argv_defs)

lemma fish_line_roundtrip_witness:
  "fish_lex False [] False (for_fish (render sample_step)) = Some [''git'', ''commit'', ''-m'', ''it's; rm'']"
  using fish_line_roundtrip[OF fish_lex_fish, of sample_step]
  by (simp add: sample_step_def new_step_def argv_defs)

text \<open>
  The line that \<open>render\<close> calls portable is not portable for a commit message with a backslash: a
  shell that follows fish's rules reads the message \<open>C:\\x\<close>, which has two backslashes, with one.
\<close>

definition backslash_step :: step where
  "backslash_step = new_step (commit_on_head_argv [CHR ''C'', backslash, backslash, CHR ''x''] False) []"

lemma backslash_line:
  "for_fish (render backslash_step) =
     ''git'' @ concat (map (\<lambda>w. '' '' @ fish_spell w)
       [Fish_bare ''commit'', Fish_bare ''-m'', Fish_quoted [Lit (CHR ''C''), Esc_backslash, Lit (CHR ''x'')]])"
  by (simp add: render_eq backslash_step_def new_step_def argv_defs fish_quote_def replace_char_def
      is_shell_safe_def safe_char_def ascii_alphanumeric_def ascii_digit_def byte_def)

theorem fish_loses_backslash:
  assumes "fish_shell splits"
  shows "(\<exists>line. render backslash_step = Portable line) \<and>
    splits (for_fish (render backslash_step)) = Some [''git'', ''commit'', ''-m'', [CHR ''C'', backslash, CHR ''x'']]"
proof
  show "\<exists>line. render backslash_step = Portable line"
    unfolding render_eq by (simp add: backslash_step_def new_step_def argv_defs)
  let ?ws = "[Fish_bare ''commit'', Fish_bare ''-m'', Fish_quoted [Lit (CHR ''C''), Esc_backslash, Lit (CHR ''x'')]]"
  have "list_all fish_ok ?ws"
    by (simp add: safe_char_def ascii_alphanumeric_def ascii_digit_def byte_def)
  with assms have "splits (for_fish (render backslash_step)) = Some (''git'' # map fish_meaning ?ws)"
    unfolding fish_shell_def backslash_line by blast
  then show "splits (for_fish (render backslash_step)) = Some [''git'', ''commit'', ''-m'', [CHR ''C'', backslash, CHR ''x'']]"
    by simp
qed

subsection \<open>Wrapping\<close>

lemma split_on_snoc: "split_on c (s @ c # t) = split_on c s @ split_on c t"
proof (induction s)
  case (Cons x s)
  then show ?case using split_on_nonempty[of c s] by (auto split: list.splits)
qed simp

lemma split_on_extend:
  "c \<notin> set t \<Longrightarrow> split_on c (s @ t) = butlast (split_on c s) @ [last (split_on c s) @ t]"
proof (induction s)
  case Nil
  then show ?case by (simp add: split_on_whole)
next
  case (Cons x s)
  obtain p ps where s: "split_on c s = p # ps"
    using split_on_nonempty[of c s] by (cases "split_on c s") auto
  with Cons show ?case by (cases ps) auto
qed

lemma words_length: "length (concat (words_from cur s)) \<le> length cur + length s"
proof (induction cur s rule: words_from.induct)
  case (2 cur c s)
  then show ?case by (cases "ws_len (c # s) = 0") auto
qed simp

lemma word_no_newline: "word_of w \<Longrightarrow> newline_char \<notin> set w"
proof
  assume w: "word_of w" "newline_char \<in> set w"
  then obtain a b where ab: "w = a @ newline_char # b" by (meson split_list)
  then have split: "split_whitespace a @ split_whitespace b = [w]" using w(1) by (simp add: words_sep)
  have "length (concat (split_whitespace a @ split_whitespace b)) \<le> length a + length b"
    using words_length[of "[]" a] words_length[of "[]" b] by simp
  with split ab show False by simp
qed

text \<open>A line that fits, or a single word.\<close>

definition line_ok :: "string \<Rightarrow> bool" where
  "line_ok l \<longleftrightarrow> char_count l \<le> 76 \<or> word_of l"

definition wrap_inv :: "string list \<Rightarrow> string \<times> nat \<Rightarrow> bool" where
  "wrap_inv ws st \<longleftrightarrow>
     (case st of (out, column) \<Rightarrow>
        split_whitespace out = ws \<and> (column = 0 \<longleftrightarrow> ws = []) \<and> (ws = [] \<longrightarrow> out = []) \<and>
        column = char_count (last (split_on newline_char out)) \<and>
        (\<forall>l \<in> set (split_on newline_char out). line_ok l))"

lemma char_count_append [simp]: "char_count (a @ b) = char_count a + char_count b"
  by (simp add: char_count_def)

lemma char_count_space [simp]: "char_count (space_char # b) = Suc (char_count b)"
  by (simp add: char_count_def tail_byte_def byte_def)

lemma words_snoc:
  "b \<in> {space_char, newline_char} \<Longrightarrow> split_whitespace (a @ b # w) = split_whitespace a @ split_whitespace w"
  by (rule words_sep)

lemma wrap_word_inv:
  assumes "wrap_inv ws st" and "word_of w" "0 < char_count w"
  shows "wrap_inv (ws @ [w]) (wrap_word w st)"
proof -
  obtain out column where st: "st = (out, column)" by fastforce
  let ?ls = "split_on newline_char out"
  from assms(1) st have inv: "split_whitespace out = ws" "column = 0 \<longleftrightarrow> ws = []" "ws = [] \<longrightarrow> out = []"
    "column = char_count (last ?ls)" "\<forall>l \<in> set ?ls. line_ok l"
    by (auto simp: wrap_inv_def)
  have free: "newline_char \<notin> set w" by (rule word_no_newline[OF assms(2)])
  have w: "line_ok w" "split_on newline_char w = [w]"
    using assms(2) free by (simp_all add: line_ok_def split_on_whole)
  consider "column = 0" | "0 < column" "76 < column + 1 + char_count w" | "0 < column" "column + 1 + char_count w \<le> 76"
    by linarith
  then show ?thesis
  proof cases
    case 1
    with inv have "out = []" "ws = []" by auto
    with 1 w assms(2,3) show ?thesis by (simp add: st wrap_word_def wrap_inv_def)
  next
    case 2
    with inv w assms(2,3) show ?thesis
      by (auto simp: st wrap_word_def wrap_inv_def words_snoc split_on_snoc)
  next
    case 3
    have "newline_char \<notin> set ('' '' @ w)" using free by simp
    from split_on_extend[OF this, of out]
    have lines: "split_on newline_char (out @ space_char # w) = butlast ?ls @ [last ?ls @ space_char # w]" by simp
    have "line_ok (last ?ls @ space_char # w)" using 3 inv(4) by (simp add: line_ok_def)
    with 3 inv assms(2,3) show ?thesis
      by (auto simp: st wrap_word_def wrap_inv_def words_snoc lines dest: in_set_butlastD)
  qed
qed

lemma wrap_words_inv:
  "wrap_inv ws st \<Longrightarrow> \<forall>w \<in> set vs. word_of w \<and> 0 < char_count w \<Longrightarrow> wrap_inv (ws @ vs) (fold wrap_word vs st)"
proof (induction vs arbitrary: ws st)
  case (Cons v vs)
  then have "wrap_inv (ws @ [v]) (wrap_word v st)" by (simp add: wrap_word_inv)
  from Cons.IH[OF this] Cons.prems(2) show ?case by simp
qed simp

lemma wrap_paragraph_ok:
  assumes "\<forall>w \<in> set (split_whitespace p). 0 < char_count w"
  obtains out where "wrap_paragraph p = out @ nl" "split_whitespace out = split_whitespace p"
    "\<forall>l \<in> set (split_on newline_char out). line_ok l"
proof -
  have "wrap_inv [] ([], 0)" by (simp add: wrap_inv_def line_ok_def char_count_def)
  from wrap_words_inv[OF this, of "split_whitespace p"] assms words_are_words
  have "wrap_inv (split_whitespace p) (fold wrap_word (split_whitespace p) ([], 0))" by simp
  then show thesis
    by (intro that[of "fst (fold wrap_word (split_whitespace p) ([], 0))"])
      (auto simp: wrap_paragraph_def wrap_inv_def)
qed

lemma wrapped_ok:
  assumes "\<forall>p \<in> set ps. \<forall>w \<in> set (split_whitespace p). 0 < char_count w"
  shows "split_whitespace (concat (map wrap_paragraph ps)) = concat (map split_whitespace ps) \<and>
    (\<forall>l \<in> set (split_on newline_char (concat (map wrap_paragraph ps))). line_ok l)"
  using assms
proof (induction ps)
  case Nil
  show ?case by (simp add: line_ok_def char_count_def)
next
  case (Cons p ps)
  from Cons.prems have "\<forall>w \<in> set (split_whitespace p). 0 < char_count w" by simp
  then obtain out where out: "wrap_paragraph p = out @ nl" "split_whitespace out = split_whitespace p"
    "\<forall>l \<in> set (split_on newline_char out). line_ok l"
    by (rule wrap_paragraph_ok)
  from Cons show ?case by (auto simp: out words_snoc split_on_snoc)
qed

text \<open>
  Wrapping a sentence for the printout neither loses, reorders nor glues words, and no line is
  longer than 76 characters unless it is a single longer word; the words must have a character each,
  as they do in UTF-8.
\<close>

theorem wrapped_keeps_words:
  assumes "\<forall>w \<in> set (split_whitespace s). 0 < char_count w"
  shows "split_whitespace (wrapped s) = split_whitespace s \<and>
    (\<forall>l \<in> set (split_on newline_char (wrapped s)). char_count l \<le> 76 \<or> word_of l)"
proof -
  have "\<forall>p \<in> set (split_on newline_char s). \<forall>w \<in> set (split_whitespace p). 0 < char_count w"
    using assms words_lines[of s, symmetric] by auto
  from wrapped_ok[OF this] words_lines[of s] show ?thesis by (simp add: wrapped_def line_ok_def)
qed

lemma wrapped_keeps_words_witness:
  "split_whitespace (wrapped ''a  bc'') = [''a'', ''bc''] \<and>
   list_all (\<lambda>l. char_count l \<le> 76 \<or> word_of l) (split_on newline_char (wrapped ''a  bc''))"
proof -
  have w: "split_whitespace ''a  bc'' = [''a'', ''bc'']" by code_simp
  have "\<forall>w \<in> set (split_whitespace ''a  bc''). 0 < char_count w"
    unfolding w by (simp add: char_count_def tail_byte_def byte_def)
  from wrapped_keeps_words[OF this] w show ?thesis by (simp add: list_all_iff)
qed

subsection \<open>The script\<close>

text \<open>The lines of the header, and the comment above one step.\<close>

definition script_header_lines :: "plan \<Rightarrow> string list" where
  "script_header_lines p =
     [''#!/usr/bin/env fish'', ''# git-vista plan export'',
      ''# Shell: fish (this file is not POSIX sh or bash)'',
      ''# Fail-fast: each command exits immediately with its own non-zero status.'',
      ''# Generation: '' @ pl_generation p,
      ''# App expiry: '' @ show_i64 (pl_expires_at p) @ '' (unix seconds)'',
      ''# Re-generate if the repository has moved since this plan was built.'', []]"

definition step_comment :: "nat \<times> step \<Rightarrow> string" where
  "step_comment st =
     ''# Step '' @ decimal (int (fst st + 1)) @ '': '' @ join '' '' (split_whitespace (st_why (snd st)))"

lemma script_header_eq: "script_header p = terminated (script_header_lines p)"
  by (simp add: script_header_def script_header_lines_def)

lemma script_step_eq:
  "script_step st = terminated [step_comment st] @ for_fish (render (snd st)) @ terminated [[], ''or exit $status'', []]"
  by (cases st) (simp add: script_step_def step_comment_def)

lemma join_words_free: "\<forall>w \<in> set ws. c \<notin> set w \<Longrightarrow> c \<notin> set sep \<Longrightarrow> c \<notin> set (join sep ws)"
  by (induction sep ws rule: join.induct) auto

lemma newline_not_decimal: "0 \<le> n \<Longrightarrow> newline_char \<notin> set (decimal n)"
  by (rule decimal_free) simp_all

lemma show_i64_line: "newline_char \<notin> set (show_i64 n)"
  using newline_not_decimal[of n] newline_not_decimal[of "- n"] by (auto simp: show_i64_def)

definition comment_line :: "string \<Rightarrow> bool" where
  "comment_line l \<longleftrightarrow> newline_char \<notin> set l \<and> (l = [] \<or> hd l = CHR ''#'')"

lemma header_comments:
  "newline_char \<notin> set (pl_generation p) \<Longrightarrow> list_all comment_line (script_header_lines p)"
  using show_i64_line[of "pl_expires_at p"] by (simp add: script_header_lines_def comment_line_def)

lemma step_comments: "comment_line (step_comment st)"
proof -
  have "newline_char \<notin> set (join '' '' (split_whitespace (st_why (snd st))))"
    using word_no_newline[OF words_are_words] by (intro join_words_free) auto
  then show ?thesis using newline_not_decimal[of "int (fst st + 1)"]
    by (simp add: step_comment_def comment_line_def)
qed

text \<open>
  A fish script exists exactly for the plans whose operation is a literal list of commands, and
  then it is comment lines, followed for every step in order by one comment line, the command line of
  that step, and a line that stops the script when the command failed. A comment never runs past its
  line, so nothing but the commands is executed, provided the generation token holds no line break.
\<close>

theorem fish_script_shape:
  assumes "newline_char \<notin> set (pl_generation p)" and "fish_script p = Some (Inr out)"
  shows "\<exists>steps hdr comments. export_operation (pl_operation p) = Some (Commands steps) \<and>
    length comments = length steps \<and> list_all comment_line (hdr @ comments) \<and>
    out = terminated hdr @ concat (map2 (\<lambda>c s. c @ nl @ for_fish (render s) @ nl @ ''or exit $status'' @ nl @ nl)
      comments steps)"
proof -
  from assms(2) obtain e where e: "export_operation (pl_operation p) = Some e"
    by (auto simp: fish_script_def)
  with assms(2) obtain steps where s: "e = Commands steps"
      "out = script_header p @ concat (map script_step (enumerate 0 steps))"
    by (cases e) (auto simp: fish_script_def)
  let ?cs = "map step_comment (enumerate 0 steps)"
  have "map2 (\<lambda>c s. c @ nl @ for_fish (render s) @ nl @ ''or exit $status'' @ nl @ nl)
      (map step_comment (enumerate k steps)) steps = map script_step (enumerate k steps)" for k
    by (induction steps arbitrary: k) (simp_all add: script_step_eq)
  then have "out = terminated (script_header_lines p) @
      concat (map2 (\<lambda>c s. c @ nl @ for_fish (render s) @ nl @ ''or exit $status'' @ nl @ nl) ?cs steps)"
    by (simp only: s script_header_eq)
  moreover have "list_all comment_line (script_header_lines p @ ?cs)"
    using header_comments[OF assms(1)] step_comments by (auto simp: list_all_iff)
  moreover have "length ?cs = length steps" by simp
  ultimately show ?thesis using e s(1) by blast
qed

definition sample_export_plan :: plan where
  "sample_export_plan =
     \<lparr>pl_repository = ''r'', pl_worktree = ''w'', pl_generation = ''g1'', pl_operation = FetchRemote ''origin'',
      pl_operation_hash = ''h'', pl_issued_at = 5, pl_expires_at = 65, pl_risk = Risk_Safe,
      pl_preconditions = [], pl_expected_ref_changes = [], pl_advisories = [], pl_recovery = Rec_NotNeeded\<rparr>"

lemma fish_script_shape_witness:
  "\<exists>out hdr c. fish_script sample_export_plan = Some (Inr out) \<and> list_all comment_line (hdr @ [c]) \<and>
     out = terminated hdr @ c @ nl @ for_fish (render (hd (steps_of (the (export_operation (FetchRemote ''origin'')))))) @
       nl @ ''or exit $status'' @ nl @ nl"
proof -
  have g: "newline_char \<notin> set (pl_generation sample_export_plan)" by (simp add: sample_export_plan_def)
  obtain out where out: "fish_script sample_export_plan = Some (Inr out)"
    by (simp add: fish_script_def sample_export_plan_def)
  from fish_script_shape[OF g out] obtain steps hdr comments where
    s: "export_operation (FetchRemote ''origin'') = Some (Commands steps)" "length comments = length steps"
    "list_all comment_line (hdr @ comments)"
    "out = terminated hdr @ concat (map2 (\<lambda>c s. c @ nl @ for_fish (render s) @ nl @ ''or exit $status'' @ nl @ nl)
      comments steps)"
    by (auto simp: sample_export_plan_def)
  from s(1) have "length steps = 1" by auto
  then obtain st where st: "steps = [st]" by (cases steps) auto
  with s(2) obtain c where "comments = [c]" by (cases comments) auto
  with s out st show ?thesis by (intro exI[of _ out] exI[of _ hdr] exI[of _ c]) simp
qed

end
