(* ===== verification/Reset_Branch.thy ===== *)
theory Reset_Branch imports Plan_Export begin

text \<open>
  \<open>exec_reset_branch\<close> of \<open>crates/git-vista-server/src/planner/branch_exec.rs\<close>: the executor
  whose argument list the export of \<open>ResetBranch\<close> describes. git itself is the parameter
  \<open>git_argv\<close>, the dirtiness check of the working tree is \<open>worktree_dirty\<close> (an error text or
  whether there are changes); the activity journal and the terminal log are not modelled. The result
  is the argument list that was run, if any, with the response.
\<close>

datatype 'a observation = Known 'a | Absent | Unknown

fun known :: "'a observation \<Rightarrow> 'a option" where
  "known (Known v) = Some v"
| "known Absent = None"
| "known Unknown = None"

definition status_ok :: nat where "status_ok = 200"
definition status_bad_request :: nat where "status_bad_request = 400"
definition status_conflict :: nat where "status_conflict = 409"

definition short7 :: "string \<Rightarrow> string" where
  "short7 oid = take 7 oid"

definition reset_response :: "branch_name \<Rightarrow> commit_oid \<Rightarrow> string + unit \<Rightarrow> nat \<times> string" where
  "reset_response branch tgt result =
     (case result of
        Inr u \<Rightarrow> (status_ok, ''Reset '' @ lq @ branch @ rq @ '' to '' @ short7 tgt @ ''.'')
      | Inl msg \<Rightarrow> (status_bad_request, msg))"

definition exec_reset_branch ::
  "(argv \<Rightarrow> string + unit) \<Rightarrow> string + bool \<Rightarrow> string observation \<Rightarrow> string option \<Rightarrow>
     branch_name \<Rightarrow> commit_oid \<Rightarrow> commit_oid \<Rightarrow> argv option \<times> nat \<times> string" where
  "exec_reset_branch git_argv worktree_dirty branch_tip head_branch branch tgt expected_tip =
     (if known branch_tip \<noteq> Some expected_tip
      then (None, status_conflict, lq @ branch @ rq @
        '' has moved since this undo was offered '' @ em_dash @ '' refresh and try again.'')
      else if head_branch = Some branch
      then (case worktree_dirty of
              Inl msg \<Rightarrow> (None, reset_response branch tgt (Inl msg))
            | Inr True \<Rightarrow> (None, status_conflict,
                ''The working tree has uncommitted changes '' @ em_dash @
                '' commit them first so the undo can't destroy them.'')
            | Inr False \<Rightarrow>
                (Some (reset_hard_argv tgt), reset_response branch tgt (git_argv (reset_hard_argv tgt))))
      else (Some (move_branch_argv branch tgt), reset_response branch tgt (git_argv (move_branch_argv branch tgt))))"

text \<open>
  The undo of a branch never runs git unless the branch was observed at the tip the dialog was
  built on, and it rewrites the working tree only when the branch is checked out and the tree is
  known to be clean; otherwise nothing is run or only the branch's ref is moved.
\<close>

theorem reset_branch_guarded:
  assumes "exec_reset_branch git_argv dirty branch_tip head_branch branch tgt expected_tip = (Some a, response)"
  shows "branch_tip = Known expected_tip \<and>
    (a = reset_hard_argv tgt \<and> head_branch = Some branch \<and> dirty = Inr False \<or>
     a = move_branch_argv branch tgt \<and> head_branch \<noteq> Some branch)"
  using assms
  by (cases branch_tip) (auto simp: exec_reset_branch_def split: if_splits sum.splits bool.splits)

lemma reset_branch_guarded_witness:
  "exec_reset_branch (\<lambda>_. Inr ()) (Inr False) (Known ''t'') (Some ''b'') ''b'' ''o'' ''t'' =
     (Some [''reset'', ''--hard'', ''o''], status_ok, ''Reset '' @ lq @ ''b'' @ rq @ '' to o.'') \<and>
   (Known ''t'' :: string observation) = Known ''t''"
proof -
  have e: "exec_reset_branch (\<lambda>_. Inr ()) (Inr False) (Known ''t'') (Some ''b'') ''b'' ''o'' ''t'' =
     (Some [''reset'', ''--hard'', ''o''], status_ok, ''Reset '' @ lq @ ''b'' @ rq @ '' to o.'')"
    by (simp add: exec_reset_branch_def reset_hard_argv_def reset_response_def short7_def)
  from reset_branch_guarded[OF e] e show ?thesis by simp
qed

text \<open>
  The printed alternatives of the same operation contradict the executor: the candidate printed for "IS the checked-out
  branch" is the argument list the executor runs when it is \<^emph>\<open>not\<close>, and the other way round.
\<close>

theorem reset_branch_export_swapped:
  "\<exists>decided_by on off. export_operation (ResetBranch branch tgt expected_tip) =
       Some (ChosenAtRunTime decided_by [on, off]) \<and>
     cand_when on = lq @ branch @ rq @ '' IS the checked-out branch'' \<and>
     cand_when off = lq @ branch @ rq @ '' is NOT the checked-out branch'' \<and>
     map st_argv (cand_steps on) = [move_branch_argv branch tgt] \<and>
     map st_argv (cand_steps off) = [reset_hard_argv tgt] \<and>
     fst (exec_reset_branch git_argv (Inr False) (Known expected_tip) (Some branch) branch tgt expected_tip) =
       Some (reset_hard_argv tgt) \<and>
     fst (exec_reset_branch git_argv (Inr False) (Known expected_tip) None branch tgt expected_tip) =
       Some (move_branch_argv branch tgt)"
  by (simp add: reset_branch_export_def new_step_def exec_reset_branch_def)

end
