(* ===== verification/Operations.thy ===== *)
theory Operations imports Plan_Export begin

text \<open>
  \<open>crates/git-vista-server/src/operations.rs\<close> with the wire types of
  \<open>git-vista-protocol/src/operation.rs\<close>: the registry that gives every mutation an identity, a
  lifecycle and a replayable result.

  An \<open>Arc<Record>\<close> is an address of the store \<open>w_heap\<close>: the two maps of the registry and the
  handle of the running pipeline alias the same record, and a record stays in the store after the
  registry has dropped it. \<open>w_handles\<close> holds the addresses whose \<open>OperationHandle\<close> is still owned
  by a pipeline. The \<open>watch\<close> channel is its current value; the lock makes every entry point one
  step. The clock and the random id are arguments.
\<close>

datatype operation_state = Accepted | Running | Succeeded | Failed

definition is_terminal :: "operation_state \<Rightarrow> bool" where
  "is_terminal s \<longleftrightarrow> s = Succeeded \<or> s = Failed"

datatype operation_stage = Queued | Planning | Waiting | Checking | Executing | Finished

datatype transfer_phase = Enumerating | Counting | Compressing | Receiving | Writing | Resolving

record transfer_progress =
  tp_phase :: transfer_phase
  tp_percent :: "u8 option"
  tp_objects :: "u64 option"
  tp_total_objects :: "u64 option"

record operation_status =
  os_id :: string
  os_state :: operation_state
  os_stage :: operation_stage
  os_operation :: git_operation
  os_operation_hash :: string
  os_repository :: string
  os_worktree :: string
  os_accepted_at :: unix_seconds
  os_ended_at :: "unix_seconds option"
  os_status :: "nat option"
  os_message :: "string option"
  os_generation :: "generation_token option"
  os_recovery :: "recovery_strategy option"
  os_recovers :: "string option"
  os_progress :: "transfer_progress option"

definition status_terminal :: "operation_status \<Rightarrow> bool" where
  "status_terminal s = is_terminal (os_state s)"

text \<open>\<open>Record\<close>, with the current values of its two channels.\<close>

record op_record =
  rec_key :: string
  rec_status :: operation_status
  rec_cancel :: bool

definition max_records :: nat where "max_records = 256"
definition record_ttl_secs :: int where "record_ttl_secs = 3600"
definition max_live_streams :: nat where "max_live_streams = 32"

definition internal_server_error :: nat where "internal_server_error = 500"

subsection \<open>One record\<close>

text \<open>\<open>Record::request_cancel\<close>: whether the request was taken, and the record.\<close>

definition request_cancel :: "op_record \<Rightarrow> bool \<times> op_record" where
  "request_cancel r =
     (if status_terminal (rec_status r) then (False, r) else (True, r\<lparr>rec_cancel := True\<rparr>))"

definition set_progress :: "transfer_progress \<Rightarrow> operation_status \<Rightarrow> operation_status" where
  "set_progress p s =
     (if status_terminal s \<or> os_progress s = Some p then s else s\<lparr>os_progress := Some p\<rparr>)"

definition set_stage :: "operation_stage \<Rightarrow> operation_status \<Rightarrow> operation_status" where
  "set_stage stg s =
     (if status_terminal s \<or> os_stage s = stg then s
      else s\<lparr>os_stage := stg, os_state := (if os_state s = Accepted then Running else os_state s)\<rparr>)"

definition note_recovery :: "recovery_strategy \<Rightarrow> operation_status \<Rightarrow> operation_status" where
  "note_recovery r s =
     (if status_terminal s \<or> os_recovery s = Some r then s else s\<lparr>os_recovery := Some r\<rparr>)"

text \<open>\<open>StatusCode::from_u16\<close> and \<open>StatusCode::is_success\<close> of the http crate's three-digit codes.\<close>

definition status_from_u16 :: "nat \<Rightarrow> nat option" where
  "status_from_u16 code = (if 100 \<le> code \<and> code < 1000 then Some code else None)"

definition is_success :: "nat \<Rightarrow> bool" where
  "is_success code \<longleftrightarrow> 200 \<le> code \<and> code < 300"

definition replay :: "operation_status \<Rightarrow> nat \<times> string" where
  "replay s =
     (case Option.bind (os_status s) status_from_u16 of Some c \<Rightarrow> c | None \<Rightarrow> internal_server_error,
      case os_message s of Some m \<Rightarrow> m | None \<Rightarrow> ''The operation '' @
                                                                       ''finished '' @
                                                                       ''without recording a result.'')"

text \<open>\<open>wait_terminal\<close> answers, once the record is terminal, with what it recorded.\<close>

definition wait_terminal :: "op_record \<Rightarrow> (nat \<times> string) option" where
  "wait_terminal r = (if status_terminal (rec_status r) then Some (replay (rec_status r)) else None)"

definition apply_terminal ::
  "int \<Rightarrow> nat \<Rightarrow> string \<Rightarrow> generation_token option \<Rightarrow> operation_status \<Rightarrow> operation_status" where
  "apply_terminal now code msg generation s =
     s\<lparr>os_state := (if is_success code then Succeeded else Failed), os_stage := Finished,
       os_status := Some code, os_message := Some msg, os_generation := generation,
       os_ended_at := Some now\<rparr>"

text \<open>\<open>OperationHandle::terminal_status\<close>: what \<open>finish\<close> would record.\<close>

definition terminal_status ::
  "int \<Rightarrow> op_record \<Rightarrow> nat \<Rightarrow> string \<Rightarrow> generation_token option \<Rightarrow> operation_status" where
  "terminal_status now r code msg generation = apply_terminal now code msg generation (rec_status r)"

text \<open>The body of \<open>Drop for OperationHandle\<close>, for a handle that was not finished.\<close>

definition drop_status :: "int \<Rightarrow> operation_status \<Rightarrow> operation_status" where
  "drop_status now s =
     (if status_terminal s then s
      else s\<lparr>os_state := Failed, os_stage := Finished, os_status := Some internal_server_error,
             os_message := Some (''The operation stopped without finishing. Check the '' @
                                 ''repository before retrying.''),
             os_ended_at := Some now\<rparr>)"

subsection \<open>The registry\<close>

datatype blame = UnknownOperation string | UnreadableField string | Undecodable

text \<open>\<open>Fresh\<close> carries the handle and the record, which are the same address.\<close>

datatype admission = Fresh nat | Existing nat | Conflict | IncompatibleKey string blame

primrec incompatible_key_refusal :: "string \<Rightarrow> blame \<Rightarrow> string" where
  "incompatible_key_refusal i (UnknownOperation kind) =
     ''That idempotency key already names operation '' @ i @ '' '' @ em_dash @
     '' written by a Git-Vista build that understood an operation ('' @ [CHR 0x27] @ kind @
     [CHR 0x27] @ '') this build does not. It can't be replayed or re-run; send a new key.''"
| "incompatible_key_refusal i (UnreadableField field) =
     ''That idempotency key already names operation '' @ i @ '', whose stored `'' @ field @
     ''` this build could not read. It can't be replayed or re-run; send a new key.''"
| "incompatible_key_refusal i Undecodable =
     ''That idempotency key already names operation '' @ i @
     '', whose stored record this build can't decode. It can't be replayed or re-run; '' @
     ''send a new key.''"

record op_world =
  w_heap :: "op_record list"
  w_handles :: "nat set"
  w_by_key :: "string \<rightharpoonup> nat"
  w_by_id :: "string \<rightharpoonup> nat"
  w_order :: "string list"
  w_incompatible :: "string \<rightharpoonup> (string \<times> blame)"
  w_streams :: nat

definition empty_world :: op_world where
  "empty_world = \<lparr>w_heap = [], w_handles = {}, w_by_key = Map.empty, w_by_id = Map.empty, w_order = [],
     w_incompatible = Map.empty, w_streams = 0\<rparr>"

definition expired :: "int \<Rightarrow> operation_status \<Rightarrow> bool" where
  "expired now s = (case os_ended_at s of Some ended \<Rightarrow> record_ttl_secs < now - ended | None \<Rightarrow> False)"

text \<open>
  The loop of \<open>evict\<close>: the ids still in the queue, how many records are over the cap, the ids kept
  so far, and the two maps.
\<close>

fun evict_loop ::
  "op_record list \<Rightarrow> int \<Rightarrow> string list \<Rightarrow> nat \<Rightarrow> string list \<Rightarrow> (string \<rightharpoonup> nat) \<Rightarrow> (string \<rightharpoonup> nat) \<Rightarrow>
     string list \<times> (string \<rightharpoonup> nat) \<times> (string \<rightharpoonup> nat)" where
  "evict_loop heap now [] over kept by_id by_key = (kept, by_id, by_key)"
| "evict_loop heap now (i # ids) over kept by_id by_key =
     (case by_id i of
        None \<Rightarrow> evict_loop heap now ids over kept by_id by_key
      | Some a \<Rightarrow>
          (let s = rec_status (heap ! a); old = expired now s
           in if status_terminal s \<and> (old \<or> 0 < over)
              then evict_loop heap now ids (if old then over else over - 1) kept
                     (by_id(i := None)) (by_key(rec_key (heap ! a) := None))
              else evict_loop heap now ids over (kept @ [i]) by_id by_key))"

definition evict :: "int \<Rightarrow> op_world \<Rightarrow> op_world" where
  "evict now w =
     (case evict_loop (w_heap w) now (w_order w) (length (w_order w) - max_records) []
             (w_by_id w) (w_by_key w) of
        (kept, by_id, by_key) \<Rightarrow> w\<lparr>w_order := kept, w_by_id := by_id, w_by_key := by_key\<rparr>)"

text \<open>The record \<open>admit\<close> mints.\<close>

definition accepted_record ::
  "int \<Rightarrow> string \<Rightarrow> string \<Rightarrow> git_operation \<Rightarrow> string \<Rightarrow> string \<Rightarrow> string \<Rightarrow> string option \<Rightarrow> op_record" where
  "accepted_record now i key operation op_hash repository worktree recovers =
     \<lparr>rec_key = key,
      rec_status = \<lparr>os_id = i, os_state = Accepted, os_stage = Queued, os_operation = operation,
        os_operation_hash = op_hash, os_repository = repository, os_worktree = worktree,
        os_accepted_at = now, os_ended_at = None, os_status = None, os_message = None,
        os_generation = None, os_recovery = None, os_recovers = recovers, os_progress = None\<rparr>,
      rec_cancel = False\<rparr>"

definition same_intent :: "operation_status \<Rightarrow> string \<Rightarrow> string \<Rightarrow> string \<Rightarrow> bool" where
  "same_intent s op_hash repository worktree \<longleftrightarrow>
     os_operation_hash s = op_hash \<and> os_repository s = repository \<and> os_worktree s = worktree"

definition insert_record :: "op_record \<Rightarrow> op_world \<Rightarrow> op_world" where
  "insert_record r w =
     w\<lparr>w_heap := w_heap w @ [r], w_by_key := (w_by_key w)(rec_key r \<mapsto> length (w_heap w)),
       w_by_id := (w_by_id w)(os_id (rec_status r) \<mapsto> length (w_heap w)),
       w_order := w_order w @ [os_id (rec_status r)]\<rparr>"

definition admit ::
  "int \<Rightarrow> string \<Rightarrow> string \<Rightarrow> git_operation \<Rightarrow> string \<Rightarrow> string \<Rightarrow> string \<Rightarrow> string option \<Rightarrow> op_world \<Rightarrow>
     admission \<times> op_world" where
  "admit now minted key operation op_hash repository worktree recovers w0 =
     (let w = evict now w0
      in case w_incompatible w key of
           Some (i, why) \<Rightarrow> (IncompatibleKey i why, w)
         | None \<Rightarrow>
             (case w_by_key w key of
                Some a \<Rightarrow>
                  (if same_intent (rec_status (w_heap w ! a)) op_hash repository worktree
                   then Existing a else Conflict, w)
              | None \<Rightarrow>
                  (let a = length (w_heap w);
                       w' = insert_record
                         (accepted_record now minted key operation op_hash repository worktree recovers) w
                   in (Fresh a, w'\<lparr>w_handles := insert a (w_handles w')\<rparr>))))"

definition lookup :: "op_world \<Rightarrow> string \<Rightarrow> nat option" where
  "lookup w i = w_by_id w i"

definition lookup_by_key :: "op_world \<Rightarrow> string \<Rightarrow> string option" where
  "lookup_by_key w key = map_option (\<lambda>a. os_id (rec_status (w_heap w ! a))) (w_by_key w key)"

text \<open>\<open>rehydrate\<close>: the incompatible keys, then one finished record per journal row.\<close>

definition rehydrate ::
  "(string \<times> operation_status) list \<Rightarrow> (string \<times> string \<times> blame) list \<Rightarrow> op_world \<Rightarrow> op_world" where
  "rehydrate records incompatible w =
     fold (\<lambda>(key, s). insert_record \<lparr>rec_key = key, rec_status = s, rec_cancel = False\<rparr>) records
       (w\<lparr>w_incompatible := fold (\<lambda>(key, i, why) m. m(key \<mapsto> (i, why))) incompatible (w_incompatible w)\<rparr>)"

subsection \<open>The entry points as steps\<close>

definition on_record :: "nat \<Rightarrow> (op_record \<Rightarrow> op_record) \<Rightarrow> op_world \<Rightarrow> op_world" where
  "on_record a f w = w\<lparr>w_heap := (w_heap w)[a := f (w_heap w ! a)]\<rparr>"

definition on_status :: "nat \<Rightarrow> (operation_status \<Rightarrow> operation_status) \<Rightarrow> op_world \<Rightarrow> op_world" where
  "on_status a f = on_record a (\<lambda>r. r\<lparr>rec_status := f (rec_status r)\<rparr>)"

text \<open>\<open>finish\<close> and the drop of an unfinished handle give the handle up.\<close>

definition finish ::
  "int \<Rightarrow> nat \<Rightarrow> nat \<Rightarrow> string \<Rightarrow> generation_token option \<Rightarrow> op_world \<Rightarrow> op_world" where
  "finish now a code msg generation w =
     (on_status a (apply_terminal now code msg generation) w)\<lparr>w_handles := w_handles w - {a}\<rparr>"

definition drop_handle :: "int \<Rightarrow> nat \<Rightarrow> op_world \<Rightarrow> op_world" where
  "drop_handle now a w = (on_status a (drop_status now) w)\<lparr>w_handles := w_handles w - {a}\<rparr>"

definition acquire_stream :: "op_world \<Rightarrow> (bool \<times> op_world)" where
  "acquire_stream w =
     (if w_streams w < max_live_streams then (True, w\<lparr>w_streams := w_streams w + 1\<rparr>) else (False, w))"

definition release_stream :: "op_world \<Rightarrow> op_world" where
  "release_stream w = w\<lparr>w_streams := w_streams w - 1\<rparr>"

text \<open>
  One call of the registry. A report or a cancellation may come from anywhere that holds the record;
  only the owner of the handle finishes or drops it. The minted id is one the registry does not hold.
\<close>

inductive op_step :: "op_world \<Rightarrow> op_world \<Rightarrow> bool" where
  step_admit: "minted \<notin> dom (w_by_id w) \<Longrightarrow>
    op_step w (snd (admit now minted key operation op_hash repository worktree recovers w))"
| step_stage: "a < length (w_heap w) \<Longrightarrow> op_step w (on_status a (set_stage stg) w)"
| step_progress: "a < length (w_heap w) \<Longrightarrow> op_step w (on_status a (set_progress p) w)"
| step_recovery: "a < length (w_heap w) \<Longrightarrow> op_step w (on_status a (note_recovery r) w)"
| step_cancel: "a < length (w_heap w) \<Longrightarrow> op_step w (on_record a (\<lambda>r. snd (request_cancel r)) w)"
| step_finish: "a \<in> w_handles w \<Longrightarrow> op_step w (finish now a code msg generation w)"
| step_drop: "a \<in> w_handles w \<Longrightarrow> op_step w (drop_handle now a w)"
| step_acquire: "op_step w (snd (acquire_stream w))"
| step_release: "0 < w_streams w \<Longrightarrow> op_step w (release_stream w)"

text \<open>
  What \<open>durable::recover\<close> hands to \<open>rehydrate\<close>: finished records with their response, unique keys
  and ids, no key both readable and incompatible.
\<close>

definition journal_ok :: "(string \<times> operation_status) list \<Rightarrow> (string \<times> string \<times> blame) list \<Rightarrow> bool" where
  "journal_ok records incompatible \<longleftrightarrow>
     distinct (map fst records) \<and> distinct (map (os_id \<circ> snd) records) \<and>
     list_all (\<lambda>(key, s). status_terminal s \<and> os_status s \<noteq> None \<and> os_message s \<noteq> None \<and>
       key \<notin> fst ` set incompatible) records"

inductive op_reachable :: "op_world \<Rightarrow> bool" where
  start: "journal_ok records incompatible \<Longrightarrow> op_reachable (rehydrate records incompatible empty_world)"
| run: "op_reachable w \<Longrightarrow> op_step w w' \<Longrightarrow> op_reachable w'"

subsection \<open>What eviction removes\<close>

lemma evict_loop_removes:
  assumes "evict_loop heap now ids over kept by_id by_key = (kept', by_id', by_key')" and "distinct ids"
  shows "\<exists>R \<subseteq> set ids. (\<forall>i \<in> R. \<exists>a. by_id i = Some a \<and> status_terminal (rec_status (heap ! a)) \<and>
      (expired now (rec_status (heap ! a)) \<or> 0 < over)) \<and>
    kept' = kept @ filter (\<lambda>i. i \<notin> R \<and> by_id i \<noteq> None) ids \<and>
    by_id' = by_id |` (- R) \<and>
    by_key' = by_key |` (- {rec_key (heap ! a) | a i. i \<in> R \<and> by_id i = Some a})"
  using assms
proof (induction heap now ids over kept by_id by_key rule: evict_loop.induct)
  case (1 heap now over kept by_id by_key)
  then show ?case by (intro exI[of _ "{}"]) auto
next
  case (2 heap now i ids over kept by_id by_key)
  show ?case
  proof (cases "by_id i")
    case None
    then have ev: "evict_loop heap now ids over kept by_id by_key = (kept', by_id', by_key')"
      using 2(4) by simp
    from 2(5) have d: "distinct ids" by simp
    from 2(1)[OF None ev d] obtain R where R: "R \<subseteq> set ids"
      "\<forall>i \<in> R. \<exists>a. by_id i = Some a \<and> status_terminal (rec_status (heap ! a)) \<and>
      (expired now (rec_status (heap ! a)) \<or> 0 < over)"
      "kept' = kept @ filter (\<lambda>i. i \<notin> R \<and> by_id i \<noteq> None) ids" "by_id' = by_id |` (- R)"
      "by_key' = by_key |` (- {rec_key (heap ! a) | a i. i \<in> R \<and> by_id i = Some a})"
      by (elim exE conjE) (rule that; assumption)
    from R None show ?thesis by (intro exI[of _ R]) auto
  next
    case (Some a)
    let ?s = "rec_status (heap ! a)"
    show ?thesis
    proof (cases "status_terminal ?s \<and> (expired now ?s \<or> 0 < over)")
      case True
      let ?by_id = "by_id(i := None)" and ?by_key = "by_key(rec_key (heap ! a) := None)"
      have ev: "evict_loop heap now ids (if expired now ?s then over else over - 1) kept ?by_id ?by_key =
          (kept', by_id', by_key')"
        using 2(4) Some True by (simp add: Let_def del: fun_upd_apply)
      have d: "distinct ids" using 2(5) by simp
      from 2(2)[OF Some refl refl True ev d] obtain R where R: "R \<subseteq> set ids"
        "\<forall>j \<in> R. \<exists>a. ?by_id j = Some a \<and> status_terminal (rec_status (heap ! a)) \<and>
      (expired now (rec_status (heap ! a)) \<or> 0 < (if expired now ?s then over else over - 1))"
        "kept' = kept @ filter (\<lambda>j. j \<notin> R \<and> ?by_id j \<noteq> None) ids" "by_id' = ?by_id |` (- R)"
        "by_key' = ?by_key |` (- {rec_key (heap ! a) | a j. j \<in> R \<and> ?by_id j = Some a})"
        by (elim exE conjE) (rule that; assumption)
      have i: "i \<notin> set ids" using 2(5) by simp
      have f: "filter (\<lambda>j. j \<notin> R \<and> ?by_id j \<noteq> None) ids = filter (\<lambda>j. j \<notin> insert i R \<and> by_id j \<noteq> None) ids"
        using i by (intro filter_cong) auto
      have iR: "?by_id j = by_id j" if "j \<in> R" for j using i R(1) that by auto
      have k: "insert (rec_key (heap ! a)) {rec_key (heap ! a) | a j. j \<in> R \<and> ?by_id j = Some a} =
          {rec_key (heap ! a) | a j. j \<in> insert i R \<and> by_id j = Some a}" (is "?L = ?M")
      proof (intro set_eqI iffI)
        fix x assume "x \<in> ?L"
        with iR Some show "x \<in> ?M" by (simp del: fun_upd_apply) metis
      next
        fix x assume "x \<in> ?M"
        then obtain b j where x: "x = rec_key (heap ! b)" and j: "j \<in> insert i R" and b: "by_id j = Some b"
          by (elim CollectE exE conjE) (rule that; assumption)
        show "x \<in> ?L"
        proof (cases "j \<in> R")
          case True
          from iR[OF True] b have "?by_id j = Some b" by simp
          with True x show ?thesis by blast
        qed (use x j b Some in simp)
      qed
      show ?thesis
      proof (intro exI[of _ "insert i R"] conjI)
        show "insert i R \<subseteq> set (i # ids)" using R(1) by auto
        show "\<forall>j \<in> insert i R. \<exists>a. by_id j = Some a \<and> status_terminal (rec_status (heap ! a)) \<and>
      (expired now (rec_status (heap ! a)) \<or> 0 < over)"
          using R(2) Some True by (fastforce split: if_splits)
        show "kept' = kept @ filter (\<lambda>j. j \<notin> insert i R \<and> by_id j \<noteq> None) (i # ids)"
          using R(3) f by simp
        show "by_id' = by_id |` (- insert i R)"
          using R(4) by (auto simp: restrict_map_def fun_eq_iff)
        show "by_key' = by_key |` (- {rec_key (heap ! a) | a j. j \<in> insert i R \<and> by_id j = Some a})"
          unfolding k[symmetric] using R(5) by (auto simp: restrict_map_def fun_eq_iff)
      qed
    next
      case False
      have ev: "evict_loop heap now ids over (kept @ [i]) by_id by_key = (kept', by_id', by_key')"
        using 2(4) Some False by (simp add: Let_def)
      have d: "distinct ids" using 2(5) by simp
      from 2(3)[OF Some refl refl False ev d] obtain R where R: "R \<subseteq> set ids"
        "\<forall>j \<in> R. \<exists>a. by_id j = Some a \<and> status_terminal (rec_status (heap ! a)) \<and>
      (expired now (rec_status (heap ! a)) \<or> 0 < over)"
        "kept' = (kept @ [i]) @ filter (\<lambda>j. j \<notin> R \<and> by_id j \<noteq> None) ids" "by_id' = by_id |` (- R)"
        "by_key' = by_key |` (- {rec_key (heap ! a) | a j. j \<in> R \<and> by_id j = Some a})"
        by (elim exE conjE) (rule that; assumption)
      have "i \<notin> R" using R(1) 2(5) by auto
      with R Some show ?thesis by (intro exI[of _ R]) auto
    qed
  qed
qed

definition live_ids :: "op_record list \<Rightarrow> (string \<rightharpoonup> nat) \<Rightarrow> string list \<Rightarrow> string list" where
  "live_ids heap by_id ids =
     filter (\<lambda>i. case by_id i of None \<Rightarrow> False | Some a \<Rightarrow> \<not> status_terminal (rec_status (heap ! a))) ids"

lemma live_ids_upd: "i \<notin> set ids \<Longrightarrow> live_ids heap (by_id(i := None)) ids = live_ids heap by_id ids"
  unfolding live_ids_def by (intro filter_cong) auto

lemma live_ids_length: "length (live_ids heap by_id ids) \<le> length ids"
  by (simp add: live_ids_def)

lemma evict_loop_length:
  assumes "evict_loop heap now ids over kept by_id by_key = (kept', by_id', by_key')" and "distinct ids"
  shows "length kept' \<le> length kept + max (length ids - over) (length (live_ids heap by_id ids))"
  using assms
proof (induction heap now ids over kept by_id by_key rule: evict_loop.induct)
  case (2 heap now i ids over kept by_id by_key)
  show ?case
  proof (cases "by_id i")
    case None
    with 2(1)[OF None] 2(4,5) have
      "length kept' \<le> length kept + max (length ids - over) (length (live_ids heap by_id ids))" by auto
    moreover have "length (live_ids heap by_id (i # ids)) = length (live_ids heap by_id ids)"
      using None by (simp add: live_ids_def)
    ultimately show ?thesis by simp
  next
    case (Some a)
    let ?s = "rec_status (heap ! a)"
    show ?thesis
    proof (cases "status_terminal ?s \<and> (expired now ?s \<or> 0 < over)")
      case True
      have i: "i \<notin> set ids" using 2(5) by simp
      have ev: "evict_loop heap now ids (if expired now ?s then over else over - 1) kept
          (by_id(i := None)) (by_key(rec_key (heap ! a) := None)) = (kept', by_id', by_key')"
        using 2(4) Some True by (simp add: Let_def del: fun_upd_apply)
      have d: "distinct ids" using 2(5) by simp
      from 2(2)[OF Some refl refl True ev d] have
        "length kept' \<le> length kept + max (length ids - (if expired now ?s then over else over - 1))
          (length (live_ids heap by_id ids))"
        unfolding live_ids_upd[OF i] .
      moreover have "length (live_ids heap by_id (i # ids)) = length (live_ids heap by_id ids)"
        using Some True by (simp add: live_ids_def)
      ultimately show ?thesis using True by (auto split: if_splits)
    next
      case False
      have ev: "evict_loop heap now ids over (kept @ [i]) by_id by_key = (kept', by_id', by_key')"
        using 2(4) Some False by (simp add: Let_def)
      have d: "distinct ids" using 2(5) by simp
      from 2(3)[OF Some refl refl False ev d] have l:
        "length kept' \<le> length kept + 1 + max (length ids - over) (length (live_ids heap by_id ids))"
        by simp
      show ?thesis
      proof (cases "status_terminal ?s")
        case True
        with False have "over = 0" by simp
        with l live_ids_length[of heap by_id ids] show ?thesis by simp
      next
        case live: False
        then have "length (live_ids heap by_id (i # ids)) = Suc (length (live_ids heap by_id ids))"
          using Some by (simp add: live_ids_def)
        with l show ?thesis by simp
      qed
    qed
  qed
qed simp

subsection \<open>The invariant of the registry\<close>

definition indexed :: "op_world \<Rightarrow> bool" where
  "indexed w \<longleftrightarrow>
     (\<forall>i a. w_by_id w i = Some a \<longrightarrow> a < length (w_heap w) \<and>
        os_id (rec_status (w_heap w ! a)) = i \<and> w_by_key w (rec_key (w_heap w ! a)) = Some a) \<and>
     (\<forall>k a. w_by_key w k = Some a \<longrightarrow> a < length (w_heap w) \<and>
        rec_key (w_heap w ! a) = k \<and> w_by_id w (os_id (rec_status (w_heap w ! a))) = Some a) \<and>
     distinct (w_order w) \<and> set (w_order w) = dom (w_by_id w) \<and>
     dom (w_by_key w) \<inter> dom (w_incompatible w) = {}"

definition recorded :: "operation_status \<Rightarrow> bool" where
  "recorded s \<longleftrightarrow> status_terminal s \<and> os_status s \<noteq> None \<and> os_message s \<noteq> None"

text \<open>A record is finished with its response, or a pipeline owns it and both maps lead to it.\<close>

definition owned :: "op_world \<Rightarrow> bool" where
  "owned w \<longleftrightarrow>
     (\<forall>a < length (w_heap w).
        if status_terminal (rec_status (w_heap w ! a))
        then a \<notin> w_handles w \<and> recorded (rec_status (w_heap w ! a))
        else a \<in> w_handles w \<and> w_by_id w (os_id (rec_status (w_heap w ! a))) = Some a) \<and>
     w_handles w \<subseteq> {..<length (w_heap w)}"

definition op_inv :: "op_world \<Rightarrow> bool" where
  "op_inv w \<longleftrightarrow> indexed w \<and> owned w \<and> w_streams w \<le> max_live_streams"

lemma indexedI:
  assumes "\<And>i a. w_by_id w i = Some a \<Longrightarrow> a < length (w_heap w) \<and>
      os_id (rec_status (w_heap w ! a)) = i \<and> w_by_key w (rec_key (w_heap w ! a)) = Some a"
    and "\<And>k a. w_by_key w k = Some a \<Longrightarrow> a < length (w_heap w) \<and>
      rec_key (w_heap w ! a) = k \<and> w_by_id w (os_id (rec_status (w_heap w ! a))) = Some a"
    and "distinct (w_order w)" and "set (w_order w) = dom (w_by_id w)"
    and "dom (w_by_key w) \<inter> dom (w_incompatible w) = {}"
  shows "indexed w"
  unfolding indexed_def using assms by (intro conjI allI impI) blast+

lemma indexedD:
  assumes "indexed w"
  shows indexed_id: "w_by_id w i = Some a \<Longrightarrow> a < length (w_heap w) \<and>
      os_id (rec_status (w_heap w ! a)) = i \<and> w_by_key w (rec_key (w_heap w ! a)) = Some a"
    and indexed_key: "w_by_key w k = Some a \<Longrightarrow> a < length (w_heap w) \<and>
      rec_key (w_heap w ! a) = k \<and> w_by_id w (os_id (rec_status (w_heap w ! a))) = Some a"
    and indexed_order: "distinct (w_order w)" "set (w_order w) = dom (w_by_id w)"
    and indexed_apart: "dom (w_by_key w) \<inter> dom (w_incompatible w) = {}"
  using assms unfolding indexed_def by blast+

lemma ownedI:
  assumes "\<And>a. a < length (w_heap w) \<Longrightarrow> status_terminal (rec_status (w_heap w ! a)) \<Longrightarrow>
      a \<notin> w_handles w \<and> recorded (rec_status (w_heap w ! a))"
    and "\<And>a. a < length (w_heap w) \<Longrightarrow> \<not> status_terminal (rec_status (w_heap w ! a)) \<Longrightarrow>
      a \<in> w_handles w \<and> w_by_id w (os_id (rec_status (w_heap w ! a))) = Some a"
    and "w_handles w \<subseteq> {..<length (w_heap w)}"
  shows "owned w"
  using assms by (simp add: owned_def)

lemma ownedD:
  assumes "owned w"
  shows owned_done: "a < length (w_heap w) \<Longrightarrow> status_terminal (rec_status (w_heap w ! a)) \<Longrightarrow>
      a \<notin> w_handles w \<and> recorded (rec_status (w_heap w ! a))"
    and owned_live: "a < length (w_heap w) \<Longrightarrow> \<not> status_terminal (rec_status (w_heap w ! a)) \<Longrightarrow>
      a \<in> w_handles w \<and> w_by_id w (os_id (rec_status (w_heap w ! a))) = Some a"
    and owned_handle: "a \<in> w_handles w \<Longrightarrow>
      a < length (w_heap w) \<and> \<not> status_terminal (rec_status (w_heap w ! a))"
  using assms unfolding owned_def by (meson lessThan_iff subsetD)+

lemma evict_fields:
  assumes i: "indexed w"
  obtains R where
    "\<forall>j \<in> R. \<exists>a. w_by_id w j = Some a \<and> status_terminal (rec_status (w_heap w ! a)) \<and>
      (expired now (rec_status (w_heap w ! a)) \<or> 0 < length (w_order w) - max_records)"
    "w_order (evict now w) = filter (\<lambda>j. j \<notin> R) (w_order w)"
    "w_by_id (evict now w) = w_by_id w |` (- R)"
    "\<forall>j a. w_by_id w j = Some a \<longrightarrow>
      w_by_key (evict now w) (rec_key (w_heap w ! a)) = (if j \<in> R then None else Some a)"
    "w_by_key (evict now w) \<subseteq>\<^sub>m w_by_key w"
    "w_heap (evict now w) = w_heap w" "w_handles (evict now w) = w_handles w"
    "w_incompatible (evict now w) = w_incompatible w" "w_streams (evict now w) = w_streams w"
proof -
  obtain kept by_id by_key where e: "evict_loop (w_heap w) now (w_order w)
      (length (w_order w) - max_records) [] (w_by_id w) (w_by_key w) = (kept, by_id, by_key)"
    by (metis prod_cases3)
  from evict_loop_removes[OF e indexed_order(1)[OF i]] obtain R where R: "R \<subseteq> set (w_order w)"
    "\<forall>j \<in> R. \<exists>a. w_by_id w j = Some a \<and> status_terminal (rec_status (w_heap w ! a)) \<and>
      (expired now (rec_status (w_heap w ! a)) \<or> 0 < length (w_order w) - max_records)"
    "kept = [] @ filter (\<lambda>j. j \<notin> R \<and> w_by_id w j \<noteq> None) (w_order w)" "by_id = w_by_id w |` (- R)"
    "by_key = w_by_key w |` (- {rec_key (w_heap w ! a) | a j. j \<in> R \<and> w_by_id w j = Some a})"
    by (elim exE conjE) (rule that; assumption)
  let ?gone = "{rec_key (w_heap w ! a) | a j. j \<in> R \<and> w_by_id w j = Some a}"
  have gone: "rec_key (w_heap w ! a) \<in> ?gone \<longleftrightarrow> j \<in> R" if j: "w_by_id w j = Some a" for j a
  proof
    assume "rec_key (w_heap w ! a) \<in> ?gone"
    then obtain b l where b: "rec_key (w_heap w ! a) = rec_key (w_heap w ! b)" "l \<in> R" "w_by_id w l = Some b"
      by auto
    from indexed_id[OF i j] indexed_id[OF i b(3)] b(1) have "Some a = Some b" by metis
    then have "a = b" by simp
    with indexed_id[OF i j] indexed_id[OF i b(3)] have "j = l" by metis
    with b(2) show "j \<in> R" by simp
  next
    assume "j \<in> R"
    with j show "rec_key (w_heap w ! a) \<in> ?gone" by blast
  qed
  have ev: "evict now w = w\<lparr>w_order := kept, w_by_id := by_id, w_by_key := by_key\<rparr>"
    by (simp add: evict_def e)
  have "filter (\<lambda>j. j \<notin> R \<and> w_by_id w j \<noteq> None) (w_order w) = filter (\<lambda>j. j \<notin> R) (w_order w)"
    using indexed_order(2)[OF i] by (intro filter_cong) auto
  with R(3) ev have "w_order (evict now w) = filter (\<lambda>j. j \<notin> R) (w_order w)" by simp
  moreover have "w_by_key (evict now w) (rec_key (w_heap w ! a)) = (if j \<in> R then None else Some a)"
    if j: "w_by_id w j = Some a" for j a
  proof -
    have "by_key (rec_key (w_heap w ! a)) = (if rec_key (w_heap w ! a) \<in> ?gone then None else Some a)"
      using indexed_id[OF i j] unfolding R(5) restrict_map_def by (simp del: mem_Collect_eq)
    then have "by_key (rec_key (w_heap w ! a)) = (if j \<in> R then None else Some a)"
      unfolding gone[OF j] .
    then show ?thesis by (simp add: ev)
  qed
  moreover have "w_by_key (evict now w) \<subseteq>\<^sub>m w_by_key w"
    unfolding ev R(5) by (simp add: map_le_def)
  ultimately show thesis using R(2) by (intro that[of R]) (simp_all add: ev R(4))
qed

lemma evict_inv:
  assumes "op_inv w" shows "op_inv (evict now w)"
proof -
  from assms have i: "indexed w" and o: "owned w" and s: "w_streams w \<le> max_live_streams"
    by (auto simp: op_inv_def)
  obtain R where
    R: "\<forall>j \<in> R. \<exists>a. w_by_id w j = Some a \<and> status_terminal (rec_status (w_heap w ! a)) \<and>
      (expired now (rec_status (w_heap w ! a)) \<or> 0 < length (w_order w) - max_records)"
    and order: "w_order (evict now w) = filter (\<lambda>j. j \<notin> R) (w_order w)"
    and by_id: "w_by_id (evict now w) = w_by_id w |` (- R)"
    and by_key: "\<forall>j a. w_by_id w j = Some a \<longrightarrow>
      w_by_key (evict now w) (rec_key (w_heap w ! a)) = (if j \<in> R then None else Some a)"
    and le: "w_by_key (evict now w) \<subseteq>\<^sub>m w_by_key w"
    and same: "w_heap (evict now w) = w_heap w" "w_handles (evict now w) = w_handles w"
    "w_incompatible (evict now w) = w_incompatible w" "w_streams (evict now w) = w_streams w"
    by (rule evict_fields[OF i, of now]) (rule that; assumption)
  have "indexed (evict now w)"
  proof (rule indexedI, unfold same)
    fix j a assume "w_by_id (evict now w) j = Some a"
    then have "w_by_id w j = Some a" "j \<notin> R" by (auto simp: by_id restrict_map_def split: if_splits)
    with indexed_id[OF i] by_key show "a < length (w_heap w) \<and> os_id (rec_status (w_heap w ! a)) = j \<and>
      w_by_key (evict now w) (rec_key (w_heap w ! a)) = Some a" by simp
  next
    fix k a assume k': "w_by_key (evict now w) k = Some a"
    with le have k: "w_by_key w k = Some a" by (auto simp: map_le_def dom_def)
    from indexed_key[OF i k] by_key k' have "os_id (rec_status (w_heap w ! a)) \<notin> R" by (metis option.distinct(1))
    with indexed_key[OF i k] show "a < length (w_heap w) \<and> rec_key (w_heap w ! a) = k \<and>
      w_by_id (evict now w) (os_id (rec_status (w_heap w ! a))) = Some a" by (simp add: by_id)
  next
    show "distinct (w_order (evict now w))" using indexed_order[OF i] by (simp add: order)
    show "set (w_order (evict now w)) = dom (w_by_id (evict now w))"
      using indexed_order[OF i] by (auto simp: order by_id)
    show "dom (w_by_key (evict now w)) \<inter> dom (w_incompatible w) = {}"
      using indexed_apart[OF i] map_le_implies_dom_le[OF le] by blast
  qed
  moreover have "owned (evict now w)"
  proof (rule ownedI, unfold same)
    fix a assume a: "a < length (w_heap w)" "\<not> status_terminal (rec_status (w_heap w ! a))"
    from owned_live[OF o this] a(2) R show "a \<in> w_handles w \<and>
        w_by_id (evict now w) (os_id (rec_status (w_heap w ! a))) = Some a"
      by (fastforce simp: by_id restrict_map_def)
  qed (use owned_done[OF o] owned_handle[OF o] in auto)
  ultimately show ?thesis using s by (simp add: op_inv_def same)
qed

lemma evict_heap [simp]: "w_heap (evict now w) = w_heap w"
  by (simp add: evict_def split: prod.split)

lemma evict_incompatible [simp]: "w_incompatible (evict now w) = w_incompatible w"
  by (simp add: evict_def split: prod.split)

lemma evict_handles [simp]: "w_handles (evict now w) = w_handles w"
  by (simp add: evict_def split: prod.split)

subsection \<open>Every step keeps the invariant\<close>

text \<open>Reports leave a finished record alone and never finish one.\<close>

definition quiet :: "(operation_status \<Rightarrow> operation_status) \<Rightarrow> bool" where
  "quiet f \<longleftrightarrow> (\<forall>s. os_id (f s) = os_id s \<and> status_terminal (f s) = status_terminal s \<and>
     (status_terminal s \<longrightarrow> f s = s))"

lemma quiet_reports [simp]: "quiet (set_stage stg)" "quiet (set_progress p)" "quiet (note_recovery r)"
  by (auto simp: quiet_def set_stage_def set_progress_def note_recovery_def status_terminal_def
      is_terminal_def)

lemma on_record_simps [simp]:
  "length (w_heap (on_record a f w)) = length (w_heap w)" "w_handles (on_record a f w) = w_handles w"
  "w_by_id (on_record a f w) = w_by_id w" "w_by_key (on_record a f w) = w_by_key w"
  "w_order (on_record a f w) = w_order w" "w_incompatible (on_record a f w) = w_incompatible w"
  "w_streams (on_record a f w) = w_streams w"
  by (simp_all add: on_record_def)

lemma on_record_nth: "b < length (w_heap w) \<Longrightarrow>
    w_heap (on_record a f w) ! b = (if b = a then f (w_heap w ! a) else w_heap w ! b)"
  by (auto simp: on_record_def)

lemma indexed_update:
  assumes "indexed w" and "w_by_id w' = w_by_id w" "w_by_key w' = w_by_key w" "w_order w' = w_order w"
    "w_incompatible w' = w_incompatible w" and len: "length (w_heap w') = length (w_heap w)"
    and same: "\<And>b. b < length (w_heap w) \<Longrightarrow> rec_key (w_heap w' ! b) = rec_key (w_heap w ! b) \<and>
      os_id (rec_status (w_heap w' ! b)) = os_id (rec_status (w_heap w ! b))"
  shows "indexed w'"
  by (rule indexedI) (use assms indexedD[OF assms(1)] in auto)

lemma on_record_inv:
  assumes "op_inv w"
    and f: "\<And>r. rec_key (f r) = rec_key r \<and> os_id (rec_status (f r)) = os_id (rec_status r) \<and>
      status_terminal (rec_status (f r)) = status_terminal (rec_status r) \<and>
      (status_terminal (rec_status r) \<longrightarrow> rec_status (f r) = rec_status r)"
  shows "op_inv (on_record a f w)"
proof -
  from assms(1) have i: "indexed w" and o: "owned w" and s: "w_streams w \<le> max_live_streams"
    by (auto simp: op_inv_def)
  have "indexed (on_record a f w)"
    by (rule indexed_update[OF i]) (simp_all add: on_record_nth f)
  moreover have "owned (on_record a f w)"
  proof (rule ownedI, unfold on_record_simps)
    fix b assume b: "b < length (w_heap w)" and t: "status_terminal (rec_status (w_heap (on_record a f w) ! b))"
    show "b \<notin> w_handles w \<and> recorded (rec_status (w_heap (on_record a f w) ! b))"
      using owned_done[OF o b] t b f[of "w_heap w ! b"] by (cases "b = a") (simp_all add: on_record_nth)
  next
    fix b assume b: "b < length (w_heap w)" and t: "\<not> status_terminal (rec_status (w_heap (on_record a f w) ! b))"
    show "b \<in> w_handles w \<and>
        w_by_id w (os_id (rec_status (w_heap (on_record a f w) ! b))) = Some b"
      using owned_live[OF o b] t b f[of "w_heap w ! b"] by (cases "b = a") (simp_all add: on_record_nth)
  qed (use owned_handle[OF o] in blast)
  ultimately show ?thesis using s by (simp add: op_inv_def)
qed

lemma on_status_inv: "op_inv w \<Longrightarrow> quiet f \<Longrightarrow> op_inv (on_status a f w)"
  unfolding on_status_def by (rule on_record_inv) (auto simp: quiet_def)

lemma close_inv:
  assumes "op_inv w" and a: "a \<in> w_handles w"
    and f: "os_id (f (rec_status (w_heap w ! a))) = os_id (rec_status (w_heap w ! a))"
      "recorded (f (rec_status (w_heap w ! a)))"
  shows "op_inv ((on_status a f w)\<lparr>w_handles := w_handles w - {a}\<rparr>)" (is "op_inv ?w")
proof -
  from assms(1) have i: "indexed w" and o: "owned w" and s: "w_streams w \<le> max_live_streams"
    by (auto simp: op_inv_def)
  from owned_handle[OF o a] have len: "a < length (w_heap w)" by simp
  have nth: "rec_status (w_heap ?w ! b) = (if b = a then f (rec_status (w_heap w ! a)) else rec_status (w_heap w ! b))"
    "rec_key (w_heap ?w ! b) = rec_key (w_heap w ! b)" if "b < length (w_heap w)" for b
    using that by (simp_all add: on_status_def on_record_nth)
  have same: "length (w_heap ?w) = length (w_heap w)" "w_by_id ?w = w_by_id w" "w_by_key ?w = w_by_key w"
    "w_order ?w = w_order w" "w_incompatible ?w = w_incompatible w" "w_handles ?w = w_handles w - {a}"
    by (simp_all add: on_status_def)
  have t: "status_terminal (f (rec_status (w_heap w ! a)))" using f(2) by (simp add: recorded_def)
  have "indexed ?w"
    by (rule indexed_update[OF i]; (simp only: same)?) (simp add: on_status_def on_record_nth f(1))
  moreover have "owned ?w"
  proof (rule ownedI, unfold same)
    fix b assume b: "b < length (w_heap w)" and d: "status_terminal (rec_status (w_heap ?w ! b))"
    show "b \<notin> w_handles w - {a} \<and> recorded (rec_status (w_heap ?w ! b))"
      using owned_done[OF o b] d f(2) unfolding nth(1)[OF b] by (cases "b = a") simp_all
  next
    fix b assume b: "b < length (w_heap w)" and d: "\<not> status_terminal (rec_status (w_heap ?w ! b))"
    show "b \<in> w_handles w - {a} \<and> w_by_id w (os_id (rec_status (w_heap ?w ! b))) = Some b"
      using owned_live[OF o b] d t unfolding nth(1)[OF b] by (cases "b = a") simp_all
  qed (use owned_handle[OF o] in blast)
  ultimately show ?thesis using s by (simp add: op_inv_def on_status_def)
qed

lemma finish_inv: "op_inv w \<Longrightarrow> a \<in> w_handles w \<Longrightarrow> op_inv (finish now a code msg generation w)"
  unfolding finish_def
  by (rule close_inv) (auto simp: apply_terminal_def recorded_def status_terminal_def is_terminal_def)

lemma drop_handle_inv: "op_inv w \<Longrightarrow> a \<in> w_handles w \<Longrightarrow> op_inv (drop_handle now a w)"
  unfolding drop_handle_def
  using owned_handle[of w a]
  by (intro close_inv)
    (auto simp: drop_status_def recorded_def status_terminal_def is_terminal_def op_inv_def)

lemma insert_record_simps [simp]:
  "w_heap (insert_record r w) = w_heap w @ [r]" "w_handles (insert_record r w) = w_handles w"
  "w_by_id (insert_record r w) = (w_by_id w)(os_id (rec_status r) \<mapsto> length (w_heap w))"
  "w_by_key (insert_record r w) = (w_by_key w)(rec_key r \<mapsto> length (w_heap w))"
  "w_order (insert_record r w) = w_order w @ [os_id (rec_status r)]"
  "w_incompatible (insert_record r w) = w_incompatible w" "w_streams (insert_record r w) = w_streams w"
  by (simp_all add: insert_record_def)

lemma insert_record_indexed:
  assumes i: "indexed w" and new: "os_id (rec_status r) \<notin> dom (w_by_id w)" "rec_key r \<notin> dom (w_by_key w)"
    "rec_key r \<notin> dom (w_incompatible w)"
  shows "indexed (insert_record r w)"
proof (rule indexedI, unfold insert_record_simps)
  fix j a assume j: "((w_by_id w)(os_id (rec_status r) \<mapsto> length (w_heap w))) j = Some a"
  show "a < length (w_heap w @ [r]) \<and> os_id (rec_status ((w_heap w @ [r]) ! a)) = j \<and>
    ((w_by_key w)(rec_key r \<mapsto> length (w_heap w))) (rec_key ((w_heap w @ [r]) ! a)) = Some a"
    using j indexed_id[OF i, of j a] new by (auto simp: nth_append split: if_splits)
next
  fix k a assume k: "((w_by_key w)(rec_key r \<mapsto> length (w_heap w))) k = Some a"
  show "a < length (w_heap w @ [r]) \<and> rec_key ((w_heap w @ [r]) ! a) = k \<and>
    ((w_by_id w)(os_id (rec_status r) \<mapsto> length (w_heap w))) (os_id (rec_status ((w_heap w @ [r]) ! a))) = Some a"
    using k indexed_key[OF i, of k a] new by (auto simp: nth_append split: if_splits)
qed (use new indexed_order[OF i] indexed_apart[OF i] in auto)

lemma insert_finished_inv:
  assumes "op_inv w" and new: "os_id (rec_status r) \<notin> dom (w_by_id w)" "rec_key r \<notin> dom (w_by_key w)"
    "rec_key r \<notin> dom (w_incompatible w)" and fin: "recorded (rec_status r)"
  shows "op_inv (insert_record r w)"
proof -
  from assms(1) have i: "indexed w" and o: "owned w" and s: "w_streams w \<le> max_live_streams"
    by (auto simp: op_inv_def)
  have "owned (insert_record r w)"
  proof (rule ownedI, unfold insert_record_simps)
    fix b assume b: "b < length (w_heap w @ [r])"
    show "b \<notin> w_handles w \<and> recorded (rec_status ((w_heap w @ [r]) ! b))"
      if "status_terminal (rec_status ((w_heap w @ [r]) ! b))"
      using that b fin owned_done[OF o, of b] owned_handle[OF o, of b]
      by (cases "b = length (w_heap w)") (auto simp: nth_append)
    show "b \<in> w_handles w \<and> ((w_by_id w)(os_id (rec_status r) \<mapsto> length (w_heap w)))
        (os_id (rec_status ((w_heap w @ [r]) ! b))) = Some b"
      if "\<not> status_terminal (rec_status ((w_heap w @ [r]) ! b))"
      using that b fin owned_live[OF o, of b] new
      by (cases "b = length (w_heap w)") (auto simp: nth_append recorded_def)
  qed (use owned_handle[OF o] in force)
  with insert_record_indexed[OF i new] s show ?thesis by (simp add: op_inv_def)
qed

lemma insert_live_inv:
  assumes "op_inv w" and new: "os_id (rec_status r) \<notin> dom (w_by_id w)" "rec_key r \<notin> dom (w_by_key w)"
    "rec_key r \<notin> dom (w_incompatible w)" and live: "\<not> status_terminal (rec_status r)"
  shows "op_inv ((insert_record r w)\<lparr>w_handles := insert (length (w_heap w)) (w_handles w)\<rparr>)" (is "op_inv ?w")
proof -
  from assms(1) have i: "indexed w" and o: "owned w" and s: "w_streams w \<le> max_live_streams"
    by (auto simp: op_inv_def)
  have fields: "w_heap ?w = w_heap w @ [r]" "w_handles ?w = insert (length (w_heap w)) (w_handles w)"
    "w_by_id ?w = (w_by_id w)(os_id (rec_status r) \<mapsto> length (w_heap w))" by simp_all
  have "owned ?w"
  proof (rule ownedI, unfold fields)
    fix b assume b: "b < length (w_heap w @ [r])"
    show "b \<notin> insert (length (w_heap w)) (w_handles w) \<and> recorded (rec_status ((w_heap w @ [r]) ! b))"
      if "status_terminal (rec_status ((w_heap w @ [r]) ! b))"
      using that b live owned_done[OF o, of b] owned_handle[OF o, of b]
      by (cases "b = length (w_heap w)") (auto simp: nth_append)
    show "b \<in> insert (length (w_heap w)) (w_handles w) \<and>
        ((w_by_id w)(os_id (rec_status r) \<mapsto> length (w_heap w)))
        (os_id (rec_status ((w_heap w @ [r]) ! b))) = Some b"
      if "\<not> status_terminal (rec_status ((w_heap w @ [r]) ! b))"
      using that b owned_live[OF o, of b] new
      by (cases "b = length (w_heap w)") (auto simp: nth_append)
  qed (use owned_handle[OF o] in force)
  moreover have "indexed ?w"
    by (rule indexed_update[OF insert_record_indexed[OF i new]]) simp_all
  ultimately show ?thesis using s by (simp add: op_inv_def)
qed

lemma accepted_live [simp]:
  "\<not> status_terminal (rec_status (accepted_record now i key operation op_hash repository worktree recovers))"
  "os_id (rec_status (accepted_record now i key operation op_hash repository worktree recovers)) = i"
  "rec_key (accepted_record now i key operation op_hash repository worktree recovers) = key"
  by (simp_all add: accepted_record_def status_terminal_def is_terminal_def)

lemma evict_ids_shrink: "indexed w \<Longrightarrow> dom (w_by_id (evict now w)) \<subseteq> dom (w_by_id w)"
  by (rule evict_fields[of w now]) (auto simp: restrict_map_def split: if_splits)

lemma admit_inv:
  assumes "op_inv w" and "minted \<notin> dom (w_by_id w)"
  shows "op_inv (snd (admit now minted key operation op_hash repository worktree recovers w))"
proof -
  let ?w = "evict now w"
  have e: "op_inv ?w" by (rule evict_inv[OF assms(1)])
  have m: "minted \<notin> dom (w_by_id ?w)"
    using assms evict_ids_shrink[of w now] by (auto simp: op_inv_def)
  show ?thesis
  proof (cases "w_incompatible ?w key")
    case inc: None
    show ?thesis
    proof (cases "w_by_key ?w key")
      case None
      let ?r = "accepted_record now minted key operation op_hash repository worktree recovers"
      have "op_inv ((insert_record ?r ?w)\<lparr>w_handles := insert (length (w_heap ?w)) (w_handles ?w)\<rparr>)"
        by (rule insert_live_inv[OF e]) (use m None inc in \<open>simp_all add: domIff\<close>)
      with None inc show ?thesis by (simp add: admit_def Let_def)
    next
      case (Some a)
      with inc e show ?thesis by (simp add: admit_def Let_def)
    qed
  next
    case (Some b)
    with e show ?thesis by (cases b) (simp add: admit_def Let_def)
  qed
qed

lemma op_step_inv: "op_step w w' \<Longrightarrow> op_inv w \<Longrightarrow> op_inv w'"
proof (induction rule: op_step.induct)
  case (step_cancel a w)
  then show ?case by (intro on_record_inv) (auto simp: request_cancel_def)
next
  case (step_acquire w)
  then show ?case
    by (auto simp: acquire_stream_def op_inv_def owned_def indexed_def)
next
  case (step_release w)
  then show ?case by (auto simp: release_stream_def op_inv_def owned_def indexed_def)
qed (simp_all add: admit_inv finish_inv drop_handle_inv on_status_inv)

lemma rehydrate_records_inv:
  assumes "op_inv w" and "distinct (map fst rs)" and "distinct (map (os_id \<circ> snd) rs)"
    and "\<And>key s. (key, s) \<in> set rs \<Longrightarrow> recorded s \<and> key \<notin> dom (w_by_key w) \<and>
      key \<notin> dom (w_incompatible w) \<and> os_id s \<notin> dom (w_by_id w)"
  shows "op_inv (fold (\<lambda>(key, s). insert_record \<lparr>rec_key = key, rec_status = s, rec_cancel = False\<rparr>) rs w)"
  using assms
proof (induction rs arbitrary: w)
  case (Cons r rs)
  obtain key s where r: "r = (key, s)" by (cases r)
  let ?r = "\<lparr>rec_key = key, rec_status = s, rec_cancel = False\<rparr>"
  have "op_inv (insert_record ?r w)"
    by (rule insert_finished_inv) (use Cons.prems(1) Cons.prems(4)[of key s] r in simp_all)
  moreover have "recorded s' \<and> k \<notin> dom (w_by_key (insert_record ?r w)) \<and>
      k \<notin> dom (w_incompatible (insert_record ?r w)) \<and> os_id s' \<notin> dom (w_by_id (insert_record ?r w))"
    if k: "(k, s') \<in> set rs" for k s'
  proof -
    from Cons.prems(2,3) r k have "k \<noteq> key" "os_id s' \<noteq> os_id s" by force+
    with Cons.prems(4)[of k s'] k show ?thesis by auto
  qed
  ultimately show ?case using Cons.IH Cons.prems(2,3) r by simp
qed simp

lemma incompatible_dom:
  "dom (fold (\<lambda>(key, i, why) m. m(key \<mapsto> (i, why))) xs m) = dom m \<union> fst ` set xs"
  by (induction xs arbitrary: m) (auto simp: case_prod_unfold)

lemma rehydrate_inv:
  assumes "journal_ok records incompatible"
  shows "op_inv (rehydrate records incompatible empty_world)"
  unfolding rehydrate_def
proof (rule rehydrate_records_inv)
  show "op_inv (empty_world\<lparr>w_incompatible :=
      fold (\<lambda>(key, i, why) m. m(key \<mapsto> (i, why))) incompatible (w_incompatible empty_world)\<rparr>)"
    by (simp add: op_inv_def indexed_def owned_def empty_world_def)
qed (use assms in \<open>auto simp: journal_ok_def list_all_iff recorded_def empty_world_def incompatible_dom
  simp del: dom_def domIff\<close>)

lemma reachable_inv: "op_reachable w \<Longrightarrow> op_inv w"
  by (induction rule: op_reachable.induct) (auto simp: rehydrate_inv op_step_inv)

interpretation registry: step_invariant op_step op_inv
  by unfold_locales (rule op_step_inv)

subsection \<open>A finished record is final\<close>

definition finished_as :: "nat \<Rightarrow> operation_status \<Rightarrow> op_world \<Rightarrow> bool" where
  "finished_as a s w \<longleftrightarrow>
     a < length (w_heap w) \<and> rec_status (w_heap w ! a) = s \<and> status_terminal s"

lemma admit_heap:
  "\<exists>rs. w_heap (snd (admit now minted key operation op_hash repository worktree recovers w)) = w_heap w @ rs"
  by (auto simp: admit_def Let_def split: option.split)

lemma op_step_finished:
  assumes "op_step w w'" and "op_inv w" and "finished_as a s w"
  shows "finished_as a s w'"
proof -
  from assms(2) have o: "owned w" by (simp add: op_inv_def)
  from assms(3) have a: "a < length (w_heap w)" "rec_status (w_heap w ! a) = s" "status_terminal s"
    by (simp_all add: finished_as_def)
  have quiet: "finished_as a s (on_status b f w)" if "quiet f" for b f
    using that a by (auto simp: finished_as_def on_status_def on_record_nth quiet_def)
  have other: "b \<noteq> a" if "b \<in> w_handles w" for b
    using owned_handle[OF o that] a by auto
  from assms(1) show ?thesis
  proof cases
    case (step_admit minted now key operation op_hash repository worktree recovers)
    obtain rs where "w_heap w' = w_heap w @ rs"
      unfolding step_admit(1) using admit_heap by blast
    with a show ?thesis by (simp add: finished_as_def nth_append)
  next
    case (step_cancel b)
    with a show ?thesis by (auto simp: finished_as_def on_record_nth request_cancel_def)
  next
    case (step_finish b now code msg generation)
    with a other[of b] show ?thesis by (simp add: finished_as_def finish_def on_status_def on_record_nth)
  next
    case (step_drop b now)
    with a other[of b] show ?thesis by (simp add: finished_as_def drop_handle_def on_status_def on_record_nth)
  qed (use quiet a in \<open>auto simp: acquire_stream_def release_stream_def finished_as_def\<close>)
qed

interpretation outcome: step_stable op_step op_inv "finished_as a s" for a s
  by unfold_locales (rule op_step_finished)

text \<open>
  C15: once an operation has finished, no later call of the registry, whether a late stage or transfer
  report, a cancellation, a retry or an eviction, changes what its record says; every waiter is
  answered with the response recorded then.
\<close>

theorem terminal_is_final:
  assumes "op_reachable w" and "op_step\<^sup>*\<^sup>* w w'" and "a < length (w_heap w)"
    and "status_terminal (rec_status (w_heap w ! a))"
  shows "rec_status (w_heap w' ! a) = rec_status (w_heap w ! a) \<and>
    wait_terminal (w_heap w' ! a) = Some (replay (rec_status (w_heap w ! a)))"
proof -
  have "finished_as a (rec_status (w_heap w ! a)) w'"
    by (rule outcome.steps_stable[OF assms(2) reachable_inv[OF assms(1)]])
      (use assms in \<open>simp add: finished_as_def\<close>)
  then show ?thesis by (simp add: finished_as_def wait_terminal_def)
qed

definition sample_admit :: "op_world \<Rightarrow> admission \<times> op_world" where
  "sample_admit = admit 10 ''op1'' ''key'' StageAll ''hash'' ''repo'' ''tree'' None"

definition sample_running :: op_world where
  "sample_running = snd (sample_admit (rehydrate [] [] empty_world))"

definition sample_finished :: op_world where
  "sample_finished = finish 20 0 200 ''done'' None sample_running"

lemma sample_running_eq: "sample_running =
    \<lparr>w_heap = [accepted_record 10 ''op1'' ''key'' StageAll ''hash'' ''repo'' ''tree'' None],
     w_handles = {0}, w_by_key = [''key'' \<mapsto> 0], w_by_id = [''op1'' \<mapsto> 0], w_order = [''op1''],
     w_incompatible = Map.empty, w_streams = 0\<rparr>"
  by (simp add: sample_running_def sample_admit_def admit_def rehydrate_def empty_world_def evict_def
      insert_record_def accepted_record_def)

lemma sample_running_reachable: "op_reachable sample_running"
proof -
  have "op_reachable (rehydrate [] [] empty_world)"
    by (rule op_reachable.start) (simp add: journal_ok_def)
  moreover have "op_step (rehydrate [] [] empty_world) sample_running"
    unfolding sample_running_def sample_admit_def
    by (rule step_admit) (simp add: rehydrate_def empty_world_def)
  ultimately show ?thesis by (rule op_reachable.run)
qed

lemma sample_finished_step: "op_step sample_running sample_finished"
  unfolding sample_finished_def by (rule step_finish) (simp add: sample_running_eq)

lemma sample_finished_status:
  "rec_status (w_heap sample_finished ! 0) = apply_terminal 20 200 ''done'' None
     (rec_status (accepted_record 10 ''op1'' ''key'' StageAll ''hash'' ''repo'' ''tree'' None))"
  "length (w_heap sample_finished) = 1"
  by (simp_all add: sample_finished_def sample_running_eq finish_def on_status_def on_record_def)

theorem terminal_is_final_witness:
  "op_reachable sample_finished \<and>
   op_step\<^sup>*\<^sup>* sample_finished (on_status 0 (set_stage Executing) sample_finished) \<and>
   wait_terminal (w_heap (on_status 0 (set_stage Executing) sample_finished) ! 0) = Some (200, ''done'')"
proof (intro conjI)
  show r: "op_reachable sample_finished"
    by (rule op_reachable.run[OF sample_running_reachable sample_finished_step])
  show s: "op_step\<^sup>*\<^sup>* sample_finished (on_status 0 (set_stage Executing) sample_finished)"
    by (rule r_into_rtranclp, rule step_stage) (simp add: sample_finished_status)
  have "replay (rec_status (w_heap sample_finished ! 0)) = (200, ''done'')"
    by (simp add: sample_finished_status replay_def apply_terminal_def status_from_u16_def)
  with terminal_is_final[OF r s, of 0] show
    "wait_terminal (w_heap (on_status 0 (set_stage Executing) sample_finished) ! 0) = Some (200, ''done'')"
    by (simp add: sample_finished_status apply_terminal_def status_terminal_def is_terminal_def is_success_def)
qed

subsection \<open>A running record is never lost\<close>

text \<open>
  C32: in every reachable registry a record that has not finished is owned by a running pipeline and is
  still found by its id and by its key, so eviction has not dropped it; and whichever way the pipeline
  ends, by \<open>finish\<close> or by a panic that drops the handle, that is a step of the registry after which
  the record's waiters have their answer.
\<close>

theorem running_record_is_answered:
  assumes "op_reachable w" and "a < length (w_heap w)"
    and "\<not> status_terminal (rec_status (w_heap w ! a))"
  shows "lookup w (os_id (rec_status (w_heap w ! a))) = Some a \<and>
    lookup_by_key w (rec_key (w_heap w ! a)) = Some (os_id (rec_status (w_heap w ! a))) \<and>
    op_step w (finish now a code msg generation w) \<and>
    wait_terminal (w_heap (finish now a code msg generation w) ! a) =
      Some (case status_from_u16 code of Some c \<Rightarrow> c | None \<Rightarrow> internal_server_error, msg) \<and>
    op_step w (drop_handle now a w) \<and>
    map_option fst (wait_terminal (w_heap (drop_handle now a w) ! a)) = Some internal_server_error"
proof -
  from reachable_inv[OF assms(1)] have i: "indexed w" and o: "owned w" by (simp_all add: op_inv_def)
  from owned_live[OF o assms(2,3)] have h: "a \<in> w_handles w"
    and by_id: "w_by_id w (os_id (rec_status (w_heap w ! a))) = Some a" by simp_all
  have "w_by_key w (rec_key (w_heap w ! a)) = Some a" using indexed_id[OF i by_id] by simp
  moreover have "wait_terminal (w_heap (finish now a code msg generation w) ! a) =
      Some (case status_from_u16 code of Some c \<Rightarrow> c | None \<Rightarrow> internal_server_error, msg)"
    using assms(2) by (simp add: finish_def on_status_def on_record_nth wait_terminal_def apply_terminal_def
        status_terminal_def is_terminal_def replay_def)
  moreover have "map_option fst (wait_terminal (w_heap (drop_handle now a w) ! a)) = Some internal_server_error"
    using assms(2,3) by (simp add: drop_handle_def on_status_def on_record_nth wait_terminal_def
        drop_status_def status_terminal_def is_terminal_def replay_def status_from_u16_def
        internal_server_error_def)
  ultimately show ?thesis
    using by_id step_finish[OF h] step_drop[OF h] by (simp add: lookup_def lookup_by_key_def)
qed

theorem running_record_is_answered_witness:
  "op_reachable sample_running \<and> lookup sample_running ''op1'' = Some 0 \<and>
   wait_terminal (w_heap (finish 20 0 404 ''gone'' None sample_running) ! 0) = Some (404, ''gone'') \<and>
   op_step sample_running (drop_handle 20 0 sample_running)"
proof -
  have "\<not> status_terminal (rec_status (w_heap sample_running ! 0))" "0 < length (w_heap sample_running)"
    "os_id (rec_status (w_heap sample_running ! 0)) = ''op1''"
    by (simp_all add: sample_running_eq)
  from running_record_is_answered[OF sample_running_reachable this(2,1), of 20 404 "''gone''" None] this(3)
  show ?thesis using sample_running_reachable by (simp add: status_from_u16_def)
qed

subsection \<open>Retries\<close>

lemma evict_keeps_key:
  assumes i: "indexed w" and k: "w_by_key w key = Some a"
    and keep: "\<not> status_terminal (rec_status (w_heap w ! a)) \<or>
      \<not> expired now (rec_status (w_heap w ! a)) \<and> length (w_order w) \<le> max_records"
  shows "w_by_key (evict now w) key = Some a"
proof -
  obtain R where R: "\<forall>j \<in> R. \<exists>a. w_by_id w j = Some a \<and> status_terminal (rec_status (w_heap w ! a)) \<and>
      (expired now (rec_status (w_heap w ! a)) \<or> 0 < length (w_order w) - max_records)"
    and by_key: "\<forall>j a. w_by_id w j = Some a \<longrightarrow>
      w_by_key (evict now w) (rec_key (w_heap w ! a)) = (if j \<in> R then None else Some a)"
    by (rule evict_fields[OF i, of now]) (rule that; assumption)
  from indexed_key[OF i k] have j: "w_by_id w (os_id (rec_status (w_heap w ! a))) = Some a"
    and key: "rec_key (w_heap w ! a) = key" by simp_all
  have "os_id (rec_status (w_heap w ! a)) \<notin> R" using R j keep by fastforce
  with by_key[rule_format, OF j] key show ?thesis by simp
qed

text \<open>
  A request whose key already names a record, running or finished and not yet too old to replay,
  is never admitted as fresh: it runs nothing, and is handed that record when operation hash,
  repository and worktree all match, and refused as a conflict when any of them differs.
\<close>

theorem retry_never_runs_again:
  assumes "op_reachable w" and "w_by_key w key = Some a"
    and "\<not> status_terminal (rec_status (w_heap w ! a)) \<or>
      \<not> expired now (rec_status (w_heap w ! a)) \<and> length (w_order w) \<le> max_records"
  shows "\<exists>w'. admit now minted key operation op_hash repository worktree recovers w =
      (if same_intent (rec_status (w_heap w ! a)) op_hash repository worktree then Existing a else Conflict, w') \<and>
    w_heap w' = w_heap w \<and> w_handles w' = w_handles w"
proof -
  from reachable_inv[OF assms(1)] have i: "indexed w" by (simp add: op_inv_def)
  have k: "w_by_key (evict now w) key = Some a" by (rule evict_keeps_key[OF i assms(2,3)])
  have "w_incompatible w key = None" using indexed_apart[OF i] assms(2) by auto
  with k show ?thesis by (simp add: admit_def Let_def)
qed

theorem retry_never_runs_again_witness:
  "op_reachable sample_running \<and> fst (sample_admit sample_running) = Existing 0 \<and>
   fst (admit 11 ''op2'' ''key'' StageAll ''hash'' ''repo'' ''other'' None sample_running) = Conflict"
proof -
  have k: "w_by_key sample_running ''key'' = Some 0" and l: "\<not> status_terminal (rec_status (w_heap sample_running ! 0))"
    by (simp_all add: sample_running_eq)
  have s: "same_intent (rec_status (w_heap sample_running ! 0)) ''hash'' ''repo'' t \<longleftrightarrow> t = ''tree''" for t
    by (auto simp: sample_running_eq same_intent_def accepted_record_def)
  note r = retry_never_runs_again[OF sample_running_reachable k disjI1[OF l]]
  from r[of 10 "''op1''" StageAll "''hash''" "''repo''" "''tree''" None]
  have 1: "fst (sample_admit sample_running) = Existing 0" by (auto simp: sample_admit_def s)
  from r[of 11 "''op2''" StageAll "''hash''" "''repo''" "''other''" None]
  have 2: "fst (admit 11 ''op2'' ''key'' StageAll ''hash'' ''repo'' ''other'' None sample_running) = Conflict"
    by (auto simp: s)
  from 1 2 sample_running_reachable show ?thesis by simp
qed

subsection \<open>The registry stays small\<close>

lemma live_ids_handles:
  assumes "op_inv w"
  shows "length (live_ids (w_heap w) (w_by_id w) (w_order w)) \<le> card (w_handles w)"
proof -
  from assms have i: "indexed w" and o: "owned w" by (simp_all add: op_inv_def)
  let ?ids = "live_ids (w_heap w) (w_by_id w) (w_order w)"
  have live: "\<exists>a. w_by_id w j = Some a \<and> a \<in> w_handles w" if "j \<in> set ?ids" for j
    using that indexed_id[OF i] owned_live[OF o] by (fastforce simp: live_ids_def split: option.splits)
  have inj: "inj_on (\<lambda>j. the (w_by_id w j)) (set ?ids)"
    using live indexed_id[OF i] by (intro inj_onI) (metis option.sel)
  have "distinct ?ids" using indexed_order[OF i] by (simp add: live_ids_def)
  then have "length ?ids = card (set ?ids)" by (simp add: distinct_card)
  also have "\<dots> = card ((\<lambda>j. the (w_by_id w j)) ` set ?ids)" by (simp add: card_image[OF inj])
  also have "\<dots> \<le> card (w_handles w)"
  proof (rule card_mono)
    have "w_handles w \<subseteq> {..<length (w_heap w)}" using owned_handle[OF o] by auto
    then show "finite (w_handles w)" by (rule finite_subset) simp
    show "(\<lambda>j. the (w_by_id w j)) ` set ?ids \<subseteq> w_handles w" using live by fastforce
  qed
  finally show ?thesis .
qed

text \<open>
  C36: after an admission the registry holds at most one record more than the larger of 256 and the
  number of operations still running: what a client can make it keep is bounded although every
  distinct key is an entry.
\<close>

theorem registry_is_bounded:
  assumes "op_reachable w"
  shows "length (w_order (snd (admit now minted key operation op_hash repository worktree recovers w)))
    \<le> Suc (max max_records (card (w_handles w)))"
proof -
  let ?w = "evict now w"
  note inv = reachable_inv[OF assms]
  then have i: "indexed w" by (simp add: op_inv_def)
  obtain kept by_id by_key where e: "evict_loop (w_heap w) now (w_order w)
      (length (w_order w) - max_records) [] (w_by_id w) (w_by_key w) = (kept, by_id, by_key)"
    by (metis prod_cases3)
  then have "w_order ?w = kept" by (simp add: evict_def)
  moreover have "length kept \<le> max max_records (card (w_handles w))"
    using evict_loop_length[OF e indexed_order(1)[OF i]] live_ids_handles[OF inv] by simp
  ultimately have "length (w_order ?w) \<le> max max_records (card (w_handles w))" by simp
  moreover have "length (w_order (snd (admit now minted key operation op_hash repository worktree recovers w)))
      \<le> Suc (length (w_order ?w))"
    by (simp add: admit_def Let_def split: option.split)
  ultimately show ?thesis by simp
qed

theorem registry_is_bounded_witness:
  "op_reachable sample_running \<and> length (w_order (snd (sample_admit sample_running))) \<le> 257"
  using registry_is_bounded[OF sample_running_reachable, of 10 "''op1''" "''key''" StageAll "''hash''" "''repo''" "''tree''" None]
  by (simp add: sample_admit_def sample_running_reachable max_records_def) (simp add: sample_running_eq)

end
