(* ===== verification/Feed_Policy.thy ===== *)
theory Feed_Policy imports Plan_Model begin

text \<open>
  The repository change feed: the wire types of
  \<open>git-vista-protocol/src/change_feed.rs\<close> and the decisions of
  \<open>git-vista-server/src/reconciliation/policy.rs\<close>, which fold what a sweep read and what the
  watcher said into the snapshots that are published.

  The policy is a record passed through its operations. A \<open>BTreeMap\<close> is the list of its entries in
  key order. Clocks are arguments; a \<open>Duration\<close> is its number of nanoseconds, with the saturation
  of its multiplication. The history of what was published, beside the policy, is the specification's.
\<close>

subsection \<open>The wire types\<close>

datatype watch_budget =
    Derived (wb_watches: nat) (from_watches: nat) (from_instances: nat)
  | Undetermined (wb_watches: nat)

definition budget_watches :: "watch_budget \<Rightarrow> nat" where
  "budget_watches b = (case b of Derived w _ _ \<Rightarrow> w | Undetermined w \<Rightarrow> w)"

datatype watcher_loss =
    LimitReached nat
  | WatchLost string
  | Unreliable u32 u32
  | Unsupported string
  | Backend string

datatype feed_health =
    Health_Watching nat watch_budget
  | Health_Bounded nat nat watch_budget
  | Health_SweepOnly watcher_loss
  | Health_Blind string unix_seconds

definition is_a_reading :: "feed_health \<Rightarrow> bool" where
  "is_a_reading h = (case h of Health_Blind _ _ \<Rightarrow> False | _ \<Rightarrow> True)"

datatype ref_delta =
    Delta_Unknown
  | Delta_Named "ref_name list" bool

record feed_snapshot =
  sn_seq :: u64
  sn_generation :: "generation_token option"
  sn_health :: feed_health
  sn_changed :: ref_delta
  sn_at :: unix_seconds

subsection \<open>Saturating arithmetic\<close>

definition sat_add :: "'a::len word \<Rightarrow> 'a word \<Rightarrow> 'a word" where
  "sat_add x y = (if unat x + unat y < 2 ^ LENGTH('a) then x + y else - 1)"

definition sat_sub :: "'a::len word \<Rightarrow> 'a word \<Rightarrow> 'a word" where
  "sat_sub x y = (if y \<le> x then x - y else 0)"

type_synonym duration = nat

definition duration_max :: duration where
  "duration_max = (2 ^ 64 - 1) * 1000000000 + 999999999"

definition duration_mul :: "duration \<Rightarrow> u32 \<Rightarrow> duration" where
  "duration_mul d k = min (d * unat k) duration_max"

definition from_secs :: "nat \<Rightarrow> duration" where "from_secs s = s * 1000000000"
definition from_millis :: "nat \<Rightarrow> duration" where "from_millis m = m * 1000000"
definition as_millis :: "duration \<Rightarrow> nat" where "as_millis d = d div 1000000"

subsection \<open>The policy\<close>

definition sweep_base :: duration where "sweep_base = from_secs 2"
definition sweep_max :: duration where "sweep_max = from_secs 60"
definition miss_grace :: duration where "miss_grace = from_millis 200"
definition duty_factor :: u32 where "duty_factor = 10"
definition min_changes_before_verdict :: u32 where "min_changes_before_verdict = 10"

type_synonym ref_map = "(string \<times> string) list"

record sweep_reading =
  sr_generation :: generation_token
  sr_refs :: ref_map
  sr_other :: string

datatype sweep_outcome = Sweep_Read sweep_reading | Sweep_Blind string

datatype sweep_trigger = Trigger_Timer | Trigger_Hint | Trigger_StreamOpen | Trigger_AppWrite

datatype watcher_state =
    Watcher_Starting
  | Watcher_Watching nat nat watch_budget
  | Watcher_Lost watcher_loss watch_budget

record watcher_misses =
  wm_missed :: u32
  wm_hinted :: u32
  wm_last_missed_at_ms :: "u64 option"

definition observed :: "watcher_misses \<Rightarrow> u32" where
  "observed m = sat_add (wm_missed m) (wm_hinted m)"

definition condemns_the_watcher :: "watcher_misses \<Rightarrow> bool" where
  "condemns_the_watcher m \<longleftrightarrow> min_changes_before_verdict \<le> observed m \<and> wm_hinted m < wm_missed m"

record published =
  pu_generation :: "generation_token option"
  pu_health :: feed_health
  pu_reading :: "(ref_map \<times> string) option"

record feed_policy =
  fp_published :: "published option"
  fp_watcher :: watcher_state
  fp_misses :: watcher_misses
  fp_pending_miss :: "u64 option"
  fp_last_hint_at_ms :: "u64 option"
  fp_unchanged :: u32
  fp_published_count :: u64
  fp_untrusted :: bool
  fp_blind_since :: "unix_seconds option"

definition feed_new :: feed_policy where
  "feed_new =
     \<lparr>fp_published = None, fp_watcher = Watcher_Starting,
      fp_misses = \<lparr>wm_missed = 0, wm_hinted = 0, wm_last_missed_at_ms = None\<rparr>,
      fp_pending_miss = None, fp_last_hint_at_ms = None, fp_unchanged = 0, fp_published_count = 0,
      fp_untrusted = False, fp_blind_since = None\<rparr>"

definition note_watcher :: "watcher_state \<Rightarrow> feed_policy \<Rightarrow> feed_policy" where
  "note_watcher st p = p\<lparr>fp_watcher := st\<rparr>"

definition add_hinted :: "feed_policy \<Rightarrow> feed_policy" where
  "add_hinted p = p\<lparr>fp_misses := (fp_misses p)\<lparr>wm_hinted := sat_add (wm_hinted (fp_misses p)) 1\<rparr>\<rparr>"

definition within_grace :: "u64 \<Rightarrow> u64 \<Rightarrow> bool" where
  "within_grace now_ms earlier \<longleftrightarrow> unat (sat_sub now_ms earlier) \<le> as_millis miss_grace"

definition note_hint :: "u64 \<Rightarrow> feed_policy \<Rightarrow> feed_policy" where
  "note_hint now_ms p0 =
     (let p = p0\<lparr>fp_last_hint_at_ms := Some now_ms\<rparr>;
          p' = (case fp_pending_miss p of
                  None \<Rightarrow> p
                | Some swept_at \<Rightarrow>
                    if within_grace now_ms swept_at then (add_hinted p)\<lparr>fp_pending_miss := None\<rparr> else p)
      in p'\<lparr>fp_unchanged := 0\<rparr>)"

definition settle_due :: "u64 \<Rightarrow> feed_policy \<Rightarrow> feed_policy" where
  "settle_due now_ms p =
     (case fp_pending_miss p of
        None \<Rightarrow> p
      | Some swept_at \<Rightarrow>
          if within_grace now_ms swept_at then p
          else
            (let m = (fp_misses p)\<lparr>wm_missed := sat_add (wm_missed (fp_misses p)) 1,
                       wm_last_missed_at_ms := Some swept_at\<rparr>
             in p\<lparr>fp_misses := m, fp_pending_miss := None,
                  fp_untrusted := (if condemns_the_watcher m then True else fp_untrusted p)\<rparr>))"

definition watcher_is_lost :: "feed_policy \<Rightarrow> bool" where
  "watcher_is_lost p = (case fp_watcher p of Watcher_Lost _ _ \<Rightarrow> True | _ \<Rightarrow> False)"

definition feed_health_now :: "sweep_outcome \<Rightarrow> feed_policy \<Rightarrow> feed_health" where
  "feed_health_now outcome p =
     (case outcome of
        Sweep_Blind reason \<Rightarrow>
          Health_Blind reason (case fp_blind_since p of Some t \<Rightarrow> t | None \<Rightarrow> 0)
      | Sweep_Read r \<Rightarrow>
          if fp_untrusted p
          then Health_SweepOnly (Unreliable (wm_missed (fp_misses p)) (wm_hinted (fp_misses p)))
          else (case fp_watcher p of
                  Watcher_Starting \<Rightarrow> Health_SweepOnly (Backend ''the watcher has not reported yet'')
                | Watcher_Lost reason budget \<Rightarrow> Health_SweepOnly reason
                | Watcher_Watching installed wanted budget \<Rightarrow>
                    if installed < wanted then Health_Bounded installed wanted budget
                    else Health_Watching installed budget))"

definition note_timer_found_a_change :: "u64 \<Rightarrow> feed_policy \<Rightarrow> feed_policy" where
  "note_timer_found_a_change now_ms p =
     (if (case fp_last_hint_at_ms p of None \<Rightarrow> False | Some hint \<Rightarrow> within_grace now_ms hint \<or> now_ms \<le> hint)
      then add_hinted p
      else p\<lparr>fp_pending_miss := Some now_ms\<rparr>)"

text \<open>\<open>push_ref\<close>: the list, and whether the name could be put on the wire.\<close>

definition push_ref :: "ref_name list \<Rightarrow> string \<Rightarrow> ref_name list \<times> bool" where
  "push_ref into name =
     (case ref_name_new name of Inr n \<Rightarrow> (into @ [n], True) | Inl e \<Rightarrow> (into, False))"

text \<open>The two loops of \<open>delta\<close>: one step of them, and the names each visits.\<close>

definition note_moved :: "string \<Rightarrow> ref_name list \<times> bool \<Rightarrow> ref_name list \<times> bool" where
  "note_moved name acc =
     (case acc of (moved, unnameable) \<Rightarrow>
        (case push_ref moved name of (moved', named) \<Rightarrow> (moved', unnameable \<or> \<not> named)))"

definition changed_or_added :: "ref_map \<Rightarrow> ref_map \<Rightarrow> string list" where
  "changed_or_added was_refs refs =
     map fst (filter (\<lambda>(name, target). map_of was_refs name \<noteq> Some target) refs)"

definition removed :: "ref_map \<Rightarrow> ref_map \<Rightarrow> string list" where
  "removed was_refs refs = filter (\<lambda>name. map_of refs name = None) (map fst was_refs)"

definition delta :: "(ref_map \<times> string) option \<Rightarrow> feed_policy \<Rightarrow> ref_delta" where
  "delta reading p =
     (case (reading, fp_published p) of
        (Some (refs, other), Some previous) \<Rightarrow>
          (case pu_reading previous of
             None \<Rightarrow> Delta_Unknown
           | Some (was_refs, was_other) \<Rightarrow>
               (case fold note_moved (removed was_refs refs)
                       (fold note_moved (changed_or_added was_refs refs) ([], False)) of
                  (moved, unnameable) \<Rightarrow>
                    Delta_Named (remdups_adj (sort moved)) (other \<noteq> was_other \<or> unnameable)))
      | _ \<Rightarrow> Delta_Unknown)"

definition outcome_generation :: "sweep_outcome \<Rightarrow> generation_token option" where
  "outcome_generation outcome =
     (case outcome of Sweep_Read r \<Rightarrow> Some (sr_generation r) | Sweep_Blind _ \<Rightarrow> None)"

definition outcome_reading :: "sweep_outcome \<Rightarrow> (ref_map \<times> string) option" where
  "outcome_reading outcome =
     (case outcome of Sweep_Read r \<Rightarrow> Some (sr_refs r, sr_other r) | Sweep_Blind _ \<Rightarrow> None)"

definition date_blindness :: "unix_seconds \<Rightarrow> sweep_outcome \<Rightarrow> feed_policy \<Rightarrow> feed_policy" where
  "date_blindness at outcome p =
     (case outcome of
        Sweep_Blind _ \<Rightarrow>
          p\<lparr>fp_blind_since := (case fp_blind_since p of None \<Rightarrow> Some at | Some t \<Rightarrow> Some t)\<rparr>
      | Sweep_Read _ \<Rightarrow> p\<lparr>fp_blind_since := None\<rparr>)"

definition count_evidence :: "u64 \<Rightarrow> sweep_trigger \<Rightarrow> feed_policy \<Rightarrow> feed_policy" where
  "count_evidence now_ms trigger p =
     (case trigger of
        Trigger_Timer \<Rightarrow> note_timer_found_a_change now_ms p
      | Trigger_Hint \<Rightarrow> add_hinted p
      | Trigger_StreamOpen \<Rightarrow> p
      | Trigger_AppWrite \<Rightarrow> p)"

definition observe ::
  "u64 \<Rightarrow> unix_seconds \<Rightarrow> sweep_trigger \<Rightarrow> sweep_outcome \<Rightarrow> feed_policy \<Rightarrow>
     feed_snapshot option \<times> feed_policy" where
  "observe now_ms at trigger outcome p0 =
     (let p = date_blindness at outcome (settle_due now_ms p0);
          generation = outcome_generation outcome;
          health = feed_health_now outcome p;
          generation_moved = (case fp_published p of None \<Rightarrow> True | Some l \<Rightarrow> pu_generation l \<noteq> generation);
          health_moved = (case fp_published p of None \<Rightarrow> True | Some l \<Rightarrow> pu_health l \<noteq> health);
          p' = (if generation_moved \<and> fp_published p \<noteq> None then count_evidence now_ms trigger p else p)
      in if \<not> generation_moved \<and> \<not> health_moved
         then (None, p'\<lparr>fp_unchanged := sat_add (fp_unchanged p') 1\<rparr>)
         else
           (let count = sat_add (fp_published_count p') 1
            in (Some \<lparr>sn_seq = count, sn_generation = generation, sn_health = health,
                      sn_changed = delta (outcome_reading outcome) p', sn_at = at\<rparr>,
                p'\<lparr>fp_published_count := count, fp_unchanged := 0,
                   fp_published := Some \<lparr>pu_generation = generation, pu_health = health,
                     pu_reading = outcome_reading outcome\<rparr>\<rparr>)))"

definition duty_floor :: "duration \<Rightarrow> duration" where
  "duty_floor last_cost = duration_mul last_cost duty_factor"

definition next_sweep_delay :: "duration \<Rightarrow> feed_policy \<Rightarrow> duration" where
  "next_sweep_delay last_cost p =
     (let backoff = min (duration_mul sweep_base (push_bit (unat (min (fp_unchanged p) 5)) 1)) sweep_max
      in max backoff (duration_mul last_cost duty_factor))"

subsection \<open>A feed's life\<close>

text \<open>
  What the driver does with its policy, in any order, and the history of what it published: each
  snapshot with the outcome of the sweep behind it, oldest first.
\<close>

datatype feed_event =
    Note_Watcher watcher_state
  | Note_Hint u64
  | Settle u64
  | Sweep u64 unix_seconds sweep_trigger sweep_outcome

type_synonym feed_run = "feed_policy \<times> (feed_snapshot \<times> sweep_outcome) list"

definition feed_step :: "feed_event \<Rightarrow> feed_run \<Rightarrow> feed_run" where
  "feed_step e run =
     (case run of (p, h) \<Rightarrow>
        (case e of
           Note_Watcher st \<Rightarrow> (note_watcher st p, h)
         | Note_Hint now_ms \<Rightarrow> (note_hint now_ms p, h)
         | Settle now_ms \<Rightarrow> (settle_due now_ms p, h)
         | Sweep now_ms at trigger outcome \<Rightarrow>
             (case observe now_ms at trigger outcome p of
                (None, p') \<Rightarrow> (p', h)
              | (Some s, p') \<Rightarrow> (p', h @ [(s, outcome)]))))"

definition feed_run :: "feed_event list \<Rightarrow> feed_run" where
  "feed_run es = fold feed_step es (feed_new, [])"

text \<open>The difference of two readings, without the policy around it.\<close>

definition delta_between :: "(ref_map \<times> string) option \<Rightarrow> (ref_map \<times> string) option \<Rightarrow> ref_delta" where
  "delta_between was reading =
     delta reading (feed_new\<lparr>fp_published := Some \<lparr>pu_generation = None, pu_health = Health_Blind [] 0,
       pu_reading = was\<rparr>\<rparr>)"

lemma delta_published:
  "fp_published p = Some l \<Longrightarrow> delta reading p = delta_between (pu_reading l) reading"
  by (cases reading) (simp_all add: delta_between_def delta_def split: prod.split)

lemma delta_unpublished: "fp_published p = None \<Longrightarrow> delta reading p = Delta_Unknown"
  by (simp add: delta_def split: option.split)

subsection \<open>What a delta names\<close>

definition nameable :: "string \<Rightarrow> bool" where
  "nameable name \<longleftrightarrow> is_valid ref_name_new name"

lemma push_ref_eq: "push_ref into name = (if nameable name then into @ [name] else into, nameable name)"
  by (auto simp: push_ref_def nameable_def is_valid_def ref_name_new_def validated_def split: sum.split)

lemma fold_note_moved:
  "fold note_moved names (moved, unnameable) =
     (moved @ filter nameable names, unnameable \<or> list_ex (\<lambda>n. \<not> nameable n) names)"
  by (induction names arbitrary: moved unnameable) (auto simp: note_moved_def push_ref_eq)

lemma moved_names:
  assumes "distinct (map fst refs)"
  shows "set (changed_or_added was refs) \<union> set (removed was refs) = {n. map_of was n \<noteq> map_of refs n}"
proof (intro set_eqI iffI)
  fix n assume "n \<in> set (changed_or_added was refs) \<union> set (removed was refs)"
  then show "n \<in> {n. map_of was n \<noteq> map_of refs n}"
    using assms by (auto simp: changed_or_added_def removed_def dest: map_of_is_SomeI)
      (metis map_of_eq_None_iff fst_conv imageI option.distinct(1))
next
  fix n assume "n \<in> {n. map_of was n \<noteq> map_of refs n}"
  then have d: "map_of was n \<noteq> map_of refs n" by simp
  show "n \<in> set (changed_or_added was refs) \<union> set (removed was refs)"
  proof (cases "map_of refs n")
    case None
    with d have "n \<in> fst ` set was" by (metis map_of_eq_None_iff)
    with None show ?thesis by (auto simp: removed_def)
  next
    case (Some t)
    with d show ?thesis by (force simp: changed_or_added_def dest: map_of_SomeD)
  qed
qed

text \<open>Without distinct keys the names of a delta still cover everything that moved.\<close>

lemma moved_names_cover:
  "map_of was n \<noteq> map_of refs n \<Longrightarrow> n \<in> set (changed_or_added was refs) \<union> set (removed was refs)"
proof (cases "map_of refs n")
  case None
  assume "map_of was n \<noteq> map_of refs n"
  with None have "n \<in> fst ` set was" by (metis map_of_eq_None_iff)
  with None show ?thesis by (auto simp: removed_def)
next
  case (Some t)
  assume "map_of was n \<noteq> map_of refs n"
  with Some show ?thesis by (force simp: changed_or_added_def dest: map_of_SomeD)
qed

lemma delta_between_eq:
  "delta_between (Some (was, was_other)) (Some (refs, other)) =
     (let names = changed_or_added was refs @ removed was refs
      in Delta_Named (remdups_adj (sort (filter nameable names)))
           (other \<noteq> was_other \<or> list_ex (\<lambda>n. \<not> nameable n) names))"
  by (simp add: delta_between_def delta_def fold_note_moved Let_def)

lemma delta_between_named:
  assumes "delta_between was reading = Delta_Named rs other"
  obtains a ao b bo where "was = Some (a, ao)" "reading = Some (b, bo)"
  using assms by (cases was; cases reading) (auto simp: delta_between_def delta_def)

text \<open>A ref and the rest that a delta does not mention are the same in both readings.\<close>

lemma delta_between_covers:
  assumes "delta_between (Some (was, was_other)) (Some (refs, other)) = Delta_Named rs False"
  shows "other = was_other \<and> (n \<notin> set rs \<longrightarrow> map_of refs n = map_of was n)"
proof -
  from assms have d: "rs = remdups_adj (sort (filter nameable (changed_or_added was refs @ removed was refs)))"
    "other = was_other" "\<not> list_ex (\<lambda>n. \<not> nameable n) (changed_or_added was refs @ removed was refs)"
    by (auto simp: delta_between_eq Let_def)
  then have "set rs = set (changed_or_added was refs) \<union> set (removed was refs)"
    by (auto simp: list_ex_iff)
  with d(2) moved_names_cover[of was n refs] show ?thesis by fastforce
qed

subsection \<open>The history\<close>

definition seq_of :: "nat \<Rightarrow> u64" where
  "seq_of n = of_nat (min n (2 ^ 64 - 1))"

lemma unat_seq_of: "unat (seq_of n) = min n (2 ^ 64 - 1)"
proof -
  have "min n (2 ^ 64 - 1) < 2 ^ LENGTH(64)" by (rule le_less_trans[OF min.cobounded2]) simp
  then show ?thesis unfolding seq_of_def unat_of_nat by (rule mod_less)
qed

lemma seq_of_Suc: "sat_add (seq_of n) 1 = seq_of (Suc n)"
proof (cases "n < 2 ^ 64 - 1")
  case True
  have "unat (seq_of n) + 1 < 2 ^ 64" using True by (simp add: unat_seq_of)
  then show ?thesis using True by (simp add: sat_add_def) (simp add: seq_of_def)
next
  case False
  then have "\<not> unat (seq_of n) + 1 < 2 ^ 64" by (simp add: unat_seq_of)
  then have "sat_add (seq_of n) 1 = - 1" by (simp add: sat_add_def)
  moreover have "seq_of (Suc n) = - 1" using False by (simp add: seq_of_def min_def)
  ultimately show ?thesis by simp
qed

lemma seq_of_inj: "n < 2 ^ 64 \<Longrightarrow> m < 2 ^ 64 \<Longrightarrow> seq_of n = seq_of m \<longleftrightarrow> n = m"
proof -
  assume "n < 2 ^ 64" "m < 2 ^ 64"
  then have "unat (seq_of n) = n" "unat (seq_of m) = m" unfolding unat_seq_of by linarith+
  then show ?thesis by metis
qed

definition entry_ok :: "(feed_snapshot \<times> sweep_outcome) list \<Rightarrow> nat \<Rightarrow> bool" where
  "entry_ok h i =
     (case h ! i of (s, outcome) \<Rightarrow>
        sn_seq s = seq_of (Suc i) \<and> sn_generation s = outcome_generation outcome \<and>
        is_a_reading (sn_health s) = (outcome_generation outcome \<noteq> None) \<and>
        sn_changed s =
          (if i = 0 then Delta_Unknown
           else delta_between (outcome_reading (snd (h ! (i - 1)))) (outcome_reading outcome)))"

definition published_is :: "feed_policy \<Rightarrow> (feed_snapshot \<times> sweep_outcome) list \<Rightarrow> bool" where
  "published_is p h =
     (if h = [] then fp_published p = None
      else fp_published p = Some \<lparr>pu_generation = outcome_generation (snd (last h)),
        pu_health = sn_health (fst (last h)), pu_reading = outcome_reading (snd (last h))\<rparr>)"

definition feed_inv :: "feed_run \<Rightarrow> bool" where
  "feed_inv run \<longleftrightarrow>
     (case run of (p, h) \<Rightarrow>
        fp_published_count p = seq_of (length h) \<and> published_is p h \<and> (\<forall>i < length h. entry_ok h i))"

text \<open>Nothing but a publication touches what was published.\<close>

lemma unpublishing_fields [simp]:
  "fp_published (note_watcher st p) = fp_published p"
  "fp_published (note_hint t p) = fp_published p"
  "fp_published (settle_due t p) = fp_published p"
  "fp_published (date_blindness at outcome p) = fp_published p"
  "fp_published (count_evidence t trigger p) = fp_published p"
  "fp_published_count (note_watcher st p) = fp_published_count p"
  "fp_published_count (note_hint t p) = fp_published_count p"
  "fp_published_count (settle_due t p) = fp_published_count p"
  "fp_published_count (date_blindness at outcome p) = fp_published_count p"
  "fp_published_count (count_evidence t trigger p) = fp_published_count p"
  by (simp_all add: note_watcher_def note_hint_def settle_due_def date_blindness_def count_evidence_def
      note_timer_found_a_change_def add_hinted_def Let_def split: option.split sweep_outcome.split
      sweep_trigger.split)

lemma health_is_a_reading: "is_a_reading (feed_health_now outcome p) = (outcome_generation outcome \<noteq> None)"
  by (simp add: is_a_reading_def feed_health_now_def outcome_generation_def
      split: sweep_outcome.split watcher_state.split)

lemma observe_silent:
  assumes "observe t at trigger outcome p = (None, p')"
  shows "fp_published p' = fp_published p \<and> fp_published_count p' = fp_published_count p \<and>
    (\<exists>l. fp_published p = Some l \<and> pu_generation l = outcome_generation outcome)"
  using assms by (auto simp: observe_def Let_def split: if_splits option.splits)

lemma if_publishes:
  assumes "(if b then (None, x) else (Some s', p'')) = (Some s, p')"
  shows "s = s' \<and> p' = p''"
  using assms by (cases b) simp_all

lemma observe_publishes:
  assumes "observe t at trigger outcome p = (Some s, p')"
  shows "sn_seq s = sat_add (fp_published_count p) 1 \<and> sn_generation s = outcome_generation outcome \<and>
    is_a_reading (sn_health s) = (outcome_generation outcome \<noteq> None) \<and>
    sn_changed s = delta (outcome_reading outcome) p \<and>
    fp_published_count p' = sat_add (fp_published_count p) 1 \<and>
    fp_published p' = Some \<lparr>pu_generation = outcome_generation outcome, pu_health = sn_health s,
      pu_reading = outcome_reading outcome\<rparr>"
proof -
  let ?p = "date_blindness at outcome (settle_due t p)"
  define q where "q = (if (case fp_published ?p of None \<Rightarrow> True
      | Some l \<Rightarrow> pu_generation l \<noteq> outcome_generation outcome) \<and> fp_published ?p \<noteq> None
    then count_evidence t trigger ?p else ?p)"
  then have q: "q = ?p \<or> q = count_evidence t trigger ?p" by simp
  have "s = \<lparr>sn_seq = sat_add (fp_published_count q) 1, sn_generation = outcome_generation outcome,
      sn_health = feed_health_now outcome ?p, sn_changed = delta (outcome_reading outcome) q, sn_at = at\<rparr> \<and>
    p' = q\<lparr>fp_published_count := sat_add (fp_published_count q) 1, fp_unchanged := 0,
      fp_published := Some \<lparr>pu_generation = outcome_generation outcome,
        pu_health = feed_health_now outcome ?p, pu_reading = outcome_reading outcome\<rparr>\<rparr>"
    using assms unfolding observe_def Let_def q_def[symmetric] by (rule if_publishes)
  then have s: "s = \<lparr>sn_seq = sat_add (fp_published_count q) 1, sn_generation = outcome_generation outcome,
      sn_health = feed_health_now outcome ?p, sn_changed = delta (outcome_reading outcome) q, sn_at = at\<rparr>"
    and p': "p' = q\<lparr>fp_published_count := sat_add (fp_published_count q) 1, fp_unchanged := 0,
      fp_published := Some \<lparr>pu_generation = outcome_generation outcome,
        pu_health = feed_health_now outcome ?p, pu_reading = outcome_reading outcome\<rparr>\<rparr>"
    by (rule conjunct1, rule conjunct2)
  from q have same: "fp_published q = fp_published p" "fp_published_count q = fp_published_count p" by auto
  then have "delta (outcome_reading outcome) q = delta (outcome_reading outcome) p"
    by (simp add: delta_def)
  with same show ?thesis unfolding s p' by (simp add: health_is_a_reading)
qed

lemma entry_ok_append: "i < length h \<Longrightarrow> entry_ok (h @ xs) i = entry_ok h i"
  by (simp add: entry_ok_def nth_append less_imp_diff_less)

lemma feed_step_inv:
  assumes "feed_inv run"
  shows "feed_inv (feed_step e run)"
proof -
  obtain p h where run: "run = (p, h)" by (cases run)
  from assms have inv: "fp_published_count p = seq_of (length h)" "published_is p h"
    "\<forall>i < length h. entry_ok h i" by (simp_all add: feed_inv_def run)
  show ?thesis
  proof (cases e)
    case (Sweep t at trigger outcome)
    obtain r p' where o: "observe t at trigger outcome p = (r, p')" by fastforce
    show ?thesis
    proof (cases r)
      case None
      from observe_silent[OF o[unfolded None]] inv show ?thesis
        by (simp add: feed_step_def run Sweep o None feed_inv_def published_is_def)
    next
      case (Some s)
      note pub = observe_publishes[OF o[unfolded Some]]
      let ?h = "h @ [(s, outcome)]"
      have "entry_ok ?h (length h)"
      proof (cases "h = []")
        case True
        then show ?thesis using pub inv(1,2)
          by (simp add: entry_ok_def published_is_def delta_unpublished seq_of_Suc)
      next
        case False
        then have "?h ! (length h - 1) = last h" by (simp add: nth_append last_conv_nth)
        with False pub inv(1,2) show ?thesis
          by (simp add: entry_ok_def published_is_def delta_published seq_of_Suc)
      qed
      with inv(3) have "\<forall>i < length ?h. entry_ok ?h i" by (simp add: less_Suc_eq entry_ok_append)
      moreover have "published_is p' ?h" using pub by (simp add: published_is_def)
      moreover have "fp_published_count p' = seq_of (length ?h)" using pub inv(1) by (simp add: seq_of_Suc)
      ultimately show ?thesis by (simp add: feed_step_def run Sweep o Some feed_inv_def)
    qed
  qed (use inv in \<open>simp_all add: feed_step_def run feed_inv_def published_is_def\<close>)
qed

interpretation feed: run_invariant feed_step feed_inv "\<lambda>_. True"
  by unfold_locales (rule feed_step_inv)

lemma feed_run_inv: "feed_inv (feed_run es)"
  unfolding feed_run_def
  by (rule feed.run_inv)
    (simp_all add: feed_inv_def published_is_def feed_new_def seq_of_def)

text \<open>
  Whatever the watcher said and in whatever order, the snapshots a feed publishes are numbered
  one, two, three and on, carry the generation of the sweep behind them (none exactly when it was
  blind), and name what moved between the reading published before and their own; and after every
  sweep the last one published agrees with what that sweep read: no change is swallowed.
\<close>

theorem feed_publishes_what_it_reads:
  "(\<forall>i < length (snd (feed_run es)). entry_ok (snd (feed_run es)) i) \<and>
   snd (feed_run (es @ [Sweep t at trigger outcome])) \<noteq> [] \<and>
   sn_generation (fst (last (snd (feed_run (es @ [Sweep t at trigger outcome]))))) = outcome_generation outcome"
proof -
  obtain p h where run: "feed_run es = (p, h)" by fastforce
  with feed_run_inv[of es] have inv: "published_is p h" "\<forall>i < length h. entry_ok h i"
    by (simp_all add: feed_inv_def)
  obtain r p' where o: "observe t at trigger outcome p = (r, p')" by fastforce
  have run': "feed_run (es @ [Sweep t at trigger outcome]) =
      (p', case r of None \<Rightarrow> h | Some s \<Rightarrow> h @ [(s, outcome)])"
    using run by (simp add: feed_run_def feed_step_def o split: option.split)
  show ?thesis
  proof (cases r)
    case None
    from observe_silent[OF o[unfolded None]] inv(1) have h: "h \<noteq> []"
      "outcome_generation (snd (last h)) = outcome_generation outcome"
      by (auto simp: published_is_def split: if_splits)
    then have "entry_ok h (length h - 1)" using inv(2) by simp
    with h have "sn_generation (fst (last h)) = outcome_generation outcome"
      by (simp add: entry_ok_def last_conv_nth case_prod_unfold)
    with h inv(2) None run run' show ?thesis by simp
  next
    case (Some s)
    from observe_publishes[OF o[unfolded Some]] inv(2) Some run run' show ?thesis by simp
  qed
qed

theorem feed_publishes_what_it_reads_witness:
  "sn_generation (fst (last (snd (feed_run [Sweep 0 7 Trigger_StreamOpen (Sweep_Blind ''gone'')])))) = None"
  using feed_publishes_what_it_reads[of "[]" 0 7 Trigger_StreamOpen "Sweep_Blind ''gone''"]
  by (simp add: outcome_generation_def)

text \<open>
  The delay before the next timer sweep is never below the duty floor of ten times the last
  sweep's cost, nor below two seconds, nor above the larger of that floor and a minute.
\<close>

lemma sweep_cadence_bounded:
  "duty_floor last_cost \<le> next_sweep_delay last_cost p \<and> sweep_base \<le> next_sweep_delay last_cost p \<and>
   next_sweep_delay last_cost p \<le> max sweep_max (duty_floor last_cost)"
proof -
  let ?n = "unat (min (fp_unchanged p) 5)"
  have "?n \<le> 5" by (simp add: min_def word_le_nat_alt split: if_splits)
  then have "?n \<in> {0, 1, 2, 3, 4, 5}" by auto
  then have "sweep_base \<le> min (duration_mul sweep_base (push_bit ?n 1)) sweep_max"
    by (auto simp: sweep_base_def sweep_max_def from_secs_def duration_mul_def duration_max_def)
  then show ?thesis
    unfolding next_sweep_delay_def duty_floor_def Let_def by (intro conjI; linarith)
qed

end
