(* ===== verification/Freshness.thy ===== *)
theory Freshness imports Feed_Policy Plan_Render begin

text \<open>
  \<open>crates/git-vista/src/features/freshness/core.rs\<close> with the relative times of \<open>datetime.rs\<close>: what
  the client makes of the change feed. It answers whether the plan on screen still describes the
  repository, and every control and sentence of the confirmation is read off that one verdict.

  The log of snapshots is a list, oldest first. The last part composes it with the server's policy
  (theory Feed_Policy): what the client may claim is evidence of what the sweeps read.
\<close>

abbreviation ellipsis :: string where "ellipsis \<equiv> [CHR 0xE2, CHR 0x80, CHR 0xA6]"

subsection \<open>Relative times\<close>

definition ago_label :: "int \<Rightarrow> string option" where
  "ago_label d =
     (if d < 60 then Some ''just now''
      else if d < 3600 then Some (show_i64 (d div 60) @ ''m ago'')
      else if d < 86400 then Some (show_i64 (d div 3600) @ ''h ago'')
      else if d < 7 * 86400 then Some (show_i64 (d div 86400) @ ''d ago'')
      else None)"

definition freshness_label :: "int option \<Rightarrow> string" where
  "freshness_label delta_secs =
     (case delta_secs of
        None \<Rightarrow> ''age unknown''
      | Some d \<Rightarrow> (case ago_label d of Some label \<Rightarrow> ''as of '' @ label | None \<Rightarrow> ''as of over a week ago''))"

subsection \<open>The plan on screen\<close>

definition log_depth :: nat where "log_depth = 64"

record plan_on_screen =
  ps_generation :: string
  ps_expects :: "string list"
  ps_repository :: string
  ps_worktree :: string

definition plan_on_screen_of :: "plan \<Rightarrow> plan_on_screen" where
  "plan_on_screen_of p =
     \<lparr>ps_generation = pl_generation p, ps_expects = map rch_ref_name (pl_expected_ref_changes p),
      ps_repository = pl_repository p, ps_worktree = pl_worktree p\<rparr>"

definition same_desk :: "plan_on_screen \<Rightarrow> plan_on_screen \<Rightarrow> bool" where
  "same_desk p q \<longleftrightarrow> ps_repository p = ps_repository q \<and> ps_worktree p = ps_worktree q"

datatype plan_slot = Slot_Absent | Slot_Rebuilding | Slot_RebuildFailed | Slot_Ready plan_on_screen

definition slot_when_requested :: "bool \<Rightarrow> plan_slot" where
  "slot_when_requested rebuilding = (if rebuilding then Slot_Rebuilding else Slot_Absent)"

definition slot_when_request_failed :: "bool \<Rightarrow> plan_slot" where
  "slot_when_request_failed rebuilding = (if rebuilding then Slot_RebuildFailed else Slot_Absent)"

datatype feed_unavailable = NotConnected | Feed_Blind string

datatype plan_freshness =
    Fresh_Current
  | Fresh_Moved "string list"
  | Fresh_MovedElsewhere
  | Fresh_Unknown feed_unavailable

definition execute_offered :: "plan_freshness \<Rightarrow> bool" where
  "execute_offered f \<longleftrightarrow> f = Fresh_Current"

subsection \<open>The log of snapshots\<close>

type_synonym feed_log = "feed_snapshot list"

definition continuous :: "feed_snapshot \<Rightarrow> feed_log \<Rightarrow> bool" where
  "continuous s log \<longleftrightarrow> log \<noteq> [] \<and> sn_seq s = sn_seq (last log) + 1"

definition record_snapshot :: "feed_snapshot \<Rightarrow> feed_log \<Rightarrow> feed_log" where
  "record_snapshot s log =
     (let s' = (if continuous s log then s else s\<lparr>sn_changed := Delta_Unknown\<rparr>)
      in (if length log = log_depth then tl log else log) @ [s'])"

definition clear_log :: "feed_log \<Rightarrow> feed_log" where
  "clear_log log = []"

definition latest :: "feed_log \<Rightarrow> feed_snapshot option" where
  "latest log = (if log = [] then None else Some (last log))"

text \<open>The entries after the last one at the generation, if there is one.\<close>

fun entries_after :: "string \<Rightarrow> feed_log \<Rightarrow> feed_log option" where
  "entries_after generation [] = None"
| "entries_after generation (e # es) =
     (case entries_after generation es of
        Some tail \<Rightarrow> Some tail
      | None \<Rightarrow> if sn_generation e = Some generation then Some es else None)"

fun collect_moved :: "feed_log \<Rightarrow> string list \<Rightarrow> bool \<Rightarrow> (string list \<times> bool) option" where
  "collect_moved [] refs other = Some (refs, other)"
| "collect_moved (e # es) refs other =
     (case sn_changed e of
        Delta_Unknown \<Rightarrow> None
      | Delta_Named moved elsewhere \<Rightarrow> collect_moved es (refs @ moved) (other \<or> elsewhere))"

definition moved_since :: "string \<Rightarrow> feed_log \<Rightarrow> (string list \<times> bool) option" where
  "moved_since generation log =
     (case entries_after generation log of
        None \<Rightarrow> None
      | Some es \<Rightarrow>
          (case collect_moved es [] False of
             None \<Rightarrow> None
           | Some (refs, other) \<Rightarrow> Some (remdups_adj (sort refs), other)))"

definition freshness :: "plan_on_screen \<Rightarrow> feed_log \<Rightarrow> plan_freshness" where
  "freshness plan log =
     (case latest log of
        None \<Rightarrow> Fresh_Unknown NotConnected
      | Some l \<Rightarrow>
          (case sn_health l of
             Health_Blind reason since \<Rightarrow> Fresh_Unknown (Feed_Blind reason)
           | _ \<Rightarrow>
               (case sn_generation l of
                  None \<Rightarrow> Fresh_Unknown NotConnected
                | Some live \<Rightarrow>
                    if live = ps_generation plan then Fresh_Current
                    else (case moved_since (ps_generation plan) log of
                            None \<Rightarrow> Fresh_Moved []
                          | Some (moved, other) \<Rightarrow>
                              (let depended_on = filter (\<lambda>n. n \<in> set (ps_expects plan)) moved
                               in if depended_on \<noteq> [] then Fresh_Moved depended_on
                                  else if other then Fresh_Moved []
                                  else Fresh_MovedElsewhere)))))"

subsection \<open>The verdict and what is read off it\<close>

text \<open>\<open>carried\<close> is the plan a force-with-lease push carries, and none for every other operation.\<close>

definition slot_on_screen :: "plan_on_screen option \<Rightarrow> plan_slot \<Rightarrow> plan_slot" where
  "slot_on_screen carried previewed =
     (case previewed of
        Slot_Absent \<Rightarrow> (case carried of Some p \<Rightarrow> Slot_Ready p | None \<Rightarrow> Slot_Absent)
      | slot \<Rightarrow> slot)"

datatype plan_verdict = NoPlan | Fresh plan_freshness | Verdict_Rebuilding | Verdict_RebuildFailed

definition verdict :: "plan_slot \<Rightarrow> feed_log \<Rightarrow> plan_verdict" where
  "verdict slot log =
     (case slot of
        Slot_Absent \<Rightarrow> NoPlan
      | Slot_Rebuilding \<Rightarrow> Verdict_Rebuilding
      | Slot_RebuildFailed \<Rightarrow> Verdict_RebuildFailed
      | Slot_Ready plan \<Rightarrow> Fresh (freshness plan log))"

definition confirm_enabled :: "bool \<Rightarrow> plan_verdict \<Rightarrow> bool" where
  "confirm_enabled prompt_enabled v \<longleftrightarrow>
     prompt_enabled \<and>
     (case v of NoPlan \<Rightarrow> True | Fresh f \<Rightarrow> execute_offered f | Verdict_Rebuilding \<Rightarrow> False
      | Verdict_RebuildFailed \<Rightarrow> False)"

definition rebuild_is_offered :: "plan_verdict \<Rightarrow> bool" where
  "rebuild_is_offered v =
     (case v of Fresh f \<Rightarrow> \<not> execute_offered f | Verdict_Rebuilding \<Rightarrow> False
      | Verdict_RebuildFailed \<Rightarrow> True | NoPlan \<Rightarrow> False)"

definition blocked_by_staleness :: "plan_verdict \<Rightarrow> string option" where
  "blocked_by_staleness v =
     (case v of
        NoPlan \<Rightarrow> None
      | Verdict_Rebuilding \<Rightarrow>
          Some (''This can't run yet: a new plan is being built for you to review.'')
      | Verdict_RebuildFailed \<Rightarrow>
          Some (''This can't run: the new plan couldn't be built, so there is nothing '' @
                ''to review.'')
      | Fresh f \<Rightarrow>
          (case f of
             Fresh_Current \<Rightarrow> None
           | Fresh_Unknown r \<Rightarrow>
               Some (''This can't run while it isn't known whether the picture above is '' @
                     ''current.'')
           | _ \<Rightarrow>
               Some (''This can't run: the repository moved after this picture was drawn.'')))"

fun join_names :: "string list \<Rightarrow> string" where
  "join_names [] = []"
| "join_names [n] = n"
| "join_names [n, m] = n @ '' and '' @ m"
| "join_names refs = join '', '' (butlast refs) @ '', and '' @ last refs"

definition freshness_headline :: "plan_freshness \<Rightarrow> string option" where
  "freshness_headline f =
     (case f of
        Fresh_Current \<Rightarrow> None
      | Fresh_Moved refs \<Rightarrow>
          if refs = []
          then Some (''The repository changed while this was on screen.'')
          else Some (join_names refs @ '' moved while this was on screen.'')
      | Fresh_MovedElsewhere \<Rightarrow>
          Some (''The repository moved, but not in a way this operation depends on.'')
      | Fresh_Unknown reason \<Rightarrow>
          Some (case reason of
             NotConnected \<Rightarrow> ''Couldn't tell whether this is still current.''
           | Feed_Blind reason \<Rightarrow>
               ''Couldn't tell whether this is still current '' @ em_dash @ '' '' @ reason @
               ''.''))"

definition rebuild_framing :: "plan_freshness \<Rightarrow> string option" where
  "rebuild_framing f =
     (case f of
        Fresh_Current \<Rightarrow> None
      | Fresh_Moved refs \<Rightarrow>
          if refs = []
          then Some (''Rebuild to see what this would do now. You will be asked to '' @
                     ''approve it again.'')
          else Some (''What this does will be different. Rebuild it and review it again.'')
      | Fresh_MovedElsewhere \<Rightarrow>
          Some (''Rebuilding will produce the same operation against the current state.'')
      | Fresh_Unknown r \<Rightarrow> Some (''Rebuild to be sure.''))"

definition verdict_headline :: "plan_verdict \<Rightarrow> string option" where
  "verdict_headline v =
     (case v of
        NoPlan \<Rightarrow> None
      | Verdict_Rebuilding \<Rightarrow> Some (''Building a new plan'' @ ellipsis)
      | Verdict_RebuildFailed \<Rightarrow>
          Some (''Couldn't build a new plan for the repository as it is now.'')
      | Fresh f \<Rightarrow> freshness_headline f)"

definition verdict_framing :: "plan_verdict \<Rightarrow> string option" where
  "verdict_framing v =
     (case v of
        NoPlan \<Rightarrow> None
      | Verdict_Rebuilding \<Rightarrow>
          Some (''Nothing can run until it arrives, and you will be asked to approve it.'')
      | Verdict_RebuildFailed \<Rightarrow> Some (''Try again, or close this and start '' @
                                                  ''over.'')
      | Fresh f \<Rightarrow> rebuild_framing f)"

subsection \<open>The health affordance\<close>

record feed_health_display_r =
  fd_label :: string
  fd_announcement :: string
  fd_degraded :: bool

definition show_nat :: "nat \<Rightarrow> string" where "show_nat n = decimal (int n)"

primrec watcher_loss_reason :: "watcher_loss \<Rightarrow> string" where
  "watcher_loss_reason (LimitReached at) = ''the watch limit was reached at '' @ show_nat at"
| "watcher_loss_reason (WatchLost location) = ''lost the watch on '' @ location"
| "watcher_loss_reason (Unreliable missed hinted) =
     ''missed '' @ show_u32 missed @ '' of '' @ show_u32 hinted @ '' hinted changes''"
| "watcher_loss_reason (Unsupported detail) = ''not supported on this platform: '' @ detail"
| "watcher_loss_reason (Backend detail) = ''the watcher backend failed: '' @ detail"

definition feed_health_display :: "feed_health option \<Rightarrow> unix_seconds \<Rightarrow> feed_health_display_r" where
  "feed_health_display health now =
     (case health of
        None \<Rightarrow>
          \<lparr>fd_label = ''Connecting'',
           fd_announcement = ''Change feed: couldn't tell yet '' @ em_dash @
                             '' no reading has arrived.'',
           fd_degraded = False\<rparr>
      | Some h \<Rightarrow>
          (case h of
             Health_Watching watches budget \<Rightarrow>
               \<lparr>fd_label = ''Live'',
                fd_announcement = ''Change feed: watching for repository changes.'', fd_degraded = False\<rparr>
           | Health_Bounded watched wanted budget \<Rightarrow>
               \<lparr>fd_label = ''Partial'',
                fd_announcement =
                  ''Change feed: watching '' @ show_nat watched @ '' of '' @ show_nat wanted @
                  '' refs; the rest are still covered by the periodic sweep, at its own '' @
                  ''cadence.'',
                fd_degraded = True\<rparr>
           | Health_SweepOnly reason \<Rightarrow>
               \<lparr>fd_label = ''Sweep only'',
                fd_announcement =
                  ''Change feed: no live watcher ('' @ watcher_loss_reason reason @
                  ''); relying on the periodic sweep.'',
                fd_degraded = True\<rparr>
           | Health_Blind reason since \<Rightarrow>
               \<lparr>fd_label = ''Unreadable'',
                fd_announcement =
                  ''Change feed: couldn't read the repository ('' @
                  freshness_label (Some (now - since)) @ '') '' @ em_dash @ '' '' @ reason,
                fd_degraded = True\<rparr>))"

subsection \<open>What the log is evidence of\<close>

text \<open>
  The log holds snapshots of the feed, with a delta only where the one before it is the snapshot the
  delta was taken against.
\<close>

definition of_feed :: "(feed_snapshot \<times> sweep_outcome) list \<Rightarrow> feed_snapshot \<Rightarrow> bool" where
  "of_feed h e \<longleftrightarrow>
     (\<exists>s \<in> fst ` set h. e = s \<or> e = s\<lparr>sn_changed := Delta_Unknown\<rparr>)"

definition log_ok :: "(feed_snapshot \<times> sweep_outcome) list \<Rightarrow> feed_log \<Rightarrow> bool" where
  "log_ok h log \<longleftrightarrow>
     list_all (of_feed h) log \<and>
     successively (\<lambda>a b. sn_changed b = Delta_Unknown \<or> sn_seq b = sn_seq a + 1) log"

lemma log_ok_tl: "log_ok h log \<Longrightarrow> log_ok h (tl log)"
  by (cases log; cases "tl log") (auto simp: log_ok_def)

lemma record_snapshot_ok:
  assumes "log_ok h log" and "s \<in> fst ` set h"
  shows "log_ok h (record_snapshot s log)"
proof -
  let ?s = "if continuous s log then s else s\<lparr>sn_changed := Delta_Unknown\<rparr>"
  let ?log = "if length log = log_depth then tl log else log"
  have ok: "log_ok h ?log" using assms(1) log_ok_tl by simp
  have "of_feed h ?s" using assms(2) by (auto simp: of_feed_def)
  moreover have "sn_changed ?s = Delta_Unknown \<or> sn_seq ?s = sn_seq (last ?log) + 1" if "?log \<noteq> []"
  proof (cases "continuous s log")
    case True
    have "last ?log = last log" using that by (auto simp: last_tl split: if_splits)
    with True show ?thesis by (simp add: continuous_def)
  qed simp
  ultimately show ?thesis using ok
    by (auto simp: log_ok_def record_snapshot_def Let_def successively_append_iff)
qed

definition received :: "feed_snapshot list \<Rightarrow> feed_log" where
  "received ss = fold record_snapshot ss []"

interpretation client: run_invariant record_snapshot "log_ok h" "\<lambda>s. s \<in> fst ` set h" for h
  by unfold_locales (rule record_snapshot_ok)

lemma received_ok: "set ss \<subseteq> fst ` set h \<Longrightarrow> log_ok h (received ss)"
  unfolding received_def by (rule client.run_inv) (auto simp: log_ok_def)

lemma last_record: "last (record_snapshot s log) = (if continuous s log then s else s\<lparr>sn_changed := Delta_Unknown\<rparr>)"
  by (simp add: record_snapshot_def Let_def)

lemma last_received:
  assumes "ss \<noteq> []"
  shows "received ss \<noteq> [] \<and> sn_generation (last (received ss)) = sn_generation (last ss) \<and>
    sn_health (last (received ss)) = sn_health (last ss)"
proof -
  from assms obtain init s where ss: "ss = init @ [s]" by (metis rev_exhaust)
  have "received ss = record_snapshot s (received init)" by (simp add: received_def ss)
  then show ?thesis by (simp add: ss last_record) (simp add: record_snapshot_def Let_def)
qed

lemma entries_after_split:
  "entries_after generation log = Some es \<Longrightarrow>
    \<exists>pre e. log = pre @ e # es \<and> sn_generation e = Some generation"
proof (induction log)
  case (Cons e log)
  show ?case
  proof (cases "entries_after generation log")
    case None
    with Cons.prems show ?thesis by (intro exI[of _ "[]"]) (auto split: if_splits)
  next
    case (Some tail)
    with Cons obtain pre f where "log = pre @ f # es" "sn_generation f = Some generation" by auto
    then show ?thesis by (intro exI[of _ "e # pre"]) auto
  qed
qed simp

text \<open>The snapshots of the history, found by their number.\<close>

definition history_ok :: "(feed_snapshot \<times> sweep_outcome) list \<Rightarrow> bool" where
  "history_ok h \<longleftrightarrow> (\<forall>i < length h. entry_ok h i) \<and> length h < 2 ^ 64 - 1"

lemma of_feed_at:
  assumes "history_ok h" and "of_feed h e"
  obtains k where "k < length h" "sn_seq e = seq_of (Suc k)" "sn_generation e = sn_generation (fst (h ! k))"
    "sn_changed e = Delta_Unknown \<or> sn_changed e = sn_changed (fst (h ! k))"
proof -
  from assms(2) obtain s where s: "s \<in> fst ` set h" "e = s \<or> e = s\<lparr>sn_changed := Delta_Unknown\<rparr>"
    by (auto simp: of_feed_def)
  then obtain k where k: "k < length h" "fst (h ! k) = s" by (auto simp: in_set_conv_nth)
  from assms(1) k(1) have "entry_ok h k" by (simp add: history_ok_def)
  with k(2) have "sn_seq s = seq_of (Suc k)" by (simp add: entry_ok_def case_prod_unfold)
  with s k show thesis by (intro that[of k]) auto
qed

lemma named_step:
  assumes h: "history_ok h" and k: "k < length h" and e: "sn_seq e = seq_of (Suc k)"
    and f: "of_feed h f" "sn_changed f = Delta_Named moved elsewhere" "sn_seq f = sn_seq e + 1"
  shows "Suc k < length h \<and> sn_seq f = seq_of (Suc (Suc k)) \<and> sn_generation f = sn_generation (fst (h ! Suc k)) \<and>
    delta_between (outcome_reading (snd (h ! k))) (outcome_reading (snd (h ! Suc k))) = Delta_Named moved elsewhere"
proof -
  obtain j where j: "j < length h" "sn_seq f = seq_of (Suc j)" "sn_generation f = sn_generation (fst (h ! j))"
    "sn_changed f = sn_changed (fst (h ! j))"
    by (rule of_feed_at[OF h f(1)]) (use f(2) in auto)
  have len: "length h < 2 ^ 64 - 1" using h by (simp add: history_ok_def)
  have "sn_seq e + 1 = seq_of (Suc (Suc k))"
  proof -
    have "unat (seq_of (Suc k)) + 1 < 2 ^ 64" using k len by (simp add: unat_seq_of)
    then have "sat_add (seq_of (Suc k)) 1 = seq_of (Suc k) + 1" by (simp add: sat_add_def)
    then show ?thesis using e seq_of_Suc[of "Suc k"] by simp
  qed
  with f(3) j(2) have "seq_of (Suc j) = seq_of (Suc (Suc k))" by simp
  moreover have "Suc j < 2 ^ 64" "Suc (Suc k) < 2 ^ 64" using j(1) k len by linarith+
  ultimately have jk: "j = Suc k" using seq_of_inj by blast
  from h j(1) have "entry_ok h j" by (simp add: history_ok_def)
  with jk j f(2) show ?thesis by (simp add: entry_ok_def case_prod_unfold)
qed

text \<open>Along a chain of named deltas everything they do not mention stays as it was.\<close>

lemma chain_covers:
  assumes h: "history_ok h" and "list_all (of_feed h) es"
    and "successively (\<lambda>a b. sn_changed b = Delta_Unknown \<or> sn_seq b = sn_seq a + 1) (e # es)"
    and "k < length h" "sn_seq e = seq_of (Suc k)" "sn_generation e = sn_generation (fst (h ! k))"
    and "collect_moved es refs other = Some (refs', False)"
    and "outcome_reading (snd (h ! k)) = Some (was, was_other)"
  shows "\<exists>j now now_other. j < length h \<and> sn_generation (last (e # es)) = sn_generation (fst (h ! j)) \<and>
    outcome_reading (snd (h ! j)) = Some (now, now_other) \<and> now_other = was_other \<and> set refs \<subseteq> set refs' \<and>
    (\<forall>n. n \<notin> set refs' \<longrightarrow> map_of now n = map_of was n)"
  using assms(2-)
proof (induction es arbitrary: e k refs other was was_other)
  case Nil
  then show ?case by auto
next
  case (Cons f es)
  from Cons.prems(6) obtain moved elsewhere where f: "sn_changed f = Delta_Named moved elsewhere"
    and c: "collect_moved es (refs @ moved) (other \<or> elsewhere) = Some (refs', False)"
    by (auto split: ref_delta.splits)
  have mono: "collect_moved xs r o' = Some (r', False) \<Longrightarrow> \<not> o'" for xs r o' r'
    by (induction xs arbitrary: r o') (auto split: ref_delta.splits)
  from mono[OF c] have e: "\<not> elsewhere" by simp
  from Cons.prems(1,2) f have ff: "of_feed h f" "sn_seq f = sn_seq e + 1" by auto
  from named_step[OF h Cons.prems(3,4) ff(1) f ff(2)]
  have s: "Suc k < length h" "sn_seq f = seq_of (Suc (Suc k))" "sn_generation f = sn_generation (fst (h ! Suc k))"
    "delta_between (Some (was, was_other)) (outcome_reading (snd (h ! Suc k))) = Delta_Named moved False"
    using Cons.prems(7) e by auto
  from s(4) obtain mid mid_other where mid: "outcome_reading (snd (h ! Suc k)) = Some (mid, mid_other)"
    by (rule delta_between_named)
  from delta_between_covers[OF s(4)[unfolded mid]]
  have m: "mid_other = was_other" "\<And>n. n \<notin> set moved \<Longrightarrow> map_of mid n = map_of was n" by auto
  have "list_all (of_feed h) es" "successively (\<lambda>a b. sn_changed b = Delta_Unknown \<or> sn_seq b = sn_seq a + 1) (f # es)"
    using Cons.prems(1,2) by simp_all
  from Cons.IH[OF this s(1-3) c mid] obtain j now now_other where j: "j < length h"
    "sn_generation (last (f # es)) = sn_generation (fst (h ! j))"
    "outcome_reading (snd (h ! j)) = Some (now, now_other)" "now_other = mid_other"
    "set (refs @ moved) \<subseteq> set refs'" "\<forall>n. n \<notin> set refs' \<longrightarrow> map_of now n = map_of mid n"
    by (elim exE conjE) (rule that; assumption)
  show ?case
  proof (intro exI[of _ j] exI[of _ now] exI[of _ now_other] conjI allI impI)
    fix n assume "n \<notin> set refs'"
    with j(5,6) m(2)[of n] show "map_of now n = map_of was n" by auto
  qed (use j m(1) in auto)
qed

lemma feed_history_ok: "feed_run es = (p, h) \<Longrightarrow> length h < 2 ^ 64 - 1 \<Longrightarrow> history_ok h"
  using feed_run_inv[of es] by (simp add: history_ok_def feed_inv_def)

lemma reading_generation:
  assumes "history_ok h" and "k < length h" and "sn_generation (fst (h ! k)) = Some g"
  obtains r where "snd (h ! k) = Sweep_Read r" "sr_generation r = g"
proof -
  from assms(1,2) have "entry_ok h k" by (simp add: history_ok_def)
  with assms(3) have "outcome_generation (snd (h ! k)) = Some g" by (simp add: entry_ok_def case_prod_unfold)
  then show thesis using that by (auto simp: outcome_generation_def split: sweep_outcome.splits)
qed

text \<open>
  C9: the one reassuring answer is earned, end to end. Whatever a feed published and whichever of its
  snapshots the client received, in any order, with gaps and repetitions, when the client says the
  repository moved but not in a way this plan depends on, then a sweep did read the plan's generation,
  the last snapshot received is a later reading with another generation, and between those two
  readings every ref the plan names has the same target and nothing outside the refs changed.
\<close>

theorem moved_elsewhere_is_earned:
  assumes "feed_run es = (p, h)" and "length h < 2 ^ 64 - 1" and "set ss \<subseteq> fst ` set h"
    and "freshness plan (received ss) = Fresh_MovedElsewhere"
  shows "\<exists>old new. Sweep_Read old \<in> snd ` set h \<and> Sweep_Read new \<in> snd ` set h \<and>
    sr_generation old = ps_generation plan \<and> sn_generation (last ss) = Some (sr_generation new) \<and>
    sr_generation new \<noteq> ps_generation plan \<and> sr_other new = sr_other old \<and>
    (\<forall>n \<in> set (ps_expects plan). map_of (sr_refs new) n = map_of (sr_refs old) n)"
proof -
  let ?log = "received ss"
  note h = feed_history_ok[OF assms(1,2)]
  have ok: "log_ok h ?log" by (rule received_ok[OF assms(3)])
  from assms(4) obtain live moved where ne: "?log \<noteq> []" and live: "sn_generation (last ?log) = Some live"
    "live \<noteq> ps_generation plan"
    and m: "moved_since (ps_generation plan) ?log = Some (moved, False)"
    "\<forall>n \<in> set moved. n \<notin> set (ps_expects plan)"
    by (auto simp: freshness_def latest_def Let_def filter_empty_conv
        split: option.splits if_splits feed_health.splits)
  then have ss: "ss \<noteq> []" by (auto simp: received_def)
  from m(1) obtain tail refs where t: "entries_after (ps_generation plan) ?log = Some tail"
    and c: "collect_moved tail [] False = Some (refs, False)" and refs: "set moved = set refs"
    by (auto simp: moved_since_def split: option.splits)
  from entries_after_split[OF t] obtain pre e where log: "?log = pre @ e # tail"
    and e: "sn_generation e = Some (ps_generation plan)" by blast
  from ok log have all: "of_feed h e" "list_all (of_feed h) tail"
    "successively (\<lambda>a b. sn_changed b = Delta_Unknown \<or> sn_seq b = sn_seq a + 1) (e # tail)"
    by (auto simp: log_ok_def successively_append_iff)
  obtain k where k: "k < length h" "sn_seq e = seq_of (Suc k)" "sn_generation e = sn_generation (fst (h ! k))"
    by (rule of_feed_at[OF h all(1)])
  obtain old where old: "snd (h ! k) = Sweep_Read old" "sr_generation old = ps_generation plan"
    by (rule reading_generation[OF h k(1)]) (use e k(3) in simp)
  have "outcome_reading (snd (h ! k)) = Some (sr_refs old, sr_other old)"
    by (simp add: old outcome_reading_def)
  from chain_covers[OF h all(2,3) k c this] obtain j refs_now other_now where j: "j < length h"
    "sn_generation (last (e # tail)) = sn_generation (fst (h ! j))"
    "outcome_reading (snd (h ! j)) = Some (refs_now, other_now)" "other_now = sr_other old"
    "\<forall>n. n \<notin> set refs \<longrightarrow> map_of refs_now n = map_of (sr_refs old) n"
    by (elim exE conjE) (rule that; assumption)
  have last: "last ?log = last (e # tail)" by (simp add: log)
  have "sn_generation (fst (h ! j)) = Some live" using live(1) j(2) last by metis
  then obtain new where new: "snd (h ! j) = Sweep_Read new" "sr_generation new = live"
    by (rule reading_generation[OF h j(1)])
  with j(3) have rn: "refs_now = sr_refs new" "other_now = sr_other new" by (simp_all add: outcome_reading_def)
  have "sn_generation (last ss) = Some live" using last_received[OF ss] live(1) by simp
  moreover have "\<forall>n \<in> set (ps_expects plan). map_of (sr_refs new) n = map_of (sr_refs old) n"
    using j(5) m(2) refs rn(1) by auto
  moreover have "Sweep_Read old \<in> snd ` set h" "Sweep_Read new \<in> snd ` set h"
    using old(1) new(1) k(1) j(1) by (metis imageI nth_mem)+
  ultimately show ?thesis using old(2) new(2) live(2) j(4) rn(2)
    by (intro exI[of _ old] exI[of _ new]) simp
qed

definition sample_reading :: "string \<Rightarrow> string \<Rightarrow> sweep_reading" where
  "sample_reading g tag = \<lparr>sr_generation = g, sr_refs = [(''refs/heads/main'', ''a''), (''refs/tags/t'', tag)],
     sr_other = ''ff''\<rparr>"

definition sample_events :: "feed_event list" where
  "sample_events = [Sweep 0 0 Trigger_StreamOpen (Sweep_Read (sample_reading ''g1'' ''x'')),
     Sweep 5000 5 Trigger_Timer (Sweep_Read (sample_reading ''g2'' ''y''))]"

definition sample_on_screen :: plan_on_screen where
  "sample_on_screen = \<lparr>ps_generation = ''g1'', ps_expects = [''refs/heads/main''], ps_repository = ''r'',
     ps_worktree = ''w''\<rparr>"

lemma sample_history: "map fst (snd (feed_run sample_events)) =
    [\<lparr>sn_seq = 1, sn_generation = Some ''g1'',
      sn_health = Health_SweepOnly (Backend ''the watcher has not reported yet''),
      sn_changed = Delta_Unknown, sn_at = 0\<rparr>,
     \<lparr>sn_seq = 2, sn_generation = Some ''g2'',
      sn_health = Health_SweepOnly (Backend ''the watcher has not reported yet''),
      sn_changed = Delta_Named [''refs/tags/t''] False, sn_at = 5\<rparr>]"
proof -
  have n: "ref_name_new ''refs/tags/t'' = Inr ''refs/tags/t''" by code_simp
  show ?thesis
    by (simp add: feed_run_def sample_events_def feed_step_def observe_def feed_new_def sample_reading_def
        settle_due_def date_blindness_def outcome_generation_def outcome_reading_def feed_health_now_def
        count_evidence_def note_timer_found_a_change_def sat_add_def delta_def changed_or_added_def
        removed_def note_moved_def push_ref_def Let_def n)
qed

lemma sample_freshness:
  "freshness sample_on_screen (received (map fst (snd (feed_run sample_events)))) = Fresh_MovedElsewhere"
  unfolding sample_history
  by (simp add: freshness_def received_def record_snapshot_def continuous_def log_depth_def latest_def
      sample_on_screen_def moved_since_def)

lemma sample_run:
  obtains p h ss where "feed_run sample_events = (p, h)" "length h < 2 ^ 64 - 1" "set ss \<subseteq> fst ` set h"
    "sn_generation (last ss) = Some ''g2''" "ss = map fst (snd (feed_run sample_events))"
proof (rule that[OF prod.collapse[symmetric]])
  have "length (map fst (snd (feed_run sample_events))) = 2" unfolding sample_history by simp
  then show "length (snd (feed_run sample_events)) < 2 ^ 64 - 1" by simp
  show "sn_generation (last (map fst (snd (feed_run sample_events)))) = Some ''g2''"
    unfolding sample_history by simp
qed simp_all

theorem moved_elsewhere_is_earned_witness:
  "\<exists>p h old new. feed_run sample_events = (p, h) \<and> sr_generation old = ''g1'' \<and> sr_generation new = ''g2'' \<and>
    Sweep_Read old \<in> snd ` set h \<and> Sweep_Read new \<in> snd ` set h \<and>
    map_of (sr_refs new) ''refs/heads/main'' = map_of (sr_refs old) ''refs/heads/main''"
proof -
  obtain p h ss where r: "feed_run sample_events = (p, h)" "length h < 2 ^ 64 - 1" "set ss \<subseteq> fst ` set h"
    "sn_generation (last ss) = Some ''g2''" and ss: "ss = map fst (snd (feed_run sample_events))"
    by (rule sample_run)
  have "freshness sample_on_screen (received ss) = Fresh_MovedElsewhere"
    unfolding ss by (rule sample_freshness)
  from moved_elsewhere_is_earned[OF r(1-3) this] show ?thesis
  proof (elim exE conjE)
    fix old new
    assume "Sweep_Read old \<in> snd ` set h" "Sweep_Read new \<in> snd ` set h" "sr_generation old = ps_generation sample_on_screen"
      "sn_generation (last ss) = Some (sr_generation new)"
      "\<forall>n \<in> set (ps_expects sample_on_screen). map_of (sr_refs new) n = map_of (sr_refs old) n"
    with r(1,4) show ?thesis
      by - (rule exI[of _ p], rule exI[of _ h], rule exI[of _ old], rule exI[of _ new],
        simp add: sample_on_screen_def)
  qed
qed

text \<open>
  C29: the confirm control of a plan on screen is live exactly when the dialog itself allows it and the
  last snapshot received is a sweep's reading of the very generation the plan was built on; a blind
  feed, an empty log and a plan being replaced never enable it.
\<close>

theorem confirm_only_when_current:
  assumes "feed_run es = (p, h)" and "length h < 2 ^ 64 - 1" and "set ss \<subseteq> fst ` set h"
  shows "(confirm_enabled prompt (verdict (Slot_Ready plan) (received ss)) \<longleftrightarrow>
      prompt \<and> ss \<noteq> [] \<and> (\<exists>r. (last ss, Sweep_Read r) \<in> set h \<and> sr_generation r = ps_generation plan)) \<and>
    \<not> confirm_enabled prompt (verdict (slot_when_requested True) (received ss)) \<and>
    \<not> confirm_enabled prompt (verdict (slot_when_request_failed True) (received ss))"
proof -
  note h = feed_history_ok[OF assms(1,2)]
  have entry: "sn_generation s = outcome_generation o1 \<and> is_a_reading (sn_health s) = (outcome_generation o1 \<noteq> None)"
    if "(s, o1) \<in> set h" for s o1
  proof -
    from that obtain k where "k < length h" "h ! k = (s, o1)" by (auto simp: in_set_conv_nth)
    with h show ?thesis by (auto simp: history_ok_def entry_ok_def)
  qed
  have "confirm_enabled prompt (verdict (Slot_Ready plan) (received ss)) \<longleftrightarrow>
      prompt \<and> ss \<noteq> [] \<and> (\<exists>r. (last ss, Sweep_Read r) \<in> set h \<and> sr_generation r = ps_generation plan)"
  proof (cases "ss = []")
    case True
    then show ?thesis
      by (simp add: confirm_enabled_def verdict_def freshness_def latest_def received_def execute_offered_def)
  next
    case False
    then have "last ss \<in> fst ` set h" using assms(3) by auto
    then obtain o1 where o1: "(last ss, o1) \<in> set h" by auto
    from last_received[OF False] have "execute_offered (freshness plan (received ss)) \<longleftrightarrow>
        is_a_reading (sn_health (last ss)) \<and> sn_generation (last ss) = Some (ps_generation plan)"
      by (auto simp: freshness_def latest_def execute_offered_def is_a_reading_def Let_def
          split: feed_health.splits option.splits if_splits)
    also have "\<dots> \<longleftrightarrow> (\<exists>r. (last ss, Sweep_Read r) \<in> set h \<and> sr_generation r = ps_generation plan)"
    proof
      assume "is_a_reading (sn_health (last ss)) \<and> sn_generation (last ss) = Some (ps_generation plan)"
      with entry[OF o1] have "outcome_generation o1 = Some (ps_generation plan)" by simp
      then obtain r where "o1 = Sweep_Read r" "sr_generation r = ps_generation plan"
        by (cases o1) (simp_all add: outcome_generation_def)
      with o1 show "\<exists>r. (last ss, Sweep_Read r) \<in> set h \<and> sr_generation r = ps_generation plan" by blast
    next
      assume "\<exists>r. (last ss, Sweep_Read r) \<in> set h \<and> sr_generation r = ps_generation plan"
      then obtain r where "(last ss, Sweep_Read r) \<in> set h" "sr_generation r = ps_generation plan" by blast
      with entry[of "last ss" "Sweep_Read r"]
      show "is_a_reading (sn_health (last ss)) \<and> sn_generation (last ss) = Some (ps_generation plan)"
        by (simp add: outcome_generation_def)
    qed
    finally show ?thesis using False by (simp add: confirm_enabled_def verdict_def)
  qed
  then show ?thesis
    by (simp add: confirm_enabled_def verdict_def slot_when_requested_def slot_when_request_failed_def)
qed

theorem confirm_only_when_current_witness:
  "\<not> confirm_enabled True (verdict (Slot_Ready sample_on_screen) (received (map fst (snd (feed_run sample_events)))))"
proof -
  obtain p h ss where r: "feed_run sample_events = (p, h)" "length h < 2 ^ 64 - 1" "set ss \<subseteq> fst ` set h"
    "sn_generation (last ss) = Some ''g2''" and ss: "ss = map fst (snd (feed_run sample_events))"
    by (rule sample_run)
  have g2: "sr_generation x = ''g2''" if "(last ss, Sweep_Read x) \<in> set h" for x
  proof -
    from that obtain k where k: "k < length h" "h ! k = (last ss, Sweep_Read x)"
      by (auto simp: in_set_conv_nth)
    from feed_history_ok[OF r(1,2)] k(1) have "entry_ok h k" by (simp add: history_ok_def)
    with k(2) r(4) show ?thesis by (simp add: entry_ok_def outcome_generation_def)
  qed
  have g1: "ps_generation sample_on_screen \<noteq> ''g2''" by (simp add: sample_on_screen_def)
  have "\<not> (\<exists>x. (last ss, Sweep_Read x) \<in> set h \<and> sr_generation x = ps_generation sample_on_screen)"
  proof (rule notI, elim exE conjE)
    fix x assume "(last ss, Sweep_Read x) \<in> set h" "sr_generation x = ps_generation sample_on_screen"
    with g2[of x] g1 show False by simp
  qed
  with conjunct1[OF confirm_only_when_current[OF r(1-3), of True sample_on_screen]] show ?thesis
    unfolding ss[symmetric] by (simp only: simp_thms)
qed

end
