(* ===== verification/Worktrees.thy ===== *)
theory Worktrees imports Plan_Export begin

text \<open>
  \<open>crates/git-vista-protocol/src/worktree.rs\<close>: the worktree census. The strict parser of
  \<open>git worktree list --porcelain\<close>, the rows a census carries, and the question the checkout
  precondition asks of it: which other worktree holds a branch.
\<close>

subsection \<open>The census and its rows\<close>

datatype serviceable = Serviceable_Yes | OutsideAllowedRoots | Serviceable_Missing

fun is_openable :: "serviceable \<Rightarrow> bool" where
  "is_openable Serviceable_Yes = True"
| "is_openable OutsideAllowedRoots = False"
| "is_openable Serviceable_Missing = False"

fun refusal :: "serviceable \<Rightarrow> string option" where
  "refusal Serviceable_Yes = None"
| "refusal OutsideAllowedRoots = Some (''This worktree is outside the folders you '' @
                                       ''allowed, so it cannot be opened.'')"
| "refusal Serviceable_Missing = Some (''This worktree's folder is gone from disk, '' @
                                       ''though git still holds its entry. Run git '' @
                                       ''worktree prune to release the branch it is '' @
                                       ''holding.'')"

record worktree_sibling =
  ws_repository :: string
  ws_id :: string
  ws_name :: string
  ws_path :: "string option"
  ws_branch :: "branch_name option"
  ws_head :: "commit_oid option"
  ws_is_current :: bool
  ws_locked :: bool
  ws_prunable :: bool
  ws_bare :: bool
  ws_serviceable :: serviceable

datatype worktree_census =
    Observed "worktree_sibling list"
  | CensusFailed string "string option"

subsection \<open>The porcelain parser\<close>

record worktree_list_record =
  wr_path :: string
  wr_head_hex :: "string option"
  wr_branch_ref :: "string option"
  wr_detached :: bool
  wr_bare :: bool
  wr_locked :: bool
  wr_prunable :: bool

text \<open>\<open>RecordBuilder\<close> has the fields of the record it builds.\<close>

definition record_builder_new :: "string \<Rightarrow> worktree_list_record" where
  "record_builder_new path =
     \<lparr>wr_path = path, wr_head_hex = None, wr_branch_ref = None, wr_detached = False,
      wr_bare = False, wr_locked = False, wr_prunable = False\<rparr>"

definition head_shape_taken :: "worktree_list_record \<Rightarrow> bool" where
  "head_shape_taken b \<longleftrightarrow> wr_branch_ref b \<noteq> None \<or> wr_detached b \<or> wr_bare b"

definition apply_line :: "string \<Rightarrow> worktree_list_record \<Rightarrow> string + worktree_list_record" where
  "apply_line line b =
     (let (label, rest) =
        (case split_once '' '' line of Some (l, r) \<Rightarrow> (l, Some r) | None \<Rightarrow> (line, None)) in
      if label = ''HEAD'' then
        (case rest of
           None \<Rightarrow> Inl (''`HEAD` line has no value'')
         | Some v \<Rightarrow>
             if wr_head_hex b \<noteq> None
             then Inl (''`'' @ wr_path b @ ''` has more than one `HEAD` line'')
             else Inr (b\<lparr>wr_head_hex := Some v\<rparr>))
      else if label = ''branch'' then
        (case rest of
           None \<Rightarrow> Inl (''`branch` line has no value'')
         | Some v \<Rightarrow>
             if head_shape_taken b
             then Inl (''`'' @ wr_path b @
                       ''`'s `branch` line conflicts with an earlier '' @
                       ''`branch`/`detached`/`bare` line'')
             else Inr (b\<lparr>wr_branch_ref := Some v\<rparr>))
      else if label = ''detached'' then
        (if rest \<noteq> None then Inl (''`detached` takes no value'')
         else if head_shape_taken b
         then Inl (''`'' @ wr_path b @
                   ''`'s `detached` line conflicts with an earlier '' @
                   ''`branch`/`detached`/`bare` line'')
         else Inr (b\<lparr>wr_detached := True\<rparr>))
      else if label = ''bare'' then
        (if rest \<noteq> None then Inl (''`bare` takes no value'')
         else if head_shape_taken b
         then Inl (''`'' @ wr_path b @
                   ''`'s `bare` line conflicts with an earlier '' @
                   ''`branch`/`detached`/`bare` line'')
         else Inr (b\<lparr>wr_bare := True\<rparr>))
      else if label = ''locked'' then
        (if wr_locked b then Inl (''`'' @ wr_path b @ ''` has more than one `locked` line'')
         else Inr (b\<lparr>wr_locked := True\<rparr>))
      else if label = ''prunable'' then
        (if wr_prunable b then Inl (''`'' @ wr_path b @ ''` has more than one `prunable` line'')
         else Inr (b\<lparr>wr_prunable := True\<rparr>))
      else Inl (''unrecognised worktree-list attribute `'' @ label @ ''`''))"

definition finish_record :: "worktree_list_record \<Rightarrow> string + worktree_list_record" where
  "finish_record b =
     (if wr_bare b then
        (if wr_head_hex b \<noteq> None
         then Inl (''`'' @ wr_path b @ ''` is `bare` but also carries a `HEAD` line'')
         else Inr b)
      else if wr_head_hex b = None
      then Inl (''`'' @ wr_path b @ ''` has no `HEAD` line and is not `bare`'')
      else if \<not> wr_detached b \<and> wr_branch_ref b = None
      then Inl (''`'' @ wr_path b @ ''` names neither a `branch` nor `detached`'')
      else Inr b)"

definition close_record ::
  "worktree_list_record option \<Rightarrow> worktree_list_record list \<Rightarrow> string + worktree_list_record list" where
  "close_record current records =
     (case current of
        None \<Rightarrow> Inr records
      | Some b \<Rightarrow> (case finish_record b of Inl e \<Rightarrow> Inl e | Inr r \<Rightarrow> Inr (records @ [r])))"

fun parse_lines ::
  "string list \<Rightarrow> worktree_list_record option \<Rightarrow> worktree_list_record list \<Rightarrow>
     string + worktree_list_record list" where
  "parse_lines [] current records = close_record current records"
| "parse_lines (line # ls) current records =
     (if line = [] then
        (case close_record current records of Inl e \<Rightarrow> Inl e | Inr rs \<Rightarrow> parse_lines ls None rs)
      else
        (case strip_prefix ''worktree '' line of
           Some rest \<Rightarrow>
             if current \<noteq> None
             then Inl (''a new `worktree` line (`'' @ line @
                       ''`) appeared before the previous record's blank-line terminator'')
             else if rest = [] then Inl (''a `worktree` line named an empty path'')
             else parse_lines ls (Some (record_builder_new rest)) records
         | None \<Rightarrow>
             (case current of
                None \<Rightarrow> Inl (''line `'' @ line @
                                        ''` appeared before any `worktree` line'')
              | Some b \<Rightarrow>
                  (case apply_line line b of
                     Inl e \<Rightarrow> Inl e
                   | Inr b' \<Rightarrow> parse_lines ls (Some b') records))))"

definition parse_worktree_porcelain :: "string \<Rightarrow> string + worktree_list_record list" where
  "parse_worktree_porcelain t = parse_lines (split_on newline_char t) None []"

subsection \<open>Who holds a branch\<close>

datatype branch_holder =
    Holder_Free
  | HeldBy worktree_sibling
  | Holder_Unknown string

definition branch_holder :: "worktree_census \<Rightarrow> branch_name \<Rightarrow> branch_holder" where
  "branch_holder census branch =
     (case census of
        CensusFailed reason detail \<Rightarrow> Holder_Unknown reason
      | Observed siblings \<Rightarrow>
          (case find (\<lambda>s. \<not> ws_is_current s \<and> ws_branch s = Some branch) siblings of
             None \<Rightarrow> Holder_Free
           | Some s \<Rightarrow> HeldBy s))"

fun permits_checkout :: "branch_holder \<Rightarrow> bool" where
  "permits_checkout Holder_Free = True"
| "permits_checkout (HeldBy s) = False"
| "permits_checkout (Holder_Unknown r) = False"

subsection \<open>What a successful parse accounts for\<close>

text \<open>A record git can have printed: the shape every accepted record has.\<close>

definition wf_record :: "worktree_list_record \<Rightarrow> bool" where
  "wf_record r \<longleftrightarrow> wr_path r \<noteq> [] \<and>
     (if wr_bare r then wr_head_hex r = None \<and> wr_branch_ref r = None \<and> \<not> wr_detached r
      else wr_head_hex r \<noteq> None \<and> (wr_detached r \<longleftrightarrow> wr_branch_ref r = None))"

text \<open>What a record under construction always satisfies.\<close>

definition wf_builder :: "worktree_list_record \<Rightarrow> bool" where
  "wf_builder r \<longleftrightarrow> wr_path r \<noteq> [] \<and>
     (wr_bare r \<longrightarrow> wr_branch_ref r = None \<and> \<not> wr_detached r) \<and>
     (wr_detached r \<longrightarrow> wr_branch_ref r = None)"

lemma wf_builder_new [simp]: "path \<noteq> [] \<Longrightarrow> wf_builder (record_builder_new path)"
  by (simp add: wf_builder_def record_builder_new_def)

lemma finish_record_Inr:
  "finish_record b = Inr r \<Longrightarrow> wf_builder b \<Longrightarrow> r = b \<and> wf_record r"
  by (auto simp: finish_record_def wf_builder_def wf_record_def split: if_splits)

lemma wf_record_finish: "wf_record r \<Longrightarrow> finish_record r = Inr r"
  by (auto simp: finish_record_def wf_record_def split: if_splits)

definition branch_of_line :: "string \<Rightarrow> string option" where
  "branch_of_line line = strip_prefix ''branch '' line"

definition worktree_of_line :: "string \<Rightarrow> string option" where
  "worktree_of_line line = strip_prefix ''worktree '' line"

lemma split_once_space_prefix:
  assumes "split_once '' '' line = Some (l, r)" shows "line = l @ CHR 0x20 # r"
  using assms
  by (induction line arbitrary: l r) (auto split: if_splits option.splits)

lemma split_once_label:
  assumes "CHR 0x20 \<notin> set l" shows "split_once '' '' (l @ CHR 0x20 # r) = Some (l, r)"
  using split_once_first[of "CHR 0x20" l "[]" r] assms by simp

lemma apply_line_wf:
  assumes "apply_line line b = Inr b'" "wf_builder b"
  shows "wf_builder b' \<and> wr_path b' = wr_path b"
  using assms
  by (auto simp: apply_line_def wf_builder_def head_shape_taken_def Let_def
      split: if_splits option.splits prod.splits)

lemma branch_of_line_split:
  "branch_of_line line = Some v \<longleftrightarrow> split_once '' '' line = Some (''branch'', v)"
proof
  assume "branch_of_line line = Some v"
  then have "line = ''branch'' @ CHR 0x20 # v" by (simp add: branch_of_line_def strip_prefix_Some)
  then show "split_once '' '' line = Some (''branch'', v)"
    using split_once_label[of "''branch''" v] by simp
next
  assume "split_once '' '' line = Some (''branch'', v)"
  then have "line = ''branch '' @ v" using split_once_space_prefix by fastforce
  then show "branch_of_line line = Some v" by (simp only: branch_of_line_def strip_prefix_append)
qed

lemma apply_line_branch:
  assumes "apply_line line b = Inr b'"
  shows "case branch_of_line line of
           Some v \<Rightarrow> wr_branch_ref b = None \<and> wr_branch_ref b' = Some v
         | None \<Rightarrow> wr_branch_ref b' = wr_branch_ref b"
proof (cases "branch_of_line line")
  case (Some v)
  then have s: "split_once '' '' line = Some (''branch'', v)" by (simp only: branch_of_line_split)
  from assms show ?thesis
    by (auto simp: Some s apply_line_def head_shape_taken_def split: if_splits)
next
  case None
  then have "split_once '' '' line \<noteq> Some (''branch'', v)" for v
    using branch_of_line_split[of line v] by simp
  with assms show ?thesis
    by (auto simp: None apply_line_def Let_def split: if_splits option.splits prod.splits)
qed

lemma worktree_line_no_branch: "worktree_of_line line = Some p \<Longrightarrow> branch_of_line line = None"
  by (auto simp: worktree_of_line_def branch_of_line_def strip_prefix_Some)

text \<open>The records read so far, the open one included.\<close>

definition read_so_far :: "worktree_list_record option \<Rightarrow> worktree_list_record list \<Rightarrow> worktree_list_record list" where
  "read_so_far current records = records @ (case current of None \<Rightarrow> [] | Some b \<Rightarrow> [b])"

lemma read_so_far_simps [simp]:
  "read_so_far None rs = rs" "read_so_far (Some b) rs = rs @ [b]"
  by (simp_all add: read_so_far_def)

lemma close_record_accounts:
  assumes "close_record current records = Inr rs"
    "\<forall>b. current = Some b \<longrightarrow> wf_builder b" "\<forall>r \<in> set records. wf_record r"
  shows "rs = read_so_far current records \<and> (\<forall>r \<in> set rs. wf_record r)"
  using assms
  by (auto simp: close_record_def dest!: finish_record_Inr split: option.splits sum.splits)

lemma map_filter_snoc: "List.map_filter f (xs @ [x]) = List.map_filter f xs @ (case f x of None \<Rightarrow> [] | Some y \<Rightarrow> [y])"
  by (simp add: List.map_filter_def split: option.splits)

lemma map_filter_Cons:
  "List.map_filter f (x # xs) = (case f x of None \<Rightarrow> [] | Some y \<Rightarrow> [y]) @ List.map_filter f xs"
  by (simp add: List.map_filter_def split: option.splits)

lemma parse_lines_accounts:
  assumes "parse_lines ls current records = Inr rs"
    "\<forall>b. current = Some b \<longrightarrow> wf_builder b" "\<forall>r \<in> set records. wf_record r"
  shows "(\<forall>r \<in> set rs. wf_record r) \<and>
    map wr_path rs = map wr_path (read_so_far current records) @ List.map_filter worktree_of_line ls \<and>
    List.map_filter wr_branch_ref rs =
      List.map_filter wr_branch_ref (read_so_far current records) @ List.map_filter branch_of_line ls"
  using assms
proof (induction ls arbitrary: current records)
  case Nil
  then show ?case using close_record_accounts[of current records rs] by (simp add: List.map_filter_def)
next
  case (Cons line ls)
  show ?case
  proof (cases "line = []")
    case True
    with Cons.prems(1) obtain rs' where rs': "close_record current records = Inr rs'"
      "parse_lines ls None rs' = Inr rs" by (auto split: sum.splits)
    from close_record_accounts[OF rs'(1) Cons.prems(2,3)] Cons.IH[OF rs'(2)] True
    show ?thesis by (simp add: map_filter_Cons worktree_of_line_def branch_of_line_def)
  next
    case nonempty: False
    show ?thesis
    proof (cases "worktree_of_line line")
      case (Some p)
      with Cons.prems(1) nonempty have *: "current = None" "p \<noteq> []"
        "parse_lines ls (Some (record_builder_new p)) records = Inr rs"
        by (auto simp: worktree_of_line_def split: if_splits)
      from Cons.IH[OF *(3)] wf_builder_new[OF *(2)] *(1) Cons.prems(3) Some worktree_line_no_branch[OF Some]
      show ?thesis by (simp add: map_filter_Cons map_filter_snoc record_builder_new_def)
    next
      case None
      with Cons.prems(1) nonempty obtain b b' where *: "current = Some b"
        "apply_line line b = Inr b'" "parse_lines ls (Some b') records = Inr rs"
        by (auto simp: worktree_of_line_def split: option.splits sum.splits)
      from Cons.prems(2) *(1) have wfb: "wf_builder b" by simp
      from apply_line_wf[OF *(2) wfb] have wf: "wf_builder b'" "wr_path b' = wr_path b" by auto
      from Cons.IH[OF *(3)] wf(1) Cons.prems(3) *(1) wf(2) None apply_line_branch[OF *(2)]
      show ?thesis by (auto simp: map_filter_Cons map_filter_snoc split: option.splits)
    qed
  qed
qed

text \<open>
  Whenever the parser accepts what git printed, no worktree and no checked-out branch is lost:
  the records name exactly the \<open>worktree\<close> lines, in order, their branches exactly the
  \<open>branch\<close> lines, and every record has a shape git can mean: a bare record has neither commit nor
  branch, every other one a commit and either a branch or a detached HEAD.
\<close>

theorem worktree_list_complete:
  assumes "parse_worktree_porcelain t = Inr rs"
  shows "map wr_path rs = List.map_filter (strip_prefix ''worktree '') (split_on newline_char t) \<and>
    List.map_filter wr_branch_ref rs =
      List.map_filter (strip_prefix ''branch '') (split_on newline_char t) \<and>
    (\<forall>r \<in> set rs. wr_path r \<noteq> [] \<and>
       (if wr_bare r then wr_head_hex r = None \<and> wr_branch_ref r = None \<and> \<not> wr_detached r
        else wr_head_hex r \<noteq> None \<and> (wr_detached r \<longleftrightarrow> wr_branch_ref r = None)))"
proof -
  have f: "worktree_of_line = strip_prefix ''worktree ''" "branch_of_line = strip_prefix ''branch ''"
    by (rule ext, simp only: worktree_of_line_def branch_of_line_def)+
  from parse_lines_accounts[OF assms[unfolded parse_worktree_porcelain_def]]
  show ?thesis unfolding f wf_record_def by (simp add: List.map_filter_def)
qed

subsection \<open>Reading back what git prints\<close>

text \<open>
  The output format of \<open>git worktree list --porcelain\<close> as its manual gives it: one attribute to a
  line, an empty line after each record; \<open>locked\<close> and \<open>prunable\<close> may carry a reason.
\<close>

definition flag_line :: "string \<Rightarrow> string option \<Rightarrow> bool \<Rightarrow> string list" where
  "flag_line label reason present =
     (if present then [case reason of None \<Rightarrow> label | Some r \<Rightarrow> label @ '' '' @ r] else [])"

definition record_lines :: "worktree_list_record \<times> string option \<times> string option \<Rightarrow> string list" where
  "record_lines = (\<lambda>(r, lock_reason, prune_reason).
     [''worktree '' @ wr_path r] @
     (if wr_bare r then [''bare'']
      else [''HEAD '' @ the (wr_head_hex r),
            (case wr_branch_ref r of None \<Rightarrow> ''detached'' | Some b \<Rightarrow> ''branch '' @ b)]) @
     flag_line ''locked'' lock_reason (wr_locked r) @
     flag_line ''prunable'' prune_reason (wr_prunable r) @ [[]])"

definition print_worktree_list :: "(worktree_list_record \<times> string option \<times> string option) list \<Rightarrow> string" where
  "print_worktree_list ps = terminated (concat (map record_lines ps))"

text \<open>No value of the record spans a line.\<close>

definition one_line :: "worktree_list_record \<times> string option \<times> string option \<Rightarrow> bool" where
  "one_line = (\<lambda>(r, lock_reason, prune_reason).
     newline_char \<notin> set (wr_path r) \<and>
     list_all (pred_option (\<lambda>v. newline_char \<notin> set v))
       [wr_head_hex r, wr_branch_ref r, lock_reason, prune_reason])"

lemma apply_line_value:
  "wr_head_hex b = None \<Longrightarrow> apply_line (''HEAD '' @ v) b = Inr (b\<lparr>wr_head_hex := Some v\<rparr>)"
  "\<not> head_shape_taken b \<Longrightarrow> apply_line (''branch '' @ v) b = Inr (b\<lparr>wr_branch_ref := Some v\<rparr>)"
  using split_once_label[of "''HEAD''" v] split_once_label[of "''branch''" v]
  by (simp_all add: apply_line_def)

lemma apply_line_shape:
  "\<not> head_shape_taken b \<Longrightarrow> apply_line ''detached'' b = Inr (b\<lparr>wr_detached := True\<rparr>)"
  "\<not> head_shape_taken b \<Longrightarrow> apply_line ''bare'' b = Inr (b\<lparr>wr_bare := True\<rparr>)"
  by (simp_all add: apply_line_def)

lemma apply_line_flag:
  "\<not> wr_locked b \<Longrightarrow> apply_line (case r of None \<Rightarrow> ''locked'' | Some x \<Rightarrow> ''locked '' @ x) b =
     Inr (b\<lparr>wr_locked := True\<rparr>)"
  "\<not> wr_prunable b \<Longrightarrow> apply_line (case r of None \<Rightarrow> ''prunable'' | Some x \<Rightarrow> ''prunable '' @ x) b =
     Inr (b\<lparr>wr_prunable := True\<rparr>)"
  using split_once_label[of "''locked''" "the r"] split_once_label[of "''prunable''" "the r"]
  by (cases r; simp add: apply_line_def)+

text \<open>One line of a record that is open.\<close>

lemma parse_lines_attribute:
  assumes "apply_line line b = Inr b'" "line \<noteq> []" "strip_prefix ''worktree '' line = None"
  shows "parse_lines (line # ls) (Some b) records = parse_lines ls (Some b') records"
  using assms by simp

lemma parse_flag_lines:
  assumes "wr_locked b = False" "wr_prunable b = False"
  shows "parse_lines (flag_line ''locked'' lr l @ flag_line ''prunable'' pr p @ ls) (Some b) records =
    parse_lines ls (Some (b\<lparr>wr_locked := l, wr_prunable := p\<rparr>)) records"
proof -
  have locked: "parse_lines (flag_line ''locked'' lr l @ ms) (Some b) records =
      parse_lines ms (Some (b\<lparr>wr_locked := l\<rparr>)) records" for ms
  proof (cases l)
    case True
    let ?line = "case lr of None \<Rightarrow> ''locked'' | Some x \<Rightarrow> ''locked '' @ x"
    have "parse_lines (?line # ms) (Some b) records = parse_lines ms (Some (b\<lparr>wr_locked := True\<rparr>)) records"
      by (rule parse_lines_attribute, rule apply_line_flag) (auto simp: assms split: option.splits)
    with True show ?thesis by (simp add: flag_line_def split: option.splits)
  next
    case False
    then have "b\<lparr>wr_locked := l\<rparr> = b" using assms by (cases b) simp
    with False show ?thesis by (simp add: flag_line_def)
  qed
  have prunable: "parse_lines (flag_line ''prunable'' pr p @ ls) (Some c) records =
      parse_lines ls (Some (c\<lparr>wr_prunable := p\<rparr>)) records" if c: "\<not> wr_prunable c" for c
  proof (cases p)
    case True
    let ?line = "case pr of None \<Rightarrow> ''prunable'' | Some x \<Rightarrow> ''prunable '' @ x"
    have "parse_lines (?line # ls) (Some c) records = parse_lines ls (Some (c\<lparr>wr_prunable := True\<rparr>)) records"
      by (rule parse_lines_attribute, rule apply_line_flag) (auto simp: c split: option.splits)
    with True show ?thesis by (simp add: flag_line_def split: option.splits)
  next
    case False
    then have "c\<lparr>wr_prunable := p\<rparr> = c" using c by (cases c) simp
    with False show ?thesis by (simp add: flag_line_def)
  qed
  show ?thesis using locked prunable assms by simp
qed

lemma parse_record_lines:
  assumes "wf_record r"
  shows "parse_lines (record_lines (r, lr, pr) @ ls) None records = parse_lines ls None (records @ [r])"
proof -
  let ?n = "record_builder_new (wr_path r)"
  let ?flags = "flag_line ''locked'' lr (wr_locked r) @ flag_line ''prunable'' pr (wr_prunable r) @ ([] # ls)"
  from assms have p: "wr_path r \<noteq> []" by (simp add: wf_record_def)
  have new: "\<not> head_shape_taken ?n" "wr_head_hex ?n = None" "\<not> wr_locked ?n" "\<not> wr_prunable ?n"
    by (simp_all add: record_builder_new_def head_shape_taken_def)
  have opened: "parse_lines ((''worktree '' @ wr_path r) # ms) None records = parse_lines ms (Some ?n) records" for ms
    using p by simp
  have closed: "parse_lines ?flags (Some b) records = parse_lines ls None (records @ [r])"
    if "b\<lparr>wr_locked := wr_locked r, wr_prunable := wr_prunable r\<rparr> = r" "\<not> wr_locked b" "\<not> wr_prunable b" for b
    using that wf_record_finish[OF assms] parse_flag_lines[of b lr "wr_locked r" pr "wr_prunable r" "[] # ls" records]
    by (simp add: close_record_def)
  show ?thesis
  proof (cases "wr_bare r")
    case True
    have "parse_lines (''bare'' # ?flags) (Some ?n) records = parse_lines ?flags (Some (?n\<lparr>wr_bare := True\<rparr>)) records"
      by (rule parse_lines_attribute, rule apply_line_shape) (use new in auto)
    also have "\<dots> = parse_lines ls None (records @ [r])"
      using assms True by (intro closed) (cases r; auto simp: record_builder_new_def wf_record_def)+
    finally show ?thesis using True opened by (simp add: record_lines_def)
  next
    case False
    with assms obtain h where h: "wr_head_hex r = Some h" by (auto simp: wf_record_def)
    let ?h = "?n\<lparr>wr_head_hex := Some h\<rparr>"
    have head: "parse_lines ((''HEAD '' @ h) # ms) (Some ?n) records = parse_lines ms (Some ?h) records" for ms
      by (rule parse_lines_attribute, rule apply_line_value) (use new in auto)
    have free: "\<not> head_shape_taken ?h" using new by (simp add: head_shape_taken_def)
    show ?thesis
    proof (cases "wr_branch_ref r")
      case None
      have "parse_lines (''detached'' # ?flags) (Some ?h) records =
          parse_lines ?flags (Some (?h\<lparr>wr_detached := True\<rparr>)) records"
        by (rule parse_lines_attribute, rule apply_line_shape) (use free in auto)
      also have "\<dots> = parse_lines ls None (records @ [r])"
        using assms False None h by (intro closed) (cases r; auto simp: record_builder_new_def wf_record_def)+
      finally show ?thesis using False None h opened head by (simp add: record_lines_def)
    next
      case (Some v)
      have "parse_lines ((''branch '' @ v) # ?flags) (Some ?h) records =
          parse_lines ?flags (Some (?h\<lparr>wr_branch_ref := Some v\<rparr>)) records"
        by (rule parse_lines_attribute, rule apply_line_value) (use free in auto)
      also have "\<dots> = parse_lines ls None (records @ [r])"
        using assms False Some h by (intro closed) (cases r; auto simp: record_builder_new_def wf_record_def)+
      finally show ?thesis using False Some h opened head by (simp add: record_lines_def)
    qed
  qed
qed

lemma parse_printed_records:
  assumes "\<forall>p \<in> set ps. wf_record (fst p)"
  shows "parse_lines (concat (map record_lines ps) @ [[]]) None records = Inr (records @ map fst ps)"
  using assms
proof (induction ps arbitrary: records)
  case Nil
  then show ?case by (simp add: close_record_def)
next
  case (Cons p ps)
  obtain r lr pr where p: "p = (r, lr, pr)" by (cases p)
  from Cons.prems p have "wf_record r" by simp
  from parse_record_lines[OF this, of lr pr "concat (map record_lines ps) @ [[]]" records]
  show ?case using Cons p by simp
qed

lemma record_lines_one_line: "one_line p \<Longrightarrow> l \<in> set (record_lines p) \<Longrightarrow> wf_record (fst p) \<Longrightarrow> newline_char \<notin> set l"
  by (cases p) (auto simp: record_lines_def one_line_def flag_line_def wf_record_def
      split: if_splits option.splits)

text \<open>
  The parser reads back exactly the records git prints, whatever mixture of bare, detached,
  locked and prunable worktrees and whatever reasons the flags carry, as long as no value contains
  a newline.
\<close>

theorem worktree_list_roundtrip:
  assumes "\<forall>p \<in> set ps. wf_record (fst p) \<and> one_line p"
  shows "parse_worktree_porcelain (print_worktree_list ps) = Inr (map fst ps)"
proof -
  have "\<forall>l \<in> set (concat (map record_lines ps)). newline_char \<notin> set l"
    using assms record_lines_one_line by fastforce
  then show ?thesis
    using assms parse_printed_records[of ps "[]"]
    by (simp add: parse_worktree_porcelain_def print_worktree_list_def split_on_terminated)
qed

definition sample_records :: "(worktree_list_record \<times> string option \<times> string option) list" where
  "sample_records =
     [(\<lparr>wr_path = ''/r.git'', wr_head_hex = None, wr_branch_ref = None, wr_detached = False,
        wr_bare = True, wr_locked = False, wr_prunable = False\<rparr>, None, None),
      (\<lparr>wr_path = ''/a b'', wr_head_hex = Some ''0a'', wr_branch_ref = Some ''refs/heads/x'', wr_detached = False,
        wr_bare = False, wr_locked = True, wr_prunable = False\<rparr>, Some ''on a disk'', None),
      (\<lparr>wr_path = ''/c'', wr_head_hex = Some ''0b'', wr_branch_ref = None, wr_detached = True,
        wr_bare = False, wr_locked = False, wr_prunable = True\<rparr>, None, None)]"

lemma worktree_list_roundtrip_witness:
  "parse_worktree_porcelain (print_worktree_list sample_records) = Inr (map fst sample_records)"
  by (rule worktree_list_roundtrip) (simp add: sample_records_def wf_record_def one_line_def)

lemma worktree_list_complete_witness:
  "List.map_filter (strip_prefix ''worktree '')
     (split_on newline_char (''worktree /r'' @ nl @ ''HEAD 0a'' @ nl @ ''branch refs/heads/x'' @ nl)) = [''/r'']"
proof -
  let ?t = "''worktree /r'' @ nl @ ''HEAD 0a'' @ nl @ ''branch refs/heads/x'' @ nl"
  have e: "parse_worktree_porcelain ?t = Inr [\<lparr>wr_path = ''/r'', wr_head_hex = Some ''0a'',
      wr_branch_ref = Some ''refs/heads/x'', wr_detached = False, wr_bare = False,
      wr_locked = False, wr_prunable = False\<rparr>]"
    by (simp add: parse_worktree_porcelain_def apply_line_def record_builder_new_def head_shape_taken_def
        close_record_def finish_record_def)
  from worktree_list_complete[OF e] show ?thesis by simp
qed

subsection \<open>Holders\<close>

lemma permits_checkout_iff:
  "permits_checkout (branch_holder census branch) \<longleftrightarrow>
     (\<exists>siblings. census = Observed siblings \<and>
        (\<forall>s \<in> set siblings. ws_branch s = Some branch \<longrightarrow> ws_is_current s))"
  by (auto simp: branch_holder_def find_None_iff find_Some_iff split: worktree_census.splits option.splits)

lemma refusal_iff: "refusal s = None \<longleftrightarrow> is_openable s"
  by (cases s) auto
end
