(* ===== verification/Paths.thy ===== *)
theory Paths imports Plan_Export begin

text \<open>
  The parts of Rust's \<open>str\<close> and \<open>std::path::Path\<close> that the server's reads use: \<open>trim\<close>, and a Unix
  path as the list of its components, which is how \<open>Path\<close> compares and names files. The texts of
  \<open>PlanFieldError\<close> (\<open>crates/git-vista-protocol/src/newtype.rs\<close>) are here too, as the error
  messages of those reads quote them.
\<close>

subsection \<open>Trimming\<close>

function trim_start :: "string \<Rightarrow> string" where
  "trim_start s = (if s = [] \<or> ws_len s = 0 then s else trim_start (drop (ws_len s) s))"
  by pat_completeness auto
termination by (relation "measure length") auto

declare trim_start.simps [simp del]

definition ws_end_len :: "string \<Rightarrow> nat" where
  "ws_end_len s =
     (case find (\<lambda>p. strip_suffix p s \<noteq> None) white_space of Some p \<Rightarrow> length p | None \<Rightarrow> 0)"

function trim_end :: "string \<Rightarrow> string" where
  "trim_end s =
     (if s = [] \<or> ws_end_len s = 0 then s else trim_end (take (length s - ws_end_len s) s))"
  by pat_completeness auto
termination by (relation "measure length") auto

declare trim_end.simps [simp del]

definition trim :: "string \<Rightarrow> string" where
  "trim s = trim_end (trim_start s)"

lemma trim_start_Nil [simp]: "trim_start [] = []"
  by (subst trim_start.simps) simp

lemma trim_end_Nil [simp]: "trim_end [] = []"
  by (subst trim_end.simps) simp

lemma trim_Nil [simp]: "trim [] = []"
  by (simp add: trim_def)

lemma trim_start_fixed: "ws_len s = 0 \<Longrightarrow> trim_start s = s"
  by (subst trim_start.simps) simp

lemma trim_end_fixed: "ws_end_len s = 0 \<Longrightarrow> trim_end s = s"
  by (subst trim_end.simps) simp

lemma trim_fixed: "ws_len s = 0 \<Longrightarrow> ws_end_len s = 0 \<Longrightarrow> trim s = s"
  by (simp add: trim_def trim_start_fixed trim_end_fixed)

subsection \<open>Paths\<close>

definition is_absolute_path :: "string \<Rightarrow> bool" where
  "is_absolute_path p \<longleftrightarrow> starts_with ''/'' p"

text \<open>
  \<open>Path::components\<close>: repeated separators and inner \<open>.\<close> components vanish; a leading \<open>.\<close> stays,
  and the root is the component \<open>/\<close>, which no file name can be.
\<close>

definition path_components :: "string \<Rightarrow> string list" where
  "path_components p =
     (let parts = filter (\<lambda>c. c \<noteq> [] \<and> c \<noteq> ''.'') (split_on (CHR ''/'') p) in
      if is_absolute_path p then ''/'' # parts
      else if p = ''.'' \<or> starts_with ''./'' p then ''.'' # parts
      else parts)"

definition path_eq :: "string \<Rightarrow> string \<Rightarrow> bool" where
  "path_eq p q \<longleftrightarrow> path_components p = path_components q"

definition path_file_name :: "string \<Rightarrow> string option" where
  "path_file_name p =
     (case rev (path_components p) of
        [] \<Rightarrow> None
      | c # cs \<Rightarrow> if c = ''/'' \<or> c = ''.'' \<or> c = ''..'' then None else Some c)"

definition path_join :: "string \<Rightarrow> string \<Rightarrow> string" where
  "path_join base p =
     (if is_absolute_path p \<or> base = [] then p
      else if last base = CHR ''/'' then base @ p
      else base @ ''/'' @ p)"

lemma path_file_name_component:
  "path_file_name p = Some c \<Longrightarrow> c \<in> set (split_on (CHR ''/'') p) \<and> c \<noteq> []"
proof -
  assume a: "path_file_name p = Some c"
  then have n: "c \<noteq> ''/''" "c \<noteq> ''.''" "c \<in> set (rev (path_components p))"
    by (auto simp: path_file_name_def split: list.splits if_splits)
  then show ?thesis by (auto simp: path_components_def Let_def split: if_splits)
qed

lemma split_on_no_sep: "x \<in> set (split_on c s) \<Longrightarrow> c \<notin> set x"
proof (induction s arbitrary: x)
  case (Cons a s)
  then show ?case using split_on_nonempty[of c s] by (auto split: list.splits if_splits)
qed simp

lemma path_file_name_no_slash: "path_file_name p = Some c \<Longrightarrow> CHR ''/'' \<notin> set c"
  using path_file_name_component split_on_no_sep by blast

subsection \<open>The text of a refused field\<close>

fun plan_field_error_text :: "plan_field_error \<Rightarrow> string" where
  "plan_field_error_text (Empty_field field) =
      field @ '' can't be empty''"
| "plan_field_error_text (OptionShaped field) =
      field @ '' can't start with '-'' @ [CHR 0x27]"
| "plan_field_error_text (NotHex field expected) =
      field @ '' must be '' @ expected @ '' lowercase hex characters''"
| "plan_field_error_text (TooLong field max_len) =
      field @ '' can't be longer than '' @ decimal (int max_len) @ '' characters''"
| "plan_field_error_text (NotToken field) =
      field @ '' may only contain letters, digits, '-' and '_'' @ [CHR 0x27]"
| "plan_field_error_text (NotStashSelector field) =
      field @
      '' must be a stash entry selector of the form                      'stash@'' @ ''{N}' '' @
      ''where N is a number''"
| "plan_field_error_text (NotWorktreeRelative field) =
      field @ '' must be relative to the worktree root '' @ em_dash @
      '' no leading '/' and no '..' component''"
| "plan_field_error_text (NotWorktreeName field) =
      field @ '' must be a simple folder name '' @ em_dash @
      '' letters, digits, dot, dash or underscore, no slashes and no '' @ lq @ ''..'' @ rq"
| "plan_field_error_text (NotRemoteName field) =
      field @
      '' must be the name of a remote configured in this repository (letters, digits, '' @
      '''.', '-' and '_'), not a URL or a path''"

end
