(* ===== verification/Census.thy ===== *)
theory Census imports Worktrees Paths begin

text \<open>
  \<open>crates/git-vista-server/src/worktree_census.rs\<close>: how the server turns the output of git into a
  census. Everything the census reads from the machine is a field of \<open>census_env\<close>: the identity of
  a directory (\<open>read_repo_facts\<close>), the capped output of \<open>git worktree list --porcelain\<close>, the
  output of \<open>git rev-parse --git-common-dir\<close>, the admin directories below the common directory with
  their \<open>gitdir\<close> files, canonicalisation, the hash behind \<open>WorktreeId\<close> and the allowed roots. Each
  is a function, so the directory is read once or many times with the same answer and the cache of
  \<open>get_common_dir\<close> has nothing to change. Ids are the texts \<open>Display\<close> gives.
\<close>

record repo_facts =
  rf_root :: string
  rf_worktree :: string
  rf_repository :: string

record census_env =
  ce_repo :: string
  ce_facts :: "string \<Rightarrow> string + repo_facts"
  ce_list :: "nat \<Rightarrow> string + string \<times> bool"
  ce_common_dir :: "string + bool \<times> string \<times> string"
  ce_canonical :: "string \<Rightarrow> string option"
  ce_admin_entries :: "string \<Rightarrow> (string \<times> string option) list option"
  ce_worktree_id :: "string \<Rightarrow> string"
  ce_allowed :: "string \<Rightarrow> bool"

definition worktree_list_stdout_cap :: nat where
  "worktree_list_stdout_cap = 8 * 1024 * 1024"

record census_paths =
  cp_rows :: bool
  cp_failure_detail :: bool

definition census_paths_from_flag :: "bool \<Rightarrow> census_paths" where
  "census_paths_from_flag expose_paths = \<lparr>cp_rows = expose_paths, cp_failure_detail = expose_paths\<rparr>"

definition rows_for_local_use :: "bool \<Rightarrow> census_paths" where
  "rows_for_local_use expose_paths = \<lparr>cp_rows = True, cp_failure_detail = expose_paths\<rparr>"

subsection \<open>Failures\<close>

record census_failure =
  cf_reason :: string
  cf_detail :: "string option"

definition failure_safe :: "string \<Rightarrow> census_failure" where
  "failure_safe reason = \<lparr>cf_reason = reason, cf_detail = None\<rparr>"

definition failure_detailed :: "string \<Rightarrow> string \<Rightarrow> census_failure" where
  "failure_detailed reason detail = \<lparr>cf_reason = reason, cf_detail = Some detail\<rparr>"

definition into_census :: "census_paths \<Rightarrow> census_failure \<Rightarrow> worktree_census" where
  "into_census paths f =
     CensusFailed (cf_reason f) (if cp_failure_detail paths then cf_detail f else None)"

subsection \<open>Names and directories\<close>

definition is_null_oid :: "string \<Rightarrow> bool" where
  "is_null_oid hex \<longleftrightarrow> (length hex = 40 \<or> length hex = 64) \<and> list_all (\<lambda>b. b = CHR ''0'') hex"

definition display_name :: "string \<Rightarrow> string" where
  "display_name path = (case path_file_name path of Some n \<Rightarrow> n | None \<Rightarrow> path)"

definition safe_label :: "string \<Rightarrow> string" where
  "safe_label path = (case path_file_name path of Some n \<Rightarrow> n | None \<Rightarrow> ''an unnamed '' @
                                                                                              ''worktree'')"

definition canonicalize_lossy :: "census_env \<Rightarrow> string \<Rightarrow> string" where
  "canonicalize_lossy env path =
     (case ce_canonical env path of Some p \<Rightarrow> p | None \<Rightarrow> path)"

definition common_dir :: "census_env \<Rightarrow> census_failure + string" where
  "common_dir env =
     (case ce_common_dir env of
        Inl e \<Rightarrow> Inl (failure_detailed (''couldn't run `git rev-parse '' @
                                                   ''--git-common-dir`'')
                  (''couldn't run `git rev-parse --git-common-dir`: '' @ e))
      | Inr (success, stdout, stderr) \<Rightarrow>
          if \<not> success then
            Inl (failure_detailed (''`git rev-parse --git-common-dir` failed'')
              (''`git rev-parse --git-common-dir` failed: '' @ trim (utf8_lossy stderr)))
          else
            (let raw = trim (utf8_lossy stdout) in
             if raw = [] then Inl (failure_safe (''`git rev-parse --git-common-dir` '' @
                                                 ''printed nothing''))
             else Inr (let joined = path_join (ce_repo env) raw in
                       case ce_canonical env joined of Some d \<Rightarrow> d | None \<Rightarrow> joined)))"

text \<open>The loop over the admin directories, with the one found so far; \<open>None\<close> is a second match.\<close>

fun correlate_entries ::
  "string \<Rightarrow> (string \<times> string option) list \<Rightarrow> string option \<Rightarrow> string option" where
  "correlate_entries sibling_path [] found = found"
| "correlate_entries sibling_path ((admin_dir, recorded) # es) found =
     (case recorded of
        None \<Rightarrow> correlate_entries sibling_path es found
      | Some r \<Rightarrow>
          (case strip_suffix ''/.git'' (trim r) of
             None \<Rightarrow> correlate_entries sibling_path es found
           | Some w \<Rightarrow>
               if path_eq w sibling_path then
                 (if found \<noteq> None then None
                  else correlate_entries sibling_path es (Some admin_dir))
               else correlate_entries sibling_path es found))"

definition correlate_missing_admin_dir :: "census_env \<Rightarrow> string \<Rightarrow> string \<Rightarrow> string option" where
  "correlate_missing_admin_dir env dir sibling_path =
     (case ce_admin_entries env (path_join dir ''worktrees'') of
        None \<Rightarrow> None
      | Some entries \<Rightarrow> correlate_entries sibling_path entries None)"

subsection \<open>One row\<close>

text \<open>The identity of a row: its worktree id, its repository id and the root the fence is asked about.\<close>

definition resolve_identity ::
  "census_env \<Rightarrow> worktree_list_record \<Rightarrow> repo_facts \<Rightarrow>
     census_failure + string \<times> string \<times> string option" where
  "resolve_identity env raw current =
     (let label = safe_label (wr_path raw) in
      if wr_prunable raw then
        (case ce_facts env (wr_path raw) of
           Inr facts \<Rightarrow> Inr (rf_worktree facts, rf_repository facts, Some (rf_root facts))
         | Inl e \<Rightarrow>
             (case common_dir env of
                Inl f \<Rightarrow> Inl f
              | Inr dir \<Rightarrow>
                  (case correlate_missing_admin_dir env dir (wr_path raw) of
                     None \<Rightarrow> Inl (failure_detailed
                       (lq @ label @ rq @
                        '' is reported prunable but no admin worktree entry names it '' @
                        em_dash @ '' can't derive a stable identity for it'')
                       (''`'' @ wr_path raw @
                        ''` is reported prunable but no admin worktree entry under `'' @ dir @
                        ''` names it '' @ em_dash @ '' can't derive a stable identity for it''))
                   | Some admin_dir \<Rightarrow>
                       Inr (ce_worktree_id env (canonicalize_lossy env admin_dir),
                            rf_repository current, None))))
      else
        (case ce_facts env (wr_path raw) of
           Inr facts \<Rightarrow> Inr (rf_worktree facts, rf_repository facts, Some (rf_root facts))
         | Inl e \<Rightarrow> Inl (failure_detailed
             (''`git worktree list` reports '' @ lq @ label @ rq @
              '' as live, but it couldn't be read'')
             (''`git worktree list` reports `'' @ wr_path raw @
              ''` as live, but it couldn't be read: '' @ e))))"

definition resolve_serviceable :: "census_env \<Rightarrow> string option \<Rightarrow> serviceable" where
  "resolve_serviceable env root_for_fence =
     (case root_for_fence of
        None \<Rightarrow> Serviceable_Missing
      | Some root \<Rightarrow> if ce_allowed env root then Serviceable_Yes else OutsideAllowedRoots)"

definition resolve_branch :: "worktree_list_record \<Rightarrow> census_failure + branch_name option" where
  "resolve_branch raw =
     (let label = safe_label (wr_path raw) in
      case wr_branch_ref raw of
        None \<Rightarrow> Inr None
      | Some r \<Rightarrow>
          if wr_detached raw \<or> wr_bare raw then
            Inl (failure_detailed
              (lq @ label @ rq @ '' names both a branch and detached/bare'')
              (''`'' @ wr_path raw @ ''` names both a branch and detached/bare''))
          else
            (case strip_prefix ''refs/heads/'' r of
               None \<Rightarrow> Inl (failure_detailed
                 (lq @ label @ rq @ [CHR 0x27] @ ''s `branch` line names `'' @ r @
                  ''`, not a `refs/heads/` ref'')
                 (''`'' @ wr_path raw @ ''`'s `branch` line names `'' @ r @
                  ''`, not a `refs/heads/` ref''))
             | Some nm \<Rightarrow>
                 (case branch_name_new nm of
                    Inl e \<Rightarrow> Inl (failure_detailed
                      (lq @ label @ rq @ [CHR 0x27] @ ''s checked-out branch `'' @ nm @
                       ''` doesn't fit this app's branch-name contract: '' @
                       plan_field_error_text e)
                      (''`'' @ wr_path raw @ ''`'s checked-out branch `'' @ nm @
                       ''` doesn't fit this app's branch-name contract: '' @
                       plan_field_error_text e))
                  | Inr name \<Rightarrow> Inr (Some name))))"

definition resolve_head :: "worktree_list_record \<Rightarrow> census_failure + commit_oid option" where
  "resolve_head raw =
     (let label = safe_label (wr_path raw) in
      case wr_head_hex raw of
        None \<Rightarrow> Inr None
      | Some hex \<Rightarrow>
          if is_null_oid hex then Inr None
          else
            (case commit_oid_new hex of
               Inl e \<Rightarrow> Inl (failure_detailed
                 (lq @ label @ rq @ [CHR 0x27] @ ''s `HEAD` line (`'' @ hex @
                  ''`) isn't a commit id this app accepts: '' @ plan_field_error_text e)
                 (''`'' @ wr_path raw @ ''`'s `HEAD` line (`'' @ hex @
                  ''`) isn't a commit id this app accepts: '' @ plan_field_error_text e))
             | Inr oid \<Rightarrow> Inr (Some oid)))"

definition resolve_sibling ::
  "census_env \<Rightarrow> worktree_list_record \<Rightarrow> repo_facts \<Rightarrow> bool \<Rightarrow> census_failure + worktree_sibling" where
  "resolve_sibling env raw current row_paths =
     (case resolve_identity env raw current of
        Inl f \<Rightarrow> Inl f
      | Inr (worktree_id, repository_id, root_for_fence) \<Rightarrow>
          (case resolve_branch raw of
             Inl f \<Rightarrow> Inl f
           | Inr branch \<Rightarrow>
               (case resolve_head raw of
                  Inl f \<Rightarrow> Inl f
                | Inr head \<Rightarrow>
                    Inr \<lparr>ws_repository = repository_id,
                         ws_id = worktree_id,
                         ws_name = (case root_for_fence of
                                      Some root \<Rightarrow> display_name root
                                    | None \<Rightarrow> display_name (wr_path raw)),
                         ws_path = (if row_paths then Some (wr_path raw) else None),
                         ws_branch = branch,
                         ws_head = head,
                         ws_is_current = (worktree_id = rf_worktree current),
                         ws_locked = wr_locked raw,
                         ws_prunable = wr_prunable raw,
                         ws_bare = wr_bare raw,
                         ws_serviceable = resolve_serviceable env root_for_fence\<rparr>)))"

subsection \<open>The whole census\<close>

fun resolve_all ::
  "census_env \<Rightarrow> repo_facts \<Rightarrow> bool \<Rightarrow> worktree_list_record list \<Rightarrow>
     census_failure + worktree_sibling list" where
  "resolve_all env current row_paths [] = Inr []"
| "resolve_all env current row_paths (raw # raws) =
     (case resolve_sibling env raw current row_paths of
        Inl f \<Rightarrow> Inl f
      | Inr s \<Rightarrow>
          (case resolve_all env current row_paths raws of
             Inl f \<Rightarrow> Inl f
           | Inr ss \<Rightarrow> Inr (s # ss)))"

definition census_or_failure ::
  "census_env \<Rightarrow> census_paths \<Rightarrow> nat \<Rightarrow> census_failure + worktree_sibling list" where
  "census_or_failure env paths stdout_cap =
     (case ce_facts env (ce_repo env) of
        Inl e \<Rightarrow> Inl (failure_detailed (''couldn't read this repository's '' @
                                                   ''own identity'')
                  (''couldn't read this repository's own identity: '' @ e))
      | Inr current \<Rightarrow>
          (case ce_list env stdout_cap of
             Inl message \<Rightarrow> Inl (failure_detailed (''`git worktree list '' @
                                                              ''--porcelain` failed'')
                               (''`git worktree list --porcelain` failed: '' @ message))
           | Inr (stdout, truncated) \<Rightarrow>
               if truncated then
                 Inl (failure_safe (''`git worktree list --porcelain` printed more than '' @
                                    decimal (int stdout_cap) @
                                    '' bytes; a truncated stream is refused, never parsed''))
               else if \<not> valid_utf8 stdout then
                 Inl (failure_safe (''`git worktree list --porcelain` did not print '' @
                                    ''valid UTF-8''))
               else
                 (case parse_worktree_porcelain stdout of
                    Inl reason \<Rightarrow> Inl (failure_detailed
                      (''`git worktree list --porcelain` printed something this app '' @
                       ''could not parse'')
                      (''couldn't parse `git worktree list --porcelain`: '' @ reason))
                  | Inr raw_records \<Rightarrow>
                      if raw_records = [] then
                        Inl (failure_safe (''`git worktree list --porcelain` reported '' @
                                           ''no worktrees at all '' @ em_dash @
                                           '' every repository has at least its own''))
                      else
                        (case resolve_all env current (cp_rows paths) raw_records of
                           Inl f \<Rightarrow> Inl f
                         | Inr siblings \<Rightarrow>
                             (let current_count = length (filter ws_is_current siblings) in
                              if current_count \<noteq> 1 then
                                Inl (failure_detailed
                                  (''the census resolved '' @ decimal (int current_count) @
                                   '' entries as the currently served worktree; exactly '' @
                                   ''one is required'')
                                  (''the census resolved '' @ decimal (int current_count) @
                                   '' entries as the currently served worktree; exactly '' @
                                   ''one is required (repository root: '' @ rf_root current @
                                   '')''))
                              else Inr siblings)))))"

definition worktree_census_capped :: "census_env \<Rightarrow> census_paths \<Rightarrow> nat \<Rightarrow> worktree_census" where
  "worktree_census_capped env paths stdout_cap =
     (case census_or_failure env paths stdout_cap of
        Inr siblings \<Rightarrow> Observed siblings
      | Inl failure \<Rightarrow> into_census paths failure)"

definition worktree_census_of :: "census_env \<Rightarrow> census_paths \<Rightarrow> worktree_census" where
  "worktree_census_of env paths = worktree_census_capped env paths worktree_list_stdout_cap"

subsection \<open>Every record of git's list is a row\<close>

lemma resolve_sibling_Inr:
  assumes "resolve_sibling env raw current row_paths = Inr s"
  shows "resolve_branch raw = Inr (ws_branch s)" "resolve_head raw = Inr (ws_head s)"
    "ws_path s = (if row_paths then Some (wr_path raw) else None)"
    "ws_locked s = wr_locked raw" "ws_prunable s = wr_prunable raw" "ws_bare s = wr_bare raw"
    "ws_is_current s \<longleftrightarrow> ws_id s = rf_worktree current"
  using assms by (auto simp: resolve_sibling_def split: sum.splits prod.splits)

lemma resolve_all_rows:
  "resolve_all env current row_paths raws = Inr ss \<Longrightarrow>
     list_all2 (\<lambda>raw s. resolve_sibling env raw current row_paths = Inr s) raws ss"
  by (induction raws arbitrary: ss) (auto split: sum.splits)

lemma resolve_branch_Some:
  "resolve_branch raw = Inr (Some b) \<longleftrightarrow>
     wr_branch_ref raw = Some (''refs/heads/'' @ b) \<and> \<not> wr_detached raw \<and> \<not> wr_bare raw \<and>
     branch_name_new b = Inr b"
proof
  assume a: "resolve_branch raw = Inr (Some b)"
  then obtain r nm where r: "wr_branch_ref raw = Some r" "\<not> wr_detached raw" "\<not> wr_bare raw"
    "strip_prefix ''refs/heads/'' r = Some nm" "branch_name_new nm = Inr b"
    by (auto simp: resolve_branch_def Let_def split: option.splits sum.splits if_splits)
  from r(5) have "nm = b" by (auto simp: branch_name_new_def validated_def split: sum.splits)
  with r show "wr_branch_ref raw = Some (''refs/heads/'' @ b) \<and> \<not> wr_detached raw \<and> \<not> wr_bare raw \<and>
     branch_name_new b = Inr b"
    by (simp only: strip_prefix_Some) simp
next
  assume a: "wr_branch_ref raw = Some (''refs/heads/'' @ b) \<and> \<not> wr_detached raw \<and> \<not> wr_bare raw \<and>
     branch_name_new b = Inr b"
  have "strip_prefix ''refs/heads/'' (''refs/heads/'' @ b) = Some b" by (rule strip_prefix_append)
  with a show "resolve_branch raw = Inr (Some b)"
    by (simp add: resolve_branch_def Let_def del: append.simps)
qed

lemma resolve_branch_None:
  "resolve_branch raw = Inr None \<longleftrightarrow> wr_branch_ref raw = None"
  by (auto simp: resolve_branch_def Let_def split: option.splits sum.splits)

lemma census_Observed:
  assumes "worktree_census_capped env paths cap = Observed siblings"
  obtains stdout raws current where "ce_facts env (ce_repo env) = Inr current"
    "ce_list env cap = Inr (stdout, False)" "valid_utf8 stdout"
    "parse_worktree_porcelain stdout = Inr raws" "raws \<noteq> []"
    "resolve_all env current (cp_rows paths) raws = Inr siblings"
    "length (filter ws_is_current siblings) = 1"
  using assms
  by (auto simp: worktree_census_capped_def into_census_def census_or_failure_def Let_def
      split: sum.splits prod.splits if_splits)

lemma list_all2_filter_length:
  "list_all2 R xs ys \<Longrightarrow> (\<And>x y. R x y \<Longrightarrow> P x \<Longrightarrow> Q y) \<Longrightarrow>
     length (filter P xs) \<le> length (filter Q ys)"
  by (induction rule: list_all2_induct) (auto simp: le_SucI)

lemma filter_map_filter_length:
  assumes "\<And>x. P x \<longleftrightarrow> f x = Some y"
  shows "length (filter P xs) = length (filter (\<lambda>z. z = y) (List.map_filter f xs))"
proof -
  have P: "P = (\<lambda>x. f x = Some y)" by (rule ext) (rule assms)
  show ?thesis
    unfolding P by (induction xs) (auto simp: map_filter_Cons List.map_filter_def split: option.splits)
qed

lemma branch_line_count:
  assumes "parse_worktree_porcelain t = Inr rs"
  shows "length (filter (\<lambda>l. l = ''branch '' @ v) (split_on newline_char t)) =
    length (filter (\<lambda>r. wr_branch_ref r = Some v) rs)"
proof -
  have c: "List.map_filter wr_branch_ref rs = List.map_filter branch_of_line (split_on newline_char t)"
    using parse_lines_accounts[OF assms[unfolded parse_worktree_porcelain_def]] by (simp add: List.map_filter_def)
  have "length (filter (\<lambda>l. l = ''branch '' @ v) (split_on newline_char t)) =
      length (filter (\<lambda>z. z = v) (List.map_filter branch_of_line (split_on newline_char t)))"
    by (rule filter_map_filter_length) (simp only: branch_of_line_def strip_prefix_Some)
  also have "\<dots> = length (filter (\<lambda>z. z = v) (List.map_filter wr_branch_ref rs))" by (simp only: c)
  also have "\<dots> = length (filter (\<lambda>r. wr_branch_ref r = Some v) rs)"
    by (rule filter_map_filter_length[symmetric]) simp
  finally show ?thesis .
qed

lemma parse_worktree_shape:
  assumes "parse_worktree_porcelain t = Inr rs" "r \<in> set rs"
  shows "wf_record r"
  using parse_lines_accounts[OF assms(1)[unfolded parse_worktree_porcelain_def]] assms(2) by simp

lemma resolved_branch:
  assumes "resolve_sibling env raw current row_paths = Inr s" "wf_record raw"
    "wr_branch_ref raw = Some (''refs/heads/'' @ b)"
  shows "ws_branch s = Some b"
proof -
  have sp: "strip_prefix ''refs/heads/'' (''refs/heads/'' @ b) = Some b" by (rule strip_prefix_append)
  from assms(2,3) have "\<not> wr_bare raw" "\<not> wr_detached raw" by (auto simp: wf_record_def split: if_splits)
  with resolve_sibling_Inr(1)[OF assms(1)] assms(3) sp show ?thesis
    by (auto simp: resolve_branch_def Let_def branch_name_new_def validated_def
        simp del: append.simps split: sum.splits)
qed

text \<open>
  C10: a checkout of a branch is permitted only on evidence: git's listing was read whole and
  understood, it names the branch at most once, and a row that holds it is the worktree being
  served. A listing that failed, was cut off, is not UTF-8 or holds a line or a row that cannot be
  resolved permits nothing.
\<close>

theorem checkout_permitted_only_on_evidence:
  assumes "permits_checkout (branch_holder (worktree_census_of env paths) b)"
  shows "\<exists>current stdout siblings.
    ce_facts env (ce_repo env) = Inr current \<and>
    ce_list env worktree_list_stdout_cap = Inr (stdout, False) \<and> valid_utf8 stdout \<and>
    length (filter (\<lambda>l. l = ''branch refs/heads/'' @ b) (split_on newline_char stdout)) \<le> 1 \<and>
    worktree_census_of env paths = Observed siblings \<and>
    length siblings = length (List.map_filter (strip_prefix ''worktree '') (split_on newline_char stdout)) \<and>
    (\<forall>s \<in> set siblings. ws_branch s = Some b \<longrightarrow> ws_id s = rf_worktree current)"
proof -
  let ?cap = worktree_list_stdout_cap
  from assms obtain siblings where obs: "worktree_census_capped env paths ?cap = Observed siblings"
    and free: "\<forall>s \<in> set siblings. ws_branch s = Some b \<longrightarrow> ws_is_current s"
    by (auto simp: permits_checkout_iff worktree_census_of_def)
  from obs obtain stdout raws current where c: "ce_facts env (ce_repo env) = Inr current"
    "ce_list env ?cap = Inr (stdout, False)" "valid_utf8 stdout"
    "parse_worktree_porcelain stdout = Inr raws"
    "resolve_all env current (cp_rows paths) raws = Inr siblings"
    "length (filter ws_is_current siblings) = 1"
    by (rule census_Observed)
  note rows = resolve_all_rows[OF c(5)]
  have rows2: "list_all2 (\<lambda>raw s. resolve_sibling env raw current (cp_rows paths) = Inr s \<and>
      wf_record raw \<and> s \<in> set siblings) raws siblings"
    using rows parse_worktree_shape[OF c(4)] by (simp add: list_all2_conv_all_nth)
  have "length (filter (\<lambda>r. wr_branch_ref r = Some (''refs/heads/'' @ b)) raws)
      \<le> length (filter (\<lambda>s. ws_branch s = Some b \<and> ws_is_current s) siblings)"
    by (rule list_all2_filter_length[OF rows2]) (use resolved_branch free in blast)
  also have "\<dots> \<le> length (filter ws_is_current siblings)"
    by (induction siblings) auto
  finally have "length (filter (\<lambda>r. wr_branch_ref r = Some (''refs/heads/'' @ b)) raws) \<le> 1"
    using c(6) by simp
  then have once: "length (filter (\<lambda>l. l = ''branch refs/heads/'' @ b) (split_on newline_char stdout)) \<le> 1"
    using branch_line_count[OF c(4), of "''refs/heads/'' @ b"] by simp
  have "map wr_path raws = List.map_filter worktree_of_line (split_on newline_char stdout)"
    using parse_lines_accounts[OF c(4)[unfolded parse_worktree_porcelain_def]] by simp
  then have "length raws = length (List.map_filter worktree_of_line (split_on newline_char stdout))"
    by (metis length_map)
  moreover have "worktree_of_line = strip_prefix ''worktree ''"
    by (rule ext) (simp only: worktree_of_line_def)
  ultimately have len: "length siblings =
      length (List.map_filter (strip_prefix ''worktree '') (split_on newline_char stdout))"
    using list_all2_lengthD[OF rows] by simp
  have cur: "ws_id s = rf_worktree current" if s: "s \<in> set siblings" "ws_branch s = Some b" for s
  proof -
    from s(1) obtain i where i: "i < length siblings" "siblings ! i = s" by (auto simp: in_set_conv_nth)
    with rows have "resolve_sibling env (raws ! i) current (cp_rows paths) = Inr s"
      by (auto simp: list_all2_conv_all_nth)
    from resolve_sibling_Inr(7)[OF this] free s show ?thesis by auto
  qed
  from c(1-3) once obs len cur show ?thesis unfolding worktree_census_of_def by blast
qed

subsection \<open>What the path flag may change\<close>

lemma resolve_sibling_paths:
  "resolve_sibling env raw current False =
     map_sum id (\<lambda>s. s\<lparr>ws_path := None\<rparr>) (resolve_sibling env raw current True)"
  by (simp add: resolve_sibling_def split: sum.splits)

lemma resolve_all_paths:
  "resolve_all env current False raws =
     map_sum id (map (\<lambda>s. s\<lparr>ws_path := None\<rparr>)) (resolve_all env current True raws)"
  by (induction raws) (simp_all add: resolve_sibling_paths split: sum.splits)

lemma census_or_failure_paths:
  "census_or_failure env (census_paths_from_flag False) cap =
     map_sum id (map (\<lambda>s. s\<lparr>ws_path := None\<rparr>)) (census_or_failure env (census_paths_from_flag True) cap)"
proof (cases "ce_facts env (ce_repo env)")
  case (Inr current)
  note facts = Inr
  show ?thesis
  proof (cases "ce_list env cap")
    case (Inr out)
    obtain stdout truncated where out: "out = (stdout, truncated)" by (cases out)
    have count: "length (filter (\<lambda>s. ws_is_current s) (map (\<lambda>s. s\<lparr>ws_path := None\<rparr>) ss)) =
        length (filter ws_is_current ss)" for ss :: "worktree_sibling list"
      by (simp add: filter_map comp_def)
    show ?thesis
    proof (cases "truncated \<or> \<not> valid_utf8 stdout")
      case True
      then show ?thesis using facts Inr out by (cases truncated) (simp_all add: census_or_failure_def)
    next
      case False
      show ?thesis
      proof (cases "parse_worktree_porcelain stdout")
        case (Inl reason)
        with False facts \<open>ce_list env cap = Inr out\<close> out show ?thesis by (simp add: census_or_failure_def)
      next
        case (Inr raws)
        show ?thesis
        proof (cases "resolve_all env current True raws")
          case (Inl f)
          with Inr False facts \<open>ce_list env cap = Inr out\<close> out show ?thesis
            by (simp add: census_or_failure_def census_paths_from_flag_def resolve_all_paths)
        next
          case (Inr ss)
          with \<open>parse_worktree_porcelain stdout = Inr raws\<close> False facts \<open>ce_list env cap = Inr out\<close> out count[of ss]
          show ?thesis
            by (simp add: census_or_failure_def census_paths_from_flag_def resolve_all_paths Let_def)
        qed
      qed
    qed
  qed (simp add: census_or_failure_def facts)
qed (simp add: census_or_failure_def)

text \<open>
  The operator's path flag adds and never rewrites: without it the census is the same census
  with the path of every row and the detail of a failure left out. In particular the reason a client
  reads is the same in both.
\<close>

theorem path_flag_only_withholds:
  "worktree_census_of env (census_paths_from_flag False) =
     (case worktree_census_of env (census_paths_from_flag True) of
        Observed siblings \<Rightarrow> Observed (map (\<lambda>s. s\<lparr>ws_path := None\<rparr>) siblings)
      | CensusFailed reason detail \<Rightarrow> CensusFailed reason None)"
  unfolding worktree_census_of_def worktree_census_capped_def census_or_failure_paths
  by (simp add: into_census_def census_paths_from_flag_def split: sum.splits)

subsection \<open>A concrete census\<close>

definition sample_stdout :: string where
  "sample_stdout = ''worktree /r'' @ nl @ ''bare'' @ nl @ nl @
     ''worktree /w'' @ nl @ ''HEAD '' @ replicate 40 (CHR ''a'') @ nl @ ''branch refs/heads/x'' @ nl @ nl"

definition sample_env :: census_env where
  "sample_env = \<lparr>ce_repo = ''/w'',
     ce_facts = (\<lambda>p. if p = ''/w'' then Inr \<lparr>rf_root = ''/w'', rf_worktree = ''i'', rf_repository = ''r''\<rparr>
                     else if p = ''/r'' then Inr \<lparr>rf_root = ''/r'', rf_worktree = ''j'', rf_repository = ''r''\<rparr>
                     else Inl ''gone''),
     ce_list = (\<lambda>cap. Inr (sample_stdout, False)),
     ce_common_dir = Inr (True, ''/r'', []),
     ce_canonical = Some, ce_admin_entries = (\<lambda>d. Some []), ce_worktree_id = id,
     ce_allowed = (\<lambda>p. True)\<rparr>"

lemma sample_utf8: "valid_utf8 sample_stdout"
  by (rule ascii_valid_utf8) code_simp

lemma sample_parse: "parse_worktree_porcelain sample_stdout = Inr
     [\<lparr>wr_path = ''/r'', wr_head_hex = None, wr_branch_ref = None, wr_detached = False,
       wr_bare = True, wr_locked = False, wr_prunable = False\<rparr>,
      \<lparr>wr_path = ''/w'', wr_head_hex = Some (replicate 40 (CHR ''a'')), wr_branch_ref = Some ''refs/heads/x'',
       wr_detached = False, wr_bare = False, wr_locked = False, wr_prunable = False\<rparr>]"
  by code_simp

lemma sample_head: "commit_oid_new (replicate 40 (CHR ''a'')) = Inr (replicate 40 (CHR ''a''))"
  by code_simp

lemma sample_names: "display_name ''/r'' = ''r''" "display_name ''/w'' = ''w''" "branch_name_new ''x'' = Inr ''x''"
  "is_null_oid (replicate 40 (CHR ''a'')) = False"
  by code_simp+

lemma sample_census:
  "worktree_census_of sample_env (census_paths_from_flag False) = Observed
     [\<lparr>ws_repository = ''r'', ws_id = ''j'', ws_name = ''r'', ws_path = None, ws_branch = None, ws_head = None,
       ws_is_current = False, ws_locked = False, ws_prunable = False, ws_bare = True,
       ws_serviceable = Serviceable_Yes\<rparr>,
      \<lparr>ws_repository = ''r'', ws_id = ''i'', ws_name = ''w'', ws_path = None, ws_branch = Some ''x'',
       ws_head = Some (replicate 40 (CHR ''a'')),
       ws_is_current = True, ws_locked = False, ws_prunable = False, ws_bare = False,
       ws_serviceable = Serviceable_Yes\<rparr>]"
  using sample_utf8 sample_parse sample_head sample_names
  by (simp add: worktree_census_of_def worktree_census_capped_def census_or_failure_def resolve_sibling_def
      resolve_identity_def resolve_branch_def resolve_head_def resolve_serviceable_def census_paths_from_flag_def
      sample_env_def)

lemma checkout_permitted_only_on_evidence_witness:
  "permits_checkout (branch_holder (worktree_census_of sample_env (census_paths_from_flag False)) ''x'') \<and>
   length (filter (\<lambda>l. l = ''branch refs/heads/'' @ ''x'') (split_on newline_char sample_stdout)) \<le> 1"
proof -
  have p: "permits_checkout (branch_holder (worktree_census_of sample_env (census_paths_from_flag False)) ''x'')"
    by (simp add: sample_census branch_holder_def)
  have l: "ce_list sample_env worktree_list_stdout_cap = Inr (sample_stdout, False)" by (simp add: sample_env_def)
  from checkout_permitted_only_on_evidence[OF p] l show ?thesis using p by auto
qed
end
