(* ===== verification/Repo_View.thy ===== *)
theory Repo_View imports Reset_Branch Census Graph_Model begin

text \<open>
  What the planner (\<open>crates/git-vista-server/src/planner.rs\<close>) can learn about a repository, and the
  readings it takes before it builds or executes a plan. The repository is a \<open>repo_view\<close>: the
  outcome of each git command line, gitoxide's reading of HEAD and of the refs, the worktrees, the
  recorded seed and the clock. A view is one instant; code that reads twice is given two views.
\<close>

subsection \<open>The view\<close>

text \<open>
  One sandboxed git run: the sandbox could not be built, the process could not be started, or it
  exited (without a code when a signal ended it) with its two outputs.
\<close>

datatype git_run =
    No_Sandbox string
  | No_Spawn string
  | Exited "int option" string string

record repo_view =
  rv_run :: "argv \<Rightarrow> git_run"
  rv_head_branch :: "string option"
  rv_refs :: "(string option \<times> git_ref list) option"
  rv_census :: census_env
  rv_expose_paths :: bool
  rv_seed :: "(string + unit) option"
  rv_now :: int

subsection \<open>Observations\<close>

definition from_read :: "string + 'a option \<Rightarrow> 'a observation" where
  "from_read r = (case r of Inr (Some v) \<Rightarrow> Known v | Inr None \<Rightarrow> Absent | Inl e \<Rightarrow> Unknown)"

fun is_unknown :: "'a observation \<Rightarrow> bool" where
  "is_unknown (Known v) = False"
| "is_unknown Absent = False"
| "is_unknown Unknown = True"

fun same_observation :: "'a observation \<Rightarrow> 'a observation \<Rightarrow> bool" where
  "same_observation (Known a) (Known b) = (a = b)"
| "same_observation Absent Absent = True"
| "same_observation a b = False"

text \<open>The counter behind an unknown reading is an \<open>AtomicU64\<close>, handed through.\<close>

definition show_u64 :: "u64 \<Rightarrow> string" where
  "show_u64 n = decimal (uint n)"

fun digest_field :: "string observation \<Rightarrow> u64 \<Rightarrow> string \<times> u64" where
  "digest_field (Known v) nonce = (''known:'' @ v, nonce)"
| "digest_field Absent nonce = (''absent'', nonce)"
| "digest_field Unknown nonce = (''unknown:'' @ show_u64 nonce, nonce + 1)"

subsection \<open>Single reads\<close>

text \<open>What \<open>rev-parse --verify --quiet\<close> printed, when it succeeded.\<close>

definition verified_id :: "int option \<Rightarrow> string \<Rightarrow> string option" where
  "verified_id code stdout =
     (if code \<noteq> Some 0 then None
      else let id = trim (utf8_lossy stdout) in if id = [] then None else Some id)"

definition rev_parse :: "repo_view \<Rightarrow> string \<Rightarrow> string + string option" where
  "rev_parse v r =
     (case rv_run v [''rev-parse'', ''--verify'', ''--quiet'', r @ ''^{commit}''] of
        No_Sandbox e \<Rightarrow> Inl e
      | No_Spawn e \<Rightarrow> Inl (''couldn't run git rev-parse: '' @ e)
      | Exited code stdout stderr \<Rightarrow> Inr (verified_id code stdout))"

definition rev_parse_ref_unpeeled :: "repo_view \<Rightarrow> string \<Rightarrow> string + string option" where
  "rev_parse_ref_unpeeled v name =
     (case rv_run v [''rev-parse'', ''--verify'', ''--quiet'', name] of
        No_Sandbox e \<Rightarrow> Inl (''couldn't run git rev-parse: '' @ e)
      | No_Spawn e \<Rightarrow> Inl (''couldn't run git rev-parse: '' @ e)
      | Exited code stdout stderr \<Rightarrow> Inr (verified_id code stdout))"

definition worktree_status :: "repo_view \<Rightarrow> string observation" where
  "worktree_status v =
     (case rv_run v [''status'', ''--porcelain=v2''] of
        No_Sandbox e \<Rightarrow> Unknown
      | No_Spawn e \<Rightarrow> Unknown
      | Exited code stdout stderr \<Rightarrow> if code = Some 0 then Known (utf8_lossy stdout) else Absent)"

subsection \<open>The worktree census of an operation\<close>

fun needs_worktree_census :: "git_operation \<Rightarrow> bool" where
  "needs_worktree_census (CheckoutBranch b) = True"
| "needs_worktree_census (AddWorktree p b) = True"
| "needs_worktree_census (RemoveWorktree i) = True"
| "needs_worktree_census op = False"

definition no_census_taken :: worktree_census where
  "no_census_taken = CensusFailed ''no worktree census was taken for this operation'' None"

definition census_for :: "repo_view \<Rightarrow> git_operation \<Rightarrow> worktree_census" where
  "census_for v op =
     (case op of
        CheckoutBranch b \<Rightarrow> worktree_census_of (rv_census v) (census_paths_from_flag (rv_expose_paths v))
      | AddWorktree p b \<Rightarrow> worktree_census_of (rv_census v) (census_paths_from_flag (rv_expose_paths v))
      | RemoveWorktree i \<Rightarrow> worktree_census_of (rv_census v) (rows_for_local_use (rv_expose_paths v))
      | _ \<Rightarrow> no_census_taken)"

text \<open>The \<open>unreachable!\<close> arm of \<open>census_for\<close> is never reached.\<close>

lemma census_for_not_needed: "\<not> needs_worktree_census op \<Longrightarrow> census_for v op = no_census_taken"
  by (cases op) (simp_all add: census_for_def)

lemma census_for_needed:
  "needs_worktree_census op \<Longrightarrow> \<exists>paths. census_for v op = worktree_census_of (rv_census v) paths"
  by (cases op) (auto simp: census_for_def)

subsection \<open>The observation of an operation\<close>

record observed =
  ob_head_branch :: "string option"
  ob_head_tip :: "string observation"
  ob_branch_tip :: "string observation"
  ob_status :: "string observation"
  ob_held_at_build :: "bool list"
  ob_census :: worktree_census

definition observe_branch_tip :: "repo_view \<Rightarrow> git_operation \<Rightarrow> string observation" where
  "observe_branch_tip v op =
     (case op of
        DeleteBranch b \<Rightarrow> from_read (rev_parse v b)
      | ForceDeleteBranch b \<Rightarrow> from_read (rev_parse v b)
      | ResetBranch b tgt tip \<Rightarrow> from_read (rev_parse v b)
      | DeleteLocalTag name \<Rightarrow> from_read (rev_parse_ref_unpeeled v (''refs/tags/'' @ name))
      | _ \<Rightarrow> Absent)"

definition observe_operation :: "repo_view \<Rightarrow> git_operation \<Rightarrow> observed" where
  "observe_operation v op =
     \<lparr>ob_head_branch = rv_head_branch v, ob_head_tip = from_read (rev_parse v ''HEAD''),
      ob_branch_tip = observe_branch_tip v op, ob_status = worktree_status v,
      ob_held_at_build = [], ob_census = census_for v op\<rparr>"

definition observe_live_for_feed :: "repo_view \<Rightarrow> observed" where
  "observe_live_for_feed v =
     \<lparr>ob_head_branch = None, ob_head_tip = from_read (rev_parse v ''HEAD''),
      ob_branch_tip = Absent, ob_status = worktree_status v,
      ob_held_at_build = [], ob_census = no_census_taken\<rparr>"

definition observe_live_for_generation :: "repo_view \<Rightarrow> observed" where
  "observe_live_for_generation v = (observe_live_for_feed v)\<lparr>ob_head_branch := rv_head_branch v\<rparr>"

definition observe_live :: "repo_view \<Rightarrow> git_operation \<Rightarrow> observed" where
  "observe_live v op = (observe_live_for_generation v)\<lparr>ob_census := census_for v op\<rparr>"

lemma observe_live_operation:
  "observe_live v op = (observe_operation v op)\<lparr>ob_branch_tip := Absent\<rparr>"
  by (simp add: observe_live_def observe_live_for_generation_def observe_live_for_feed_def observe_operation_def)

lemma same_observation_iff: "same_observation a b \<longleftrightarrow> a = b \<and> \<not> is_unknown a"
  by (cases a; cases b) auto

lemma from_read_simps [simp]:
  "from_read (Inr (Some v)) = Known v" "from_read (Inr None) = Absent" "from_read (Inl e) = Unknown"
  by (simp_all add: from_read_def)

end
