(* ===== verification/Generation.thy ===== *)
theory Generation imports Repo_View Plan_Render begin

text \<open>
  The repository generation: \<open>crates/git-vista-core/src/identity.rs\<close> (\<open>ObjectId\<close>,
  \<open>GenerationInputs\<close>) and the part of \<open>crates/git-vista-server/src/planner.rs\<close> that folds a
  reading of the repository into the token plans are compared by, and into the reading the change
  feed publishes. The UUID v5 hash under the generation namespace, cut to 64 bits, is the parameter
  \<open>digest\<close>; the theorems are about the bytes it is given.
\<close>

subsection \<open>Object ids\<close>

datatype hash_algorithm = Sha1 | Sha256

fun hex_len :: "hash_algorithm \<Rightarrow> nat" where
  "hex_len Sha1 = 40"
| "hex_len Sha256 = 64"

definition from_hex_len :: "nat \<Rightarrow> hash_algorithm option" where
  "from_hex_len len = (if len = 40 then Some Sha1 else if len = 64 then Some Sha256 else None)"

datatype object_id_error = BadLength nat | NonHexCharacter

record object_id =
  oi_hex :: string
  oi_algorithm :: hash_algorithm

definition object_id_parse :: "string \<Rightarrow> object_id_error + object_id" where
  "object_id_parse hex =
     (case from_hex_len (length hex) of
        None \<Rightarrow> Inl (BadLength (length hex))
      | Some algorithm \<Rightarrow>
          if \<not> list_all (\<lambda>b. ascii_digit b \<or> (97 \<le> byte b \<and> byte b \<le> 102)) hex
          then Inl NonHexCharacter
          else Inr \<lparr>oi_hex = hex, oi_algorithm = algorithm\<rparr>)"

definition object_id_short :: "object_id \<Rightarrow> string" where
  "object_id_short o_id = take (min (length (oi_hex o_id)) 7) (oi_hex o_id)"

text \<open>The two validators of an object id, of two crates, accept the same strings.\<close>

lemma object_id_agrees_with_commit_oid:
  "(\<exists>o_id. object_id_parse s = Inr o_id) \<longleftrightarrow> is_valid commit_oid_new s"
  by (auto simp: object_id_parse_def from_hex_len_def is_valid_def commit_oid_new_def validated_def
      require_hex_def)

subsection \<open>The inputs of a generation\<close>

type_synonym generation_inputs = "(string \<times> string) list"

fun input_field :: "string \<Rightarrow> string \<Rightarrow> generation_inputs \<Rightarrow> generation_inputs" where
  "input_field key v [] = [(key, v)]"
| "input_field key v ((k, w) # fs) =
     (if k = key then (k, v) # fs else (k, w) # input_field key v fs)"

fun be_bytes :: "nat \<Rightarrow> nat \<Rightarrow> string" where
  "be_bytes 0 n = []"
| "be_bytes (Suc k) n = be_bytes k (n div 256) @ [char_of (n mod 256)]"

definition u64_to_be_bytes :: "u64 \<Rightarrow> string" where
  "u64_to_be_bytes w = be_bytes 8 (unat w)"

definition length_prefixed :: "string \<Rightarrow> string" where
  "length_prefixed s = u64_to_be_bytes (word_of_nat (length s)) @ s"

definition encode_inputs :: "generation_inputs \<Rightarrow> string" where
  "encode_inputs fs = concat (map (\<lambda>(key, v). length_prefixed key @ length_prefixed v) fs)"

definition generation_preimage :: "generation_inputs \<Rightarrow> string" where
  "generation_preimage inputs = encode_inputs (sort inputs)"

definition generation_of :: "(string \<Rightarrow> u64) \<Rightarrow> generation_inputs \<Rightarrow> u64" where
  "generation_of digest inputs = digest (generation_preimage inputs)"

subsection \<open>Reading the parts\<close>

record digest_input =
  di_value :: string
  di_read :: bool

record generation_parts =
  gp_head_branch :: "string option"
  gp_refs :: "(string \<times> string) list"
  gp_named_refs :: "string \<rightharpoonup> string"
  gp_refs_read :: bool
  gp_stash :: digest_input
  gp_merge_ff :: digest_input

abbreviation nul :: string where "nul \<equiv> [CHR 0x00]"

definition unreadable_input :: "repo_view \<Rightarrow> digest_input" where
  "unreadable_input v = \<lparr>di_value = ''unreadable'' @ nul @ show_i64 (rv_now v), di_read = False\<rparr>"

definition stash_digest_input :: "repo_view \<Rightarrow> digest_input" where
  "stash_digest_input v =
     (case rev_parse_ref_unpeeled v ''refs/stash'' of
        Inr (Some oid) \<Rightarrow> \<lparr>di_value = ''at'' @ nul @ oid, di_read = True\<rparr>
      | Inr None \<Rightarrow> \<lparr>di_value = ''absent'', di_read = True\<rparr>
      | Inl e \<Rightarrow> unreadable_input v)"

definition merge_ff_digest_input :: "repo_view \<Rightarrow> digest_input" where
  "merge_ff_digest_input v =
     (case rv_run v [''config'', ''--get'', ''merge.ff''] of
        No_Sandbox e \<Rightarrow> unreadable_input v
      | No_Spawn e \<Rightarrow> unreadable_input v
      | Exited code stdout stderr \<Rightarrow>
          if code = Some 1 then \<lparr>di_value = ''absent'', di_read = True\<rparr>
          else if code = Some 0 then
            (let printed = utf8_lossy stdout;
                 raw = (case strip_suffix nl printed of Some r \<Rightarrow> r | None \<Rightarrow> printed) in
             \<lparr>di_value = ''known'' @ nul @ raw, di_read = True\<rparr>)
          else unreadable_input v)"

fun kind_debug :: "ref_kind \<Rightarrow> string" where
  "kind_debug Head = ''Head''"
| "kind_debug Branch = ''Branch''"
| "kind_debug RemoteBranch = ''RemoteBranch''"
| "kind_debug Tag = ''Tag''"

fun full_ref_name_of :: "ref_kind \<Rightarrow> string \<Rightarrow> string" where
  "full_ref_name_of Head name = ''HEAD''"
| "full_ref_name_of Branch name = ''refs/heads/'' @ name"
| "full_ref_name_of RemoteBranch name = ''refs/remotes/'' @ name"
| "full_ref_name_of Tag name = ''refs/tags/'' @ name"

definition full_ref_name :: "git_ref \<Rightarrow> string" where
  "full_ref_name r = full_ref_name_of (ref_kind r) (ref_name r)"

definition digest_ref_key :: "git_ref \<Rightarrow> string" where
  "digest_ref_key r = ''ref:'' @ kind_debug (ref_kind r) @ '':'' @ ref_name r"

definition refs_reading ::
  "repo_view \<Rightarrow> string option \<times> (string \<times> string) list \<times> (string \<rightharpoonup> string) \<times> bool" where
  "refs_reading v =
     (case rv_refs v of
        Some (head_branch, refs) \<Rightarrow>
          (head_branch, map (\<lambda>r. (digest_ref_key r, ref_target r)) refs,
           map_of (rev (map (\<lambda>r. (full_ref_name r, ref_target r)) refs)), True)
      | None \<Rightarrow> (None, [], Map.empty, False))"

definition read_generation_parts :: "repo_view \<Rightarrow> generation_parts" where
  "read_generation_parts v =
     (case refs_reading v of
        (head_branch, refs, named_refs, refs_read) \<Rightarrow>
          \<lparr>gp_head_branch = head_branch, gp_refs = refs, gp_named_refs = named_refs,
           gp_refs_read = refs_read, gp_stash = stash_digest_input v,
           gp_merge_ff = merge_ff_digest_input v\<rparr>)"

subsection \<open>The fold\<close>

definition or_empty :: "string option \<Rightarrow> string" where
  "or_empty s = (case s of Some x \<Rightarrow> x | None \<Rightarrow> [])"

definition fold_inputs :: "observed \<Rightarrow> generation_parts \<Rightarrow> u64 \<Rightarrow> generation_inputs \<times> u64" where
  "fold_inputs ob parts nonce =
     (let (head_digest, n1) = digest_field (ob_head_tip ob) nonce;
          f1 = input_field ''head'' (or_empty (ob_head_branch ob) @ nul @ head_digest) [];
          f2 = fold (\<lambda>(name, tgt). input_field name tgt) (gp_refs parts) f1;
          f3 = input_field ''stash'' (di_value (gp_stash parts)) f2;
          f4 = input_field ''merge_ff'' (di_value (gp_merge_ff parts)) f3;
          (status_digest, n2) = digest_field (ob_status ob) n1
      in (input_field ''status'' status_digest f4, n2))"

definition fold_generation ::
  "(string \<Rightarrow> u64) \<Rightarrow> observed \<Rightarrow> generation_parts \<Rightarrow> u64 \<Rightarrow> generation_token \<times> u64" where
  "fold_generation digest ob parts nonce =
     (case fold_inputs ob parts nonce of
        (inputs, nonce1) \<Rightarrow> (show_u64 (generation_of digest inputs), nonce1))"

definition generation_token ::
  "(string \<Rightarrow> u64) \<Rightarrow> repo_view \<Rightarrow> observed \<Rightarrow> u64 \<Rightarrow> generation_token \<times> u64" where
  "generation_token digest v ob nonce = fold_generation digest ob (read_generation_parts v) nonce"

subsection \<open>The reading the change feed publishes\<close>

record live_reading =
  lr_token :: generation_token
  lr_refs :: "string \<rightharpoonup> string"
  lr_other :: string
  lr_blind :: "string option"

definition blind_reason :: "observed \<Rightarrow> generation_parts \<Rightarrow> string option" where
  "blind_reason ob parts =
     (if \<not> gp_refs_read parts then Some ''the ref store could not be read''
      else if is_unknown (ob_head_tip ob) then Some ''HEAD could not be read''
      else if is_unknown (ob_status ob) then Some ''git status could not be run''
      else if \<not> di_read (gp_stash parts) then Some ''refs/stash could not be read''
      else if \<not> di_read (gp_merge_ff parts) then Some ''the merge.ff setting could not be read''
      else None)"

definition read_live :: "(string \<Rightarrow> u64) \<Rightarrow> repo_view \<Rightarrow> u64 \<Rightarrow> live_reading \<times> u64" where
  "read_live digest v nonce =
     (let parts = read_generation_parts v;
          ob = (observe_live_for_feed v)\<lparr>ob_head_branch := gp_head_branch parts\<rparr>;
          (head_digest, n1) = digest_field (ob_head_tip ob) nonce;
          (status_digest, n2) = digest_field (ob_status ob) n1;
          other = ''head'' @ nul @ or_empty (ob_head_branch ob) @ nul @ head_digest @ nul @
            ''stash'' @ nul @ di_value (gp_stash parts) @ nul @
            ''merge_ff'' @ nul @ di_value (gp_merge_ff parts) @ nul @ ''status'' @ nul @ status_digest;
          (token, n3) = fold_generation digest ob parts n2
      in (\<lparr>lr_token = token, lr_refs = gp_named_refs parts, lr_other = other,
           lr_blind = blind_reason ob parts\<rparr>, n3))"

subsection \<open>The encoding is injective\<close>

lemma length_be_bytes [simp]: "length (be_bytes k n) = k"
  by (induction k arbitrary: n) auto

lemma be_bytes_inject:
  "m < 256 ^ k \<Longrightarrow> n < 256 ^ k \<Longrightarrow> be_bytes k m = be_bytes k n \<Longrightarrow> m = n"
proof (induction k arbitrary: m n)
  case (Suc k)
  from Suc.prems have d: "m div 256 < 256 ^ k" "n div 256 < 256 ^ k" by (auto simp: less_mult_imp_div_less)
  from Suc.prems(3) have b: "be_bytes k (m div 256) = be_bytes k (n div 256)"
    and c: "char_of (m mod 256) = (char_of (n mod 256) :: char)" by auto
  from arg_cong[OF c, of "of_char :: char \<Rightarrow> nat"] have "m mod 256 = n mod 256" by simp
  with Suc.IH[OF d b] show ?case by (metis div_mult_mod_eq)
qed simp

abbreviation fits :: "string \<Rightarrow> bool" where "fits s \<equiv> length s < 2 ^ 64"

lemma u64_to_be_bytes_inject:
  assumes "m < 2 ^ 64" "n < 2 ^ 64"
    "u64_to_be_bytes (word_of_nat m) = u64_to_be_bytes (word_of_nat n)"
  shows "m = n"
proof -
  have u: "unat (word_of_nat k :: u64) = k" if "k < 2 ^ 64" for k
    using that by (simp add: unat_of_nat take_bit_nat_eq_self)
  show ?thesis
    using assms by (intro be_bytes_inject[of m 8 n]) (simp_all add: u64_to_be_bytes_def u)
qed

lemma length_prefixed_inject:
  assumes "length_prefixed s @ a = length_prefixed t @ b" "fits s" "fits t"
  shows "s = t \<and> a = b"
proof -
  have l: "length (u64_to_be_bytes w) = 8" for w by (simp add: u64_to_be_bytes_def)
  have e: "u64_to_be_bytes (word_of_nat (length s)) = u64_to_be_bytes (word_of_nat (length t))"
    and r: "s @ a = t @ b"
    using assms(1) by (simp_all add: length_prefixed_def l append_eq_append_conv)
  from u64_to_be_bytes_inject[OF assms(2,3) e] r show ?thesis by simp
qed

lemma length_prefixed_nonempty: "length_prefixed s @ a \<noteq> []"
proof -
  have "length (length_prefixed s @ a) = 8 + length s + length a"
    by (simp add: length_prefixed_def u64_to_be_bytes_def)
  then show ?thesis by auto
qed

lemma encode_inputs_inject:
  assumes "encode_inputs fs = encode_inputs gs"
    "\<forall>(k, v) \<in> set fs. fits k \<and> fits v" "\<forall>(k, v) \<in> set gs. fits k \<and> fits v"
  shows "fs = gs"
  using assms
proof (induction fs arbitrary: gs)
  case Nil
  then show ?case using length_prefixed_nonempty by (cases gs) (auto simp: encode_inputs_def)
next
  case (Cons f fs)
  obtain k v where f: "f = (k, v)" by (cases f)
  from Cons.prems(1) f obtain g gs' where gs: "gs = g # gs'"
    using length_prefixed_nonempty by (cases gs) (auto simp: encode_inputs_def)
  obtain k' v' where g: "g = (k', v')" by (cases g)
  from Cons.prems f gs g have fit: "fits k" "fits v" "fits k'" "fits v'" by auto
  from Cons.prems(1) f gs g
  have "length_prefixed k @ (length_prefixed v @ encode_inputs fs) =
      length_prefixed k' @ (length_prefixed v' @ encode_inputs gs')"
    by (simp add: encode_inputs_def)
  from length_prefixed_inject[OF this fit(1,3)]
  have "k = k'" "length_prefixed v @ encode_inputs fs = length_prefixed v' @ encode_inputs gs'" by auto
  moreover from length_prefixed_inject[OF this(2) fit(2,4)] have "v = v'" "encode_inputs fs = encode_inputs gs'" by auto
  moreover from Cons.IH[OF this(2)] Cons.prems f gs have "fs = gs'" by auto
  ultimately show ?case using f gs g by simp
qed

subsection \<open>Fields are a map\<close>

lemma input_field_map: "map_of (input_field key v fs) = (map_of fs)(key \<mapsto> v)"
  by (induction fs) (auto simp: fun_eq_iff)

lemma input_field_keys: "fst ` set (input_field key v fs) = insert key (fst ` set fs)"
proof (induction fs)
  case (Cons f fs)
  then show ?case by (cases f) (simp add: insert_commute)
qed simp

lemma input_field_distinct: "distinct (map fst fs) \<Longrightarrow> distinct (map fst (input_field key v fs))"
proof (induction fs)
  case (Cons f fs)
  then show ?case by (cases f) (auto simp: input_field_keys)
qed simp

lemma fold_input_fields:
  "distinct (map fst fs) \<Longrightarrow>
     distinct (map fst (fold (\<lambda>(name, tgt). input_field name tgt) rs fs)) \<and>
     map_of (fold (\<lambda>(name, tgt). input_field name tgt) rs fs) = map_of fs ++ map_of (rev rs)"
  by (induction rs arbitrary: fs) (auto simp: input_field_distinct input_field_map map_add_def fun_eq_iff split: option.splits)

lemma sort_fields_eq:
  fixes fs gs :: generation_inputs
  assumes "distinct (map fst fs)" "distinct (map fst gs)"
  shows "sort fs = sort gs \<longleftrightarrow> map_of fs = map_of gs"
proof -
  have "distinct fs" "distinct gs" using assms by (simp_all add: distinct_map)
  then have "sort fs = sort gs \<longleftrightarrow> set fs = set gs"
    by (metis set_sort sorted_distinct_set_unique sorted_sort distinct_sort)
  with map_of_inject_set[OF assms] show ?thesis by simp
qed

subsection \<open>Equal tokens are equal repositories\<close>

text \<open>The value of each ref, the later one of a repeated name.\<close>

definition ref_values :: "generation_parts \<Rightarrow> string \<rightharpoonup> string" where
  "ref_values parts = map_of (rev (gp_refs parts))"

text \<open>
  What a reading of a repository always satisfies: a branch name is not empty and holds no NUL, the
  digest keys of the refs are those \<open>refs_reading\<close> writes.
\<close>

definition digestible :: "observed \<Rightarrow> generation_parts \<Rightarrow> bool" where
  "digestible ob parts \<longleftrightarrow>
     pred_option (\<lambda>b. b \<noteq> [] \<and> CHR 0x00 \<notin> set b) (ob_head_branch ob) \<and>
     list_all (\<lambda>(key, v). starts_with ''ref:'' key) (gp_refs parts)"

definition same_reading :: "observed \<Rightarrow> generation_parts \<Rightarrow> observed \<Rightarrow> generation_parts \<Rightarrow> bool" where
  "same_reading ob1 p1 ob2 p2 \<longleftrightarrow>
     ob_head_branch ob1 = ob_head_branch ob2 \<and>
     same_observation (ob_head_tip ob1) (ob_head_tip ob2) \<and>
     same_observation (ob_status ob1) (ob_status ob2) \<and>
     ref_values p1 = ref_values p2 \<and>
     di_value (gp_stash p1) = di_value (gp_stash p2) \<and>
     di_value (gp_merge_ff p1) = di_value (gp_merge_ff p2)"

lemma decimal_inject: "0 \<le> m \<Longrightarrow> 0 \<le> n \<Longrightarrow> decimal m = decimal n \<Longrightarrow> m = n"
proof -
  assume a: "0 \<le> m" "0 \<le> n" "decimal m = decimal n"
  have "parse_uint (max m n) (decimal m) = Some m" "parse_uint (max m n) (decimal n) = Some n"
    using a(1,2) by (auto intro: parse_uint_decimal)
  then show "m = n" unfolding a(3) by simp
qed

lemma show_u64_inject: "show_u64 m = show_u64 n \<longleftrightarrow> m = n"
  using decimal_inject[of "uint m" "uint n"] by (auto simp: show_u64_def word_uint_eq_iff)

lemma digest_field_same:
  "m \<noteq> n \<Longrightarrow> fst (digest_field a m) = fst (digest_field b n) \<longleftrightarrow> same_observation a b"
  by (cases a; cases b) (auto simp: show_u64_inject)

lemma digest_field_nonce: "\<not> is_unknown a \<Longrightarrow> snd (digest_field a n) = n"
  by (cases a) auto

lemma append_sep_inject:
  fixes c :: char
  assumes "c \<notin> set a" "c \<notin> set b"
  shows "a @ [c] @ x = b @ [c] @ y \<longleftrightarrow> a = b \<and> x = y"
proof
  assume e: "a @ [c] @ x = b @ [c] @ y"
  have "split_once [c] (a @ [c] @ x) = Some (a, x)" "split_once [c] (b @ [c] @ y) = Some (b, y)"
    using split_once_first[of c a "[]" x] split_once_first[of c b "[]" y] assms by simp_all
  then show "a = b \<and> x = y" unfolding e by simp
qed simp

definition head_input :: "observed \<Rightarrow> u64 \<Rightarrow> string" where
  "head_input ob n = or_empty (ob_head_branch ob) @ nul @ fst (digest_field (ob_head_tip ob) n)"

definition status_input :: "observed \<Rightarrow> u64 \<Rightarrow> string" where
  "status_input ob n = fst (digest_field (ob_status ob) (snd (digest_field (ob_head_tip ob) n)))"

lemma fold_inputs_map:
  "distinct (map fst (fst (fold_inputs ob parts n))) \<and>
   map_of (fst (fold_inputs ob parts n)) =
     ([''head'' \<mapsto> head_input ob n] ++ ref_values parts)
       (''stash'' \<mapsto> di_value (gp_stash parts), ''merge_ff'' \<mapsto> di_value (gp_merge_ff parts),
        ''status'' \<mapsto> status_input ob n)"
proof -
  let ?f1 = "input_field ''head'' (head_input ob n) []"
  let ?f2 = "fold (\<lambda>(name, tgt). input_field name tgt) (gp_refs parts) ?f1"
  have "distinct (map fst ?f2) \<and> map_of ?f2 = [''head'' \<mapsto> head_input ob n] ++ ref_values parts"
    using fold_input_fields[of ?f1 "gp_refs parts"] by (simp add: ref_values_def)
  then show ?thesis
    by (simp add: fold_inputs_def head_input_def status_input_def Let_def split_beta input_field_map
        input_field_distinct)
qed

lemma ref_values_keys:
  "digestible ob parts \<Longrightarrow> ref_values parts key = Some v \<Longrightarrow> starts_with ''ref:'' key"
  by (auto simp: digestible_def ref_values_def list_all_iff dest!: map_of_SomeD)

lemma fixed_keys_not_refs:
  assumes "digestible ob parts"
  shows "ref_values parts ''head'' = None" "ref_values parts ''stash'' = None"
    "ref_values parts ''merge_ff'' = None" "ref_values parts ''status'' = None"
  using ref_values_keys[OF assms] by (force simp: starts_with_def)+

lemma head_input_same:
  assumes "digestible ob1 p1" "digestible ob2 p2" "n1 \<noteq> n2"
  shows "head_input ob1 n1 = head_input ob2 n2 \<longleftrightarrow>
    ob_head_branch ob1 = ob_head_branch ob2 \<and> same_observation (ob_head_tip ob1) (ob_head_tip ob2)"
proof -
  have z: "CHR 0x00 \<notin> set (or_empty (ob_head_branch ob1))" "CHR 0x00 \<notin> set (or_empty (ob_head_branch ob2))"
    using assms(1,2)
    by (cases "ob_head_branch ob1"; cases "ob_head_branch ob2"; simp add: digestible_def or_empty_def)+
  have e: "or_empty (ob_head_branch ob1) = or_empty (ob_head_branch ob2) \<longleftrightarrow>
      ob_head_branch ob1 = ob_head_branch ob2"
    using assms(1,2)
    by (cases "ob_head_branch ob1"; cases "ob_head_branch ob2") (auto simp: digestible_def or_empty_def)
  show ?thesis
    unfolding head_input_def append_sep_inject[OF z] e digest_field_same[OF assms(3)] by simp
qed

lemma status_input_same:
  assumes "same_observation (ob_head_tip ob1) (ob_head_tip ob2)" "n1 \<noteq> n2"
  shows "status_input ob1 n1 = status_input ob2 n2 \<longleftrightarrow> same_observation (ob_status ob1) (ob_status ob2)"
proof -
  from assms(1) have "\<not> is_unknown (ob_head_tip ob1)" "\<not> is_unknown (ob_head_tip ob2)"
    by (auto simp: same_observation_iff)
  then show ?thesis using assms(2) by (simp add: status_input_def digest_field_nonce digest_field_same)
qed

lemma map_updates_eq:
  assumes "\<forall>k \<in> {a, b, c, d}. m k = None \<and> m' k = None" "distinct [a, b, c, d]"
  shows "([a \<mapsto> x] ++ m)(b \<mapsto> y, c \<mapsto> z, d \<mapsto> w) = ([a \<mapsto> x'] ++ m')(b \<mapsto> y', c \<mapsto> z', d \<mapsto> w') \<longleftrightarrow>
    x = x' \<and> m = m' \<and> y = y' \<and> z = z' \<and> w = w'" (is "?l = ?r \<longleftrightarrow> ?c")
proof
  assume e: "?l = ?r"
  have "m k = m' k" for k
  proof (cases "k \<in> {a, b, c, d}")
    case False
    with fun_cong[OF e, of k] show ?thesis by (auto simp: map_add_def split: option.splits)
  qed (use assms(1) in auto)
  with fun_cong[OF e, of a] fun_cong[OF e, of b] fun_cong[OF e, of c] fun_cong[OF e, of d] assms
  show ?c by (auto simp: map_add_def)
qed simp

lemma generation_preimage_same:
  assumes dig: "digestible ob1 p1" "digestible ob2 p2" and nonce: "n1 \<noteq> n2"
    and fit: "\<forall>(k, v) \<in> set (fst (fold_inputs ob1 p1 n1)). fits k \<and> fits v"
      "\<forall>(k, v) \<in> set (fst (fold_inputs ob2 p2 n2)). fits k \<and> fits v"
  shows "generation_preimage (fst (fold_inputs ob1 p1 n1)) = generation_preimage (fst (fold_inputs ob2 p2 n2)) \<longleftrightarrow>
    same_reading ob1 p1 ob2 p2"
proof -
  let ?f1 = "fst (fold_inputs ob1 p1 n1)" and ?f2 = "fst (fold_inputs ob2 p2 n2)"
  note m1 = fold_inputs_map[of ob1 p1 n1] and m2 = fold_inputs_map[of ob2 p2 n2]
  have "generation_preimage ?f1 = generation_preimage ?f2 \<longleftrightarrow> sort ?f1 = sort ?f2"
    using encode_inputs_inject[of "sort ?f1" "sort ?f2"] fit by (auto simp: generation_preimage_def)
  also have "\<dots> \<longleftrightarrow> map_of ?f1 = map_of ?f2" using sort_fields_eq m1 m2 by blast
  also have "\<dots> \<longleftrightarrow> head_input ob1 n1 = head_input ob2 n2 \<and> ref_values p1 = ref_values p2 \<and>
      di_value (gp_stash p1) = di_value (gp_stash p2) \<and> di_value (gp_merge_ff p1) = di_value (gp_merge_ff p2) \<and>
      status_input ob1 n1 = status_input ob2 n2"
    unfolding conjunct2[OF m1] conjunct2[OF m2]
    by (rule map_updates_eq) (use fixed_keys_not_refs[OF dig(1)] fixed_keys_not_refs[OF dig(2)] in simp_all)
  also have "\<dots> \<longleftrightarrow> same_reading ob1 p1 ob2 p2"
    using head_input_same[OF dig nonce] status_input_same[of ob1 ob2, OF _ nonce]
    by (auto simp: same_reading_def)
  finally show ?thesis .
qed

text \<open>
  What stands for a field that could not be read. A HEAD commit or a status takes the counter, so it is
  never the same as another. A stash or a merge.ff stands as unreadable in that second, and refs that
  could not be read stand as no refs: these are the same as each other.
\<close>

lemma unreadable_fields:
  "\<not> di_read (stash_digest_input v) \<Longrightarrow> di_value (stash_digest_input v) = di_value (unreadable_input v)"
  "\<not> di_read (merge_ff_digest_input v) \<Longrightarrow> di_value (merge_ff_digest_input v) = di_value (unreadable_input v)"
  "rv_refs v = None \<Longrightarrow> gp_refs (read_generation_parts v) = []"
  "rv_now v = rv_now w \<Longrightarrow> unreadable_input v = unreadable_input w"
  by (auto simp: stash_digest_input_def merge_ff_digest_input_def read_generation_parts_def refs_reading_def
      unreadable_input_def Let_def split: sum.splits option.splits git_run.splits if_splits)

text \<open>
  C24: two generation tokens are equal exactly when what was digested is the same: the same HEAD branch,
  the same commit, the same target for every ref, the same digest input for the stash and for merge.ff,
  and the same status. A HEAD commit or a status that could not be read is never the same as another
  one; for the other fields a failed reading counts as the value that stands for it (two unreadable
  stashes are the same within one second, and unreadable refs are no refs). What is assumed: the
  hash does not collide on the two byte strings it is given, the counter of unknown readings has
  moved between them, and every field is shorter than 2 ^ 64 bytes.
\<close>

theorem equal_tokens_iff_same_reading:
  assumes "digestible ob1 p1" "digestible ob2 p2" "n1 \<noteq> n2"
    and "\<forall>(k, v) \<in> set (fst (fold_inputs ob1 p1 n1)) \<union> set (fst (fold_inputs ob2 p2 n2)). fits k \<and> fits v"
    and "inj_on digest {generation_preimage (fst (fold_inputs ob1 p1 n1)),
                        generation_preimage (fst (fold_inputs ob2 p2 n2))}"
  shows "fst (fold_generation digest ob1 p1 n1) = fst (fold_generation digest ob2 p2 n2) \<longleftrightarrow>
    ob_head_branch ob1 = ob_head_branch ob2 \<and>
    same_observation (ob_head_tip ob1) (ob_head_tip ob2) \<and>
    same_observation (ob_status ob1) (ob_status ob2) \<and>
    map_of (rev (gp_refs p1)) = map_of (rev (gp_refs p2)) \<and>
    di_value (gp_stash p1) = di_value (gp_stash p2) \<and>
    di_value (gp_merge_ff p1) = di_value (gp_merge_ff p2)"
proof -
  let ?x1 = "generation_preimage (fst (fold_inputs ob1 p1 n1))"
  let ?x2 = "generation_preimage (fst (fold_inputs ob2 p2 n2))"
  have "fst (fold_generation digest ob1 p1 n1) = fst (fold_generation digest ob2 p2 n2) \<longleftrightarrow> digest ?x1 = digest ?x2"
    by (simp add: fold_generation_def generation_of_def show_u64_inject split_beta)
  also have "\<dots> \<longleftrightarrow> ?x1 = ?x2" by (rule inj_on_eq_iff[OF assms(5)]) blast+
  also have "\<dots> \<longleftrightarrow> same_reading ob1 p1 ob2 p2"
    by (rule generation_preimage_same[OF assms(1-3)]) (use assms(4) in blast)+
  finally show ?thesis unfolding same_reading_def ref_values_def .
qed

text \<open>Two readings of a repository that differ in one branch only.\<close>

definition sample_observed :: observed where
  "sample_observed = \<lparr>ob_head_branch = Some ''m'', ob_head_tip = Known ''0a'', ob_branch_tip = Absent,
     ob_status = Known [], ob_held_at_build = [], ob_census = no_census_taken\<rparr>"

definition sample_parts :: "string \<Rightarrow> generation_parts" where
  "sample_parts tgt = \<lparr>gp_head_branch = Some ''m'', gp_refs = [(''ref:Branch:m'', tgt)],
     gp_named_refs = [''refs/heads/m'' \<mapsto> tgt], gp_refs_read = True,
     gp_stash = \<lparr>di_value = ''absent'', di_read = True\<rparr>,
     gp_merge_ff = \<lparr>di_value = ''absent'', di_read = True\<rparr>\<rparr>"

lemma sample_inputs:
  "fst (fold_inputs sample_observed (sample_parts tgt) n) =
     [(''head'', ''m'' @ nul @ ''known:0a''), (''ref:Branch:m'', tgt), (''stash'', ''absent''),
      (''merge_ff'', ''absent''), (''status'', ''known:'')]"
  by (simp add: fold_inputs_def sample_observed_def sample_parts_def or_empty_def)

definition sample_digest :: "string \<Rightarrow> u64" where
  "sample_digest s =
     (if s = generation_preimage (fst (fold_inputs sample_observed (sample_parts ''0a'') 0)) then 0 else 1)"

lemma equal_tokens_iff_same_reading_witness:
  "fst (fold_generation sample_digest sample_observed (sample_parts ''0a'') 0) \<noteq>
   fst (fold_generation sample_digest sample_observed (sample_parts ''0b'') 1)"
proof -
  have inj: "inj_on sample_digest {generation_preimage (fst (fold_inputs sample_observed (sample_parts ''0a'') 0)),
      generation_preimage (fst (fold_inputs sample_observed (sample_parts ''0b'') 1))}"
    by (auto simp: inj_on_def sample_digest_def split: if_splits)
  have dig: "digestible sample_observed (sample_parts tgt)" for tgt
    by (simp add: digestible_def sample_observed_def sample_parts_def starts_with_def)
  have fit: "\<forall>(k, v) \<in> set (fst (fold_inputs sample_observed (sample_parts ''0a'') 0)) \<union>
      set (fst (fold_inputs sample_observed (sample_parts ''0b'') 1)). fits k \<and> fits v"
    unfolding sample_inputs by simp
  have differ: "map_of (rev (gp_refs (sample_parts ''0a''))) \<noteq> map_of (rev (gp_refs (sample_parts ''0b'')))"
    by (simp add: sample_parts_def fun_eq_iff)
  have "(0 :: u64) \<noteq> 1" by simp
  from equal_tokens_iff_same_reading[OF dig dig this fit inj] differ show ?thesis by blast
qed

subsection \<open>The feed and the gate read the same thing\<close>

lemma set_utf8_lossy: "set (utf8_lossy s) \<subseteq> set s \<union> set replacement"
proof (induction s rule: utf8_lossy.induct)
  case (2 c s)
  obtain n ok where n: "sequence c s = (n, ok)" by fastforce
  from "2.IH"[OF n[symmetric]] have "set (utf8_lossy (drop (n - 1) s)) \<subseteq> set (c # s) \<union> set replacement"
    using set_drop_subset[of "n - 1" s] by auto
  with n show ?case using set_take_subset[of n "c # s"] by auto
qed simp

lemma set_trim_start: "set (trim_start s) \<subseteq> set s"
proof (induction s rule: trim_start.induct)
  case (1 s)
  then show ?case
    using set_drop_subset[of "ws_len s" s] by (subst trim_start.simps) auto
qed

lemma set_trim_end: "set (trim_end s) \<subseteq> set s"
proof (induction s rule: trim_end.induct)
  case (1 s)
  then show ?case
    using set_take_subset[of "length s - ws_end_len s" s] by (subst trim_end.simps) auto
qed

definition nul_free :: "string \<Rightarrow> bool" where
  "nul_free s \<longleftrightarrow> CHR 0x00 \<notin> set s"

lemma nul_free_lossy: "nul_free s \<Longrightarrow> nul_free (utf8_lossy s)"
  using set_utf8_lossy[of s] by (auto simp: nul_free_def replacement_def)

lemma nul_free_trim: "nul_free s \<Longrightarrow> nul_free (trim s)"
  using set_trim_start[of s] set_trim_end[of "trim_start s"] by (auto simp: nul_free_def trim_def)

text \<open>
  What holds of a repository that can be read: HEAD's branch is the same in both reads of it, only
  HEAD is a ref of kind \<open>Head\<close>, and no output of git (asked without \<open>-z\<close>) and no branch name
  holds a NUL.
\<close>

definition consistent_view :: "repo_view \<Rightarrow> bool" where
  "consistent_view v \<longleftrightarrow>
     (\<exists>refs. rv_refs v = Some (rv_head_branch v, refs) \<and>
        list_all (\<lambda>r. ref_kind r = Head \<longrightarrow> ref_name r = ''HEAD'') refs) \<and>
     pred_option (\<lambda>b. b \<noteq> [] \<and> nul_free b) (rv_head_branch v) \<and>
     (\<forall>args code out err. rv_run v args = Exited code out err \<longrightarrow> nul_free out)"

text \<open>A value with a tag in front: \<open>absent\<close>, or another tag, a NUL and the value.\<close>

definition tagged :: "string \<Rightarrow> bool" where
  "tagged s \<longleftrightarrow> s = ''absent'' \<or> (\<exists>t w. t \<noteq> ''absent'' \<and> nul_free t \<and> nul_free w \<and> s = t @ nul @ w)"

lemma tagged_inject:
  assumes "tagged s" "tagged s'"
  shows "s @ nul @ x = s' @ nul @ x' \<longleftrightarrow> s = s' \<and> x = x'"
proof -
  have a: "nul_free ''absent''" by (simp add: nul_free_def)
  have differ: "''absent'' \<noteq> t @ nul @ w" for t w
  proof
    assume "''absent'' = t @ nul @ w"
    then have "CHR 0x00 \<in> set ''absent''" by (metis append_Cons in_set_conv_decomp)
    with a show False unfolding nul_free_def by blast
  qed
  note inj = append_sep_inject[of "CHR 0x00", folded nul_free_def]
  from assms consider
      "s = ''absent''" "s' = ''absent''"
    | t w where "s = ''absent''" "s' = t @ nul @ w" "t \<noteq> ''absent''" "nul_free t" "nul_free w"
    | t w where "s' = ''absent''" "s = t @ nul @ w" "t \<noteq> ''absent''" "nul_free t" "nul_free w"
    | t w t' w' where "s = t @ nul @ w" "s' = t' @ nul @ w'" "nul_free t" "nul_free w" "nul_free t'" "nul_free w'"
    unfolding tagged_def by blast
  then show ?thesis
  proof cases
    case 2
    have "s @ nul @ x \<noteq> s' @ nul @ x'"
      using inj[OF a 2(4), of x "w @ nul @ x'"] 2(1-3) by auto
    moreover have "s \<noteq> s'" using 2(1,2) differ by metis
    ultimately show ?thesis by blast
  next
    case 3
    have "s @ nul @ x \<noteq> s' @ nul @ x'"
      using inj[OF 3(4) a, of "w @ nul @ x" x'] 3(1-3) by auto
    moreover have "s \<noteq> s'" using 3(1,2) differ by metis
    ultimately show ?thesis by blast
  next
    case 4
    have "s @ nul @ x = s' @ nul @ x' \<longleftrightarrow> t = t' \<and> w @ nul @ x = w' @ nul @ x'"
      using inj[OF 4(3,5), of "w @ nul @ x" "w' @ nul @ x'"] 4(1,2) by simp
    also have "\<dots> \<longleftrightarrow> t = t' \<and> w = w' \<and> x = x'" using inj[OF 4(4,6), of x x'] by simp
    also have "\<dots> \<longleftrightarrow> s = s' \<and> x = x'" using inj[OF 4(3,5), of w w'] 4(1,2) by auto
    finally show ?thesis .
  qed simp
qed

lemma verified_id_nul_free: "nul_free out \<Longrightarrow> verified_id code out = Some i \<Longrightarrow> nul_free i"
  by (auto simp: verified_id_def Let_def nul_free_lossy nul_free_trim split: if_splits)

lemma stash_tagged:
  assumes "consistent_view v" "di_read (stash_digest_input v)"
  shows "tagged (di_value (stash_digest_input v))"
proof -
  have at: "tagged (''at'' @ nul @ i)" if "nul_free i" for i
    unfolding tagged_def using that by (intro disjI2 exI[of _ "''at''"] exI[of _ i]) (simp add: nul_free_def)
  from assms show ?thesis
    by (auto simp: stash_digest_input_def unreadable_input_def rev_parse_ref_unpeeled_def consistent_view_def
        tagged_def[of "''absent''"] dest!: verified_id_nul_free[rotated] intro!: at[simplified]
        split: sum.splits option.splits git_run.splits)
qed

lemma merge_ff_tagged:
  assumes "consistent_view v" "di_read (merge_ff_digest_input v)"
  shows "tagged (di_value (merge_ff_digest_input v))"
proof -
  have known: "tagged (''known'' @ nul @ w)" if "nul_free w" for w
    unfolding tagged_def using that by (intro disjI2 exI[of _ "''known''"] exI[of _ w]) (simp add: nul_free_def)
  have strip: "nul_free w" if "nul_free s" "strip_suffix nl s = Some w" for s w
    using that by (auto simp: strip_suffix_Some nul_free_def)
  have out: "nul_free out" if "rv_run v args = Exited code out err" for args code out err
    using assms(1) that unfolding consistent_view_def by blast
  show ?thesis
  proof (cases "rv_run v [''config'', ''--get'', ''merge.ff'']")
    case (Exited code out err)
    then have n: "nul_free (utf8_lossy out)" using out by (intro nul_free_lossy) blast
    from Exited assms(2) show ?thesis
      using known[OF n] known[OF strip[OF n]]
      by (auto simp: merge_ff_digest_input_def unreadable_input_def Let_def tagged_def[of "''absent''"]
          split: if_splits option.splits)
  qed (use assms(2) in \<open>simp_all add: merge_ff_digest_input_def unreadable_input_def\<close>)
qed

lemma map_of_recode:
  assumes "inj_on g (insert a (k ` set xs))"
  shows "map_of (map (\<lambda>x. (g (k x), v x)) xs) (g a) = map_of (map (\<lambda>x. (k x, v x)) xs) a"
  using assms by (induction xs) (auto simp: inj_on_def)

lemma map_of_recode_eq:
  fixes f g :: "'k \<Rightarrow> string"
  assumes "inj_on f (k ` set xs \<union> k ` set ys)" "inj_on g (k ` set xs \<union> k ` set ys)"
    and "map_of (map (\<lambda>x. (f (k x), v x)) xs) = map_of (map (\<lambda>x. (f (k x), v x)) ys)"
  shows "map_of (map (\<lambda>x. (g (k x), v x)) xs) = map_of (map (\<lambda>x. (g (k x), v x)) ys)"
proof (rule ext)
  fix s
  show "map_of (map (\<lambda>x. (g (k x), v x)) xs) s = map_of (map (\<lambda>x. (g (k x), v x)) ys) s"
  proof (cases "s \<in> g ` (k ` set xs \<union> k ` set ys)")
    case True
    then obtain a where a: "s = g a" "a \<in> k ` set xs \<union> k ` set ys" by auto
    from a(2) have within: "insert a (k ` set xs) \<subseteq> k ` set xs \<union> k ` set ys"
      "insert a (k ` set ys) \<subseteq> k ` set xs \<union> k ` set ys" by auto
    have sub: "inj_on h (insert a (k ` set xs))" "inj_on h (insert a (k ` set ys))"
      if "inj_on h (k ` set xs \<union> k ` set ys)" for h :: "'k \<Rightarrow> string"
      using within[THEN inj_on_subset[OF that]] .
    from map_of_recode[OF sub(1)[OF assms(1)], of v] map_of_recode[OF sub(2)[OF assms(1)], of v]
      map_of_recode[OF sub(1)[OF assms(2)], of v] map_of_recode[OF sub(2)[OF assms(2)], of v] assms(3) a(1)
    show ?thesis by simp
  next
    case False
    then have "s \<notin> fst ` set (map (\<lambda>x. (g (k x), v x)) zs)" if "zs = xs \<or> zs = ys" for zs
      using that by (auto simp: image_iff)
    then show ?thesis by (simp add: map_of_eq_None_iff[THEN iffD2])
  qed
qed

definition ref_id :: "git_ref \<Rightarrow> ref_kind \<times> string" where
  "ref_id r = (ref_kind r, ref_name r)"

lemma digest_ref_key_id: "digest_ref_key r = (\<lambda>(k, n). ''ref:'' @ kind_debug k @ '':'' @ n) (ref_id r)"
  and full_ref_name_id: "full_ref_name r = (\<lambda>(k, n). full_ref_name_of k n) (ref_id r)"
  by (simp_all add: digest_ref_key_def full_ref_name_def ref_id_def)

lemma kind_debug_inject: "kind_debug k @ '':'' @ n = kind_debug k' @ '':'' @ n' \<longleftrightarrow> k = k' \<and> n = n'"
  by (cases k; cases k') auto

lemma inj_digest_key: "inj_on (\<lambda>(k, n). ''ref:'' @ kind_debug k @ '':'' @ n) A"
  using kind_debug_inject by (auto simp: inj_on_def)

lemma full_ref_name_of_inject:
  "full_ref_name_of k n = full_ref_name_of k' n' \<longleftrightarrow> k = k' \<and> (k = Head \<or> n = n')"
  by (cases k; cases k'; simp)

lemma inj_full_name:
  assumes "\<forall>r \<in> R. ref_kind r = Head \<longrightarrow> ref_name r = ''HEAD''"
  shows "inj_on (\<lambda>(k, n). full_ref_name_of k n) (ref_id ` R)"
  using assms by (auto simp: inj_on_def ref_id_def full_ref_name_of_inject)

lemma map_of_by_id:
  "map (\<lambda>r. (digest_ref_key r, ref_target r)) rs =
     map (\<lambda>r. ((\<lambda>(k, n). ''ref:'' @ kind_debug k @ '':'' @ n) (ref_id r), ref_target r)) rs"
  "map (\<lambda>r. (full_ref_name r, ref_target r)) rs =
     map (\<lambda>r. ((\<lambda>(k, n). full_ref_name_of k n) (ref_id r), ref_target r)) rs"
  by (simp_all only: digest_ref_key_id full_ref_name_id)

lemma consistent_view_refs:
  "consistent_view v \<Longrightarrow> \<exists>refs. rv_refs v = Some (rv_head_branch v, refs) \<and>
     (\<forall>r \<in> set refs. ref_kind r = Head \<longrightarrow> ref_name r = ''HEAD'')"
  by (simp add: consistent_view_def list_all_iff)

text \<open>The named refs of two readings agree exactly when their digest fields do.\<close>

lemma named_refs_same:
  assumes "consistent_view v" "consistent_view w"
  shows "gp_named_refs (read_generation_parts v) = gp_named_refs (read_generation_parts w) \<longleftrightarrow>
    ref_values (read_generation_parts v) = ref_values (read_generation_parts w)"
proof -
  from consistent_view_refs[OF assms(1)] obtain rs where rs: "rv_refs v = Some (rv_head_branch v, rs)"
    "\<forall>r \<in> set rs. ref_kind r = Head \<longrightarrow> ref_name r = ''HEAD''" by blast
  from consistent_view_refs[OF assms(2)] obtain qs where qs: "rv_refs w = Some (rv_head_branch w, qs)"
    "\<forall>r \<in> set qs. ref_kind r = Head \<longrightarrow> ref_name r = ''HEAD''" by blast
  note r = rs(1) qs(1)
  have h: "\<forall>r \<in> set rs \<union> set qs. ref_kind r = Head \<longrightarrow> ref_name r = ''HEAD''" using rs(2) qs(2) by blast
  have i: "inj_on (\<lambda>(k, n). full_ref_name_of k n) (ref_id ` set (rev rs) \<union> ref_id ` set (rev qs))"
    "inj_on (\<lambda>(k, n). ''ref:'' @ kind_debug k @ '':'' @ n) (ref_id ` set (rev rs) \<union> ref_id ` set (rev qs))"
    using inj_full_name[OF h] inj_digest_key by (simp_all add: image_Un)
  have e: "gp_named_refs (read_generation_parts v) = map_of (map (\<lambda>r. (full_ref_name r, ref_target r)) (rev rs))"
    "gp_named_refs (read_generation_parts w) = map_of (map (\<lambda>r. (full_ref_name r, ref_target r)) (rev qs))"
    "ref_values (read_generation_parts v) = map_of (map (\<lambda>r. (digest_ref_key r, ref_target r)) (rev rs))"
    "ref_values (read_generation_parts w) = map_of (map (\<lambda>r. (digest_ref_key r, ref_target r)) (rev qs))"
    using r by (simp_all add: read_generation_parts_def refs_reading_def ref_values_def rev_map)
  show ?thesis
    unfolding e map_of_by_id using map_of_recode_eq[OF i, of ref_target] map_of_recode_eq[OF i(2,1), of ref_target] by blast
qed

abbreviation gate_inputs :: "repo_view \<Rightarrow> generation_inputs" where
  "gate_inputs v \<equiv> fst (fold_inputs (observe_live_for_generation v) (read_generation_parts v) 0)"

lemma fold_inputs_nonce:
  assumes "\<not> is_unknown (ob_head_tip ob)" "\<not> is_unknown (ob_status ob)"
  shows "fst (fold_inputs ob parts m) = fst (fold_inputs ob parts n)"
  using assms by (cases "ob_head_tip ob"; cases "ob_status ob") (simp_all add: fold_inputs_def)

lemma fold_inputs_cong:
  "ob_head_branch ob = ob_head_branch ob' \<Longrightarrow> ob_head_tip ob = ob_head_tip ob' \<Longrightarrow>
     ob_status ob = ob_status ob' \<Longrightarrow> fold_inputs ob parts n = fold_inputs ob' parts n"
  by (simp add: fold_inputs_def)

lemma observed_reading:
  "ob_head_branch (observe_operation v op) = rv_head_branch v"
  "ob_head_branch (observe_live v op) = rv_head_branch v"
  "ob_head_branch (observe_live_for_generation v) = rv_head_branch v"
  "ob_head_tip (observe_operation v op) = ob_head_tip (observe_live_for_generation v)"
  "ob_head_tip (observe_live v op) = ob_head_tip (observe_live_for_generation v)"
  "ob_head_tip (observe_live_for_feed v) = ob_head_tip (observe_live_for_generation v)"
  "ob_status (observe_operation v op) = ob_status (observe_live_for_generation v)"
  "ob_status (observe_live v op) = ob_status (observe_live_for_generation v)"
  "ob_status (observe_live_for_feed v) = ob_status (observe_live_for_generation v)"
  by (simp_all add: observe_operation_def observe_live_def observe_live_for_generation_def observe_live_for_feed_def)

text \<open>A reading that is not blind: everything in it was read.\<close>

definition readable :: "repo_view \<Rightarrow> bool" where
  "readable v \<longleftrightarrow> blind_reason (observe_live_for_generation v) (read_generation_parts v) = None"

lemma readableD:
  assumes "readable v"
  shows "\<not> is_unknown (ob_head_tip (observe_live_for_generation v))"
    "\<not> is_unknown (ob_status (observe_live_for_generation v))"
    "di_read (stash_digest_input v)" "di_read (merge_ff_digest_input v)"
  using assms
  by (simp_all add: readable_def blind_reason_def read_generation_parts_def split_beta split: if_splits)

lemma gate_token:
  assumes "readable v"
  shows "fst (generation_token digest v (observe_operation v op) n) =
      show_u64 (digest (generation_preimage (gate_inputs v)))"
    "fst (generation_token digest v (observe_live v op) n) =
      show_u64 (digest (generation_preimage (gate_inputs v)))"
proof -
  have i: "fst (fold_inputs ob (read_generation_parts v) n) = gate_inputs v"
    if "ob = observe_operation v op \<or> ob = observe_live v op" for ob
    using that fold_inputs_nonce[OF readableD(1,2)[OF assms]]
      fold_inputs_cong[of ob "observe_live_for_generation v" "read_generation_parts v" n]
    by (auto simp: observed_reading)
  show "fst (generation_token digest v (observe_operation v op) n) =
      show_u64 (digest (generation_preimage (gate_inputs v)))"
    "fst (generation_token digest v (observe_live v op) n) =
      show_u64 (digest (generation_preimage (gate_inputs v)))"
    using i by (simp_all add: generation_token_def fold_generation_def generation_of_def split_beta)
qed

lemma digestible_view:
  assumes "consistent_view v"
  shows "digestible (observe_live_for_generation v) (read_generation_parts v)"
proof -
  from consistent_view_refs[OF assms] obtain rs where "rv_refs v = Some (rv_head_branch v, rs)" by blast
  moreover have "pred_option (\<lambda>b. b \<noteq> [] \<and> nul_free b) (rv_head_branch v)"
    using assms by (simp add: consistent_view_def)
  ultimately show ?thesis
    by (simp add: digestible_def observed_reading read_generation_parts_def refs_reading_def list_all_iff
        digest_ref_key_def starts_with_def nul_free_def)
qed

lemma gate_preimage_same:
  assumes "consistent_view v" "consistent_view w" "readable v" "readable w"
    and "\<forall>(k, x) \<in> set (gate_inputs v) \<union> set (gate_inputs w). fits k \<and> fits x"
  shows "generation_preimage (gate_inputs v) = generation_preimage (gate_inputs w) \<longleftrightarrow>
    same_reading (observe_live_for_generation v) (read_generation_parts v)
      (observe_live_for_generation w) (read_generation_parts w)"
proof -
  have g: "fst (fold_inputs (observe_live_for_generation w) (read_generation_parts w) 1) = gate_inputs w"
    by (rule fold_inputs_nonce[OF readableD(1,2)[OF assms(4)]])
  show ?thesis
    using generation_preimage_same[OF digestible_view[OF assms(1)] digestible_view[OF assms(2)], of 0 1] assms(5)
    unfolding g by (simp add: ball_Un)
qed

lemma read_live_parts:
  assumes "consistent_view v"
  shows "lr_refs (fst (read_live digest v n)) = gp_named_refs (read_generation_parts v)"
    "lr_other (fst (read_live digest v n)) =
       ''head'' @ nul @ head_input (observe_live_for_generation v) n @ nul @ ''stash'' @ nul @
       di_value (stash_digest_input v) @ nul @ ''merge_ff'' @ nul @ di_value (merge_ff_digest_input v) @ nul @
       ''status'' @ nul @ status_input (observe_live_for_generation v) n"
    "lr_blind (fst (read_live digest v n)) = blind_reason (observe_live_for_generation v) (read_generation_parts v)"
proof -
  from consistent_view_refs[OF assms] obtain rs where "rv_refs v = Some (rv_head_branch v, rs)" by blast
  then have b: "gp_head_branch (read_generation_parts v) = rv_head_branch v"
    and s: "gp_stash (read_generation_parts v) = stash_digest_input v"
    "gp_merge_ff (read_generation_parts v) = merge_ff_digest_input v"
    by (simp_all add: read_generation_parts_def refs_reading_def)
  have o: "(observe_live_for_feed v)\<lparr>ob_head_branch := rv_head_branch v\<rparr> = observe_live_for_generation v"
    by (simp add: observe_live_for_generation_def)
  show "lr_refs (fst (read_live digest v n)) = gp_named_refs (read_generation_parts v)"
    "lr_other (fst (read_live digest v n)) =
       ''head'' @ nul @ head_input (observe_live_for_generation v) n @ nul @ ''stash'' @ nul @
       di_value (stash_digest_input v) @ nul @ ''merge_ff'' @ nul @ di_value (merge_ff_digest_input v) @ nul @
       ''status'' @ nul @ status_input (observe_live_for_generation v) n"
    "lr_blind (fst (read_live digest v n)) = blind_reason (observe_live_for_generation v) (read_generation_parts v)"
    unfolding read_live_def b o s Let_def
    by (simp_all add: split_beta head_input_def status_input_def observed_reading)
qed

lemma nonce_irrelevant:
  assumes "readable v"
  shows "head_input (observe_live_for_generation v) n = head_input (observe_live_for_generation v) 0"
    "status_input (observe_live_for_generation v) n = status_input (observe_live_for_generation v) 0"
  using readableD(1,2)[OF assms]
  by (cases "ob_head_tip (observe_live_for_generation v)"; cases "ob_status (observe_live_for_generation v)";
      simp add: head_input_def status_input_def)+

lemma head_input_nul:
  assumes "consistent_view v" "readable v"
  shows "\<exists>b t. head_input (observe_live_for_generation v) 0 = b @ nul @ t \<and> nul_free b \<and> nul_free t"
proof -
  have out: "nul_free out" if "rv_run v args = Exited code out err" for args code out err
    using assms(1) that unfolding consistent_view_def by blast
  have b: "nul_free (or_empty (rv_head_branch v))"
    using assms(1) by (cases "rv_head_branch v") (simp_all add: consistent_view_def or_empty_def nul_free_def)
  have "nul_free (fst (digest_field (from_read (rev_parse v ''HEAD'')) 0))"
  proof (cases "from_read (rev_parse v ''HEAD'')")
    case (Known i)
    then obtain code so err where "rv_run v [''rev-parse'', ''--verify'', ''--quiet'', ''HEAD'' @ ''^{commit}''] = Exited code so err"
      "verified_id code so = Some i"
      by (auto simp: from_read_def rev_parse_def split: git_run.splits option.splits)
    with out have "nul_free i" using verified_id_nul_free by blast
    with Known show ?thesis by (simp add: nul_free_def)
  next
    case Absent
    then show ?thesis by (simp add: nul_free_def)
  next
    case Unknown
    with readableD(1)[OF assms(2)] show ?thesis
      by (simp add: observe_live_for_generation_def observe_live_for_feed_def)
  qed
  with b show ?thesis
    by (intro exI[of _ "or_empty (rv_head_branch v)"] exI)
      (simp add: head_input_def observe_live_for_generation_def observe_live_for_feed_def)
qed

lemma same_reading_other:
  assumes "consistent_view v" "consistent_view w" "readable v" "readable w"
  shows "lr_other (fst (read_live digest v m)) = lr_other (fst (read_live digest w n)) \<longleftrightarrow>
    head_input (observe_live_for_generation v) 0 = head_input (observe_live_for_generation w) 0 \<and>
    di_value (stash_digest_input v) = di_value (stash_digest_input w) \<and>
    di_value (merge_ff_digest_input v) = di_value (merge_ff_digest_input w) \<and>
    status_input (observe_live_for_generation v) 0 = status_input (observe_live_for_generation w) 0"
proof -
  note inj = append_sep_inject[of "CHR 0x00", folded nul_free_def]
  let ?h = "\<lambda>v. head_input (observe_live_for_generation v) 0"
  from head_input_nul[OF assms(1,3)] obtain b t where bt: "?h v = b @ nul @ t" "nul_free b" "nul_free t" by blast
  from head_input_nul[OF assms(2,4)] obtain c u where cu: "?h w = c @ nul @ u" "nul_free c" "nul_free u" by blast
  have h: "?h v @ nul @ x = ?h w @ nul @ y \<longleftrightarrow> ?h v = ?h w \<and> x = y" for x y
    using inj[OF bt(2) cu(2), of "t @ nul @ x" "u @ nul @ y"] inj[OF bt(3) cu(3), of x y]
      inj[OF bt(2) cu(2), of t u] unfolding bt(1) cu(1) by auto
  note st = tagged_inject[OF stash_tagged[OF assms(1) readableD(3)[OF assms(3)]] stash_tagged[OF assms(2) readableD(3)[OF assms(4)]]]
  note mf = tagged_inject[OF merge_ff_tagged[OF assms(1) readableD(4)[OF assms(3)]] merge_ff_tagged[OF assms(2) readableD(4)[OF assms(4)]]]
  show ?thesis
    unfolding read_live_parts(2)[OF assms(1)] read_live_parts(2)[OF assms(2)]
      nonce_irrelevant[OF assms(3), of m] nonce_irrelevant[OF assms(4), of n]
    by (simp only: same_append_eq h st mf)
qed

text \<open>
  C25: the change feed and the staleness gate never disagree. For two readable instants of a
  repository, the reading the feed publishes (the named refs, and everything else) is the same at
  both exactly when the gate, run at the second, finds the generation of a plan built at the first.
  What is assumed: the hash does not collide on the two byte strings, and no field is 2 ^ 64 bytes
  long.
\<close>

theorem feed_agrees_with_gate:
  assumes "consistent_view v" "consistent_view w"
    and "lr_blind (fst (read_live digest v m)) = None" "lr_blind (fst (read_live digest w n)) = None"
    and "\<forall>(k, x) \<in> set (gate_inputs v) \<union> set (gate_inputs w). fits k \<and> fits x"
    and "inj_on digest {generation_preimage (gate_inputs v), generation_preimage (gate_inputs w)}"
  shows "lr_refs (fst (read_live digest v m)) = lr_refs (fst (read_live digest w n)) \<and>
      lr_other (fst (read_live digest v m)) = lr_other (fst (read_live digest w n)) \<longleftrightarrow>
    fst (generation_token digest w (observe_live w op) j) =
      fst (generation_token digest v (observe_operation v op) k)"
proof -
  from assms(3,4) have r: "readable v" "readable w"
    using assms(1,2) by (simp_all add: read_live_parts readable_def)
  have "fst (generation_token digest w (observe_live w op) j) = fst (generation_token digest v (observe_operation v op) k) \<longleftrightarrow>
      digest (generation_preimage (gate_inputs v)) = digest (generation_preimage (gate_inputs w))"
    unfolding gate_token(1)[OF r(1)] gate_token(2)[OF r(2)] show_u64_inject by (rule eq_commute)
  also have "\<dots> \<longleftrightarrow> generation_preimage (gate_inputs v) = generation_preimage (gate_inputs w)"
    by (rule inj_on_eq_iff[OF assms(6)]) blast+
  also have "\<dots> \<longleftrightarrow> same_reading (observe_live_for_generation v) (read_generation_parts v)
      (observe_live_for_generation w) (read_generation_parts w)"
    by (rule gate_preimage_same[OF assms(1,2) r assms(5)])
  also have "\<dots> \<longleftrightarrow> lr_refs (fst (read_live digest v m)) = lr_refs (fst (read_live digest w n)) \<and>
      lr_other (fst (read_live digest v m)) = lr_other (fst (read_live digest w n))"
    unfolding same_reading_other[OF assms(1,2) r] read_live_parts(1)[OF assms(1)] read_live_parts(1)[OF assms(2)]
      named_refs_same[OF assms(1,2)]
    using head_input_same[OF digestible_view[OF assms(1)] digestible_view[OF assms(2)], of 0 1]
      status_input_same[of "observe_live_for_generation v" "observe_live_for_generation w" 0 1]
      nonce_irrelevant[OF r(2), of 1]
    by (auto simp: same_reading_def read_generation_parts_def split_beta)
  finally show ?thesis by blast
qed

text \<open>A repository with one branch, at two instants between which the branch moved.\<close>

definition sample_view :: "string \<Rightarrow> repo_view" where
  "sample_view tgt =
     \<lparr>rv_run = (\<lambda>args. if args = [''rev-parse'', ''--verify'', ''--quiet'', ''HEAD^{commit}''] then Exited (Some 0) ''0a'' []
                      else if args = [''status'', ''--porcelain=v2''] then Exited (Some 0) [] []
                      else Exited (Some 1) [] []),
      rv_head_branch = Some ''m'',
      rv_refs = Some (Some ''m'', [\<lparr>ref_name = ''m'', ref_kind = Branch, ref_target = tgt\<rparr>]),
      rv_census = sample_env, rv_expose_paths = False, rv_seed = None, rv_now = 0\<rparr>"

lemma sample_view_consistent: "consistent_view (sample_view tgt)"
  by (auto simp: consistent_view_def sample_view_def nul_free_def)

lemma sample_view_head: "from_read (rev_parse (sample_view tgt) ''HEAD'') = Known ''0a''"
  by (simp add: rev_parse_def sample_view_def verified_id_def from_read_def) code_simp

lemma sample_view_parts: "read_generation_parts (sample_view tgt) =
    \<lparr>gp_head_branch = Some ''m'', gp_refs = [(''ref:Branch:m'', tgt)], gp_named_refs = [''refs/heads/m'' \<mapsto> tgt],
     gp_refs_read = True, gp_stash = \<lparr>di_value = ''absent'', di_read = True\<rparr>,
     gp_merge_ff = \<lparr>di_value = ''absent'', di_read = True\<rparr>\<rparr>"
  by (simp add: read_generation_parts_def refs_reading_def sample_view_def digest_ref_key_def full_ref_name_def
      stash_digest_input_def merge_ff_digest_input_def rev_parse_ref_unpeeled_def verified_id_def)

lemma sample_view_status: "worktree_status (sample_view tgt) = Known []"
  by (simp add: worktree_status_def sample_view_def)

lemma sample_view_inputs: "gate_inputs (sample_view tgt) =
    [(''head'', ''m'' @ nul @ ''known:0a''), (''ref:Branch:m'', tgt), (''stash'', ''absent''),
     (''merge_ff'', ''absent''), (''status'', ''known:'')]"
  by (simp add: fold_inputs_def observe_live_for_generation_def observe_live_for_feed_def sample_view_head
      sample_view_status sample_view_parts or_empty_def) (simp add: sample_view_def)

definition view_digest :: "string \<Rightarrow> u64" where
  "view_digest s = (if s = generation_preimage (gate_inputs (sample_view ''0a'')) then 0 else 1)"

lemma feed_agrees_with_gate_witness:
  "fst (generation_token view_digest (sample_view ''0b'') (observe_live (sample_view ''0b'') StageAll) 0) \<noteq>
   fst (generation_token view_digest (sample_view ''0a'') (observe_operation (sample_view ''0a'') StageAll) 0)"
proof -
  let ?v = "sample_view ''0a''" and ?w = "sample_view ''0b''"
  have blind: "lr_blind (fst (read_live view_digest (sample_view tgt) 0)) = None" for tgt
    unfolding read_live_parts[OF sample_view_consistent] sample_view_parts
    by (simp add: blind_reason_def observe_live_for_generation_def observe_live_for_feed_def sample_view_head
        sample_view_status)
  have fit: "\<forall>(k, x) \<in> set (gate_inputs ?v) \<union> set (gate_inputs ?w). fits k \<and> fits x"
    unfolding sample_view_inputs by simp
  have inj: "inj_on view_digest {generation_preimage (gate_inputs ?v), generation_preimage (gate_inputs ?w)}"
    by (auto simp: inj_on_def view_digest_def split: if_splits)
  have "lr_refs (fst (read_live view_digest ?v 0)) \<noteq> lr_refs (fst (read_live view_digest ?w 0))"
    unfolding read_live_parts[OF sample_view_consistent] sample_view_parts by (simp add: fun_eq_iff)
  with feed_agrees_with_gate[OF sample_view_consistent sample_view_consistent blind blind fit inj]
  show ?thesis by blast
qed

end
