(* ===== verification/Plan_Shape.thy ===== *)
theory Plan_Shape imports Generation begin

text \<open>
  How the planner (\<open>crates/git-vista-server/src/planner.rs\<close>) shapes a plan: for each operation the
  risk, the preconditions, the ref changes a reviewer is shown and the recovery, computed from the
  operation and one observation of the repository; the advisories of a push; and \<open>build_plan\<close>, which
  puts them together. SHA-256 over the serialized operation is the parameter \<open>op_hash\<close>.
\<close>

subsection \<open>Names built from names\<close>

definition ok_of :: "'e + 'a \<Rightarrow> 'a option" where
  "ok_of r = (case r of Inl e \<Rightarrow> None | Inr x \<Rightarrow> Some x)"

definition heads :: "branch_name \<Rightarrow> ref_name option" where
  "heads branch = ok_of (ref_name_new (''refs/heads/'' @ branch))"

definition tags :: "tag_name \<Rightarrow> ref_name option" where
  "tags tag = ok_of (ref_name_new (''refs/tags/'' @ tag))"

definition oid_of :: "string observation \<Rightarrow> commit_oid option" where
  "oid_of ob = Option.bind (known ob) (\<lambda>s. ok_of (commit_oid_new s))"

text \<open>The pieces of the checked-out branch that most shapes want.\<close>

definition head_name :: "observed \<Rightarrow> branch_name option" where
  "head_name ob = Option.bind (ob_head_branch ob) (\<lambda>b. ok_of (branch_name_new b))"

definition head_ref :: "observed \<Rightarrow> ref_name option" where
  "head_ref ob = Option.bind (head_name ob) heads"

definition head_oid :: "observed \<Rightarrow> commit_oid option" where
  "head_oid ob = oid_of (ob_head_tip ob)"

fun opt_list :: "'a option \<Rightarrow> 'a list" where
  "opt_list None = []"
| "opt_list (Some x) = [x]"

definition ref_moves :: "ref_name \<Rightarrow> ref_state \<Rightarrow> ref_state \<Rightarrow> ref_change" where
  "ref_moves name before after = \<lparr>rch_ref_name = name, rch_before = before, rch_after = after\<rparr>"

type_synonym review = "risk_level \<times> precondition list \<times> ref_change list \<times> recovery_strategy"

subsection \<open>The shapes\<close>

definition head_moves ::
  "observed \<Rightarrow> precondition option \<Rightarrow> precondition list \<times> ref_change list \<times> recovery_strategy" where
  "head_moves ob extra =
     (map BranchCheckedOut (opt_list (head_name ob)) @ opt_list extra,
      (case (head_ref ob, head_oid ob) of
         (Some r, Some t) \<Rightarrow> [ref_moves r (Ref_At t) Ref_Computed]
       | _ \<Rightarrow> []),
      (case (head_ref ob, head_oid ob) of
         (Some r, Some t) \<Rightarrow> Rec_ResetRef r t
       | _ \<Rightarrow> Rec_NotNeeded))"

text \<open>HEAD's own state before it is moved: the branch it names, or the commit it sits on.\<close>

definition head_before :: "observed \<Rightarrow> ref_state option" where
  "head_before ob =
     (case (head_ref ob, head_oid ob) of
        (Some r, _) \<Rightarrow> Some (Ref_Symbolic r)
      | (None, Some t) \<Rightarrow> Some (Ref_At t)
      | (None, None) \<Rightarrow> None)"

definition shape_branch_from_stash :: "branch_name \<Rightarrow> commit_oid \<Rightarrow> review" where
  "shape_branch_from_stash name expected_oid =
     (Risk_Destructive, map RefAbsent (opt_list (heads name)), [], Rec_RecreateStashEntry expected_oid None)"

definition shape_drop_stash :: "commit_oid \<Rightarrow> review" where
  "shape_drop_stash expected_oid = (Risk_Destructive, [], [], Rec_RecreateStashEntry expected_oid None)"

definition shape_create_branch :: "branch_name \<Rightarrow> commit_oid \<Rightarrow> review" where
  "shape_create_branch name at =
     (Risk_Reversible, map RefAbsent (opt_list (heads name)),
      map (\<lambda>r. ref_moves r Ref_Absent (Ref_At at)) (opt_list (heads name)), Rec_DeleteCreatedBranch name)"

definition with_risk ::
  "risk_level \<Rightarrow> precondition list \<times> ref_change list \<times> recovery_strategy \<Rightarrow> review" where
  "with_risk risk s = (case s of (preconditions, changes, recovery) \<Rightarrow> (risk, preconditions, changes, recovery))"

definition shape_empty_commit_on_branch :: "branch_name \<Rightarrow> commit_oid \<Rightarrow> review" where
  "shape_empty_commit_on_branch branch expected_tip =
     (Risk_Reversible,
      BranchNotCheckedOut branch # map (\<lambda>r. RefAt r expected_tip) (opt_list (heads branch)),
      map (\<lambda>r. ref_moves r (Ref_At expected_tip) Ref_Computed) (opt_list (heads branch)),
      (case heads branch of Some r \<Rightarrow> Rec_ResetRef r expected_tip | None \<Rightarrow> Rec_NotNeeded))"

definition shape_add_worktree :: "branch_name \<Rightarrow> review" where
  "shape_add_worktree branch =
     (Risk_Safe,
      [BranchNotCheckedOut branch, BranchFreeInEveryOtherWorktree branch] @ map RefExists (opt_list (heads branch)),
      [], Rec_NotNeeded)"

definition shape_checkout_branch :: "observed \<Rightarrow> branch_name \<Rightarrow> review" where
  "shape_checkout_branch ob branch =
     (Risk_Safe,
      map RefExists (opt_list (heads branch)) @ [BranchFreeInEveryOtherWorktree branch],
      (case (head_before ob, heads branch) of
         (Some before, Some t) \<Rightarrow> [ref_moves ''HEAD'' before (Ref_Symbolic t)]
       | _ \<Rightarrow> []),
      (case head_name ob of
         Some previous \<Rightarrow> Rec_CheckoutPrevious previous
       | None \<Rightarrow> Rec_NotNeeded))"

definition shape_merge_branch :: "observed \<Rightarrow> review" where
  "shape_merge_branch ob =
     with_risk Risk_Reversible
       (head_moves ob
          (case (head_ref ob, head_oid ob) of (Some r, Some t) \<Rightarrow> Some (RefAt r t) | _ \<Rightarrow> None))"

definition shape_push_branch ::
  "repo_view \<Rightarrow> branch_name \<Rightarrow> remote_name \<Rightarrow> force_publish \<Rightarrow> review" where
  "shape_push_branch v branch remote force =
     (let tracking = ok_of (ref_name_new (''refs/remotes/'' @ remote @ ''/'' @ branch));
          lease = (case force of Force_None \<Rightarrow> None | With_Lease tip \<Rightarrow> Some tip);
          remote_tip = from_read (rev_parse v (remote @ ''/'' @ branch));
          local_tip = from_read (rev_parse v branch);
          before = (case remote_tip of
                      Known t \<Rightarrow> map_option Ref_At (oid_of remote_tip)
                    | Absent \<Rightarrow> Some Ref_Absent
                    | Unknown \<Rightarrow> None)
      in ((case force of Force_None \<Rightarrow> Risk_Remote | With_Lease tip \<Rightarrow> Risk_Destructive),
          [RemoteConfigured remote] @ map RefExists (opt_list (heads branch)) @
            (case (lease, tracking) of (Some oid, Some r) \<Rightarrow> [RefAt r oid] | _ \<Rightarrow> []),
          (case (tracking, oid_of local_tip, before) of
             (Some r, Some tip, Some b) \<Rightarrow> [ref_moves r b (Ref_At tip)]
           | _ \<Rightarrow> []),
          Rec_Irrecoverable))"

text \<open>A ref that is deleted: a compare-and-swap when its value was observed.\<close>

definition deletes_ref :: "ref_name option \<Rightarrow> commit_oid option \<Rightarrow> precondition list \<times> ref_change list" where
  "deletes_ref tgt tip =
     ((case (tgt, tip) of
         (Some r, Some t) \<Rightarrow> [RefAt r t]
       | (Some r, None) \<Rightarrow> [RefExists r]
       | (None, _) \<Rightarrow> []),
      (case (tgt, tip) of
         (Some r, Some t) \<Rightarrow> [ref_moves r (Ref_At t) Ref_Absent]
       | _ \<Rightarrow> []))"

definition shape_delete_branch :: "observed \<Rightarrow> risk_level \<Rightarrow> branch_name \<Rightarrow> review" where
  "shape_delete_branch ob risk branch =
     (let tip = oid_of (ob_branch_tip ob); (preconditions, changes) = deletes_ref (heads branch) tip in
      (risk, preconditions, changes,
       (case tip of Some at \<Rightarrow> Rec_RecreateBranch branch at | None \<Rightarrow> Rec_NotNeeded)))"

definition shape_rebase_onto_base :: "observed \<Rightarrow> ref_name \<Rightarrow> review" where
  "shape_rebase_onto_base ob base =
     (let base_full = (if contains ''/'' base then ok_of (ref_name_new (''refs/remotes/'' @ base))
                       else ok_of (ref_name_new (''refs/heads/'' @ base)))
      in with_risk Risk_Reversible (head_moves ob (map_option RefExists base_full)))"

definition shape_restore_branch :: "branch_name \<Rightarrow> commit_oid \<Rightarrow> review" where
  "shape_restore_branch name tip =
     (Risk_Reversible, map RefAbsent (opt_list (heads name)),
      map (\<lambda>r. ref_moves r Ref_Absent (Ref_At tip)) (opt_list (heads name)), Rec_DeleteCreatedBranch name)"

definition shape_reset_branch ::
  "observed \<Rightarrow> branch_name \<Rightarrow> commit_oid \<Rightarrow> commit_oid \<Rightarrow> review" where
  "shape_reset_branch ob branch tgt expected_tip =
     (Risk_Destructive,
      map (\<lambda>r. RefAt r expected_tip) (opt_list (heads branch)) @
        (if ob_head_branch ob = Some branch then [CleanWorktree] else []),
      map (\<lambda>r. ref_moves r (Ref_At expected_tip) (Ref_At tgt)) (opt_list (heads branch)),
      (case heads branch of Some r \<Rightarrow> Rec_ResetRef r expected_tip | None \<Rightarrow> Rec_NotNeeded))"

definition shape_bisect_start :: "observed \<Rightarrow> review" where
  "shape_bisect_start ob =
     (Risk_Reversible, [],
      (case head_before ob of Some before \<Rightarrow> [ref_moves ''HEAD'' before Ref_Computed] | None \<Rightarrow> []),
      Rec_BisectReset)"

definition head_at_moves :: "observed \<Rightarrow> ref_change list" where
  "head_at_moves ob =
     (case head_oid ob of Some t \<Rightarrow> [ref_moves ''HEAD'' (Ref_At t) Ref_Computed] | None \<Rightarrow> [])"

definition shape_bisect_mark :: "observed \<Rightarrow> review" where
  "shape_bisect_mark ob = (Risk_Reversible, [], head_at_moves ob, Rec_BisectReset)"

definition shape_bisect_reset :: "observed \<Rightarrow> review" where
  "shape_bisect_reset ob = (Risk_Reversible, [], head_at_moves ob, Rec_NotNeeded)"

text \<open>\<open>RevertCommit\<close> and \<open>RevertMerge\<close>: the shape of a commit on HEAD, undone by another revert.\<close>

definition shape_revert :: "observed \<Rightarrow> commit_oid \<Rightarrow> review" where
  "shape_revert ob commit =
     (case head_moves ob None of (preconditions, changes, recovery) \<Rightarrow>
        (Risk_Reversible, preconditions, changes, Rec_RevertCommit commit))"

definition shape_amend_commit :: "observed \<Rightarrow> commit_oid \<Rightarrow> review" where
  "shape_amend_commit ob expected_tip =
     (Risk_Destructive,
      map BranchCheckedOut (opt_list (head_name ob)) @
        map (\<lambda>r. RefAt r expected_tip) (opt_list (head_ref ob)),
      map (\<lambda>r. ref_moves r (Ref_At expected_tip) Ref_Computed) (opt_list (head_ref ob)),
      (case head_ref ob of Some r \<Rightarrow> Rec_ResetRef r expected_tip | None \<Rightarrow> Rec_NotNeeded))"

definition shape_pull_branch :: "observed \<Rightarrow> remote_name \<Rightarrow> review" where
  "shape_pull_branch ob remote =
     (case head_moves ob None of (preconditions, changes, recovery) \<Rightarrow>
        (Risk_Reversible,
         preconditions @ [RemoteConfigured remote] @
           (case (head_ref ob, head_oid ob) of (Some r, Some t) \<Rightarrow> [RefAt r t] | _ \<Rightarrow> []),
         changes, recovery))"

definition shape_create_tag :: "tag_name \<Rightarrow> commit_oid \<Rightarrow> tag_annotation option \<Rightarrow> review" where
  "shape_create_tag name tgt annotation =
     (let after = (case annotation of None \<Rightarrow> Ref_At tgt | Some a \<Rightarrow> Ref_Computed) in
      (Risk_Reversible, map RefAbsent (opt_list (tags name)),
       map (\<lambda>r. ref_moves r Ref_Absent after) (opt_list (tags name)), Rec_DeleteCreatedTag name))"

definition shape_delete_local_tag :: "observed \<Rightarrow> tag_name \<Rightarrow> review" where
  "shape_delete_local_tag ob name =
     (let v = oid_of (ob_branch_tip ob); (preconditions, changes) = deletes_ref (tags name) v in
      (Risk_Destructive, preconditions, changes,
       (case v of Some at \<Rightarrow> Rec_RecreateTag name at | None \<Rightarrow> Rec_NotNeeded)))"

definition shape_push_tag :: "tag_name \<Rightarrow> remote_name \<Rightarrow> review" where
  "shape_push_tag name remote =
     (Risk_Remote, [RemoteConfigured remote] @ map RefExists (opt_list (tags name)), [], Rec_Irrecoverable)"

primrec shape_plan :: "git_operation \<Rightarrow> repo_view \<Rightarrow> observed \<Rightarrow> review" where
  "shape_plan (PushStash msg keep_index untracked) v ob = (Risk_Reversible, [], [], Rec_NotNeeded)"
| "shape_plan (ApplyStash entry expected_oid) v ob = (Risk_Reversible, [CleanWorktree], [], Rec_NotNeeded)"
| "shape_plan (BranchFromStash name entry expected_oid) v ob = shape_branch_from_stash name expected_oid"
| "shape_plan (DropStash entry expected_oid) v ob = shape_drop_stash expected_oid"
| "shape_plan (CreateBranch name at) v ob = shape_create_branch name at"
| "shape_plan (CommitOnHead msg allow_empty) v ob = with_risk Risk_Reversible (head_moves ob None)"
| "shape_plan (EmptyCommitOnBranch branch msg expected_tip) v ob = shape_empty_commit_on_branch branch expected_tip"
| "shape_plan (ResolveConflict path side) v ob = (Risk_Reversible, [], [], Rec_ConflictRecreatableWhileInProgress)"
| "shape_plan (ResolveConflictContent path stages source content) v ob =
     (Risk_Reversible, [], [], Rec_ConflictRecreatableWhileInProgress)"
| "shape_plan StageAll v ob = (Risk_Safe, [], [], Rec_NotNeeded)"
| "shape_plan UnstageAll v ob = (Risk_Safe, [], [], Rec_NotNeeded)"
| "shape_plan (StageSelection direction gen patch whole) v ob = (Risk_Safe, [], [], Rec_NotNeeded)"
| "shape_plan (AddWorktree name branch) v ob = shape_add_worktree branch"
| "shape_plan (CheckoutBranch branch) v ob = shape_checkout_branch ob branch"
| "shape_plan (MergeBranch branch) v ob = shape_merge_branch ob"
| "shape_plan (PushBranch branch remote set_upstream force) v ob = shape_push_branch v branch remote force"
| "shape_plan (DeleteBranch branch) v ob = shape_delete_branch ob Risk_Reversible branch"
| "shape_plan (ForceDeleteBranch branch) v ob = shape_delete_branch ob Risk_Destructive branch"
| "shape_plan (RebaseOntoBase base) v ob = shape_rebase_onto_base ob base"
| "shape_plan (RestoreBranch name tip) v ob = shape_restore_branch name tip"
| "shape_plan (ResetBranch branch tgt expected_tip) v ob = shape_reset_branch ob branch tgt expected_tip"
| "shape_plan (BisectStart bad good) v ob = shape_bisect_start ob"
| "shape_plan (BisectMark verdict) v ob = shape_bisect_mark ob"
| "shape_plan BisectReset v ob = shape_bisect_reset ob"
| "shape_plan SequenceContinue v ob = with_risk Risk_Reversible (head_moves ob None)"
| "shape_plan SequenceSkip v ob = with_risk Risk_Reversible (head_moves ob None)"
| "shape_plan SequenceAbort v ob = (Risk_Destructive, [], [], Rec_Irrecoverable)"
| "shape_plan (CherryPick commit) v ob = with_risk Risk_Reversible (head_moves ob (Some CleanWorktree))"
| "shape_plan (CherryPickMerge commit mainline) v ob =
     with_risk Risk_Reversible (head_moves ob (Some CleanWorktree))"
| "shape_plan (RevertMerge commit mainline) v ob = shape_revert ob commit"
| "shape_plan (RevertCommit commit) v ob = shape_revert ob commit"
| "shape_plan ResetTestRepo v ob = (Risk_Destructive, [SeedRecorded], [], Rec_Irrecoverable)"
| "shape_plan (DiscardTrackedPaths paths) v ob = (Risk_Destructive, [], [], Rec_RecoverableIfStaged)"
| "shape_plan (DeleteUntrackedPaths paths) v ob = (Risk_Destructive, [], [], Rec_Irrecoverable)"
| "shape_plan (RemoveWorktree sibling) v ob = (Risk_Destructive, [], [], Rec_Irrecoverable)"
| "shape_plan (AmendCommit msg expected_tip allow_empty) v ob = shape_amend_commit ob expected_tip"
| "shape_plan (FetchRemote remote) v ob = (Risk_Safe, [RemoteConfigured remote], [], Rec_NotNeeded)"
| "shape_plan (PullBranch remote branch strategy) v ob = shape_pull_branch ob remote"
| "shape_plan (CreateTag name tgt annotation) v ob = shape_create_tag name tgt annotation"
| "shape_plan (DeleteLocalTag name) v ob = shape_delete_local_tag ob name"
| "shape_plan (DeleteRemoteTag name remote) v ob =
     (Risk_Destructive, [RemoteConfigured remote], [], Rec_Irrecoverable)"
| "shape_plan (PushTag name remote) v ob = shape_push_tag name remote"

subsection \<open>Advisories\<close>

definition default_branch_of :: "repo_view \<Rightarrow> remote_name \<Rightarrow> string + string option" where
  "default_branch_of v remote =
     (case rv_run v [''symbolic-ref'', ''--quiet'', ''--short'', ''refs/remotes/'' @ remote @ ''/HEAD''] of
        No_Sandbox e \<Rightarrow> Inl (''couldn't run git symbolic-ref: '' @ e)
      | No_Spawn e \<Rightarrow> Inl (''couldn't run git symbolic-ref: '' @ e)
      | Exited code stdout stderr \<Rightarrow>
          if code \<noteq> Some 0 then Inr None
          else Inr (case strip_prefix (remote @ ''/'') (trim (utf8_lossy stdout)) of
                      Some b \<Rightarrow> if b = [] then None else Some b
                    | None \<Rightarrow> None))"

definition advisories_for :: "repo_view \<Rightarrow> git_operation \<Rightarrow> advisory list" where
  "advisories_for v op =
     (case op of
        PushBranch branch remote set_upstream (With_Lease tip) \<Rightarrow>
          [RemoteHistoryReplaced branch remote] @
          (case default_branch_of v remote of
             Inr (Some d) \<Rightarrow> if d = branch then [DefaultBranchPush branch remote] else []
           | Inr None \<Rightarrow>
               [DefaultBranchUnknown
                  (remote @ '' does not record a default branch (no refs/remotes/'' @ remote @
                   ''/HEAD), so this plan cannot tell you whether '' @ branch @ '' is it'')]
           | Inl why \<Rightarrow>
               [DefaultBranchUnknown (''the default branch could not be read '' @ em_dash @ '' '' @ why)])
      | _ \<Rightarrow> [])"

subsection \<open>Every field of a shape is a value of its newtype\<close>

primrec wf_ref_state :: "ref_state \<Rightarrow> bool" where
  "wf_ref_state Ref_Absent = True"
| "wf_ref_state (Ref_At t) = is_valid commit_oid_new t"
| "wf_ref_state (Ref_Symbolic r) = is_valid ref_name_new r"
| "wf_ref_state Ref_Computed = True"

definition wf_ref_change :: "ref_change \<Rightarrow> bool" where
  "wf_ref_change c \<longleftrightarrow>
     is_valid ref_name_new (rch_ref_name c) \<and> wf_ref_state (rch_before c) \<and> wf_ref_state (rch_after c)"

primrec wf_precondition :: "precondition \<Rightarrow> bool" where
  "wf_precondition (RefAt r t) = (is_valid ref_name_new r \<and> is_valid commit_oid_new t)"
| "wf_precondition (RefExists r) = is_valid ref_name_new r"
| "wf_precondition (RefAbsent r) = is_valid ref_name_new r"
| "wf_precondition (BranchCheckedOut b) = is_valid branch_name_new b"
| "wf_precondition (BranchNotCheckedOut b) = is_valid branch_name_new b"
| "wf_precondition CleanWorktree = True"
| "wf_precondition (RemoteConfigured r) = is_valid remote_name_new r"
| "wf_precondition SeedRecorded = True"
| "wf_precondition (BranchFreeInEveryOtherWorktree b) = is_valid branch_name_new b"

primrec wf_recovery :: "recovery_strategy \<Rightarrow> bool" where
  "wf_recovery Rec_NotNeeded = True"
| "wf_recovery (Rec_ResetRef r t) = (is_valid ref_name_new r \<and> is_valid commit_oid_new t)"
| "wf_recovery (Rec_RecreateBranch b t) = (is_valid branch_name_new b \<and> is_valid commit_oid_new t)"
| "wf_recovery (Rec_DeleteCreatedBranch b) = is_valid branch_name_new b"
| "wf_recovery (Rec_RecreateTag n t) = (is_valid tag_name_new n \<and> is_valid commit_oid_new t)"
| "wf_recovery (Rec_RecreateStashEntry t m) =
     (is_valid commit_oid_new t \<and> pred_option (is_valid stash_message_new) m)"
| "wf_recovery (Rec_DeleteCreatedTag n) = is_valid tag_name_new n"
| "wf_recovery (Rec_CheckoutPrevious b) = is_valid branch_name_new b"
| "wf_recovery (Rec_RevertCommit c) = is_valid commit_oid_new c"
| "wf_recovery Rec_RecoverableIfStaged = True"
| "wf_recovery Rec_ConflictRecreatableWhileInProgress = True"
| "wf_recovery Rec_BisectReset = True"
| "wf_recovery Rec_Irrecoverable = True"

definition wf_review :: "review \<Rightarrow> bool" where
  "wf_review s = (case s of (risk, preconditions, changes, recovery) \<Rightarrow>
     list_all wf_precondition preconditions \<and> list_all wf_ref_change changes \<and> wf_recovery recovery)"

lemma ok_of_Some: "ok_of r = Some x \<longleftrightarrow> r = Inr x"
  by (cases r) (auto simp: ok_of_def)

lemma validated_same: "validated c s = Inr x \<Longrightarrow> x = s \<and> validated c x = Inr x"
  by (auto simp: validated_def split: sum.splits)

lemma ok_of_valid:
  "ok_of (ref_name_new s) = Some r \<Longrightarrow> is_valid ref_name_new r \<and> r = s"
  "ok_of (branch_name_new s) = Some b \<Longrightarrow> is_valid branch_name_new b \<and> b = s"
  "ok_of (commit_oid_new s) = Some t \<Longrightarrow> is_valid commit_oid_new t \<and> t = s"
  by (auto simp: ok_of_Some is_valid_def ref_name_new_def branch_name_new_def commit_oid_new_def
      dest: validated_same)

lemma heads_valid: "heads b = Some r \<Longrightarrow> is_valid ref_name_new r"
  and tags_valid: "tags n = Some r \<Longrightarrow> is_valid ref_name_new r"
  and oid_of_valid: "oid_of x = Some t \<Longrightarrow> is_valid commit_oid_new t"
  and head_name_valid: "head_name ob = Some b \<Longrightarrow> is_valid branch_name_new b"
  and head_ref_valid: "head_ref ob = Some r \<Longrightarrow> is_valid ref_name_new r"
  and head_oid_valid: "head_oid ob = Some t \<Longrightarrow> is_valid commit_oid_new t"
  unfolding heads_def tags_def oid_of_def head_name_def head_ref_def head_oid_def
  by (auto dest: ok_of_valid split: bind_splits)

lemma head_literal_valid: "is_valid ref_name_new ''HEAD''"
  by code_simp

lemmas valid_parts = heads_valid tags_valid oid_of_valid head_name_valid head_ref_valid head_oid_valid
  ok_of_valid[THEN conjunct1]

lemma head_moves_valid:
  assumes "pred_option wf_precondition extra"
  shows "wf_review (with_risk risk (head_moves ob extra))"
  using assms
  by (cases "head_name ob"; cases "head_ref ob"; cases "head_oid ob"; cases extra)
    (auto simp: wf_review_def with_risk_def head_moves_def wf_ref_change_def ref_moves_def dest: valid_parts)

lemma head_before_valid: "head_before ob = Some s \<Longrightarrow> wf_ref_state s"
  by (auto simp: head_before_def dest: valid_parts split: option.splits)

named_theorems shape_simps "the definitions of the shapes and of their validity"

lemmas [shape_simps] = wf_review_def wf_ref_change_def ref_moves_def with_risk_def deletes_ref_def
  shape_branch_from_stash_def shape_drop_stash_def shape_create_branch_def shape_empty_commit_on_branch_def
  shape_add_worktree_def shape_restore_branch_def shape_reset_branch_def shape_amend_commit_def
  shape_create_tag_def shape_push_tag_def Let_def

lemma opt_list_all: "list_all P (opt_list x) \<longleftrightarrow> pred_option P x"
  by (cases x) auto

lemma pred_optionI: "(\<And>y. x = Some y \<Longrightarrow> P y) \<Longrightarrow> pred_option P x"
  by (cases x) auto

lemma shape_checkout_branch_valid:
  assumes "is_valid branch_name_new branch"
  shows "wf_review (shape_checkout_branch ob branch)"
  using assms head_literal_valid
  by (auto simp: shape_checkout_branch_def wf_review_def wf_ref_change_def ref_moves_def opt_list_all list.pred_map comp_def
      intro!: pred_optionI dest: valid_parts head_before_valid split: option.splits)

lemma shape_push_branch_valid:
  assumes "is_valid branch_name_new branch" "is_valid remote_name_new remote" "wf_force force"
  shows "wf_review (shape_push_branch v branch remote force)"
  using assms
  by (auto simp: shape_push_branch_def shape_simps opt_list_all list.pred_map comp_def
      intro!: pred_optionI dest: valid_parts split: option.splits force_publish.splits observation.splits)

lemma shape_delete_branch_valid:
  "is_valid branch_name_new branch \<Longrightarrow> wf_review (shape_delete_branch ob risk branch)"
  by (cases "heads branch"; cases "oid_of (ob_branch_tip ob)")
    (auto simp: shape_delete_branch_def shape_simps dest: valid_parts)

lemma shape_delete_local_tag_valid:
  "is_valid tag_name_new name \<Longrightarrow> wf_review (shape_delete_local_tag ob name)"
  by (cases "tags name"; cases "oid_of (ob_branch_tip ob)")
    (auto simp: shape_delete_local_tag_def shape_simps dest: valid_parts)

lemma shape_merge_branch_valid: "wf_review (shape_merge_branch ob)"
  unfolding shape_merge_branch_def
  by (rule head_moves_valid) (auto dest: valid_parts split: option.splits)

lemma shape_rebase_onto_base_valid: "wf_review (shape_rebase_onto_base ob base)"
  unfolding shape_rebase_onto_base_def Let_def
  by (rule head_moves_valid) (auto intro!: pred_optionI dest: valid_parts)

lemma shape_revert_valid: "is_valid commit_oid_new commit \<Longrightarrow> wf_review (shape_revert ob commit)"
  using head_moves_valid[of None Risk_Reversible ob]
  by (simp add: shape_revert_def wf_review_def with_risk_def split: prod.splits)

lemma shape_pull_branch_valid: "is_valid remote_name_new remote \<Longrightarrow> wf_review (shape_pull_branch ob remote)"
  using head_moves_valid[of None Risk_Reversible ob]
  by (auto simp: shape_pull_branch_def wf_review_def with_risk_def dest: valid_parts split: prod.splits option.splits)

lemma shape_bisect_valid:
  "wf_review (shape_bisect_start ob)" "wf_review (shape_bisect_mark ob)" "wf_review (shape_bisect_reset ob)"
  using head_literal_valid
  by (auto simp: shape_bisect_start_def shape_bisect_mark_def shape_bisect_reset_def head_at_moves_def shape_simps
      dest: valid_parts head_before_valid split: option.splits)

lemma shape_ref_op_valid:
  "is_valid branch_name_new b \<Longrightarrow> is_valid commit_oid_new t \<Longrightarrow> wf_review (shape_create_branch b t)"
  "is_valid branch_name_new b \<Longrightarrow> is_valid commit_oid_new t \<Longrightarrow> wf_review (shape_restore_branch b t)"
  "is_valid branch_name_new b \<Longrightarrow> is_valid commit_oid_new t \<Longrightarrow> wf_review (shape_empty_commit_on_branch b t)"
  "is_valid branch_name_new b \<Longrightarrow> is_valid commit_oid_new t \<Longrightarrow> wf_review (shape_branch_from_stash b t)"
  "is_valid branch_name_new b \<Longrightarrow> is_valid commit_oid_new t \<Longrightarrow> is_valid commit_oid_new u \<Longrightarrow>
     wf_review (shape_reset_branch ob b u t)"
  "is_valid branch_name_new b \<Longrightarrow> wf_review (shape_add_worktree b)"
  by (cases "heads b"; auto simp: shape_simps dest: valid_parts)+

lemma shape_head_op_valid:
  "is_valid commit_oid_new t \<Longrightarrow> wf_review (shape_amend_commit ob t)"
  by (cases "head_name ob"; cases "head_ref ob") (auto simp: shape_simps dest: valid_parts)

lemma shape_tag_op_valid:
  "is_valid tag_name_new n \<Longrightarrow> is_valid commit_oid_new t \<Longrightarrow> wf_review (shape_create_tag n t a)"
  "is_valid remote_name_new r \<Longrightarrow> wf_review (shape_push_tag n r)"
  "is_valid commit_oid_new t \<Longrightarrow> wf_review (shape_drop_stash t)"
  by (cases "tags n"; auto simp: shape_simps dest: valid_parts split: option.splits)+

lemma shape_plan_valid:
  "wf_operation op \<Longrightarrow> wf_review (shape_plan op v ob)"
  by (cases op)
    (auto simp: wf_review_def[of "(a, b)" for a b] intro: head_moves_valid shape_ref_op_valid shape_head_op_valid
      shape_tag_op_valid shape_bisect_valid shape_pull_branch_valid shape_revert_valid shape_rebase_onto_base_valid
      shape_merge_branch_valid shape_delete_local_tag_valid shape_delete_branch_valid shape_push_branch_valid
      shape_checkout_branch_valid)

subsection \<open>Recoveries undo what the plan expects to move\<close>

text \<open>
  A ref store: what each ref points at, an object or (a symbolic ref) another ref. \<open>undo_refs\<close> is
  the effect on it of the recoveries that are about refs, as \<open>RecoveryStrategy\<close> documents them:
  the ref is moved back, created again, deleted, or HEAD is put back on a branch.
\<close>

datatype ref_target = Points_At commit_oid | Points_To ref_name

type_synonym ref_store = "ref_name \<rightharpoonup> ref_target"

primrec state_holds :: "ref_state \<Rightarrow> ref_target option \<Rightarrow> bool" where
  "state_holds Ref_Absent x = (x = None)"
| "state_holds (Ref_At t) x = (x = Some (Points_At t))"
| "state_holds (Ref_Symbolic r) x = (x = Some (Points_To r))"
| "state_holds Ref_Computed x = True"

fun undo_refs :: "recovery_strategy \<Rightarrow> ref_store \<Rightarrow> ref_store option" where
  "undo_refs (Rec_ResetRef r t) s = Some (s(r \<mapsto> Points_At t))"
| "undo_refs (Rec_RecreateBranch b t) s = Some (s(''refs/heads/'' @ b \<mapsto> Points_At t))"
| "undo_refs (Rec_DeleteCreatedBranch b) s = Some (s(''refs/heads/'' @ b := None))"
| "undo_refs (Rec_RecreateTag n t) s = Some (s(''refs/tags/'' @ n \<mapsto> Points_At t))"
| "undo_refs (Rec_DeleteCreatedTag n) s = Some (s(''refs/tags/'' @ n := None))"
| "undo_refs (Rec_CheckoutPrevious b) s = Some (s(''HEAD'' \<mapsto> Points_To (''refs/heads/'' @ b)))"
| "undo_refs recovery s = None"

definition undoes :: "ref_change list \<Rightarrow> recovery_strategy \<Rightarrow> bool" where
  "undoes changes recovery \<longleftrightarrow>
     (\<forall>before after restored. list_all (\<lambda>c. state_holds (rch_before c) (before (rch_ref_name c))) changes \<longrightarrow>
        undo_refs recovery after = Some restored \<longrightarrow>
        (\<forall>r \<in> set (map rch_ref_name changes). restored r = before r) \<and>
        (\<forall>r. r \<notin> set (map rch_ref_name changes) \<longrightarrow> restored r = after r))"

lemma ref_name_new_prefix:
  "ref_name_new (''refs/heads/'' @ b) = Inr (''refs/heads/'' @ b)"
  "ref_name_new (''refs/tags/'' @ b) = Inr (''refs/tags/'' @ b)"
  by (simp_all add: ref_name_new_def validated_def require_git_safe_def require_non_empty_def
      ws_len_def white_space_def starts_with_def)

lemma heads_Some [simp]: "heads b = Some (''refs/heads/'' @ b)"
  and tags_Some [simp]: "tags b = Some (''refs/tags/'' @ b)"
  unfolding heads_def tags_def ok_of_def ref_name_new_prefix by simp_all

lemma head_ref_name: "head_ref ob = map_option (\<lambda>b. ''refs/heads/'' @ b) (head_name ob)"
  by (cases "head_name ob") (simp_all add: head_ref_def del: append.simps)

lemma undoes_one:
  assumes "\<And>s. undo_refs recovery s = Some (s(name := x))" "\<And>y. state_holds before y \<Longrightarrow> y = x"
  shows "undoes [ref_moves name before after] recovery"
  using assms by (fastforce simp: undoes_def ref_moves_def)

lemma undoes_nothing: "(\<And>s. undo_refs recovery s = None) \<Longrightarrow> undoes changes recovery"
  by (simp add: undoes_def)

lemma undoes_unref [simp]:
  "undoes changes Rec_NotNeeded" "undoes changes Rec_Irrecoverable" "undoes changes Rec_BisectReset"
  "undoes changes (Rec_RevertCommit c)" "undoes changes (Rec_RecreateStashEntry t m)"
  "undoes changes Rec_RecoverableIfStaged" "undoes changes Rec_ConflictRecreatableWhileInProgress"
  by (simp_all add: undoes_nothing)

lemma head_moves_undoes:
  "case head_moves ob extra of (preconditions, changes, recovery) \<Rightarrow> undoes changes recovery"
  by (auto simp: head_moves_def intro!: undoes_one split: option.splits)

definition review_undoes :: "review \<Rightarrow> bool" where
  "review_undoes s = (case s of (risk, preconditions, changes, recovery) \<Rightarrow> undoes changes recovery)"

lemma review_undoes_simp [simp]: "review_undoes (risk, preconditions, changes, recovery) = undoes changes recovery"
  by (simp add: review_undoes_def)

lemma head_moves_review_undoes: "review_undoes (with_risk risk (head_moves ob extra))"
  using head_moves_undoes[of ob extra] by (simp add: with_risk_def split: prod.splits)

lemma shape_pull_branch_undoes: "review_undoes (shape_pull_branch ob remote)"
  using head_moves_undoes[of ob None] by (simp add: shape_pull_branch_def split: prod.splits)

lemma shape_revert_undoes: "review_undoes (shape_revert ob commit)"
  by (simp add: shape_revert_def split: prod.splits)

lemma shape_checkout_branch_undoes: "review_undoes (shape_checkout_branch ob branch)"
  by (cases "head_name ob"; cases "head_oid ob")
    (auto simp: shape_checkout_branch_def head_before_def head_ref_name intro!: undoes_one
      simp del: append.simps)

lemma shape_deletes_undoes:
  "review_undoes (shape_delete_branch ob risk branch)" "review_undoes (shape_delete_local_tag ob name)"
  by (cases "oid_of (ob_branch_tip ob)";
      auto simp: shape_delete_branch_def shape_delete_local_tag_def deletes_ref_def intro!: undoes_one
      simp del: append.simps)+

lemma shape_ref_op_undoes:
  "review_undoes (shape_create_branch b t)" "review_undoes (shape_restore_branch b t)"
  "review_undoes (shape_empty_commit_on_branch b t)" "review_undoes (shape_reset_branch ob b u t)"
  "review_undoes (shape_create_tag n t a)"
  by (auto simp: shape_create_branch_def shape_restore_branch_def shape_empty_commit_on_branch_def
      shape_reset_branch_def shape_create_tag_def intro!: undoes_one simp del: append.simps)

lemma shape_amend_commit_undoes: "review_undoes (shape_amend_commit ob t)"
  by (cases "head_ref ob") (auto simp: shape_amend_commit_def intro!: undoes_one)

lemma shape_without_undo:
  "review_undoes (shape_push_branch v branch remote force)" "review_undoes (shape_push_tag n r)"
  "review_undoes (shape_branch_from_stash b t)" "review_undoes (shape_drop_stash t)"
  "review_undoes (shape_add_worktree b)" "review_undoes (shape_bisect_start ob)"
  "review_undoes (shape_bisect_mark ob)" "review_undoes (shape_bisect_reset ob)"
  by (simp_all add: shape_push_branch_def shape_push_tag_def shape_branch_from_stash_def shape_drop_stash_def
      shape_add_worktree_def shape_bisect_start_def shape_bisect_mark_def shape_bisect_reset_def Let_def)

lemma shape_plan_undoes: "review_undoes (shape_plan op v ob)"
  by (cases op)
    (auto intro: head_moves_review_undoes shape_pull_branch_undoes shape_revert_undoes
      shape_checkout_branch_undoes shape_deletes_undoes shape_ref_op_undoes shape_amend_commit_undoes shape_without_undo
      simp: shape_merge_branch_def shape_rebase_onto_base_def Let_def)

text \<open>A plan that lists a deletion carries a recovery that is about refs.\<close>

definition deletion_undone :: "review \<Rightarrow> bool" where
  "deletion_undone s = (case s of (risk, preconditions, changes, recovery) \<Rightarrow>
     (\<forall>x. undo_refs recovery x = None \<longrightarrow> list_all (\<lambda>c. rch_after c \<noteq> Ref_Absent) changes))"

lemma head_moves_deletion_undone: "deletion_undone (with_risk risk (head_moves ob extra))"
  by (auto simp: deletion_undone_def with_risk_def head_moves_def ref_moves_def split: option.splits)

lemma shape_plan_deletion_undone: "deletion_undone (shape_plan op v ob)"
proof -
  have deletes: "deletion_undone (shape_delete_branch ob risk branch)" "deletion_undone (shape_delete_local_tag ob name)"
    for risk branch name
    by (cases "oid_of (ob_branch_tip ob)";
        simp add: deletion_undone_def shape_delete_branch_def shape_delete_local_tag_def deletes_ref_def del: append.simps)+
  have moved: "deletion_undone (shape_pull_branch ob remote)" "deletion_undone (shape_revert ob commit)" for remote commit
    using head_moves_deletion_undone[of Risk_Safe ob None]
    by (auto simp: deletion_undone_def shape_pull_branch_def shape_revert_def with_risk_def head_moves_def ref_moves_def
        split: prod.splits option.splits)
  have rest: "deletion_undone (shape_create_branch b t)" "deletion_undone (shape_restore_branch b t)"
    "deletion_undone (shape_empty_commit_on_branch b t)" "deletion_undone (shape_reset_branch ob b u t)"
    "deletion_undone (shape_create_tag n t a)" "deletion_undone (shape_amend_commit ob t)"
    "deletion_undone (shape_push_tag n r)" "deletion_undone (shape_branch_from_stash b t)"
    "deletion_undone (shape_drop_stash t)" "deletion_undone (shape_add_worktree b)"
    for b t u n a r
    by (cases "head_ref ob"; simp add: deletion_undone_def shape_simps shape_amend_commit_def split: option.splits)+
  have head: "deletion_undone (shape_checkout_branch ob branch)" "deletion_undone (shape_bisect_start ob)"
    "deletion_undone (shape_bisect_mark ob)" "deletion_undone (shape_bisect_reset ob)" for branch
    by (auto simp: deletion_undone_def shape_checkout_branch_def shape_bisect_start_def shape_bisect_mark_def
        shape_bisect_reset_def head_at_moves_def ref_moves_def split: option.splits)
  have push: "deletion_undone (shape_push_branch v branch remote force)" for branch remote force
    by (auto simp: deletion_undone_def shape_push_branch_def ref_moves_def Let_def split: option.splits)
  show ?thesis
    by (cases op)
      (simp_all add: deletes moved rest head push head_moves_deletion_undone shape_merge_branch_def
        shape_rebase_onto_base_def Let_def, simp_all add: deletion_undone_def)
qed

text \<open>The operations whose recovery is about something other than the refs they list.\<close>

fun undone_otherwise :: "git_operation \<Rightarrow> observed \<Rightarrow> bool" where
  "undone_otherwise (PushBranch branch remote set_upstream force) ob = True"
| "undone_otherwise (RevertCommit commit) ob = True"
| "undone_otherwise (RevertMerge commit mainline) ob = True"
| "undone_otherwise (BisectStart bad good) ob = True"
| "undone_otherwise (BisectMark verdict) ob = True"
| "undone_otherwise BisectReset ob = True"
| "undone_otherwise (CheckoutBranch branch) ob = (head_name ob = None)"
| "undone_otherwise op ob = False"

lemma head_moves_covered:
  assumes "head_moves ob extra = (preconditions, changes, recovery)" "undo_refs recovery after = None"
  shows "changes = []"
  using assms by (auto simp: head_moves_def split: option.splits)

lemma shape_plan_covered:
  assumes "shape_plan op v ob = (risk, preconditions, changes, recovery)" "undo_refs recovery after = None"
  shows "changes = [] \<or> undone_otherwise op ob"
  using assms
  by (cases op)
    (auto simp: shape_simps shape_checkout_branch_def shape_delete_branch_def shape_delete_local_tag_def
      shape_merge_branch_def shape_rebase_onto_base_def shape_pull_branch_def
      dest: head_moves_covered split: option.splits prod.splits)

text \<open>
  C14: the recovery of a plan undoes what the plan lists. When the refs are as the plan says they are
  before it, a recovery that is about refs puts every listed ref back to its value before and touches no
  other ref, whatever the operation left there. Every operation that lists a ref carries such a recovery,
  except a push, a revert, a bisect and a checkout from a detached HEAD, and those never list the
  deletion of a ref. What a recovery does to the refs (\<open>undo_refs\<close>) is what the documentation of
  \<open>RecoveryStrategy\<close> says it means.
\<close>

theorem recovery_restores_refs:
  assumes "shape_plan op v ob = (risk, preconditions, changes, recovery)"
    and "list_all (\<lambda>c. state_holds (rch_before c) (before (rch_ref_name c))) changes"
  shows "case undo_refs recovery after of
      Some restored \<Rightarrow>
        (\<forall>r. restored r = (if r \<in> set (map rch_ref_name changes) then before r else after r))
    | None \<Rightarrow> (changes = [] \<or> undone_otherwise op ob) \<and> list_all (\<lambda>c. rch_after c \<noteq> Ref_Absent) changes"
proof -
  from shape_plan_undoes[of op v ob] assms(1) have "undoes changes recovery" by simp
  moreover from shape_plan_deletion_undone[of op v ob] assms(1)
  have "\<forall>x. undo_refs recovery x = None \<longrightarrow> list_all (\<lambda>c. rch_after c \<noteq> Ref_Absent) changes"
    by (simp add: deletion_undone_def)
  ultimately show ?thesis
    using assms(2) shape_plan_covered[OF assms(1)] unfolding undoes_def by (cases "undo_refs recovery after") auto
qed

definition sample_tip :: string where "sample_tip = replicate 40 (CHR ''a'')"

definition sample_delete :: observed where
  "sample_delete = \<lparr>ob_head_branch = Some ''m'', ob_head_tip = Known sample_tip, ob_branch_tip = Known sample_tip,
     ob_status = Known [], ob_held_at_build = [], ob_census = no_census_taken\<rparr>"

lemma sample_tip_oid: "oid_of (Known sample_tip) = Some sample_tip"
  using sample_head by (simp add: oid_of_def ok_of_def sample_tip_def)

lemma sample_delete_shape:
  "shape_plan (DeleteBranch ''x'') v sample_delete =
     (Risk_Reversible, [RefAt ''refs/heads/x'' sample_tip],
      [ref_moves ''refs/heads/x'' (Ref_At sample_tip) Ref_Absent], Rec_RecreateBranch ''x'' sample_tip)"
  by (simp add: shape_delete_branch_def deletes_ref_def sample_delete_def sample_tip_oid)

lemma recovery_restores_refs_witness:
  "\<exists>restored. undo_refs (Rec_RecreateBranch ''x'' sample_tip) Map.empty = Some restored \<and>
     restored ''refs/heads/x'' = Some (Points_At sample_tip)"
proof -
  let ?before = "[''refs/heads/x'' \<mapsto> Points_At sample_tip]"
  have "list_all (\<lambda>c. state_holds (rch_before c) (?before (rch_ref_name c)))
      [ref_moves ''refs/heads/x'' (Ref_At sample_tip) Ref_Absent]"
    by (simp add: ref_moves_def)
  from recovery_restores_refs[OF sample_delete_shape this, of "Map.empty"]
  show ?thesis by (simp add: ref_moves_def)
qed

end
