(* ===== verification/Run_Failure.thy ===== *)
theory Run_Failure imports Paths begin

text \<open>
  \<open>crates/git-vista-server/src/planner/run_failure.rs\<close> and the two functions that turn a reason into
  a response, \<open>couldnt_run\<close> of \<open>planner.rs\<close> and \<open>withheld_detail_when\<close> of \<open>state.rs\<close>: the sentence
  a client reads is fixed per reason, and the detail (git's or the system's own words) is added only
  when the operator exposes paths. The log line is not modelled.
\<close>

datatype run_failure =
    Fail_Spawn
  | Fail_ResolveCommit
  | Fail_VerifyPlan
  | Fail_VerifyBranchHolder
  | Fail_VerifyRef
  | Fail_VerifyCleanWorktree
  | Fail_ReadStatus
  | Fail_VerifyPaths
  | Fail_ResolveWorktreeRoot
  | Fail_ResolvePath
  | Fail_ContainmentTask
  | Fail_ResolveGitDirectory
  | Fail_ReadRebaseBase
  | Fail_ReadRebaseState
  | Fail_CompareAndSwap
  | Fail_VerifySeed
  | Fail_PullFetchUnobserved
  | Fail_ReadFetchedTip
  | Fail_ReadPullHead
  | Fail_PullUnobserved
  | Fail_FetchUnobserved
  | Fail_ReadRemoteRefs
  | Fail_PushUnobserved

primrec summary :: "run_failure \<Rightarrow> string" where
  "summary Fail_Spawn =
      ''Couldn't run git. Check the server log for details.''"
| "summary Fail_ResolveCommit =
      ''Couldn't run git: the requested commit could not be resolved.''"
| "summary Fail_VerifyPlan =
      ''Couldn't run git: the repository's state could not be read, so this plan cannot '' @
      ''be re-verified before executing.''"
| "summary Fail_VerifyBranchHolder =
      ''Couldn't run git: couldn't check whether another worktree has this branch '' @
      ''checked out, so this plan cannot be verified.''"
| "summary Fail_VerifyRef =
      ''Couldn't run git: the reference could not be checked, so this plan cannot be '' @
      ''verified.''"
| "summary Fail_VerifyCleanWorktree =
      ''Couldn't run git status, so the working tree cannot be verified.''"
| "summary Fail_ReadStatus =
      ''Couldn't run git status. Check the server log for details.''"
| "summary Fail_VerifyPaths =
      ''git status failed, so these paths cannot be re-verified before executing.''"
| "summary Fail_ResolveWorktreeRoot =
      ''Couldn't resolve the worktree root, so path containment cannot be verified.''"
| "summary Fail_ResolvePath =
      ''Couldn't resolve a requested path, so path containment cannot be verified.''"
| "summary Fail_ContainmentTask =
      ''The path containment check failed, so this operation cannot be verified.''"
| "summary Fail_ResolveGitDirectory =
      ''Couldn't run git: the git directory could not be resolved, so repository locks '' @
      ''cannot be checked.''"
| "summary Fail_ReadRebaseBase =
      ''Couldn't run git: the rebase base could not be determined.''"
| "summary Fail_ReadRebaseState =
      ''Couldn't run git: the rebase state could not be read.''"
| "summary Fail_CompareAndSwap =
      ''Couldn't run git: the reference could not be resolved for the compare-and-swap, '' @
      ''so the commit was not attempted.''"
| "summary Fail_VerifySeed =
      ''Couldn't run git: the seed commit could not be verified, so the test repository '' @
      ''was not reset.''"
| "summary Fail_PullFetchUnobserved =
      ''The pull's fetch ran but remote-tracking refs could not be re-read, so there is '' @
      ''no state to integrate from.''"
| "summary Fail_ReadFetchedTip =
      ''The fetch succeeded but its remote-tracking branch could not be read, so '' @
      ''integration was not attempted.''"
| "summary Fail_ReadPullHead =
      ''The checked-out branch's tip could not be read, so a pull's effect on it could '' @
      ''not be reported. Integration was not attempted.''"
| "summary Fail_PullUnobserved =
      ''The integration reported success but the checked-out branch's tip could not be '' @
      ''re-read, so what the pull did to it is unknown. Check its state before retrying.''"
| "summary Fail_FetchUnobserved =
      ''The fetch ran but remote-tracking refs could not be re-read, so its result is '' @
      ''unknown. Check their state before retrying.''"
| "summary Fail_ReadRemoteRefs =
      ''Couldn't run git: remote-tracking refs could not be listed, so the push was not '' @
      ''attempted.''"
| "summary Fail_PushUnobserved =
      ''The push ran but remote-tracking refs could not be re-read, so what it did to '' @
      ''the remote is unknown. Check its state before retrying.''"

definition withheld_detail_when :: "bool \<Rightarrow> string \<Rightarrow> string \<Rightarrow> string" where
  "withheld_detail_when expose smry detail =
     (let d = trim detail in
      if d = [] then smry else if expose then smry @ '' '' @ d else smry)"

definition status_internal_server_error :: nat where "status_internal_server_error = 500"

definition couldnt_run :: "bool \<Rightarrow> run_failure \<Rightarrow> string \<Rightarrow> nat \<times> string" where
  "couldnt_run expose reason detail =
     (status_internal_server_error, withheld_detail_when expose (summary reason) detail)"

lemma couldnt_run_withheld: "couldnt_run False reason detail = (500, summary reason)"
  by (simp add: couldnt_run_def withheld_detail_when_def status_internal_server_error_def Let_def)

end
