(* ===== verification/Plan_Gate.thy ===== *)
theory Plan_Gate imports Plan_Shape Run_Failure Operations begin

text \<open>
  The gates of the planner (\<open>crates/git-vista-server/src/planner.rs\<close>): the check of a single
  precondition, the refusals, \<open>build_plan\<close>, the structural check \<open>validate\<close>, the proof a composed
  stash pop owes, and \<open>enforce_fresh\<close>, the staleness gate that runs between the repository lock and
  the execution. A plan is built on one view of the repository and gated on another. The sentences
  of the log are not modelled; the path flag is the view's.
\<close>

subsection \<open>One precondition\<close>

datatype collision_moment = Race | AlreadySo

definition collision_refusal ::
  "bool \<Rightarrow> branch_name \<Rightarrow> worktree_census \<Rightarrow> collision_moment \<Rightarrow> nat \<times> string" where
  "collision_refusal expose branch census moment =
     (case branch_holder census branch of
        HeldBy sibling \<Rightarrow>
          (let where_it_is =
             (case ws_path sibling of
                Some path \<Rightarrow> lq @ ws_name sibling @ rq @ '' ('' @ path @ '')''
              | None \<Rightarrow> lq @ ws_name sibling @ rq);
               taken =
             (case moment of
                Race \<Rightarrow> ''The worktree '' @ where_it_is @ '' checked out '' @ lq @
                                   branch @ rq @ '' while this plan was pending.''
              | AlreadySo \<Rightarrow> lq @ branch @ rq @
                                        '' is already checked out in the worktree '' @
                                        where_it_is @ ''.'');
               offer =
             (case ws_serviceable sibling of
                Serviceable_Yes \<Rightarrow> ''Git allows a branch in only one '' @
                                              ''worktree at a time. Open '' @ lq @
                                              ws_name sibling @ rq @
                                              '' instead of checking it out here.''
              | OutsideAllowedRoots \<Rightarrow> ''Git allows a branch in only one '' @
                                                  ''worktree at a time. '' @ lq @
                                                  ws_name sibling @ rq @
                                                  '' lies outside the folders this app '' @
                                                  ''is allowed to open, so switch to it '' @
                                                  ''in a terminal, or check out a '' @
                                                  ''different branch here.''
              | Serviceable_Missing \<Rightarrow> ''Git allows a branch in only one '' @
                                                  ''worktree at a time. '' @ lq @
                                                  ws_name sibling @ rq @
                                                  '' has no directory left on disk but '' @
                                                  ''git still holds its entry '' @ em_dash @
                                                  '' `git worktree prune` releases the '' @
                                                  ''branch.'')
           in (status_conflict, taken @ '' '' @ offer))
      | Holder_Unknown reason \<Rightarrow>
          couldnt_run expose Fail_VerifyBranchHolder
            (''couldn't check whether another worktree has '' @ lq @ branch @ rq @
             '' checked out, so this plan cannot be verified: '' @ reason)
      | Holder_Free \<Rightarrow>
          (status_conflict, ''Couldn't confirm '' @ lq @ branch @ rq @
                            '' was free of other worktrees when this plan was built '' @ em_dash @
                            '' refresh and try again.''))"

text \<open>\<open>git_ok\<close> of \<open>git_cmd.rs\<close>, as far as it is used here: whether the command succeeded.\<close>

definition git_succeeds :: "repo_view \<Rightarrow> argv \<Rightarrow> bool" where
  "git_succeeds v args =
     (case rv_run v args of Exited code stdout stderr \<Rightarrow> code = Some 0 | _ \<Rightarrow> False)"

definition unreadable :: "bool \<Rightarrow> string \<Rightarrow> string \<Rightarrow> nat \<times> string" where
  "unreadable expose name e =
     couldnt_run expose Fail_VerifyRef (''couldn't check '' @ lq @ name @ rq @
                                        '', so this plan cannot be verified: '' @ e)"

definition refuse :: "string \<Rightarrow> (nat \<times> string) + unit" where
  "refuse why = Inl (status_conflict, why)"

definition verify_ref_at :: "repo_view \<Rightarrow> ref_name \<Rightarrow> commit_oid \<Rightarrow> (nat \<times> string) + unit" where
  "verify_ref_at v name oid =
     (case rev_parse_ref_unpeeled v name of
        Inr (Some at) \<Rightarrow>
          if at = oid then Inr () else refuse (lq @ name @ rq @
                                               '' moved while this plan was pending '' @ em_dash @
                                               '' refresh and try again.'')
      | Inr None \<Rightarrow> refuse (lq @ name @ rq @
                                       '' disappeared while this plan was pending '' @ em_dash @
                                       '' refresh and try again.'')
      | Inl e \<Rightarrow> Inl (unreadable (rv_expose_paths v) name e))"

definition verify_ref_exists :: "repo_view \<Rightarrow> ref_name \<Rightarrow> (nat \<times> string) + unit" where
  "verify_ref_exists v name =
     (case rev_parse_ref_unpeeled v name of
        Inr (Some at) \<Rightarrow> Inr ()
      | Inr None \<Rightarrow> refuse (lq @ name @ rq @
                                       '' disappeared while this plan was pending '' @ em_dash @
                                       '' refresh and try again.'')
      | Inl e \<Rightarrow> Inl (unreadable (rv_expose_paths v) name e))"

definition verify_ref_absent :: "repo_view \<Rightarrow> ref_name \<Rightarrow> (nat \<times> string) + unit" where
  "verify_ref_absent v name =
     (case rev_parse_ref_unpeeled v name of
        Inr None \<Rightarrow> Inr ()
      | Inr (Some at) \<Rightarrow> refuse (lq @ name @ rq @
                                            '' appeared while this plan was pending '' @ em_dash @
                                            '' refresh and try again.'')
      | Inl e \<Rightarrow> Inl (unreadable (rv_expose_paths v) name e))"

definition verify_clean_worktree :: "repo_view \<Rightarrow> observed \<Rightarrow> (nat \<times> string) + unit" where
  "verify_clean_worktree v cur =
     (case ob_status cur of
        Known s \<Rightarrow>
          if s = [] then Inr ()
          else refuse (''The working tree picked up uncommitted changes while this plan '' @
                       ''was pending '' @ em_dash @ '' refresh and try again.'')
      | Absent \<Rightarrow> refuse (''Couldn't verify the working tree is clean '' @ em_dash @
                                     '' refusing to execute.'')
      | Unknown \<Rightarrow>
          Inl (couldnt_run (rv_expose_paths v) Fail_VerifyCleanWorktree
            (''couldn't run git status, so the working tree cannot be verified'')))"

primrec verify_precondition ::
  "precondition \<Rightarrow> repo_view \<Rightarrow> observed \<Rightarrow> (nat \<times> string) + unit" where
  "verify_precondition (RefAt name oid) v cur = verify_ref_at v name oid"
| "verify_precondition (RefExists name) v cur = verify_ref_exists v name"
| "verify_precondition (RefAbsent name) v cur = verify_ref_absent v name"
| "verify_precondition (BranchCheckedOut branch) v cur =
     (if ob_head_branch cur = Some branch then Inr ()
      else refuse (lq @ branch @ rq @ '' is no longer the checked-out branch '' @ em_dash @
                   '' refresh and try again.''))"
| "verify_precondition (BranchNotCheckedOut branch) v cur =
     (if ob_head_branch cur \<noteq> Some branch then Inr ()
      else refuse (lq @ branch @ rq @ '' became the checked-out branch '' @ em_dash @
                   '' refresh and try again.''))"
| "verify_precondition CleanWorktree v cur = verify_clean_worktree v cur"
| "verify_precondition (RemoteConfigured remote) v cur =
     (if git_succeeds v [''remote'', ''get-url'', remote] then Inr ()
      else refuse (''Remote '' @ lq @ remote @ rq @ '' is no longer configured '' @ em_dash @
                   '' refresh and try again.''))"
| "verify_precondition SeedRecorded v cur =
     (case rv_seed v of
        Some (Inr s) \<Rightarrow> Inr ()
      | _ \<Rightarrow> refuse (''The recorded seed is gone or unreadable '' @ em_dash @
                                '' refusing to reset.''))"
| "verify_precondition (BranchFreeInEveryOtherWorktree branch) v cur =
     (case branch_holder (ob_census cur) branch of
        Holder_Free \<Rightarrow> Inr ()
      | _ \<Rightarrow> Inl (collision_refusal (rv_expose_paths v) branch (ob_census cur) Race))"

definition held_now :: "repo_view \<Rightarrow> precondition list \<Rightarrow> observed \<Rightarrow> bool list" where
  "held_now v preconditions ob = map (\<lambda>p. verify_precondition p v ob = Inr ()) preconditions"

primrec refuses_when_unmet_at_build :: "precondition \<Rightarrow> bool" where
  "refuses_when_unmet_at_build (RemoteConfigured r) = True"
| "refuses_when_unmet_at_build (RefAt r t) = False"
| "refuses_when_unmet_at_build (RefExists r) = False"
| "refuses_when_unmet_at_build (RefAbsent r) = False"
| "refuses_when_unmet_at_build (BranchCheckedOut b) = False"
| "refuses_when_unmet_at_build (BranchNotCheckedOut b) = False"
| "refuses_when_unmet_at_build CleanWorktree = False"
| "refuses_when_unmet_at_build SeedRecorded = False"
| "refuses_when_unmet_at_build (BranchFreeInEveryOtherWorktree b) = True"

text \<open>The derived \<open>Debug\<close> text of a precondition, of an arm no caller reaches, is \<open>show_debug\<close>.\<close>

definition unmet_at_build ::
  "(precondition \<Rightarrow> string) \<Rightarrow> bool \<Rightarrow> precondition \<Rightarrow> worktree_census \<Rightarrow> nat \<times> string" where
  "unmet_at_build show_debug expose p census =
     (case p of
        BranchFreeInEveryOtherWorktree branch \<Rightarrow> collision_refusal expose branch census AlreadySo
      | RemoteConfigured remote \<Rightarrow>
          (status_conflict, ''Remote '' @ lq @ remote @ rq @
                            '' is not configured in this repository '' @ em_dash @
                            '' nothing was contacted. Add it with `git remote add`, or '' @
                            ''pick a remote this repository knows.'')
      | _ \<Rightarrow> (status_conflict, ''A precondition of this plan does not hold: '' @ show_debug p @ ''.''))"

subsection \<open>Building a plan\<close>

definition plan_ttl_secs :: int where "plan_ttl_secs = 300"

definition build_plan ::
  "(string \<Rightarrow> u64) \<Rightarrow> (git_operation \<Rightarrow> string) \<Rightarrow> repo_view \<Rightarrow> git_operation \<Rightarrow> string \<times> string \<Rightarrow> u64 \<Rightarrow>
     (plan \<times> observed) \<times> u64" where
  "build_plan digest op_hash v op tokens nonce =
     (let ob0 = observe_operation v op;
          (risk, preconditions, changes, recovery) = shape_plan op v ob0;
          ob = ob0\<lparr>ob_held_at_build := held_now v preconditions ob0\<rparr>;
          (token, nonce1) = generation_token digest v ob nonce;
          now = rv_now v
      in ((\<lparr>pl_repository = fst tokens, pl_worktree = snd tokens, pl_generation = token, pl_operation = op,
            pl_operation_hash = op_hash op, pl_issued_at = now, pl_expires_at = now + plan_ttl_secs,
            pl_risk = risk, pl_preconditions = preconditions, pl_expected_ref_changes = changes,
            pl_advisories = advisories_for v op, pl_recovery = recovery\<rparr>, ob), nonce1))"

definition observe_for_submission :: "repo_view \<Rightarrow> plan \<Rightarrow> observed" where
  "observe_for_submission v p =
     (let ob = observe_operation v (pl_operation p)
      in ob\<lparr>ob_held_at_build := held_now v (pl_preconditions p) ob\<rparr>)"

definition validate_plan :: "(git_operation \<Rightarrow> string) \<Rightarrow> int \<Rightarrow> plan \<Rightarrow> (nat \<times> string) + unit" where
  "validate_plan op_hash now p =
     (if op_hash (pl_operation p) \<noteq> pl_operation_hash p then
        refuse (''This plan doesn't match the operation it approves '' @ em_dash @
                '' refusing to execute.'')
      else if pl_expires_at p < now then
        refuse (''This plan has expired '' @ em_dash @ '' refresh and try again.'')
      else Inr ())"

subsection \<open>The staleness gate\<close>

text \<open>The precondition at position \<open>i\<close> held at build when the stored list says so.\<close>

definition held_at :: "observed \<Rightarrow> nat \<Rightarrow> bool" where
  "held_at ob i \<longleftrightarrow> i < length (ob_held_at_build ob) \<and> ob_held_at_build ob ! i"

fun check_preconditions ::
  "(precondition \<Rightarrow> string) \<Rightarrow> repo_view \<Rightarrow> observed \<Rightarrow> observed \<Rightarrow> nat \<Rightarrow> precondition list \<Rightarrow>
     (nat \<times> string) + unit" where
  "check_preconditions show_debug v ob cur i [] = Inr ()"
| "check_preconditions show_debug v ob cur i (p # ps) =
     (if held_at ob i then
        (case verify_precondition p v cur of
           Inl e \<Rightarrow> Inl e
         | Inr u \<Rightarrow> check_preconditions show_debug v ob cur (Suc i) ps)
      else if refuses_when_unmet_at_build p then
        Inl (unmet_at_build show_debug (rv_expose_paths v) p (ob_census cur))
      else check_preconditions show_debug v ob cur (Suc i) ps)"

definition enforce_fresh ::
  "(string \<Rightarrow> u64) \<Rightarrow> (precondition \<Rightarrow> string) \<Rightarrow> repo_view \<Rightarrow> plan \<Rightarrow> observed \<Rightarrow> u64 \<Rightarrow>
     ((nat \<times> string) + unit) \<times> u64" where
  "enforce_fresh digest show_debug v p ob nonce =
     (let cur = observe_live v (pl_operation p) in
      if is_unknown (ob_head_tip ob) \<or> is_unknown (ob_branch_tip ob) \<or> is_unknown (ob_status ob) \<or>
         is_unknown (ob_head_tip cur) \<or> is_unknown (ob_status cur)
      then (Inl (couldnt_run (rv_expose_paths v) Fail_VerifyPlan
              (''couldn't read the repository's state, so this plan cannot be '' @
               ''re-verified before executing'')), nonce)
      else
        (let (token, nonce1) = generation_token digest v cur nonce in
         if token \<noteq> pl_generation p then
           (refuse (''The repository changed while this plan was pending '' @ em_dash @
                    '' refresh and try again.''), nonce1)
         else (check_preconditions show_debug v ob cur 0 (pl_preconditions p), nonce1)))"

subsection \<open>The proof a composed pop owes\<close>

datatype drop_proof = Proof_Nothing | Proof_Completes string

datatype durable_lookup = Lookup_Found operation_status | Lookup_Incompatible | Lookup_Missing

definition proof_holds ::
  "(string \<Rightarrow> u64) \<Rightarrow> repo_view \<Rightarrow> (string \<Rightarrow> durable_lookup) \<Rightarrow> drop_proof \<Rightarrow> u64 \<Rightarrow>
     ((nat \<times> string) + unit) \<times> u64" where
  "proof_holds digest v load proof_of nonce =
     (case proof_of of
        Proof_Nothing \<Rightarrow> (Inr (), nonce)
      | Proof_Completes applied \<Rightarrow>
          (case load applied of
             Lookup_Incompatible \<Rightarrow>
               (refuse (''This pop names an apply whose stored record this build cannot '' @
                        ''read, so there is no way to tell whether your changes are '' @
                        ''still in the working tree. The stash entry was left alone. '' @
                        ''Reload the drawer and check before dropping it.''), nonce)
           | Lookup_Missing \<Rightarrow>
               (refuse (''This pop names an apply this server has no record of, so '' @
                        ''nothing proves your changes are still in the working tree. '' @
                        ''The stash entry was left alone. Reload the drawer and try again.''), nonce)
           | Lookup_Found row \<Rightarrow>
               if os_state row \<noteq> Succeeded then
                 (refuse (''This pop names an apply that did not succeed, so its '' @
                          ''changes were never established in the working tree. The '' @
                          ''stash entry was left alone.''), nonce)
               else
                 (case os_generation row of
                    None \<Rightarrow>
                      (refuse (''This pop names an apply that recorded no repository '' @
                               ''state when it finished, so there is nothing to compare '' @
                               ''against. The stash entry was left alone.''), nonce)
                  | Some stored \<Rightarrow>
                      (let (cur, nonce1) = generation_token digest v (observe_live_for_generation v) nonce in
                       if cur \<noteq> stored then
                         (refuse (''The repository changed between applying this stash '' @
                                  ''and dropping it, so the changes the apply restored '' @
                                  ''may no longer be in your working tree. The stash '' @
                                  ''entry was NOT dropped and your working tree was '' @
                                  ''left as it is. Check `git status`, then drop the '' @
                                  ''entry yourself if the changes are safe.''), nonce1)
                       else (Inr (), nonce1)))))"

subsection \<open>What a precondition says\<close>

text \<open>The meaning of a precondition, on the view alone.\<close>

primrec precondition_holds :: "precondition \<Rightarrow> repo_view \<Rightarrow> git_operation \<Rightarrow> bool" where
  "precondition_holds (RefAt name oid) v op = (rev_parse_ref_unpeeled v name = Inr (Some oid))"
| "precondition_holds (RefExists name) v op = (\<exists>oid. rev_parse_ref_unpeeled v name = Inr (Some oid))"
| "precondition_holds (RefAbsent name) v op = (rev_parse_ref_unpeeled v name = Inr None)"
| "precondition_holds (BranchCheckedOut branch) v op = (rv_head_branch v = Some branch)"
| "precondition_holds (BranchNotCheckedOut branch) v op = (rv_head_branch v \<noteq> Some branch)"
| "precondition_holds CleanWorktree v op = (worktree_status v = Known [])"
| "precondition_holds (RemoteConfigured remote) v op = git_succeeds v [''remote'', ''get-url'', remote]"
| "precondition_holds SeedRecorded v op = (\<exists>s. rv_seed v = Some (Inr s))"
| "precondition_holds (BranchFreeInEveryOtherWorktree branch) v op =
     permits_checkout (branch_holder (census_for v op) branch)"

definition observes :: "observed \<Rightarrow> repo_view \<Rightarrow> git_operation \<Rightarrow> bool" where
  "observes ob v op \<longleftrightarrow> ob_head_branch ob = rv_head_branch v \<and> ob_status ob = worktree_status v \<and>
     ob_census ob = census_for v op"

lemma observes_reads:
  "observes (observe_operation v op) v op" "observes (observe_live v op) v op"
  by (simp_all add: observes_def observe_operation_def observe_live_def observe_live_for_generation_def
      observe_live_for_feed_def)

lemma refuse_not_ok [simp]: "refuse why \<noteq> Inr u" "(Inr u = refuse why) = False"
  by (simp_all add: refuse_def)

lemma verify_precondition_iff:
  assumes "observes ob v op"
  shows "verify_precondition p v ob = Inr () \<longleftrightarrow> precondition_holds p v op"
  using assms
  by (cases p)
    (auto simp: observes_def verify_ref_at_def verify_ref_exists_def verify_ref_absent_def verify_clean_worktree_def
      split: sum.splits option.splits observation.splits branch_holder.splits)

lemma check_preconditions_iff:
  assumes "observes cur v op"
  shows "check_preconditions show_debug v ob cur i ps = Inr () \<longleftrightarrow>
    (\<forall>k < length ps. if held_at ob (i + k) then precondition_holds (ps ! k) v op
       else \<not> refuses_when_unmet_at_build (ps ! k))"
proof (induction ps arbitrary: i)
  case (Cons p ps)
  have all: "(\<forall>k < length (p # ps). Q k) \<longleftrightarrow> Q 0 \<and> (\<forall>k < length ps. Q (Suc k))" for Q
    by (simp add: All_less_Suc2)
  show ?case
    unfolding all using Cons.IH[of "Suc i"] verify_precondition_iff[OF assms, of p]
    by (auto split: sum.splits)
qed simp

subsection \<open>The gate, exactly\<close>

lemma enforce_fresh_ok:
  "fst (enforce_fresh digest show_debug w p ob n) = Inr () \<longleftrightarrow>
     \<not> is_unknown (ob_head_tip ob) \<and> \<not> is_unknown (ob_branch_tip ob) \<and> \<not> is_unknown (ob_status ob) \<and>
     \<not> is_unknown (ob_head_tip (observe_live w (pl_operation p))) \<and>
     \<not> is_unknown (ob_status (observe_live w (pl_operation p))) \<and>
     fst (generation_token digest w (observe_live w (pl_operation p)) n) = pl_generation p \<and>
     (\<forall>k < length (pl_preconditions p).
        if held_at ob k then precondition_holds (pl_preconditions p ! k) w (pl_operation p)
        else \<not> refuses_when_unmet_at_build (pl_preconditions p ! k))"
  using check_preconditions_iff[OF observes_reads(2)[of w "pl_operation p"], of show_debug ob 0 "pl_preconditions p"]
  by (simp add: enforce_fresh_def Let_def split_beta)


text \<open>
  The gate lets a plan through exactly when everything it needs was read, the generation of the
  repository is still the plan's, every precondition that held when the plan was built holds now,
  and every one that did not is of a kind the executor refuses on its own: an unknown remote or a
  branch another worktree may hold always stops here.
\<close>

theorem gate_passes_iff:
  "fst (enforce_fresh digest show_debug w p ob n) = Inr () \<longleftrightarrow>
     \<not> is_unknown (ob_head_tip ob) \<and> \<not> is_unknown (ob_branch_tip ob) \<and> \<not> is_unknown (ob_status ob) \<and>
     (\<exists>head. rev_parse w ''HEAD'' = Inr head) \<and> worktree_status w \<noteq> Unknown \<and>
     fst (generation_token digest w (observe_live w (pl_operation p)) n) = pl_generation p \<and>
     list_all (\<lambda>(k, q).
        if held_at ob k then precondition_holds q w (pl_operation p)
        else (case q of RemoteConfigured r \<Rightarrow> False | BranchFreeInEveryOtherWorktree b \<Rightarrow> False | _ \<Rightarrow> True))
       (enumerate 0 (pl_preconditions p))"
proof -
  have u: "(case q of RemoteConfigured r \<Rightarrow> False | BranchFreeInEveryOtherWorktree b \<Rightarrow> False | _ \<Rightarrow> True) \<longleftrightarrow>
      \<not> refuses_when_unmet_at_build q" for q
    by (cases q) auto
  have e: "list_all (\<lambda>(k, q). P k q) (enumerate 0 ps) \<longleftrightarrow> (\<forall>k < length ps. P k (ps ! k))"
    for ps and P :: "nat \<Rightarrow> precondition \<Rightarrow> bool"
    by (auto simp: list_all_iff in_set_enumerate_eq)
  have h: "is_unknown (ob_head_tip (observe_live w op)) \<longleftrightarrow> \<not> (\<exists>head. rev_parse w ''HEAD'' = Inr head)" for op
    by (auto simp: observe_live_def observe_live_for_generation_def observe_live_for_feed_def from_read_def
        split: sum.splits option.splits)
  have s: "is_unknown (ob_status (observe_live w op)) \<longleftrightarrow> worktree_status w = Unknown" for op
    by (cases "worktree_status w")
      (simp_all add: observe_live_def observe_live_for_generation_def observe_live_for_feed_def)
  show ?thesis unfolding enforce_fresh_ok u e h s by blast
qed

subsection \<open>A plan runs on the repository it describes\<close>

lemma build_plan_fields:
  assumes "build_plan digest op_hash v op tokens m = ((p, ob), m')"
  shows "pl_operation p = op" "ob_held_at_build ob = held_now v (pl_preconditions p) (observe_operation v op)"
    "pl_generation p = fst (generation_token digest v (observe_operation v op) m)"
    "(pl_risk p, pl_preconditions p, pl_expected_ref_changes p, pl_recovery p) =
       shape_plan op v (observe_operation v op)"
    "pl_repository p = fst tokens" "pl_worktree p = snd tokens" "pl_operation_hash p = op_hash op"
    "pl_advisories p = advisories_for v op"
proof -
  have t: "generation_token digest v (x\<lparr>ob_held_at_build := h\<rparr>) m = generation_token digest v x m" for x h
    by (simp add: generation_token_def fold_generation_def fold_inputs_def)
  show "pl_operation p = op" "ob_held_at_build ob = held_now v (pl_preconditions p) (observe_operation v op)"
    "pl_generation p = fst (generation_token digest v (observe_operation v op) m)"
    "(pl_risk p, pl_preconditions p, pl_expected_ref_changes p, pl_recovery p) =
       shape_plan op v (observe_operation v op)"
    "pl_repository p = fst tokens" "pl_worktree p = snd tokens" "pl_operation_hash p = op_hash op"
    "pl_advisories p = advisories_for v op"
    using assms by (auto simp: build_plan_def Let_def split_beta t)
qed

lemma held_at_build:
  assumes "build_plan digest op_hash v op tokens m = ((p, ob), m')" "k < length (pl_preconditions p)"
  shows "held_at ob k \<longleftrightarrow> precondition_holds (pl_preconditions p ! k) v op"
  using assms verify_precondition_iff[OF observes_reads(1)]
  by (simp add: build_plan_fields[OF assms(1)] held_at_def held_now_def)

text \<open>
  C1: an approved plan executes only on the repository it describes. When the gate, at a later
  instant, lets through a plan that was built on a readable repository, then HEAD's branch and
  commit, every ref, the stash, merge.ff and the status are what they were when the plan was built,
  and every precondition that held then holds now; a configured remote and a free branch held then
  and hold now. What is assumed of the hash is that it does not collide on the two readings.
\<close>

theorem approved_plan_meets_same_repository:
  assumes "build_plan digest op_hash v op tokens m = ((p, ob), m')"
    and "fst (enforce_fresh digest show_debug w p ob n) = Inr ()"
    and "consistent_view v" "consistent_view w" "readable v" "readable w"
    and "\<forall>(k, x) \<in> set (gate_inputs v) \<union> set (gate_inputs w). fits k \<and> fits x"
    and "inj_on digest {generation_preimage (gate_inputs v), generation_preimage (gate_inputs w)}"
  shows "rv_head_branch w = rv_head_branch v \<and> rev_parse w ''HEAD'' = rev_parse v ''HEAD'' \<and>
    worktree_status w = worktree_status v \<and>
    gp_named_refs (read_generation_parts w) = gp_named_refs (read_generation_parts v) \<and>
    stash_digest_input w = stash_digest_input v \<and> merge_ff_digest_input w = merge_ff_digest_input v \<and>
    (\<forall>q \<in> set (pl_preconditions p).
       (precondition_holds q v op \<longrightarrow> precondition_holds q w op) \<and>
       (refuses_when_unmet_at_build q \<longrightarrow> precondition_holds q v op))"
proof -
  note b = build_plan_fields[OF assms(1)]
  note ok = assms(2)[unfolded enforce_fresh_ok b(1)]
  have "digest (generation_preimage (gate_inputs w)) = digest (generation_preimage (gate_inputs v))"
    using ok unfolding b(3) gate_token(1)[OF assms(5)] gate_token(2)[OF assms(6)] show_u64_inject by blast
  then have "generation_preimage (gate_inputs v) = generation_preimage (gate_inputs w)"
    by (intro inj_onD[OF assms(8)]) simp_all
  then have same: "same_reading (observe_live_for_generation v) (read_generation_parts v)
      (observe_live_for_generation w) (read_generation_parts w)"
    unfolding gate_preimage_same[OF assms(3-7)] .
  have parts: "gp_stash (read_generation_parts x) = stash_digest_input x"
    "gp_merge_ff (read_generation_parts x) = merge_ff_digest_input x" for x
    by (simp_all add: read_generation_parts_def split_beta)
  have head: "rev_parse w ''HEAD'' = rev_parse v ''HEAD''"
    using same readableD(1)[OF assms(5)]
    by (auto simp: same_reading_def same_observation_iff observe_live_for_generation_def observe_live_for_feed_def
        from_read_def split: sum.splits option.splits)
  have status: "worktree_status w = worktree_status v"
    using same by (simp add: same_reading_def same_observation_iff observe_live_for_generation_def observe_live_for_feed_def)
  have di: "x = y" if "di_value x = di_value y" "di_read x" "di_read y" for x y :: digest_input
    using that by (cases x; cases y) simp
  have pre: "(precondition_holds q v op \<longrightarrow> precondition_holds q w op) \<and>
      (refuses_when_unmet_at_build q \<longrightarrow> precondition_holds q v op)" if "q \<in> set (pl_preconditions p)" for q
  proof -
    from that obtain k where k: "k < length (pl_preconditions p)" "pl_preconditions p ! k = q"
      by (auto simp: in_set_conv_nth)
    from ok k(1) have "if held_at ob k then precondition_holds (pl_preconditions p ! k) w op
        else \<not> refuses_when_unmet_at_build (pl_preconditions p ! k)" by blast
    with held_at_build[OF assms(1) k(1)] k(2) show ?thesis by (auto split: if_splits)
  qed
  from same have vals: "di_value (stash_digest_input w) = di_value (stash_digest_input v)"
    "di_value (merge_ff_digest_input w) = di_value (merge_ff_digest_input v)"
    "rv_head_branch w = rv_head_branch v"
    "ref_values (read_generation_parts v) = ref_values (read_generation_parts w)"
    by (simp_all add: same_reading_def parts observed_reading)
  show ?thesis
    using head status pre vals(3) di[OF vals(1) readableD(3)[OF assms(6)] readableD(3)[OF assms(5)]]
      di[OF vals(2) readableD(4)[OF assms(6)] readableD(4)[OF assms(5)]]
      named_refs_same[OF assms(3,4)] vals(4) by auto
qed

text \<open>A checkout planned and gated on the sample repository.\<close>

lemma sample_checkout_gate:
  assumes "build_plan digest op_hash (sample_view ''0a'') (CheckoutBranch ''y'') tokens m = ((p, ob), m')"
  shows "fst (enforce_fresh digest show_debug (sample_view ''0a'') p ob n) = Inr ()"
proof -
  let ?v = "sample_view ''0a''" and ?op = "CheckoutBranch ''y''"
  note b = build_plan_fields[OF assms]
  have r: "readable ?v"
    by (simp add: readable_def blind_reason_def sample_view_parts observe_live_for_generation_def
        observe_live_for_feed_def sample_view_head sample_view_status)
  have t: "fst (generation_token digest ?v (observe_live ?v ?op) n) = pl_generation p"
    unfolding b(3) gate_token(1)[OF r] gate_token(2)[OF r] ..
  have free: "precondition_holds (BranchFreeInEveryOtherWorktree ''y'') ?v ?op"
    by (simp add: census_for_def sample_view_def sample_census branch_holder_def)
  have pre: "pl_preconditions p = [RefExists ''refs/heads/y'', BranchFreeInEveryOtherWorktree ''y'']"
    using b(4) by (simp add: shape_checkout_branch_def)
  have held: "held_at ob 1"
    using held_at_build[OF assms, of 1] pre free by simp
  have pres: "\<forall>k < length (pl_preconditions p).
      if held_at ob k then precondition_holds (pl_preconditions p ! k) ?v ?op
      else \<not> refuses_when_unmet_at_build (pl_preconditions p ! k)"
    using held_at_build[OF assms, of 0] held free unfolding pre
    by (auto simp: less_Suc_eq simp del: precondition_holds.simps(9))
  have known: "\<not> is_unknown (ob_head_tip ob) \<and> \<not> is_unknown (ob_branch_tip ob) \<and> \<not> is_unknown (ob_status ob)"
    using assms
    by (auto simp: build_plan_def Let_def split_beta observe_operation_def observe_branch_tip_def sample_view_head
        sample_view_status)
  have cur: "\<not> is_unknown (ob_head_tip (observe_live ?v ?op))" "\<not> is_unknown (ob_status (observe_live ?v ?op))"
    by (simp_all add: observe_live_def observe_live_for_generation_def observe_live_for_feed_def sample_view_head
        sample_view_status)
  show ?thesis unfolding enforce_fresh_ok b(1) using known cur t pres by blast
qed

lemma approved_plan_meets_same_repository_witness:
  "precondition_holds (BranchFreeInEveryOtherWorktree ''y'') (sample_view ''0a'') (CheckoutBranch ''y'')"
proof -
  let ?v = "sample_view ''0a''" and ?op = "CheckoutBranch ''y''"
  obtain p ob m' where e: "build_plan view_digest (\<lambda>_. []) ?v ?op (''r'', ''w'') 0 = ((p, ob), m')"
    by (metis prod.exhaust)
  have r: "readable ?v"
    by (simp add: readable_def blind_reason_def sample_view_parts observe_live_for_generation_def
        observe_live_for_feed_def sample_view_head sample_view_status)
  have fit: "\<forall>(k, x) \<in> set (gate_inputs ?v) \<union> set (gate_inputs ?v). fits k \<and> fits x"
    unfolding sample_view_inputs by simp
  have inj: "inj_on view_digest {generation_preimage (gate_inputs ?v), generation_preimage (gate_inputs ?v)}" by simp
  have "BranchFreeInEveryOtherWorktree ''y'' \<in> set (pl_preconditions p)"
    using build_plan_fields(4)[OF e] by (simp add: shape_checkout_branch_def)
  with approved_plan_meets_same_repository[OF e sample_checkout_gate[OF e, of "\<lambda>_. []" 0] sample_view_consistent
      sample_view_consistent r r fit inj]
  show ?thesis by (metis refuses_when_unmet_at_build.simps(9))
qed

subsection \<open>Every field of a plan is a value of its newtype\<close>

primrec wf_advisory :: "advisory \<Rightarrow> bool" where
  "wf_advisory (DefaultBranchPush b r) = (is_valid branch_name_new b \<and> is_valid remote_name_new r)"
| "wf_advisory (DefaultBranchUnknown reason) = True"
| "wf_advisory (RemoteHistoryReplaced b r) = (is_valid branch_name_new b \<and> is_valid remote_name_new r)"

definition wf_plan :: "plan \<Rightarrow> bool" where
  "wf_plan p \<longleftrightarrow>
     is_valid repository_token_new (pl_repository p) \<and> is_valid worktree_token_new (pl_worktree p) \<and>
     is_valid generation_token_new (pl_generation p) \<and> wf_operation (pl_operation p) \<and>
     is_valid operation_hash_new (pl_operation_hash p) \<and>
     list_all wf_precondition (pl_preconditions p) \<and> list_all wf_ref_change (pl_expected_ref_changes p) \<and>
     wf_recovery (pl_recovery p) \<and> list_all wf_advisory (pl_advisories p)"

lemma advisories_valid: "wf_operation op \<Longrightarrow> list_all wf_advisory (advisories_for v op)"
  by (cases op) (auto simp: advisories_for_def split: force_publish.splits sum.splits option.splits)

lemma digit_not_space: "48 \<le> byte c \<Longrightarrow> byte c \<le> 57 \<Longrightarrow> ws_len (c # s) = 0"
proof -
  assume "48 \<le> byte c" "byte c \<le> 57"
  then have "\<not> starts_with p (c # s)" if "p \<in> set white_space" for p
    using that by (auto simp: white_space_def starts_with_def byte_def)
  then show ?thesis using ws_len_pos[of "c # s"] by auto
qed

lemma show_u64_valid: "is_valid generation_token_new (show_u64 n)"
proof -
  obtain c s where c: "decimal (uint n) = c # s" using decimal_nonempty by (cases "decimal (uint n)") auto
  have "48 \<le> byte c \<and> byte c \<le> 57"
    using decimal_digits[of "uint n" c] c by (simp add: byte_def)
  then have "ws_len (c # s) = 0" using digit_not_space by blast
  then show ?thesis
    by (simp add: is_valid_def generation_token_new_def validated_def require_non_empty_def show_u64_def c)
qed

text \<open>
  C26: every plan the planner builds for an operation whose fields passed their validators has only
  such fields itself: whatever git printed, no ref name, branch, tag, remote or commit id that the
  newtypes would refuse reaches the preconditions, the ref changes, the recovery or the advisories.
\<close>

theorem built_plan_is_well_typed:
  assumes "wf_operation op" "is_valid repository_token_new (fst tokens)" "is_valid worktree_token_new (snd tokens)"
    and "is_valid operation_hash_new (op_hash op)"
  shows "wf_plan (fst (fst (build_plan digest op_hash v op tokens m)))"
proof -
  obtain p ob m' where e: "build_plan digest op_hash v op tokens m = ((p, ob), m')" by (metis prod.exhaust)
  note b = build_plan_fields[OF e]
  have "wf_review (shape_plan op v (observe_operation v op))" by (rule shape_plan_valid[OF assms(1)])
  then have "list_all wf_precondition (pl_preconditions p) \<and> list_all wf_ref_change (pl_expected_ref_changes p) \<and>
      wf_recovery (pl_recovery p)"
    unfolding b(4)[symmetric] by (simp add: wf_review_def)
  moreover have "is_valid generation_token_new (pl_generation p)"
    unfolding b(3) by (simp add: generation_token_def fold_generation_def show_u64_valid split_beta)
  ultimately show ?thesis using assms b advisories_valid[OF assms(1)] e by (simp add: wf_plan_def)
qed

lemma built_plan_is_well_typed_witness:
  "wf_plan (fst (fst (build_plan view_digest (\<lambda>_. replicate 64 (CHR ''0'')) (sample_view ''0a'')
     (CheckoutBranch ''y'') (''r'', ''w'') 0)))"
proof -
  have o: "wf_operation (CheckoutBranch ''y'')" by code_simp
  have t: "is_valid repository_token_new (fst (''r'', ''w''))" "is_valid worktree_token_new (snd (''r'', ''w''))"
    by code_simp+
  have h: "is_valid operation_hash_new ((\<lambda>_ :: git_operation. replicate 64 (CHR ''0'')) (CheckoutBranch ''y''))"
    by code_simp
  show ?thesis using built_plan_is_well_typed[OF o t h] .
qed

subsection \<open>The drop of a composed pop\<close>

text \<open>
  The drop half of a pop passes its proof exactly when the apply it names is on record as
  succeeded and the repository is, now, at the generation that apply left behind; an apply that is
  unknown, unreadable, unfinished, failed or without a recorded generation never lets it pass.
\<close>

theorem drop_needs_its_apply:
  "fst (proof_holds digest v load (Proof_Completes applied) n) = Inr () \<longleftrightarrow>
     (\<exists>row. load applied = Lookup_Found row \<and> os_state row = Succeeded \<and>
        os_generation row = Some (fst (generation_token digest v (observe_live_for_generation v) n)))"
  by (auto simp: proof_holds_def Let_def split_beta split: durable_lookup.splits option.splits)
end
