(* ===== verification/Coordinator.thy ===== *)
theory Coordinator imports Plan_Gate begin

text \<open>
  \<open>crates/git-vista-server/src/coordinator.rs\<close>: the key a mutation is queued under and the preflight
  that runs once the repository's guard is held, which looks for git's own \<open>index.lock\<close>. The file
  system is \<open>lock_world\<close>: which lock files exist with their identity (device and inode), and \<open>/proc\<close>
  as the names of its entries with the identities of the open files of each, where the directory of
  a process or one of its entries may be unreadable.
\<close>

datatype lock_key = Key_Repository string | Key_Unregistered

definition lock_key_of :: "string option \<Rightarrow> lock_key" where
  "lock_key_of repo = (case repo of Some i \<Rightarrow> Key_Repository i | None \<Rightarrow> Key_Unregistered)"

type_synonym file_identity = "u64 \<times> u64"

record lock_world =
  lw_unix :: bool
  lw_files :: "string \<rightharpoonup> file_identity option"
  lw_proc :: "(string \<times> file_identity option list option) list option"

definition absolute_git_dir :: "repo_view \<Rightarrow> string + string option" where
  "absolute_git_dir v =
     (case rv_run v [''rev-parse'', ''--absolute-git-dir''] of
        No_Sandbox e \<Rightarrow> Inl e
      | No_Spawn e \<Rightarrow> Inl e
      | Exited code stdout stderr \<Rightarrow>
          if code \<noteq> Some 0 then Inr None
          else (let dir = trim (utf8_lossy stdout) in Inr (if dir = [] then None else Some dir)))"

definition index_lock_refusal :: "bool option \<Rightarrow> string option" where
  "index_lock_refusal held =
     (case held of
        Some False \<Rightarrow> None
      | Some True \<Rightarrow> Some (''Another git process is working in this repository '' @
                                      em_dash @ '' wait for it to finish and try again.'')
      | None \<Rightarrow> Some (''Cannot determine whether another git process holds '' @
                                 ''this repository's index.lock on this platform '' @ em_dash @
                                 '' the lock has been left in place.''))"

definition is_pid_dir :: "string \<Rightarrow> bool" where
  "is_pid_dir name \<longleftrightarrow> name \<noteq> [] \<and> list_all ascii_digit name"

text \<open>The walk over \<open>/proc\<close>: whether some open file that could be read has the identity.\<close>

fun held_in_proc :: "file_identity \<Rightarrow> (string \<times> file_identity option list option) list \<Rightarrow> bool" where
  "held_in_proc tgt [] = False"
| "held_in_proc tgt ((name, fds) # ps) =
     (if \<not> is_pid_dir name then held_in_proc tgt ps
      else case fds of
             None \<Rightarrow> held_in_proc tgt ps
           | Some ids \<Rightarrow> if Some tgt \<in> set ids then True else held_in_proc tgt ps)"

definition index_lock_is_open_by_a_live_process :: "lock_world \<Rightarrow> string \<Rightarrow> bool option" where
  "index_lock_is_open_by_a_live_process lw path =
     (if \<not> lw_unix lw then None
      else case lw_files lw path of
             None \<Rightarrow> Some True
           | Some None \<Rightarrow> Some True
           | Some (Some tgt) \<Rightarrow>
               (case lw_proc lw of
                  None \<Rightarrow> Some True
                | Some ps \<Rightarrow> Some (held_in_proc tgt ps)))"

text \<open>The refusal, if any, and the files afterwards; \<open>remove_file\<close> may also fail, which changes nothing.\<close>

definition refuse_if_git_busy :: "repo_view \<Rightarrow> lock_world \<Rightarrow> (nat \<times> string) option \<times> lock_world" where
  "refuse_if_git_busy v lw =
     (case absolute_git_dir v of
        Inl e \<Rightarrow>
          (Some (couldnt_run (rv_expose_paths v) Fail_ResolveGitDirectory
             (''couldn't resolve the git directory of '' @ ce_repo (rv_census v) @ '': '' @ e)), lw)
      | Inr None \<Rightarrow> (None, lw)
      | Inr (Some git_dir) \<Rightarrow>
          (let lock_path = path_join git_dir ''index.lock'' in
           if lw_files lw lock_path = None then (None, lw)
           else
             (case index_lock_refusal (index_lock_is_open_by_a_live_process lw lock_path) of
                Some why \<Rightarrow> (Some (status_conflict, why), lw)
              | None \<Rightarrow> (None, lw\<lparr>lw_files := (lw_files lw)(lock_path := None)\<rparr>))))"

subsection \<open>When a lock file is discarded\<close>

lemma held_in_proc_iff:
  "held_in_proc tgt ps \<longleftrightarrow> (\<exists>name ids. (name, Some ids) \<in> set ps \<and> is_pid_dir name \<and> Some tgt \<in> set ids)"
  by (induction tgt ps rule: held_in_proc.induct) (auto split: option.splits)

lemma index_lock_refusal_None: "index_lock_refusal r = None \<longleftrightarrow> r = Some False"
  by (auto simp: index_lock_refusal_def split: option.splits bool.splits)

lemma index_lock_refusal_Some: "index_lock_refusal (Some b) = Some w \<Longrightarrow> b"
  using index_lock_refusal_None[of "Some b"] by auto

text \<open>
  The preflight discards a lock file exactly when git named the directory, the file is there
  with a readable identity, \<open>/proc\<close> could be listed, and no process whose open files could be read
  has it open; in every other case the files stay as they are.
\<close>

theorem lock_discarded_iff:
  "snd (refuse_if_git_busy v lw) \<noteq> lw \<longleftrightarrow>
     (\<exists>dir tgt ps. absolute_git_dir v = Inr (Some dir) \<and> lw_unix lw \<and>
        lw_files lw (path_join dir ''index.lock'') = Some (Some tgt) \<and> lw_proc lw = Some ps \<and>
        \<not> (\<exists>name ids. (name, Some ids) \<in> set ps \<and> is_pid_dir name \<and> Some tgt \<in> set ids))"
proof -
  have e: "lw\<lparr>lw_files := m\<rparr> = lw \<longleftrightarrow> m = lw_files lw" for m by (cases lw) auto
  have m: "(lw_files lw)(f := None) = lw_files lw \<longleftrightarrow> lw_files lw f = None" for f
    by (auto simp: fun_eq_iff)
  show ?thesis
    by (auto simp: refuse_if_git_busy_def Let_def index_lock_refusal_None index_lock_is_open_by_a_live_process_def
        held_in_proc_iff e m dest!: index_lock_refusal_Some split: sum.splits option.splits if_splits)
qed

text \<open>
  The walk treats a process whose open files it may not read as one that does not hold the lock:
  with such a process in \<open>/proc\<close>, whatever it has open, the lock file is removed and the request goes
  on.
\<close>

theorem unreadable_holder_loses_its_lock:
  assumes "absolute_git_dir v = Inr (Some dir)" "lw_unix lw" "is_pid_dir pid"
    and "lw_files lw (path_join dir ''index.lock'') = Some (Some tgt)" "lw_proc lw = Some [(pid, None)]"
  shows "fst (refuse_if_git_busy v lw) = None \<and>
    lw_files (snd (refuse_if_git_busy v lw)) (path_join dir ''index.lock'') = None"
  using assms
  by (simp add: refuse_if_git_busy_def Let_def index_lock_is_open_by_a_live_process_def index_lock_refusal_def)

definition busy_view :: repo_view where
  "busy_view = (sample_view ''0a'')\<lparr>rv_run := (\<lambda>args. Exited (Some 0) ''/g'' [])\<rparr>"

lemma busy_view_dir: "absolute_git_dir busy_view = Inr (Some ''/g'')"
  by (simp add: absolute_git_dir_def busy_view_def) code_simp

lemma unreadable_holder_loses_its_lock_witness:
  "fst (refuse_if_git_busy busy_view \<lparr>lw_unix = True, lw_files = [''/g/index.lock'' \<mapsto> Some (1, 2)],
     lw_proc = Some [(''7'', None)]\<rparr>) = None"
proof -
  have p: "path_join ''/g'' ''index.lock'' = ''/g/index.lock''" by code_simp
  have d: "is_pid_dir ''7''" by code_simp
  from unreadable_holder_loses_its_lock[OF busy_view_dir _ d, where lw = "\<lparr>lw_unix = True,
      lw_files = [''/g/index.lock'' \<mapsto> Some (1, 2)], lw_proc = Some [(''7'', None)]\<rparr>" and tgt = "(1, 2)"]
  show ?thesis unfolding p by simp
qed

end
