(* ===== verification/Pipeline.thy ===== *)
theory Pipeline imports Coordinator begin

text \<open>
  The two paths a mutation takes through \<open>crates/git-vista-server/src/planner.rs\<close>,
  \<open>plan_and_execute_within\<close> (build, then execute) and \<open>submit_plan_within\<close> (execute a plan that was
  built earlier), as concurrent requests: each observes the repository, waits for the guard of its
  repository (\<open>coordinator::lock\<close>), runs its gates one after another under the guard, pins the restore
  point of its plan (\<open>pin_recovery\<close> of the planner and \<open>write_recovery_ref\<close> of \<open>durable.rs\<close>, a
  \<open>git update-ref\<close>), executes, and drops the guard. Between any two steps of a request other requests
  and outside git may move.

  A repository (a lock key) has one working directory or several, and a \<open>desk\<close> is one of them: its
  view and its lock files. Git is a relation of the environment for the one command by which the
  pipeline itself writes (\<open>en_git\<close>: a command line takes the desks of a repository to others), and so is
  \<open>execute\<close>: it may change every desk of its repository in any number of steps and answers when it is
  done. Two fields are for the statements only: \<open>ps_outside\<close> counts the moves of outside git in a repository, and a request that passed its
  gates remembers the desks it was checked on and the count.
\<close>

type_synonym desk = "repo_view \<times> lock_world"
type_synonym desks = "string \<Rightarrow> desk"
type_synonym response = "nat \<times> string"

datatype plan_source = Build git_operation | Submit plan

record request =
  rq_key :: lock_key
  rq_path :: string
  rq_tokens :: "string \<times> string"
  rq_source :: plan_source
  rq_proof :: drop_proof
  rq_operation :: "string option"

primrec source_operation :: "plan_source \<Rightarrow> git_operation" where
  "source_operation (Build op) = op"
| "source_operation (Submit p) = pl_operation p"

text \<open>The hash the registry keys a request by comes from the operation, never from the plan's field.\<close>

definition source_hash :: "(git_operation \<Rightarrow> string) \<Rightarrow> plan_source \<Rightarrow> string" where
  "source_hash op_hash source = op_hash (source_operation source)"

record environment =
  en_digest :: "string \<Rightarrow> u64"
  en_op_hash :: "git_operation \<Rightarrow> string"
  en_show_debug :: "precondition \<Rightarrow> string"
  en_load :: "string \<Rightarrow> durable_lookup"
  en_git :: "string \<Rightarrow> argv \<Rightarrow> desks \<Rightarrow> desks \<Rightarrow> bool"
  en_execute_step :: "string \<Rightarrow> plan \<Rightarrow> observed \<Rightarrow> desks \<Rightarrow> desks \<Rightarrow> bool"
  en_execute_done :: "string \<Rightarrow> plan \<Rightarrow> observed \<Rightarrow> desks \<Rightarrow> response \<Rightarrow> bool"

datatype gate = Gate_Busy | Gate_Proof | Gate_Validate | Gate_Fresh

datatype phase =
    Ph_New
  | Ph_Waiting plan observed drop_proof
  | Ph_Gated gate plan observed drop_proof
  | Ph_Ready plan observed desks nat
  | Ph_Pinned plan observed desks nat
  | Ph_Executing plan observed desks nat desks nat
  | Ph_Done response

record pipeline =
  ps_desks :: "lock_key \<Rightarrow> desks"
  ps_guard :: "lock_key \<Rightarrow> nat option"
  ps_phase :: "nat \<Rightarrow> phase"
  ps_nonce :: u64
  ps_outside :: "lock_key \<Rightarrow> nat"

subsection \<open>The stages\<close>

text \<open>What a request does first: a refusal, or its plan with what it observed and what it must prove.\<close>

definition observe_request ::
  "environment \<Rightarrow> request \<Rightarrow> repo_view \<Rightarrow> u64 \<Rightarrow> (response + plan \<times> observed \<times> drop_proof) \<times> u64" where
  "observe_request env req v nonce =
     (case rq_source req of
        Build op \<Rightarrow>
          (case build_plan (en_digest env) (en_op_hash env) v op (rq_tokens req) nonce of
             ((p, ob), nonce1) \<Rightarrow> (Inr (p, ob, rq_proof req), nonce1))
      | Submit p \<Rightarrow>
          if pl_repository p \<noteq> fst (rq_tokens req) \<or> pl_worktree p \<noteq> snd (rq_tokens req)
          then (Inl (status_conflict, ''This plan was built for a different repository '' @
                                      ''or worktree '' @ em_dash @
                                      '' rebuild it against the current selection.''), nonce)
          else (Inr (p, observe_for_submission v p, Proof_Nothing), nonce))"

text \<open>One gate: a refusal or the desk after it. A submitted plan owes no proof.\<close>

definition run_gate ::
  "environment \<Rightarrow> gate \<Rightarrow> plan \<Rightarrow> observed \<Rightarrow> drop_proof \<Rightarrow> desk \<Rightarrow> u64 \<Rightarrow> (response + desk) \<times> u64" where
  "run_gate env g p ob proof_of dk nonce =
     (case g of
        Gate_Busy \<Rightarrow>
          (case refuse_if_git_busy (fst dk) (snd dk) of
             (Some r, lw) \<Rightarrow> (Inl r, nonce)
           | (None, lw) \<Rightarrow> (Inr (fst dk, lw), nonce))
      | Gate_Proof \<Rightarrow>
          (case proof_holds (en_digest env) (fst dk) (en_load env) proof_of nonce of
             (Inl r, nonce1) \<Rightarrow> (Inl r, nonce1)
           | (Inr u, nonce1) \<Rightarrow> (Inr dk, nonce1))
      | Gate_Validate \<Rightarrow>
          (case validate_plan (en_op_hash env) (rv_now (fst dk)) p of
             Inl r \<Rightarrow> (Inl r, nonce)
           | Inr u \<Rightarrow> (Inr dk, nonce))
      | Gate_Fresh \<Rightarrow>
          (case enforce_fresh (en_digest env) (en_show_debug env) (fst dk) p ob nonce of
             (Inl r, nonce1) \<Rightarrow> (Inl r, nonce1)
           | (Inr u, nonce1) \<Rightarrow> (Inr dk, nonce1)))"

fun next_gate :: "gate \<Rightarrow> gate option" where
  "next_gate Gate_Busy = Some Gate_Proof"
| "next_gate Gate_Proof = Some Gate_Validate"
| "next_gate Gate_Validate = Some Gate_Fresh"
| "next_gate Gate_Fresh = None"

text \<open>
  The restore point. \<open>rq_operation\<close> is the id of the tracked operation the pipeline runs under, if it
  runs under one. A recovery that names an object is pinned with one \<open>git update-ref\<close>; how that command
  ends is logged and never refuses the request.
\<close>

definition recovery_ref_name :: "string \<Rightarrow> string" where
  "recovery_ref_name op = ''refs/git-vista/recovery/'' @ op"

fun recovery_oid :: "recovery_strategy \<Rightarrow> commit_oid option" where
  "recovery_oid (Rec_ResetRef r to) = Some to"
| "recovery_oid (Rec_RecreateBranch b at) = Some at"
| "recovery_oid (Rec_RecreateTag t at) = Some at"
| "recovery_oid (Rec_RecreateStashEntry at message) = Some at"
| "recovery_oid (Rec_RevertCommit commit) = Some commit"
| "recovery_oid _ = None"

definition write_recovery_ref :: "string \<Rightarrow> recovery_strategy \<Rightarrow> argv option" where
  "write_recovery_ref op recovery =
     map_option (\<lambda>oid. [''update-ref'', recovery_ref_name op, oid]) (recovery_oid recovery)"

definition pin_recovery :: "string option \<Rightarrow> recovery_strategy \<Rightarrow> argv option" where
  "pin_recovery op recovery = Option.bind op (\<lambda>id. write_recovery_ref id recovery)"

text \<open>What the pin does to the desks: nothing, or what that one command does.\<close>

definition pinned :: "environment \<Rightarrow> request \<Rightarrow> plan \<Rightarrow> desks \<Rightarrow> desks \<Rightarrow> bool" where
  "pinned env req p ds ds' =
     (case pin_recovery (rq_operation req) (pl_recovery p) of
        None \<Rightarrow> ds' = ds
      | Some args \<Rightarrow> en_git env (rq_path req) args ds ds')"

subsection \<open>The steps\<close>

definition set_phase :: "nat \<Rightarrow> phase \<Rightarrow> pipeline \<Rightarrow> pipeline" where
  "set_phase i ph s = s\<lparr>ps_phase := (ps_phase s)(i := ph)\<rparr>"

definition set_desk :: "lock_key \<Rightarrow> string \<Rightarrow> desk \<Rightarrow> pipeline \<Rightarrow> pipeline" where
  "set_desk k path dk s = s\<lparr>ps_desks := (ps_desks s)(k := (ps_desks s k)(path := dk))\<rparr>"

definition release :: "lock_key \<Rightarrow> pipeline \<Rightarrow> pipeline" where
  "release k s = s\<lparr>ps_guard := (ps_guard s)(k := None)\<rparr>"

text \<open>One step of the server, for the requests \<open>reqs\<close>.\<close>

inductive server_step :: "environment \<Rightarrow> (nat \<Rightarrow> request) \<Rightarrow> pipeline \<Rightarrow> pipeline \<Rightarrow> bool"
  for env :: environment and reqs :: "nat \<Rightarrow> request" where
  Observe_refused:
    "ps_phase s i = Ph_New \<Longrightarrow>
     observe_request env (reqs i) (fst (ps_desks s (rq_key (reqs i)) (rq_path (reqs i)))) (ps_nonce s) = (Inl r, n) \<Longrightarrow>
     server_step env reqs s (set_phase i (Ph_Done r) (s\<lparr>ps_nonce := n\<rparr>))"
| Observe:
    "ps_phase s i = Ph_New \<Longrightarrow>
     observe_request env (reqs i) (fst (ps_desks s (rq_key (reqs i)) (rq_path (reqs i)))) (ps_nonce s) =
       (Inr (p, ob, proof_of), n) \<Longrightarrow>
     server_step env reqs s (set_phase i (Ph_Waiting p ob proof_of) (s\<lparr>ps_nonce := n\<rparr>))"
| Lock:
    "ps_phase s i = Ph_Waiting p ob proof_of \<Longrightarrow> ps_guard s (rq_key (reqs i)) = None \<Longrightarrow>
     server_step env reqs s
       (set_phase i (Ph_Gated Gate_Busy p ob proof_of)
         (s\<lparr>ps_guard := (ps_guard s)(rq_key (reqs i) := Some i)\<rparr>))"
| Gate_refused:
    "ps_phase s i = Ph_Gated g p ob proof_of \<Longrightarrow>
     run_gate env g p ob proof_of (ps_desks s (rq_key (reqs i)) (rq_path (reqs i))) (ps_nonce s) = (Inl r, n) \<Longrightarrow>
     server_step env reqs s (release (rq_key (reqs i)) (set_phase i (Ph_Done r) (s\<lparr>ps_nonce := n\<rparr>)))"
| Gate_passed:
    "ps_phase s i = Ph_Gated g p ob proof_of \<Longrightarrow> next_gate g = Some g' \<Longrightarrow>
     run_gate env g p ob proof_of (ps_desks s (rq_key (reqs i)) (rq_path (reqs i))) (ps_nonce s) = (Inr dk, n) \<Longrightarrow>
     server_step env reqs s
       (set_phase i (Ph_Gated g' p ob proof_of)
         (set_desk (rq_key (reqs i)) (rq_path (reqs i)) dk (s\<lparr>ps_nonce := n\<rparr>)))"
| Gates_passed:
    "ps_phase s i = Ph_Gated g p ob proof_of \<Longrightarrow> next_gate g = None \<Longrightarrow>
     run_gate env g p ob proof_of (ps_desks s (rq_key (reqs i)) (rq_path (reqs i))) (ps_nonce s) = (Inr dk, n) \<Longrightarrow>
     server_step env reqs s
       (set_phase i (Ph_Ready p ob (ps_desks s (rq_key (reqs i))) (ps_outside s (rq_key (reqs i))))
         (s\<lparr>ps_nonce := n\<rparr>))"
| Pin:
    "ps_phase s i = Ph_Ready p ob checked at_check \<Longrightarrow>
     pinned env (reqs i) p (ps_desks s (rq_key (reqs i))) ds \<Longrightarrow>
     server_step env reqs s
       (set_phase i (Ph_Pinned p ob checked at_check) (s\<lparr>ps_desks := (ps_desks s)(rq_key (reqs i) := ds)\<rparr>))"
| Execute:
    "ps_phase s i = Ph_Pinned p ob checked at_check \<Longrightarrow>
     server_step env reqs s
       (set_phase i (Ph_Executing p ob checked at_check (ps_desks s (rq_key (reqs i))) (ps_outside s (rq_key (reqs i)))) s)"
| Execute_step:
    "ps_phase s i = Ph_Executing p ob checked at_check started at_start \<Longrightarrow>
     en_execute_step env (rq_path (reqs i)) p ob (ps_desks s (rq_key (reqs i))) ds \<Longrightarrow>
     server_step env reqs s (s\<lparr>ps_desks := (ps_desks s)(rq_key (reqs i) := ds)\<rparr>)"
| Execute_done:
    "ps_phase s i = Ph_Executing p ob checked at_check started at_start \<Longrightarrow>
     en_execute_done env (rq_path (reqs i)) p ob (ps_desks s (rq_key (reqs i))) r \<Longrightarrow>
     server_step env reqs s (release (rq_key (reqs i)) (set_phase i (Ph_Done r) s))"

text \<open>Outside git, an editor or the clock: anything may happen to the desks of one repository.\<close>

inductive outside_step :: "pipeline \<Rightarrow> pipeline \<Rightarrow> bool" where
  Outside:
    "outside_step s
       (s\<lparr>ps_desks := (ps_desks s)(k := ds), ps_outside := (ps_outside s)(k := Suc (ps_outside s k))\<rparr>)"

definition pipeline_step :: "environment \<Rightarrow> (nat \<Rightarrow> request) \<Rightarrow> pipeline \<Rightarrow> pipeline \<Rightarrow> bool" where
  "pipeline_step env reqs s s' \<longleftrightarrow> server_step env reqs s s' \<or> outside_step s s'"

definition initial_pipeline :: "(lock_key \<Rightarrow> desks) \<Rightarrow> pipeline" where
  "initial_pipeline ds = \<lparr>ps_desks = ds, ps_guard = (\<lambda>_. None), ps_phase = (\<lambda>_. Ph_New), ps_nonce = 0,
     ps_outside = (\<lambda>_. 0)\<rparr>"

inductive_cases outside_stepE: "outside_step s s'"

subsection \<open>The invariant\<close>

fun in_guard :: "phase \<Rightarrow> bool" where
  "in_guard (Ph_Gated g p ob pr) = True"
| "in_guard (Ph_Ready p ob ds c) = True"
| "in_guard (Ph_Pinned p ob ds c) = True"
| "in_guard (Ph_Executing p ob ds c es d) = True"
| "in_guard ph = False"

text \<open>The gate passed, on the desk the request works at.\<close>

definition fresh_on :: "environment \<Rightarrow> request \<Rightarrow> plan \<Rightarrow> observed \<Rightarrow> desks \<Rightarrow> bool" where
  "fresh_on env req p ob ds \<longleftrightarrow>
     (\<exists>n. fst (enforce_fresh (en_digest env) (en_show_debug env) (fst (ds (rq_path req))) p ob n) = Inr ())"

definition phase_ok :: "environment \<Rightarrow> (nat \<Rightarrow> request) \<Rightarrow> pipeline \<Rightarrow> nat \<Rightarrow> bool" where
  "phase_ok env reqs s i =
     (case ps_phase s i of
        Ph_Ready p ob checked at_check \<Rightarrow>
          fresh_on env (reqs i) p ob checked \<and> at_check \<le> ps_outside s (rq_key (reqs i)) \<and>
          (at_check = ps_outside s (rq_key (reqs i)) \<longrightarrow> ps_desks s (rq_key (reqs i)) = checked)
      | Ph_Pinned p ob checked at_check \<Rightarrow>
          fresh_on env (reqs i) p ob checked \<and> at_check \<le> ps_outside s (rq_key (reqs i)) \<and>
          (at_check = ps_outside s (rq_key (reqs i)) \<longrightarrow>
             pinned env (reqs i) p checked (ps_desks s (rq_key (reqs i))))
      | Ph_Executing p ob checked at_check started at_start \<Rightarrow>
          fresh_on env (reqs i) p ob checked \<and>
          (at_check = at_start \<longrightarrow> pinned env (reqs i) p checked started)
      | _ \<Rightarrow> True)"

definition pipeline_inv :: "environment \<Rightarrow> (nat \<Rightarrow> request) \<Rightarrow> pipeline \<Rightarrow> bool" where
  "pipeline_inv env reqs s \<longleftrightarrow>
     (\<forall>i. in_guard (ps_phase s i) \<longleftrightarrow> ps_guard s (rq_key (reqs i)) = Some i) \<and>
     (\<forall>k i. ps_guard s k = Some i \<longrightarrow> rq_key (reqs i) = k) \<and>
     (\<forall>i. phase_ok env reqs s i)"

lemma phase_ok_same:
  assumes "phase_ok env reqs s j" "ps_phase s' j = ps_phase s j"
    and "in_guard (ps_phase s j) \<Longrightarrow> ps_desks s' (rq_key (reqs j)) = ps_desks s (rq_key (reqs j)) \<and>
      ps_outside s' (rq_key (reqs j)) = ps_outside s (rq_key (reqs j))"
  shows "phase_ok env reqs s' j"
  using assms by (cases "ps_phase s j") (auto simp: phase_ok_def)

lemma one_in_guard:
  assumes "pipeline_inv env reqs s" "in_guard (ps_phase s i)" "in_guard (ps_phase s j)"
    "rq_key (reqs i) = rq_key (reqs j)"
  shows "i = j"
  using assms unfolding pipeline_inv_def by (metis option.inject)

text \<open>
  A step of request \<open>i\<close> keeps the invariant when its guard bookkeeping is right, its own phase is
  justified, and outside its guard it leaves its repository alone.
\<close>

lemma pipeline_inv_step:
  assumes inv: "pipeline_inv env reqs s"
    and others: "\<And>j. j \<noteq> i \<Longrightarrow> ps_phase s' j = ps_phase s j"
    and keys: "\<And>k. k \<noteq> rq_key (reqs i) \<Longrightarrow>
      ps_guard s' k = ps_guard s k \<and> ps_desks s' k = ps_desks s k \<and> ps_outside s' k = ps_outside s k"
    and count: "ps_outside s' (rq_key (reqs i)) = ps_outside s (rq_key (reqs i))"
    and guard: "ps_guard s' (rq_key (reqs i)) = (if in_guard (ps_phase s' i) then Some i
      else if in_guard (ps_phase s i) then None else ps_guard s (rq_key (reqs i)))"
    and desks: "\<not> in_guard (ps_phase s i) \<Longrightarrow> ps_desks s' (rq_key (reqs i)) = ps_desks s (rq_key (reqs i))"
    and free: "in_guard (ps_phase s' i) \<Longrightarrow> \<not> in_guard (ps_phase s i) \<Longrightarrow> ps_guard s (rq_key (reqs i)) = None"
    and own: "phase_ok env reqs s' i"
  shows "pipeline_inv env reqs s'"
proof -
  have g: "in_guard (ps_phase s j) \<longleftrightarrow> ps_guard s (rq_key (reqs j)) = Some j" for j
    using inv by (simp add: pipeline_inv_def)
  have k: "rq_key (reqs j) = k" if "ps_guard s k = Some j" for j k
    using inv that by (simp add: pipeline_inv_def)
  have a: "in_guard (ps_phase s' j) \<longleftrightarrow> ps_guard s' (rq_key (reqs j)) = Some j" for j
  proof (cases "j = i")
    case True
    with guard g[of i] show ?thesis by (auto split: if_splits)
  next
    case False
    show ?thesis
    proof (cases "rq_key (reqs j) = rq_key (reqs i)")
      case True
      have "in_guard (ps_phase s' j) \<longleftrightarrow> ps_guard s (rq_key (reqs i)) = Some j"
        using others[OF False] g[of j] True by simp
      moreover have "ps_guard s (rq_key (reqs i)) = Some j \<longleftrightarrow> ps_guard s' (rq_key (reqs i)) = Some j"
        using guard free g[of i] False by (auto split: if_splits)
      ultimately show ?thesis using True by simp
    next
      case False
      with keys[OF False] others g[of j] \<open>j \<noteq> i\<close> show ?thesis by simp
    qed
  qed
  have b: "rq_key (reqs j) = k'" if "ps_guard s' k' = Some j" for k' j
    using that keys[of k'] k guard by (cases "k' = rq_key (reqs i)") (auto split: if_splits)
  have c: "phase_ok env reqs s' j" for j
  proof (cases "j = i")
    case False
    show ?thesis
    proof (rule phase_ok_same[of env reqs s])
      show "phase_ok env reqs s j" using inv by (simp add: pipeline_inv_def)
      show "ps_phase s' j = ps_phase s j" by (rule others[OF False])
      assume j: "in_guard (ps_phase s j)"
      show "ps_desks s' (rq_key (reqs j)) = ps_desks s (rq_key (reqs j)) \<and>
          ps_outside s' (rq_key (reqs j)) = ps_outside s (rq_key (reqs j))"
      proof (cases "rq_key (reqs j) = rq_key (reqs i)")
        case True
        with one_in_guard[OF inv _ j, of i] False have "\<not> in_guard (ps_phase s i)" by metis
        with desks count True show ?thesis by simp
      qed (use keys in simp)
    qed
  qed (use own in simp)
  from a b c show ?thesis by (simp add: pipeline_inv_def)
qed

lemma run_gate_fresh:
  assumes "run_gate env g p ob pr dk n = (Inr dk', n')" "next_gate g = None"
  shows "dk' = dk \<and> fst (enforce_fresh (en_digest env) (en_show_debug env) (fst dk) p ob n) = Inr ()"
  using assms by (cases g) (auto simp: run_gate_def split: prod.splits sum.splits)

lemma server_step_inv:
  assumes "server_step env reqs s s'" "pipeline_inv env reqs s"
  shows "pipeline_inv env reqs s'"
  using assms(1)
proof cases
  case (Observe_refused i r n)
  then show ?thesis
    by (intro pipeline_inv_step[OF assms(2), where i = i]) (auto simp: set_phase_def phase_ok_def)
next
  case (Observe i p ob pr n)
  then show ?thesis
    by (intro pipeline_inv_step[OF assms(2), where i = i]) (auto simp: set_phase_def phase_ok_def)
next
  case (Lock i p ob pr)
  then show ?thesis
    by (intro pipeline_inv_step[OF assms(2), where i = i]) (auto simp: set_phase_def phase_ok_def)
next
  case (Gate_refused i g p ob pr r n)
  then show ?thesis
    by (intro pipeline_inv_step[OF assms(2), where i = i]) (auto simp: set_phase_def release_def phase_ok_def)
next
  case (Gate_passed i g p ob pr g' dk n)
  then have "ps_guard s (rq_key (reqs i)) = Some i" using assms(2) by (auto simp: pipeline_inv_def)
  with Gate_passed show ?thesis
    by (intro pipeline_inv_step[OF assms(2), where i = i]) (auto simp: set_phase_def set_desk_def phase_ok_def)
next
  case (Gates_passed i g p ob pr dk n)
  then have "ps_guard s (rq_key (reqs i)) = Some i" using assms(2) by (auto simp: pipeline_inv_def)
  moreover from run_gate_fresh[OF Gates_passed(4,3)]
  have "fresh_on env (reqs i) p ob (ps_desks s (rq_key (reqs i)))" by (auto simp: fresh_on_def)
  ultimately show ?thesis using Gates_passed
    by (intro pipeline_inv_step[OF assms(2), where i = i]) (auto simp: set_phase_def phase_ok_def)
next
  case (Pin i p ob checked at_check ds)
  then have "ps_guard s (rq_key (reqs i)) = Some i" using assms(2) by (auto simp: pipeline_inv_def)
  moreover have "phase_ok env reqs s i" using assms(2) by (simp add: pipeline_inv_def)
  ultimately show ?thesis using Pin
    by (intro pipeline_inv_step[OF assms(2), where i = i]) (auto simp: set_phase_def phase_ok_def)
next
  case (Execute i p ob checked at_check)
  then have "ps_guard s (rq_key (reqs i)) = Some i" using assms(2) by (auto simp: pipeline_inv_def)
  moreover have "phase_ok env reqs s i" using assms(2) by (simp add: pipeline_inv_def)
  ultimately show ?thesis using Execute
    by (intro pipeline_inv_step[OF assms(2), where i = i]) (auto simp: set_phase_def phase_ok_def)
next
  case (Execute_step i p ob checked at_check started at_start ds)
  then have "ps_guard s (rq_key (reqs i)) = Some i" using assms(2) by (auto simp: pipeline_inv_def)
  moreover have "phase_ok env reqs s i" using assms(2) by (simp add: pipeline_inv_def)
  ultimately show ?thesis using Execute_step
    by (intro pipeline_inv_step[OF assms(2), where i = i]) (auto simp: phase_ok_def)
next
  case (Execute_done i p ob checked at_check started at_start r)
  then show ?thesis
    by (intro pipeline_inv_step[OF assms(2), where i = i]) (auto simp: set_phase_def release_def phase_ok_def)
qed

lemma outside_step_inv:
  assumes "outside_step s s'" "pipeline_inv env reqs s"
  shows "pipeline_inv env reqs s'"
  using assms(1)
proof cases
  case (Outside k ds)
  have "phase_ok env reqs s' i" for i
  proof -
    have "phase_ok env reqs s i" using assms(2) by (simp add: pipeline_inv_def)
    then show ?thesis unfolding Outside by (cases "ps_phase s i") (auto simp: phase_ok_def)
  qed
  with assms(2) show ?thesis by (simp add: pipeline_inv_def Outside)
qed

interpretation pipe: step_invariant "pipeline_step env reqs" "pipeline_inv env reqs" for env reqs
  by unfold_locales (auto simp: pipeline_step_def intro: server_step_inv outside_step_inv)

lemma initial_pipeline_inv: "pipeline_inv env reqs (initial_pipeline ds)"
  by (simp add: pipeline_inv_def initial_pipeline_def phase_ok_def)

lemma pipeline_reachable_inv:
  "(pipeline_step env reqs)\<^sup>*\<^sup>* (initial_pipeline ds) s \<Longrightarrow> pipeline_inv env reqs s"
  using pipe.steps_keep initial_pipeline_inv by blast

subsection \<open>Properties\<close>

text \<open>
  C6: in every reachable state, whatever outside git does, at most one request of a repository is
  between taking the guard and answering; requests of different repositories are not held up by it.
\<close>

theorem one_mutation_per_repository:
  assumes "(pipeline_step env reqs)\<^sup>*\<^sup>* (initial_pipeline ds) s"
    "in_guard (ps_phase s i)" "in_guard (ps_phase s j)" "rq_key (reqs i) = rq_key (reqs j)"
  shows "i = j"
  using one_in_guard[OF pipeline_reachable_inv[OF assms(1)] assms(2-4)] .

text \<open>
  C12: a plan is executed only after the staleness gate let it through, and on what the gate saw:
  unless outside git moved in the repository between the gate and the start of the execution, the
  desks the execution starts from are the very desks the gate read, or what the one
  \<open>git update-ref refs/git-vista/recovery/<operation>\<close> makes of them that pins the restore point the
  plan names. No other request of the server and no other command can come between.
\<close>

theorem executes_what_was_checked:
  assumes "(pipeline_step env reqs)\<^sup>*\<^sup>* (initial_pipeline ds) s"
    "ps_phase s i = Ph_Executing p ob checked at_check started at_start"
  shows "(\<exists>n. fst (enforce_fresh (en_digest env) (en_show_debug env) (fst (checked (rq_path (reqs i)))) p ob n) = Inr ()) \<and>
    (at_start = at_check \<longrightarrow> started = checked \<or>
       (\<exists>op oid. rq_operation (reqs i) = Some op \<and> recovery_oid (pl_recovery p) = Some oid \<and>
          en_git env (rq_path (reqs i)) [''update-ref'', ''refs/git-vista/recovery/'' @ op, oid] checked started))"
proof -
  have "phase_ok env reqs s i" using pipeline_reachable_inv[OF assms(1)] by (simp add: pipeline_inv_def)
  then have "fresh_on env (reqs i) p ob checked" "at_start = at_check \<longrightarrow> pinned env (reqs i) p checked started"
    using assms(2) by (auto simp: phase_ok_def)
  then show ?thesis
    by (auto simp: fresh_on_def pinned_def pin_recovery_def write_recovery_ref_def recovery_ref_name_def
        Option.bind_eq_Some_conv Option.bind_eq_None_conv split: option.splits)
qed

subsection \<open>Progress\<close>

text \<open>
  What a request needs of its environment to get to its answer: the executor comes to an end, whatever
  desks it starts from, and so does the command that pins the restore point.
\<close>

definition executions_end :: "environment \<Rightarrow> bool" where
  "executions_end env \<longleftrightarrow>
     (\<forall>path p ob ds. \<exists>ds' r. (en_execute_step env path p ob)\<^sup>*\<^sup>* ds ds' \<and> en_execute_done env path p ob ds' r) \<and>
     (\<forall>path args ds. \<exists>ds'. en_git env path args ds ds')"

text \<open>The server alone takes request \<open>i\<close> to a phase, and leaves every other request where it is.\<close>

definition brings ::
  "environment \<Rightarrow> (nat \<Rightarrow> request) \<Rightarrow> nat \<Rightarrow> pipeline \<Rightarrow> pipeline \<Rightarrow> bool" where
  "brings env reqs i s s' \<longleftrightarrow> (server_step env reqs)\<^sup>*\<^sup>* s s' \<and> (\<forall>j. j \<noteq> i \<longrightarrow> ps_phase s' j = ps_phase s j)"

lemma brings_step: "server_step env reqs s s' \<Longrightarrow> (\<And>j. j \<noteq> i \<Longrightarrow> ps_phase s' j = ps_phase s j) \<Longrightarrow> brings env reqs i s s'"
  by (auto simp: brings_def)

lemma brings_trans: "brings env reqs i s s' \<Longrightarrow> brings env reqs i s' s'' \<Longrightarrow> brings env reqs i s s''"
  by (auto simp: brings_def)

lemma set_phase_other: "j \<noteq> i \<Longrightarrow> ps_phase (set_phase i ph s) j = ps_phase s j"
  by (simp add: set_phase_def)

text \<open>The answer of a request that holds the guard: given, and the guard free again.\<close>

definition answered :: "(nat \<Rightarrow> request) \<Rightarrow> nat \<Rightarrow> pipeline \<Rightarrow> bool" where
  "answered reqs i s \<longleftrightarrow> (\<exists>r. ps_phase s i = Ph_Done r) \<and> ps_guard s (rq_key (reqs i)) = None"

lemma executing_steps:
  assumes "(en_execute_step env (rq_path (reqs i)) p ob)\<^sup>*\<^sup>* ds ds'"
    and "ps_phase s i = Ph_Executing p ob c n d m" "ps_desks s (rq_key (reqs i)) = ds"
  shows "\<exists>s'. brings env reqs i s s' \<and> ps_phase s' i = Ph_Executing p ob c n d m \<and> ps_desks s' (rq_key (reqs i)) = ds'"
  using assms(1)
proof induction
  case base
  show ?case using assms(2,3) by (intro exI[of _ s]) (auto simp: brings_def)
next
  case (step y z)
  then obtain s' where s': "brings env reqs i s s'" "ps_phase s' i = Ph_Executing p ob c n d m"
    "ps_desks s' (rq_key (reqs i)) = y" by blast
  let ?t = "s'\<lparr>ps_desks := (ps_desks s')(rq_key (reqs i) := z)\<rparr>"
  have "server_step env reqs s' ?t" using Execute_step[OF s'(2)] step(2) s'(3) by blast
  then have "brings env reqs i s' ?t" by (rule brings_step) simp
  with brings_trans[OF s'(1)] s'(2) show ?case by (intro exI[of _ ?t]) simp
qed

lemma executing_answers:
  assumes "executions_end env" "ps_phase s i = Ph_Executing p ob c n d m"
  shows "\<exists>s'. brings env reqs i s s' \<and> answered reqs i s'"
proof -
  obtain ds' r where r: "(en_execute_step env (rq_path (reqs i)) p ob)\<^sup>*\<^sup>* (ps_desks s (rq_key (reqs i))) ds'"
    "en_execute_done env (rq_path (reqs i)) p ob ds' r" using assms(1) unfolding executions_end_def by blast
  obtain s1 where s1: "brings env reqs i s s1" "ps_phase s1 i = Ph_Executing p ob c n d m"
    "ps_desks s1 (rq_key (reqs i)) = ds'" using executing_steps[of env reqs i p ob, OF r(1) assms(2) refl] by blast
  let ?t = "release (rq_key (reqs i)) (set_phase i (Ph_Done r) s1)"
  have "server_step env reqs s1 ?t" using Execute_done[OF s1(2)] r(2) s1(3) by blast
  then have "brings env reqs i s1 ?t" by (rule brings_step) (simp add: release_def set_phase_def)
  moreover have "answered reqs i ?t" by (simp add: answered_def release_def set_phase_def)
  ultimately show ?thesis using brings_trans[OF s1(1)] by blast
qed

lemma ready_answers:
  assumes "executions_end env" "ps_phase s i = Ph_Ready p ob c n"
  shows "\<exists>s'. brings env reqs i s s' \<and> answered reqs i s'"
proof -
  obtain ds where ds: "pinned env (reqs i) p (ps_desks s (rq_key (reqs i))) ds"
    using assms(1) unfolding pinned_def executions_end_def
    by (cases "pin_recovery (rq_operation (reqs i)) (pl_recovery p)") (simp, metis option.simps(5))
  let ?t = "set_phase i (Ph_Pinned p ob c n) (s\<lparr>ps_desks := (ps_desks s)(rq_key (reqs i) := ds)\<rparr>)"
  have t: "brings env reqs i s ?t"
    using Pin[of s i p ob c n env reqs, OF assms(2) ds] by (rule brings_step) (simp add: set_phase_def)
  have p: "ps_phase ?t i = Ph_Pinned p ob c n" by (simp add: set_phase_def)
  let ?u = "set_phase i (Ph_Executing p ob c n (ps_desks ?t (rq_key (reqs i))) (ps_outside ?t (rq_key (reqs i)))) ?t"
  have u: "brings env reqs i ?t ?u"
    using Execute[OF p] by (rule brings_step) (rule set_phase_other)
  have "ps_phase ?u i = Ph_Executing p ob c n (ps_desks ?t (rq_key (reqs i))) (ps_outside ?t (rq_key (reqs i)))"
    by (simp add: set_phase_def)
  from executing_answers[OF assms(1) this] show ?thesis
    using brings_trans[OF brings_trans[OF t u]] by blast
qed

text \<open>A gate answers, or hands on to the next one or to the execution.\<close>

lemma gate_moves:
  assumes "ps_phase s i = Ph_Gated g p ob pr"
  shows "\<exists>s'. brings env reqs i s s' \<and>
    (answered reqs i s' \<or> (\<exists>g'. next_gate g = Some g' \<and> ps_phase s' i = Ph_Gated g' p ob pr) \<or>
     (\<exists>c n. ps_phase s' i = Ph_Ready p ob c n))"
proof -
  let ?k = "rq_key (reqs i)"
  obtain x n where r: "run_gate env g p ob pr (ps_desks s ?k (rq_path (reqs i))) (ps_nonce s) = (x, n)" by fastforce
  show ?thesis
  proof (cases x)
    case (Inl e)
    let ?t = "release ?k (set_phase i (Ph_Done e) (s\<lparr>ps_nonce := n\<rparr>))"
    have "server_step env reqs s ?t" using Gate_refused[OF assms] r Inl by blast
    then have "brings env reqs i s ?t" by (rule brings_step) (simp add: release_def set_phase_def)
    moreover have "answered reqs i ?t" by (simp add: answered_def release_def set_phase_def)
    ultimately show ?thesis by blast
  next
    case (Inr dk)
    show ?thesis
    proof (cases "next_gate g")
      case None
      let ?t = "set_phase i (Ph_Ready p ob (ps_desks s ?k) (ps_outside s ?k)) (s\<lparr>ps_nonce := n\<rparr>)"
      have "server_step env reqs s ?t" using Gates_passed[OF assms None] r Inr by blast
      then have "brings env reqs i s ?t" by (rule brings_step) (simp add: set_phase_def)
      moreover have "ps_phase ?t i = Ph_Ready p ob (ps_desks s ?k) (ps_outside s ?k)" by (simp add: set_phase_def)
      ultimately show ?thesis by blast
    next
      case (Some g')
      let ?t = "set_phase i (Ph_Gated g' p ob pr) (set_desk ?k (rq_path (reqs i)) dk (s\<lparr>ps_nonce := n\<rparr>))"
      have "server_step env reqs s ?t" using Gate_passed[OF assms Some] r Inr by blast
      then have "brings env reqs i s ?t" by (rule brings_step) (simp add: set_phase_def set_desk_def)
      moreover have "ps_phase ?t i = Ph_Gated g' p ob pr" by (simp add: set_phase_def)
      ultimately show ?thesis using Some by blast
    qed
  qed
qed

fun gates_left :: "gate option \<Rightarrow> nat" where
  "gates_left (Some Gate_Busy) = 4"
| "gates_left (Some Gate_Proof) = 3"
| "gates_left (Some Gate_Validate) = 2"
| "gates_left (Some Gate_Fresh) = 1"
| "gates_left None = 0"

lemma gates_run_out: "gates_left (next_gate g) < gates_left (Some g)"
  by (cases g) simp_all

lemma gated_answers:
  assumes "executions_end env" "ps_phase s i = Ph_Gated g p ob pr"
  shows "\<exists>s'. brings env reqs i s s' \<and> answered reqs i s'"
  using assms(2)
proof (induction "gates_left (Some g)" arbitrary: g s rule: less_induct)
  case less
  from gate_moves[OF less(2), of env reqs] obtain s1 where s1: "brings env reqs i s s1"
    "answered reqs i s1 \<or> (\<exists>g'. next_gate g = Some g' \<and> ps_phase s1 i = Ph_Gated g' p ob pr) \<or>
     (\<exists>c n. ps_phase s1 i = Ph_Ready p ob c n)" by blast
  from s1(2) have "\<exists>s'. brings env reqs i s1 s' \<and> answered reqs i s'"
  proof (elim disjE exE conjE)
    assume "answered reqs i s1"
    then show ?thesis by (auto simp: brings_def)
  next
    fix g' assume "next_gate g = Some g'" "ps_phase s1 i = Ph_Gated g' p ob pr"
    with less(1)[of g' s1] gates_run_out[of g] show ?thesis by simp
  qed (rule ready_answers[OF assms(1)])
  with brings_trans[OF s1(1)] show ?case by blast
qed

lemma guarded_answers:
  assumes "executions_end env" "in_guard (ps_phase s i)"
  shows "\<exists>s'. brings env reqs i s s' \<and> answered reqs i s'"
proof (cases "ps_phase s i")
  case (Ph_Pinned p ob c n)
  let ?u = "set_phase i (Ph_Executing p ob c n (ps_desks s (rq_key (reqs i))) (ps_outside s (rq_key (reqs i)))) s"
  have u: "brings env reqs i s ?u" using Execute[OF Ph_Pinned] by (rule brings_step) (rule set_phase_other)
  have "ps_phase ?u i = Ph_Executing p ob c n (ps_desks s (rq_key (reqs i))) (ps_outside s (rq_key (reqs i)))"
    by (simp add: set_phase_def)
  from executing_answers[OF assms(1) this] show ?thesis using brings_trans[OF u] by blast
qed (use assms gated_answers ready_answers executing_answers in auto)

lemma waiting_answers:
  assumes "executions_end env" "ps_phase s i = Ph_Waiting p ob pr" "ps_guard s (rq_key (reqs i)) = None"
  shows "\<exists>s'. brings env reqs i s s' \<and> answered reqs i s'"
proof -
  let ?t = "set_phase i (Ph_Gated Gate_Busy p ob pr) (s\<lparr>ps_guard := (ps_guard s)(rq_key (reqs i) := Some i)\<rparr>)"
  have "brings env reqs i s ?t" using Lock[of s i p ob pr reqs env, OF assms(2,3)] by (rule brings_step) (simp add: set_phase_def)
  moreover have "ps_phase ?t i = Ph_Gated Gate_Busy p ob pr" by (simp add: set_phase_def)
  ultimately show ?thesis using gated_answers[OF assms(1)] brings_trans by blast
qed

lemma new_moves:
  assumes "ps_phase s i = Ph_New"
  shows "\<exists>s'. brings env reqs i s s' \<and> ps_guard s' = ps_guard s \<and>
    ((\<exists>r. ps_phase s' i = Ph_Done r) \<or> (\<exists>p ob pr. ps_phase s' i = Ph_Waiting p ob pr))"
proof -
  obtain x n where r: "observe_request env (reqs i)
      (fst (ps_desks s (rq_key (reqs i)) (rq_path (reqs i)))) (ps_nonce s) = (x, n)" by fastforce
  show ?thesis
  proof (cases x)
    case (Inl e)
    let ?t = "set_phase i (Ph_Done e) (s\<lparr>ps_nonce := n\<rparr>)"
    have "server_step env reqs s ?t" using Observe_refused[OF assms] r Inl by blast
    then have "brings env reqs i s ?t" by (rule brings_step) (simp add: set_phase_def)
    then show ?thesis by (intro exI[of _ ?t]) (simp add: set_phase_def)
  next
    case (Inr y)
    obtain p ob pr where y: "y = (p, ob, pr)" by (cases y)
    let ?t = "set_phase i (Ph_Waiting p ob pr) (s\<lparr>ps_nonce := n\<rparr>)"
    have "server_step env reqs s ?t" using Observe[OF assms] r Inr y by blast
    then have "brings env reqs i s ?t" by (rule brings_step) (simp add: set_phase_def)
    then show ?thesis by (intro exI[of _ ?t]) (simp add: set_phase_def)
  qed
qed

text \<open>Whoever holds the guard of a repository can be answered, and the guard is free then.\<close>

lemma guard_can_be_freed:
  assumes "executions_end env" "pipeline_inv env reqs s" "\<not> in_guard (ps_phase s i)"
  shows "\<exists>s'. (server_step env reqs)\<^sup>*\<^sup>* s s' \<and> ps_phase s' i = ps_phase s i \<and> ps_guard s' (rq_key (reqs i)) = None"
proof (cases "ps_guard s (rq_key (reqs i))")
  case (Some j)
  with assms(2) have j: "in_guard (ps_phase s j)" "rq_key (reqs j) = rq_key (reqs i)" by (auto simp: pipeline_inv_def)
  with assms(3) have "i \<noteq> j" by auto
  with guarded_answers[OF assms(1) j(1), of reqs] j(2) show ?thesis by (auto simp: brings_def answered_def)
qed auto

text \<open>
  C30: every request can be answered, whatever has happened. As long as executions and git commands come
  to an end, the server alone takes any request from any reachable state to its answer: a request that
  waits for the guard waits for one that can finish, and no refusal and no answer leaves a guard behind.
\<close>

theorem every_request_is_answered:
  assumes "(pipeline_step env reqs)\<^sup>*\<^sup>* (initial_pipeline ds) s"
    and "\<And>path p ob ds. \<exists>ds' r. (en_execute_step env path p ob)\<^sup>*\<^sup>* ds ds' \<and> en_execute_done env path p ob ds' r"
    and "\<And>path args ds. \<exists>ds'. en_git env path args ds ds'"
  shows "\<exists>s' r. (server_step env reqs)\<^sup>*\<^sup>* s s' \<and> ps_phase s' i = Ph_Done r"
proof -
  have e: "executions_end env" using assms(2,3) by (simp add: executions_end_def)
  have inv: "pipeline_inv env reqs s" by (rule pipeline_reachable_inv[OF assms(1)])
  have waiting: "\<exists>s' r. (server_step env reqs)\<^sup>*\<^sup>* u s' \<and> ps_phase s' i = Ph_Done r"
    if u: "ps_phase u i = Ph_Waiting p ob pr" "ps_guard u (rq_key (reqs i)) = None" for u p ob pr
    using waiting_answers[of env u i p ob pr reqs, OF e u] by (auto simp: brings_def answered_def)
  obtain s1 where s1: "(server_step env reqs)\<^sup>*\<^sup>* s s1" "ps_phase s1 i = ps_phase s i"
    "in_guard (ps_phase s i) \<or> ps_guard s1 (rq_key (reqs i)) = None"
    using guard_can_be_freed[OF e inv] by blast
  have "\<exists>s' r. (server_step env reqs)\<^sup>*\<^sup>* s1 s' \<and> ps_phase s' i = Ph_Done r"
  proof (cases "ps_phase s i")
    case Ph_New
    with new_moves[of s1 i env reqs] s1(2) obtain s2 where s2: "(server_step env reqs)\<^sup>*\<^sup>* s1 s2"
      "ps_guard s2 = ps_guard s1" "(\<exists>r. ps_phase s2 i = Ph_Done r) \<or> (\<exists>p ob pr. ps_phase s2 i = Ph_Waiting p ob pr)"
      by (auto simp: brings_def)
    have g: "ps_guard s2 (rq_key (reqs i)) = None" using s1(3) s2(2) Ph_New by simp
    from s2(3) show ?thesis
    proof
      assume "\<exists>p ob pr. ps_phase s2 i = Ph_Waiting p ob pr"
      with waiting[OF _ g] rtranclp_trans[OF s2(1)] show ?thesis by blast
    qed (use s2(1) in blast)
  next
    case (Ph_Waiting p ob pr)
    with s1 waiting[of s1 p ob pr] show ?thesis by simp
  next
    case (Ph_Done r)
    with s1(2) show ?thesis by (intro exI[of _ s1]) simp
  qed (use guarded_answers[OF e, of s1 i reqs] s1(2) in \<open>auto simp: brings_def answered_def\<close>)
  with rtranclp_trans[OF s1(1)] show ?thesis by blast
qed

subsection \<open>A concrete run\<close>

definition sample_environment :: environment where
  "sample_environment = \<lparr>en_digest = view_digest, en_op_hash = (\<lambda>_. []), en_show_debug = (\<lambda>_. []),
     en_load = (\<lambda>_. Lookup_Missing), en_git = (\<lambda>path args ds ds'. ds' = ds), en_execute_step = (\<lambda>path p ob ds ds'. False),
     en_execute_done = (\<lambda>path p ob ds r. r = (200, []))\<rparr>"

definition sample_request :: request where
  "sample_request = \<lparr>rq_key = Key_Unregistered, rq_path = ''/w'', rq_tokens = (''r'', ''w''),
     rq_source = Build (CheckoutBranch ''y''), rq_proof = Proof_Nothing, rq_operation = Some ''o''\<rparr>"

definition sample_desks :: desks where
  "sample_desks = (\<lambda>_. (sample_view ''0a'', \<lparr>lw_unix = True, lw_files = Map.empty, lw_proc = None\<rparr>))"

abbreviation sample_start :: pipeline where
  "sample_start \<equiv> initial_pipeline (\<lambda>_. sample_desks)"

abbreviation sample_reach :: "pipeline \<Rightarrow> bool" where
  "sample_reach \<equiv> (pipeline_step sample_environment (\<lambda>_. sample_request))\<^sup>*\<^sup>* sample_start"

text \<open>The first request alone, in a phase of its own, with the guard and the desks of the start.\<close>

definition alone :: "phase \<Rightarrow> pipeline \<Rightarrow> bool" where
  "alone ph s \<longleftrightarrow> sample_reach s \<and> ps_phase s 0 = ph \<and> ps_desks s Key_Unregistered = sample_desks \<and>
     ps_outside s Key_Unregistered = 0 \<and> ps_guard s Key_Unregistered = (if in_guard ph then Some 0 else None)"

lemma alone_step:
  assumes "alone ph s" "server_step sample_environment (\<lambda>_. sample_request) s s'"
    "ps_phase s' 0 = ph'" "ps_desks s' Key_Unregistered = sample_desks" "ps_outside s' Key_Unregistered = 0"
    "ps_guard s' Key_Unregistered = (if in_guard ph' then Some 0 else None)"
  shows "alone ph' s'"
  using assms by (auto simp: alone_def pipeline_step_def intro: rtranclp.rtrancl_into_rtrancl)

lemma sample_gate:
  assumes "build_plan view_digest (\<lambda>_. []) (sample_view ''0a'') (CheckoutBranch ''y'') (''r'', ''w'') m = ((p, ob), m')"
  shows "\<exists>n'. run_gate sample_environment g p ob Proof_Nothing (sample_desks ''/w'') n = (Inr (sample_desks ''/w''), n')"
proof (cases g)
  case Gate_Busy
  have "absolute_git_dir (sample_view ''0a'') = Inr None"
    by (simp add: absolute_git_dir_def sample_view_def)
  with Gate_Busy show ?thesis by (simp add: run_gate_def refuse_if_git_busy_def sample_desks_def)
next
  case Gate_Validate
  have "validate_plan (\<lambda>_. []) (rv_now (sample_view ''0a'')) p = Inr ()"
    using assms by (auto simp: build_plan_def Let_def split_beta validate_plan_def plan_ttl_secs_def)
  with Gate_Validate show ?thesis by (simp add: run_gate_def sample_environment_def sample_desks_def)
next
  case Gate_Fresh
  have "fst (enforce_fresh view_digest (\<lambda>_. []) (sample_view ''0a'') p ob n) = Inr ()"
    by (rule sample_checkout_gate[OF assms])
  with Gate_Fresh show ?thesis
    by (auto simp: run_gate_def sample_environment_def sample_desks_def split: prod.splits sum.splits)
qed (simp add: run_gate_def proof_holds_def)

lemma alone_gate:
  assumes "alone (Ph_Gated g p ob Proof_Nothing) s"
    "build_plan view_digest (\<lambda>_. []) (sample_view ''0a'') (CheckoutBranch ''y'') (''r'', ''w'') m = ((p, ob), m')"
  shows "\<exists>s'. alone (case next_gate g of Some g' \<Rightarrow> Ph_Gated g' p ob Proof_Nothing | None \<Rightarrow> Ph_Ready p ob sample_desks 0) s'"
proof -
  from assms(1) have s: "ps_phase s 0 = Ph_Gated g p ob Proof_Nothing" "ps_desks s Key_Unregistered = sample_desks"
    "ps_guard s Key_Unregistered = Some 0" "ps_outside s Key_Unregistered = 0"
    by (simp_all add: alone_def)
  have k: "rq_key sample_request = Key_Unregistered" "rq_path sample_request = ''/w''"
    by (simp_all add: sample_request_def)
  from sample_gate[OF assms(2)] obtain n' where r: "run_gate sample_environment g p ob Proof_Nothing
      (ps_desks s (rq_key sample_request) (rq_path sample_request)) (ps_nonce s) = (Inr (sample_desks ''/w''), n')"
    unfolding s k by blast
  show ?thesis
  proof (cases "next_gate g")
    case None
    from Gates_passed[OF s(1) None, of sample_environment "\<lambda>_. sample_request", OF r]
    show ?thesis
      by (intro exI, intro alone_step[OF assms(1)]) (auto simp: None set_phase_def s k)
  next
    case (Some g')
    from Gate_passed[OF s(1) Some, of sample_environment "\<lambda>_. sample_request", OF r]
    show ?thesis
      by (intro exI, intro alone_step[OF assms(1)]) (auto simp: Some set_phase_def set_desk_def s k)
  qed
qed

lemma sample_pipeline_run:
  "\<exists>s p ob. alone (Ph_Executing p ob sample_desks 0 sample_desks 0) s"
proof -
  have k: "rq_key sample_request = Key_Unregistered" "rq_path sample_request = ''/w''"
    by (simp_all add: sample_request_def)
  have start: "alone Ph_New sample_start" by (simp add: alone_def initial_pipeline_def)
  obtain p ob m' where e: "build_plan view_digest (\<lambda>_. []) (sample_view ''0a'') (CheckoutBranch ''y'') (''r'', ''w'') 0 = ((p, ob), m')"
    by (metis prod.exhaust)
  have o: "observe_request sample_environment sample_request
      (fst (ps_desks sample_start (rq_key sample_request) (rq_path sample_request))) (ps_nonce sample_start) =
      (Inr (p, ob, Proof_Nothing), m')"
    by (simp add: observe_request_def sample_request_def sample_environment_def initial_pipeline_def sample_desks_def e)
  have "ps_phase sample_start 0 = Ph_New" by (simp add: initial_pipeline_def)
  from Observe[OF this, of sample_environment "\<lambda>_. sample_request", OF o]
  have "\<exists>s. alone (Ph_Waiting p ob Proof_Nothing) s"
    by (intro exI, intro alone_step[OF start]) (auto simp: set_phase_def initial_pipeline_def)
  then obtain s1 where s1: "alone (Ph_Waiting p ob Proof_Nothing) s1" by blast
  then have w: "ps_phase s1 0 = Ph_Waiting p ob Proof_Nothing" "ps_guard s1 (rq_key sample_request) = None"
    "ps_desks s1 Key_Unregistered = sample_desks" "ps_outside s1 Key_Unregistered = 0"
    by (simp_all add: alone_def k)
  from Lock[OF w(1), of "\<lambda>_. sample_request" sample_environment, OF w(2)]
  have "\<exists>s. alone (Ph_Gated Gate_Busy p ob Proof_Nothing) s"
    by (intro exI, intro alone_step[OF s1]) (auto simp: set_phase_def k w)
  then obtain s2 where "alone (Ph_Gated Gate_Busy p ob Proof_Nothing) s2" by blast
  from alone_gate[OF this e] obtain s3 where "alone (Ph_Gated Gate_Proof p ob Proof_Nothing) s3" by auto
  from alone_gate[OF this e] obtain s4 where "alone (Ph_Gated Gate_Validate p ob Proof_Nothing) s4" by auto
  from alone_gate[OF this e] obtain s5 where "alone (Ph_Gated Gate_Fresh p ob Proof_Nothing) s5" by auto
  from alone_gate[OF this e] obtain s6 where s6: "alone (Ph_Ready p ob sample_desks 0) s6" by auto
  then have w: "ps_phase s6 0 = Ph_Ready p ob sample_desks 0" "ps_desks s6 Key_Unregistered = sample_desks"
    "ps_outside s6 Key_Unregistered = 0" "ps_guard s6 Key_Unregistered = Some 0" by (simp_all add: alone_def)
  have "pinned sample_environment sample_request p (ps_desks s6 (rq_key sample_request)) sample_desks"
    by (simp add: pinned_def sample_environment_def w k split: option.splits)
  from Pin[OF w(1), of _ "\<lambda>_. sample_request", OF this]
  have "\<exists>s. alone (Ph_Pinned p ob sample_desks 0) s"
    by (intro exI, intro alone_step[OF s6]) (auto simp: set_phase_def k w)
  then obtain s7 where s7: "alone (Ph_Pinned p ob sample_desks 0) s7" by blast
  then have "ps_phase s7 0 = Ph_Pinned p ob sample_desks 0" by (simp add: alone_def)
  from Execute[OF this, of sample_environment "\<lambda>_. sample_request"]
  have "alone (Ph_Executing p ob sample_desks 0 sample_desks 0)
      (set_phase 0 (Ph_Executing p ob sample_desks 0 (ps_desks s7 Key_Unregistered) (ps_outside s7 Key_Unregistered)) s7)"
    using s7 by (intro alone_step[OF s7]) (auto simp: set_phase_def k alone_def)
  then show ?thesis by blast
qed

lemma executes_what_was_checked_witness:
  "\<exists>s p ob n. sample_reach s \<and> ps_phase s 0 = Ph_Executing p ob sample_desks 0 sample_desks 0 \<and>
     fst (enforce_fresh view_digest (\<lambda>_. []) (sample_view ''0a'') p ob n) = Inr ()"
proof -
  from sample_pipeline_run obtain s p ob where s: "sample_reach s" "ps_phase s 0 = Ph_Executing p ob sample_desks 0 sample_desks 0"
    unfolding alone_def by blast
  from executes_what_was_checked[OF s] s show ?thesis
    by (auto simp: sample_environment_def sample_desks_def)
qed

lemma one_mutation_per_repository_witness:
  "\<exists>s. sample_reach s \<and> in_guard (ps_phase s 0) \<and> \<not> in_guard (ps_phase s 1)"
proof -
  from sample_pipeline_run obtain s p ob where s: "sample_reach s" "ps_phase s 0 = Ph_Executing p ob sample_desks 0 sample_desks 0"
    unfolding alone_def by blast
  then have g: "in_guard (ps_phase s 0)" by simp
  have "\<not> in_guard (ps_phase s 1)"
    using one_mutation_per_repository[OF s(1) g, of 1] by auto
  with s(1) g show ?thesis by blast
qed

lemma every_request_is_answered_witness:
  "\<exists>s s' r. sample_reach s \<and> in_guard (ps_phase s 0) \<and>
     (server_step sample_environment (\<lambda>_. sample_request))\<^sup>*\<^sup>* s s' \<and> ps_phase s' 1 = Ph_Done r"
proof -
  from sample_pipeline_run obtain s p ob where s: "sample_reach s" "ps_phase s 0 = Ph_Executing p ob sample_desks 0 sample_desks 0"
    unfolding alone_def by blast
  have "\<exists>s' r. (server_step sample_environment (\<lambda>_. sample_request))\<^sup>*\<^sup>* s s' \<and> ps_phase s' 1 = Ph_Done r"
    by (rule every_request_is_answered[OF s(1)]) (auto simp: sample_environment_def)
  with s show ?thesis by (metis in_guard.simps(4))
qed

end
