(* ===== verification/Status_Parse.thy ===== *)
theory Status_Parse imports Paths begin

text \<open>
  \<open>crates/git-vista-protocol/src/status.rs\<close>: the entries of a working-tree status and the parser
  of \<open>git status --porcelain=v2 --branch -z\<close>. A record is one NUL-terminated token, except a rename,
  whose old path is the token after it. Whatever does not read as a record is skipped.
\<close>

subsection \<open>The status\<close>

datatype change_kind = Kind_Added | Kind_Modified | Kind_Deleted

datatype change_sides =
    StagedOnly change_kind
  | UnstagedOnly change_kind
  | BothSides change_kind change_kind

datatype conflict_kind =
    BothDeleted | AddedByUs | DeletedByThem | AddedByThem | DeletedByUs | BothAdded | BothModified

record submodule_state =
  sm_commit_changed :: bool
  sm_has_tracked_changes :: bool
  sm_has_untracked_changes :: bool

text \<open>The fields of a variant are in the order of the source's.\<close>

datatype status_entry =
    Entry_Changed string change_sides "submodule_state option" bool
  | Entry_Renamed string string u8 "change_kind option" "submodule_state option" bool
  | Entry_Untracked string bool
  | Entry_Ignored string
  | Entry_Conflicted string conflict_kind "submodule_state option"

record parsed_status =
  ps_branch :: "string option"
  ps_upstream :: "string option"
  ps_ahead :: u32
  ps_behind :: u32
  ps_entries :: "status_entry list"

definition default_status :: parsed_status where
  "default_status = \<lparr>ps_branch = None, ps_upstream = None, ps_ahead = 0, ps_behind = 0, ps_entries = []\<rparr>"

subsection \<open>Fields of a record\<close>

text \<open>\<open>split_ascii_whitespace\<close>, with the word read so far.\<close>

definition ascii_space :: "char \<Rightarrow> bool" where
  "ascii_space c \<longleftrightarrow> c \<in> {CHR 0x09, CHR 0x0A, CHR 0x0C, CHR 0x0D, CHR 0x20}"

fun ascii_words_from :: "string \<Rightarrow> string \<Rightarrow> string list" where
  "ascii_words_from cur [] = (if cur = [] then [] else [cur])"
| "ascii_words_from cur (c # s) =
     (if ascii_space c then (if cur = [] then [] else [cur]) @ ascii_words_from [] s
      else ascii_words_from (cur @ [c]) s)"

definition nth_field :: "string \<Rightarrow> nat \<Rightarrow> string option" where
  "nth_field line n =
     (let ws = ascii_words_from [] line in if n < length ws then Some (ws ! n) else None)"

text \<open>What follows the first blank.\<close>

fun after_blank :: "string \<Rightarrow> string option" where
  "after_blank [] = None"
| "after_blank (c # s) = (if c = CHR 0x20 then Some s else after_blank s)"

fun skip_fields :: "nat \<Rightarrow> string \<Rightarrow> string option" where
  "skip_fields 0 s = Some s"
| "skip_fields (Suc n) s = Option.bind (after_blank s) (skip_fields n)"

definition nth_field_rest :: "string \<Rightarrow> nat \<Rightarrow> string option" where
  "nth_field_rest line n = Option.bind (skip_fields n line) (\<lambda>s. if s = [] then None else Some s)"

definition parse_submodule :: "string \<Rightarrow> submodule_state option" where
  "parse_submodule field =
     (if length field \<noteq> 4 \<or> field ! 0 \<noteq> CHR ''S'' then None
      else Some \<lparr>sm_commit_changed = (field ! 1 = CHR ''C''),
                 sm_has_tracked_changes = (field ! 2 = CHR ''M''),
                 sm_has_untracked_changes = (field ! 3 = CHR ''U'')\<rparr>)"

definition change_kind_from_letter :: "char \<Rightarrow> change_kind option" where
  "change_kind_from_letter b =
     (if b = CHR ''A'' then Some Kind_Added
      else if b = CHR ''M'' \<or> b = CHR ''T'' then Some Kind_Modified
      else if b = CHR ''D'' then Some Kind_Deleted
      else None)"

definition change_sides_from_xy :: "string \<Rightarrow> change_sides option" where
  "change_sides_from_xy xy =
     (if length xy \<noteq> 2 then None
      else case (change_kind_from_letter (xy ! 0), change_kind_from_letter (xy ! 1)) of
             (Some staged, Some unstaged) \<Rightarrow> Some (BothSides staged unstaged)
           | (Some staged, None) \<Rightarrow> Some (StagedOnly staged)
           | (None, Some unstaged) \<Rightarrow> Some (UnstagedOnly unstaged)
           | (None, None) \<Rightarrow> None)"

definition conflict_kind_from_xy :: "string \<Rightarrow> conflict_kind option" where
  "conflict_kind_from_xy xy =
     (if xy = ''DD'' then Some BothDeleted
      else if xy = ''AU'' then Some AddedByUs
      else if xy = ''UD'' then Some DeletedByThem
      else if xy = ''UA'' then Some AddedByThem
      else if xy = ''DU'' then Some DeletedByUs
      else if xy = ''AA'' then Some BothAdded
      else if xy = ''UU'' then Some BothModified
      else None)"

subsection \<open>Records\<close>

definition parse_changed :: "string \<Rightarrow> status_entry option" where
  "parse_changed line =
     Option.bind (nth_field line 1) (\<lambda>xy.
     Option.bind (nth_field line 2) (\<lambda>sub.
     Option.bind (nth_field_rest line 8) (\<lambda>path.
     Option.bind (change_sides_from_xy xy) (\<lambda>sides.
       Some (Entry_Changed path sides (parse_submodule sub) False)))))"

text \<open>\<open>xscore.get(1..)\<close>: there is none when byte 1 lies inside a character.\<close>

fun from_byte_one :: "string \<Rightarrow> string option" where
  "from_byte_one [] = None"
| "from_byte_one [c] = Some []"
| "from_byte_one (c # d # s) = (if tail_byte d then None else Some (d # s))"

definition parse_renamed :: "string \<Rightarrow> string \<Rightarrow> status_entry option" where
  "parse_renamed line origin_path =
     Option.bind (nth_field line 1) (\<lambda>xy.
     Option.bind (nth_field line 2) (\<lambda>sub.
     Option.bind (nth_field line 8) (\<lambda>xscore.
     Option.bind (nth_field_rest line 9) (\<lambda>path.
     Option.bind (if 1 < length xy then Some (xy ! 1) else None) (\<lambda>y.
     Option.bind (Option.bind (from_byte_one xscore) parse_u8) (\<lambda>score.
       Some (Entry_Renamed path origin_path score (change_kind_from_letter y)
               (parse_submodule sub) False)))))))"

definition parse_conflicted :: "string \<Rightarrow> status_entry option" where
  "parse_conflicted line =
     Option.bind (nth_field line 1) (\<lambda>xy.
     Option.bind (nth_field line 2) (\<lambda>sub.
     Option.bind (nth_field_rest line 10) (\<lambda>path.
     Option.bind (conflict_kind_from_xy xy) (\<lambda>kind.
       Some (Entry_Conflicted path kind (parse_submodule sub))))))"

subsection \<open>Headers\<close>

definition or_zero :: "u32 option \<Rightarrow> u32" where
  "or_zero n = (case n of Some k \<Rightarrow> k | None \<Rightarrow> 0)"

fun parse_ahead_behind :: "string list \<Rightarrow> parsed_status \<Rightarrow> parsed_status" where
  "parse_ahead_behind [] status = status"
| "parse_ahead_behind (part # parts) status =
     parse_ahead_behind parts
       (case strip_prefix ''+'' part of
          Some n \<Rightarrow> status\<lparr>ps_ahead := or_zero (parse_u32 n)\<rparr>
        | None \<Rightarrow>
            (case strip_prefix ''-'' part of
               Some n \<Rightarrow> status\<lparr>ps_behind := or_zero (parse_u32 n)\<rparr>
             | None \<Rightarrow> status))"

definition parse_header :: "string \<Rightarrow> parsed_status \<Rightarrow> parsed_status" where
  "parse_header line status =
     (case strip_prefix ''# branch.head '' line of
        Some head \<Rightarrow> if head \<noteq> ''(detached)'' then status\<lparr>ps_branch := Some head\<rparr> else status
      | None \<Rightarrow>
          (case strip_prefix ''# branch.upstream '' line of
             Some upstream \<Rightarrow> status\<lparr>ps_upstream := Some upstream\<rparr>
           | None \<Rightarrow>
               (case strip_prefix ''# branch.ab '' line of
                  Some ab \<Rightarrow> parse_ahead_behind (split_whitespace ab) status
                | None \<Rightarrow> status)))"

subsection \<open>The stream\<close>

definition push_entry :: "status_entry option \<Rightarrow> parsed_status \<Rightarrow> parsed_status" where
  "push_entry e status =
     (case e of Some entry \<Rightarrow> status\<lparr>ps_entries := ps_entries status @ [entry]\<rparr> | None \<Rightarrow> status)"

text \<open>A token that is not a rename; \<open>line\<close> is its lossy text.\<close>

definition parse_token :: "string \<Rightarrow> parsed_status \<Rightarrow> parsed_status" where
  "parse_token line status =
     (case line of
        [] \<Rightarrow> status
      | b # r \<Rightarrow>
          if b = CHR ''#'' then parse_header line status
          else if b = CHR ''1'' then push_entry (parse_changed line) status
          else if b = CHR ''u'' then push_entry (parse_conflicted line) status
          else if b = CHR ''?'' then
            push_entry (map_option (\<lambda>p. Entry_Untracked p False) (strip_prefix ''? '' line)) status
          else if b = CHR ''!'' then
            push_entry (map_option Entry_Ignored (strip_prefix ''! '' line)) status
          else status)"

definition rename_token :: "string \<Rightarrow> bool" where
  "rename_token line \<longleftrightarrow> line \<noteq> [] \<and> hd line = CHR ''2''"

fun parse_tokens :: "string list \<Rightarrow> parsed_status \<Rightarrow> parsed_status" where
  "parse_tokens [] status = status"
| "parse_tokens [tok] status =
     (if rename_token (utf8_lossy tok) then status else parse_token (utf8_lossy tok) status)"
| "parse_tokens (tok # orig # toks) status =
     (if rename_token (utf8_lossy tok)
      then parse_tokens toks (push_entry (parse_renamed (utf8_lossy tok) (utf8_lossy orig)) status)
      else parse_tokens (orig # toks) (parse_token (utf8_lossy tok) status))"

definition parse_porcelain_v2_z :: "string \<Rightarrow> parsed_status" where
  "parse_porcelain_v2_z bytes =
     parse_tokens (filter (\<lambda>t. t \<noteq> []) (split_on (CHR 0x00) bytes)) default_status"


subsection \<open>What git prints\<close>

text \<open>
  A record as git prints it: the letters, the submodule state, the words the parser does not read
  (modes and object ids), the similarity of a rename with its letter, and the paths, as bytes.
\<close>

datatype git_record =
    G_Changed char char "submodule_state option" "string list" string
  | G_Renamed char char "submodule_state option" "string list" u8 string string
  | G_Unmerged conflict_kind "submodule_state option" "string list" string
  | G_Untracked string
  | G_Ignored string

fun print_sub :: "submodule_state option \<Rightarrow> string" where
  "print_sub None = ''N...''"
| "print_sub (Some sm) =
     [CHR ''S'', if sm_commit_changed sm then CHR ''C'' else CHR ''.'',
      if sm_has_tracked_changes sm then CHR ''M'' else CHR ''.'',
      if sm_has_untracked_changes sm then CHR ''U'' else CHR ''.'']"

fun conflict_letters :: "conflict_kind \<Rightarrow> string" where
  "conflict_letters BothDeleted = ''DD''"
| "conflict_letters AddedByUs = ''AU''"
| "conflict_letters DeletedByThem = ''UD''"
| "conflict_letters AddedByThem = ''UA''"
| "conflict_letters DeletedByUs = ''DU''"
| "conflict_letters BothAdded = ''AA''"
| "conflict_letters BothModified = ''UU''"

definition record_line :: "string list \<Rightarrow> string \<Rightarrow> string" where
  "record_line ws path = concat (map (\<lambda>w. w @ '' '') ws) @ path"

fun record_tokens :: "git_record \<Rightarrow> string list" where
  "record_tokens (G_Changed x y sm meta path) = [record_line ([''1'', [x, y], print_sub sm] @ meta) path]"
| "record_tokens (G_Renamed x y sm meta score path orig) =
     [record_line ([''2'', [x, y], print_sub sm] @ meta @ [x # decimal (uint score)]) path, orig]"
| "record_tokens (G_Unmerged kind sm meta path) =
     [record_line ([''u'', conflict_letters kind, print_sub sm] @ meta) path]"
| "record_tokens (G_Untracked path) = [''? '' @ path]"
| "record_tokens (G_Ignored path) = [''! '' @ path]"

fun record_entry :: "git_record \<Rightarrow> status_entry option" where
  "record_entry (G_Changed x y sm meta path) =
     map_option (\<lambda>sides. Entry_Changed (utf8_lossy path) sides sm False) (change_sides_from_xy [x, y])"
| "record_entry (G_Renamed x y sm meta score path orig) =
     Some (Entry_Renamed (utf8_lossy path) (utf8_lossy orig) score (change_kind_from_letter y) sm False)"
| "record_entry (G_Unmerged kind sm meta path) = Some (Entry_Conflicted (utf8_lossy path) kind sm)"
| "record_entry (G_Untracked path) = Some (Entry_Untracked (utf8_lossy path) False)"
| "record_entry (G_Ignored path) = Some (Entry_Ignored (utf8_lossy path))"

text \<open>Words of ASCII letters, paths without NUL, and as many unread words as the format has.\<close>

definition plain_word :: "string \<Rightarrow> bool" where
  "plain_word w \<longleftrightarrow> w \<noteq> [] \<and> list_all (\<lambda>c. \<not> ascii_space c \<and> byte c < 128 \<and> c \<noteq> CHR 0x00) w"

definition path_bytes :: "string \<Rightarrow> bool" where
  "path_bytes p \<longleftrightarrow> p \<noteq> [] \<and> CHR 0x00 \<notin> set p"

fun wf_git_record :: "git_record \<Rightarrow> bool" where
  "wf_git_record (G_Changed x y sm meta path) \<longleftrightarrow>
     plain_word [x, y] \<and> list_all plain_word meta \<and> length meta = 5 \<and> path_bytes path"
| "wf_git_record (G_Renamed x y sm meta score path orig) \<longleftrightarrow>
     plain_word [x, y] \<and> list_all plain_word meta \<and> length meta = 5 \<and> path_bytes path \<and> path_bytes orig"
| "wf_git_record (G_Unmerged kind sm meta path) \<longleftrightarrow>
     list_all plain_word meta \<and> length meta = 7 \<and> path_bytes path"
| "wf_git_record (G_Untracked path) \<longleftrightarrow> path_bytes path"
| "wf_git_record (G_Ignored path) \<longleftrightarrow> path_bytes path"

definition nul_terminated :: "string list \<Rightarrow> string" where
  "nul_terminated toks = concat (map (\<lambda>t. t @ [CHR 0x00]) toks)"

subsection \<open>Reading a record\<close>

lemma utf8_lossy_ascii: "byte c < 128 \<Longrightarrow> utf8_lossy (c # s) = c # utf8_lossy s"
  by (simp add: sequence_def)

lemma utf8_lossy_ascii_append: "list_all (\<lambda>c. byte c < 128) a \<Longrightarrow> utf8_lossy (a @ s) = a @ utf8_lossy s"
  by (induction a) (simp_all add: utf8_lossy_ascii del: utf8_lossy.simps(2))

lemma utf8_lossy_nonempty: "s \<noteq> [] \<Longrightarrow> utf8_lossy s \<noteq> []"
proof (cases s)
  case (Cons c t)
  have "0 < fst (sequence c t)" by (rule sequence_pos)
  with Cons show ?thesis by (auto simp: replacement_def split: prod.splits)
qed simp

lemma ascii_words_word:
  "list_all (\<lambda>c. \<not> ascii_space c) w \<Longrightarrow> cur @ w \<noteq> [] \<Longrightarrow>
   ascii_words_from cur (w @ CHR 0x20 # s) = (cur @ w) # ascii_words_from [] s"
  by (induction w arbitrary: cur) (simp_all add: ascii_space_def)

lemma ascii_words_line:
  "list_all plain_word ws \<Longrightarrow> ascii_words_from [] (record_line ws path) = ws @ ascii_words_from [] path"
proof (induction ws)
  case (Cons w ws)
  then have "list_all (\<lambda>c. \<not> ascii_space c) w" "w \<noteq> []" by (auto simp: plain_word_def list_all_iff)
  from ascii_words_word[OF this(1), of "[]"] this(2) Cons show ?case by (simp add: record_line_def)
qed (simp add: record_line_def)

lemma nth_field_line:
  "list_all plain_word ws \<Longrightarrow> n < length ws \<Longrightarrow> nth_field (record_line ws path) n = Some (ws ! n)"
  by (simp add: nth_field_def ascii_words_line nth_append Let_def)

lemma after_blank_word: "list_all (\<lambda>c. \<not> ascii_space c) w \<Longrightarrow> after_blank (w @ CHR 0x20 # s) = Some s"
  by (induction w) (auto simp: ascii_space_def)

lemma skip_fields_line: "list_all plain_word ws \<Longrightarrow> skip_fields (length ws) (record_line ws path) = Some path"
proof (induction ws)
  case (Cons w ws)
  then have "list_all (\<lambda>c. \<not> ascii_space c) w" by (auto simp: plain_word_def list_all_iff)
  from after_blank_word[OF this] Cons show ?case by (simp add: record_line_def)
qed (simp add: record_line_def)

lemma nth_field_rest_line:
  "list_all plain_word ws \<Longrightarrow> n = length ws \<Longrightarrow> path \<noteq> [] \<Longrightarrow> nth_field_rest (record_line ws path) n = Some path"
  by (simp add: nth_field_rest_def skip_fields_line)

lemma utf8_lossy_line:
  "list_all plain_word ws \<Longrightarrow> utf8_lossy (record_line ws path) = record_line ws (utf8_lossy path)"
proof (induction ws)
  case (Cons w ws)
  then have "list_all (\<lambda>c. byte c < 128) (w @ '' '')" by (auto simp: plain_word_def list_all_iff byte_def)
  from utf8_lossy_ascii_append[OF this] Cons show ?case by (simp add: record_line_def)
qed (simp add: record_line_def)

lemma parse_print_sub: "parse_submodule (print_sub sm) = sm"
  by (cases sm) (auto simp: parse_submodule_def)

lemma plain_print_sub: "plain_word (print_sub sm)"
  by (cases sm) (auto simp: plain_word_def ascii_space_def byte_def)

lemma conflict_letters_read: "conflict_kind_from_xy (conflict_letters k) = Some k"
  by (cases k) (simp_all add: conflict_kind_from_xy_def)

lemma plain_conflict_letters: "plain_word (conflict_letters k)"
  by (cases k) (simp_all add: plain_word_def ascii_space_def byte_def)


lemma plain_decimal: "0 \<le> n \<Longrightarrow> list_all (\<lambda>c. \<not> ascii_space c \<and> byte c < 128 \<and> c \<noteq> CHR 0x00) (decimal n)"
proof -
  assume n: "0 \<le> n"
  have "\<not> ascii_space c \<and> byte c < 128 \<and> c \<noteq> CHR 0x00" if "c \<in> set (decimal n)" for c
    using decimal_digits[OF n that] by (auto simp: ascii_space_def byte_def)
  then show ?thesis by (simp add: list_all_iff)
qed

lemma parse_u8_decimal: "parse_u8 (decimal (uint (w :: u8))) = Some w"
proof -
  have "uint w < 2 ^ LENGTH(8)" by (rule unsigned_less)
  then show ?thesis by (simp add: parse_u8_def parse_uint_decimal)
qed

lemma from_byte_one_decimal: "0 \<le> n \<Longrightarrow> from_byte_one (x # decimal n) = Some (decimal n)"
proof -
  assume n: "0 \<le> n"
  have "decimal n \<noteq> []" by (rule decimal_nonempty)
  moreover have "\<not> tail_byte c" if "c \<in> set (decimal n)" for c
    using decimal_digits[OF n that] by (auto simp: tail_byte_def byte_def)
  ultimately show ?thesis by (cases "decimal n") auto
qed

lemmas record_line_fields = nth_field_line nth_field_rest_line utf8_lossy_line

lemma not_rename_line: "ws \<noteq> [] \<Longrightarrow> plain_word (hd ws) \<Longrightarrow> hd (record_line ws p) = hd (hd ws) \<and> record_line ws p \<noteq> []"
  by (cases ws; cases "hd ws") (auto simp: record_line_def plain_word_def)

lemma parse_tokens_single:
  "\<not> rename_token (utf8_lossy tok) \<Longrightarrow>
   parse_tokens (tok # toks) status = parse_tokens toks (parse_token (utf8_lossy tok) status)"
  by (cases toks) simp_all

lemma plain_marker: "plain_word ''1''" "plain_word ''2''" "plain_word ''u''"
  by (simp_all add: plain_word_def ascii_space_def byte_def)

lemma parse_changed_record:
  assumes "plain_word [x, y]" "list_all plain_word meta" "length meta = 5" "path \<noteq> []"
  shows "parse_changed (record_line ([''1'', [x, y], print_sub sm] @ meta) path) =
    map_option (\<lambda>sides. Entry_Changed path sides sm False) (change_sides_from_xy [x, y])"
proof -
  let ?ws = "[''1'', [x, y], print_sub sm] @ meta"
  have ws: "list_all plain_word ?ws" using assms plain_marker plain_print_sub by simp
  have "nth_field (record_line ?ws path) 1 = Some [x, y]" "nth_field (record_line ?ws path) 2 = Some (print_sub sm)"
    by (subst nth_field_line[OF ws]; simp)+
  moreover have "nth_field_rest (record_line ?ws path) 8 = Some path"
    using nth_field_rest_line[OF ws, of 8 path] assms by simp
  ultimately show ?thesis
    by (simp add: parse_changed_def parse_print_sub map_conv_bind_option comp_def del: append.simps)
qed

lemma parse_renamed_record:
  assumes "plain_word [x, y]" "list_all plain_word meta" "length meta = 5" "path \<noteq> []"
  shows "parse_renamed (record_line ([''2'', [x, y], print_sub sm] @ meta @ [x # decimal (uint score)]) path) orig =
    Some (Entry_Renamed path orig score (change_kind_from_letter y) sm False)"
proof -
  let ?ws = "[''2'', [x, y], print_sub sm] @ meta @ [x # decimal (uint score)]"
  have ws: "list_all plain_word ?ws"
    using assms plain_marker plain_print_sub plain_decimal[of "uint score"] by (auto simp: plain_word_def list_all_iff)
  have "nth_field (record_line ?ws path) 1 = Some [x, y]" "nth_field (record_line ?ws path) 2 = Some (print_sub sm)"
    by (subst nth_field_line[OF ws]; simp)+
  moreover have "nth_field (record_line ?ws path) 8 = Some (x # decimal (uint score))"
    using nth_field_line[OF ws, of 8] assms by (simp add: nth_append)
  moreover have "nth_field_rest (record_line ?ws path) 9 = Some path"
    using nth_field_rest_line[OF ws, of 9 path] assms by simp
  ultimately show ?thesis
    by (simp add: parse_renamed_def parse_print_sub from_byte_one_decimal parse_u8_decimal del: append.simps)
qed

lemma parse_conflicted_record:
  assumes "list_all plain_word meta" "length meta = 7" "path \<noteq> []"
  shows "parse_conflicted (record_line ([''u'', conflict_letters kind, print_sub sm] @ meta) path) =
    Some (Entry_Conflicted path kind sm)"
proof -
  let ?ws = "[''u'', conflict_letters kind, print_sub sm] @ meta"
  have ws: "list_all plain_word ?ws" using assms plain_marker plain_print_sub plain_conflict_letters by simp
  have "nth_field (record_line ?ws path) 1 = Some (conflict_letters kind)"
    "nth_field (record_line ?ws path) 2 = Some (print_sub sm)"
    by (subst nth_field_line[OF ws]; simp)+
  moreover have "nth_field_rest (record_line ?ws path) 10 = Some path"
    using nth_field_rest_line[OF ws, of 10 path] assms by simp
  ultimately show ?thesis
    by (simp add: parse_conflicted_def parse_print_sub conflict_letters_read del: append.simps)
qed

lemma record_line_tokens:
  "parse_token (record_line (''1'' # vs) p) status = push_entry (parse_changed (record_line (''1'' # vs) p)) status"
  "parse_token (record_line (''u'' # vs) p) status = push_entry (parse_conflicted (record_line (''u'' # vs) p)) status"
  "\<not> rename_token (record_line (''1'' # vs) p)" "rename_token (record_line (''2'' # vs) p)"
  "\<not> rename_token (record_line (''u'' # vs) p)"
  by (simp_all add: record_line_def parse_token_def rename_token_def)

lemma parse_record:
  assumes "wf_git_record r"
  shows "parse_tokens (record_tokens r @ toks) status = parse_tokens toks (push_entry (record_entry r) status)"
proof (cases r)
  case (G_Changed x y sm meta path)
  with assms have w: "plain_word [x, y]" "list_all plain_word meta" "length meta = 5" "path \<noteq> []"
    by (auto simp: path_bytes_def)
  then have ws: "list_all plain_word ([''1'', [x, y], print_sub sm] @ meta)" using plain_marker plain_print_sub by simp
  show ?thesis
    using G_Changed utf8_lossy_line[OF ws, of path]
      parse_changed_record[OF w(1-3) utf8_lossy_nonempty[OF w(4)], of sm]
    by (simp add: parse_tokens_single record_line_tokens del: parse_tokens.simps)
next
  case (G_Renamed x y sm meta score path orig)
  with assms have w: "plain_word [x, y]" "list_all plain_word meta" "length meta = 5" "path \<noteq> []"
    by (auto simp: path_bytes_def)
  then have ws: "list_all plain_word ([''2'', [x, y], print_sub sm] @ meta @ [x # decimal (uint score)])"
    using plain_marker plain_print_sub plain_decimal[of "uint score"] by (auto simp: plain_word_def list_all_iff)
  show ?thesis
    using G_Renamed utf8_lossy_line[OF ws, of path]
      parse_renamed_record[OF w(1-3) utf8_lossy_nonempty[OF w(4)], of sm score "utf8_lossy orig"]
    by (simp add: record_line_tokens)
next
  case (G_Unmerged kind sm meta path)
  with assms have w: "list_all plain_word meta" "length meta = 7" "path \<noteq> []"
    by (auto simp: path_bytes_def)
  then have ws: "list_all plain_word ([''u'', conflict_letters kind, print_sub sm] @ meta)"
    using plain_marker plain_print_sub plain_conflict_letters by simp
  show ?thesis
    using G_Unmerged utf8_lossy_line[OF ws, of path]
      parse_conflicted_record[OF w(1,2) utf8_lossy_nonempty[OF w(3)], of kind sm]
    by (simp add: parse_tokens_single record_line_tokens del: parse_tokens.simps)
next
  case (G_Untracked path)
  have "utf8_lossy (''? '' @ path) = ''? '' @ utf8_lossy path"
    by (rule utf8_lossy_ascii_append) (simp add: byte_def)
  with G_Untracked show ?thesis
    by (simp add: parse_tokens_single rename_token_def parse_token_def del: parse_tokens.simps utf8_lossy.simps)
next
  case (G_Ignored path)
  have "utf8_lossy (''! '' @ path) = ''! '' @ utf8_lossy path"
    by (rule utf8_lossy_ascii_append) (simp add: byte_def)
  with G_Ignored show ?thesis
    by (simp add: parse_tokens_single rename_token_def parse_token_def del: parse_tokens.simps utf8_lossy.simps)
qed


subsection \<open>The whole stream\<close>

text \<open>The headers: branch or detached, upstream, and how far ahead and behind it the branch is.\<close>

definition header_tokens :: "string \<Rightarrow> string option \<Rightarrow> (string \<times> (u32 \<times> u32) option) option \<Rightarrow> string list" where
  "header_tokens oid branch upstream =
     [''# branch.oid '' @ oid,
      ''# branch.head '' @ (case branch of Some b \<Rightarrow> b | None \<Rightarrow> ''(detached)'')] @
     (case upstream of
        None \<Rightarrow> []
      | Some (u, ab) \<Rightarrow>
          [''# branch.upstream '' @ u] @
          (case ab of
             None \<Rightarrow> []
           | Some (ahead, behind) \<Rightarrow> [''# branch.ab +'' @ show_u32 ahead @ '' -'' @ show_u32 behind]))"

lemma nul_terminated_tokens:
  "list_all path_bytes toks \<Longrightarrow>
   filter (\<lambda>t. t \<noteq> []) (split_on (CHR 0x00) (nul_terminated toks)) = toks"
  by (induction toks) (simp_all add: nul_terminated_def path_bytes_def split_on_append)

lemma map_filter_read:
  "List.map_filter f [] = []"
  "List.map_filter f (x # xs) = (case f x of None \<Rightarrow> List.map_filter f xs | Some y \<Rightarrow> y # List.map_filter f xs)"
  by (simp_all add: map_filter_def split: option.splits)

lemma parse_records:
  "list_all wf_git_record rs \<Longrightarrow>
   parse_tokens (concat (map record_tokens rs)) status =
     status\<lparr>ps_entries := ps_entries status @ List.map_filter record_entry rs\<rparr>"
proof (induction rs arbitrary: status)
  case (Cons r rs)
  then show ?case
    using parse_record[of r "concat (map record_tokens rs)" status]
    by (simp add: push_entry_def map_filter_read split: option.splits)
qed (simp add: map_filter_read)

lemma parse_header_token:
  "parse_tokens ((CHR ''#'' # t) # toks) status = parse_tokens toks (parse_header (CHR ''#'' # utf8_lossy t) status)"
  by (simp add: parse_tokens_single rename_token_def parse_token_def utf8_lossy_ascii byte_def
      del: parse_tokens.simps utf8_lossy.simps)


lemma ws_len_graphic: "33 \<le> byte c \<Longrightarrow> byte c < 127 \<Longrightarrow> ws_len (c # s) = 0"
proof -
  assume c: "33 \<le> byte c" "byte c < 127"
  have "list_all (\<lambda>p. p \<noteq> [] \<and> \<not> (33 \<le> byte (hd p) \<and> byte (hd p) < 127)) white_space"
    by (simp add: white_space_def byte_def)
  with c have "\<not> (\<exists>p \<in> set white_space. starts_with p (c # s))"
    by (auto simp: list_all_iff starts_with_iff Cons_eq_append_conv)
  with ws_len_pos[of "c # s"] show ?thesis by simp
qed

lemma graphic_word:
  assumes "list_all (\<lambda>c. 33 \<le> byte c \<and> byte c < 127) w" "w \<noteq> []" shows "split_whitespace w = [w]"
proof -
  have "ws_len u = 0" if "w = v @ u" "u \<noteq> []" for u v
    using that assms(1) by (cases u) (auto intro: ws_len_graphic)
  from words_no_space[of w "[]", OF this] assms(2) show ?thesis by simp
qed

lemma graphic_decimal: "0 \<le> n \<Longrightarrow> list_all (\<lambda>c. 33 \<le> byte c \<and> byte c < 127) (decimal n)"
  using decimal_digits[of n] by (force simp: list_all_iff byte_def)

lemma split_ahead_behind:
  "split_whitespace (''+'' @ show_u32 a @ '' -'' @ show_u32 b) = [''+'' @ show_u32 a, ''-'' @ show_u32 b]"
proof -
  have w: "split_whitespace ([x] @ show_u32 n) = [[x] @ show_u32 n]" if "x \<in> {CHR ''+'', CHR ''-''}" for x n
    using that graphic_decimal[of "uint n"] by (intro graphic_word) (auto simp: show_u32_def byte_def)
  have "split_whitespace ((''+'' @ show_u32 a) @ space_char # (''-'' @ show_u32 b)) =
      split_whitespace (''+'' @ show_u32 a) @ split_whitespace (''-'' @ show_u32 b)"
    by (rule words_sep) simp
  with w[of "CHR ''+''" a] w[of "CHR ''-''" b] show ?thesis by simp
qed

lemma utf8_lossy_show_u32: "utf8_lossy (show_u32 n @ s) = show_u32 n @ utf8_lossy s"
  using graphic_decimal[of "uint n"]
  by (intro utf8_lossy_ascii_append) (auto simp: show_u32_def list_all_iff)

lemma parse_headers:
  assumes "case branch of Some b \<Rightarrow> utf8_lossy b \<noteq> ''(detached)'' | None \<Rightarrow> True"
  shows "parse_tokens (header_tokens oid branch upstream @ toks) default_status =
    parse_tokens toks
      \<lparr>ps_branch = map_option utf8_lossy branch,
       ps_upstream = map_option (\<lambda>(u, ab). utf8_lossy u) upstream,
       ps_ahead = (case upstream of Some (u, Some (a, b)) \<Rightarrow> a | _ \<Rightarrow> 0),
       ps_behind = (case upstream of Some (u, Some (a, b)) \<Rightarrow> b | _ \<Rightarrow> 0), ps_entries = []\<rparr>"
proof -
  have l: "utf8_lossy ('' branch.oid '' @ s) = '' branch.oid '' @ utf8_lossy s"
    "utf8_lossy ('' branch.head '' @ s) = '' branch.head '' @ utf8_lossy s"
    "utf8_lossy ('' branch.upstream '' @ s) = '' branch.upstream '' @ utf8_lossy s"
    "utf8_lossy ('' branch.ab +'' @ s) = '' branch.ab +'' @ utf8_lossy s"
    "utf8_lossy ('' -'' @ s) = '' -'' @ utf8_lossy s" for s
    by (rule utf8_lossy_ascii_append; simp add: byte_def)+
  have d: "utf8_lossy ''(detached)'' = ''(detached)''" using utf8_lossy_ascii_append[of "''(detached)''" "[]"] by (simp add: byte_def)
  note [simp del] = parse_tokens.simps utf8_lossy.simps
  have o: "parse_header (''# branch.oid '' @ s) st = st" for s st by (simp add: parse_header_def)
  have h: "parse_header (''# branch.head '' @ s) st = (if s \<noteq> ''(detached)'' then st\<lparr>ps_branch := Some s\<rparr> else st)" for s st
    by (simp add: parse_header_def)
  have u: "parse_header (''# branch.upstream '' @ s) st = st\<lparr>ps_upstream := Some s\<rparr>" for s st
    by (simp add: parse_header_def)
  have a: "parse_header (''# branch.ab +'' @ show_u32 m @ '' -'' @ show_u32 n) st = st\<lparr>ps_ahead := m, ps_behind := n\<rparr>" for m n st
    using split_ahead_behind[of m n] by (simp add: parse_header_def or_zero_def)
  have e: "utf8_lossy [] = []" by (simp add: utf8_lossy.simps)
  have t: "parse_tokens ((''# branch.oid '' @ s) # ts) st = parse_tokens ts (parse_header (''# branch.oid '' @ utf8_lossy s) st)"
    "parse_tokens ((''# branch.head '' @ s) # ts) st = parse_tokens ts (parse_header (''# branch.head '' @ utf8_lossy s) st)"
    "parse_tokens ((''# branch.upstream '' @ s) # ts) st = parse_tokens ts (parse_header (''# branch.upstream '' @ utf8_lossy s) st)"
    "parse_tokens ((''# branch.ab +'' @ show_u32 m @ '' -'' @ show_u32 n) # ts) st =
      parse_tokens ts (parse_header (''# branch.ab +'' @ show_u32 m @ '' -'' @ show_u32 n) st)" for s ts st m n
    using l(1-3)[of s] l(4)[of "show_u32 m @ '' -'' @ show_u32 n"] l(5)[of "show_u32 n"] utf8_lossy_show_u32[of n "[]"]
    by (simp_all add: parse_header_token utf8_lossy_show_u32 e)
  have app: "(x # xs) @ ys = x # xs @ ys" "[] @ ys = ys" for x :: string and xs ys by simp_all
  show ?thesis
    using assms
    by (auto simp: header_tokens_def t o h u a d app default_status_def simp del: append.simps split: option.splits)
qed


lemma record_line_bytes:
  "list_all plain_word ws \<Longrightarrow> path_bytes p \<Longrightarrow> path_bytes (record_line ws p)"
  by (induction ws) (auto simp: record_line_def path_bytes_def plain_word_def list_all_iff)

lemma record_tokens_bytes:
  assumes "wf_git_record r" shows "list_all path_bytes (record_tokens r)"
proof (cases r)
  case (G_Changed x y sm meta path)
  with assms plain_marker plain_print_sub show ?thesis by (auto intro!: record_line_bytes)
next
  case (G_Renamed x y sm meta score path orig)
  have "plain_word (x # decimal (uint score))"
    using G_Renamed assms plain_decimal[of "uint score"] by (auto simp: plain_word_def list_all_iff)
  with G_Renamed assms plain_marker plain_print_sub show ?thesis by (auto intro!: record_line_bytes)
next
  case (G_Unmerged kind sm meta path)
  with assms plain_marker plain_print_sub plain_conflict_letters show ?thesis by (auto intro!: record_line_bytes)
qed (use assms in \<open>auto simp: path_bytes_def\<close>)

text \<open>
  C31: the status parser reads back everything git prints: for every list of changed, renamed,
  unmerged, untracked and ignored records, whatever bytes their paths hold (blanks, tabs, newlines,
  letters that look like another record), the entries are exactly the records in their order with
  their letters, submodule flags, scores and both paths, and the branch, its upstream and its
  distances are the printed ones.
\<close>

theorem status_stream_roundtrip:
  assumes "list_all wf_git_record rs"
    and "list_all path_bytes (header_tokens oid branch upstream)"
    and "case branch of Some b \<Rightarrow> utf8_lossy b \<noteq> ''(detached)'' | None \<Rightarrow> True"
  shows "parse_porcelain_v2_z (nul_terminated (header_tokens oid branch upstream @ concat (map record_tokens rs))) =
    \<lparr>ps_branch = map_option utf8_lossy branch,
     ps_upstream = map_option (\<lambda>(u, ab). utf8_lossy u) upstream,
     ps_ahead = (case upstream of Some (u, Some (a, b)) \<Rightarrow> a | _ \<Rightarrow> 0),
     ps_behind = (case upstream of Some (u, Some (a, b)) \<Rightarrow> b | _ \<Rightarrow> 0),
     ps_entries = List.map_filter record_entry rs\<rparr>"
proof -
  have "list_all path_bytes (concat (map record_tokens rs))"
    using assms(1) record_tokens_bytes by (induction rs) auto
  with assms(2) have "list_all path_bytes (header_tokens oid branch upstream @ concat (map record_tokens rs))" by simp
  from nul_terminated_tokens[OF this] show ?thesis
    by (simp add: parse_porcelain_v2_z_def parse_headers[OF assms(3)] parse_records[OF assms(1)])
qed

definition sample_records :: "git_record list" where
  "sample_records =
     [G_Renamed (CHR ''R'') (CHR ''M'') None (replicate 5 ''0'') 96 ''new name'' ''1 old'',
      G_Unmerged BothModified None (replicate 7 ''0'') ''u UU'']"

lemma status_stream_roundtrip_witness:
  "ps_entries (parse_porcelain_v2_z
     (nul_terminated (header_tokens ''0'' (Some ''main'') None @ concat (map record_tokens sample_records)))) =
   [Entry_Renamed ''new name'' ''1 old'' 96 (Some Kind_Modified) None False,
    Entry_Conflicted ''u UU'' BothModified None]"
proof -
  have w: "list_all wf_git_record sample_records"
    by (simp add: sample_records_def eval_nat_numeral plain_word_def path_bytes_def ascii_space_def byte_def)
  have l: "utf8_lossy ''main'' = ''main''" "utf8_lossy ''new name'' = ''new name''" "utf8_lossy ''1 old'' = ''1 old''"
    "utf8_lossy ''u UU'' = ''u UU''"
    by (intro utf8_lossy_valid ascii_valid_utf8; simp add: byte_def)+
  have h: "list_all path_bytes (header_tokens ''0'' (Some ''main'') None)"
    by (simp add: header_tokens_def path_bytes_def)
  have "ps_entries (parse_porcelain_v2_z
      (nul_terminated (header_tokens ''0'' (Some ''main'') None @ concat (map record_tokens sample_records)))) =
    List.map_filter record_entry sample_records"
    by (subst status_stream_roundtrip[OF w h]) (simp_all only: l option.case, simp_all)
  also have "\<dots> = [Entry_Renamed ''new name'' ''1 old'' 96 (Some Kind_Modified) None False,
      Entry_Conflicted ''u UU'' BothModified None]"
    by (simp add: sample_records_def map_filter_read change_kind_from_letter_def l del: utf8_lossy.simps)
  finally show ?thesis .
qed

end
