(* ===== verification/Conflicts.thy ===== *)
theory Conflicts imports Status_Parse Generation begin

text \<open>
  The conflicts of a repository: the vocabulary of
  \<open>crates/git-vista-protocol/src/conflict.rs\<close> and the scan of
  \<open>crates/git-vista-server/src/conflicts.rs\<close>, which reads the unmerged paths, the three versions of
  each and its kind, and mints the token of a served marker file. git is the \<open>repo_view\<close>;
  \<open>read_generation_inputs\<close> (gitoxide), SHA-256 and the v5 hash are parameters.
\<close>

subsection \<open>Stages\<close>

datatype stage =
    Stage_Present commit_oid bool u64
  | Stage_Absent
  | Stage_Unreadable string

fun is_choosable :: "stage \<Rightarrow> bool" where
  "is_choosable (Stage_Unreadable reason) = False"
| "is_choosable s = True"

fun is_text :: "stage \<Rightarrow> bool" where
  "is_text (Stage_Present oid binary size_bytes) = (\<not> binary)"
| "is_text s = False"

datatype not_text_resolvable_reason =
    Not_Text_Binary bool bool
  | Not_Text_Deletion bool bool
  | Not_Text_Rename string string

record conflicted_file =
  cf_path :: string
  cf_kind :: conflict_kind
  cf_base :: stage
  cf_ours :: stage
  cf_theirs :: stage
  cf_not_text_resolvable :: "not_text_resolvable_reason option"

definition all_sides_readable :: "conflicted_file \<Rightarrow> bool" where
  "all_sides_readable f \<longleftrightarrow> is_choosable (cf_base f) \<and> is_choosable (cf_ours f) \<and> is_choosable (cf_theirs f)"

definition text_resolvable :: "conflicted_file \<Rightarrow> bool" where
  "text_resolvable f \<longleftrightarrow> cf_not_text_resolvable f = None \<and> is_text (cf_ours f) \<and> is_text (cf_theirs f)"

subsection \<open>May the operation continue\<close>

datatype continuation =
    Cont_Clear
  | Cont_Blocked "string list" "string list"

definition continuation_from_files :: "conflicted_file list \<Rightarrow> continuation" where
  "continuation_from_files files =
     (if files = [] then Cont_Clear
      else Cont_Blocked (map cf_path (filter all_sides_readable files))
                        (map cf_path (filter (\<lambda>f. \<not> all_sides_readable f) files)))"

definition may_continue :: "continuation \<Rightarrow> bool" where
  "may_continue c \<longleftrightarrow> c = Cont_Clear"

subsection \<open>Refusals\<close>

datatype resolution_refused =
    Side_Unreadable string string
  | Side_Absent string

definition side_refusal :: "string \<Rightarrow> stage \<Rightarrow> resolution_refused option" where
  "side_refusal side s =
     (case s of
        Stage_Present oid binary size_bytes \<Rightarrow> None
      | Stage_Absent \<Rightarrow> Some (Side_Absent side)
      | Stage_Unreadable reason \<Rightarrow> Some (Side_Unreadable side reason))"

fun refuses :: "conflicted_file \<Rightarrow> resolution \<Rightarrow> resolution_refused option" where
  "refuses f TakeDeletion = None"
| "refuses f TakeOurs = side_refusal ''ours'' (cf_ours f)"
| "refuses f TakeTheirs = side_refusal ''theirs'' (cf_theirs f)"

datatype content_resolution_refused =
    No_Longer_Conflicted
  | Content_Not_Text_Resolvable string
  | Stages_Moved
  | Source_Moved

fun describe_content_refusal :: "content_resolution_refused \<Rightarrow> string \<Rightarrow> string" where
  "describe_content_refusal No_Longer_Conflicted path =
     path @ '' is not conflicted '' @ em_dash @ '' it may have been resolved already, or the '' @
     ''operation that produced the conflict may have ended''"
| "describe_content_refusal (Content_Not_Text_Resolvable reason) path =
     path @ '' cannot be resolved as text '' @ em_dash @ '' '' @ reason"
| "describe_content_refusal Stages_Moved path =
     path @ '' changed since you opened it '' @ em_dash @ '' the version you resolved against is no '' @
     ''longer current. Reopen it and try again.''"
| "describe_content_refusal Source_Moved path =
     ''The repository changed while you were resolving '' @ path @ '', so your changes were '' @
     ''not applied '' @ em_dash @ '' reopen it to see the current version.''"

record conflict_source =
  cs_path :: string
  cs_content :: string
  cs_truncated :: bool
  cs_binary :: bool
  cs_source :: generation_token
  cs_stages :: "commit_oid option \<times> commit_oid option \<times> commit_oid option"

subsection \<open>Reading the unmerged entries\<close>

definition binary_sniff_bytes :: nat where "binary_sniff_bytes = 8000"

text \<open>Whether the sniffed front holds a NUL.\<close>

definition sniff_binary :: "string \<Rightarrow> bool" where
  "sniff_binary content \<longleftrightarrow> CHR 0x00 \<in> set (take binary_sniff_bytes content)"

record unmerged_entry =
  ue_stage :: u8
  ue_oid :: string
  ue_path :: string

definition parse_unmerged_record :: "string \<Rightarrow> unmerged_entry option" where
  "parse_unmerged_record bytes =
     (case split_once [CHR 0x09] (utf8_lossy bytes) of
        None \<Rightarrow> None
      | Some (meta, path) \<Rightarrow>
          (case split_whitespace meta of
             mode # oid # st # rest \<Rightarrow>
               (case parse_u8 st of
                  None \<Rightarrow> None
                | Some n \<Rightarrow>
                    if \<not> (1 \<le> n \<and> n \<le> 3) \<or> oid = [] \<or> path = [] then None
                    else Some \<lparr>ue_stage = n, ue_oid = oid, ue_path = path\<rparr>)
           | _ \<Rightarrow> None))"

definition parse_unmerged :: "string \<Rightarrow> unmerged_entry list" where
  "parse_unmerged stdout =
     List.map_filter parse_unmerged_record (filter (\<lambda>r. r \<noteq> []) (split_on (CHR 0x00) stdout))"

definition parse_u64 :: "string \<Rightarrow> u64 option" where
  "parse_u64 s = map_option of_int (parse_uint (2 ^ 64 - 1) s)"

text \<open>What a git run printed, or why it did not run.\<close>

definition git_output :: "repo_view \<Rightarrow> argv \<Rightarrow> string + int option \<times> string \<times> string" where
  "git_output v args =
     (case rv_run v args of
        No_Sandbox e \<Rightarrow> Inl e
      | No_Spawn e \<Rightarrow> Inl e
      | Exited code stdout stderr \<Rightarrow> Inr (code, stdout, stderr))"

definition blob_size :: "repo_view \<Rightarrow> string \<Rightarrow> string + u64" where
  "blob_size v oid =
     (case git_output v [''cat-file'', ''-s'', oid] of
        Inl e \<Rightarrow> Inl (''couldn't run git cat-file: '' @ e)
      | Inr (code, stdout, stderr) \<Rightarrow>
          if code \<noteq> Some 0 then
            Inl (''git could not size the object '' @ em_dash @ '' '' @ trim (utf8_lossy stderr))
          else (case parse_u64 (trim (utf8_lossy stdout)) of
                  Some n \<Rightarrow> Inr n
                | None \<Rightarrow> Inl ''git reported a size this server could not read as a number''))"

definition blob_bytes :: "repo_view \<Rightarrow> string \<Rightarrow> string + string" where
  "blob_bytes v oid =
     (case git_output v [''cat-file'', ''blob'', oid] of
        Inl e \<Rightarrow> Inl (''couldn't run git cat-file blob: '' @ e)
      | Inr (code, stdout, stderr) \<Rightarrow>
          if code \<noteq> Some 0 then
            Inl (''git could not read the object '' @ em_dash @ '' '' @ trim (utf8_lossy stderr))
          else Inr stdout)"

definition describe_blob :: "repo_view \<Rightarrow> string \<Rightarrow> stage" where
  "describe_blob v oid =
     (case commit_oid_new oid of
        Inl e \<Rightarrow> Stage_Unreadable (''git reported an object id this server cannot parse: '' @ oid)
      | Inr parsed_oid \<Rightarrow>
          (case blob_size v oid of
             Inl reason \<Rightarrow> Stage_Unreadable reason
           | Inr bytes \<Rightarrow>
               (case blob_bytes v oid of
                  Inl reason \<Rightarrow> Stage_Unreadable reason
                | Inr content \<Rightarrow> Stage_Present parsed_oid (sniff_binary content) bytes)))"

fun stage_binary :: "stage \<Rightarrow> bool" where
  "stage_binary (Stage_Present oid binary size_bytes) = binary"
| "stage_binary s = False"

definition not_text_resolvable :: "conflict_kind \<Rightarrow> stage \<Rightarrow> stage \<Rightarrow> not_text_resolvable_reason option" where
  "not_text_resolvable kind ours theirs =
     (let ours_deleted = kind \<in> {DeletedByUs, BothDeleted, AddedByThem};
          theirs_deleted = kind \<in> {DeletedByThem, BothDeleted, AddedByUs}
      in if ours_deleted \<or> theirs_deleted then Some (Not_Text_Deletion ours_deleted theirs_deleted)
         else if stage_binary ours \<or> stage_binary theirs then
           Some (Not_Text_Binary (stage_binary ours) (stage_binary theirs))
         else None)"

subsection \<open>The scan\<close>

fun conflict_of_entry :: "status_entry \<Rightarrow> (string \<times> conflict_kind) option" where
  "conflict_of_entry (Entry_Conflicted path kind sm) = Some (path, kind)"
| "conflict_of_entry e = None"

text \<open>Collecting pairs into a map: the last pair of a path wins.\<close>

definition conflict_kinds :: "repo_view \<Rightarrow> string + (string \<rightharpoonup> conflict_kind)" where
  "conflict_kinds v =
     (case git_output v [''status'', ''--porcelain=v2'', ''-z'', ''--untracked-files=no''] of
        Inl e \<Rightarrow> Inl (''couldn't run git status: '' @ e)
      | Inr (code, stdout, stderr) \<Rightarrow>
          if code \<noteq> Some 0 then Inl (''git status failed '' @ em_dash @ '' '' @ trim (utf8_lossy stderr))
          else Inr (map_of (rev (List.map_filter conflict_of_entry (ps_entries (parse_porcelain_v2_z stdout))))))"

text \<open>
  The \<open>BTreeMap\<close> of the unmerged entries: its keys in order, and the object id it holds for a stage
  of a path, the last one inserted.
\<close>

definition unmerged_paths :: "unmerged_entry list \<Rightarrow> string list" where
  "unmerged_paths es = sort (remdups (map ue_path es))"

definition stage_oid :: "unmerged_entry list \<Rightarrow> string \<Rightarrow> u8 \<Rightarrow> string option" where
  "stage_oid es path n = map_option ue_oid (find (\<lambda>e. ue_path e = path \<and> ue_stage e = n) (rev es))"

definition describe_stage :: "repo_view \<Rightarrow> string option \<Rightarrow> stage" where
  "describe_stage v oid = (case oid of Some h \<Rightarrow> describe_blob v h | None \<Rightarrow> Stage_Absent)"

definition scan_file ::
  "repo_view \<Rightarrow> (string \<rightharpoonup> conflict_kind) \<Rightarrow> unmerged_entry list \<Rightarrow> string \<Rightarrow> conflicted_file" where
  "scan_file v kinds es path =
     (let base = describe_stage v (stage_oid es path 1);
          ours = describe_stage v (stage_oid es path 2);
          theirs = describe_stage v (stage_oid es path 3);
          kind = (case kinds path of Some k \<Rightarrow> k | None \<Rightarrow> BothModified)
      in \<lparr>cf_path = path, cf_kind = kind, cf_base = base, cf_ours = ours, cf_theirs = theirs,
          cf_not_text_resolvable = not_text_resolvable kind ours theirs\<rparr>)"

definition scan :: "repo_view \<Rightarrow> string + conflicted_file list" where
  "scan v =
     (case git_output v [''ls-files'', ''-u'', ''-z''] of
        Inl e \<Rightarrow> Inl (''couldn't run git ls-files: '' @ e)
      | Inr (code, stdout, stderr) \<Rightarrow>
          if code \<noteq> Some 0 then Inl (''git ls-files failed '' @ em_dash @ '' '' @ trim (utf8_lossy stderr))
          else let es = parse_unmerged stdout in
            (case conflict_kinds v of
               Inl e \<Rightarrow> Inl e
             | Inr kinds \<Rightarrow> Inr (map (scan_file v kinds es) (unmerged_paths es))))"

definition continuation_of :: "repo_view \<Rightarrow> string + continuation" where
  "continuation_of v = (case scan v of Inl e \<Rightarrow> Inl e | Inr files \<Rightarrow> Inr (continuation_from_files files))"

subsection \<open>The token of a served marker file\<close>

definition marker_digest_input :: "string \<Rightarrow> string \<Rightarrow> string" where
  "marker_digest_input path marker_bytes =
     ''conflict-source:marker-file'' @ [CHR 0x00] @ path @ [CHR 0x00] @ marker_bytes"

definition conflict_source_token ::
  "(string \<Rightarrow> string) \<Rightarrow> (string \<Rightarrow> u64) \<Rightarrow> string + generation_inputs \<Rightarrow> string \<Rightarrow> string \<Rightarrow> string + generation_token" where
  "conflict_source_token sha256 digest inputs path marker_bytes =
     (case inputs of
        Inl e \<Rightarrow> Inl (''couldn't read generation inputs: '' @ e)
      | Inr ins \<Rightarrow>
          (let generation = generation_of digest (input_field ''worktree'' (sha256 (marker_digest_input path marker_bytes)) ins)
           in case generation_token_new (''conflict-v1:'' @ show_u64 generation) of
                Inl e \<Rightarrow> Inl (''couldn't build the conflict-v1 token: '' @ plan_field_error_text e)
              | Inr t \<Rightarrow> Inr t))"


subsection \<open>What git lists\<close>

text \<open>One row of \<open>git ls-files -u -z\<close>: mode, object id, stage and the bytes of the path.\<close>

record unmerged_row =
  ur_mode :: string
  ur_oid :: string
  ur_stage :: u8
  ur_path :: string

definition graphic :: "string \<Rightarrow> bool" where
  "graphic w \<longleftrightarrow> w \<noteq> [] \<and> list_all (\<lambda>c. 33 \<le> byte c \<and> byte c < 127) w"

definition wf_row :: "unmerged_row \<Rightarrow> bool" where
  "wf_row r \<longleftrightarrow> graphic (ur_mode r) \<and> graphic (ur_oid r) \<and> ur_stage r \<in> {1, 2, 3} \<and> path_bytes (ur_path r)"

definition row_bytes :: "unmerged_row \<Rightarrow> string" where
  "row_bytes r = ur_mode r @ '' '' @ ur_oid r @ '' '' @ decimal (uint (ur_stage r)) @ [CHR 0x09] @ ur_path r"

definition row_entry :: "unmerged_row \<Rightarrow> unmerged_entry" where
  "row_entry r = \<lparr>ue_stage = ur_stage r, ue_oid = ur_oid r, ue_path = utf8_lossy (ur_path r)\<rparr>"

lemma graphic_free: "graphic w \<Longrightarrow> byte c < 33 \<Longrightarrow> c \<notin> set w"
  by (auto simp: graphic_def list_all_iff)

lemma graphic_word_of: "graphic w \<Longrightarrow> split_whitespace w = [w]"
  by (simp add: graphic_def graphic_word)

lemma graphic_show: "graphic (decimal (uint n))"
  using graphic_decimal[of "uint n"] by (simp add: graphic_def decimal_nonempty)

lemma utf8_lossy_graphic: "graphic w \<Longrightarrow> utf8_lossy (w @ s) = w @ utf8_lossy s"
  by (rule utf8_lossy_ascii_append) (auto simp: graphic_def list_all_iff)

lemma utf8_lossy_blank: "utf8_lossy (CHR 0x20 # s) = CHR 0x20 # utf8_lossy s"
  "utf8_lossy (CHR 0x09 # s) = CHR 0x09 # utf8_lossy s"
  by (rule utf8_lossy_ascii; simp add: byte_def)+

lemma parse_row:
  assumes "wf_row r" shows "parse_unmerged_record (row_bytes r) = Some (row_entry r)"
proof -
  let ?n = "decimal (uint (ur_stage r))"
  let ?meta = "ur_mode r @ '' '' @ ur_oid r @ '' '' @ ?n"
  from assms have w: "graphic (ur_mode r)" "graphic (ur_oid r)" "ur_stage r \<in> {1, 2, 3}" "ur_path r \<noteq> []"
    by (auto simp: wf_row_def path_bytes_def)
  have e: "utf8_lossy (row_bytes r) = ?meta @ CHR 0x09 # utf8_lossy (ur_path r)"
    using w graphic_show[of "ur_stage r"] by (simp add: row_bytes_def utf8_lossy_graphic utf8_lossy_blank del: utf8_lossy.simps)
  have "CHR 0x09 \<notin> set ?meta"
    using w(1,2) graphic_show[of "ur_stage r"] graphic_free[of _ "CHR 0x09"] by (auto simp: byte_def)
  then have s: "split_once [CHR 0x09] (?meta @ CHR 0x09 # utf8_lossy (ur_path r)) = Some (?meta, utf8_lossy (ur_path r))"
    using split_once_first[of "CHR 0x09" ?meta "[]"] by simp
  have m: "split_whitespace ?meta = [ur_mode r, ur_oid r, ?n]"
    using words_sep[of space_char "[]" "ur_mode r" "ur_oid r @ '' '' @ ?n"]
      words_sep[of space_char "[]" "ur_oid r" ?n] graphic_word_of[OF w(1)] graphic_word_of[OF w(2)]
      graphic_word_of[OF graphic_show[of "ur_stage r"]] by simp
  have n: "1 \<le> ur_stage r \<and> ur_stage r \<le> 3" using w(3) by auto
  have "ur_oid r \<noteq> []" "utf8_lossy (ur_path r) \<noteq> []" using w utf8_lossy_nonempty by (auto simp: graphic_def)
  with e s m n show ?thesis
    by (simp add: parse_unmerged_record_def row_entry_def parse_u8_decimal)
qed

lemma row_path_bytes: "wf_row r \<Longrightarrow> path_bytes (row_bytes r)"
  using graphic_free[of "ur_mode r" "CHR 0x00"] graphic_free[of "ur_oid r" "CHR 0x00"]
    graphic_free[OF graphic_show[of "ur_stage r"], of "CHR 0x00"]
  by (auto simp: wf_row_def row_bytes_def path_bytes_def byte_def)

lemma parse_unmerged_rows:
  assumes "list_all wf_row rs"
  shows "parse_unmerged (nul_terminated (map row_bytes rs)) = map row_entry rs"
proof -
  have "list_all path_bytes (map row_bytes rs)" using assms by (auto simp: list_all_iff row_path_bytes)
  from nul_terminated_tokens[OF this]
  have "parse_unmerged (nul_terminated (map row_bytes rs)) = List.map_filter parse_unmerged_record (map row_bytes rs)"
    by (simp add: parse_unmerged_def)
  also have "\<dots> = map row_entry rs" using assms by (induction rs) (simp_all add: map_filter_read parse_row)
  finally show ?thesis .
qed

lemma describe_blob_not_absent: "describe_blob v oid \<noteq> Stage_Absent"
  by (auto simp: describe_blob_def split: sum.splits)


text \<open>The version of a file at a stage of the index, and the kinds the status names.\<close>

definition file_stage :: "conflicted_file \<Rightarrow> u8 \<Rightarrow> stage" where
  "file_stage f n = (if n = 1 then cf_base f else if n = 2 then cf_ours f else cf_theirs f)"

fun unmerged_kind :: "git_record \<Rightarrow> (string \<times> conflict_kind) option" where
  "unmerged_kind (G_Unmerged kind sm meta path) = Some (utf8_lossy path, kind)"
| "unmerged_kind r = None"

lemma unmerged_kinds_read:
  "List.map_filter conflict_of_entry (List.map_filter record_entry srs) = List.map_filter unmerged_kind srs"
proof (induction srs)
  case (Cons r srs)
  then show ?case by (cases r) (auto simp: map_filter_read split: option.splits)
qed (simp add: map_filter_read)

lemma conflict_kinds_printed:
  assumes "list_all wf_git_record srs"
    and "rv_run v [''status'', ''--porcelain=v2'', ''-z'', ''--untracked-files=no''] =
      Exited (Some 0) (nul_terminated (concat (map record_tokens srs))) e"
  shows "conflict_kinds v = Inr (map_of (rev (List.map_filter unmerged_kind srs)))"
proof -
  have "list_all path_bytes (concat (map record_tokens srs))"
    using assms(1) record_tokens_bytes by (induction srs) auto
  from nul_terminated_tokens[OF this] show ?thesis
    using assms(2) parse_records[OF assms(1), of default_status]
    by (simp add: conflict_kinds_def git_output_def parse_porcelain_v2_z_def default_status_def unmerged_kinds_read)
qed

lemma find_rev_distinct:
  "distinct (map g xs) \<Longrightarrow> (\<And>x y. P x \<Longrightarrow> P y \<Longrightarrow> g x = g y) \<Longrightarrow> find P (rev xs) = find P xs"
proof (induction xs)
  case (Cons x xs)
  have a: "find P (ys @ [x]) = (case find P ys of Some y \<Rightarrow> Some y | None \<Rightarrow> if P x then Some x else None)" for ys
    by (induction ys) auto
  have ih: "find P (rev xs) = find P xs"
    by (rule Cons.IH) (use Cons.prems(1) in simp, rule Cons.prems(2))
  have none: "find P xs = None" if x: "P x"
  proof -
    have "\<not> P y" if y: "y \<in> set xs" for y
    proof
      assume "P y"
      have "g x = g y" by (rule Cons.prems(2)[OF x \<open>P y\<close>])
      with imageI[OF y, of g] Cons.prems(1) show False by simp
    qed
    then show ?thesis by (simp add: find_None_iff)
  qed
  show ?case using a[of "rev xs"] ih none by (cases "P x") (simp_all split: option.splits)
qed simp

lemma stage_oid_rows:
  assumes "distinct (map (\<lambda>r. (utf8_lossy (ur_path r), ur_stage r)) rs)"
  shows "stage_oid (map row_entry rs) p n =
    map_option ur_oid (find (\<lambda>r. utf8_lossy (ur_path r) = p \<and> ur_stage r = n) rs)"
proof -
  have m: "find (\<lambda>e. ue_path e = p \<and> ue_stage e = n) (map row_entry xs) =
      map_option row_entry (find (\<lambda>r. utf8_lossy (ur_path r) = p \<and> ur_stage r = n) xs)" for xs
    by (induction xs) (simp_all add: row_entry_def)
  have "find (\<lambda>r. utf8_lossy (ur_path r) = p \<and> ur_stage r = n) (rev rs) =
      find (\<lambda>r. utf8_lossy (ur_path r) = p \<and> ur_stage r = n) rs"
    by (rule find_rev_distinct[OF assms]) simp
  with m[of "rev rs"] show ?thesis
    by (simp add: stage_oid_def rev_map option.map_comp comp_def row_entry_def)
qed

lemma scan_printed:
  assumes "list_all wf_row rs" "list_all wf_git_record srs"
    and "rv_run v [''ls-files'', ''-u'', ''-z''] = Exited (Some 0) (nul_terminated (map row_bytes rs)) e1"
    and "rv_run v [''status'', ''--porcelain=v2'', ''-z'', ''--untracked-files=no''] =
      Exited (Some 0) (nul_terminated (concat (map record_tokens srs))) e2"
  shows "scan v = Inr (map (scan_file v (map_of (rev (List.map_filter unmerged_kind srs))) (map row_entry rs))
      (sort (remdups (map (\<lambda>r. utf8_lossy (ur_path r)) rs))))"
  using assms(3) conflict_kinds_printed[OF assms(2,4)] parse_unmerged_rows[OF assms(1)]
  by (simp add: scan_def git_output_def Let_def unmerged_paths_def row_entry_def comp_def)

text \<open>
  C8: the scan misses no conflict and invents none. Whatever rows git lists for its unmerged entries
  and whatever records its status prints, there is one file per listed path, in order; each of its
  three versions is the description of the object git listed at that stage, and is absent exactly
  when git listed none (a version that cannot be read is never absent); its kind is the one the
  status printed for the path; and an operation may continue only when git listed no row.
\<close>

theorem scan_is_complete:
  assumes "list_all wf_row rs" "list_all wf_git_record srs"
    and "distinct (map (\<lambda>r. (utf8_lossy (ur_path r), ur_stage r)) rs)"
    and "rv_run v [''ls-files'', ''-u'', ''-z''] = Exited (Some 0) (nul_terminated (map row_bytes rs)) e1"
    and "rv_run v [''status'', ''--porcelain=v2'', ''-z'', ''--untracked-files=no''] =
      Exited (Some 0) (nul_terminated (concat (map record_tokens srs))) e2"
  shows "\<exists>files. scan v = Inr files \<and>
    sorted (map cf_path files) \<and> distinct (map cf_path files) \<and>
    set (map cf_path files) = (\<lambda>r. utf8_lossy (ur_path r)) ` set rs \<and>
    list_all (\<lambda>f. list_all (\<lambda>n.
        file_stage f n = (case find (\<lambda>r. utf8_lossy (ur_path r) = cf_path f \<and> ur_stage r = n) rs of
                            Some r \<Rightarrow> describe_blob v (ur_oid r)
                          | None \<Rightarrow> Stage_Absent) \<and>
        (file_stage f n = Stage_Absent \<longleftrightarrow>
           list_all (\<lambda>r. \<not> (utf8_lossy (ur_path r) = cf_path f \<and> ur_stage r = n)) rs)) [1, 2, 3] \<and>
      cf_kind f = (case map_of (rev (List.map_filter unmerged_kind srs)) (cf_path f) of
                     Some k \<Rightarrow> k | None \<Rightarrow> BothModified)) files \<and>
    (continuation_of v = Inr Cont_Clear \<longleftrightarrow> rs = [])"
proof -
  let ?kinds = "map_of (rev (List.map_filter unmerged_kind srs))"
  let ?file = "scan_file v ?kinds (map row_entry rs)"
  let ?paths = "sort (remdups (map (\<lambda>r. utf8_lossy (ur_path r)) rs))"
  have scan: "scan v = Inr (map ?file ?paths)" by (rule scan_printed[OF assms(1,2,4,5)])
  have path: "cf_path (?file p) = p" for p by (simp add: scan_file_def Let_def)
  have st: "file_stage (?file p) n = describe_stage v (stage_oid (map row_entry rs) p n)" if "n \<in> {1, 2, 3}" for p n
    using that by (auto simp: scan_file_def file_stage_def Let_def)
  have stage: "file_stage (?file p) n = (case find (\<lambda>r. utf8_lossy (ur_path r) = p \<and> ur_stage r = n) rs of
      Some r \<Rightarrow> describe_blob v (ur_oid r) | None \<Rightarrow> Stage_Absent)" if "n \<in> {1, 2, 3}" for p n
    unfolding st[OF that] stage_oid_rows[OF assms(3)] by (simp add: describe_stage_def split: option.splits)
  have absent: "file_stage (?file p) n = Stage_Absent \<longleftrightarrow>
      list_all (\<lambda>r. \<not> (utf8_lossy (ur_path r) = p \<and> ur_stage r = n)) rs" if "n \<in> {1, 2, 3}" for p n
    unfolding stage[OF that] using describe_blob_not_absent
    by (auto simp: list_all_iff find_None_iff find_Some_iff split: option.splits)
  have clear: "continuation_of v = Inr Cont_Clear \<longleftrightarrow> rs = []"
  proof -
    have "sort xs = [] \<longleftrightarrow> xs = []" for xs :: "string list" by (metis set_sort set_empty)
    then have "?paths = [] \<longleftrightarrow> rs = []" by simp
    with scan show ?thesis by (simp add: continuation_of_def continuation_from_files_def)
  qed
  have kind: "cf_kind (?file p) = (case ?kinds p of Some k \<Rightarrow> k | None \<Rightarrow> BothModified)" for p
    by (simp add: scan_file_def Let_def)
  have stages: "list_all (\<lambda>n.
        file_stage (?file p) n = (case find (\<lambda>r. utf8_lossy (ur_path r) = p \<and> ur_stage r = n) rs of
                            Some r \<Rightarrow> describe_blob v (ur_oid r)
                          | None \<Rightarrow> Stage_Absent) \<and>
        (file_stage (?file p) n = Stage_Absent \<longleftrightarrow>
           list_all (\<lambda>r. \<not> (utf8_lossy (ur_path r) = p \<and> ur_stage r = n)) rs)) [1, 2, 3]" for p
    unfolding list_all_iff[of _ "[1, 2, 3]"]
  proof
    fix n :: u8 assume "n \<in> set [1, 2, 3]"
    then have n: "n \<in> {1, 2, 3}" by simp
    show "file_stage (?file p) n = (case find (\<lambda>r. utf8_lossy (ur_path r) = p \<and> ur_stage r = n) rs of
          Some r \<Rightarrow> describe_blob v (ur_oid r) | None \<Rightarrow> Stage_Absent) \<and>
        (file_stage (?file p) n = Stage_Absent \<longleftrightarrow>
           list_all (\<lambda>r. \<not> (utf8_lossy (ur_path r) = p \<and> ur_stage r = n)) rs)"
      using stage[OF n, of p] absent[OF n, of p] by (rule conjI)
  qed
  have files: "list_all (\<lambda>f. list_all (\<lambda>n.
        file_stage f n = (case find (\<lambda>r. utf8_lossy (ur_path r) = cf_path f \<and> ur_stage r = n) rs of
                            Some r \<Rightarrow> describe_blob v (ur_oid r)
                          | None \<Rightarrow> Stage_Absent) \<and>
        (file_stage f n = Stage_Absent \<longleftrightarrow>
           list_all (\<lambda>r. \<not> (utf8_lossy (ur_path r) = cf_path f \<and> ur_stage r = n)) rs)) [1, 2, 3] \<and>
      cf_kind f = (case ?kinds (cf_path f) of Some k \<Rightarrow> k | None \<Rightarrow> BothModified)) (map ?file ?paths)"
    unfolding list_all_iff[of _ "map ?file ?paths"]
  proof
    fix f assume "f \<in> set (map ?file ?paths)"
    then obtain p where f: "f = ?file p" by auto
    show "list_all (\<lambda>n.
        file_stage f n = (case find (\<lambda>r. utf8_lossy (ur_path r) = cf_path f \<and> ur_stage r = n) rs of
                            Some r \<Rightarrow> describe_blob v (ur_oid r)
                          | None \<Rightarrow> Stage_Absent) \<and>
        (file_stage f n = Stage_Absent \<longleftrightarrow>
           list_all (\<lambda>r. \<not> (utf8_lossy (ur_path r) = cf_path f \<and> ur_stage r = n)) rs)) [1, 2, 3] \<and>
      cf_kind f = (case ?kinds (cf_path f) of Some k \<Rightarrow> k | None \<Rightarrow> BothModified)"
      unfolding f path using stages kind by (rule conjI)
  qed
  have "set (map cf_path (map ?file ?paths)) = (\<lambda>r. utf8_lossy (ur_path r)) ` set rs"
    "map cf_path (map ?file ?paths) = ?paths"
    by (simp_all add: path comp_def image_image)
  with scan clear files show ?thesis by (intro exI[of _ "map ?file ?paths"]) simp
qed


definition sample_conflict_rows :: "unmerged_row list" where
  "sample_conflict_rows =
     [\<lparr>ur_mode = ''100644'', ur_oid = replicate 40 (CHR ''a''), ur_stage = 2, ur_path = ''f''\<rparr>,
      \<lparr>ur_mode = ''100644'', ur_oid = replicate 40 (CHR ''b''), ur_stage = 3, ur_path = ''f''\<rparr>]"

definition sample_conflict_status :: "git_record list" where
  "sample_conflict_status = [G_Unmerged BothAdded None (replicate 7 ''0'') ''f'']"

text \<open>Two text versions of one file, added on both sides.\<close>

definition sample_conflict_view :: repo_view where
  "sample_conflict_view = (sample_view ''a'')\<lparr>rv_run := \<lambda>args.
     if args = [''ls-files'', ''-u'', ''-z''] then
       Exited (Some 0) (nul_terminated (map row_bytes sample_conflict_rows)) []
     else if args = [''status'', ''--porcelain=v2'', ''-z'', ''--untracked-files=no''] then
       Exited (Some 0) (nul_terminated (concat (map record_tokens sample_conflict_status))) []
     else if take 1 args = [''cat-file''] then Exited (Some 0) ''1'' []
     else No_Spawn []\<rparr>"

lemma sample_conflict_rows_ok: "list_all wf_row sample_conflict_rows" "list_all wf_git_record sample_conflict_status"
  by (simp_all add: sample_conflict_rows_def sample_conflict_status_def wf_row_def graphic_def path_bytes_def
      plain_word_def ascii_space_def byte_def list_all_iff)

lemma sample_conflict_runs:
  "rv_run sample_conflict_view [''ls-files'', ''-u'', ''-z''] =
     Exited (Some 0) (nul_terminated (map row_bytes sample_conflict_rows)) []"
  "rv_run sample_conflict_view [''status'', ''--porcelain=v2'', ''-z'', ''--untracked-files=no''] =
     Exited (Some 0) (nul_terminated (concat (map record_tokens sample_conflict_status))) []"
  "rv_run sample_conflict_view [''cat-file'', a, oid] = Exited (Some 0) ''1'' []"
  by (simp_all add: sample_conflict_view_def)

lemma scan_is_complete_witness:
  "\<exists>files. scan sample_conflict_view = Inr files \<and> set (map cf_path files) = {''f''} \<and>
     continuation_of sample_conflict_view \<noteq> Inr Cont_Clear"
proof -
  have f: "utf8_lossy ''f'' = ''f''" by (intro utf8_lossy_valid ascii_valid_utf8) (simp add: byte_def)
  have d: "distinct (map (\<lambda>r. (utf8_lossy (ur_path r), ur_stage r)) sample_conflict_rows)"
    by (simp add: sample_conflict_rows_def)
  from scan_is_complete[OF sample_conflict_rows_ok d sample_conflict_runs(1,2)]
  show ?thesis by (auto simp: sample_conflict_rows_def f simp del: utf8_lossy.simps)
qed

end
