(* ===== verification/Conflict_View.thy ===== *)
theory Conflict_View imports Conflicts begin

text \<open>
  \<open>crates/git-vista-conflicts/src/core.rs\<close>: the four panes of a conflict view, the state each is in,
  and the controls offered for a conflicted file, with the two documents of
  \<open>crates/git-vista-core/src/diff.rs\<close> the panes are filled from.
\<close>

subsection \<open>Panes\<close>

datatype pane = Pane_Base | Pane_Ours | Pane_Theirs | Pane_Result

definition all_panes :: "pane list" where
  "all_panes = [Pane_Base, Pane_Ours, Pane_Theirs, Pane_Result]"

fun pane_label :: "pane \<Rightarrow> string" where
  "pane_label Pane_Base = ''Base''"
| "pane_label Pane_Ours = ''Ours''"
| "pane_label Pane_Theirs = ''Theirs''"
| "pane_label Pane_Result = ''Result (read-only)''"

datatype pane_state =
    State_Absent
  | State_Unreadable string
  | State_Binary u64
  | State_Awaiting string
  | State_Text string bool
  | State_Unavailable string

record blob_content =
  bc_oid :: string
  bc_content :: string
  bc_truncated :: bool
  bc_binary :: bool

record worktree_file_content =
  wc_path :: string
  wc_content :: string
  wc_truncated :: bool
  wc_binary :: bool

fun pane_for_stage :: "stage \<Rightarrow> pane_state" where
  "pane_for_stage Stage_Absent = State_Absent"
| "pane_for_stage (Stage_Unreadable reason) = State_Unreadable reason"
| "pane_for_stage (Stage_Present oid binary size_bytes) =
     (if binary then State_Binary size_bytes else State_Awaiting oid)"

definition with_content :: "pane_state \<Rightarrow> string + blob_content \<Rightarrow> pane_state" where
  "with_content p fetched =
     (case p of
        State_Awaiting oid \<Rightarrow>
          (case fetched of
             Inl reason \<Rightarrow> State_Unavailable reason
           | Inr blob \<Rightarrow>
               if bc_oid blob \<noteq> oid then p
               else if bc_binary blob then State_Binary (word_of_nat (length (bc_content blob)))
               else State_Text (bc_content blob) (bc_truncated blob))
      | _ \<Rightarrow> p)"

fun describe_pane :: "pane_state \<Rightarrow> string" where
  "describe_pane State_Absent = ''Not present on this side''"
| "describe_pane (State_Unreadable reason) = ''Could not be read '' @ em_dash @ '' '' @ reason"
| "describe_pane (State_Binary size_bytes) = ''Binary file ('' @ show_u64 size_bytes @ '' bytes)''"
| "describe_pane (State_Awaiting oid) = ''Loading'' @ [CHR 0xE2, CHR 0x80, CHR 0xA6]"
| "describe_pane (State_Text content truncated) =
     (if truncated then ''Shown up to the size limit'' else ''Loaded'')"
| "describe_pane (State_Unavailable reason) = ''Content could not be loaded '' @ em_dash @ '' '' @ reason"

datatype result_read =
    Read_Wrote worktree_file_content
  | Read_NoFile
  | Read_Failed string

fun result_pane_state :: "result_read \<Rightarrow> pane_state" where
  "result_pane_state Read_NoFile = State_Absent"
| "result_pane_state (Read_Failed reason) = State_Unavailable reason"
| "result_pane_state (Read_Wrote f) =
     (if wc_binary f then State_Binary (word_of_nat (length (wc_content f)))
      else State_Text (wc_content f) (wc_truncated f))"

subsection \<open>Controls\<close>

datatype withheld =
    Withheld_SideAbsent
  | Withheld_SideUnreadable string
  | Withheld_FileNotFullyReadable

fun describe_withheld :: "withheld \<Rightarrow> string" where
  "describe_withheld Withheld_SideAbsent =
     ''Not offered '' @ em_dash @ '' that side holds no version of this file''"
| "describe_withheld (Withheld_SideUnreadable reason) =
     ''Not offered '' @ em_dash @ '' that side could not be read: '' @ reason"
| "describe_withheld Withheld_FileNotFullyReadable =
     ''Not offered '' @ em_dash @ '' one side of this file could not be read''"

definition binary_sides_text :: "bool \<Rightarrow> bool \<Rightarrow> string" where
  "binary_sides_text ours theirs =
     (if ours \<and> theirs then ''Both sides are binary''
      else if ours then ''Our side is binary''
      else if theirs then ''Their side is binary''
      else ''This file is binary'')"

fun deletion_text :: "conflict_kind \<Rightarrow> string" where
  "deletion_text BothDeleted = ''Both sides deleted this file. Deleting it is the only resolution.''"
| "deletion_text DeletedByUs =
     ''We deleted this file; their side still has it. Keep their version, or delete it.''"
| "deletion_text DeletedByThem =
     ''They deleted this file; our side still has it. Keep our version, or delete it.''"
| "deletion_text AddedByUs =
     ''We added this file; their side does not have it. Keep our version, or delete it.''"
| "deletion_text AddedByThem =
     ''They added this file; our side does not have it. Keep their version, or delete it.''"
| "deletion_text BothAdded =
     ''Only one side has a version of this file. Keep a version, or delete it.''"
| "deletion_text BothModified =
     ''Only one side has a version of this file. Keep a version, or delete it.''"

definition note_for :: "conflicted_file \<Rightarrow> string" where
  "note_for f =
     (case cf_not_text_resolvable f of
        Some (Not_Text_Binary ours theirs) \<Rightarrow>
          binary_sides_text ours theirs @
          ''. There is no line-by-line merge for binary content '' @ em_dash @
          '' choose a whole side, or delete the file.''
      | Some (Not_Text_Deletion ours_deleted theirs_deleted) \<Rightarrow> deletion_text (cf_kind f)
      | Some (Not_Text_Rename ours_path theirs_path) \<Rightarrow>
          ''This file was renamed: ours is '' @ ours_path @ '', theirs is '' @ theirs_path @ ''. '' @
          ''The two sides do not agree on the path, so there is no line-by-line merge.''
      | None \<Rightarrow>
          if \<not> all_sides_readable f
          then ''One side of this file could not be read, so it cannot be resolved yet.''
          else [])"

record resolution_surface =
  rs_note :: "string option"
  rs_text_resolution_allowed :: bool
  rs_take_ours :: "withheld + unit"
  rs_take_theirs :: "withheld + unit"
  rs_take_deletion :: "withheld + unit"

definition offered_side :: "stage \<Rightarrow> withheld + unit" where
  "offered_side s =
     (case s of
        Stage_Present oid binary size_bytes \<Rightarrow> Inr ()
      | Stage_Absent \<Rightarrow> Inl Withheld_SideAbsent
      | Stage_Unreadable reason \<Rightarrow> Inl (Withheld_SideUnreadable reason))"

definition surface_of :: "conflicted_file \<Rightarrow> resolution_surface" where
  "surface_of f =
     (if \<not> all_sides_readable f then
        \<lparr>rs_note = Some (note_for f), rs_text_resolution_allowed = False,
         rs_take_ours = Inl Withheld_FileNotFullyReadable,
         rs_take_theirs = Inl Withheld_FileNotFullyReadable,
         rs_take_deletion = Inl Withheld_FileNotFullyReadable\<rparr>
      else
        \<lparr>rs_note = map_option (\<lambda>_. note_for f) (cf_not_text_resolvable f),
         rs_text_resolution_allowed = text_resolvable f,
         rs_take_ours = offered_side (cf_ours f),
         rs_take_theirs = offered_side (cf_theirs f),
         rs_take_deletion = Inr ()\<rparr>)"

subsection \<open>The four panes\<close>

record conflict_panes =
  cp_path :: string
  cp_base :: pane_state
  cp_ours :: pane_state
  cp_theirs :: pane_state
  cp_result :: pane_state
  cp_surface :: resolution_surface

definition open_panes :: "conflicted_file \<Rightarrow> conflict_panes" where
  "open_panes f =
     \<lparr>cp_path = cf_path f, cp_base = pane_for_stage (cf_base f), cp_ours = pane_for_stage (cf_ours f),
      cp_theirs = pane_for_stage (cf_theirs f), cp_result = State_Awaiting (cf_path f),
      cp_surface = surface_of f\<rparr>"

fun pane_at :: "conflict_panes \<Rightarrow> pane \<Rightarrow> pane_state" where
  "pane_at cp Pane_Base = cp_base cp"
| "pane_at cp Pane_Ours = cp_ours cp"
| "pane_at cp Pane_Theirs = cp_theirs cp"
| "pane_at cp Pane_Result = cp_result cp"

text \<open>\<open>pane_mut\<close>: what a client does through it is to replace one pane.\<close>

fun set_pane :: "pane \<Rightarrow> pane_state \<Rightarrow> conflict_panes \<Rightarrow> conflict_panes" where
  "set_pane Pane_Base st cp = cp\<lparr>cp_base := st\<rparr>"
| "set_pane Pane_Ours st cp = cp\<lparr>cp_ours := st\<rparr>"
| "set_pane Pane_Theirs st cp = cp\<lparr>cp_theirs := st\<rparr>"
| "set_pane Pane_Result st cp = cp\<lparr>cp_result := st\<rparr>"

lemma pane_at_set_pane: "pane_at (set_pane p st cp) q = (if q = p then st else pane_at cp q)"
  by (cases p; cases q) simp_all

lemma all_panes_complete: "set all_panes = UNIV"
  using pane.exhaust by (auto simp: all_panes_def)

subsection \<open>Which answers reach a pane\<close>

text \<open>
  One answer of the server for a pane, whatever pane it was asked for; the stage panes take a blob's
  content, and a sequence of answers is folded in as it arrives.
\<close>

definition fold_answer :: "pane \<times> (string + blob_content) \<Rightarrow> conflict_panes \<Rightarrow> conflict_panes" where
  "fold_answer a cp = (case a of (p, fetched) \<Rightarrow> set_pane p (with_content (pane_at cp p) fetched) cp)"

lemma with_content_cases:
  "with_content p fetched = p \<or>
   (\<exists>oid. p = State_Awaiting oid \<and>
     ((\<exists>reason. fetched = Inl reason \<and> with_content p fetched = State_Unavailable reason) \<or>
      (\<exists>b. fetched = Inr b \<and> bc_oid b = oid \<and>
         with_content p fetched =
           (if bc_binary b then State_Binary (word_of_nat (length (bc_content b)))
            else State_Text (bc_content b) (bc_truncated b)))))"
  by (cases p) (auto simp: with_content_def split: sum.splits)

text \<open>Where a text in a stage's pane comes from.\<close>

definition text_is_earned :: "(pane \<times> (string + blob_content)) list \<Rightarrow> pane \<Rightarrow> stage \<Rightarrow> pane_state \<Rightarrow> bool" where
  "text_is_earned answers p s st \<longleftrightarrow>
     (case st of
        State_Text content truncated \<Rightarrow>
          (\<exists>oid size b. s = Stage_Present oid False size \<and> (p, Inr b) \<in> set answers \<and> bc_oid b = oid \<and>
             \<not> bc_binary b \<and> bc_content b = content \<and> bc_truncated b = truncated)
      | State_Awaiting oid \<Rightarrow> (\<exists>size. s = Stage_Present oid False size)
      | State_Absent \<Rightarrow> s = Stage_Absent
      | State_Unreadable reason \<Rightarrow> s = Stage_Unreadable reason
      | State_Binary k \<Rightarrow> (\<exists>oid b n. s = Stage_Present oid b n)
      | State_Unavailable reason \<Rightarrow> (p, Inl reason) \<in> set answers \<and> is_text s)"

lemma text_is_earned_more: "text_is_earned answers p s st \<Longrightarrow> text_is_earned (answers @ more_answers) p s st"
  by (cases st) (auto simp: text_is_earned_def)

lemma text_is_earned_open: "text_is_earned [] p s (pane_for_stage s)"
  by (cases s) (auto simp: text_is_earned_def)

lemma text_is_earned_step:
  assumes "text_is_earned answers p s st"
  shows "text_is_earned (answers @ [(p, fetched)]) p s (with_content st fetched)"
proof (cases "with_content st fetched = st")
  case True
  with text_is_earned_more[OF assms] show ?thesis by simp
next
  case False
  with with_content_cases[of st fetched] assms show ?thesis
    by (auto simp: text_is_earned_def split: if_splits)
qed

definition stage_of_pane :: "conflicted_file \<Rightarrow> pane \<Rightarrow> stage" where
  "stage_of_pane f p = (case p of Pane_Base \<Rightarrow> cf_base f | Pane_Ours \<Rightarrow> cf_ours f | _ \<Rightarrow> cf_theirs f)"

lemma fold_answers_earned:
  assumes "p \<noteq> Pane_Result"
  shows "text_is_earned answers p (stage_of_pane f p) (pane_at (fold fold_answer answers (open_panes f)) p)"
proof (induction answers rule: rev_induct)
  case Nil
  then show ?case using assms text_is_earned_open
    by (cases p) (auto simp: open_panes_def stage_of_pane_def)
next
  case (snoc a answers)
  obtain q fetched where a: "a = (q, fetched)" by (cases a)
  show ?case
  proof (cases "q = p")
    case True
    from text_is_earned_step[OF snoc, of fetched] True a show ?thesis
      by (simp add: fold_answer_def pane_at_set_pane)
  next
    case False
    from text_is_earned_more[OF snoc, of "[a]"] False a show ?thesis
      by (simp add: fold_answer_def pane_at_set_pane)
  qed
qed

text \<open>
  C23: no pane claims a version it was not given. After any sequence of answers, late, repeated,
  failed, for another pane or for another object, the pane of a side shows a text only when git holds
  a text version of that side and an answer for that pane carried exactly this object with exactly
  this content; a pane of an absent or an unreadable side says so for ever.
\<close>

theorem pane_text_is_earned:
  assumes "p \<in> {Pane_Base, Pane_Ours, Pane_Theirs}"
  shows "case pane_at (fold fold_answer answers (open_panes f)) p of
      State_Text content truncated \<Rightarrow>
        (\<exists>oid size b. stage_of_pane f p = Stage_Present oid False size \<and> (p, Inr b) \<in> set answers \<and>
           bc_oid b = oid \<and> \<not> bc_binary b \<and> bc_content b = content \<and> bc_truncated b = truncated)
    | State_Absent \<Rightarrow> stage_of_pane f p = Stage_Absent
    | State_Unreadable reason \<Rightarrow> stage_of_pane f p = Stage_Unreadable reason
    | _ \<Rightarrow> stage_of_pane f p \<noteq> Stage_Absent \<and> is_choosable (stage_of_pane f p)"
proof -
  have "p \<noteq> Pane_Result" using assms by auto
  from fold_answers_earned[OF this, of answers f] show ?thesis
    unfolding text_is_earned_def
    by (cases "pane_at (fold fold_answer answers (open_panes f)) p"; cases "stage_of_pane f p") auto
qed

text \<open>
  A control is offered exactly when every side could be read and the server would not refuse it;
  the line editor is offered exactly when the two gates the server puts before a content resolution
  would both pass.
\<close>

theorem controls_mirror_server:
  "(rs_take_ours (surface_of f) = Inr () \<longleftrightarrow> all_sides_readable f \<and> refuses f TakeOurs = None) \<and>
   (rs_take_theirs (surface_of f) = Inr () \<longleftrightarrow> all_sides_readable f \<and> refuses f TakeTheirs = None) \<and>
   (rs_take_deletion (surface_of f) = Inr () \<longleftrightarrow> all_sides_readable f \<and> refuses f TakeDeletion = None) \<and>
   (rs_text_resolution_allowed (surface_of f) \<longleftrightarrow> all_sides_readable f \<and> text_resolvable f)"
  by (auto simp: surface_of_def offered_side_def side_refusal_def split: stage.splits)

lemma pane_text_is_earned_witness:
  "let f = \<lparr>cf_path = ''f'', cf_kind = BothAdded, cf_base = Stage_Absent,
            cf_ours = Stage_Present ''aa'' False 1, cf_theirs = Stage_Present ''bb'' False 1,
            cf_not_text_resolvable = None\<rparr>;
       answers = [(Pane_Base, Inr \<lparr>bc_oid = ''aa'', bc_content = [], bc_truncated = False, bc_binary = False\<rparr>),
                  (Pane_Ours, Inr \<lparr>bc_oid = ''aa'', bc_content = ''x'', bc_truncated = False, bc_binary = False\<rparr>)]
   in pane_at (fold fold_answer answers (open_panes f)) Pane_Ours = State_Text ''x'' False \<and>
      pane_at (fold fold_answer answers (open_panes f)) Pane_Base = State_Absent \<and>
      stage_of_pane f Pane_Base = Stage_Absent"
proof -
  let ?f = "\<lparr>cf_path = ''f'', cf_kind = BothAdded, cf_base = Stage_Absent,
            cf_ours = Stage_Present ''aa'' False 1, cf_theirs = Stage_Present ''bb'' False 1,
            cf_not_text_resolvable = None\<rparr>"
  let ?answers = "[(Pane_Base, Inr \<lparr>bc_oid = ''aa'', bc_content = [], bc_truncated = False, bc_binary = False\<rparr>),
                  (Pane_Ours, Inr \<lparr>bc_oid = ''aa'', bc_content = ''x'', bc_truncated = False, bc_binary = False\<rparr>)]"
  have e: "pane_at (fold fold_answer ?answers (open_panes ?f)) Pane_Ours = State_Text ''x'' False"
    "pane_at (fold fold_answer ?answers (open_panes ?f)) Pane_Base = State_Absent"
    by (simp_all add: fold_answer_def open_panes_def with_content_def)
  from pane_text_is_earned[where p = Pane_Base and answers = ?answers and f = ?f] e show ?thesis by simp
qed

end
