(* ===== verification/Markers.thy ===== *)
theory Markers imports Paths "HOL-Library.Sublist" begin

text \<open>
  \<open>crates/git-vista-conflicts/src/markers.rs\<close>: the marker file git leaves for a conflicted path, read
  into blocks a person can choose between, and the resolved file composed from one choice per
  conflict.
\<close>

subsection \<open>Blocks and choices\<close>

datatype block =
    Block_Context string
  | Block_Conflict string string "string option"

datatype choice = Unchosen | Choose_Ours | Choose_Theirs | Choose_Both

fun describe_choice :: "choice \<Rightarrow> string" where
  "describe_choice Unchosen = ''not chosen yet''"
| "describe_choice Choose_Ours = ''keeping ours''"
| "describe_choice Choose_Theirs = ''keeping theirs''"
| "describe_choice Choose_Both = ''keeping both''"

definition ours_open :: string where "ours_open = replicate 7 (CHR ''<'')"
definition base_sep :: string where "base_sep = replicate 7 (CHR ''|'')"
definition mid_sep :: string where "mid_sep = replicate 7 (CHR ''='')"
definition theirs_close :: string where "theirs_close = replicate 7 (CHR ''>'')"

definition starts_marker :: "string \<Rightarrow> string \<Rightarrow> bool" where
  "starts_marker line marker =
     (case strip_prefix marker line of
        None \<Rightarrow> False
      | Some [] \<Rightarrow> True
      | Some (c # cs) \<Rightarrow> c \<in> {CHR 0x20, CHR 0x0A, CHR 0x0D})"

subsection \<open>Parsing\<close>

text \<open>\<open>split_inclusive\<close> on the newline: every line keeps its end.\<close>

fun split_inclusive :: "string \<Rightarrow> string list" where
  "split_inclusive [] = []"
| "split_inclusive (c # s) =
     (if c = CHR 0x0A then [c] # split_inclusive s
      else case split_inclusive s of [] \<Rightarrow> [[c]] | l # ls \<Rightarrow> (c # l) # ls)"

datatype marker_section = Section_Ours | Section_Base | Section_Theirs

text \<open>What has been read of an open conflict.\<close>

record open_conflict =
  oc_ours :: string
  oc_base :: "string option"
  oc_theirs :: string
  oc_section :: marker_section
  oc_raw :: string

definition open_at :: "string \<Rightarrow> open_conflict" where
  "open_at line = \<lparr>oc_ours = [], oc_base = None, oc_theirs = [], oc_section = Section_Ours, oc_raw = line\<rparr>"

definition read_inner :: "string \<Rightarrow> open_conflict \<Rightarrow> open_conflict" where
  "read_inner inner oc =
     (let oc = oc\<lparr>oc_raw := oc_raw oc @ inner\<rparr> in
      if starts_marker inner base_sep then oc\<lparr>oc_base := Some [], oc_section := Section_Base\<rparr>
      else if starts_marker inner mid_sep then oc\<lparr>oc_section := Section_Theirs\<rparr>
      else case oc_section oc of
             Section_Ours \<Rightarrow> oc\<lparr>oc_ours := oc_ours oc @ inner\<rparr>
           | Section_Base \<Rightarrow> oc\<lparr>oc_base := Some ((case oc_base oc of Some b \<Rightarrow> b | None \<Rightarrow> []) @ inner)\<rparr>
           | Section_Theirs \<Rightarrow> oc\<lparr>oc_theirs := oc_theirs oc @ inner\<rparr>)"

text \<open>The inner loop: the conflict, whether it was closed, and the lines after it.\<close>

fun read_conflict :: "string list \<Rightarrow> open_conflict \<Rightarrow> open_conflict \<times> bool \<times> string list" where
  "read_conflict [] oc = (oc, False, [])"
| "read_conflict (inner # ls) oc =
     (if \<not> starts_marker inner base_sep \<and> \<not> starts_marker inner mid_sep \<and> starts_marker inner theirs_close
      then (oc\<lparr>oc_raw := oc_raw oc @ inner\<rparr>, True, ls)
      else read_conflict ls (read_inner inner oc))"

lemma read_conflict_shorter: "length (snd (snd (read_conflict ls oc))) \<le> length ls"
  by (induction ls oc rule: read_conflict.induct) (auto intro: le_SucI)

definition push_context :: "string \<Rightarrow> block list \<Rightarrow> block list" where
  "push_context context blocks = (if context = [] then blocks else blocks @ [Block_Context context])"

function parse_blocks :: "string list \<Rightarrow> string \<Rightarrow> block list \<Rightarrow> block list" where
  "parse_blocks [] context blocks = push_context context blocks"
| "parse_blocks (line # ls) context blocks =
     (if \<not> starts_marker line ours_open then parse_blocks ls (context @ line) blocks
      else case read_conflict ls (open_at line) of
             (oc, closed, rest) \<Rightarrow>
               if closed then
                 parse_blocks rest []
                   (push_context context blocks @ [Block_Conflict (oc_ours oc) (oc_theirs oc) (oc_base oc)])
               else parse_blocks rest (context @ oc_raw oc) blocks)"
  by pat_completeness auto
termination
  by (relation "measure (\<lambda>(ls, c, b). length ls)")
     (auto, (metis read_conflict_shorter snd_conv less_Suc_eq_le)+)

definition parse_markers :: "string \<Rightarrow> block list" where
  "parse_markers marker_text = parse_blocks (split_inclusive marker_text) [] []"

subsection \<open>Composing\<close>

definition choice_at :: "choice list \<Rightarrow> nat \<Rightarrow> choice" where
  "choice_at choices n = (if n < length choices then choices ! n else Unchosen)"

fun compose_from :: "block list \<Rightarrow> choice list \<Rightarrow> nat \<Rightarrow> string \<Rightarrow> string option" where
  "compose_from [] choices k out = Some out"
| "compose_from (Block_Context text # bs) choices k out = compose_from bs choices k (out @ text)"
| "compose_from (Block_Conflict ours theirs base # bs) choices k out =
     (case choice_at choices k of
        Unchosen \<Rightarrow> None
      | Choose_Ours \<Rightarrow> compose_from bs choices (k + 1) (out @ ours)
      | Choose_Theirs \<Rightarrow> compose_from bs choices (k + 1) (out @ theirs)
      | Choose_Both \<Rightarrow> compose_from bs choices (k + 1) (out @ ours @ theirs))"

definition compose :: "block list \<Rightarrow> choice list \<Rightarrow> string option" where
  "compose blocks choices = compose_from blocks choices 0 []"

fun is_conflict :: "block \<Rightarrow> bool" where
  "is_conflict (Block_Context text) = False"
| "is_conflict (Block_Conflict ours theirs base) = True"

definition conflict_count :: "block list \<Rightarrow> nat" where
  "conflict_count blocks = length (filter is_conflict blocks)"

definition unchosen :: "block list \<Rightarrow> choice list \<Rightarrow> nat list" where
  "unchosen blocks choices = filter (\<lambda>i. choice_at choices i = Unchosen) [0..<conflict_count blocks]"


subsection \<open>Lines\<close>

text \<open>A text of whole lines: nothing, or ended by a newline.\<close>

definition whole_lines :: "string \<Rightarrow> bool" where
  "whole_lines s \<longleftrightarrow> s = [] \<or> last s = CHR 0x0A"

lemma concat_split_inclusive [simp]: "concat (split_inclusive s) = s"
  by (induction s rule: split_inclusive.induct) (auto split: list.splits)

lemma split_inclusive_Nil [simp]: "split_inclusive s = [] \<longleftrightarrow> s = []"
  by (cases s) (auto split: list.splits)

lemma split_inclusive_append: "whole_lines a \<Longrightarrow> split_inclusive (a @ b) = split_inclusive a @ split_inclusive b"
proof (induction a rule: split_inclusive.induct)
  case (2 c a)
  then show ?case
    by (cases "a = []") (auto simp: whole_lines_def neq_Nil_conv split: list.splits)
qed simp

lemma split_inclusive_line: "CHR 0x0A \<notin> set l \<Longrightarrow> split_inclusive (l @ CHR 0x0A # s) = (l @ [CHR 0x0A]) # split_inclusive s"
  by (induction l) auto

subsection \<open>A marker file as it is written\<close>

text \<open>
  A marker line is the marker with a label and a newline. The four labels are the names git gives
  the sides; a label is empty or set off by a blank.
\<close>

definition marker_line :: "string \<Rightarrow> string \<Rightarrow> string" where
  "marker_line marker label = marker @ label @ [CHR 0x0A]"

definition label_ok :: "string \<Rightarrow> bool" where
  "label_ok l \<longleftrightarrow> CHR 0x0A \<notin> set l \<and> (l = [] \<or> hd l = CHR 0x20)"

record marker_labels =
  ml_ours :: string
  ml_base :: string
  ml_mid :: string
  ml_theirs :: string

definition labels_ok :: "marker_labels \<Rightarrow> bool" where
  "labels_ok m \<longleftrightarrow> label_ok (ml_ours m) \<and> label_ok (ml_base m) \<and> label_ok (ml_mid m) \<and> label_ok (ml_theirs m)"

fun block_text :: "marker_labels \<Rightarrow> block \<Rightarrow> string" where
  "block_text m (Block_Context text) = text"
| "block_text m (Block_Conflict ours theirs base) =
     marker_line ours_open (ml_ours m) @ ours @
     (case base of Some b \<Rightarrow> marker_line base_sep (ml_base m) @ b | None \<Rightarrow> []) @
     marker_line mid_sep (ml_mid m) @ theirs @ marker_line theirs_close (ml_theirs m)"

definition inner_line :: "string \<Rightarrow> bool" where
  "inner_line l \<longleftrightarrow> \<not> starts_marker l base_sep \<and> \<not> starts_marker l mid_sep \<and> \<not> starts_marker l theirs_close"

definition side_text :: "string \<Rightarrow> bool" where
  "side_text s \<longleftrightarrow> whole_lines s \<and> list_all inner_line (split_inclusive s)"

text \<open>
  The blocks a file can be written from: a context is not empty, has no opening marker line, does
  not touch another context and ends its last line unless it is the last block; a side of a conflict
  has whole lines and none of the other three markers.
\<close>

fun wf_blocks :: "block list \<Rightarrow> bool" where
  "wf_blocks [] = True"
| "wf_blocks (Block_Context text # bs) \<longleftrightarrow>
     text \<noteq> [] \<and> list_all (\<lambda>l. \<not> starts_marker l ours_open) (split_inclusive text) \<and>
     (bs = [] \<or> whole_lines text \<and> is_conflict (hd bs)) \<and> wf_blocks bs"
| "wf_blocks (Block_Conflict ours theirs base # bs) \<longleftrightarrow>
     side_text ours \<and> side_text theirs \<and> (case base of Some b \<Rightarrow> side_text b | None \<Rightarrow> True) \<and> wf_blocks bs"

definition marker_file :: "marker_labels \<Rightarrow> block list \<Rightarrow> string" where
  "marker_file m blocks = concat (map (block_text m) blocks)"

lemmas marker_defs = ours_open_def base_sep_def mid_sep_def theirs_close_def

lemma marker_line_starts:
  assumes "label_ok l"
  shows "starts_marker (marker_line ours_open l) ours_open" "starts_marker (marker_line base_sep l) base_sep"
    "starts_marker (marker_line mid_sep l) mid_sep" "starts_marker (marker_line theirs_close l) theirs_close"
  using assms by (auto simp: starts_marker_def marker_line_def label_ok_def split: list.splits; cases l; auto)+

lemma marker_line_others:
  "\<not> starts_marker (marker_line mid_sep l) base_sep" "\<not> starts_marker (marker_line theirs_close l) base_sep"
  "\<not> starts_marker (marker_line theirs_close l) mid_sep"
  by (simp_all add: starts_marker_def marker_line_def marker_defs eval_nat_numeral)

lemma marker_line_split:
  "label_ok l \<Longrightarrow> marker \<in> {ours_open, base_sep, mid_sep, theirs_close} \<Longrightarrow>
   split_inclusive (marker_line marker l @ s) = marker_line marker l # split_inclusive s"
  using split_inclusive_line[of "marker @ l" s] by (auto simp: marker_line_def label_ok_def marker_defs)


subsection \<open>Reading a written file\<close>

lemma parse_context_lines:
  "list_all (\<lambda>l. \<not> starts_marker l ours_open) ls \<Longrightarrow>
   parse_blocks (ls @ rest) ctx bs = parse_blocks rest (ctx @ concat ls) bs"
  by (induction ls arbitrary: ctx) simp_all

lemma same_base: "oc_base oc = b \<Longrightarrow> oc\<lparr>oc_base := b\<rparr> = oc"
  by (cases oc) simp

lemma read_side_lines:
  assumes "list_all inner_line ls"
  shows "oc_section oc = Section_Ours \<Longrightarrow> read_conflict (ls @ rest) oc =
      read_conflict rest (oc\<lparr>oc_ours := oc_ours oc @ concat ls, oc_raw := oc_raw oc @ concat ls\<rparr>)"
    and "oc_section oc = Section_Base \<Longrightarrow> oc_base oc = Some b \<Longrightarrow> read_conflict (ls @ rest) oc =
      read_conflict rest (oc\<lparr>oc_base := Some (b @ concat ls), oc_raw := oc_raw oc @ concat ls\<rparr>)"
    and "oc_section oc = Section_Theirs \<Longrightarrow> read_conflict (ls @ rest) oc =
      read_conflict rest (oc\<lparr>oc_theirs := oc_theirs oc @ concat ls, oc_raw := oc_raw oc @ concat ls\<rparr>)"
  using assms
  by (induction ls arbitrary: oc b) (auto simp: inner_line_def read_inner_def Let_def same_base)

lemma side_text_split: "side_text s \<Longrightarrow> split_inclusive (s @ t) = split_inclusive s @ split_inclusive t"
  by (simp add: side_text_def split_inclusive_append)

lemma read_written_conflict:
  assumes "labels_ok m" "side_text ours" "side_text theirs" "case base of Some b \<Rightarrow> side_text b | None \<Rightarrow> True"
  shows "\<exists>oc. read_conflict (split_inclusive (ours @
        (case base of Some b \<Rightarrow> marker_line base_sep (ml_base m) @ b | None \<Rightarrow> []) @
        marker_line mid_sep (ml_mid m) @ theirs @ marker_line theirs_close (ml_theirs m) @ s)) (open_at line) =
      (oc, True, split_inclusive s) \<and> oc_ours oc = ours \<and> oc_theirs oc = theirs \<and> oc_base oc = base"
proof -
  have l: "label_ok (ml_base m)" "label_ok (ml_mid m)" "label_ok (ml_theirs m)" using assms(1) by (auto simp: labels_ok_def)
  have side: "list_all inner_line (split_inclusive x)" if "side_text x" for x using that by (simp add: side_text_def)
  note lines = side_text_split marker_line_split l marker_line_starts marker_line_others read_side_lines[OF side]
    read_inner_def open_at_def
  show ?thesis using assms(2-4) by (cases base) (simp_all add: lines)
qed

lemma parse_written:
  assumes "labels_ok m" "wf_blocks bs" "bs = [] \<or> is_conflict (hd bs) \<or> ctx = []"
  shows "parse_blocks (split_inclusive (marker_file m bs)) ctx acc = push_context ctx acc @ bs"
  using assms(2,3)
proof (induction bs arbitrary: ctx acc)
  case Nil
  then show ?case by (simp add: marker_file_def)
next
  case (Cons b bs)
  show ?case
  proof (cases b)
    case (Block_Context tx)
    with Cons.prems have c: "ctx = []" and t: "tx \<noteq> []"
      "list_all (\<lambda>l. \<not> starts_marker l ours_open) (split_inclusive tx)" "bs = [] \<or> whole_lines tx \<and> is_conflict (hd bs)"
      and bs: "wf_blocks bs" by auto
    have "split_inclusive (tx @ marker_file m bs) = split_inclusive tx @ split_inclusive (marker_file m bs)"
      using t(3) by (auto simp: split_inclusive_append marker_file_def)
    moreover have "parse_blocks (split_inclusive (marker_file m bs)) tx acc = push_context tx acc @ bs"
      using t(3) by (intro Cons.IH[OF bs]) auto
    ultimately show ?thesis
      using Block_Context c t parse_context_lines[OF t(2), of "split_inclusive (marker_file m bs)" "[]" acc]
      by (simp add: marker_file_def push_context_def)
  next
    case (Block_Conflict ours theirs base)
    with Cons.prems have w: "side_text ours" "side_text theirs" "case base of Some b \<Rightarrow> side_text b | None \<Rightarrow> True"
      and bs: "wf_blocks bs" by auto
    let ?open = "marker_line ours_open (ml_ours m)"
    have lo: "label_ok (ml_ours m)" using assms(1) by (simp add: labels_ok_def)
    from read_written_conflict[OF assms(1) w, of "marker_file m bs" ?open] obtain oc where
      oc: "read_conflict (split_inclusive (ours @
          (case base of Some b \<Rightarrow> marker_line base_sep (ml_base m) @ b | None \<Rightarrow> []) @
          marker_line mid_sep (ml_mid m) @ theirs @ marker_line theirs_close (ml_theirs m) @ marker_file m bs)) (open_at ?open) =
        (oc, True, split_inclusive (marker_file m bs))" "oc_ours oc = ours" "oc_theirs oc = theirs" "oc_base oc = base"
      by blast
    have "marker_file m (b # bs) = ?open @ ours @
          (case base of Some b \<Rightarrow> marker_line base_sep (ml_base m) @ b | None \<Rightarrow> []) @
          marker_line mid_sep (ml_mid m) @ theirs @ marker_line theirs_close (ml_theirs m) @ marker_file m bs"
      using Block_Conflict by (simp add: marker_file_def split: option.splits)
    with oc marker_line_starts(1)[OF lo] Cons.IH[OF bs] Block_Conflict show ?thesis
      by (simp add: marker_line_split[OF lo] push_context_def)
  qed
qed

text \<open>
  The parser reads back every marker file: for any blocks a file can be written from and any
  labels git gives the sides, with the ancestor shown or not, the text of the file parses to exactly
  those blocks. In particular an opening marker inside a side, and any other marker in a context,
  are text.
\<close>

theorem marker_file_roundtrip:
  assumes "labels_ok m" "wf_blocks blocks"
  shows "parse_markers (marker_file m blocks) = blocks"
  using parse_written[OF assms, of "[]" "[]"] by (simp add: parse_markers_def push_context_def)


subsection \<open>What is composed\<close>

text \<open>A block under a choice, and the blocks with the ordinal of the conflict each would be.\<close>

fun chosen_text :: "choice \<Rightarrow> block \<Rightarrow> string" where
  "chosen_text c (Block_Context text) = text"
| "chosen_text c (Block_Conflict ours theirs base) =
     (case c of Unchosen \<Rightarrow> [] | Choose_Ours \<Rightarrow> ours | Choose_Theirs \<Rightarrow> theirs | Choose_Both \<Rightarrow> ours @ theirs)"

fun ordinals :: "nat \<Rightarrow> block list \<Rightarrow> (block \<times> nat) list" where
  "ordinals k [] = []"
| "ordinals k (b # bs) = (b, k) # ordinals (if is_conflict b then k + 1 else k) bs"

definition composed :: "block list \<Rightarrow> choice list \<Rightarrow> nat \<Rightarrow> string" where
  "composed bs choices k = concat (map (\<lambda>(b, i). chosen_text (choice_at choices i) b) (ordinals k bs))"

lemma compose_from_eq:
  "compose_from bs choices k out =
     (if filter (\<lambda>i. choice_at choices i = Unchosen) [k..<k + conflict_count bs] = []
      then Some (out @ composed bs choices k) else None)"
proof (induction bs choices k out rule: compose_from.induct)
  case (3 ours theirs base bs choices k out)
  have "[k..<k + conflict_count (Block_Conflict ours theirs base # bs)] = k # [Suc k..<Suc k + conflict_count bs]"
    using upt_conv_Cons[of k "k + Suc (conflict_count bs)"] by (simp add: conflict_count_def del: upt_Suc)
  with 3 show ?case by (cases "choice_at choices k") (simp_all add: composed_def)
qed (simp_all add: composed_def conflict_count_def)

text \<open>
  Composing answers exactly when nothing is left open: the composed file is every context and,
  for every conflict, the side or sides chosen under its ordinal, in the order of the file, and there
  is none exactly when the list of open conflicts, which the interface shows, is not empty.
\<close>

theorem compose_iff_all_chosen:
  "compose blocks choices =
     (if unchosen blocks choices = [] then Some (composed blocks choices 0) else None)"
  by (simp add: compose_def unchosen_def compose_from_eq)

text \<open>The lines a block comes from: a context is its lines; the two sides are lines of the conflict.\<close>

fun block_of_lines :: "block \<Rightarrow> string list \<Rightarrow> bool" where
  "block_of_lines (Block_Context text) ls \<longleftrightarrow> text = concat ls"
| "block_of_lines (Block_Conflict ours theirs base) ls \<longleftrightarrow>
     (\<exists>os ts. ours = concat os \<and> theirs = concat ts \<and> subseq (os @ ts) ls)"

definition conflict_of_lines :: "open_conflict \<Rightarrow> string list \<Rightarrow> bool" where
  "conflict_of_lines oc ls \<longleftrightarrow>
     (\<exists>os ts. oc_ours oc = concat os \<and> oc_theirs oc = concat ts \<and> subseq (os @ ts) ls \<and>
        (oc_section oc = Section_Ours \<longrightarrow> ts = []))"

lemma subseq_snoc: "subseq xs ys \<Longrightarrow> subseq (xs @ [y]) (ys @ [y])"
  by (rule list_emb_append_mono) simp_all

lemma subseq_skip: "subseq xs ys \<Longrightarrow> subseq xs (ys @ zs)"
  by (rule list_emb_prefix)

lemma read_inner_lines:
  assumes "conflict_of_lines oc ls" shows "conflict_of_lines (read_inner inner oc) (ls @ [inner])"
proof -
  from assms obtain os ts where o: "oc_ours oc = concat os" "oc_theirs oc = concat ts" "subseq (os @ ts) ls"
    "oc_section oc = Section_Ours \<longrightarrow> ts = []" unfolding conflict_of_lines_def by blast
  have skip: "subseq (os @ ts) (ls @ [inner])" using o(3) by (rule subseq_skip)
  have snoc: "subseq ((os @ ts) @ [inner]) (ls @ [inner])" using o(3) by (rule subseq_snoc)
  consider (sep) "starts_marker inner base_sep \<or> starts_marker inner mid_sep \<or> oc_section oc = Section_Base"
    | (ours) "\<not> starts_marker inner base_sep" "\<not> starts_marker inner mid_sep" "oc_section oc = Section_Ours"
    | (theirs) "\<not> starts_marker inner base_sep" "\<not> starts_marker inner mid_sep" "oc_section oc = Section_Theirs"
    by (cases "oc_section oc") auto
  then show ?thesis
  proof cases
    case sep
    then show ?thesis unfolding conflict_of_lines_def using o skip
      by (intro exI[of _ os] exI[of _ ts]) (auto simp: read_inner_def Let_def split: marker_section.splits)
  next
    case ours
    with o snoc show ?thesis unfolding conflict_of_lines_def
      by (intro exI[of _ "os @ [inner]"] exI[of _ "[]"]) (simp add: read_inner_def Let_def)
  next
    case theirs
    with o snoc show ?thesis unfolding conflict_of_lines_def
      by (intro exI[of _ os] exI[of _ "ts @ [inner]"]) (simp add: read_inner_def Let_def)
  qed
qed

lemma read_conflict_lines:
  "read_conflict ls oc = (oc', closed, rest) \<Longrightarrow> conflict_of_lines oc pre \<Longrightarrow>
   \<exists>used. ls = used @ rest \<and> oc_raw oc' = oc_raw oc @ concat used \<and> conflict_of_lines oc' (pre @ used) \<and>
     (\<not> closed \<longrightarrow> rest = [])"
proof (induction ls oc arbitrary: pre rule: read_conflict.induct)
  case (1 oc)
  then show ?case by (auto intro: exI[of _ "[]"])
next
  case (2 inner ls oc)
  show ?case
  proof (cases "\<not> starts_marker inner base_sep \<and> \<not> starts_marker inner mid_sep \<and> starts_marker inner theirs_close")
    case True
    with 2(2) have e: "oc' = oc\<lparr>oc_raw := oc_raw oc @ inner\<rparr>" "closed" "rest = ls" by auto
    from 2(3) have "conflict_of_lines oc' (pre @ [inner])"
      unfolding e(1) conflict_of_lines_def by (auto intro: subseq_skip)
    with e show ?thesis by (intro exI[of _ "[inner]"]) simp
  next
    case False
    with 2(2) have "read_conflict ls (read_inner inner oc) = (oc', closed, rest)" by simp
    from 2(1)[OF False this read_inner_lines[OF 2(3)]] obtain used where
      u: "ls = used @ rest" "oc_raw oc' = oc_raw (read_inner inner oc) @ concat used"
        "conflict_of_lines oc' ((pre @ [inner]) @ used)" "\<not> closed \<longrightarrow> rest = []" by blast
    have "oc_raw (read_inner inner oc) = oc_raw oc @ inner"
      by (simp add: read_inner_def Let_def split: marker_section.splits)
    with u show ?thesis by (intro exI[of _ "inner # used"]) simp
  qed
qed

lemma push_context_lines:
  assumes "list_all2 block_of_lines bs lss" "ctx = concat pre" "[] \<notin> set pre"
  shows "\<exists>lss'. list_all2 block_of_lines (push_context ctx bs) lss' \<and> concat lss' = concat lss @ pre"
proof (cases "pre = []")
  case True
  with assms show ?thesis by (intro exI[of _ lss]) (simp add: push_context_def)
next
  case False
  with assms(3) have "concat pre \<noteq> []" by (cases pre) auto
  with assms show ?thesis
    by (intro exI[of _ "lss @ [pre]"]) (auto simp: push_context_def intro!: list_all2_appendI)
qed

lemma parse_blocks_lines:
  assumes "list_all2 block_of_lines acc lss" "ctx = concat pre" "[] \<notin> set pre" "[] \<notin> set ls"
  shows "\<exists>lss'. list_all2 block_of_lines (parse_blocks ls ctx acc) lss' \<and> concat lss' = concat lss @ pre @ ls"
  using assms
proof (induction ls ctx acc arbitrary: lss pre rule: parse_blocks.induct)
  case (1 ctx acc)
  then show ?case using push_context_lines[OF 1(1,2,3)] by simp
next
  case (2 line ls ctx acc)
  show ?case
  proof (cases "starts_marker line ours_open")
    case False
    have "\<exists>lss'. list_all2 block_of_lines (parse_blocks ls (ctx @ line) acc) lss' \<and>
        concat lss' = concat lss @ (pre @ [line]) @ ls"
      using 2 False by (intro 2(1)) auto
    with False show ?thesis by simp
  next
    case True
    obtain oc closed rest where r: "read_conflict ls (open_at line) = (oc, closed, rest)" by (metis prod.exhaust)
    have "conflict_of_lines (open_at line) [line]"
      unfolding conflict_of_lines_def by (intro exI[of _ "[]"]) (simp add: open_at_def)
    from read_conflict_lines[OF r this] obtain used where
      u: "ls = used @ rest" "oc_raw oc = line @ concat used" "conflict_of_lines oc (line # used)" "\<not> closed \<longrightarrow> rest = []"
      by (auto simp: open_at_def)
    show ?thesis
    proof (cases closed)
      case closed: True
      obtain lss1 where l1: "list_all2 block_of_lines (push_context ctx acc) lss1" "concat lss1 = concat lss @ pre"
        using push_context_lines[OF 2(4,5,6)] by blast
      have "block_of_lines (Block_Conflict (oc_ours oc) (oc_theirs oc) (oc_base oc)) (line # used)"
        using u(3) by (auto simp: conflict_of_lines_def)
      with l1(1) have acc: "list_all2 block_of_lines
          (push_context ctx acc @ [Block_Conflict (oc_ours oc) (oc_theirs oc) (oc_base oc)]) (lss1 @ [line # used])"
        by (intro list_all2_appendI) (simp_all del: block_of_lines.simps)
      have "\<exists>lss'. list_all2 block_of_lines (parse_blocks rest []
            (push_context ctx acc @ [Block_Conflict (oc_ours oc) (oc_theirs oc) (oc_base oc)])) lss' \<and>
          concat lss' = concat (lss1 @ [line # used]) @ [] @ rest"
        using True r closed u(1) 2(7) acc by (intro 2(2)) auto
      with True r closed l1(2) u(1) show ?thesis by simp
    next
      case False
      have "\<exists>lss'. list_all2 block_of_lines (parse_blocks rest (ctx @ oc_raw oc) acc) lss' \<and>
          concat lss' = concat lss @ (pre @ line # used) @ rest"
        using True r False u(1,2) 2(4-7) by (intro 2(3)) auto
      with True r False u(1) show ?thesis by simp
    qed
  qed
qed

lemma composed_of_lines:
  assumes "list_all2 block_of_lines bs lss"
  shows "\<exists>ls. composed bs choices k = concat ls \<and> subseq ls (concat lss)"
  using assms
proof (induction bs lss arbitrary: k rule: list_all2_induct)
  case Nil
  then show ?case by (intro exI[of _ "[]"]) (simp add: composed_def)
next
  case (Cons b bs l lss)
  from Cons.IH[of "if is_conflict b then k + 1 else k"] obtain ls where
    ls: "composed bs choices (if is_conflict b then k + 1 else k) = concat ls" "subseq ls (concat lss)" by blast
  have "\<exists>bl. chosen_text c b = concat bl \<and> subseq bl l" for c
  proof (cases b)
    case (Block_Context tx)
    with Cons.hyps show ?thesis by (intro exI[of _ l]) simp
  next
    case (Block_Conflict ours theirs base)
    with Cons.hyps obtain os ts where o: "ours = concat os" "theirs = concat ts" "subseq (os @ ts) l" by auto
    have "subseq os l" "subseq ts l"
      using o(3) subseq_order.trans[OF _ o(3)] by (auto intro: list_emb_append2 subseq_skip)
    with o Block_Conflict show ?thesis
      by (cases c) (auto intro: exI[of _ os] exI[of _ ts] exI[of _ "os @ ts"] exI[of _ "[]"])
  qed
  then obtain bl where "chosen_text (choice_at choices k) b = concat bl" "subseq bl l" by blast
  with ls show ?case
    by (intro exI[of _ "bl @ ls"]) (simp add: composed_def list_emb_append_mono)
qed


lemma split_inclusive_nonempty: "[] \<notin> set (split_inclusive s)"
  by (induction s rule: split_inclusive.induct) (auto split: list.splits)

lemma parse_markers_lines:
  "\<exists>lss. list_all2 block_of_lines (parse_markers s) lss \<and> concat lss = split_inclusive s"
  using parse_blocks_lines[of "[]" "[]" "[]" "[]" "split_inclusive s"] split_inclusive_nonempty
  by (simp add: parse_markers_def)

lemma contexts_verbatim:
  "list_all2 block_of_lines bs lss \<Longrightarrow> conflict_count bs = 0 \<Longrightarrow> composed bs choices k = concat (concat lss)"
proof (induction bs lss arbitrary: k rule: list_all2_induct)
  case (Cons b bs l lss)
  then show ?case by (cases b) (auto simp: composed_def conflict_count_def)
qed (simp add: composed_def)

text \<open>
  C21: composing invents nothing. Whatever the file holds, with markers that are well placed or not,
  and whatever is chosen, the composed file consists of lines of the file in their order; and a file
  in which no conflict was recognised, such as one whose only conflict is never closed, is composed
  to itself, byte for byte.
\<close>

theorem composed_file_invents_nothing:
  assumes "compose (parse_markers s) choices = Some out"
  shows "(\<exists>ls. out = concat ls \<and> subseq ls (split_inclusive s)) \<and>
    (conflict_count (parse_markers s) \<noteq> 0 \<or> out = s)"
proof -
  from assms have out: "out = composed (parse_markers s) choices 0"
    by (simp add: compose_def compose_from_eq split: if_splits)
  obtain lss where l: "list_all2 block_of_lines (parse_markers s) lss" "concat lss = split_inclusive s"
    using parse_markers_lines by blast
  from composed_of_lines[OF l(1), of choices 0] contexts_verbatim[OF l(1), of choices 0] show ?thesis
    unfolding out l(2) by auto
qed

subsection \<open>Samples\<close>

definition sample_labels :: marker_labels where
  "sample_labels = \<lparr>ml_ours = '' HEAD'', ml_base = '' base'', ml_mid = [], ml_theirs = '' topic''\<rparr>"

definition sample_blocks :: "block list" where
  "sample_blocks =
     [Block_Context (''a'' @ nl), Block_Conflict (''o'' @ nl) (''t'' @ nl) (Some []), Block_Context ''z'']"

lemma sample_blocks_ok: "labels_ok sample_labels" "wf_blocks sample_blocks"
  by (simp_all add: sample_labels_def sample_blocks_def labels_ok_def label_ok_def side_text_def whole_lines_def
      inner_line_def starts_marker_def marker_defs eval_nat_numeral)

lemma marker_file_roundtrip_witness:
  "parse_markers (marker_file sample_labels sample_blocks) = sample_blocks"
  by (rule marker_file_roundtrip[OF sample_blocks_ok])

lemma sample_composed:
  "compose sample_blocks [Choose_Both] = Some (''a'' @ nl @ ''o'' @ nl @ ''t'' @ nl @ ''z'')"
  by (simp add: sample_blocks_def compose_def choice_at_def)

lemma composed_file_invents_nothing_witness:
  "compose (parse_markers ''no marker'') [] = Some ''no marker'' \<and>
   (\<exists>ls. ''no marker'' = concat ls \<and> subseq ls (split_inclusive ''no marker''))"
proof -
  have c: "compose (parse_markers ''no marker'') [] = Some ''no marker''"
    by (simp add: parse_markers_def starts_marker_def marker_defs eval_nat_numeral push_context_def compose_def)
  from composed_file_invents_nothing[OF c] c show ?thesis by simp
qed

text \<open>
  A separator line that belongs to the other side's text, such as the underline of a heading, is taken
  for a marker and lost: both choices that keep their side drop it.
\<close>

lemma separator_in_theirs_is_lost:
  "parse_markers (ours_open @ nl @ ''o'' @ nl @ mid_sep @ nl @ ''Heading'' @ nl @ mid_sep @ nl @ ''t'' @ nl @ theirs_close @ nl) =
     [Block_Conflict (''o'' @ nl) (''Heading'' @ nl @ ''t'' @ nl) None]"
  by (simp add: parse_markers_def starts_marker_def marker_defs eval_nat_numeral push_context_def read_inner_def
      open_at_def)

end
