(* ===== verification/Conflict_Exec.thy ===== *)
theory Conflict_Exec imports Conflict_View Markers Plan_Gate begin

text \<open>
  Reading and resolving a conflicted file: the bounded reads of
  \<open>crates/git-vista-server/src/handlers/conflicts.rs\<close> and the two executors of
  \<open>crates/git-vista-server/src/planner/conflict_exec.rs\<close>. The working tree is part of the state an
  executor is given and returns; git commands that write are the parameter \<open>run\<close>, which may change
  the state in any way. Panics of blocking tasks and the terminal log are not modelled.
\<close>

subsection \<open>The state\<close>

datatype canonical = Canon string | Canon_Missing string | Canon_Error string

text \<open>
  \<open>tokio::fs::write\<close> truncates the file when it opens it, so a write that fails may have left the
  file as it was, or cut it to what was written before the failure.
\<close>

datatype write_outcome = Write_Done | Write_Not_Opened string | Write_Cut string nat

text \<open>
  What git and gitoxide read; the file system by path: what a path canonicalises to, whether a path
  is a directory or a symbolic link (an error when it cannot be inspected), the bytes of a file (an
  error when it cannot be read), and how a write of some bytes would end.
\<close>

record work_state =
  wk_view :: repo_view
  wk_inputs :: "string + generation_inputs"
  wk_canonical :: "string \<Rightarrow> canonical"
  wk_is_dir :: "string \<Rightarrow> bool"
  wk_symlink :: "string \<Rightarrow> string + bool"
  wk_bytes :: "string \<Rightarrow> string + string"
  wk_write :: "string \<Rightarrow> string \<Rightarrow> write_outcome"

type_synonym response = "nat \<times> string"

definition status_not_found :: nat where "status_not_found = 404"

abbreviation sq :: string where "sq \<equiv> [CHR 0x27]"

subsection \<open>Bounded reads\<close>

definition file_content_cap :: nat where "file_content_cap = 2000000"

text \<open>The greatest character boundary that is not after \<open>n\<close>.\<close>

definition char_boundary :: "string \<Rightarrow> nat \<Rightarrow> bool" where
  "char_boundary s n \<longleftrightarrow> n = 0 \<or> n = length s \<or> n < length s \<and> \<not> tail_byte (s ! n)"

fun boundary_before :: "string \<Rightarrow> nat \<Rightarrow> nat" where
  "boundary_before s 0 = 0"
| "boundary_before s (Suc n) = (if char_boundary s (Suc n) then Suc n else boundary_before s n)"

definition truncate_at_line :: "string \<Rightarrow> nat \<Rightarrow> string" where
  "truncate_at_line s cap =
     (let head = take (boundary_before s (min cap (length s))) s in
      if CHR 0x0A \<in> set head then rev (tl (dropWhile (\<lambda>c. c \<noteq> CHR 0x0A) (rev head))) else head)"

text \<open>The decoded text, whether it was cut, and whether it is binary (then there is no text).\<close>

definition decode_bounded :: "string \<Rightarrow> bool \<Rightarrow> nat \<Rightarrow> string \<times> bool \<times> bool" where
  "decode_bounded bytes read_truncated cap =
     (if CHR 0x00 \<in> set (take 8000 bytes) then ([], False, True)
      else (if read_truncated then truncate_at_line (utf8_lossy bytes) cap else utf8_lossy bytes,
            read_truncated, False))"

definition path_inside :: "string \<Rightarrow> string \<Rightarrow> bool" where
  "path_inside root p \<longleftrightarrow> prefix (path_components root) (path_components p)"

definition resolve_worktree_read_path :: "work_state \<Rightarrow> string \<Rightarrow> string \<Rightarrow> response + string" where
  "resolve_worktree_read_path w repo rel =
     (case wk_canonical w repo of
        Canon repo_canon \<Rightarrow>
          (case wk_canonical w (path_join repo rel) of
             Canon resolved \<Rightarrow>
               if \<not> path_inside repo_canon resolved then
                 Inl (status_not_found, sq @ rel @ sq @ '' resolves outside the worktree.'')
               else if wk_is_dir w resolved then
                 Inl (status_not_found, sq @ rel @ sq @ '' is a directory, not a file.'')
               else Inr resolved
           | Canon_Missing e \<Rightarrow>
               Inl (status_not_found, sq @ rel @ sq @ '' does not exist in the working tree.'')
           | Canon_Error e \<Rightarrow>
               Inl (status_internal_server_error, ''couldn't resolve '' @ sq @ rel @ sq @ '': '' @ e))
      | Canon_Missing e \<Rightarrow>
          Inl (status_internal_server_error, ''couldn't resolve the worktree root: '' @ e)
      | Canon_Error e \<Rightarrow>
          Inl (status_internal_server_error, ''couldn't resolve the worktree root: '' @ e))"

text \<open>At most \<open>cap + 1\<close> bytes are read; the extra one says whether there are more.\<close>

definition read_bounded_worktree_file :: "work_state \<Rightarrow> string \<Rightarrow> nat \<Rightarrow> string + string \<times> bool" where
  "read_bounded_worktree_file w path cap =
     (case wk_bytes w path of
        Inl e \<Rightarrow> Inl e
      | Inr bytes \<Rightarrow>
          (let buf = take (cap + 1) bytes; truncated = cap < length buf in
           Inr (if truncated then take cap buf else buf, truncated)))"

definition worktree_file_for_repo :: "work_state \<Rightarrow> string \<Rightarrow> string \<Rightarrow> response + worktree_file_content" where
  "worktree_file_for_repo w repo raw_path =
     (case worktree_path_new raw_path of
        Inl e \<Rightarrow> Inl (status_bad_request, plan_field_error_text e)
      | Inr path \<Rightarrow>
     (case resolve_worktree_read_path w repo path of
        Inl r \<Rightarrow> Inl r
      | Inr resolved \<Rightarrow>
     (case read_bounded_worktree_file w resolved file_content_cap of
        Inl e \<Rightarrow> Inl (status_internal_server_error, ''couldn't read '' @ sq @ path @ sq @ '': '' @ e)
      | Inr (bytes, read_truncated) \<Rightarrow>
     (case decode_bounded bytes read_truncated file_content_cap of (content, truncated, binary) \<Rightarrow>
        Inr \<lparr>wc_path = path, wc_content = content, wc_truncated = truncated, wc_binary = binary\<rparr>))))"

text \<open>The one object read by \<open>git cat-file --batch\<close> is the parameter \<open>batch\<close>.\<close>

datatype batch_file_read = Batch_Blob string bool | Batch_NotABlob string

definition blob_content_for_repo ::
  "(string \<Rightarrow> nat \<Rightarrow> response + batch_file_read) \<Rightarrow> string \<Rightarrow> response + blob_content" where
  "blob_content_for_repo batch oid =
     (case commit_oid_new oid of
        Inl e \<Rightarrow> Inl (status_bad_request, ''Not an object id.'')
      | Inr v \<Rightarrow>
     (case batch oid file_content_cap of
        Inl r \<Rightarrow> Inl r
      | Inr (Batch_NotABlob kind) \<Rightarrow>
          Inl (status_not_found, sq @ oid @ sq @ '' is a '' @ kind @ '', not a blob.'')
      | Inr (Batch_Blob bytes read_truncated) \<Rightarrow>
     (case decode_bounded bytes read_truncated file_content_cap of (content, truncated, binary) \<Rightarrow>
        Inr \<lparr>bc_oid = oid, bc_content = content, bc_truncated = truncated, bc_binary = binary\<rparr>)))"

text \<open>
  A binary answer carries no text, so a pane that takes the size of a binary file from the length of
  that text shows zero bytes, whatever the file's size.
\<close>

lemma binary_pane_shows_zero_bytes:
  assumes "worktree_file_for_repo w repo path = Inr f" "wc_binary f"
  shows "result_pane_state (Read_Wrote f) = State_Binary 0"
  using assms
  by (auto simp: worktree_file_for_repo_def decode_bounded_def split: sum.splits prod.splits if_splits)

definition live_oid :: "stage \<Rightarrow> commit_oid option" where
  "live_oid s = (case s of Stage_Present oid binary size_bytes \<Rightarrow> Some oid | _ \<Rightarrow> None)"

definition live_stages :: "conflicted_file \<Rightarrow> commit_oid option \<times> commit_oid option \<times> commit_oid option" where
  "live_stages f = (live_oid (cf_base f), live_oid (cf_ours f), live_oid (cf_theirs f))"

definition conflicted_at :: "conflicted_file list \<Rightarrow> string \<Rightarrow> conflicted_file option" where
  "conflicted_at files path = find (\<lambda>f. cf_path f = path) files"

text \<open>The document a content resolution starts from.\<close>

definition conflict_source_for_repo ::
  "(string \<Rightarrow> string) \<Rightarrow> (string \<Rightarrow> u64) \<Rightarrow> work_state \<Rightarrow> string \<Rightarrow> string \<Rightarrow> response + conflict_source" where
  "conflict_source_for_repo sha256 digest w repo raw_path =
     (case worktree_path_new raw_path of
        Inl e \<Rightarrow> Inl (status_bad_request, plan_field_error_text e)
      | Inr path \<Rightarrow>
     (case resolve_worktree_read_path w repo path of
        Inl r \<Rightarrow> Inl r
      | Inr resolved \<Rightarrow>
     (case read_bounded_worktree_file w resolved file_content_cap of
        Inl e \<Rightarrow> Inl (status_internal_server_error, ''couldn't read '' @ sq @ path @ sq @ '': '' @ e)
      | Inr (bytes, read_truncated) \<Rightarrow>
     (case decode_bounded bytes read_truncated file_content_cap of (content, truncated, binary) \<Rightarrow>
     (case conflict_source_token sha256 digest (wk_inputs w) path bytes of
        Inl e \<Rightarrow> Inl (status_internal_server_error, e)
      | Inr source \<Rightarrow>
     (case scan (wk_view w) of
        Inl e \<Rightarrow> Inl (status_internal_server_error, e)
      | Inr files \<Rightarrow>
     (case conflicted_at files path of
        None \<Rightarrow> Inl (status_conflict,
            path @ '' is not conflicted '' @ em_dash @ '' nothing to resolve line by line'')
      | Some f \<Rightarrow>
          Inr \<lparr>cs_path = path, cs_content = content, cs_truncated = truncated, cs_binary = binary,
               cs_source = source, cs_stages = live_stages f\<rparr>)))))))"

subsection \<open>Taking a whole side\<close>

definition stderr_or :: "string \<Rightarrow> string \<Rightarrow> string" where
  "stderr_or stderr fallback = (let msg = trim (utf8_lossy stderr) in if msg = [] then fallback else msg)"

text \<open>
  A git command of an executor: the response when it did not run or failed, with the fallback text.
\<close>

definition run_or_refuse ::
  "(argv \<Rightarrow> work_state \<Rightarrow> git_run \<times> work_state) \<Rightarrow> argv \<Rightarrow> (string \<Rightarrow> response) \<Rightarrow> (string \<Rightarrow> response) \<Rightarrow>
     work_state \<Rightarrow> (response + unit) \<times> work_state" where
  "run_or_refuse run args not_run failed w =
     (case run args w of (out, w') \<Rightarrow>
        ((case out of
            No_Sandbox e \<Rightarrow> Inl (not_run e)
          | No_Spawn e \<Rightarrow> Inl (not_run e)
          | Exited code stdout stderr \<Rightarrow> if code = Some 0 then Inr () else Inl (failed stderr)), w'))"

definition couldnt_read_conflicts :: "string \<Rightarrow> response" where
  "couldnt_read_conflicts e =
     (status_bad_request, ''the conflicts could not be read, so nothing was resolved '' @ em_dash @ '' '' @ e)"

fun refusal_text :: "string \<Rightarrow> resolution_refused \<Rightarrow> string" where
  "refusal_text path (Side_Absent side) =
     path @ '' has no '' @ side @ '' side '' @ em_dash @ '' to remove the file, ask for a deletion '' @
     ''explicitly rather than taking a side that is not there''"
| "refusal_text path (Side_Unreadable side reason) =
     path @ sq @ ''s '' @ side @ '' side could not be read, so it cannot be chosen '' @ em_dash @ '' '' @ reason"

definition exec_resolve_conflict ::
  "(argv \<Rightarrow> work_state \<Rightarrow> git_run \<times> work_state) \<Rightarrow> work_state \<Rightarrow> worktree_path \<Rightarrow> resolution \<Rightarrow>
     response \<times> work_state" where
  "exec_resolve_conflict run w path r =
     (case scan (wk_view w) of
        Inl e \<Rightarrow> (couldnt_read_conflicts e, w)
      | Inr files \<Rightarrow>
     (case conflicted_at files path of
        None \<Rightarrow> ((status_conflict,
            path @ '' is not conflicted '' @ em_dash @ '' it may have been resolved already, or the '' @
            ''operation that produced the conflict may have ended''), w)
      | Some f \<Rightarrow>
     (case refuses f r of
        Some refused \<Rightarrow> ((status_conflict, refusal_text path refused), w)
      | None \<Rightarrow>
     (let not_run = couldnt_run (rv_expose_paths (wk_view w)) Fail_Spawn in
      case run_or_refuse run (resolve_conflict_argv path r) not_run
             (\<lambda>err. (status_bad_request, stderr_or err ''git could not apply that resolution.'')) w of
        (Inl resp, w1) \<Rightarrow> (resp, w1)
      | (Inr u, w1) \<Rightarrow>
          if r = TakeDeletion then ((status_ok, ''Resolved '' @ path @ ''.''), w1)
          else (case run_or_refuse run (stage_resolved_path_argv path) not_run
                       (\<lambda>err. (status_bad_request, stderr_or err ''git could not stage the resolved file.'')) w1 of
                  (Inl resp, w2) \<Rightarrow> (resp, w2)
                | (Inr u, w2) \<Rightarrow> ((status_ok, ''Resolved '' @ path @ ''.''), w2))))))"

subsection \<open>Writing resolved content\<close>

text \<open>\<open>symlink_containment_guard\<close> of \<open>planner.rs\<close>, for one path.\<close>

definition guard_root :: "work_state \<Rightarrow> string \<Rightarrow> response + string" where
  "guard_root w repo =
     (case wk_canonical w repo of
        Canon c \<Rightarrow> Inr c
      | Canon_Missing e \<Rightarrow> Inl (couldnt_run (rv_expose_paths (wk_view w)) Fail_ResolveWorktreeRoot
          (''couldn't resolve the worktree root: '' @ e))
      | Canon_Error e \<Rightarrow> Inl (couldnt_run (rv_expose_paths (wk_view w)) Fail_ResolveWorktreeRoot
          (''couldn't resolve the worktree root: '' @ e)))"

definition guard_path :: "work_state \<Rightarrow> string \<Rightarrow> string \<Rightarrow> string \<Rightarrow> response + unit" where
  "guard_path w repo repo_canon rel =
     (case wk_canonical w (path_join repo rel) of
        Canon resolved \<Rightarrow>
          if \<not> path_inside repo_canon resolved then
            Inl (status_conflict,
              lq @ rel @ rq @ '' resolves outside the worktree through a symlink '' @ em_dash @ '' refusing.'')
          else if wk_is_dir w resolved then
            Inl (status_conflict,
              lq @ rel @ rq @ '' names a directory '' @ em_dash @ '' refusing rather than deleting '' @
              ''its contents recursively under one requested entry; name individual files instead.'')
          else Inr ()
      | Canon_Missing e \<Rightarrow> Inr ()
      | Canon_Error e \<Rightarrow>
          Inl (couldnt_run (rv_expose_paths (wk_view w)) Fail_ResolvePath
                 (''couldn't resolve '' @ lq @ rel @ rq @ '': '' @ e)))"

fun guard_paths :: "work_state \<Rightarrow> string \<Rightarrow> string \<Rightarrow> string list \<Rightarrow> response + unit" where
  "guard_paths w repo repo_canon [] = Inr ()"
| "guard_paths w repo repo_canon (rel # rels) =
     (case guard_path w repo repo_canon rel of Inl r \<Rightarrow> Inl r | Inr u \<Rightarrow> guard_paths w repo repo_canon rels)"

definition symlink_containment_guard :: "work_state \<Rightarrow> string \<Rightarrow> string list \<Rightarrow> response + unit" where
  "symlink_containment_guard w repo paths =
     (case guard_root w repo of Inl r \<Rightarrow> Inl r | Inr repo_canon \<Rightarrow> guard_paths w repo repo_canon paths)"


text \<open>The write itself, and the path it reaches.\<close>

definition real_path :: "work_state \<Rightarrow> string \<Rightarrow> string" where
  "real_path w p = (case wk_canonical w p of Canon c \<Rightarrow> c | _ \<Rightarrow> p)"

definition put_file :: "string \<Rightarrow> string \<Rightarrow> work_state \<Rightarrow> work_state" where
  "put_file p content w = w\<lparr>wk_bytes := (wk_bytes w)(real_path w p := Inr content)\<rparr>"

definition write_file :: "work_state \<Rightarrow> string \<Rightarrow> string \<Rightarrow> (string + unit) \<times> work_state" where
  "write_file w p content =
     (case wk_write w p content of
        Write_Done \<Rightarrow> (Inr (), put_file p content w)
      | Write_Not_Opened e \<Rightarrow> (Inl e, w)
      | Write_Cut e n \<Rightarrow> (Inl e, put_file p (take n content) w))"

text \<open>Gates one to four of the content resolution, in their order.\<close>

definition ineligible_reason :: "conflicted_file \<Rightarrow> string" where
  "ineligible_reason f =
     (case cf_not_text_resolvable f of
        Some (Not_Text_Binary ours theirs) \<Rightarrow> ''at least one side is binary''
      | Some (Not_Text_Deletion ours_deleted theirs_deleted) \<Rightarrow>
          ''one side deleted this file '' @ em_dash @ '' there is no second side to merge lines against''
      | Some (Not_Text_Rename ours_path theirs_path) \<Rightarrow> ''the two sides do not agree on the path''
      | None \<Rightarrow> ''this file is not eligible for a text resolution'')"

definition content_refusal :: "string \<Rightarrow> content_resolution_refused \<Rightarrow> response" where
  "content_refusal path r = (status_conflict, describe_content_refusal r path)"

definition gate_conflicted :: "work_state \<Rightarrow> worktree_path \<Rightarrow> response + conflicted_file" where
  "gate_conflicted w path =
     (case scan (wk_view w) of
        Inl e \<Rightarrow> Inl (couldnt_read_conflicts e)
      | Inr files \<Rightarrow>
          (case conflicted_at files path of
             None \<Rightarrow> Inl (content_refusal path No_Longer_Conflicted)
           | Some f \<Rightarrow> Inr f))"

definition gate_eligible :: "worktree_path \<Rightarrow> conflicted_file \<Rightarrow> response + unit" where
  "gate_eligible path f =
     (if \<not> all_sides_readable f then
        Inl (content_refusal path (Content_Not_Text_Resolvable ''one side of this file could not be read''))
      else if \<not> text_resolvable f then
        Inl (content_refusal path (Content_Not_Text_Resolvable (ineligible_reason f)))
      else Inr ())"

definition gate_source ::
  "(string \<Rightarrow> string) \<Rightarrow> (string \<Rightarrow> u64) \<Rightarrow> work_state \<Rightarrow> string \<Rightarrow> worktree_path \<Rightarrow> generation_token \<Rightarrow> response + unit" where
  "gate_source sha256 digest w repo path expected_source =
     (case resolve_worktree_read_path w repo path of
        Inl (status, msg) \<Rightarrow>
          if status = status_not_found then Inl (content_refusal path No_Longer_Conflicted) else Inl (status, msg)
      | Inr resolved \<Rightarrow>
     (case read_bounded_worktree_file w resolved file_content_cap of
        Inl e \<Rightarrow> Inl (status_internal_server_error, ''couldn't re-read '' @ sq @ path @ sq @ '': '' @ e)
      | Inr (marker_bytes, truncated) \<Rightarrow>
     (case conflict_source_token sha256 digest (wk_inputs w) path marker_bytes of
        Inl e \<Rightarrow> Inl (status_internal_server_error, e)
      | Inr live_source \<Rightarrow>
          if live_source \<noteq> expected_source then Inl (content_refusal path Source_Moved) else Inr ())))"

definition gate_not_symlink :: "work_state \<Rightarrow> string \<Rightarrow> worktree_path \<Rightarrow> response + unit" where
  "gate_not_symlink w repo path =
     (case wk_symlink w (path_join repo path) of
        Inr True \<Rightarrow> Inl (status_conflict,
          sq @ path @ sq @ '' is a symbolic link, not a regular file '' @ em_dash @ '' refusing to resolve it, '' @
          ''because writing would follow the link and stage something else'')
      | Inr False \<Rightarrow> Inr ()
      | Inl e \<Rightarrow> Inl (status_conflict,
          sq @ path @ sq @ '' could not be inspected before writing ('' @ e @ '') '' @ em_dash @
          '' nothing was changed''))"

definition content_gates ::
  "(string \<Rightarrow> string) \<Rightarrow> (string \<Rightarrow> u64) \<Rightarrow> work_state \<Rightarrow> string \<Rightarrow> worktree_path \<Rightarrow>
     commit_oid option \<times> commit_oid option \<times> commit_oid option \<Rightarrow> generation_token \<Rightarrow> response + unit" where
  "content_gates sha256 digest w repo path expected_stages expected_source =
     (case gate_conflicted w path of
        Inl r \<Rightarrow> Inl r
      | Inr f \<Rightarrow>
     (case gate_eligible path f of
        Inl r \<Rightarrow> Inl r
      | Inr u \<Rightarrow>
     (if live_stages f \<noteq> expected_stages then Inl (content_refusal path Stages_Moved)
      else case gate_source sha256 digest w repo path expected_source of
        Inl r \<Rightarrow> Inl r
      | Inr u \<Rightarrow>
     (case symlink_containment_guard w repo [path] of
        Inl r \<Rightarrow> Inl r
      | Inr u \<Rightarrow> gate_not_symlink w repo path))))"

definition exec_resolve_conflict_content ::
  "(string \<Rightarrow> string) \<Rightarrow> (string \<Rightarrow> u64) \<Rightarrow> (argv \<Rightarrow> work_state \<Rightarrow> git_run \<times> work_state) \<Rightarrow> work_state \<Rightarrow> string \<Rightarrow>
     worktree_path \<Rightarrow> commit_oid option \<times> commit_oid option \<times> commit_oid option \<Rightarrow> generation_token \<Rightarrow> string \<Rightarrow>
     response \<times> work_state" where
  "exec_resolve_conflict_content sha256 digest run w repo path expected_stages expected_source content =
     (case content_gates sha256 digest w repo path expected_stages expected_source of
        Inl r \<Rightarrow> (r, w)
      | Inr u \<Rightarrow>
     (case write_file w (path_join repo path) content of
        (Inl e, w1) \<Rightarrow>
          ((status_internal_server_error,
             ''couldn't write '' @ sq @ path @ sq @ '': '' @ e @ '' '' @ em_dash @ '' the file was NOT changed''), w1)
      | (Inr u, w1) \<Rightarrow>
     (case run_or_refuse run [''add'', ''--'', path]
             (\<lambda>e. (status_internal_server_error,
                ''the file was written but staging it failed to even run: '' @ e @ '' '' @ em_dash @ '' '' @
                sq @ path @ sq @ '' now holds your resolved content, unstaged; run 'git add' '' @
                ''yourself to finish''))
             (\<lambda>err. (status_bad_request,
                ''the file was written but not staged '' @ em_dash @ '' '' @
                stderr_or err ''git could not stage the resolved file.'' @ '' '' @ em_dash @ '' '' @
                sq @ path @ sq @ '' now holds your resolved content, unstaged; run 'git add' '' @
                ''yourself to finish'')) w1 of
        (Inl r, w2) \<Rightarrow> (r, w2)
      | (Inr u, w2) \<Rightarrow> ((status_ok, ''Resolved '' @ path @ ''.''), w2))))"


subsection \<open>What the executors guarantee\<close>

definition ran_ok :: "git_run \<times> work_state \<Rightarrow> bool" where
  "ran_ok out \<longleftrightarrow> (case fst out of Exited code stdout stderr \<Rightarrow> code = Some 0 | _ \<Rightarrow> False)"

lemma run_or_refuse_eq:
  "snd (run_or_refuse run args not_run failed w) = snd (run args w)"
  "(\<exists>u. fst (run_or_refuse run args not_run failed w) = Inr u) \<longleftrightarrow> ran_ok (run args w)"
  by (auto simp: run_or_refuse_def ran_ok_def split: prod.splits git_run.splits)

lemma run_or_refuse_cases:
  assumes "run_or_refuse run args not_run failed w = (r, w')"
  shows "w' = snd (run args w)" "(\<exists>u. r = Inr u) = ran_ok (run args w)"
  using run_or_refuse_eq[of run args not_run failed w] assms by auto

lemma conflicted_atD: "conflicted_at files path = Some f \<Longrightarrow> f \<in> set files \<and> cf_path f = path"
  by (auto simp: conflicted_at_def find_Some_iff)

lemma status_numbers [simp]:
  "status_ok \<noteq> status_conflict" "status_ok \<noteq> status_bad_request" "status_ok \<noteq> status_internal_server_error"
  "status_ok \<noteq> status_not_found" "status_internal_server_error \<noteq> status_not_found"
  by (simp_all add: status_ok_def status_conflict_def status_bad_request_def status_internal_server_error_def
      status_not_found_def)

text \<open>
  C28: a whole side is taken, or the file removed, only when a fresh scan lists the path and does not
  refuse the choice: with a failed scan, a path that is no longer conflicted, an absent or an
  unreadable side no git command runs. What runs is the command of the choice and then, unless the
  file was removed, the staging of exactly this path; success is reported only when all of it
  succeeded.
\<close>

theorem side_resolution_guarded:
  assumes "exec_resolve_conflict run w path r = (resp, w')" "w' \<noteq> w \<or> fst resp = status_ok"
  shows "\<exists>files f. scan (wk_view w) = Inr files \<and> f \<in> set files \<and> cf_path f = path \<and> refuses f r = None \<and>
    (let took = run (resolve_conflict_argv path r) w; staged = run [''add'', ''--'', path] (snd took) in
     (w' = snd took \<or> w' = snd staged \<and> ran_ok took \<and> r \<noteq> TakeDeletion) \<and>
     (fst resp = status_ok \<longleftrightarrow> ran_ok took \<and> (r = TakeDeletion \<or> ran_ok staged)))"
proof -
  let ?not_run = "couldnt_run (rv_expose_paths (wk_view w)) Fail_Spawn"
  have nr: "fst (?not_run e) \<noteq> status_ok" for e by (simp add: couldnt_run_def status_numbers[symmetric])
  obtain files where files: "scan (wk_view w) = Inr files"
    using assms by (cases "scan (wk_view w)") (auto simp: exec_resolve_conflict_def couldnt_read_conflicts_def status_numbers[symmetric])
  obtain f where f: "conflicted_at files path = Some f"
    using assms files by (cases "conflicted_at files path") (auto simp: exec_resolve_conflict_def status_numbers[symmetric])
  have ok: "refuses f r = None"
    using assms files f by (cases "refuses f r") (auto simp: exec_resolve_conflict_def status_numbers[symmetric])
  let ?bad = "\<lambda>m err. (status_bad_request, stderr_or err m)"
  let ?m1 = "''git could not apply that resolution.''" and ?m2 = "''git could not stage the resolved file.''"
  obtain r1 w1 where t1: "run_or_refuse run (resolve_conflict_argv path r) ?not_run (?bad ?m1) w = (r1, w1)" by fastforce
  obtain r2 w2 where t2: "run_or_refuse run [''add'', ''--'', path] ?not_run (?bad ?m2) w1 = (r2, w2)" by fastforce
  have bad1: "r1 = Inl x \<Longrightarrow> fst x \<noteq> status_ok" for x
    using t1 nr by (auto simp: run_or_refuse_def status_numbers[symmetric] split: prod.splits git_run.splits if_splits)
  have bad2: "r2 = Inl x \<Longrightarrow> fst x \<noteq> status_ok" for x
    using t2 nr by (auto simp: run_or_refuse_def status_numbers[symmetric] split: prod.splits git_run.splits if_splits)
  have e: "exec_resolve_conflict run w path r =
      (case r1 of Inl x \<Rightarrow> (x, w1)
       | Inr u \<Rightarrow> if r = TakeDeletion then ((status_ok, ''Resolved '' @ path @ ''.''), w1)
           else (case r2 of Inl x \<Rightarrow> (x, w2) | Inr u \<Rightarrow> ((status_ok, ''Resolved '' @ path @ ''.''), w2)))"
    using files f ok t1 t2 by (simp add: exec_resolve_conflict_def stage_resolved_path_argv_def split: sum.splits)
  note c1 = run_or_refuse_cases[OF t1] and c2 = run_or_refuse_cases[OF t2]
  have body: "let took = run (resolve_conflict_argv path r) w; staged = run [''add'', ''--'', path] (snd took) in
     (w' = snd took \<or> w' = snd staged \<and> ran_ok took \<and> r \<noteq> TakeDeletion) \<and>
     (fst resp = status_ok \<longleftrightarrow> ran_ok took \<and> (r = TakeDeletion \<or> ran_ok staged))"
    using e assms(1) c1 c2 bad1 bad2
    by (cases r1; cases r2; cases "r = TakeDeletion") (auto simp: Let_def)
  with conflicted_atD[OF f] files ok show ?thesis by blast
qed

lemma gate_source_ok:
  assumes "gate_source sha256 digest w repo path expected = Inr u"
  shows "\<exists>root resolved bytes. wk_canonical w repo = Canon root \<and> wk_canonical w (path_join repo path) = Canon resolved \<and>
    path_inside root resolved \<and> \<not> wk_is_dir w resolved \<and> wk_bytes w resolved = Inr bytes \<and>
    conflict_source_token sha256 digest (wk_inputs w) path (take file_content_cap bytes) = Inr expected"
proof -
  obtain resolved where r: "resolve_worktree_read_path w repo path = Inr resolved"
    using assms by (auto simp: gate_source_def split: sum.splits prod.splits if_splits)
  then obtain root where c: "wk_canonical w repo = Canon root" "wk_canonical w (path_join repo path) = Canon resolved"
    "path_inside root resolved" "\<not> wk_is_dir w resolved"
    by (auto simp: resolve_worktree_read_path_def split: canonical.splits if_splits)
  obtain bytes where b: "wk_bytes w resolved = Inr bytes"
    using assms r by (cases "wk_bytes w resolved") (auto simp: gate_source_def read_bounded_worktree_file_def)
  have "read_bounded_worktree_file w resolved file_content_cap = Inr (take file_content_cap bytes, file_content_cap < length bytes)"
    using b by (auto simp: read_bounded_worktree_file_def Let_def min_def not_less)
  with assms r b c show ?thesis by (auto simp: gate_source_def split: sum.splits if_splits)
qed

text \<open>
  C2: resolved content reaches the working tree only past every gate: a fresh scan lists the path,
  every version could be read and both sides are text, the three object ids are the ones the document
  was served with, the marker file as it is now mints the very token the document carried, the path
  lies inside the working tree and is neither a directory nor a symbolic link. Otherwise the answer
  is a refusal and nothing was written or run.
\<close>

theorem content_resolution_guarded:
  assumes "exec_resolve_conflict_content sha256 digest run w repo path stages source content = (resp, w')"
    and "w' \<noteq> w \<or> fst resp = status_ok"
  shows "\<exists>files f root resolved bytes. scan (wk_view w) = Inr files \<and> f \<in> set files \<and> cf_path f = path \<and>
    all_sides_readable f \<and> text_resolvable f \<and> live_stages f = stages \<and>
    wk_canonical w repo = Canon root \<and> wk_canonical w (path_join repo path) = Canon resolved \<and>
    path_inside root resolved \<and> \<not> wk_is_dir w resolved \<and> wk_symlink w (path_join repo path) = Inr False \<and>
    wk_bytes w resolved = Inr bytes \<and>
    conflict_source_token sha256 digest (wk_inputs w) path (take file_content_cap bytes) = Inr source"
proof -
  have refused: "content_gates sha256 digest w repo path stages source = Inl r \<Longrightarrow> fst r \<noteq> status_ok" for r
    by (auto simp: content_gates_def gate_conflicted_def gate_eligible_def gate_source_def gate_not_symlink_def
        symlink_containment_guard_def guard_root_def guard_path_def content_refusal_def couldnt_read_conflicts_def
        couldnt_run_def resolve_worktree_read_path_def status_numbers[symmetric]
        split: sum.splits option.splits if_splits canonical.splits prod.splits bool.splits)
  obtain u where g: "content_gates sha256 digest w repo path stages source = Inr u"
    using assms refused by (cases "content_gates sha256 digest w repo path stages source")
      (auto simp: exec_resolve_conflict_content_def)
  obtain f where f: "gate_conflicted w path = Inr f" "gate_eligible path f = Inr ()" "live_stages f = stages"
    "gate_source sha256 digest w repo path source = Inr ()" "gate_not_symlink w repo path = Inr ()"
    using g by (auto simp: content_gates_def split: sum.splits if_splits)
  obtain files where files: "scan (wk_view w) = Inr files" "conflicted_at files path = Some f"
    using f(1) by (auto simp: gate_conflicted_def split: sum.splits option.splits)
  have "all_sides_readable f" "text_resolvable f" using f(2) by (auto simp: gate_eligible_def split: if_splits)
  moreover have "wk_symlink w (path_join repo path) = Inr False"
    using f(5) by (auto simp: gate_not_symlink_def split: sum.splits bool.splits)
  ultimately show ?thesis
    using files conflicted_atD[OF files(2)] f(3) gate_source_ok[OF f(4)] by blast
qed


text \<open>
  Once the gates are passed, what is left behind is exactly this: a file that could not be opened
  leaves everything as it was; a write that ended leaves the file with the submitted content, whether
  or not staging it succeeds, and only then is success reported; a write that failed half way leaves
  the file cut to the part that was written, although the answer says that it was NOT changed.
\<close>

theorem write_and_stage_outcome:
  assumes "content_gates sha256 digest w repo path stages source = Inr ()"
    and "exec_resolve_conflict_content sha256 digest run w repo path stages source content = (resp, w')"
  shows "case wk_write w (path_join repo path) content of
      Write_Not_Opened e \<Rightarrow> w' = w \<and> fst resp = status_internal_server_error
    | Write_Cut e n \<Rightarrow>
        wk_bytes w' (real_path w (path_join repo path)) = Inr (take n content) \<and>
        resp = (status_internal_server_error,
          ''couldn't write '' @ sq @ path @ sq @ '': '' @ e @ '' '' @ em_dash @ '' the file was NOT changed'')
    | Write_Done \<Rightarrow>
        (\<exists>w1. wk_bytes w1 (real_path w (path_join repo path)) = Inr content \<and>
           w' = snd (run [''add'', ''--'', path] w1) \<and>
           (fst resp = status_ok \<longleftrightarrow> ran_ok (run [''add'', ''--'', path] w1)))"
proof (cases "wk_write w (path_join repo path) content")
  case Write_Done
  let ?w1 = "put_file (path_join repo path) content w"
  have "wk_bytes ?w1 (real_path w (path_join repo path)) = Inr content" by (simp add: put_file_def)
  moreover have "w' = snd (run [''add'', ''--'', path] ?w1) \<and>
      (fst resp = status_ok \<longleftrightarrow> ran_ok (run [''add'', ''--'', path] ?w1))"
  proof -
    obtain out w2 where r: "run [''add'', ''--'', path] ?w1 = (out, w2)" by fastforce
    show ?thesis
    proof (cases out)
      case (Exited code stdout stderr)
      with assms Write_Done r show ?thesis
        by (cases "code = Some 0") (auto simp: exec_resolve_conflict_content_def write_file_def run_or_refuse_def
            ran_ok_def status_numbers[symmetric])
    qed (use assms Write_Done r in \<open>auto simp: exec_resolve_conflict_content_def write_file_def run_or_refuse_def
        ran_ok_def status_numbers[symmetric]\<close>)
  qed
  ultimately show ?thesis using Write_Done by auto
qed (use assms in \<open>auto simp: exec_resolve_conflict_content_def write_file_def put_file_def\<close>)

lemma conflict_source_read:
  assumes "conflict_source_for_repo sha256 digest w repo path = Inr src"
  shows "\<exists>resolved bytes. resolve_worktree_read_path w repo path = Inr resolved \<and> wk_bytes w resolved = Inr bytes \<and>
    conflict_source_token sha256 digest (wk_inputs w) path (take file_content_cap bytes) = Inr (cs_source src) \<and>
    decode_bounded (take file_content_cap bytes) (file_content_cap < length bytes) file_content_cap =
      (cs_content src, cs_truncated src, cs_binary src)"
    and "scan (wk_view w) = Inr files \<Longrightarrow> conflicted_at files path = Some f \<Longrightarrow> cs_stages src = live_stages f"
proof -
  have p: "worktree_path_new path = Inr path"
    using assms by (auto simp: conflict_source_for_repo_def worktree_path_new_def validated_Inr split: sum.splits)
  obtain resolved where r: "resolve_worktree_read_path w repo path = Inr resolved"
    using assms p by (auto simp: conflict_source_for_repo_def split: sum.splits)
  obtain bytes where b: "wk_bytes w resolved = Inr bytes"
    using assms p r
    by (cases "wk_bytes w resolved") (auto simp: conflict_source_for_repo_def read_bounded_worktree_file_def)
  have "read_bounded_worktree_file w resolved file_content_cap = Inr (take file_content_cap bytes, file_content_cap < length bytes)"
    using b by (auto simp: read_bounded_worktree_file_def Let_def min_def not_less)
  note parts = assms p r b this
  show "\<exists>resolved bytes. resolve_worktree_read_path w repo path = Inr resolved \<and> wk_bytes w resolved = Inr bytes \<and>
    conflict_source_token sha256 digest (wk_inputs w) path (take file_content_cap bytes) = Inr (cs_source src) \<and>
    decode_bounded (take file_content_cap bytes) (file_content_cap < length bytes) file_content_cap =
      (cs_content src, cs_truncated src, cs_binary src)"
    using parts by (auto simp: conflict_source_for_repo_def split: sum.splits prod.splits option.splits)
  show "scan (wk_view w) = Inr files \<Longrightarrow> conflicted_at files path = Some f \<Longrightarrow> cs_stages src = live_stages f"
    using parts by (auto simp: conflict_source_for_repo_def split: sum.splits prod.splits option.splits)
qed

lemma resolve_read_path_cases:
  "resolve_worktree_read_path w repo path = Inr resolved \<longleftrightarrow>
    (\<exists>root. wk_canonical w repo = Canon root \<and> wk_canonical w (path_join repo path) = Canon resolved \<and>
       path_inside root resolved \<and> \<not> wk_is_dir w resolved)"
  by (auto simp: resolve_worktree_read_path_def split: canonical.splits)

lemma served_gates_pass:
  assumes "conflict_source_for_repo sha256 digest w repo path = Inr src"
    and "scan (wk_view w) = Inr files" "conflicted_at files path = Some f" "all_sides_readable f" "text_resolvable f"
    and "wk_symlink w (path_join repo path) = Inr False"
  shows "content_gates sha256 digest w repo path (cs_stages src) (cs_source src) = Inr ()"
proof -
  from conflict_source_read(1)[OF assms(1)] obtain resolved bytes where
    r: "resolve_worktree_read_path w repo path = Inr resolved" "wk_bytes w resolved = Inr bytes"
      "conflict_source_token sha256 digest (wk_inputs w) path (take file_content_cap bytes) = Inr (cs_source src)"
    by blast
  have "read_bounded_worktree_file w resolved file_content_cap = Inr (take file_content_cap bytes, file_content_cap < length bytes)"
    using r(2) by (auto simp: read_bounded_worktree_file_def Let_def min_def not_less)
  with r have "gate_source sha256 digest w repo path (cs_source src) = Inr ()" by (simp add: gate_source_def)
  moreover have "symlink_containment_guard w repo [path] = Inr ()"
    using r(1) by (auto simp: resolve_read_path_cases symlink_containment_guard_def guard_root_def guard_path_def)
  ultimately show ?thesis
    using assms(2-6) conflict_source_read(2)[OF assms(1-3)]
    by (simp add: content_gates_def gate_conflicted_def gate_eligible_def gate_not_symlink_def)
qed

text \<open>
  C13: an honest resolution goes through. When the document of an eligible file was served, the
  repository has not moved, every conflict in it was decided, and the write and the staging succeed,
  the submission of the composed text with the served stages and token is accepted and the file holds
  exactly the composed text. For a text file within the cap that is what the choices make of the
  document the parser reads in the lossily decoded file; and where the file is valid UTF-8 and is what
  git writes for some blocks (no line of a side is a separator or a closing marker), it is
  exactly the context of those blocks with each conflict replaced by the side or sides chosen for it.
\<close>

theorem served_document_resolves:
  assumes "conflict_source_for_repo sha256 digest w repo path = Inr src"
    and "scan (wk_view w) = Inr files" "conflicted_at files path = Some f" "all_sides_readable f" "text_resolvable f"
    and "wk_symlink w (path_join repo path) = Inr False"
    and "compose (parse_markers (cs_content src)) choices = Some out"
    and "wk_write w (path_join repo path) out = Write_Done"
    and "run [''add'', ''--'', path] (put_file (path_join repo path) out w) = (Exited (Some 0) stdout stderr, w')"
    and "wk_bytes w' = wk_bytes (put_file (path_join repo path) out w)"
  shows "exec_resolve_conflict_content sha256 digest run w repo path (cs_stages src) (cs_source src) out =
      ((status_ok, ''Resolved '' @ path @ ''.''), w') \<and>
    (\<exists>resolved bytes. wk_canonical w (path_join repo path) = Canon resolved \<and> wk_bytes w resolved = Inr bytes \<and>
       wk_bytes w' resolved = Inr out \<and>
       (length bytes \<le> file_content_cap \<and> \<not> cs_binary src \<longrightarrow>
          out = composed (parse_markers (utf8_lossy bytes)) choices 0 \<and>
          (\<forall>labels blocks. valid_utf8 bytes \<longrightarrow> labels_ok labels \<longrightarrow> wf_blocks blocks \<longrightarrow>
             bytes = marker_file labels blocks \<longrightarrow> out = composed blocks choices 0)))"
proof -
  have gates: "content_gates sha256 digest w repo path (cs_stages src) (cs_source src) = Inr ()"
    by (rule served_gates_pass[OF assms(1-6)])
  from conflict_source_read(1)[OF assms(1)] obtain resolved bytes where
    r: "resolve_worktree_read_path w repo path = Inr resolved" "wk_bytes w resolved = Inr bytes"
      "decode_bounded (take file_content_cap bytes) (file_content_cap < length bytes) file_content_cap =
        (cs_content src, cs_truncated src, cs_binary src)" by blast
  have canon: "wk_canonical w (path_join repo path) = Canon resolved"
    using r(1) by (auto simp: resolve_read_path_cases)
  have "out = composed (parse_markers (utf8_lossy bytes)) choices 0"
    if "length bytes \<le> file_content_cap" "\<not> cs_binary src"
  proof -
    have "cs_content src = utf8_lossy bytes"
      using r(3) that by (auto simp: decode_bounded_def split: if_splits)
    with assms(7) show ?thesis by (simp add: compose_iff_all_chosen split: if_splits)
  qed
  moreover have "parse_markers (utf8_lossy bytes) = blocks"
    if "valid_utf8 bytes" "labels_ok labels" "wf_blocks blocks" "bytes = marker_file labels blocks" for labels blocks
    using marker_file_roundtrip[OF that(2,3)] utf8_lossy_valid[OF that(1)] that(4) by simp
  ultimately have "length bytes \<le> file_content_cap \<and> \<not> cs_binary src \<longrightarrow>
      out = composed (parse_markers (utf8_lossy bytes)) choices 0 \<and>
      (\<forall>labels blocks. valid_utf8 bytes \<longrightarrow> labels_ok labels \<longrightarrow> wf_blocks blocks \<longrightarrow>
         bytes = marker_file labels blocks \<longrightarrow> out = composed blocks choices 0)" by metis
  moreover have "exec_resolve_conflict_content sha256 digest run w repo path (cs_stages src) (cs_source src) out =
      ((status_ok, ''Resolved '' @ path @ ''.''), w')"
    using gates assms(8-9)
    by (simp add: exec_resolve_conflict_content_def write_file_def run_or_refuse_def)
  moreover have "wk_bytes w' resolved = Inr out"
    using assms(10) canon by (simp add: put_file_def real_path_def)
  ultimately show ?thesis using canon r(2) by blast
qed

text \<open>
  What lies beyond the cap is neither shown nor pinned. For a file larger than the cap, any other
  tail gives the same served document, under the same token, and passes the same gates; the document
  is marked as cut, which no gate asks about, and the write that follows replaces the whole file.
\<close>

theorem tail_beyond_cap_is_unseen:
  assumes "wk_bytes w p = Inr bytes" "file_content_cap < length bytes"
    and "file_content_cap < length bytes'" "take file_content_cap bytes' = take file_content_cap bytes"
    and "w' = w\<lparr>wk_bytes := (wk_bytes w)(p := Inr bytes')\<rparr>"
  shows "conflict_source_for_repo sha256 digest w' repo path = conflict_source_for_repo sha256 digest w repo path \<and>
    content_gates sha256 digest w' repo path stages source = content_gates sha256 digest w repo path stages source"
proof -
  have read: "read_bounded_worktree_file w' q file_content_cap = read_bounded_worktree_file w q file_content_cap" for q
    using assms by (auto simp: read_bounded_worktree_file_def Let_def min_def)
  have same: "wk_canonical w' = wk_canonical w" "wk_is_dir w' = wk_is_dir w" "wk_symlink w' = wk_symlink w"
    "wk_inputs w' = wk_inputs w" "wk_view w' = wk_view w" using assms(5) by simp_all
  have "resolve_worktree_read_path w' repo q = resolve_worktree_read_path w repo q"
    "symlink_containment_guard w' repo [path] = symlink_containment_guard w repo [path]"
    "gate_conflicted w' path = gate_conflicted w path" "gate_not_symlink w' repo path = gate_not_symlink w repo path" for q
    by (simp_all only: same resolve_worktree_read_path_def symlink_containment_guard_def guard_root_def
        guard_paths.simps guard_path_def gate_conflicted_def gate_not_symlink_def)
  then show ?thesis
    by (simp only: conflict_source_for_repo_def content_gates_def gate_source_def read same simp_thms)
qed


subsection \<open>A conflict resolved\<close>

text \<open>A repository with one conflicted file, and a git whose \<open>add\<close> and \<open>checkout\<close> succeed.\<close>

definition sample_work :: "string \<Rightarrow> work_state" where
  "sample_work bytes =
     \<lparr>wk_view = sample_conflict_view, wk_inputs = Inr [],
      wk_canonical = (\<lambda>p. Canon p), wk_is_dir = (\<lambda>p. False), wk_symlink = (\<lambda>p. Inr False),
      wk_bytes = (\<lambda>p. Inr bytes), wk_write = (\<lambda>p c. Write_Done)\<rparr>"

definition sample_git :: "argv \<Rightarrow> work_state \<Rightarrow> git_run \<times> work_state" where
  "sample_git args w = (Exited (Some 0) [] [], w\<lparr>wk_inputs := Inl []\<rparr>)"

definition sample_marker_file :: string where
  "sample_marker_file =
     ours_open @ nl @ ''o'' @ nl @ mid_sep @ nl @ ''t'' @ nl @ theirs_close @ nl"

lemma sample_marker_file_blocks:
  "parse_markers sample_marker_file = [Block_Conflict (''o'' @ nl) (''t'' @ nl) None]"
  by (simp add: sample_marker_file_def parse_markers_def starts_marker_def marker_defs eval_nat_numeral
      push_context_def read_inner_def open_at_def)

lemma sample_oid: "commit_oid_new (replicate 40 (CHR ''a'')) = Inr (replicate 40 (CHR ''a''))"
  "commit_oid_new (replicate 40 (CHR ''b'')) = Inr (replicate 40 (CHR ''b''))"
  by (simp_all add: commit_oid_new_def validated_def require_hex_def list_all_iff byte_def)


definition sample_file :: conflicted_file where
  "sample_file =
     \<lparr>cf_path = ''f'', cf_kind = BothAdded, cf_base = Stage_Absent,
      cf_ours = Stage_Present (replicate 40 (CHR ''a'')) False 1,
      cf_theirs = Stage_Present (replicate 40 (CHR ''b'')) False 1, cf_not_text_resolvable = None\<rparr>"

lemma sample_describe:
  assumes "commit_oid_new oid = Inr oid"
  shows "describe_blob sample_conflict_view oid = Stage_Present oid False 1"
proof -
  have l: "utf8_lossy ''1'' = ''1''" by (intro utf8_lossy_valid ascii_valid_utf8) (simp add: byte_def)
  have "ws_len ''1'' = 0" by (rule ws_len_graphic) (simp_all add: byte_def)
  moreover have "ws_end_len ''1'' = 0" by (simp add: ws_end_len_def white_space_def strip_suffix_def)
  ultimately have t: "trim ''1'' = ''1''" by (rule trim_fixed)
  have "parse_u64 ''1'' = Some 1" by (simp add: parse_u64_def parse_uint_def digit_value_def)
  with assms l t show ?thesis
    by (simp add: describe_blob_def blob_size_def blob_bytes_def git_output_def sample_conflict_runs
        sniff_binary_def binary_sniff_bytes_def del: utf8_lossy.simps)
qed

lemma sample_scan: "scan sample_conflict_view = Inr [sample_file]"
proof -
  have f: "utf8_lossy ''f'' = ''f''" by (intro utf8_lossy_valid ascii_valid_utf8) (simp add: byte_def)
  note [simp del] = utf8_lossy.simps
  have k: "List.map_filter unmerged_kind sample_conflict_status = [(''f'', BothAdded)]"
    by (simp add: sample_conflict_status_def map_filter_read f)
  have o: "stage_oid (map row_entry sample_conflict_rows) ''f'' 1 = None"
    "stage_oid (map row_entry sample_conflict_rows) ''f'' 2 = Some (replicate 40 (CHR ''a''))"
    "stage_oid (map row_entry sample_conflict_rows) ''f'' 3 = Some (replicate 40 (CHR ''b''))"
    by (simp_all add: stage_oid_def sample_conflict_rows_def row_entry_def f)
  have p: "sort (remdups (map (\<lambda>r. utf8_lossy (ur_path r)) sample_conflict_rows)) = [''f'']"
    by (simp add: sample_conflict_rows_def f)
  show ?thesis
    unfolding scan_printed[OF sample_conflict_rows_ok sample_conflict_runs(1,2)] p k
    by (simp add: scan_file_def Let_def o describe_stage_def sample_describe[OF sample_oid(1)]
        sample_describe[OF sample_oid(2)] sample_file_def not_text_resolvable_def)
qed

lemma sample_file_ok:
  "conflicted_at [sample_file] ''f'' = Some sample_file" "all_sides_readable sample_file"
  "text_resolvable sample_file" "refuses sample_file TakeOurs = None"
  by (simp_all add: conflicted_at_def sample_file_def all_sides_readable_def text_resolvable_def side_refusal_def)


abbreviation sample_here :: work_state where "sample_here \<equiv> sample_work sample_marker_file"

definition sample_source :: conflict_source where
  "sample_source =
     \<lparr>cs_path = ''f'', cs_content = sample_marker_file, cs_truncated = False, cs_binary = False,
      cs_source = ''conflict-v1:'' @ show_u64 7, cs_stages = live_stages sample_file\<rparr>"

lemma sample_resolved: "resolve_worktree_read_path (sample_work bytes) ''r'' ''f'' = Inr ''r/f''"
  by (simp add: resolve_read_path_cases sample_work_def path_join_def is_absolute_path_def path_inside_def
      path_components_def starts_with_def)

lemma sample_path: "worktree_path_new ''f'' = Inr ''f''"
proof -
  have "ws_len ''f'' = 0" by (rule ws_len_graphic) (simp_all add: byte_def)
  then show ?thesis
    by (simp add: worktree_path_new_def validated_def require_worktree_relative_path_def require_git_safe_def
        require_non_empty_def starts_with_def)
qed

lemma sample_token:
  "conflict_source_token (\<lambda>s. []) (\<lambda>s. 7) (Inr []) path bytes = Inr (''conflict-v1:'' @ show_u64 7)"
proof -
  have "ws_len (''conflict-v1:'' @ show_u64 7) = 0" by (simp only: append.simps, rule ws_len_graphic) (simp_all add: byte_def)
  then show ?thesis
    by (simp add: conflict_source_token_def generation_of_def generation_token_new_def validated_def
        require_non_empty_def)
qed

lemma sample_served: "conflict_source_for_repo (\<lambda>s. []) (\<lambda>s. 7) sample_here ''r'' ''f'' = Inr sample_source"
proof -
  have len: "length sample_marker_file < 100" by (simp add: sample_marker_file_def marker_defs)
  then have "read_bounded_worktree_file sample_here ''r/f'' file_content_cap = Inr (sample_marker_file, False)"
    by (simp add: read_bounded_worktree_file_def sample_work_def file_content_cap_def Let_def)
  moreover have "decode_bounded sample_marker_file False file_content_cap = (sample_marker_file, False, False)"
  proof -
    have "\<forall>c \<in> set sample_marker_file. byte c < 128"
      by (simp add: sample_marker_file_def marker_defs byte_def)
    then have "utf8_lossy sample_marker_file = sample_marker_file" by (intro utf8_lossy_valid ascii_valid_utf8) simp
    moreover have "CHR 0x00 \<notin> set sample_marker_file" by (simp add: sample_marker_file_def marker_defs)
    then have "CHR 0x00 \<notin> set (take 8000 sample_marker_file)" by (meson in_set_takeD)
    ultimately show ?thesis by (simp add: decode_bounded_def)
  qed
  moreover have "wk_inputs sample_here = Inr []" "wk_view sample_here = sample_conflict_view" by (simp_all add: sample_work_def)
  ultimately show ?thesis
    by (simp add: conflict_source_for_repo_def sample_path sample_resolved sample_token sample_scan
        sample_file_ok(1) sample_source_def)
qed

lemma sample_gates:
  "content_gates (\<lambda>s. []) (\<lambda>s. 7) sample_here ''r'' ''f'' (cs_stages sample_source) (cs_source sample_source) = Inr ()"
  by (rule served_gates_pass[OF sample_served _ sample_file_ok(1-3)]) (simp_all add: sample_work_def sample_scan)

lemma sample_exec:
  "exec_resolve_conflict_content (\<lambda>s. []) (\<lambda>s. 7) sample_git sample_here ''r'' ''f''
     (cs_stages sample_source) (cs_source sample_source) content =
   ((status_ok, ''Resolved '' @ ''f'' @ ''.''), (put_file (path_join ''r'' ''f'') content sample_here)\<lparr>wk_inputs := Inl []\<rparr>)"
proof -
  have "wk_write sample_here p content = Write_Done" for p by (simp add: sample_work_def)
  with sample_gates show ?thesis
    by (simp add: exec_resolve_conflict_content_def write_file_def run_or_refuse_def sample_git_def)
qed

lemma side_resolution_guarded_witness:
  "fst (fst (exec_resolve_conflict sample_git sample_here ''f'' TakeOurs)) = status_ok \<and>
   ran_ok (sample_git (resolve_conflict_argv ''f'' TakeOurs) sample_here)"
proof -
  obtain resp w' where e: "exec_resolve_conflict sample_git sample_here ''f'' TakeOurs = (resp, w')" by fastforce
  have "fst (fst (exec_resolve_conflict sample_git sample_here ''f'' TakeOurs)) = status_ok"
  proof -
    have "scan (wk_view sample_here) = Inr [sample_file]" by (simp add: sample_work_def sample_scan)
    then show ?thesis
      by (simp add: exec_resolve_conflict_def sample_file_ok run_or_refuse_def sample_git_def Let_def del: refuses.simps)
  qed
  with e have ok: "fst resp = status_ok" by simp
  from side_resolution_guarded[OF e disjI2[OF ok]] e ok show ?thesis by (auto simp: Let_def)
qed

lemma content_resolution_guarded_witness:
  "fst (fst (exec_resolve_conflict_content (\<lambda>s. []) (\<lambda>s. 7) sample_git sample_here ''r'' ''f''
     (cs_stages sample_source) (cs_source sample_source) ''o'')) = status_ok \<and>
   (\<exists>f. cf_path f = ''f'' \<and> text_resolvable f \<and> live_stages f = cs_stages sample_source)"
proof -
  from content_resolution_guarded[OF sample_exec[of "''o''"]] show ?thesis by (auto simp: sample_exec)
qed

lemma write_and_stage_outcome_witness:
  "fst (fst (exec_resolve_conflict_content (\<lambda>s. []) (\<lambda>s. 7) sample_git sample_here ''r'' ''f''
     (cs_stages sample_source) (cs_source sample_source) ''o'')) = status_ok \<and>
   (\<exists>w1. wk_bytes w1 ''r/f'' = Inr ''o'' \<and> ran_ok (sample_git [''add'', ''--'', ''f''] w1))"
proof -
  have d: "wk_write sample_here (path_join ''r'' ''f'') ''o'' = Write_Done"
    "real_path sample_here (path_join ''r'' ''f'') = ''r/f''"
    by (simp_all add: sample_work_def real_path_def path_join_def is_absolute_path_def starts_with_def)
  from write_and_stage_outcome[OF sample_gates sample_exec[of "''o''"]] d show ?thesis
    by (auto simp: sample_exec)
qed

lemma served_document_resolves_witness:
  "\<exists>w'. exec_resolve_conflict_content (\<lambda>s. []) (\<lambda>s. 7) sample_git sample_here ''r'' ''f''
     (cs_stages sample_source) (cs_source sample_source) (''o'' @ nl @ ''t'' @ nl) =
     ((status_ok, ''Resolved '' @ ''f'' @ ''.''), w') \<and>
   wk_bytes w' ''r/f'' = Inr (''o'' @ nl @ ''t'' @ nl)"
proof -
  let ?out = "''o'' @ nl @ ''t'' @ nl" and ?p = "path_join ''r'' ''f''"
  let ?w' = "(put_file ?p ?out sample_here)\<lparr>wk_inputs := Inl []\<rparr>"
  have p: "?p = ''r/f''" by (simp add: path_join_def is_absolute_path_def starts_with_def)
  have "compose (parse_markers (cs_content sample_source)) [Choose_Both] = Some ?out"
    by (simp add: sample_source_def sample_marker_file_blocks compose_def choice_at_def)
  moreover have "sample_git [''add'', ''--'', ''f''] (put_file ?p ?out sample_here) = (Exited (Some 0) [] [], ?w')"
    by (simp add: sample_git_def)
  moreover have "wk_symlink sample_here ?p = Inr False" "wk_write sample_here ?p ?out = Write_Done"
    "scan (wk_view sample_here) = Inr [sample_file]" "wk_bytes ?w' = wk_bytes (put_file ?p ?out sample_here)"
    by (simp_all add: sample_work_def sample_scan)
  ultimately have "exec_resolve_conflict_content (\<lambda>s. []) (\<lambda>s. 7) sample_git sample_here ''r'' ''f''
        (cs_stages sample_source) (cs_source sample_source) ?out = ((status_ok, ''Resolved '' @ ''f'' @ ''.''), ?w') \<and>
      (\<exists>resolved bytes. wk_canonical sample_here ?p = Canon resolved \<and> wk_bytes ?w' resolved = Inr ?out)"
    using served_document_resolves[OF sample_served _ sample_file_ok(1-3), of "[Choose_Both]" ?out sample_git "[]" "[]" ?w']
    by blast
  moreover have "wk_canonical sample_here ?p = Canon ''r/f''" by (simp add: sample_work_def p)
  ultimately show ?thesis by auto
qed

lemma tail_beyond_cap_is_unseen_witness:
  "conflict_source_for_repo (\<lambda>s. []) (\<lambda>s. 7)
     ((sample_work (replicate (Suc file_content_cap) (CHR ''x'')))
        \<lparr>wk_bytes := (wk_bytes (sample_work (replicate (Suc file_content_cap) (CHR ''x''))))
           (''r/f'' := Inr (replicate file_content_cap (CHR ''x'') @ ''yz''))\<rparr>) ''r'' ''f'' =
   conflict_source_for_repo (\<lambda>s. []) (\<lambda>s. 7) (sample_work (replicate (Suc file_content_cap) (CHR ''x''))) ''r'' ''f''"
proof -
  have "wk_bytes (sample_work (replicate (Suc file_content_cap) (CHR ''x''))) ''r/f'' =
      Inr (replicate (Suc file_content_cap) (CHR ''x''))"
    by (simp add: sample_work_def)
  moreover have "take file_content_cap (replicate file_content_cap (CHR ''x'') @ ''yz'') =
      take file_content_cap (replicate (Suc file_content_cap) (CHR ''x''))"
    by (simp only: take_replicate take_append length_replicate min.idem diff_self_eq_0 take_0 append_Nil2) simp
  ultimately show ?thesis
    using tail_beyond_cap_is_unseen[of "sample_work (replicate (Suc file_content_cap) (CHR ''x''))" "''r/f''"
        "replicate (Suc file_content_cap) (CHR ''x'')" "replicate file_content_cap (CHR ''x'') @ ''yz''" _
        "\<lambda>s. []" "\<lambda>s. 7" "''r''" "''f''"]
    by (simp del: replicate.simps)
qed

end
