(* ===== verification/Worktree_Exec.thy ===== *)
theory Worktree_Exec imports Conflict_Exec begin

text \<open>
  The destructive executors of \<open>crates/git-vista-server/src/planner/worktree_exec.rs\<close>: discarding
  changes to tracked paths, deleting untracked paths, removing a linked worktree and resetting a test
  repository to its seed (with the pure half of the reset, \<open>crates/git-vista-core/src/seed.rs\<close>). As in
  the conflict executors, git commands that write are the parameter \<open>run\<close>, which may change the
  working tree in any way; an executor returns its response, the line it journals, if it gets that
  far, and the state it leaves. The terminal log is not modelled.
\<close>

subsection \<open>The request\<close>

text \<open>\<open>validate_paths\<close> of \<open>handlers/discard.rs\<close>: every path is checked, a repeated one is kept once.\<close>

fun keep_valid :: "string list \<Rightarrow> worktree_path list \<Rightarrow> response + worktree_path list" where
  "keep_valid [] paths = Inr paths"
| "keep_valid (raw # raws) paths =
     (case worktree_path_new raw of
        Inl e \<Rightarrow> Inl (status_bad_request, plan_field_error_text e)
      | Inr path \<Rightarrow> keep_valid raws (if path \<in> set paths then paths else paths @ [path]))"

definition validate_paths :: "string list \<Rightarrow> response + worktree_path list" where
  "validate_paths raws =
     (if raws = [] then Inl (status_bad_request, ''Name at least one path.'') else keep_valid raws [])"

lemma keep_valid_Inr: "keep_valid raws paths = Inr ps \<Longrightarrow> distinct paths \<Longrightarrow> distinct ps \<and> set ps = set paths \<union> set raws"
proof (induction raws arbitrary: paths)
  case (Cons raw raws)
  then obtain path where "worktree_path_new raw = Inr path" by (auto split: sum.splits)
  moreover from this have "path = raw" by (auto simp: worktree_path_new_def validated_def split: sum.splits)
  ultimately show ?case using Cons.prems Cons.IH[of "if path \<in> set paths then paths else paths @ [path]"] by (auto split: if_splits)
qed simp

lemma validate_paths_Inr: "validate_paths raws = Inr ps \<Longrightarrow> distinct ps \<and> set ps = set raws"
  using keep_valid_Inr[of raws "[]" ps] by (auto simp: validate_paths_def split: if_splits)

subsection \<open>Path states\<close>

datatype path_kind = Path_TrackedDirty | Path_Untracked | Path_Other

fun kind_of_entry :: "status_entry \<Rightarrow> (string \<times> path_kind) option" where
  "kind_of_entry (Entry_Changed path sides sub binary) = Some (path, Path_TrackedDirty)"
| "kind_of_entry (Entry_Renamed path origin score kind sub binary) = Some (path, Path_TrackedDirty)"
| "kind_of_entry (Entry_Untracked path binary) = Some (path, Path_Untracked)"
| "kind_of_entry (Entry_Ignored path) = None"
| "kind_of_entry (Entry_Conflicted path kind sub) = None"

text \<open>A later entry for a path replaces an earlier one.\<close>

definition classify_path_states :: "parsed_status \<Rightarrow> (string \<rightharpoonup> path_kind)" where
  "classify_path_states p = map_of (rev (List.map_filter kind_of_entry (ps_entries p)))"

definition live_kind :: "(string \<rightharpoonup> path_kind) \<Rightarrow> string \<Rightarrow> path_kind" where
  "live_kind live path = (case live path of Some k \<Rightarrow> k | None \<Rightarrow> Path_Other)"

fun check_path_states :: "(string \<rightharpoonup> path_kind) \<Rightarrow> path_kind \<Rightarrow> worktree_path list \<Rightarrow> response + unit" where
  "check_path_states live expect [] = Inr ()"
| "check_path_states live expect (path # paths) =
     (if live_kind live path \<noteq> expect then
        Inl (status_conflict,
          lq @ path @ rq @ '' changed while this was pending '' @ em_dash @ '' refusing rather than '' @
          ''partially applying.'')
      else check_path_states live expect paths)"

definition status_argv :: argv where
  "status_argv = [''status'', ''--porcelain=v2'', ''-z'']"

definition verify_path_states :: "work_state \<Rightarrow> worktree_path list \<Rightarrow> path_kind \<Rightarrow> response + unit" where
  "verify_path_states w paths expect =
     (let v = wk_view w;
          not_run = (\<lambda>e. Inl (couldnt_run (rv_expose_paths v) Fail_ReadStatus (''couldn't run git status: '' @ e)))
      in case rv_run v status_argv of
           No_Sandbox e \<Rightarrow> not_run e
         | No_Spawn e \<Rightarrow> not_run e
         | Exited code stdout stderr \<Rightarrow>
             if code \<noteq> Some 0 then
               Inl (couldnt_run (rv_expose_paths v) Fail_VerifyPaths
                 ''git status failed, so these paths cannot be re-verified before executing'')
             else check_path_states (classify_path_states (parse_porcelain_v2_z stdout)) expect paths)"

definition was_were :: "'a list \<Rightarrow> string" where
  "was_were xs = (if length xs = 1 then ''was'' else ''were'')"

definition plural :: "nat \<Rightarrow> string" where
  "plural n = (if n = 1 then [] else ''s'')"

subsection \<open>Discarding changes\<close>

record discard_outcome =
  do_reverted :: "string list"
  do_still_dirty :: "string list"

definition observe_discard :: "(string \<rightharpoonup> path_kind) \<Rightarrow> string list \<Rightarrow> discard_outcome" where
  "observe_discard live requested =
     \<lparr>do_reverted = filter (\<lambda>p. live_kind live p \<noteq> Path_TrackedDirty) requested,
      do_still_dirty = filter (\<lambda>p. live_kind live p = Path_TrackedDirty) requested\<rparr>"

text \<open>The response and the journal line.\<close>

definition discard_report :: "discard_outcome \<Rightarrow> string option \<Rightarrow> response \<times> string" where
  "discard_report d git_err =
     (if do_still_dirty d = [] then
        let count = length (do_reverted d); s = plural count; names = join '', '' (do_reverted d) in
        ((status_ok,
           ''Discarded uncommitted changes to '' @ decimal (int count) @ '' tracked path'' @ s @ '': '' @ names @
           ''. Recoverable only for content that was staged before this ran, and '' @
           ''only until the next git gc '' @ em_dash @ '' a worktree-only edit is gone.''),
         ''discarded uncommitted changes to '' @ decimal (int count) @ '' tracked path'' @ s @ '' ('' @ names @ '') '' @
         em_dash @ '' recoverable only for content staged before this ran, and only until '' @
         ''git gc; a worktree-only edit is gone'')
      else
        let still = join '', '' (do_still_dirty d);
            note = (if do_reverted d = [] then ''nothing was reverted''
                    else join '', '' (do_reverted d) @ '' '' @ was_were (do_reverted d) @ '' reverted '' @ em_dash @
                      '' recoverable only for content staged before this ran, '' @ ''and only until git gc'');
            reason = (case git_err of Some e \<Rightarrow> '' git said: '' @ e | None \<Rightarrow> []);
            msg = ''Partial result: '' @ note @ '', but '' @ still @ '' '' @ was_were (do_still_dirty d) @
              '' not '' @ em_dash @ '' nothing further was applied to '' @ still @ ''; re-check its '' @
              ''status before retrying.'' @ reason
        in ((status_conflict, msg), ''discard-tracked-paths partial result '' @ em_dash @ '' '' @ msg))"

definition discard_unverified :: "string option \<Rightarrow> string list \<Rightarrow> response \<times> string" where
  "discard_unverified git_err requested =
     (let names = join '', '' requested;
          msg = (case git_err of
                   Some e \<Rightarrow> ''git checkout failed ('' @ e @ '') and the worktree could not be '' @
                     ''re-verified afterwards, so which of '' @ names @ '' actually '' @
                     ''reverted is unknown '' @ em_dash @ '' check status manually before retrying.''
                 | None \<Rightarrow> ''git checkout exited successfully but the worktree could not be '' @
                     ''re-verified afterwards, so whether '' @ names @ '' actually '' @ ''reverted is unconfirmed.'')
      in ((status_internal_server_error, msg),
          ''discard-tracked-paths could not be verified '' @ em_dash @ '' '' @ msg))"

text \<open>The working tree is read again whatever git returned.\<close>

definition discard_recheck :: "work_state \<Rightarrow> worktree_path list \<Rightarrow> string option \<Rightarrow> response \<times> string" where
  "discard_recheck w paths git_err =
     (case rv_run (wk_view w) status_argv of
        Exited rechecked live stderr \<Rightarrow>
          if rechecked = Some 0 then
            discard_report (observe_discard (classify_path_states (parse_porcelain_v2_z live)) paths) git_err
          else discard_unverified git_err paths
      | _ \<Rightarrow> discard_unverified git_err paths)"

type_synonym executed = "response \<times> string option \<times> work_state"

definition exec_discard_tracked_paths ::
  "(argv \<Rightarrow> work_state \<Rightarrow> git_run \<times> work_state) \<Rightarrow> work_state \<Rightarrow> string \<Rightarrow> worktree_path list \<Rightarrow> executed" where
  "exec_discard_tracked_paths run w repo paths =
     (case symlink_containment_guard w repo paths of
        Inl refused \<Rightarrow> (refused, None, w)
      | Inr u \<Rightarrow>
     (case verify_path_states w paths Path_TrackedDirty of
        Inl refused \<Rightarrow> (refused, None, w)
      | Inr u \<Rightarrow>
     (case run (discard_tracked_argv paths) w of (out, w1) \<Rightarrow>
     (let not_run = couldnt_run (rv_expose_paths (wk_view w)) Fail_Spawn in
      case out of
        No_Sandbox e \<Rightarrow> (not_run e, None, w1)
      | No_Spawn e \<Rightarrow> (not_run e, None, w1)
      | Exited code stdout stderr \<Rightarrow>
          (case discard_recheck w1 paths
                  (if code = Some 0 then None else Some (stderr_or stderr ''git checkout failed.'')) of
             (resp, line) \<Rightarrow> (resp, Some line, w1))))))"

subsection \<open>Deleting untracked paths\<close>

definition is_present :: "work_state \<Rightarrow> string \<Rightarrow> string \<Rightarrow> bool" where
  "is_present w repo p = (case wk_symlink w (path_join repo p) of Inr l \<Rightarrow> True | Inl e \<Rightarrow> False)"

definition present_paths :: "work_state \<Rightarrow> string \<Rightarrow> string list \<Rightarrow> string list" where
  "present_paths w repo requested = filter (is_present w repo) requested"

record delete_outcome =
  de_deleted :: "string list"
  de_already_gone :: "string list"
  de_survived :: "string list"

fun place_deletion :: "string list \<Rightarrow> string list \<Rightarrow> string list \<Rightarrow> delete_outcome \<Rightarrow> delete_outcome" where
  "place_deletion after earlier [] d = d"
| "place_deletion after earlier (p # ps) d =
     place_deletion after earlier ps
       (if p \<in> set after then d\<lparr>de_survived := de_survived d @ [p]\<rparr>
        else if p \<in> set earlier then d\<lparr>de_deleted := de_deleted d @ [p]\<rparr>
        else d\<lparr>de_already_gone := de_already_gone d @ [p]\<rparr>)"

definition observe_deletion :: "work_state \<Rightarrow> string \<Rightarrow> string list \<Rightarrow> string list \<Rightarrow> delete_outcome" where
  "observe_deletion w repo requested present_before =
     place_deletion (present_paths w repo requested) present_before requested
       \<lparr>de_deleted = [], de_already_gone = [], de_survived = []\<rparr>"

definition already_gone_note :: "delete_outcome \<Rightarrow> string" where
  "already_gone_note d =
     (if de_already_gone d = [] then []
      else '' '' @ join '', '' (de_already_gone d) @ '' '' @ was_were (de_already_gone d) @
        '' already gone before this ran, so '' @
        (if length (de_already_gone d) = 1 then ''it was'' else ''they were'') @
        '' not deleted by this '' @ ''operation '' @ em_dash @ '' something else outside Git-Vista removed '' @
        (if length (de_already_gone d) = 1 then ''it'' else ''them'') @ ''.'')"

definition partial_refusal :: "delete_outcome \<Rightarrow> string option" where
  "partial_refusal d =
     (if de_survived d = [] then None
      else
        let survived = join '', '' (de_survived d);
            destroyed = (if de_deleted d = [] then ''Partial result: nothing was deleted''
                         else ''Partial result: '' @ join '', '' (de_deleted d) @ '' '' @ was_were (de_deleted d) @
                           '' deleted permanently'')
        in Some (destroyed @ '', but '' @ survived @ '' '' @ was_were (de_survived d) @ '' not '' @ em_dash @
          '' its state changed '' @ ''(likely became tracked) in the instant between the pre-flight check and '' @
          ''this running. Nothing further was applied for '' @ survived @ ''; re-check '' @
          ''its status before retrying.'' @ already_gone_note d))"

definition delete_report :: "delete_outcome \<Rightarrow> response \<times> string" where
  "delete_report d =
     (case partial_refusal d of
        Some msg \<Rightarrow> ((status_conflict, msg), ''delete-untracked-paths partial result '' @ em_dash @ '' '' @ msg)
      | None \<Rightarrow>
          let count = length (de_deleted d); s = plural count; note = already_gone_note d in
          ((status_ok,
             ''Deleted '' @ decimal (int count) @ '' untracked path'' @ s @ '' permanently. That content was never '' @
             ''stored in git, so there is no way to bring it back.'' @ note),
           ''deleted '' @ decimal (int count) @ '' untracked path'' @ s @ '' permanently '' @ em_dash @
           '' never stored in git, no '' @ ''way to bring the content back'' @ note))"

definition exec_delete_untracked_paths ::
  "(argv \<Rightarrow> work_state \<Rightarrow> git_run \<times> work_state) \<Rightarrow> work_state \<Rightarrow> string \<Rightarrow> worktree_path list \<Rightarrow> executed" where
  "exec_delete_untracked_paths run w repo paths =
     (case symlink_containment_guard w repo paths of
        Inl refused \<Rightarrow> (refused, None, w)
      | Inr u \<Rightarrow>
     (case verify_path_states w paths Path_Untracked of
        Inl refused \<Rightarrow> (refused, None, w)
      | Inr u \<Rightarrow>
     (let present_before = present_paths w repo paths;
          not_run = couldnt_run (rv_expose_paths (wk_view w)) Fail_Spawn in
      case run_or_refuse run (delete_untracked_argv paths) not_run
             (\<lambda>err. (status_bad_request, stderr_or err ''git clean failed.'')) w of
        (Inl resp, w1) \<Rightarrow> (resp, None, w1)
      | (Inr u, w1) \<Rightarrow>
          (case delete_report (observe_deletion w1 repo paths present_before) of
             (resp, line) \<Rightarrow> (resp, Some line, w1)))))"

subsection \<open>Removing a linked worktree\<close>

definition resolve_removable :: "worktree_census \<Rightarrow> string \<Rightarrow> response + string" where
  "resolve_removable census wt =
     (case census of
        CensusFailed reason detail \<Rightarrow>
          Inl (status_conflict, ''Couldn't read this repository's worktrees, so nothing was removed: '' @ reason)
      | Observed siblings \<Rightarrow>
          (case find (\<lambda>s. ws_id s = wt) siblings of
             None \<Rightarrow> Inl (status_not_found,
               ''No such worktree '' @ em_dash @ '' it may already have been removed.'')
           | Some s \<Rightarrow>
               if ws_is_current s then
                 Inl (status_conflict,
                   ''That is the worktree currently being served '' @ em_dash @ '' it can't remove itself.'')
               else
                 case refusal (ws_serviceable s) of
                   Some why \<Rightarrow> Inl (status_conflict, why)
                 | None \<Rightarrow>
                     (case ws_path s of
                        None \<Rightarrow> Inl (status_internal_server_error,
                          ''Couldn't determine where that worktree lives, so nothing was removed.'')
                      | Some path \<Rightarrow> Inr path)))"

text \<open>\<open>Path::parent\<close> is missing for the root and for the empty path.\<close>

definition has_parent :: "string \<Rightarrow> bool" where
  "has_parent p \<longleftrightarrow> path_components p \<noteq> [] \<and> path_components p \<noteq> [''/'']"

definition fresh_census :: "work_state \<Rightarrow> worktree_census" where
  "fresh_census w =
     worktree_census_of (rv_census (wk_view w)) (rows_for_local_use (rv_expose_paths (wk_view w)))"

definition exec_remove_worktree ::
  "(argv \<Rightarrow> work_state \<Rightarrow> git_run \<times> work_state) \<Rightarrow> work_state \<Rightarrow> string \<Rightarrow> worktree_census \<Rightarrow> executed" where
  "exec_remove_worktree run w wt expected_census =
     (case resolve_removable expected_census wt of
        Inl refused \<Rightarrow> (refused, None, w)
      | Inr expected_path \<Rightarrow>
     (case resolve_removable (fresh_census w) wt of
        Inl refused \<Rightarrow> (refused, None, w)
      | Inr fresh_path \<Rightarrow>
          if \<not> path_eq fresh_path expected_path then
            ((status_conflict, ''This worktree changed since it was reviewed, so nothing was removed. '' @
               ''Reopen the worktree drawer and try again.''), None, w)
          else if \<not> has_parent fresh_path then
            ((status_internal_server_error,
               ''Couldn't determine where that worktree lives, so nothing was removed.''), None, w)
          else
            let expose = rv_expose_paths (wk_view w) in
            case run_or_refuse run [''worktree'', ''remove'', fresh_path]
                   (\<lambda>e. (status_internal_server_error,
                      withheld_detail_when expose ''Couldn't run git to remove the worktree.'' e))
                   (\<lambda>err. (status_bad_request,
                      withheld_detail_when expose
                        (''git wouldn't remove the worktree '' @ em_dash @ '' it may have uncommitted changes. '' @
                         ''This never forces past that; check its status and try again.'')
                        (stderr_or err ''git worktree remove failed.''))) w of
              (Inl resp, w1) \<Rightarrow> (resp, None, w1)
            | (Inr u, w1) \<Rightarrow> ((status_ok, ''Worktree removed.''), Some (''removed worktree at '' @ fresh_path), w1)))"


subsection \<open>The guards\<close>

definition path_guarded :: "work_state \<Rightarrow> string \<Rightarrow> string \<Rightarrow> string \<Rightarrow> bool" where
  "path_guarded w root repo p \<longleftrightarrow>
     (case wk_canonical w (path_join repo p) of
        Canon c \<Rightarrow> path_inside root c \<and> \<not> wk_is_dir w c
      | Canon_Missing e \<Rightarrow> True
      | Canon_Error e \<Rightarrow> False)"

lemma guard_paths_ok: "guard_paths w repo root paths = Inr u \<longleftrightarrow> list_all (path_guarded w root repo) paths"
  by (induction paths) (auto simp: guard_path_def path_guarded_def split: sum.splits canonical.splits if_splits)

lemma containment_ok:
  "symlink_containment_guard w repo paths = Inr u \<longleftrightarrow>
     (\<exists>root. wk_canonical w repo = Canon root \<and> list_all (path_guarded w root repo) paths)"
  by (auto simp: symlink_containment_guard_def guard_root_def guard_paths_ok split: canonical.splits sum.splits)

lemma check_path_states_ok: "check_path_states live k paths = Inr u \<longleftrightarrow> list_all (\<lambda>p. live_kind live p = k) paths"
  by (induction paths) auto

lemma verify_path_states_ok:
  "verify_path_states w paths k = Inr u \<longleftrightarrow>
     (\<exists>out err. rv_run (wk_view w) status_argv = Exited (Some 0) out err \<and>
        list_all (\<lambda>p. live_kind (classify_path_states (parse_porcelain_v2_z out)) p = k) paths)"
  by (auto simp: verify_path_states_def Let_def check_path_states_ok split: git_run.splits)

lemma refused_not_ok:
  "symlink_containment_guard w repo paths = Inl r \<Longrightarrow> fst r \<noteq> status_ok"
  "verify_path_states w paths k = Inl r \<Longrightarrow> fst r \<noteq> status_ok"
proof -
  have g: "guard_paths w repo root paths = Inl r \<Longrightarrow> fst r \<noteq> status_ok" for root
    by (induction paths)
      (auto simp: guard_path_def couldnt_run_def status_numbers[symmetric] split: sum.splits canonical.splits if_splits)
  then show "symlink_containment_guard w repo paths = Inl r \<Longrightarrow> fst r \<noteq> status_ok"
    by (auto simp: symlink_containment_guard_def guard_root_def couldnt_run_def status_numbers[symmetric]
        split: sum.splits canonical.splits)
  have c: "check_path_states live k paths = Inl r \<Longrightarrow> fst r \<noteq> status_ok" for live
    by (induction paths) (auto simp: status_numbers[symmetric] split: if_splits)
  then show "verify_path_states w paths k = Inl r \<Longrightarrow> fst r \<noteq> status_ok"
    by (auto simp: verify_path_states_def Let_def couldnt_run_def status_numbers[symmetric] split: git_run.splits if_splits)
qed

subsection \<open>What is reported\<close>

lemma place_deletion_eq:
  "place_deletion after earlier ps d =
     \<lparr>de_deleted = de_deleted d @ filter (\<lambda>p. p \<notin> set after \<and> p \<in> set earlier) ps,
      de_already_gone = de_already_gone d @ filter (\<lambda>p. p \<notin> set after \<and> p \<notin> set earlier) ps,
      de_survived = de_survived d @ filter (\<lambda>p. p \<in> set after) ps\<rparr>"
  by (induction ps arbitrary: d) auto

lemma observe_deletion_eq:
  "observe_deletion w' repo ps (present_paths w repo ps) =
     \<lparr>de_deleted = filter (\<lambda>p. \<not> is_present w' repo p \<and> is_present w repo p) ps,
      de_already_gone = filter (\<lambda>p. \<not> is_present w' repo p \<and> \<not> is_present w repo p) ps,
      de_survived = filter (is_present w' repo) ps\<rparr>"
  by (auto simp: observe_deletion_def place_deletion_eq present_paths_def intro!: filter_cong)

lemma delete_report_status: "fst (fst (delete_report d)) = status_ok \<longleftrightarrow> de_survived d = []"
  by (auto simp: delete_report_def partial_refusal_def Let_def status_numbers[symmetric] split: option.splits if_splits)

lemma delete_report_text:
  "de_survived d = [] \<Longrightarrow>
     \<exists>rest. snd (fst (delete_report d)) = ''Deleted '' @ decimal (int (length (de_deleted d))) @ '' untracked path'' @ rest"
  by (simp add: delete_report_def partial_refusal_def Let_def)

text \<open>
  C11: a deletion that cannot be undone is guarded and reported as it happened. The executor runs git
  clean only when the live status lists every requested path as untracked and each is, symlinks
  followed, inside the worktree and no directory; it answers OK exactly when git succeeded and none of
  the paths is still there, whatever git said; and the number it claims to have deleted counts the
  distinct paths of the request that were there just before, not the ones something else removed.
\<close>

theorem deletion_reported_honestly:
  assumes "validate_paths raws = Inr paths" "exec_delete_untracked_paths run w repo paths = (resp, line, w')" "w' \<noteq> w \<or> fst resp = status_ok"
  shows "\<exists>root out err. wk_canonical w repo = Canon root \<and> list_all (path_guarded w root repo) paths \<and>
    rv_run (wk_view w) status_argv = Exited (Some 0) out err \<and>
    list_all (\<lambda>p. live_kind (classify_path_states (parse_porcelain_v2_z out)) p = Path_Untracked) paths \<and>
    w' = snd (run (delete_untracked_argv paths) w) \<and>
    (fst resp = status_ok \<longleftrightarrow> ran_ok (run (delete_untracked_argv paths) w) \<and> list_all (\<lambda>p. \<not> is_present w' repo p) paths) \<and>
    (fst resp = status_ok \<longrightarrow> (\<exists>rest. snd resp =
       ''Deleted '' @ decimal (int (card {p \<in> set raws. is_present w repo p})) @ '' untracked path'' @ rest))"
proof -
  have card: "card {p \<in> set raws. is_present w repo p} = length (filter (is_present w repo) paths)"
    using validate_paths_Inr[OF assms(1)] distinct_card[of "filter (is_present w repo) paths"] by simp
  obtain u where guard: "symlink_containment_guard w repo paths = Inr u"
    using assms refused_not_ok(1) by (cases "symlink_containment_guard w repo paths") (auto simp: exec_delete_untracked_paths_def)
  obtain u' where states: "verify_path_states w paths Path_Untracked = Inr u'"
    using assms guard refused_not_ok(2)
    by (cases "verify_path_states w paths Path_Untracked") (auto simp: exec_delete_untracked_paths_def)
  let ?ran = "run (delete_untracked_argv paths) w"
  let ?d = "observe_deletion (snd ?ran) repo paths (present_paths w repo paths)"
  have reported: "w' = snd ?ran \<and> (if ran_ok ?ran then resp = fst (delete_report ?d) else fst resp \<noteq> status_ok)"
    using assms(2)
    by (auto simp: exec_delete_untracked_paths_def guard states run_or_refuse_def Let_def ran_ok_def couldnt_run_def
        status_numbers[symmetric] split: prod.splits git_run.splits if_splits)
  have survived: "de_survived ?d = [] \<longleftrightarrow> list_all (\<lambda>p. \<not> is_present (snd ?ran) repo p) paths"
    by (auto simp: observe_deletion_eq filter_empty_conv list_all_iff)
  have count: "list_all (\<lambda>p. \<not> is_present (snd ?ran) repo p) paths \<Longrightarrow>
      de_deleted ?d = filter (is_present w repo) paths"
    by (auto simp: observe_deletion_eq list_all_iff intro!: filter_cong)
  have "fst resp = status_ok \<longleftrightarrow> ran_ok ?ran \<and> list_all (\<lambda>p. \<not> is_present w' repo p) paths"
    using reported survived delete_report_status[of ?d] by (auto split: if_splits)
  moreover have "fst resp = status_ok \<longrightarrow> (\<exists>rest. snd resp =
       ''Deleted '' @ decimal (int (length (filter (is_present w repo) paths))) @ '' untracked path'' @ rest)"
    using reported survived count delete_report_text[of ?d] delete_report_status[of ?d] by (auto split: if_splits)
  ultimately show ?thesis
    using reported guard states unfolding containment_ok verify_path_states_ok card by blast
qed

text \<open>
  C38: a discard is reported by what the working tree shows, not by what git returned. The executor
  runs git checkout only for paths that the live status lists as changed and that are inside the
  worktree; once git ran, it answers OK exactly when the status could be read again and lists none of
  the paths as changed, it answers a conflict naming every path still changed when the status could
  be read and some are, and it journals in each case.
\<close>

theorem discard_reported_honestly:
  assumes "exec_discard_tracked_paths run w repo paths = (resp, line, w')" "w' \<noteq> w \<or> fst resp = status_ok"
  shows "\<exists>root out err. wk_canonical w repo = Canon root \<and> list_all (path_guarded w root repo) paths \<and>
    rv_run (wk_view w) status_argv = Exited (Some 0) out err \<and>
    list_all (\<lambda>p. live_kind (classify_path_states (parse_porcelain_v2_z out)) p = Path_TrackedDirty) paths \<and>
    w' = snd (run (discard_tracked_argv paths) w) \<and>
    (fst resp = status_ok \<longleftrightarrow>
       (\<exists>code o1 e1 live e2. fst (run (discard_tracked_argv paths) w) = Exited code o1 e1 \<and>
          rv_run (wk_view w') status_argv = Exited (Some 0) live e2 \<and>
          list_all (\<lambda>p. live_kind (classify_path_states (parse_porcelain_v2_z live)) p \<noteq> Path_TrackedDirty) paths)) \<and>
    (line = None \<longleftrightarrow> (\<forall>code o1 e1. fst (run (discard_tracked_argv paths) w) \<noteq> Exited code o1 e1))"
proof -
  obtain u where guard: "symlink_containment_guard w repo paths = Inr u"
    using assms refused_not_ok(1) by (cases "symlink_containment_guard w repo paths") (auto simp: exec_discard_tracked_paths_def)
  obtain u' where states: "verify_path_states w paths Path_TrackedDirty = Inr u'"
    using assms guard refused_not_ok(2)
    by (cases "verify_path_states w paths Path_TrackedDirty") (auto simp: exec_discard_tracked_paths_def)
  obtain out1 w1 where ran: "run (discard_tracked_argv paths) w = (out1, w1)" by fastforce
  have status: "fst (fst (discard_report (observe_discard live ps) g)) = status_ok \<longleftrightarrow>
      list_all (\<lambda>p. live_kind live p \<noteq> Path_TrackedDirty) ps" for live ps g
    by (auto simp: discard_report_def observe_discard_def Let_def filter_empty_conv list_all_iff status_numbers[symmetric])
  have unverified: "fst (fst (discard_unverified g ps)) \<noteq> status_ok" for g ps
    by (simp add: discard_unverified_def Let_def status_numbers[symmetric])
  have recheck: "fst (fst (discard_recheck w1 ps g)) = status_ok \<longleftrightarrow>
      (\<exists>live e2. rv_run (wk_view w1) status_argv = Exited (Some 0) live e2 \<and>
         list_all (\<lambda>p. live_kind (classify_path_states (parse_porcelain_v2_z live)) p \<noteq> Path_TrackedDirty) ps)" for ps g
    using status unverified by (auto simp: discard_recheck_def split: git_run.splits)
  have "w' = w1 \<and> (fst resp = status_ok \<longleftrightarrow>
       (\<exists>code o1 e1 live e2. out1 = Exited code o1 e1 \<and> rv_run (wk_view w1) status_argv = Exited (Some 0) live e2 \<and>
          list_all (\<lambda>p. live_kind (classify_path_states (parse_porcelain_v2_z live)) p \<noteq> Path_TrackedDirty) paths)) \<and>
    (line = None \<longleftrightarrow> (\<forall>code o1 e1. out1 \<noteq> Exited code o1 e1))"
  proof (cases out1)
    case (Exited code o1 e1)
    let ?r = "discard_recheck w1 paths (if code = Some 0 then None else Some (stderr_or e1 ''git checkout failed.''))"
    have "resp = fst ?r \<and> line = Some (snd ?r) \<and> w' = w1"
      using assms(1) Exited by (cases ?r) (simp add: exec_discard_tracked_paths_def guard states ran Let_def)
    with recheck[of paths] Exited show ?thesis by simp
  qed (use assms(1) in \<open>auto simp: exec_discard_tracked_paths_def guard states ran Let_def couldnt_run_def status_numbers[symmetric]\<close>)
  with guard states show ?thesis unfolding containment_ok verify_path_states_ok by (auto simp: ran)
qed

lemma sibling_found: "find P xs = Some x \<Longrightarrow> x \<in> set xs \<and> P x"
  by (auto simp: find_Some_iff)

text \<open>
  A worktree is removed only as it was reviewed. Git is asked to remove a directory only when the
  census taken at review and a fresh one both list that very worktree at the same path, neither of
  them as the one being served nor as missing or outside the allowed folders; the directory named to
  git is the fresh one's, and nothing forces it.
\<close>

theorem worktree_removed_as_reviewed:
  assumes "exec_remove_worktree run w wt reviewed = (resp, line, w')" "w' \<noteq> w \<or> fst resp = status_ok"
  shows "\<exists>old new s s' p p'. reviewed = Observed old \<and> fresh_census w = Observed new \<and>
    s \<in> set old \<and> s' \<in> set new \<and> ws_id s = wt \<and> ws_id s' = wt \<and> \<not> ws_is_current s \<and> \<not> ws_is_current s' \<and>
    is_openable (ws_serviceable s) \<and> is_openable (ws_serviceable s') \<and>
    ws_path s = Some p \<and> ws_path s' = Some p' \<and> path_eq p' p \<and>
    w' = snd (run [''worktree'', ''remove'', p'] w) \<and>
    (fst resp = status_ok \<longleftrightarrow> ran_ok (run [''worktree'', ''remove'', p'] w))"
proof -
  have removable: "resolve_removable c wt = Inr p \<Longrightarrow>
      \<exists>ss s. c = Observed ss \<and> s \<in> set ss \<and> ws_id s = wt \<and> \<not> ws_is_current s \<and> is_openable (ws_serviceable s) \<and> ws_path s = Some p" for c p
    by (auto simp: resolve_removable_def refusal_iff dest!: sibling_found split: worktree_census.splits option.splits if_splits)
  have refused: "resolve_removable c wt = Inl r \<Longrightarrow> fst r \<noteq> status_ok" for c r
    by (auto simp: resolve_removable_def status_numbers[symmetric] split: worktree_census.splits option.splits if_splits)
  obtain p where p: "resolve_removable reviewed wt = Inr p"
    using assms refused by (cases "resolve_removable reviewed wt") (auto simp: exec_remove_worktree_def)
  obtain p' where p': "resolve_removable (fresh_census w) wt = Inr p'"
    using assms refused p by (cases "resolve_removable (fresh_census w) wt") (auto simp: exec_remove_worktree_def)
  have "path_eq p' p \<and> w' = snd (run [''worktree'', ''remove'', p'] w) \<and>
      (fst resp = status_ok \<longleftrightarrow> ran_ok (run [''worktree'', ''remove'', p'] w))"
    using assms
    by (auto simp: exec_remove_worktree_def p p' run_or_refuse_def Let_def ran_ok_def status_numbers[symmetric]
        split: if_splits prod.splits git_run.splits)
  with removable[OF p] removable[OF p'] show ?thesis by blast
qed

subsection \<open>A working tree with one file\<close>

text \<open>The status lists \<open>line\<close>, if anything; \<open>f\<close> is there or not. Git commands lead to \<open>after\<close>.\<close>

definition sample_tree :: "string \<Rightarrow> bool \<Rightarrow> work_state" where
  "sample_tree entry there = (sample_work [])\<lparr>
     wk_view := sample_conflict_view\<lparr>rv_run := (\<lambda>a. Exited (Some 0) entry []), rv_census := sample_env, rv_expose_paths := False\<rparr>,
     wk_canonical := (\<lambda>p. Canon (''/r/'' @ p)), wk_symlink := (\<lambda>p. if there then Inr False else Inl ''gone'')\<rparr>"

definition sample_to :: "work_state \<Rightarrow> argv \<Rightarrow> work_state \<Rightarrow> git_run \<times> work_state" where
  "sample_to after args w = (Exited (Some 0) [] [], after)"

definition untracked_f :: string where "untracked_f = ''? f'' @ [CHR 0x00]"
definition changed_f :: string where "changed_f = ''1 .M N... 100644 100644 100644 a a f'' @ [CHR 0x00]"
definition still_f :: string where "still_f = ''? g'' @ [CHR 0x00] @ changed_f"

lemma sample_kinds:
  "classify_path_states (parse_porcelain_v2_z untracked_f) = [''f'' \<mapsto> Path_Untracked]"
  "classify_path_states (parse_porcelain_v2_z changed_f) = [''f'' \<mapsto> Path_TrackedDirty]"
  "classify_path_states (parse_porcelain_v2_z []) = Map.empty"
  "classify_path_states (parse_porcelain_v2_z still_f) = [''g'' \<mapsto> Path_Untracked, ''f'' \<mapsto> Path_TrackedDirty]"
proof -
  have u: "ps_entries (parse_porcelain_v2_z untracked_f) = [Entry_Untracked ''f'' False]" by code_simp
  have c: "ps_entries (parse_porcelain_v2_z changed_f) = [Entry_Changed ''f'' (UnstagedOnly Kind_Modified) None False]" by code_simp
  have e: "ps_entries (parse_porcelain_v2_z []) = []" by code_simp
  have b: "ps_entries (parse_porcelain_v2_z still_f) =
      [Entry_Untracked ''g'' False, Entry_Changed ''f'' (UnstagedOnly Kind_Modified) None False]" by code_simp
  show "classify_path_states (parse_porcelain_v2_z untracked_f) = [''f'' \<mapsto> Path_Untracked]"
    "classify_path_states (parse_porcelain_v2_z changed_f) = [''f'' \<mapsto> Path_TrackedDirty]"
    "classify_path_states (parse_porcelain_v2_z []) = Map.empty"
    "classify_path_states (parse_porcelain_v2_z still_f) = [''g'' \<mapsto> Path_Untracked, ''f'' \<mapsto> Path_TrackedDirty]"
    by (simp_all only: classify_path_states_def u c e b) (simp_all add: List.map_filter_def fun_upd_twist)
qed

lemma sample_differ: "still_f \<noteq> changed_f" "[] \<noteq> changed_f"
  by (simp_all add: still_f_def changed_f_def)

lemma sample_guard: "symlink_containment_guard (sample_tree entry there) ''r'' [''f''] = Inr ()"
proof -
  have "path_inside (''/r/'' @ ''r'') (''/r/'' @ path_join ''r'' ''f'')" by code_simp
  then show ?thesis unfolding containment_ok by (simp add: sample_tree_def sample_work_def path_guarded_def)
qed

lemma sample_valid: "validate_paths [''f'', ''f''] = Inr [''f'']"
  by code_simp

lemma sample_deletion:
  "\<exists>msg line. exec_delete_untracked_paths (sample_to (sample_tree [] False)) (sample_tree untracked_f True) ''r'' [''f''] =
     ((status_ok, msg), line, sample_tree [] False)"
proof -
  have v: "verify_path_states (sample_tree untracked_f True) [''f''] Path_Untracked = Inr ()"
    unfolding verify_path_states_ok by (simp add: sample_tree_def live_kind_def sample_kinds)
  have "de_survived (observe_deletion (sample_tree [] False) ''r'' [''f''] (present_paths (sample_tree untracked_f True) ''r'' [''f''])) = []"
    by (simp add: observe_deletion_eq is_present_def sample_tree_def)
  with delete_report_status[of "observe_deletion (sample_tree [] False) ''r'' [''f''] (present_paths (sample_tree untracked_f True) ''r'' [''f''])"]
  show ?thesis
    by (cases "delete_report (observe_deletion (sample_tree [] False) ''r'' [''f''] (present_paths (sample_tree untracked_f True) ''r'' [''f'']))")
      (auto simp: exec_delete_untracked_paths_def sample_guard v run_or_refuse_def sample_to_def Let_def)
qed

lemma deletion_reported_honestly_witness:
  "\<exists>msg line rest. exec_delete_untracked_paths (sample_to (sample_tree [] False)) (sample_tree untracked_f True) ''r'' [''f''] =
     ((status_ok, msg), line, sample_tree [] False) \<and> msg = ''Deleted '' @ decimal 1 @ '' untracked path'' @ rest"
proof -
  from sample_deletion obtain msg line where
    d: "exec_delete_untracked_paths (sample_to (sample_tree [] False)) (sample_tree untracked_f True) ''r'' [''f''] =
       ((status_ok, msg), line, sample_tree [] False)" by blast
  have "{p \<in> set [''f'', ''f'']. is_present (sample_tree untracked_f True) ''r'' p} = {''f''}"
    by (auto simp: is_present_def sample_tree_def)
  with deletion_reported_honestly[OF sample_valid d] d show ?thesis by auto
qed

lemma discard_reported_honestly_witness:
  "fst (fst (exec_discard_tracked_paths (sample_to (sample_tree [] True)) (sample_tree changed_f True) ''r'' [''f''])) = status_ok \<and>
   fst (fst (exec_discard_tracked_paths (sample_to (sample_tree still_f True)) (sample_tree changed_f True) ''r'' [''f''])) \<noteq> status_ok"
proof -
  have v: "verify_path_states (sample_tree changed_f True) [''f''] Path_TrackedDirty = Inr ()"
    unfolding verify_path_states_ok by (simp add: sample_tree_def live_kind_def sample_kinds)
  have other: "sample_tree x True \<noteq> sample_tree changed_f True" if "x \<noteq> changed_f" for x
  proof
    assume "sample_tree x True = sample_tree changed_f True"
    then have "rv_run (wk_view (sample_tree x True)) [] = rv_run (wk_view (sample_tree changed_f True)) []" by simp
    with that show False by (simp add: sample_tree_def)
  qed
  have moved: "\<exists>resp line. exec_discard_tracked_paths (sample_to (sample_tree x True)) (sample_tree changed_f True) ''r'' [''f''] =
      (resp, line, sample_tree x True)" for x
    by (simp add: exec_discard_tracked_paths_def sample_guard v sample_to_def Let_def split: prod.splits)
  have iff: "fst (fst (exec_discard_tracked_paths (sample_to (sample_tree x True)) (sample_tree changed_f True) ''r'' [''f''])) = status_ok
      \<longleftrightarrow> live_kind (classify_path_states (parse_porcelain_v2_z x)) ''f'' \<noteq> Path_TrackedDirty" if "x \<noteq> changed_f" for x
  proof -
    obtain resp line where d: "exec_discard_tracked_paths (sample_to (sample_tree x True)) (sample_tree changed_f True) ''r'' [''f''] =
      (resp, line, sample_tree x True)" using moved by blast
    have run: "rv_run (wk_view (sample_tree x True)) status_argv = Exited (Some 0) x []" by (simp add: sample_tree_def)
    from discard_reported_honestly[OF d] other[OF that] d run show ?thesis by (auto simp: sample_to_def)
  qed
  show ?thesis
    using iff[of "[]"] iff[of "still_f"] sample_differ sample_kinds by (simp add: live_kind_def)
qed

lemma sample_local_census:
  "fresh_census (sample_tree untracked_f True) = Observed
     [\<lparr>ws_repository = ''r'', ws_id = ''j'', ws_name = ''r'', ws_path = Some ''/r'', ws_branch = None, ws_head = None,
       ws_is_current = False, ws_locked = False, ws_prunable = False, ws_bare = True,
       ws_serviceable = Serviceable_Yes\<rparr>,
      \<lparr>ws_repository = ''r'', ws_id = ''i'', ws_name = ''w'', ws_path = Some ''/w'', ws_branch = Some ''x'',
       ws_head = Some (replicate 40 (CHR ''a'')),
       ws_is_current = True, ws_locked = False, ws_prunable = False, ws_bare = False,
       ws_serviceable = Serviceable_Yes\<rparr>]"
proof -
  have c: "fresh_census (sample_tree untracked_f True) = worktree_census_of sample_env (rows_for_local_use False)"
    by (simp add: fresh_census_def sample_tree_def)
  show ?thesis
    unfolding c using sample_utf8 sample_parse sample_head sample_names
    by (simp add: worktree_census_of_def worktree_census_capped_def census_or_failure_def resolve_sibling_def
        resolve_identity_def resolve_branch_def resolve_head_def resolve_serviceable_def rows_for_local_use_def
        sample_env_def)
qed

lemma worktree_removed_as_reviewed_witness:
  "\<exists>line. exec_remove_worktree (sample_to (sample_tree [] True)) (sample_tree untracked_f True) ''j''
     (fresh_census (sample_tree untracked_f True)) = ((status_ok, ''Worktree removed.''), line, sample_tree [] True) \<and>
   path_eq ''/r'' ''/r''"
proof -
  have p: "has_parent ''/r''" "path_eq ''/r'' ''/r''" by (code_simp, code_simp)
  have d: "exec_remove_worktree (sample_to (sample_tree [] True)) (sample_tree untracked_f True) ''j''
     (fresh_census (sample_tree untracked_f True)) =
       ((status_ok, ''Worktree removed.''), Some ''removed worktree at /r'', sample_tree [] True)"
    using p by (simp add: exec_remove_worktree_def resolve_removable_def sample_local_census run_or_refuse_def sample_to_def Let_def)
  from worktree_removed_as_reviewed[OF d] d p(2) show ?thesis by auto
qed

end
