(* ===== verification/Sessions.thy ===== *)
theory Sessions imports Paths begin

text \<open>
  Who may talk to the server: the bootstrap token, the sessions and their CSRF tokens of
  \<open>crates/git-vista-server/src/session.rs\<close>, the sign-in limiter of \<open>ratelimit.rs\<close> and the session
  endpoints of \<open>handlers/session.rs\<close>. An instant is a number of nanoseconds on a monotonic clock;
  every reading of the clock and every 32 random bytes the code draws are arguments, in the order the
  code takes them. A lock is held for one operation, so an operation is one step of the manager.
\<close>

unbundle bit_operations_syntax

type_synonym u16 = "16 word"
type_synonym instant = nat

definition from_secs :: "nat \<Rightarrow> nat" where "from_secs n = n * 1000000000"

subsection \<open>Secrets\<close>

definition hex_digit :: "u8 \<Rightarrow> char" where
  "hex_digit d = ''0123456789abcdef'' ! unat d"

fun to_hex :: "u8 list \<Rightarrow> string" where
  "to_hex [] = []"
| "to_hex (b # bs) = hex_digit (drop_bit 4 b) # hex_digit (b AND 0x0F) # to_hex bs"

definition mint_secret :: "u8 list \<Rightarrow> string" where
  "mint_secret random_bytes = to_hex random_bytes"

definition ct_eq :: "string \<Rightarrow> string \<Rightarrow> bool" where
  "ct_eq a b =
     (if length a \<noteq> length b then False
      else fold (\<lambda>(x, y) diff. diff OR (of_char x XOR of_char y)) (zip a b) (0 :: u8) = 0)"

subsection \<open>The session manager\<close>

definition default_port :: u16 where "default_port = 8080"

definition session_cookie_name :: "u16 \<Rightarrow> string" where
  "session_cookie_name port =
     (if port = default_port then ''gv_session'' else ''gv_session_'' @ decimal (uint port))"

definition bootstrap_ttl :: nat where "bootstrap_ttl = from_secs (60 * 60)"
definition bootstrap_refresh_window :: nat where "bootstrap_refresh_window = from_secs (15 * 60)"
definition session_max_age_secs :: nat where "session_max_age_secs = 16 * 60 * 60"
definition session_idle_ttl :: nat where "session_idle_ttl = from_secs session_max_age_secs"

record bootstrap =
  bt_token :: string
  bt_expires_at :: instant

text \<open>The selection cell of a session is a number: two cells are the same cell when they are equal.\<close>

record session =
  ss_csrf :: string
  ss_expires_at :: instant
  ss_selection :: nat

record new_session =
  ns_id :: string
  ns_csrf :: string

text \<open>
  \<open>sm_file\<close> is what the token file holds, if there is one: a write replaces it whole or, when it
  fails, not at all. \<open>sm_next_cell\<close> is the number of cells made so far.
\<close>

record session_manager =
  sm_bootstrap :: bootstrap
  sm_sessions :: "string \<rightharpoonup> session"
  sm_has_file :: bool
  sm_file :: "string option"
  sm_cookie_name :: string
  sm_next_cell :: nat

definition write_token_file :: "bool \<Rightarrow> string \<Rightarrow> session_manager \<Rightarrow> session_manager" where
  "write_token_file written token m =
     (if sm_has_file m \<and> written then m\<lparr>sm_file := Some (token @ [CHR 0x0A])\<rparr> else m)"

definition new_for_port :: "bool \<Rightarrow> string option \<Rightarrow> u16 \<Rightarrow> u8 list \<Rightarrow> bool \<Rightarrow> instant \<Rightarrow> session_manager" where
  "new_for_port has_file old_file port random_bytes written now =
     write_token_file written (mint_secret random_bytes)
       \<lparr>sm_bootstrap = \<lparr>bt_token = mint_secret random_bytes, bt_expires_at = now + bootstrap_ttl\<rparr>,
        sm_sessions = Map.empty, sm_has_file = has_file, sm_file = old_file,
        sm_cookie_name = session_cookie_name port, sm_next_cell = 0\<rparr>"

definition rotate_bootstrap :: "u8 list \<Rightarrow> bool \<Rightarrow> instant \<Rightarrow> session_manager \<Rightarrow> session_manager" where
  "rotate_bootstrap random_bytes written now m =
     write_token_file written (mint_secret random_bytes)
       (m\<lparr>sm_bootstrap := \<lparr>bt_token = mint_secret random_bytes, bt_expires_at = now + bootstrap_ttl\<rparr>\<rparr>)"

text \<open>What an exchange draws: the random bytes of the next token, of the id and of the CSRF token.\<close>

record drawn =
  dr_token :: "u8 list"
  dr_id :: "u8 list"
  dr_csrf :: "u8 list"

definition token_valid :: "instant \<Rightarrow> string \<Rightarrow> bootstrap \<Rightarrow> bool" where
  "token_valid now candidate boot \<longleftrightarrow> now < bt_expires_at boot \<and> ct_eq candidate (bt_token boot)"

definition open_session :: "string \<Rightarrow> string \<Rightarrow> instant \<Rightarrow> session_manager \<Rightarrow> session_manager" where
  "open_session sid csrf now m =
     m\<lparr>sm_sessions := (sm_sessions m)(sid \<mapsto>
         \<lparr>ss_csrf = csrf, ss_expires_at = now + session_idle_ttl, ss_selection = sm_next_cell m\<rparr>),
       sm_next_cell := sm_next_cell m + 1\<rparr>"

text \<open>The clock is read three times: for the check, at the rotation and when the session opens.\<close>

definition exchange ::
  "instant \<times> instant \<times> instant \<Rightarrow> drawn \<Rightarrow> bool \<Rightarrow> string \<Rightarrow> session_manager \<Rightarrow> new_session option \<times> session_manager" where
  "exchange clock d written candidate m =
     (case clock of (checked, rotated, opened) \<Rightarrow>
      if \<not> token_valid checked candidate (sm_bootstrap m) then (None, m)
      else
        let m = rotate_bootstrap (dr_token d) written rotated m;
            sid = mint_secret (dr_id d); csrf = mint_secret (dr_csrf d)
        in (Some \<lparr>ns_id = sid, ns_csrf = csrf\<rparr>, open_session sid csrf opened m))"

definition refresh_bootstrap_if_expiring ::
  "instant \<times> instant \<Rightarrow> u8 list \<Rightarrow> bool \<Rightarrow> session_manager \<Rightarrow> bool \<times> session_manager" where
  "refresh_bootstrap_if_expiring clock random_bytes written m =
     (case clock of (now, rotated) \<Rightarrow>
      if bootstrap_refresh_window < bt_expires_at (sm_bootstrap m) - now then (False, m)
      else (True, rotate_bootstrap random_bytes written rotated m))"

definition validate_session :: "instant \<Rightarrow> string \<Rightarrow> session_manager \<Rightarrow> string option \<times> session_manager" where
  "validate_session now sid m =
     (case sm_sessions m sid of
        Some s \<Rightarrow>
          if now < ss_expires_at s
          then (Some (ss_csrf s), m\<lparr>sm_sessions := (sm_sessions m)(sid \<mapsto> s\<lparr>ss_expires_at := now + session_idle_ttl\<rparr>)\<rparr>)
          else (None, m\<lparr>sm_sessions := (sm_sessions m)(sid := None)\<rparr>)
      | None \<Rightarrow> (None, m))"

definition selection_cell :: "instant \<Rightarrow> string \<Rightarrow> session_manager \<Rightarrow> nat option" where
  "selection_cell now sid m =
     (case sm_sessions m sid of
        Some s \<Rightarrow> if now < ss_expires_at s then Some (ss_selection s) else None
      | None \<Rightarrow> None)"

definition revoke_session_id :: "string \<Rightarrow> session_manager \<Rightarrow> bool \<times> session_manager" where
  "revoke_session_id sid m = (sm_sessions m sid \<noteq> None, m\<lparr>sm_sessions := (sm_sessions m)(sid := None)\<rparr>)"

subsection \<open>The sign-in limiter\<close>

definition max_attempts :: u32 where "max_attempts = 5"
definition limiter_window :: nat where "limiter_window = from_secs 60"

record bucket =
  bk_count :: u32
  bk_window_started :: instant

type_synonym 'ip sign_in_limiter = "'ip \<rightharpoonup> bucket"

definition limiter_check :: "instant \<Rightarrow> 'ip \<Rightarrow> 'ip sign_in_limiter \<Rightarrow> bool \<times> 'ip sign_in_limiter" where
  "limiter_check now addr buckets =
     (let b = (case buckets addr of Some b \<Rightarrow> b | None \<Rightarrow> \<lparr>bk_count = 0, bk_window_started = now\<rparr>);
          b = (if limiter_window \<le> now - bk_window_started b then \<lparr>bk_count = 0, bk_window_started = now\<rparr> else b);
          b = b\<lparr>bk_count := bk_count b + 1\<rparr>
      in (bk_count b \<le> max_attempts, buckets(addr \<mapsto> b)))"


subsection \<open>Runs of the manager\<close>

datatype session_step =
    Step_Exchange "instant \<times> instant \<times> instant" drawn bool string
  | Step_Refresh "instant \<times> instant" "u8 list" bool
  | Step_Validate instant string
  | Step_Revoke string

fun apply_step :: "session_step \<Rightarrow> session_manager \<Rightarrow> session_manager" where
  "apply_step (Step_Exchange clock d written candidate) m = snd (exchange clock d written candidate m)"
| "apply_step (Step_Refresh clock random_bytes written) m = snd (refresh_bootstrap_if_expiring clock random_bytes written m)"
| "apply_step (Step_Validate now sid) m = snd (validate_session now sid m)"
| "apply_step (Step_Revoke sid) m = snd (revoke_session_id sid m)"

definition run_steps :: "session_step list \<Rightarrow> session_manager \<Rightarrow> session_manager" where
  "run_steps steps m = fold apply_step steps m"

text \<open>The tokens a step may put in place of the current one.\<close>

fun drawn_tokens :: "session_step \<Rightarrow> string list" where
  "drawn_tokens (Step_Exchange clock d written candidate) = [mint_secret (dr_token d)]"
| "drawn_tokens (Step_Refresh clock random_bytes written) = [mint_secret random_bytes]"
| "drawn_tokens _ = []"

lemma of_char_u8_inject: "(of_char x :: u8) = of_char y \<longleftrightarrow> x = y"
proof
  assume "(of_char x :: u8) = of_char y"
  then have "unat (of_nat (of_char x) :: u8) = unat (of_nat (of_char y) :: u8)" by (simp only: of_nat_of_char)
  then have "(of_char x :: nat) = of_char y" by (simp add: unat_of_nat)
  then show "x = y" by simp
qed simp

lemma xor_zero: "(a XOR b :: u8) = 0 \<longleftrightarrow> a = b"
proof
  assume zero: "a XOR b = 0"
  have "a = a XOR (b XOR b)" by simp
  also have "\<dots> = (a XOR b) XOR b" by (simp only: xor.assoc)
  finally show "a = b" using zero by simp
qed simp

lemma or_fold_zero:
  "fold (\<lambda>(x, y) diff. diff OR (of_char x XOR of_char y)) ps acc = (0 :: u8) \<longleftrightarrow>
     acc = 0 \<and> (\<forall>(x, y) \<in> set ps. x = y)"
  by (induction ps arbitrary: acc) (auto simp: or_eq_0_iff xor_zero of_char_u8_inject)

lemma ct_eq_iff [simp]: "ct_eq a b \<longleftrightarrow> a = b"
proof -
  have "(\<forall>(x, y) \<in> set (zip a b). x = y) \<longleftrightarrow> a = b" if "length a = length b"
    using that by (induction a b rule: list_induct2) auto
  then show ?thesis by (auto simp: ct_eq_def or_fold_zero)
qed

lemmas manager_defs = exchange_def refresh_bootstrap_if_expiring_def validate_session_def revoke_session_id_def
  rotate_bootstrap_def write_token_file_def open_session_def

lemma run_steps_simps [simp]:
  "run_steps [] m = m"
  "run_steps (x # xs) m = run_steps xs (apply_step x m)"
  "run_steps (xs @ ys) m = run_steps ys (run_steps xs m)"
  by (simp_all add: run_steps_def)

lemma apply_step_token:
  "bt_token (sm_bootstrap (apply_step x m)) \<in> insert (bt_token (sm_bootstrap m)) (set (drawn_tokens x))"
  by (cases x) (auto simp: manager_defs Let_def split: option.splits prod.splits if_splits)

lemma run_steps_token:
  "bt_token (sm_bootstrap (run_steps xs m)) \<in> insert (bt_token (sm_bootstrap m)) (set (concat (map drawn_tokens xs)))"
proof (induction xs arbitrary: m)
  case (Cons x xs)
  from Cons[of "apply_step x m"] apply_step_token[of x m] show ?case by auto
qed simp

lemma exchange_success:
  "exchange clock d written candidate m = (Some s, m') \<longleftrightarrow>
     token_valid (fst clock) candidate (sm_bootstrap m) \<and>
     s = \<lparr>ns_id = mint_secret (dr_id d), ns_csrf = mint_secret (dr_csrf d)\<rparr> \<and>
     m' = open_session (ns_id s) (ns_csrf s) (snd (snd clock)) (rotate_bootstrap (dr_token d) written (fst (snd clock)) m)"
  by (cases clock) (auto simp: exchange_def Let_def)

text \<open>
  C19: a bootstrap token is spent once. After an exchange has opened a session with it, and whatever
  the server does then (more exchanges, refreshes, requests, sign-outs), offering the same token again
  opens nothing and changes nothing, as long as the random source has not drawn that very token anew.
\<close>

theorem bootstrap_single_use:
  assumes "exchange clock d written candidate m = (Some s, m')"
    and "candidate \<notin> set (concat (map drawn_tokens (Step_Exchange clock d written candidate # steps)))"
  shows "exchange clock2 d2 written2 candidate (run_steps steps m') = (None, run_steps steps m')"
proof -
  have "bt_token (sm_bootstrap m') = mint_secret (dr_token d)"
    using assms(1) by (auto simp: exchange_success open_session_def rotate_bootstrap_def write_token_file_def)
  with run_steps_token[of steps m'] assms(2) have "candidate \<noteq> bt_token (sm_bootstrap (run_steps steps m'))" by auto
  then show ?thesis by (cases clock2) (simp add: exchange_def token_valid_def)
qed

text \<open>What one step can have done to the session an id names.\<close>

lemma apply_step_session:
  assumes "sm_sessions (apply_step x m) sid = Some s"
  shows "(\<exists>clock d written candidate. x = Step_Exchange clock d written candidate \<and>
       token_valid (fst clock) candidate (sm_bootstrap m) \<and> sid = mint_secret (dr_id d) \<and>
       ss_csrf s = mint_secret (dr_csrf d) \<and> ss_expires_at s = snd (snd clock) + session_idle_ttl) \<or>
     (\<exists>s0. sm_sessions m sid = Some s0 \<and> ss_csrf s = ss_csrf s0 \<and> x \<noteq> Step_Revoke sid \<and>
       (ss_expires_at s = ss_expires_at s0 \<or>
        (\<exists>t. x = Step_Validate t sid \<and> ss_expires_at s = t + session_idle_ttl)))"
  using assms
  by (cases x) (auto simp: manager_defs Let_def split: option.splits prod.splits if_splits)

definition opened_by ::
  "session_manager \<Rightarrow> session_step list \<Rightarrow> string \<Rightarrow> string \<Rightarrow> instant \<Rightarrow> bool" where
  "opened_by m steps sid csrf touched \<longleftrightarrow>
     (\<exists>before clock d written candidate after.
        steps = before @ Step_Exchange clock d written candidate # after \<and>
        candidate = bt_token (sm_bootstrap (run_steps before m)) \<and>
        fst clock < bt_expires_at (sm_bootstrap (run_steps before m)) \<and>
        sid = mint_secret (dr_id d) \<and> csrf = mint_secret (dr_csrf d) \<and>
        Step_Revoke sid \<notin> set after \<and>
        (touched = snd (snd clock) \<or> Step_Validate touched sid \<in> set after))"

lemma opened_by_snoc:
  assumes "opened_by m steps sid csrf t" "x \<noteq> Step_Revoke sid" "t' = t \<or> x = Step_Validate t' sid"
  shows "opened_by m (steps @ [x]) sid csrf t'"
proof -
  obtain before clock d written candidate after where o:
    "steps = before @ Step_Exchange clock d written candidate # after"
    "candidate = bt_token (sm_bootstrap (run_steps before m))"
    "fst clock < bt_expires_at (sm_bootstrap (run_steps before m))"
    "sid = mint_secret (dr_id d)" "csrf = mint_secret (dr_csrf d)" "Step_Revoke sid \<notin> set after"
    "t = snd (snd clock) \<or> Step_Validate t sid \<in> set after"
    using assms(1) unfolding opened_by_def by blast
  have "steps @ [x] = before @ Step_Exchange clock d written candidate # (after @ [x])" using o(1) by simp
  moreover have "Step_Revoke sid \<notin> set (after @ [x])" using o(6) assms(2) by auto
  moreover have "t' = snd (snd clock) \<or> Step_Validate t' sid \<in> set (after @ [x])" using o(7) assms(3) by auto
  ultimately show ?thesis using o(2-5) unfolding opened_by_def by blast
qed

lemma live_session_opened:
  assumes "sm_sessions m = Map.empty"
  shows "sm_sessions (run_steps steps m) sid = Some s \<Longrightarrow>
    \<exists>t. opened_by m steps sid (ss_csrf s) t \<and> ss_expires_at s = t + session_idle_ttl"
proof (induction steps arbitrary: s rule: rev_induct)
  case Nil
  with assms show ?case by simp
next
  case (snoc x steps)
  from apply_step_session[of x "run_steps steps m" sid s] snoc.prems consider
      (opened) clock d written candidate where "x = Step_Exchange clock d written candidate"
        "token_valid (fst clock) candidate (sm_bootstrap (run_steps steps m))" "sid = mint_secret (dr_id d)"
        "ss_csrf s = mint_secret (dr_csrf d)" "ss_expires_at s = snd (snd clock) + session_idle_ttl"
    | (kept) s0 where "sm_sessions (run_steps steps m) sid = Some s0" "ss_csrf s = ss_csrf s0" "x \<noteq> Step_Revoke sid"
        "ss_expires_at s = ss_expires_at s0 \<or> (\<exists>t. x = Step_Validate t sid \<and> ss_expires_at s = t + session_idle_ttl)"
    by auto
  then show ?case
  proof cases
    case opened
    then have "opened_by m (steps @ [x]) sid (ss_csrf s) (snd (snd clock))"
      unfolding opened_by_def token_valid_def by (intro exI[of _ steps] exI conjI) auto
    with opened show ?thesis by blast
  next
    case kept
    from snoc.IH[OF kept(1)] obtain t where
      "opened_by m steps sid (ss_csrf s0) t" "ss_expires_at s0 = t + session_idle_ttl" by blast
    with kept opened_by_snoc[of m steps sid "ss_csrf s0" t x] show ?thesis by (metis (no_types))
  qed
qed

lemma new_for_port_sessions [simp]: "sm_sessions (new_for_port has_file old port random_bytes written now) = Map.empty"
  by (simp add: new_for_port_def write_token_file_def)

text \<open>
  Every session the server honours was earned. When it accepts an id, at any time of any run since
  it started, that id and its CSRF token were drawn by an exchange of the run that offered the token
  current at that moment and not yet expired; the session has not been revoked since; and it was
  opened or last used less than the idle time ago.
\<close>

theorem session_was_earned:
  assumes "m = new_for_port has_file old port random_bytes written started"
    and "fst (validate_session now sid (run_steps steps m)) = Some csrf"
  shows "\<exists>t. opened_by m steps sid csrf t \<and> now < t + session_idle_ttl"
proof -
  obtain s where "sm_sessions (run_steps steps m) sid = Some s" "now < ss_expires_at s" "csrf = ss_csrf s"
    using assms(2) by (auto simp: validate_session_def split: option.splits if_splits)
  with live_session_opened[of m steps sid s] assms(1) show ?thesis by auto
qed

subsection \<open>How many attempts the limiter lets through\<close>

fun limiter_run :: "(instant \<times> 'ip) list \<Rightarrow> 'ip sign_in_limiter \<Rightarrow> bool list" where
  "limiter_run [] buckets = []"
| "limiter_run ((now, addr) # es) buckets =
     (case limiter_check now addr buckets of (ok, buckets) \<Rightarrow> ok # limiter_run es buckets)"

text \<open>The attempts of an address from an instant on, for one window, that were let through.\<close>

definition admitted :: "'ip \<Rightarrow> instant \<Rightarrow> (instant \<times> 'ip) list \<Rightarrow> 'ip sign_in_limiter \<Rightarrow> nat" where
  "admitted addr since es buckets =
     length (filter (\<lambda>((t, a), ok). a = addr \<and> since \<le> t \<and> t < since + limiter_window \<and> ok)
       (zip es (limiter_run es buckets)))"

definition admits :: "'ip \<Rightarrow> instant \<Rightarrow> instant \<Rightarrow> 'ip \<Rightarrow> 'ip sign_in_limiter \<Rightarrow> bool" where
  "admits addr since t a buckets \<longleftrightarrow>
     a = addr \<and> since \<le> t \<and> t < since + limiter_window \<and> fst (limiter_check t a buckets)"

lemma admitted_Nil [simp]: "admitted addr since [] buckets = 0"
  by (simp add: admitted_def)

lemma admitted_Cons [simp]:
  "admitted addr since ((t, a) # es) buckets =
     of_bool (admits addr since t a buckets) + admitted addr since es (snd (limiter_check t a buckets))"
  by (cases "limiter_check t a buckets") (simp add: admitted_def admits_def)

lemma admitted_later: "\<forall>e \<in> set es. since + limiter_window \<le> fst e \<Longrightarrow> admitted addr since es buckets = 0"
  by (induction es arbitrary: buckets) (auto simp: admits_def)

text \<open>The bucket an attempt leaves: the next count of the running window, or the first of a new one.\<close>

definition next_bucket :: "instant \<Rightarrow> bucket option \<Rightarrow> bucket" where
  "next_bucket now b =
     (case b of
        Some b \<Rightarrow> if limiter_window \<le> now - bk_window_started b then \<lparr>bk_count = 1, bk_window_started = now\<rparr>
                  else b\<lparr>bk_count := bk_count b + 1\<rparr>
      | None \<Rightarrow> \<lparr>bk_count = 1, bk_window_started = now\<rparr>)"

lemma limiter_check_next:
  "limiter_check now addr buckets =
     (bk_count (next_bucket now (buckets addr)) \<le> max_attempts, buckets(addr \<mapsto> next_bucket now (buckets addr)))"
  by (auto simp: limiter_check_def next_bucket_def Let_def split: option.splits)

lemma max_attempts_iff: "w \<le> max_attempts \<longleftrightarrow> unat w \<le> 5"
  by (simp add: max_attempts_def word_le_nat_alt)

lemma count_up: "unat c + Suc n < 2 ^ 32 \<Longrightarrow> unat (c + 1 :: u32) = unat c + 1"
  by (simp add: unat_word_ariths)

definition room :: "'ip \<Rightarrow> nat \<Rightarrow> 'ip sign_in_limiter \<Rightarrow> bool" where
  "room addr n buckets \<longleftrightarrow> (\<forall>b. buckets addr = Some b \<longrightarrow> unat (bk_count b) + n < 2 ^ 32)"

lemma room_next: "room addr (Suc n) buckets \<Longrightarrow> Suc n < 2 ^ 32 \<Longrightarrow> room addr n (snd (limiter_check t a buckets))"
  using count_up by (auto simp: room_def limiter_check_next next_bucket_def split: option.splits)

lemma limiter_same_window:
  assumes "buckets addr = Some b" "since \<le> bk_window_started b"
    and "sorted (map fst es)" "\<forall>e \<in> set es. bk_window_started b \<le> fst e" "room addr (length es) buckets" "length es < 2 ^ 32"
  shows "admitted addr since es buckets \<le> 5 - unat (bk_count b)"
  using assms
proof (induction es arbitrary: buckets b)
  case (Cons e es)
  obtain t a where e: "e = (t, a)" by fastforce
  let ?B = "snd (limiter_check t a buckets)"
  have room: "room addr (length es) ?B" using room_next Cons.prems(5,6) by simp
  have sorted: "sorted (map fst es)" "\<forall>e \<in> set es. t \<le> fst e" using Cons.prems(3) e by auto
  have len: "length es < 2 ^ 32" using Cons.prems(6) by simp
  show ?case
  proof (cases "since + limiter_window \<le> t")
    case True
    then show ?thesis using sorted e by (subst admitted_later) force+
  next
    case False
    show ?thesis
    proof (cases "a = addr")
      case True
      let ?b = "b\<lparr>bk_count := bk_count b + 1\<rparr>"
      have next_b: "next_bucket t (buckets addr) = ?b"
        using Cons.prems(1,2,4) False e by (auto simp: next_bucket_def)
      have up: "unat (bk_count b + 1) = unat (bk_count b) + 1"
        using count_up[of "bk_count b" "length es"] Cons.prems(1,5) by (simp add: room_def)
      have "?B addr = Some ?b" using True next_b by (simp add: limiter_check_next)
      then have "admitted addr since es ?B \<le> 5 - unat (bk_count ?b)"
        using Cons.IH[of ?B ?b] Cons.prems(2,4) sorted room len by simp
      with up show ?thesis
        by (simp add: e admits_def limiter_check_next next_b True max_attempts_iff) arith
    next
      case False
      then have "?B addr = Some b" using Cons.prems(1) by (simp add: limiter_check_next)
      with Cons.IH[of ?B b] Cons.prems(2,4) sorted room len False show ?thesis by (simp add: e admits_def)
    qed
  qed
qed simp

lemma limiter_first_window:
  assumes "\<forall>b. buckets addr = Some b \<longrightarrow> unat (bk_count b) = c" "buckets addr = None \<longrightarrow> c = 0"
    and "sorted (map fst es)" "\<forall>e \<in> set es. since \<le> fst e" "room addr (length es) buckets" "length es < 2 ^ 32"
  shows "admitted addr since es buckets \<le> (5 - c) + 5"
  using assms
proof (induction es arbitrary: buckets c)
  case (Cons e es)
  obtain t a where e: "e = (t, a)" by fastforce
  let ?B = "snd (limiter_check t a buckets)"
  have room: "room addr (length es) ?B" using room_next Cons.prems(5,6) by simp
  have sorted: "sorted (map fst es)" "\<forall>e \<in> set es. t \<le> fst e" "since \<le> t" using Cons.prems(3,4) e by auto
  have len: "length es < 2 ^ 32" using Cons.prems(6) by simp
  show ?case
  proof (cases "a = addr")
    case False
    then have "?B addr = buckets addr" by (simp add: limiter_check_next)
    with Cons.IH[of ?B c] Cons.prems(1,2) sorted room len Cons.prems(4) False show ?thesis by (simp add: e admits_def)
  next
    case True
    let ?b = "next_bucket t (buckets addr)"
    have B: "?B addr = Some ?b" using True by (simp add: limiter_check_next)
    show ?thesis
    proof (cases "bk_window_started ?b = t \<and> bk_count ?b = 1")
      case fresh: True
      have "admitted addr since es ?B \<le> 5 - unat (bk_count ?b)"
        using limiter_same_window[of ?B addr ?b since es] B fresh sorted room len by simp
      with fresh show ?thesis by (simp add: e)
    next
      case False
      then obtain b where b: "buckets addr = Some b" "?b = b\<lparr>bk_count := bk_count b + 1\<rparr>"
        by (auto simp: next_bucket_def split: option.splits if_splits)
      have c: "unat (bk_count b) = c" using Cons.prems(1) b by simp
      have up: "unat (bk_count b + 1) = c + 1"
        using count_up[of "bk_count b" "length es"] Cons.prems(5) b c by (simp add: room_def)
      have "admitted addr since es ?B \<le> (5 - (c + 1)) + 5"
        using Cons.IH[of ?B "c + 1"] B b up sorted Cons.prems(4) room len by simp
      then show ?thesis
        using up b by (simp add: e admits_def limiter_check_next True max_attempts_iff) arith
    qed
  qed
qed simp

lemma limiter_before:
  assumes "\<forall>b. buckets addr = Some b \<longrightarrow> bk_window_started b < since"
    and "sorted (map fst es)" "room addr (length es) buckets" "length es < 2 ^ 32"
  shows "admitted addr since es buckets \<le> 10"
  using assms
proof (induction es arbitrary: buckets)
  case (Cons e es)
  obtain t a where e: "e = (t, a)" by fastforce
  let ?c = "case buckets addr of Some b \<Rightarrow> unat (bk_count b) | None \<Rightarrow> 0"
  show ?case
  proof (cases "t < since")
    case True
    have "\<forall>b. snd (limiter_check t a buckets) addr = Some b \<longrightarrow> bk_window_started b < since"
      using Cons.prems(1) True by (auto simp: limiter_check_next next_bucket_def split: option.splits)
    moreover have "room addr (length es) (snd (limiter_check t a buckets))"
      using room_next Cons.prems(3,4) by simp
    ultimately show ?thesis
      using Cons.IH[of "snd (limiter_check t a buckets)"] Cons.prems(2,4) True by (simp add: e admits_def)
  next
    case False
    with Cons.prems(2) e have "\<forall>x \<in> set (e # es). since \<le> fst x" by force
    with limiter_first_window[of buckets addr ?c "e # es" since] Cons.prems show ?thesis by force
  qed
qed simp

lemma limiter_few:
  assumes "case buckets addr of Some b \<Rightarrow> unat (bk_count b) + count_list (map snd es) addr \<le> 5
      | None \<Rightarrow> count_list (map snd es) addr \<le> 5"
    and "((t, addr), ok) \<in> set (zip es (limiter_run es buckets))"
  shows ok
  using assms
proof (induction es arbitrary: buckets)
  case (Cons e es)
  obtain t' a where e: "e = (t', a)" by fastforce
  let ?B = "snd (limiter_check t' a buckets)"
  have small: "unat (bk_count b + 1) = unat (bk_count b) + 1" if "unat (bk_count b) \<le> 5" for b
    using that count_up[of "bk_count b" 0] by simp
  have keep: "case ?B addr of Some b \<Rightarrow> unat (bk_count b) + count_list (map snd es) addr \<le> 5
      | None \<Rightarrow> count_list (map snd es) addr \<le> 5"
  proof (cases "buckets addr")
    case None
    with Cons.prems(1) show ?thesis by (auto simp: e limiter_check_next next_bucket_def)
  next
    case (Some b)
    with Cons.prems(1) small[of b] show ?thesis by (auto simp: e limiter_check_next next_bucket_def)
  qed
  have "unat (bk_count (next_bucket t' (buckets addr))) \<le> 5" if "a = addr"
  proof (cases "buckets addr")
    case None
    with Cons.prems(1) that show ?thesis by (auto simp: e next_bucket_def)
  next
    case (Some b)
    with Cons.prems(1) that small[of b] show ?thesis by (auto simp: e next_bucket_def)
  qed
  then have now: "a = addr \<Longrightarrow> fst (limiter_check t' a buckets)"
    by (auto simp: limiter_check_next max_attempts_iff)
  show ?case
    using Cons.prems(2) Cons.IH[of ?B] keep now by (cases "limiter_check t' a buckets") (auto simp: e)
qed simp

text \<open>
  On a clock that does not run backwards, and short of the 2^32 attempts at which the counter would
  wrap, an address is let through at most ten times in any stretch of one window's length, wherever it
  begins: the five of the window that was running and the five of the one that starts in it. An
  address that tries at most five times is never refused, whatever other addresses do.
\<close>

theorem sign_in_attempts_bounded:
  assumes "sorted (map fst es)" "length es < 2 ^ 32"
  shows "admitted addr since es Map.empty \<le> 10 \<and>
    (count_list (map snd es) addr \<le> 5 \<longrightarrow>
       (\<forall>t ok. ((t, addr), ok) \<in> set (zip es (limiter_run es Map.empty)) \<longrightarrow> ok))"
  using limiter_before[where buckets = Map.empty and addr = addr and since = since and es = es]
    limiter_few[where buckets = Map.empty and addr = addr and es = es] assms
  by (simp add: room_def) blast

subsection \<open>A sign-in\<close>

definition sample_drawn :: drawn where
  "sample_drawn = \<lparr>dr_token = replicate 32 2, dr_id = replicate 32 3, dr_csrf = replicate 32 4\<rparr>"

definition sample_start :: session_manager where
  "sample_start = new_for_port True None 8081 (replicate 32 1) True 0"

definition sample_token :: string where "sample_token = mint_secret (replicate 32 1)"

lemma sample_secrets:
  "mint_secret (replicate 32 1) = concat (replicate 32 ''01'')" "mint_secret (replicate 32 2) = concat (replicate 32 ''02'')"
  "mint_secret (replicate 32 3) = concat (replicate 32 ''03'')" "mint_secret (replicate 32 4) = concat (replicate 32 ''04'')"
  by (code_simp, code_simp, code_simp, code_simp)

lemma sample_secrets_differ: "concat (replicate 32 ''01'') \<noteq> concat (replicate 32 ''02'')"
  by code_simp

lemma sample_start_token: "sm_bootstrap sample_start = \<lparr>bt_token = sample_token, bt_expires_at = bootstrap_ttl\<rparr>"
  by (simp add: sample_start_def sample_token_def new_for_port_def write_token_file_def)

lemma sample_exchange:
  "fst (exchange (2, 3, 4) sample_drawn True sample_token sample_start) =
     Some \<lparr>ns_id = concat (replicate 32 ''03''), ns_csrf = concat (replicate 32 ''04'')\<rparr>"
  by (simp add: exchange_def token_valid_def sample_start_token Let_def sample_drawn_def sample_secrets
      bootstrap_ttl_def from_secs_def)

lemma bootstrap_single_use_witness:
  "fst (exchange (9, 9, 9) sample_drawn True sample_token
     (run_steps [Step_Refresh (5, 5) (replicate 32 2) True, Step_Revoke ''x'']
        (snd (exchange (2, 3, 4) sample_drawn True sample_token sample_start)))) = None"
proof -
  obtain s m' where e: "exchange (2, 3, 4) sample_drawn True sample_token sample_start = (Some s, m')"
    using sample_exchange by (cases "exchange (2, 3, 4) sample_drawn True sample_token sample_start") auto
  have "sample_token \<notin> set (concat (map drawn_tokens (Step_Exchange (2, 3, 4) sample_drawn True sample_token #
      [Step_Refresh (5, 5) (replicate 32 2) True, Step_Revoke ''x''])))"
    using sample_secrets_differ by (simp add: sample_token_def sample_drawn_def sample_secrets)
  from bootstrap_single_use[OF e this, of "(9, 9, 9)" sample_drawn True] show ?thesis by (simp add: e)
qed

lemma session_was_earned_witness:
  "\<exists>t. opened_by sample_start [Step_Exchange (2, 3, 4) sample_drawn True sample_token]
     (concat (replicate 32 ''03'')) (concat (replicate 32 ''04'')) t \<and> 7 < t + session_idle_ttl"
proof -
  have "fst (validate_session 7 (concat (replicate 32 ''03''))
      (run_steps [Step_Exchange (2, 3, 4) sample_drawn True sample_token] sample_start)) =
      Some (concat (replicate 32 ''04''))"
    by (simp add: exchange_def token_valid_def sample_start_token Let_def sample_drawn_def sample_secrets
        bootstrap_ttl_def from_secs_def open_session_def validate_session_def session_idle_ttl_def session_max_age_secs_def)
  from session_was_earned[OF sample_start_def this] show ?thesis .
qed

definition sample_attempts :: "(instant \<times> string) list" where
  "sample_attempts = [(0, ''a''), (0, ''a''), (0, ''a''), (0, ''a''), (0, ''a''), (0, ''a''), (0, ''a'')]"

lemma sign_in_attempts_bounded_witness:
  "admitted ''a'' 0 (sample_attempts) Map.empty \<le> 10 \<and>
   limiter_run (sample_attempts) Map.empty = [True, True, True, True, True, False, False]"
proof
  show "admitted ''a'' 0 (sample_attempts) Map.empty \<le> 10"
    using sign_in_attempts_bounded[of "sample_attempts" "''a''" 0] by (simp add: sample_attempts_def)
  show "limiter_run (sample_attempts) Map.empty = [True, True, True, True, True, False, False]"
    by (simp add: sample_attempts_def limiter_check_next next_bucket_def limiter_window_def from_secs_def max_attempts_def)
qed

end
