(* ===== verification/Access.thy ===== *)
theory Access imports Sessions begin

text \<open>
  The gate in front of every route: \<open>crates/git-vista-server/src/security.rs\<close>, the session endpoints
  of \<open>handlers/session.rs\<close>, the protocol check of \<open>middleware.rs\<close> with the version window of
  \<open>git-vista-protocol/src/version.rs\<close>, and the table of \<open>route_authz.rs\<close> that says what each route
  needs. A header value is either text (visible ASCII) or opaque, as \<open>HeaderValue::to_str\<close> decides;
  header names are lower case. The log lines of a refusal are not modelled.
\<close>

subsection \<open>Addresses\<close>

text \<open>Rust's parser of \<open>IpAddr\<close>: every function reads a prefix and returns the rest.\<close>

datatype ip_addr = Ip_V4 "u8 list" | Ip_V6 "u16 list"

definition to_digit :: "nat \<Rightarrow> char \<Rightarrow> nat option" where
  "to_digit radix c =
     (let n = (of_char c :: nat);
          d = (if 48 \<le> n \<and> n \<le> 57 then n - 48
               else if 97 \<le> n \<and> n \<le> 122 then n - 97 + 10
               else if 65 \<le> n \<and> n \<le> 90 then n - 65 + 10 else 36)
      in if d < radix then Some d else None)"

definition read_number :: "nat \<Rightarrow> nat \<Rightarrow> nat \<Rightarrow> bool \<Rightarrow> string \<Rightarrow> (nat \<times> string) option" where
  "read_number radix max_digits limit allow_zero_prefix s =
     (let ds = takeWhile (\<lambda>c. to_digit radix c \<noteq> None) s;
          v = foldl (\<lambda>acc c. acc * radix + (case to_digit radix c of Some d \<Rightarrow> d | None \<Rightarrow> 0)) 0 ds
      in if ds = [] \<or> max_digits < length ds \<or> \<not> allow_zero_prefix \<and> hd ds = CHR ''0'' \<and> 1 < length ds \<or> limit < v
         then None else Some (v, drop (length ds) s))"

definition read_separator :: "char \<Rightarrow> nat \<Rightarrow> string \<Rightarrow> string option" where
  "read_separator sep i s =
     (if i = 0 then Some s else case s of c # rest \<Rightarrow> if c = sep then Some rest else None | [] \<Rightarrow> None)"

fun read_octets :: "nat \<Rightarrow> nat \<Rightarrow> string \<Rightarrow> (u8 list \<times> string) option" where
  "read_octets i 0 s = Some ([], s)"
| "read_octets i (Suc k) s =
     (case Option.bind (read_separator (CHR ''.'') i s) (read_number 10 3 255 False) of
        None \<Rightarrow> None
      | Some (v, rest) \<Rightarrow>
          map_option (\<lambda>(vs, rest). (word_of_nat v # vs, rest)) (read_octets (i + 1) k rest))"

definition read_ipv4_addr :: "string \<Rightarrow> (u8 list \<times> string) option" where
  "read_ipv4_addr = read_octets 0 4"

definition octet_pair :: "u8 \<Rightarrow> u8 \<Rightarrow> u16" where
  "octet_pair hi lo = push_bit 8 (ucast hi) OR ucast lo"

text \<open>
  Colon-separated groups from index \<open>i\<close>, at most \<open>k\<close> more, the last two possibly an IPv4 address:
  the groups, whether they end in one, and the rest.
\<close>

fun read_groups :: "nat \<Rightarrow> nat \<Rightarrow> string \<Rightarrow> u16 list \<times> bool \<times> string" where
  "read_groups i 0 s = ([], False, s)"
| "read_groups i (Suc k) s =
     (case (if k = 0 then None else Option.bind (read_separator (CHR '':'') i s) read_ipv4_addr) of
        Some ([a, b, c, d], rest) \<Rightarrow> ([octet_pair a b, octet_pair c d], True, rest)
      | _ \<Rightarrow>
          (case Option.bind (read_separator (CHR '':'') i s) (read_number 16 4 65535 True) of
             None \<Rightarrow> ([], False, s)
           | Some (v, rest) \<Rightarrow>
               (case read_groups (i + 1) k rest of (gs, v4, rest) \<Rightarrow> (word_of_nat v # gs, v4, rest))))"

definition read_ipv6_addr :: "string \<Rightarrow> (u16 list \<times> string) option" where
  "read_ipv6_addr s =
     (case read_groups 0 8 s of
        (front, front_v4, rest) \<Rightarrow>
          if length front = 8 then Some (front, rest)
          else if front_v4 then None
          else case strip_prefix ''::'' rest of
                 None \<Rightarrow> None
               | Some rest \<Rightarrow>
                   (case read_groups 0 (8 - (length front + 1)) rest of
                      (back, _, rest) \<Rightarrow>
                        Some (front @ replicate (8 - length front - length back) 0 @ back, rest)))"

definition parse_ip_addr :: "string \<Rightarrow> ip_addr option" where
  "parse_ip_addr s =
     (case read_ipv4_addr s of
        Some (os, rest) \<Rightarrow> if rest = [] then Some (Ip_V4 os) else None
      | None \<Rightarrow>
          (case read_ipv6_addr s of
             Some (gs, rest) \<Rightarrow> if rest = [] then Some (Ip_V6 gs) else None
           | None \<Rightarrow> None))"

subsection \<open>Hosts and origins\<close>

definition eq_ignore_ascii_case :: "string \<Rightarrow> string \<Rightarrow> bool" where
  "eq_ignore_ascii_case a b \<longleftrightarrow> List.map ascii_lower a = List.map ascii_lower b"

definition parse_u16 :: "string \<Rightarrow> u16 option" where
  "parse_u16 s = map_option of_int (parse_uint 65535 s)"

text \<open>\<open>str::rsplit_once\<close> on one character.\<close>

definition rsplit_once :: "char \<Rightarrow> string \<Rightarrow> (string \<times> string) option" where
  "rsplit_once c s =
     (if c \<in> set s
      then Some (rev (tl (dropWhile (\<lambda>x. x \<noteq> c) (rev s))), rev (takeWhile (\<lambda>x. x \<noteq> c) (rev s)))
      else None)"

record host_policy =
  hp_port :: u16
  hp_pinned_ip :: "ip_addr option"

definition loopback_policy :: "u16 \<Rightarrow> host_policy" where
  "loopback_policy port = \<lparr>hp_port = port, hp_pinned_ip = None\<rparr>"

definition lan_policy :: "ip_addr \<Rightarrow> u16 \<Rightarrow> host_policy" where
  "lan_policy ip port = \<lparr>hp_port = port, hp_pinned_ip = Some ip\<rparr>"

definition split_host_port :: "string \<Rightarrow> string \<times> u16 option" where
  "split_host_port host =
     (case strip_prefix ''['' host of
        Some rest \<Rightarrow>
          (case split_once '']'' rest of
             Some (name, after) \<Rightarrow> (name, Option.bind (strip_prefix '':'' after) parse_u16)
           | None \<Rightarrow> (host, None))
      | None \<Rightarrow>
          (case rsplit_once (CHR '':'') host of
             Some (name, after) \<Rightarrow>
               (case parse_u16 after of Some port \<Rightarrow> (name, Some port) | None \<Rightarrow> (host, None))
           | None \<Rightarrow> (host, None)))"

definition is_loopback_name :: "string \<Rightarrow> bool" where
  "is_loopback_name name \<longleftrightarrow>
     eq_ignore_ascii_case name ''localhost'' \<or> name = ''127.0.0.1'' \<or> name = ''::1''"

definition host_allowed :: "host_policy \<Rightarrow> string \<Rightarrow> bool" where
  "host_allowed p host =
     (case split_host_port host of
        (name, port) \<Rightarrow>
          if (case port of Some n \<Rightarrow> n \<noteq> hp_port p | None \<Rightarrow> False) then False
          else case hp_pinned_ip p of
                 Some ip \<Rightarrow> parse_ip_addr name = Some ip
               | None \<Rightarrow> is_loopback_name name)"

definition origin_allowed :: "host_policy \<Rightarrow> string \<Rightarrow> bool" where
  "origin_allowed p origin =
     (if eq_ignore_ascii_case origin ''null'' then False
      else case (case strip_prefix ''http://'' origin of
                   Some h \<Rightarrow> Some h | None \<Rightarrow> strip_prefix ''https://'' origin) of
             Some host \<Rightarrow> host_allowed p host
           | None \<Rightarrow> False)"

subsection \<open>Requests\<close>

datatype http_method =
  GET | HEAD | POST | PUT | PATCH | DELETE | OPTIONS | TRACE | CONNECT | Method_Extension string

definition is_state_changing :: "http_method \<Rightarrow> bool" where
  "is_state_changing m \<longleftrightarrow> m \<in> {POST, PUT, PATCH, DELETE}"

definition is_allowed_method :: "http_method \<Rightarrow> bool" where
  "is_allowed_method m \<longleftrightarrow> m \<in> {GET, HEAD, POST, PUT, PATCH, DELETE}"

datatype header_value = Header_Text string | Header_Opaque

text \<open>\<open>rq_header\<close> is the first value under a name, as \<open>HeaderMap::get\<close> returns it.\<close>

record http_request =
  hr_method :: http_method
  hr_path :: string
  hr_query :: "string option"
  hr_header :: "string \<rightharpoonup> header_value"

fun header_text :: "header_value option \<Rightarrow> string option" where
  "header_text (Some (Header_Text v)) = Some v"
| "header_text (Some Header_Opaque) = None"
| "header_text None = None"

text \<open>The value of the first pair whose name is the cookie's; a pair without \<open>=\<close> is passed over.\<close>

fun find_cookie :: "string \<Rightarrow> string list \<Rightarrow> string option" where
  "find_cookie name [] = None"
| "find_cookie name (pair # pairs) =
     (case split_once ''='' pair of
        Some (k, v) \<Rightarrow> if trim k = name then Some (trim v) else find_cookie name pairs
      | None \<Rightarrow> find_cookie name pairs)"

definition cookie_value :: "http_request \<Rightarrow> string \<Rightarrow> string option" where
  "cookie_value hreq name =
     Option.bind (header_text (hr_header hreq ''cookie'')) (\<lambda>raw. find_cookie name (split_on (CHR '';'') raw))"

definition content_type_ok_for_write :: "http_request \<Rightarrow> bool" where
  "content_type_ok_for_write hreq =
     (case hr_header hreq ''content-type'' of
        None \<Rightarrow> True
      | Some value \<Rightarrow>
          (case header_text (Some value) of
             Some v \<Rightarrow> starts_with ''application/json'' (List.map ascii_lower (trim_start v))
           | None \<Rightarrow> False))"

subsection \<open>The gate\<close>

definition negotiation_path :: string where "negotiation_path = ''/api/protocol''"
definition session_path :: string where "session_path = ''/api/session''"
definition csrf_header :: string where "csrf_header = ''x-git-vista-csrf''"

definition session_exempt :: "string \<Rightarrow> http_method \<Rightarrow> bool" where
  "session_exempt path m \<longleftrightarrow> path = negotiation_path \<and> m = GET \<or> path = session_path \<and> m \<in> {GET, POST}"

text \<open>A refusal is answered with its status; a request that is let through acts on a selection cell.\<close>

datatype gate_outcome = Gate_Denied nat string | Gate_Served "nat option"

text \<open>
  The checks before the session, in their order. An \<open>Origin\<close> that is not text is passed over, as one
  that is absent.
\<close>

definition wire_check :: "host_policy \<Rightarrow> http_request \<Rightarrow> (nat \<times> string) option" where
  "wire_check hosts hreq =
     (if \<not> is_allowed_method (hr_method hreq) then Some (405, ''This method is not allowed.'')
      else if \<not> (case header_text (hr_header hreq ''host'') of Some h \<Rightarrow> host_allowed hosts h | None \<Rightarrow> False) then
        Some (403, ''Request rejected: unexpected Host. git-vista only answers on localhost.'')
      else if (case header_text (hr_header hreq ''origin'') of Some o' \<Rightarrow> \<not> origin_allowed hosts o' | None \<Rightarrow> False) then
        Some (403, ''Request rejected: cross-origin request to a local-only service.'')
      else if is_state_changing (hr_method hreq) \<and> \<not> content_type_ok_for_write hreq then
        Some (415, ''Request rejected: state-changing requests must send JSON.'')
      else None)"

definition csrf_ok :: "string \<Rightarrow> http_request \<Rightarrow> bool" where
  "csrf_ok expected hreq =
     (case header_text (hr_header hreq csrf_header) of Some c \<Rightarrow> ct_eq expected c | None \<Rightarrow> False)"

text \<open>The clock is read for the selection cell and again for the session.\<close>

definition require_auth ::
  "host_policy \<Rightarrow> instant \<times> instant \<Rightarrow> http_request \<Rightarrow> session_manager \<Rightarrow> gate_outcome \<times> session_manager" where
  "require_auth hosts clock hreq m =
     (case wire_check hosts hreq of
        Some (status, message) \<Rightarrow> (Gate_Denied status message, m)
      | None \<Rightarrow>
          if session_exempt (hr_path hreq) (hr_method hreq) then (Gate_Served None, m)
          else
            let cookie = cookie_value hreq (sm_cookie_name m);
                selection = Option.bind cookie (\<lambda>sid. selection_cell (fst clock) sid m)
            in case (case cookie of Some sid \<Rightarrow> validate_session (snd clock) sid m | None \<Rightarrow> (None, m)) of
                 (None, m) \<Rightarrow> (Gate_Denied 401 ''No active session. Reconnect.'', m)
               | (Some csrf, m) \<Rightarrow>
                   if is_state_changing (hr_method hreq) \<and> \<not> csrf_ok csrf hreq
                   then (Gate_Denied 403 ''Request rejected: missing or invalid CSRF token.'', m)
                   else (Gate_Served selection, m))"

subsection \<open>The session endpoints\<close>

record 'policy session_info =
  si_authenticated :: bool
  si_csrf :: "string option"
  si_via_lan :: bool
  si_hook_policy :: 'policy

record 'policy session_answer =
  sa_status :: nat
  sa_set_cookie :: "string option"
  sa_body :: "string + 'policy session_info"

definition session_cookie :: "string \<Rightarrow> string \<Rightarrow> nat \<Rightarrow> string" where
  "session_cookie name value max_age =
     name @ ''='' @ value @ ''; HttpOnly; SameSite=Strict; Path=/; Max-Age='' @ decimal (int max_age)"

text \<open>
  The limiter is present on the LAN listener only. The hook policy of the answer is a parameter; the
  body's token is trimmed before it is compared.
\<close>

definition create_session ::
  "bool \<Rightarrow> 'policy \<Rightarrow> instant \<Rightarrow> ip_addr \<Rightarrow> string \<Rightarrow> instant \<times> instant \<times> instant \<Rightarrow> drawn \<Rightarrow> bool \<Rightarrow>
     ip_addr sign_in_limiter option \<Rightarrow> session_manager \<Rightarrow>
     'policy session_answer \<times> ip_addr sign_in_limiter option \<times> session_manager" where
  "create_session via_lan policy now addr token clock d written limiter m =
     (case (case limiter of Some l \<Rightarrow> (case limiter_check now addr l of (ok, l) \<Rightarrow> (ok, Some l)) | None \<Rightarrow> (True, None)) of
        (False, limiter) \<Rightarrow>
          (\<lparr>sa_status = 429, sa_set_cookie = None,
            sa_body = Inl ''Too many sign-in attempts from this address. Try again in a minute.''\<rparr>, limiter, m)
      | (True, limiter) \<Rightarrow>
          (case exchange clock d written (trim token) m of
             (Some s, m) \<Rightarrow>
               (\<lparr>sa_status = 200,
                 sa_set_cookie = Some (session_cookie (sm_cookie_name m) (ns_id s) session_max_age_secs),
                 sa_body = Inr \<lparr>si_authenticated = True, si_csrf = Some (ns_csrf s), si_via_lan = via_lan,
                   si_hook_policy = policy\<rparr>\<rparr>, limiter, m)
           | (None, m) \<Rightarrow>
               (\<lparr>sa_status = 401, sa_set_cookie = None,
                 sa_body = Inl ''That setup link is invalid or has expired. Get a fresh one from `gv`.''\<rparr>, limiter, m)))"

definition session_status :: "bool \<Rightarrow> 'policy \<Rightarrow> instant \<Rightarrow> http_request \<Rightarrow> session_manager \<Rightarrow> 'policy session_answer \<times> session_manager" where
  "session_status via_lan policy now hreq m =
     (case (case cookie_value hreq (sm_cookie_name m) of
              Some sid \<Rightarrow> validate_session now sid m | None \<Rightarrow> (None, m)) of
        (csrf, m) \<Rightarrow>
          (\<lparr>sa_status = 200, sa_set_cookie = None,
            sa_body = Inr \<lparr>si_authenticated = (csrf \<noteq> None), si_csrf = csrf, si_via_lan = via_lan,
              si_hook_policy = policy\<rparr>\<rparr>, m))"

definition revoke_session :: "bool \<Rightarrow> 'policy \<Rightarrow> http_request \<Rightarrow> session_manager \<Rightarrow> 'policy session_answer \<times> session_manager" where
  "revoke_session via_lan policy hreq m =
     (\<lparr>sa_status = 200, sa_set_cookie = Some (session_cookie (sm_cookie_name m) [] 0),
       sa_body = Inr \<lparr>si_authenticated = False, si_csrf = None, si_via_lan = via_lan, si_hook_policy = policy\<rparr>\<rparr>,
      case cookie_value hreq (sm_cookie_name m) of
        Some sid \<Rightarrow> snd (revoke_session_id sid m) | None \<Rightarrow> m)"

subsection \<open>The protocol window\<close>

definition protocol_version :: u32 where "protocol_version = 12"
definition min_client_protocol :: u32 where "min_client_protocol = 12"
definition max_client_protocol :: u32 where "max_client_protocol = 12"

definition protocol_header :: string where "protocol_header = ''x-git-vista-protocol''"
definition protocol_query :: string where "protocol_query = ''protocol''"

definition parse_protocol_header :: "string \<Rightarrow> u32 option" where
  "parse_protocol_header raw = (let raw = trim raw in if raw = [] then None else parse_u32 raw)"

datatype compatibility = Compatible | ClientTooOld | ClientTooNew

definition check_compatibility :: "u32 \<Rightarrow> u32 \<Rightarrow> u32 \<Rightarrow> compatibility" where
  "check_compatibility client lowest highest =
     (if client < lowest then ClientTooOld else if highest < client then ClientTooNew else Compatible)"

datatype protocol_refusal =
  MissingProtocolHeader string | InvalidProtocolHeader string | ProtocolIncompatible string

definition accepts_protocol_query :: "string \<Rightarrow> bool" where
  "accepts_protocol_query path \<longleftrightarrow>
     starts_with ''/api/operations/'' path \<and> strip_suffix ''/events'' path \<noteq> None \<and>
       count_list path (CHR ''/'') = 4 \<or>
     path = ''/api/repository/events''"

fun find_parameter :: "string \<Rightarrow> string list \<Rightarrow> string option" where
  "find_parameter name [] = None"
| "find_parameter name (pair # pairs) =
     (case split_once ''='' pair of
        Some (k, v) \<Rightarrow> if k = name then Some v else find_parameter name pairs
      | None \<Rightarrow> find_parameter name pairs)"

definition protocol_query_value :: "http_request \<Rightarrow> string option" where
  "protocol_query_value hreq =
     Option.bind (hr_query hreq) (\<lambda>query. find_parameter protocol_query (split_on (CHR ''&'') query))"

definition protocol_text :: "http_request \<Rightarrow> protocol_refusal + string" where
  "protocol_text hreq =
     (case hr_header hreq protocol_header of
        Some (Header_Text v) \<Rightarrow> Inr v
      | Some Header_Opaque \<Rightarrow>
          Inl (InvalidProtocolHeader (''The '' @ protocol_header @ '' header isn't valid text.''))
      | None \<Rightarrow>
          if accepts_protocol_query (hr_path hreq) then
            case protocol_query_value hreq of
              Some v \<Rightarrow> Inr v
            | None \<Rightarrow> Inl (MissingProtocolHeader
                (''This stream needs a ?'' @ protocol_query @
                 ''= parameter naming the protocol version. Reload the app to update.''))
          else Inl (MissingProtocolHeader
            (''This request needs the '' @ protocol_header @ '' header. Reload the app to update.'')))"

definition check_protocol :: "http_request \<Rightarrow> protocol_refusal + unit" where
  "check_protocol hreq =
     (case protocol_text hreq of
        Inl r \<Rightarrow> Inl r
      | Inr raw \<Rightarrow>
     (case parse_protocol_header raw of
        None \<Rightarrow> Inl (InvalidProtocolHeader
          (''The '' @ protocol_header @ '' header '' @ [CHR 0x27] @ raw @ [CHR 0x27] @
           '' isn't a protocol version number.''))
      | Some client \<Rightarrow>
          if check_compatibility client min_client_protocol max_client_protocol = Compatible then Inr ()
          else Inl (ProtocolIncompatible
            (''This app speaks protocol v'' @ show_u32 client @ '', but the server accepts v'' @
             show_u32 min_client_protocol @ [CHR 0xE2, CHR 0x80, CHR 0x93, CHR ''v''] @
             show_u32 max_client_protocol @ '' (currently v'' @ show_u32 protocol_version @
             ''). Reload the app to update.''))))"

text \<open>The negotiation path is let through whatever it says; every other request is checked first.\<close>

definition contract_gate :: "http_request \<Rightarrow> protocol_refusal + unit" where
  "contract_gate hreq = (if hr_path hreq = negotiation_path then Inr () else check_protocol hreq)"

subsection \<open>What each route needs\<close>

datatype authz = Authz_Unauthenticated | Authz_SessionRequired | Authz_SessionAndCsrf

definition route_authz :: "(string \<times> http_method \<times> authz) list" where
  "route_authz =
    [(''/api/frame'', GET, Authz_SessionRequired),
     (''/api/commits'', GET, Authz_SessionRequired),
     (''/api/protocol'', GET, Authz_Unauthenticated),
     (''/api/catalog'', GET, Authz_SessionRequired),
     (''/api/session'', GET, Authz_Unauthenticated),
     (''/api/session'', POST, Authz_Unauthenticated),
     (''/api/session'', DELETE, Authz_SessionAndCsrf),
     (''/api/commit/{id}'', GET, Authz_SessionRequired),
     (''/api/diff/{id}'', GET, Authz_SessionRequired),
     (''/api/file/{id}/{*path}'', GET, Authz_SessionRequired),
     (''/api/file-history'', GET, Authz_SessionRequired),
     (''/api/blame'', GET, Authz_SessionRequired),
     (''/api/head-branch'', GET, Authz_SessionRequired),
     (''/api/status'', GET, Authz_SessionRequired),
     (''/api/bisect/status'', GET, Authz_SessionRequired),
     (''/api/status/v2'', GET, Authz_SessionRequired),
     (''/api/repository/events'', GET, Authz_SessionRequired),
     (''/api/tags'', GET, Authz_SessionRequired),
     (''/api/activity'', GET, Authz_SessionRequired),
     (''/api/undoables/{id}'', GET, Authz_SessionRequired),
     (''/api/rebase-status'', GET, Authz_SessionRequired),
     (''/api/forge/pulls'', GET, Authz_SessionRequired),
     (''/api/clone'', POST, Authz_SessionAndCsrf),
     (''/api/clone-status/{key}'', GET, Authz_SessionRequired),
     (''/api/delete-clone'', POST, Authz_SessionAndCsrf),
     (''/api/select'', POST, Authz_SessionAndCsrf),
     (''/api/select-worktree'', POST, Authz_SessionAndCsrf),
     (''/api/remove-worktree'', POST, Authz_SessionAndCsrf),
     (''/api/rescan'', POST, Authz_SessionAndCsrf),
     (''/api/settings/token'', GET, Authz_SessionRequired),
     (''/api/settings/token'', POST, Authz_SessionAndCsrf),
     (''/api/branch'', POST, Authz_SessionAndCsrf),
     (''/api/commit'', POST, Authz_SessionAndCsrf),
     (''/api/amend-commit'', POST, Authz_SessionAndCsrf),
     (''/api/stage'', POST, Authz_SessionAndCsrf),
     (''/api/stashes'', GET, Authz_SessionRequired),
     (''/api/stash/show'', GET, Authz_SessionRequired),
     (''/api/stash/push'', POST, Authz_SessionAndCsrf),
     (''/api/stash/apply'', POST, Authz_SessionAndCsrf),
     (''/api/stash/drop'', POST, Authz_SessionAndCsrf),
     (''/api/stash/branch'', POST, Authz_SessionAndCsrf),
     (''/api/bisect/start'', POST, Authz_SessionAndCsrf),
     (''/api/bisect/mark'', POST, Authz_SessionAndCsrf),
     (''/api/bisect/reset'', POST, Authz_SessionAndCsrf),
     (''/api/staging/diff'', GET, Authz_SessionRequired),
     (''/api/staging/preview'', POST, Authz_SessionAndCsrf),
     (''/api/staging/apply'', POST, Authz_SessionAndCsrf),
     (''/api/diff/spec'', POST, Authz_SessionAndCsrf),
     (''/api/worktrees'', GET, Authz_SessionRequired),
     (''/api/conflicts'', GET, Authz_SessionRequired),
     (''/api/blob/{oid}'', GET, Authz_SessionRequired),
     (''/api/worktree-file/{*path}'', GET, Authz_SessionRequired),
     (''/api/conflict-source/{*path}'', GET, Authz_SessionRequired),
     (''/api/resolve-conflict'', POST, Authz_SessionAndCsrf),
     (''/api/resolve-conflict-content'', POST, Authz_SessionAndCsrf),
     (''/api/cherry-pick'', POST, Authz_SessionAndCsrf),
     (''/api/unstage'', POST, Authz_SessionAndCsrf),
     (''/api/undo'', POST, Authz_SessionAndCsrf),
     (''/api/merge'', POST, Authz_SessionAndCsrf),
     (''/api/push'', POST, Authz_SessionAndCsrf),
     (''/api/fetch'', POST, Authz_SessionAndCsrf),
     (''/api/pull'', POST, Authz_SessionAndCsrf),
     (''/api/delete-branch'', POST, Authz_SessionAndCsrf),
     (''/api/tag'', POST, Authz_SessionAndCsrf),
     (''/api/delete-tag'', POST, Authz_SessionAndCsrf),
     (''/api/push-tag'', POST, Authz_SessionAndCsrf),
     (''/api/delete-remote-tag'', POST, Authz_SessionAndCsrf),
     (''/api/checkout'', POST, Authz_SessionAndCsrf),
     (''/api/add-worktree'', POST, Authz_SessionAndCsrf),
     (''/api/force-delete-branch'', POST, Authz_SessionAndCsrf),
     (''/api/rebase'', POST, Authz_SessionAndCsrf),
     (''/api/reset-test-repo'', POST, Authz_SessionAndCsrf),
     (''/api/discard-tracked-paths'', POST, Authz_SessionAndCsrf),
     (''/api/delete-untracked-paths'', POST, Authz_SessionAndCsrf),
     (''/api/plan'', POST, Authz_SessionAndCsrf),
     (''/api/execute-plan'', POST, Authz_SessionAndCsrf),
     (''/api/preview'', POST, Authz_SessionAndCsrf),
     (''/api/operations/by-key/{key}'', GET, Authz_SessionRequired),
     (''/api/operations/{id}'', GET, Authz_SessionRequired),
     (''/api/operations/{id}/events'', GET, Authz_SessionRequired),
     (''/api/operations/{id}/cancel'', POST, Authz_SessionAndCsrf),
     (''/api/operations/history'', GET, Authz_SessionRequired),
     (''/api/operations/{id}/recover'', POST, Authz_SessionAndCsrf)]"

text \<open>The routes that may be reached without a session, as the table's own test pins them.\<close>

definition expected_unauthenticated :: "(string \<times> http_method) list" where
  "expected_unauthenticated = [(''/api/protocol'', GET), (''/api/session'', GET), (''/api/session'', POST)]"

subsection \<open>Which hosts are answered\<close>

lemma rsplit_once_absent: "c \<notin> set s \<Longrightarrow> rsplit_once c s = None"
  by (simp add: rsplit_once_def)

lemma rsplit_once_last: "c \<notin> set t \<Longrightarrow> rsplit_once c (s @ c # t) = Some (s, t)"
proof -
  assume "c \<notin> set t"
  then have "\<forall>x \<in> set (rev t). x \<noteq> c" by auto
  then have "takeWhile (\<lambda>x. x \<noteq> c) (rev t @ c # rev s) = rev t \<and> dropWhile (\<lambda>x. x \<noteq> c) (rev t @ c # rev s) = c # rev s"
    by (induction "rev t" arbitrary: t) (auto simp: takeWhile_append dropWhile_append)
  then show ?thesis by (simp add: rsplit_once_def)
qed

lemma ascii_lower_colon: "ascii_lower c = CHR '':'' \<longleftrightarrow> c = CHR '':''"
proof
  assume a: "ascii_lower c = CHR '':''"
  show "c = CHR '':''"
  proof (cases "65 \<le> (of_char c :: nat) \<and> (of_char c :: nat) \<le> 90")
    case True
    with a have "char_of ((of_char c :: nat) + 32) = CHR '':''" by (simp add: ascii_lower_def)
    then have "(of_char (char_of ((of_char c :: nat) + 32)) :: nat) = 58" by simp
    with True show ?thesis by simp
  next
    case False
    with a show ?thesis by (auto simp: ascii_lower_def Let_def split: if_splits)
  qed
qed (simp add: ascii_lower_def)

lemma loopback_name_colon: "is_loopback_name (name @ CHR '':'' # digits) \<Longrightarrow> CHR '':'' \<notin> set name \<Longrightarrow>
    CHR '':'' \<notin> set digits \<Longrightarrow> False"
proof -
  assume h: "is_loopback_name (name @ CHR '':'' # digits)" "CHR '':'' \<notin> set name" "CHR '':'' \<notin> set digits"
  have "CHR '':'' \<in> set (List.map ascii_lower (name @ CHR '':'' # digits))" by (simp add: ascii_lower_def)
  moreover have "CHR '':'' \<notin> set (List.map ascii_lower ''localhost'')" by code_simp
  ultimately have "\<not> eq_ignore_ascii_case (name @ CHR '':'' # digits) ''localhost''"
    unfolding eq_ignore_ascii_case_def by metis
  moreover have "CHR '':'' \<notin> set ''127.0.0.1''" by simp
  then have "name @ CHR '':'' # digits \<noteq> ''127.0.0.1''" by (metis in_set_conv_decomp)
  moreover have "name @ CHR '':'' # digits \<noteq> ''::1''"
    using h(2,3) by (cases name) auto
  ultimately show False using h(1) by (simp add: is_loopback_name_def)
qed

text \<open>
  On the loopback listener a host is answered exactly when it is a loopback name, alone or with
  the listener's own port. Whatever domain an attacker makes resolve to this machine, and whatever
  port it is asked under, is refused.
\<close>

theorem host_policy_exact:
  assumes "CHR '':'' \<notin> set name" "CHR '':'' \<notin> set digits" "\<forall>r. name \<noteq> CHR ''['' # r"
  shows "(host_allowed (loopback_policy port) name \<longleftrightarrow> is_loopback_name name) \<and>
    (host_allowed (loopback_policy port) (name @ '':'' @ digits) \<longleftrightarrow>
       is_loopback_name name \<and> parse_u16 digits = Some port)"
proof -
  have nb: "strip_prefix ''['' name = None" "strip_prefix ''['' (name @ CHR '':'' # digits) = None"
    using assms(3) by (auto simp: strip_prefix_None Cons_eq_append_conv append_eq_Cons_conv)
  have alone: "split_host_port name = (name, None)"
    using assms(1) by (simp add: split_host_port_def nb rsplit_once_absent)
  have port: "split_host_port (name @ CHR '':'' # digits) =
      (case parse_u16 digits of Some n \<Rightarrow> (name, Some n) | None \<Rightarrow> (name @ CHR '':'' # digits, None))"
    using assms(2) by (simp add: split_host_port_def nb rsplit_once_last)
  have "\<not> is_loopback_name (name @ CHR '':'' # digits)"
    using loopback_name_colon[of name digits] assms(1,2) by blast
  then have "host_allowed (loopback_policy port) (name @ CHR '':'' # digits) \<longleftrightarrow>
      is_loopback_name name \<and> parse_u16 digits = Some port"
    by (cases "parse_u16 digits") (auto simp: host_allowed_def loopback_policy_def port)
  then show ?thesis by (simp add: host_allowed_def loopback_policy_def alone)
qed

text \<open>
  The identity of a listener, written down by itself: the loopback names or the one pinned address,
  and the ways a host can spell it. The host is the name alone, or the name and the listener's port, or
  the name in brackets with any rest that is not a readable port other than the listener's.
\<close>

definition listener_name :: "host_policy \<Rightarrow> string \<Rightarrow> bool" where
  "listener_name hosts name \<longleftrightarrow>
     (case hp_pinned_ip hosts of
        None \<Rightarrow> List.map ascii_lower name = ''localhost'' \<or> name = ''127.0.0.1'' \<or> name = ''::1''
      | Some ip \<Rightarrow> parse_ip_addr name = Some ip)"

definition names_listener :: "host_policy \<Rightarrow> string \<Rightarrow> bool" where
  "names_listener hosts host \<longleftrightarrow>
     (\<exists>name. listener_name hosts name \<and>
        (host = name \<or>
         (\<exists>digits. host = name @ '':'' @ digits \<and> parse_u16 digits = Some (hp_port hosts)) \<or>
         (\<exists>tail. host = ''['' @ name @ '']'' @ tail \<and>
            (\<forall>digits n. tail = '':'' @ digits \<longrightarrow> parse_u16 digits = Some n \<longrightarrow> n = hp_port hosts))))"

lemma rsplit_once_eq: "rsplit_once c s = Some (a, b) \<Longrightarrow> s = a @ [c] @ b"
proof -
  assume r: "rsplit_once c s = Some (a, b)"
  then have c: "c \<in> set (rev s)" and ab: "a = rev (tl (dropWhile (\<lambda>x. x \<noteq> c) (rev s)))"
    "b = rev (takeWhile (\<lambda>x. x \<noteq> c) (rev s))" by (auto simp: rsplit_once_def split: if_splits)
  from c have d: "dropWhile (\<lambda>x. x \<noteq> c) (rev s) \<noteq> []" by (simp add: dropWhile_eq_Nil_conv)
  then have "hd (dropWhile (\<lambda>x. x \<noteq> c) (rev s)) = c" using hd_dropWhile[OF d] by simp
  with d have "dropWhile (\<lambda>x. x \<noteq> c) (rev s) = c # rev a" using ab(1) by (metis list.collapse rev_rev_ident)
  with ab(2) have "rev s = rev b @ c # rev a" by (metis rev_rev_ident takeWhile_dropWhile_id)
  then have "rev (rev s) = rev (rev b @ c # rev a)" by (rule arg_cong)
  then show ?thesis by simp
qed

lemma split_once_eq: "split_once p s = Some (a, b) \<Longrightarrow> s = a @ p @ b"
  by (induction s arbitrary: a) (auto simp: strip_prefix_Some split: option.splits if_splits)

lemma host_allowed_listener:
  assumes "host_allowed hosts host"
  shows "names_listener hosts host"
proof -
  obtain name port where sp: "split_host_port host = (name, port)" by fastforce
  with assms have name: "listener_name hosts name" and port: "\<forall>n. port = Some n \<longrightarrow> n = hp_port hosts"
    by (auto simp: host_allowed_def listener_name_def is_loopback_name_def eq_ignore_ascii_case_def ascii_lower_def
        split: option.splits if_splits)
  show ?thesis
  proof (cases "strip_prefix ''['' host")
    case None
    show ?thesis
    proof (cases "rsplit_once (CHR '':'') host")
      case None': None
      with None sp name show ?thesis by (auto simp: split_host_port_def names_listener_def)
    next
      case (Some ab)
      obtain a b where ab: "ab = (a, b)" by fastforce
      show ?thesis
      proof (cases "parse_u16 b")
        case None': None
        with None Some sp ab name show ?thesis by (auto simp: split_host_port_def names_listener_def)
      next
        case n: (Some n)
        with None Some sp ab have "a = name" "port = Some n" by (auto simp: split_host_port_def)
        with n port rsplit_once_eq[of "CHR '':''" host a b] Some ab name show ?thesis
          unfolding names_listener_def by fastforce
      qed
    qed
  next
    case (Some rest)
    then have host: "host = ''['' @ rest" by (simp add: strip_prefix_Some)
    show ?thesis
    proof (cases "split_once '']'' rest")
      case None
      with Some sp name show ?thesis by (auto simp: split_host_port_def names_listener_def)
    next
      case (Some ab)
      obtain a b where ab: "ab = (a, b)" by fastforce
      with Some have rest: "rest = a @ '']'' @ b" using split_once_eq[of "'']''" rest a b] by simp
      have np: "name = a" "port = Option.bind (strip_prefix '':'' b) parse_u16"
        using sp Some ab \<open>strip_prefix ''['' host = Some rest\<close> by (auto simp: split_host_port_def)
      have "\<forall>digits n. b = '':'' @ digits \<longrightarrow> parse_u16 digits = Some n \<longrightarrow> n = hp_port hosts"
        using port np(2) by auto
      with host rest np(1) name show ?thesis unfolding names_listener_def by blast
    qed
  qed
qed

text \<open>An origin that names the listener: \<open>http\<close> or \<open>https\<close>, and a host as above; never \<open>null\<close>.\<close>

lemma origin_allowed_listener:
  assumes "origin_allowed hosts origin"
  shows "\<exists>host. (origin = ''http://'' @ host \<or> origin = ''https://'' @ host) \<and> names_listener hosts host"
  using assms host_allowed_listener
  by (auto simp: origin_allowed_def strip_prefix_Some split: if_splits option.splits)

text \<open>A port after a bracketed address that does not parse is dropped, and the host answered.\<close>

lemma bracketed_port_ignored:
  "parse_u16 digits = None \<Longrightarrow> host_allowed (loopback_policy port) (''[::1]:'' @ digits)"
  by (simp add: host_allowed_def loopback_policy_def split_host_port_def is_loopback_name_def)

text \<open>An \<open>Origin\<close> that is not visible ASCII is treated as none at all.\<close>

lemma opaque_origin_passes:
  "wire_check hosts (hreq\<lparr>hr_header := (hr_header hreq)(''origin'' \<mapsto> Header_Opaque)\<rparr>) =
     wire_check hosts (hreq\<lparr>hr_header := (hr_header hreq)(''origin'' := None)\<rparr>)"
  by (simp add: wire_check_def content_type_ok_for_write_def)

subsection \<open>Who is served\<close>

lemma apply_step_cookie_name [simp]: "sm_cookie_name (apply_step x m) = sm_cookie_name m"
  by (cases x) (auto simp: manager_defs Let_def split: option.splits prod.splits if_splits)

lemma run_steps_cookie_name [simp]: "sm_cookie_name (run_steps xs m) = sm_cookie_name m"
  by (induction xs arbitrary: m) auto

lemma new_for_port_cookie_name [simp]:
  "sm_cookie_name (new_for_port has_file old port random_bytes written now) = session_cookie_name port"
  by (simp add: new_for_port_def write_token_file_def)

lemma require_auth_served:
  assumes "require_auth hosts clock hreq m = (Gate_Served sel, m')" "\<not> session_exempt (hr_path hreq) (hr_method hreq)"
  obtains sid s where "wire_check hosts hreq = None" "cookie_value hreq (sm_cookie_name m) = Some sid"
    "sm_sessions m sid = Some s" "snd clock < ss_expires_at s" "sel = selection_cell (fst clock) sid m"
    "is_state_changing (hr_method hreq) \<Longrightarrow> csrf_ok (ss_csrf s) hreq"
  using assms
  by (auto simp: require_auth_def validate_session_def Let_def split: option.splits prod.splits if_splits)

text \<open>
  C4: no request reaches a handler unless its sender signed in. When the gate of either listener, the
  loopback one or the one of the LAN, serves a path that is not one of the two public ones, then, whatever
  the server has done since it started: the Host spells the listener's own name (a loopback name, or the
  pinned address), alone or with the listener's port (after a bracketed name a port that is no number is
  passed over); an Origin, when one is sent that is visible ASCII, is http or https with such a host;
  the cookie of this server's port names a session that an exchange of a then-current token opened, that
  was not signed out since and was used within the idle time; a request that changes state also carries
  that session's CSRF token and no content type but JSON; and what it acts on is the selection of that
  session.
\<close>

theorem served_request_is_authorised:
  assumes "m = new_for_port has_file old port random_bytes written started"
    and "hosts = loopback_policy port \<or> hosts = lan_policy ip port"
    and "require_auth hosts clock hreq (run_steps steps m) = (Gate_Served sel, m')"
    and "\<not> session_exempt (hr_path hreq) (hr_method hreq)" "fst clock \<le> snd clock"
  shows "\<exists>host sid s t. header_text (hr_header hreq ''host'') = Some host \<and> names_listener hosts host \<and>
    (case header_text (hr_header hreq ''origin'') of
       None \<Rightarrow> True
     | Some origin \<Rightarrow>
         \<exists>own. (origin = ''http://'' @ own \<or> origin = ''https://'' @ own) \<and> names_listener hosts own) \<and>
    cookie_value hreq (session_cookie_name port) = Some sid \<and>
    sm_sessions (run_steps steps m) sid = Some s \<and> opened_by m steps sid (ss_csrf s) t \<and>
    snd clock < t + session_idle_ttl \<and> sel = Some (ss_selection s) \<and>
    (is_state_changing (hr_method hreq) \<longrightarrow>
       header_text (hr_header hreq csrf_header) = Some (ss_csrf s) \<and> content_type_ok_for_write hreq)"
proof -
  from require_auth_served[OF assms(3,4)] obtain sid s where r: "wire_check hosts hreq = None"
    "cookie_value hreq (sm_cookie_name (run_steps steps m)) = Some sid" "sm_sessions (run_steps steps m) sid = Some s"
    "snd clock < ss_expires_at s" "sel = selection_cell (fst clock) sid (run_steps steps m)"
    "is_state_changing (hr_method hreq) \<Longrightarrow> csrf_ok (ss_csrf s) hreq" by blast
  obtain t where t: "opened_by m steps sid (ss_csrf s) t" "ss_expires_at s = t + session_idle_ttl"
    using live_session_opened[OF _ r(3)] assms(1) by auto
  obtain host where h: "header_text (hr_header hreq ''host'') = Some host" "names_listener hosts host"
    using r(1) host_allowed_listener by (auto simp: wire_check_def split: if_splits option.splits)
  have "pred_option (origin_allowed hosts) (header_text (hr_header hreq ''origin''))"
    using r(1) by (auto simp: wire_check_def split: if_splits option.splits)
  then have o': "case header_text (hr_header hreq ''origin'') of None \<Rightarrow> True
     | Some origin \<Rightarrow> \<exists>own. (origin = ''http://'' @ own \<or> origin = ''https://'' @ own) \<and> names_listener hosts own"
    using origin_allowed_listener by (cases "header_text (hr_header hreq ''origin'')") simp_all
  have w: "is_state_changing (hr_method hreq) \<longrightarrow> content_type_ok_for_write hreq"
    using r(1) by (auto simp: wire_check_def split: if_splits)
  have sel: "sel = Some (ss_selection s)"
    using r(3-5) assms(5) by (simp add: selection_cell_def)
  have c: "is_state_changing (hr_method hreq) \<longrightarrow> header_text (hr_header hreq csrf_header) = Some (ss_csrf s)"
    using r(6) by (auto simp: csrf_ok_def split: option.splits)
  have "cookie_value hreq (session_cookie_name port) = Some sid" using r(2) assms(1) by simp
  moreover have "snd clock < t + session_idle_ttl" using r(4) t(2) by simp
  ultimately show ?thesis using h o' w sel c r(3) t(1) by blast
qed

text \<open>Every live session has a cell of its own, and no cell is ever given out twice.\<close>

definition cells_ok :: "session_manager \<Rightarrow> bool" where
  "cells_ok m \<longleftrightarrow>
     (\<forall>sid s. sm_sessions m sid = Some s \<longrightarrow> ss_selection s < sm_next_cell m) \<and>
     (\<forall>a b s s'. sm_sessions m a = Some s \<longrightarrow> sm_sessions m b = Some s' \<longrightarrow> ss_selection s = ss_selection s' \<longrightarrow> a = b)"

lemma apply_step_next_cell: "sm_next_cell m \<le> sm_next_cell (apply_step x m)"
  by (cases x) (auto simp: manager_defs Let_def split: option.splits prod.splits if_splits)

lemma apply_step_cells:
  assumes "sm_sessions (apply_step x m) sid = Some s"
  shows "(\<exists>s0. sm_sessions m sid = Some s0 \<and> ss_selection s0 = ss_selection s) \<or>
    (\<exists>clock d w c. x = Step_Exchange clock d w c \<and> sid = mint_secret (dr_id d)) \<and>
      ss_selection s = sm_next_cell m \<and> sm_next_cell (apply_step x m) = Suc (sm_next_cell m)"
  using assms by (cases x) (auto simp: manager_defs Let_def split: option.splits prod.splits if_splits)

lemma cells_ok_step:
  assumes "cells_ok m"
  shows "cells_ok (apply_step x m)"
  unfolding cells_ok_def
proof (intro conjI allI impI)
  fix sid s assume "sm_sessions (apply_step x m) sid = Some s"
  from apply_step_cells[OF this] show "ss_selection s < sm_next_cell (apply_step x m)"
    using assms apply_step_next_cell[of m x] by (fastforce simp: cells_ok_def)
next
  fix a b s s'
  assume s: "sm_sessions (apply_step x m) a = Some s" "sm_sessions (apply_step x m) b = Some s'"
    "ss_selection s = ss_selection s'"
  have old: "sm_sessions m c = Some u \<Longrightarrow> ss_selection u \<noteq> sm_next_cell m" for c u
    using assms by (fastforce simp: cells_ok_def)
  from apply_step_cells[OF s(1)] apply_step_cells[OF s(2)] show "a = b"
    using s(3) old assms unfolding cells_ok_def by (metis session_step.inject(1))
qed

interpretation manager: run_invariant apply_step cells_ok "\<lambda>_. True"
  by unfold_locales (rule cells_ok_step)

lemma cells_ok_run: "cells_ok m \<Longrightarrow> cells_ok (run_steps xs m)"
  by (simp add: run_steps_def manager.run_inv)

lemma cells_ok_start: "cells_ok (new_for_port has_file old port random_bytes written now)"
  by (simp add: cells_ok_def new_for_port_def write_token_file_def)

text \<open>A cell that was already given out is held by the session that held it, or by none.\<close>

lemma old_cell_old_session:
  assumes "sm_sessions (run_steps xs m) sid = Some s" "ss_selection s < sm_next_cell m"
  shows "\<exists>s0. sm_sessions m sid = Some s0 \<and> ss_selection s0 = ss_selection s"
  using assms
proof (induction xs arbitrary: m)
  case (Cons x xs)
  have n: "sm_next_cell m \<le> sm_next_cell (apply_step x m)" by (rule apply_step_next_cell)
  from Cons.prems n obtain s1 where s1: "sm_sessions (apply_step x m) sid = Some s1" "ss_selection s1 = ss_selection s"
    using Cons.IH[of "apply_step x m"] by auto
  from apply_step_cells[OF s1(1)] s1(2) Cons.prems(2) show ?case by auto
qed simp

lemma run_steps_next_cell: "sm_next_cell m \<le> sm_next_cell (run_steps xs m)"
  by (induction xs arbitrary: m) (auto intro: order.trans[OF apply_step_next_cell])

lemma earlier_prefix: "i \<le> j \<Longrightarrow> \<exists>ys. take j steps = take i steps @ ys"
  by (metis append_take_drop_id min.absorb1 take_take)

lemma same_cell_same_session:
  assumes "cells_ok m" "i \<le> j"
    and "sm_sessions (run_steps (take i steps) m) a = Some s" "sm_sessions (run_steps (take j steps) m) b = Some s'"
    and "ss_selection s = ss_selection s'"
  shows "a = b"
proof -
  let ?m = "run_steps (take i steps) m"
  from earlier_prefix[OF assms(2)] obtain ys where ys: "take j steps = take i steps @ ys" by blast
  have ok: "cells_ok ?m" by (rule cells_ok_run[OF assms(1)])
  with assms(3) have "ss_selection s < sm_next_cell ?m" by (auto simp: cells_ok_def)
  with old_cell_old_session[of ys ?m b s'] assms(4,5) ys obtain s0
    where "sm_sessions ?m b = Some s0" "ss_selection s0 = ss_selection s" by auto
  with ok assms(3) show ?thesis unfolding cells_ok_def by metis
qed

text \<open>
  C37: a repository chosen in one session is never the choice of another. Two requests that are served
  on the same selection, at any two moments of a run, carry the same session id; and a session that is
  opened starts with a cell that no session has had at any moment of the run, signed out or not.
\<close>

theorem selection_is_private:
  assumes "start = new_for_port has_file old port random_bytes written started"
  shows "(\<forall>i j t t' a b cell. selection_cell t a (run_steps (take i steps) start) = Some cell \<longrightarrow>
      selection_cell t' b (run_steps (take j steps) start) = Some cell \<longrightarrow> a = b) \<and>
    (\<forall>clock d w candidate s m'. exchange clock d w candidate (run_steps steps start) = (Some s, m') \<longrightarrow>
      (\<exists>cell. map_option ss_selection (sm_sessions m' (ns_id s)) = Some cell \<and>
        (\<forall>i a u. sm_sessions (run_steps (take i steps) start) a = Some u \<longrightarrow> ss_selection u \<noteq> cell)))"
proof -
  have ok: "cells_ok start" using assms cells_ok_start by blast
  have cell: "selection_cell t a m = Some cell \<Longrightarrow> \<exists>s. sm_sessions m a = Some s \<and> ss_selection s = cell" for t a cell m
    by (auto simp: selection_cell_def split: option.splits if_splits)
  have "a = b" if s: "selection_cell t a (run_steps (take i steps) start) = Some cell"
    "selection_cell t' b (run_steps (take j steps) start) = Some cell" for i j t t' a b cell
    using cell[OF s(1)] cell[OF s(2)] same_cell_same_session[OF ok, of i j steps] same_cell_same_session[OF ok, of j i steps]
    by (metis nat_le_linear)
  moreover have "ss_selection u \<noteq> sm_next_cell (run_steps steps start)"
    if "sm_sessions (run_steps (take i steps) start) a = Some u" for i a u
  proof -
    have "ss_selection u < sm_next_cell (run_steps (take i steps) start)"
      using cells_ok_run[OF ok] that by (auto simp: cells_ok_def)
    moreover have "run_steps steps start = run_steps (drop i steps) (run_steps (take i steps) start)"
      by (metis append_take_drop_id run_steps_simps(3))
    ultimately show ?thesis using run_steps_next_cell[of "run_steps (take i steps) start" "drop i steps"] by simp
  qed
  ultimately show ?thesis
    by (auto simp: exchange_success open_session_def rotate_bootstrap_def write_token_file_def simp del: run_steps_simps)
qed

subsection \<open>The table and the gate\<close>

text \<open>
  What any router of such templates guarantees: a path it gives to a template without parameters is
  that template; one it gives to a template with parameters begins with the text before the first of
  them, and goes on.
\<close>

definition literal_part :: "string \<Rightarrow> string" where
  "literal_part template = takeWhile (\<lambda>c. c \<noteq> CHR ''{'') template"

definition may_route :: "string \<Rightarrow> string \<Rightarrow> bool" where
  "may_route template path \<longleftrightarrow>
     (if CHR ''{'' \<in> set template then \<exists>rest. rest \<noteq> [] \<and> path = literal_part template @ rest else path = template)"

definition needs :: "string \<Rightarrow> http_method \<Rightarrow> authz" where
  "needs path m =
     (if session_exempt path m then Authz_Unauthenticated
      else if is_state_changing m then Authz_SessionAndCsrf else Authz_SessionRequired)"

definition row_agrees :: "string \<times> http_method \<times> authz \<Rightarrow> bool" where
  "row_agrees row =
     (case row of (template, m, a) \<Rightarrow>
        if CHR ''{'' \<in> set template
        then strip_prefix (literal_part template) negotiation_path = None \<and>
             strip_prefix (literal_part template) session_path = None \<and>
             a = (if is_state_changing m then Authz_SessionAndCsrf else Authz_SessionRequired)
        else a = needs template m)"

lemma rows_agree: "list_all row_agrees route_authz"
  by code_simp

lemma row_agrees_routed: "row_agrees (template, m, a) \<Longrightarrow> may_route template path \<Longrightarrow> a = needs path m"
proof (cases "CHR ''{'' \<in> set template")
  case True
  assume r: "row_agrees (template, m, a)" "may_route template path"
  from r(2) True obtain rest where "path = literal_part template @ rest" by (auto simp: may_route_def)
  moreover have "\<forall>r. negotiation_path \<noteq> literal_part template @ r" "\<forall>r. session_path \<noteq> literal_part template @ r"
    using r(1) True by (simp_all add: row_agrees_def strip_prefix_None)
  ultimately have "path \<noteq> negotiation_path" "path \<noteq> session_path" by metis+
  with r(1) True show ?thesis by (simp add: row_agrees_def needs_def session_exempt_def)
qed (simp add: row_agrees_def may_route_def)

lemma needs_gate:
  "needs path m = Authz_Unauthenticated \<longleftrightarrow> session_exempt path m"
  "needs path m = Authz_SessionAndCsrf \<longleftrightarrow> \<not> session_exempt path m \<and> is_state_changing m"
  by (auto simp: needs_def)

lemma require_auth_serves_iff:
  "(\<exists>sel. fst (require_auth hosts clock hreq m) = Gate_Served sel) \<longleftrightarrow>
     wire_check hosts hreq = None \<and>
     (\<not> session_exempt (hr_path hreq) (hr_method hreq) \<longrightarrow>
        (\<exists>sid csrf. cookie_value hreq (sm_cookie_name m) = Some sid \<and>
           fst (validate_session (snd clock) sid m) = Some csrf \<and>
           (\<not> session_exempt (hr_path hreq) (hr_method hreq) \<and> is_state_changing (hr_method hreq) \<longrightarrow> csrf_ok csrf hreq)))"
proof (cases "wire_check hosts hreq")
  case None
  show ?thesis
  proof (cases "session_exempt (hr_path hreq) (hr_method hreq)")
    case False
    show ?thesis
    proof (cases "cookie_value hreq (sm_cookie_name m)")
      case (Some sid)
      obtain csrf m' where "validate_session (snd clock) sid m = (csrf, m')" by fastforce
      with None False Some show ?thesis by (cases csrf) (simp_all add: require_auth_def)
    qed (simp add: require_auth_def None False)
  qed (simp add: require_auth_def None)
qed (auto simp: require_auth_def)

text \<open>
  C18: the gate demands of every request what the table says of its route. For each row and every path
  a router can give to it, a row without authentication is exactly one the gate exempts, and any other
  row lets a request through exactly when the wire checks pass and its cookie names a live session,
  with that session's CSRF token where the row asks for it. The table lists no route twice and exempts
  the three pinned routes and no others.
\<close>

theorem route_table_matches_gate:
  assumes "(template, hr_method hreq, a) \<in> set route_authz" "may_route template (hr_path hreq)"
  shows "((\<exists>sel. fst (require_auth hosts clock hreq m) = Gate_Served sel) \<longleftrightarrow>
      wire_check hosts hreq = None \<and>
      (a \<noteq> Authz_Unauthenticated \<longrightarrow>
         (\<exists>sid csrf. cookie_value hreq (sm_cookie_name m) = Some sid \<and>
            fst (validate_session (snd clock) sid m) = Some csrf \<and>
            (a = Authz_SessionAndCsrf \<longrightarrow> csrf_ok csrf hreq)))) \<and>
    distinct (map (\<lambda>(t, q, b). (t, q)) route_authz) \<and>
    map (\<lambda>(t, q, b). (t, q)) (filter (\<lambda>(t, q, b). b = Authz_Unauthenticated) route_authz) = expected_unauthenticated"
proof -
  have a: "a = needs (hr_path hreq) (hr_method hreq)"
    using row_agrees_routed[OF _ assms(2)] rows_agree assms(1) by (auto simp: list_all_iff)
  have "distinct (map (\<lambda>(t, q, b). (t, q)) route_authz)" by code_simp
  moreover have "map (\<lambda>(t, q, b). (t, q)) (filter (\<lambda>(t, q, b). b = Authz_Unauthenticated) route_authz) = expected_unauthenticated"
    by code_simp
  moreover have "(\<exists>sel. fst (require_auth hosts clock hreq m) = Gate_Served sel) \<longleftrightarrow>
      wire_check hosts hreq = None \<and>
      (a \<noteq> Authz_Unauthenticated \<longrightarrow>
         (\<exists>sid csrf. cookie_value hreq (sm_cookie_name m) = Some sid \<and>
            fst (validate_session (snd clock) sid m) = Some csrf \<and>
            (a = Authz_SessionAndCsrf \<longrightarrow> csrf_ok csrf hreq)))"
    using require_auth_serves_iff[of hosts clock hreq m] unfolding a needs_gate by blast
  ultimately show ?thesis by blast
qed

subsection \<open>A write through the gate\<close>

definition sample_request :: http_request where
  "sample_request = \<lparr>hr_method = POST, hr_path = ''/api/commit'', hr_query = None,
     hr_header = map_of [(''host'', Header_Text ''LocalHost:8081''),
       (''cookie'', Header_Text (''a=b; gv_session_8081='' @ concat (replicate 32 ''03''))),
       (csrf_header, Header_Text (concat (replicate 32 ''04''))),
       (''content-type'', Header_Text ''application/json'')]\<rparr>"

abbreviation sample_run :: "session_step list" where
  "sample_run \<equiv> [Step_Exchange (2, 3, 4) sample_drawn True sample_token]"

lemma sample_wire: "wire_check (loopback_policy 8081) sample_request = None"
  by code_simp

lemma sample_cookie: "cookie_value sample_request ''gv_session_8081'' = Some (concat (replicate 32 ''03''))"
  by code_simp

lemma sample_write: "is_state_changing (hr_method sample_request)" "\<not> session_exempt (hr_path sample_request) (hr_method sample_request)"
  by (code_simp, code_simp)

lemma sample_csrf: "csrf_ok (concat (replicate 32 ''04'')) sample_request"
  by code_simp

lemma sample_cookie_name: "session_cookie_name 8081 = ''gv_session_8081''"
  by code_simp

lemma sample_run_name: "sm_cookie_name (run_steps sample_run sample_start) = ''gv_session_8081''"
  by (simp only: run_steps_cookie_name sample_start_def new_for_port_cookie_name sample_cookie_name)

lemma sample_session:
  "sm_sessions (run_steps sample_run sample_start) =
     [concat (replicate 32 ''03'') \<mapsto> \<lparr>ss_csrf = concat (replicate 32 ''04''), ss_expires_at = 4 + session_idle_ttl, ss_selection = 0\<rparr>]"
  by (simp add: exchange_def token_valid_def sample_start_token Let_def sample_drawn_def sample_secrets
      bootstrap_ttl_def from_secs_def open_session_def rotate_bootstrap_def write_token_file_def)
     (simp add: sample_start_def new_for_port_def write_token_file_def)

lemma sample_request_served: "fst (require_auth (loopback_policy 8081) (5, 5) sample_request (run_steps sample_run sample_start)) = Gate_Served (Some 0)"
proof -
  show ?thesis
    using sample_run_name sample_cookie sample_write sample_csrf
    by (simp add: require_auth_def sample_wire validate_session_def selection_cell_def sample_session
        session_idle_ttl_def session_max_age_secs_def from_secs_def del: run_steps_simps)
qed

lemma host_policy_exact_witness:
  "\<not> host_allowed (loopback_policy 8081) (''evil.example'' @ '':'' @ ''8081'') \<and>
   host_allowed (loopback_policy 8081) (''LocalHost'' @ '':'' @ ''8081'')"
proof -
  have n: "\<not> is_loopback_name ''evil.example''" "is_loopback_name ''LocalHost''" "parse_u16 ''8081'' = Some 8081"
    by (code_simp, code_simp, code_simp)
  show ?thesis
    using host_policy_exact[of "''evil.example''" "''8081''" 8081] host_policy_exact[of "''LocalHost''" "''8081''" 8081] n
    by simp
qed

lemma served_request_is_authorised_witness:
  "\<exists>t. opened_by sample_start sample_run (concat (replicate 32 ''03'')) (concat (replicate 32 ''04'')) t \<and> 5 < t + session_idle_ttl"
proof -
  obtain m' where "require_auth (loopback_policy 8081) (5, 5) sample_request (run_steps sample_run sample_start) = (Gate_Served (Some 0), m')"
    using sample_request_served by (metis prod.collapse)
  from served_request_is_authorised[OF sample_start_def _ this sample_write(2)] show ?thesis
    using sample_cookie by (auto simp: sample_session sample_cookie_name simp del: run_steps_simps)
qed

lemma selection_is_private_witness:
  "selection_cell 5 (concat (replicate 32 ''03'')) (run_steps sample_run sample_start) = Some 0 \<and>
   selection_cell 5 ''guess'' (run_steps sample_run sample_start) \<noteq> Some 0"
proof -
  let ?m = "run_steps sample_run sample_start"
  have own: "selection_cell 5 (concat (replicate 32 ''03'')) ?m = Some 0"
    by (simp add: selection_cell_def sample_session session_idle_ttl_def session_max_age_secs_def from_secs_def
        del: run_steps_simps)
  have "?m = run_steps (take 1 sample_run) sample_start" by (simp del: run_steps_simps)
  with conjunct1[OF selection_is_private[OF sample_start_def, of sample_run]]
  have only: "selection_cell 5 a ?m = Some 0 \<Longrightarrow> selection_cell 5 b ?m = Some 0 \<Longrightarrow> a = b" for a b by metis
  have "concat (replicate 32 ''03'') \<noteq> ''guess''" by code_simp
  with only[OF own] own show ?thesis by blast
qed

lemma route_table_matches_gate_witness:
  "\<exists>sid csrf. cookie_value sample_request ''gv_session_8081'' = Some sid \<and>
     fst (validate_session 5 sid (run_steps sample_run sample_start)) = Some csrf \<and> csrf_ok csrf sample_request"
proof -
  have row: "(''/api/commit'', hr_method sample_request, Authz_SessionAndCsrf) \<in> set route_authz"
    "may_route ''/api/commit'' (hr_path sample_request)"
    by (simp add: route_authz_def sample_request_def) (simp add: may_route_def sample_request_def)
  from sample_run_name route_table_matches_gate[OF row, of "loopback_policy 8081" "(5, 5)" "run_steps sample_run sample_start"] sample_request_served
  show ?thesis by (auto simp del: run_steps_simps)
qed

end
