(* ===== verification/Shim.thy ===== *)
theory Shim imports Access begin

text \<open>
  The sandbox launcher \<open>gv-sandbox\<close> (\<open>git-vista-server/src/bin/gv-sandbox/imp/mod.rs\<close> and
  \<open>imp/seccomp_filter.rs\<close>): the command line it accepts, the walk that turns trees and exclusions into
  Landlock rules, and the order in which it restricts itself before it becomes git. Its arguments are
  taken to be UTF-8, as all strings here are: \<open>std::env::args\<close> panics on any other.

  The operating system is a parameter, the record \<open>host\<close>: what \<open>canonicalize\<close>, \<open>metadata\<close>, \<open>read_dir\<close>,
  \<open>open\<close> and the Landlock and seccomp calls answer. It does not change while the launcher runs.
  Every \<open>die\<close> is a value of \<open>shim_stop\<close> with its exit code; the wording printed beside it is left out.
  The walk takes a bound on its depth; \<open>walk_returns\<close> shows how large a bound is always enough.
\<close>

subsection \<open>The operating system\<close>

datatype io_error = Not_Found string | Io_Other string

datatype file_type = Type_Dir | Type_File | Type_Symlink | Type_Other

datatype net_scope = Scope_Denied | Scope_Allowed | Scope_Checkout

text \<open>\<open>sh_open\<close> is \<open>open(O_PATH)\<close> followed by \<open>fstat\<close>: whether the object is a directory.\<close>

record host =
  sh_canonicalize :: "string \<Rightarrow> io_error + string"
  sh_metadata :: "string \<Rightarrow> io_error + file_type \<times> nat"
  sh_symlink_metadata :: "string \<Rightarrow> io_error + file_type"
  sh_read_dir :: "string \<Rightarrow> string list option"
  sh_open :: "string \<Rightarrow> string + (string + bool)"
  sh_abi :: int
  sh_create_ruleset :: "string option"
  sh_add_path :: "string \<Rightarrow> u64 \<Rightarrow> string option"
  sh_add_port :: "u16 \<Rightarrow> string option"
  sh_no_new_privs :: bool
  sh_restrict_self :: "string option"
  sh_seccomp :: "net_scope \<Rightarrow> string option"

subsection \<open>Access rights\<close>

definition a_execute :: u64 where "a_execute = push_bit 0 1"
definition a_write_file :: u64 where "a_write_file = push_bit 1 1"
definition a_read_file :: u64 where "a_read_file = push_bit 2 1"
definition a_read_dir :: u64 where "a_read_dir = push_bit 3 1"
definition a_remove_dir :: u64 where "a_remove_dir = push_bit 4 1"
definition a_remove_file :: u64 where "a_remove_file = push_bit 5 1"
definition a_make_dir :: u64 where "a_make_dir = push_bit 7 1"
definition a_make_reg :: u64 where "a_make_reg = push_bit 8 1"
definition a_make_sock :: u64 where "a_make_sock = push_bit 9 1"
definition a_make_fifo :: u64 where "a_make_fifo = push_bit 10 1"
definition a_make_sym :: u64 where "a_make_sym = push_bit 12 1"
definition a_truncate :: u64 where "a_truncate = push_bit 14 1"
definition a_ioctl_dev :: u64 where "a_ioctl_dev = push_bit 15 1"

lemmas access_bits = a_execute_def a_write_file_def a_read_file_def a_read_dir_def a_remove_dir_def
  a_remove_file_def a_make_dir_def a_make_reg_def a_make_sock_def a_make_fifo_def a_make_sym_def
  a_truncate_def a_ioctl_dev_def

unbundle bit_operations_syntax

definition rw_access :: u64 where
  "rw_access = a_execute OR a_write_file OR a_read_file OR a_read_dir OR a_remove_dir OR a_remove_file OR
     a_make_dir OR a_make_reg OR a_make_sock OR a_make_fifo OR a_make_sym OR a_truncate"

definition ro_dir_access :: u64 where
  "ro_dir_access = a_execute OR a_read_file OR a_read_dir"

definition access_file :: u64 where
  "access_file = a_execute OR a_write_file OR a_read_file OR a_truncate OR a_ioctl_dev"

definition rights_for_target :: "u64 \<Rightarrow> bool \<Rightarrow> u64" where
  "rights_for_target declared is_dir = (if is_dir then declared else declared AND access_file)"

subsection \<open>Refusals\<close>

datatype add_rule_error =
    Unopenable string
  | Unstattable string
  | NoApplicableRight u64
  | Refused u64 bool string

datatype carveout_error =
    Carve_Absent
  | Carve_Unresolvable string
  | Carve_NotAFile string
  | Carve_Symlinked string
  | Carve_Unstattable string
  | Carve_Refused add_rule_error

datatype shim_stop =
    Value_Missing string
  | Not_A_Number string
  | Not_Absolute string string
  | Unknown_Flag string
  | Flag_Missing string
  | Flags_Contradict string
  | Not_Git
  | Abi_Unavailable
  | Abi_Below_Floor int u32
  | Ruleset_Failed string
  | Exclude_Unresolved string string
  | Cannot_Grant string add_rule_error
  | Cannot_Carve string carveout_error
  | Port_Refused u16 string
  | Privileges_Kept
  | Restrict_Failed string
  | Filter_Failed string
  | Depth_Spent

fun exit_code :: "shim_stop \<Rightarrow> nat" where
  "exit_code Abi_Unavailable = 91"
| "exit_code (Abi_Below_Floor abi floor) = 91"
| "exit_code (Ruleset_Failed e) = 92"
| "exit_code (Exclude_Unresolved p e) = 92"
| "exit_code (Cannot_Grant p e) = 92"
| "exit_code (Cannot_Carve p e) = 92"
| "exit_code (Port_Refused p e) = 92"
| "exit_code Privileges_Kept = 92"
| "exit_code (Restrict_Failed e) = 92"
| "exit_code (Filter_Failed e) = 93"
| "exit_code stop = 90"

subsection \<open>The command line\<close>

record shim_args =
  ag_abi_floor :: "u32 option"
  ag_rw :: "string list"
  ag_ro :: "string list"
  ag_excludes :: "string list"
  ag_ro_carveouts :: "string list"
  ag_net_ports :: "u16 list"
  ag_net_allow :: "bool option"
  ag_seccomp_checkout :: bool
  ag_hooks_blocked_dir :: "string option"
  ag_hooks_seen :: bool
  ag_program_args :: "string list"

definition no_args :: shim_args where
  "no_args = \<lparr>ag_abi_floor = None, ag_rw = [], ag_ro = [], ag_excludes = [], ag_ro_carveouts = [],
     ag_net_ports = [], ag_net_allow = None, ag_seccomp_checkout = False, ag_hooks_blocked_dir = None,
     ag_hooks_seen = False, ag_program_args = []\<rparr>"

definition absolute :: "string \<Rightarrow> string \<Rightarrow> shim_stop + string" where
  "absolute s flag = (if is_absolute_path s then Inr s else Inl (Not_Absolute flag s))"

text \<open>The flags that take an absolute path, and the field each fills.\<close>

definition path_flag :: "string \<Rightarrow> (string \<Rightarrow> shim_args \<Rightarrow> shim_args) option" where
  "path_flag flag =
     (if flag = ''--rw'' then Some (\<lambda>p a. a\<lparr>ag_rw := ag_rw a @ [p]\<rparr>)
      else if flag = ''--ro'' then Some (\<lambda>p a. a\<lparr>ag_ro := ag_ro a @ [p]\<rparr>)
      else if flag = ''--exclude'' then Some (\<lambda>p a. a\<lparr>ag_excludes := ag_excludes a @ [p]\<rparr>)
      else if flag = ''--ro-carveout'' then Some (\<lambda>p a. a\<lparr>ag_ro_carveouts := ag_ro_carveouts a @ [p]\<rparr>)
      else if flag = ''--hooks-blocked''
        then Some (\<lambda>p a. a\<lparr>ag_hooks_seen := True, ag_hooks_blocked_dir := Some p\<rparr>)
      else None)"

text \<open>The flags that take a number, and those that take nothing.\<close>

definition number_flag :: "string \<Rightarrow> (string \<Rightarrow> shim_args \<Rightarrow> shim_args option) option" where
  "number_flag flag =
     (if flag = ''--abi-floor''
        then Some (\<lambda>v a. map_option (\<lambda>n. a\<lparr>ag_abi_floor := Some n\<rparr>) (parse_u32 v))
      else if flag = ''--net-port''
        then Some (\<lambda>v a. map_option (\<lambda>n. a\<lparr>ag_net_ports := ag_net_ports a @ [n]\<rparr>) (parse_u16 v))
      else None)"

definition bare_flag :: "string \<Rightarrow> (shim_args \<Rightarrow> shim_args) option" where
  "bare_flag flag =
     (if flag = ''--net-allow'' then Some (\<lambda>a. a\<lparr>ag_net_allow := Some True\<rparr>)
      else if flag = ''--net-deny'' then Some (\<lambda>a. a\<lparr>ag_net_allow := Some False\<rparr>)
      else if flag = ''--seccomp-checkout'' then Some (\<lambda>a. a\<lparr>ag_seccomp_checkout := True\<rparr>)
      else if flag = ''--hooks-run'' then Some (\<lambda>a. a\<lparr>ag_hooks_seen := True\<rparr>)
      else None)"

fun parse_shim :: "shim_args \<Rightarrow> string list \<Rightarrow> shim_stop + shim_args" where
  "parse_shim a [] = Inr a"
| "parse_shim a (flag # rest) =
     (if flag = ''--'' then Inr (a\<lparr>ag_program_args := rest\<rparr>)
      else case bare_flag flag of
        Some f \<Rightarrow> parse_shim (f a) rest
      | None \<Rightarrow>
          (case rest of
             [] \<Rightarrow>
               Inl (if path_flag flag = None \<and> number_flag flag = None then Unknown_Flag flag
                    else Value_Missing flag)
           | v # rest' \<Rightarrow>
               (case path_flag flag of
                  Some f \<Rightarrow>
                    (case absolute v flag of Inl e \<Rightarrow> Inl e | Inr p \<Rightarrow> parse_shim (f p a) rest')
                | None \<Rightarrow>
                    (case number_flag flag of
                       Some g \<Rightarrow>
                         (case g v a of None \<Rightarrow> Inl (Not_A_Number flag) | Some a' \<Rightarrow> parse_shim a' rest')
                     | None \<Rightarrow> Inl (Unknown_Flag flag)))))"

definition validate_args :: "shim_args \<Rightarrow> shim_stop option" where
  "validate_args a =
     (if ag_abi_floor a = None then Some (Flag_Missing ''--abi-floor'')
      else if \<not> ag_hooks_seen a then Some (Flag_Missing ''--hooks-run'')
      else case ag_net_allow a of
        None \<Rightarrow> Some (Flag_Missing ''--net-allow'')
      | Some net_allow \<Rightarrow>
          if \<not> net_allow \<and> ag_net_ports a \<noteq> [] then Some (Flags_Contradict ''--net-port'')
          else if \<not> net_allow \<and> ag_seccomp_checkout a then Some (Flags_Contradict ''--seccomp-checkout'')
          else if (case ag_program_args a of g # _ \<Rightarrow> g \<noteq> ''git'' | [] \<Rightarrow> True) then Some Not_Git
          else None)"

subsection \<open>Granting\<close>

datatype rule = Path_Rule string u64

definition add_path_rule :: "host \<Rightarrow> string \<Rightarrow> u64 \<Rightarrow> add_rule_error + u64" where
  "add_path_rule h path declared =
     (if CHR 0x00 \<in> set path then Inl (Unopenable ''invalid input'')
      else case sh_open h path of
        Inl e \<Rightarrow> Inl (Unopenable e)
      | Inr (Inl e) \<Rightarrow> Inl (Unstattable e)
      | Inr (Inr is_dir) \<Rightarrow>
          (let effective = rights_for_target declared is_dir in
           if effective = 0 then Inl (NoApplicableRight declared)
           else case sh_add_path h path effective of
             Some e \<Rightarrow> Inl (Refused effective is_dir e)
           | None \<Rightarrow> Inr effective))"

definition is_absent :: "add_rule_error \<Rightarrow> bool" where
  "is_absent e = (case e of Unopenable _ \<Rightarrow> True | _ \<Rightarrow> False)"

definition grant_one :: "host \<Rightarrow> string \<Rightarrow> u64 \<Rightarrow> shim_stop + rule list" where
  "grant_one h path declared =
     (case add_path_rule h path declared of
        Inr effective \<Rightarrow> Inr [Path_Rule path effective]
      | Inl e \<Rightarrow> if is_absent e then Inr [] else Inl (Cannot_Grant path e))"

definition add_carveout_rule :: "host \<Rightarrow> string \<Rightarrow> carveout_error + rule" where
  "add_carveout_rule h path =
     (case sh_symlink_metadata h path of
        Inr Type_Symlink \<Rightarrow> Inl (Carve_Symlinked path)
      | Inl (Not_Found e) \<Rightarrow> Inl Carve_Absent
      | Inl (Io_Other e) \<Rightarrow> Inl (Carve_Unresolvable e)
      | Inr _ \<Rightarrow>
          (case sh_canonicalize h path of
             Inl (Not_Found e) \<Rightarrow> Inl Carve_Absent
           | Inl (Io_Other e) \<Rightarrow> Inl (Carve_Unresolvable e)
           | Inr real \<Rightarrow>
               (case sh_metadata h real of
                  Inr (Type_File, nlink) \<Rightarrow>
                    (case add_path_rule h real ro_dir_access of
                       Inl e \<Rightarrow> Inl (Carve_Refused e)
                     | Inr effective \<Rightarrow> Inr (Path_Rule real effective))
                | Inr _ \<Rightarrow> Inl (Carve_NotAFile real)
                | Inl (Not_Found e) \<Rightarrow> Inl (Carve_Unstattable e)
                | Inl (Io_Other e) \<Rightarrow> Inl (Carve_Unstattable e))))"

definition grant_carveout :: "host \<Rightarrow> string \<Rightarrow> shim_stop + rule list" where
  "grant_carveout h path =
     (case add_carveout_rule h path of
        Inr r \<Rightarrow> Inr [r]
      | Inl e \<Rightarrow> if e = Carve_Absent then Inr [] else Inl (Cannot_Carve path e))"

text \<open>\<open>Path::starts_with\<close>, component by component.\<close>

definition path_starts_with :: "string \<Rightarrow> string \<Rightarrow> bool" where
  "path_starts_with p base \<longleftrightarrow>
     take (length (path_components base)) (path_components p) = path_components base"

definition is_or_inside_exclude :: "string \<Rightarrow> string list \<Rightarrow> bool" where
  "is_or_inside_exclude p excludes \<longleftrightarrow> list_ex (\<lambda>e. path_eq p e \<or> path_starts_with p e) excludes"

definition is_ancestor_of_exclude :: "string \<Rightarrow> string list \<Rightarrow> bool" where
  "is_ancestor_of_exclude p excludes \<longleftrightarrow> list_ex (\<lambda>e. \<not> path_eq e p \<and> path_starts_with e p) excludes"

text \<open>A loop over the entries that stops at the first refusal and gathers the rules of the others.\<close>

fun gather :: "('a \<Rightarrow> 'e + 'r list) \<Rightarrow> 'a list \<Rightarrow> 'e + 'r list" where
  "gather f [] = Inr []"
| "gather f (x # xs) =
     (case f x of
        Inl e \<Rightarrow> Inl e
      | Inr rs \<Rightarrow> (case gather f xs of Inl e \<Rightarrow> Inl e | Inr rest \<Rightarrow> Inr (rs @ rest)))"

text \<open>A symbolic link that must not be granted: its target leaves the tree or holds an exclusion.\<close>

definition disqualified_link :: "host \<Rightarrow> string \<Rightarrow> string \<Rightarrow> string list \<Rightarrow> string \<Rightarrow> bool" where
  "disqualified_link h path root excludes real \<longleftrightarrow>
     sh_symlink_metadata h path = Inr Type_Symlink \<and>
     (\<not> path_starts_with real root \<or> path_eq real ''/'' \<or> path_eq real ''/home'' \<or> path_eq real root \<or>
      is_ancestor_of_exclude real excludes)"

fun enumerate_dir :: "nat \<Rightarrow> host \<Rightarrow> string \<Rightarrow> u64 \<Rightarrow> string list \<Rightarrow> string \<Rightarrow> shim_stop + rule list" where
  "enumerate_dir 0 h root access excludes dir = Inl Depth_Spent"
| "enumerate_dir (Suc depth) h root access excludes dir =
     (case sh_read_dir h dir of
        None \<Rightarrow> Inr []
      | Some names \<Rightarrow>
          gather (\<lambda>name.
            (let path = path_join dir name in
             case sh_canonicalize h path of
               Inl e \<Rightarrow> Inr []
             | Inr real \<Rightarrow>
                 if is_or_inside_exclude real excludes then Inr []
                 else case sh_metadata h path of
                   Inl e \<Rightarrow> Inr []
                 | Inr (kind, nlink) \<Rightarrow>
                     if kind = Type_Dir \<and> is_ancestor_of_exclude real excludes
                     then enumerate_dir depth h root access excludes path
                     else if kind = Type_File \<and> 1 < nlink then Inr []
                     else if disqualified_link h path root excludes real then Inr []
                     else grant_one h path access))
          names)"

definition grant_tree :: "nat \<Rightarrow> host \<Rightarrow> u64 \<Rightarrow> string list \<Rightarrow> string \<Rightarrow> shim_stop + rule list" where
  "grant_tree depth h access excludes tree =
     (case sh_canonicalize h tree of
        Inl e \<Rightarrow> Inr []
      | Inr real_tree \<Rightarrow>
          if is_or_inside_exclude real_tree excludes then Inr []
          else if \<not> is_ancestor_of_exclude real_tree excludes then grant_one h real_tree access
          else enumerate_dir depth h real_tree access excludes real_tree)"

definition resolve_excludes :: "host \<Rightarrow> string list \<Rightarrow> shim_stop + string list" where
  "resolve_excludes h raw =
     gather (\<lambda>e. case sh_canonicalize h e of
         Inr p \<Rightarrow> Inr [p]
       | Inl (Not_Found why) \<Rightarrow> Inr []
       | Inl (Io_Other why) \<Rightarrow> Inl (Exclude_Unresolved e why)) raw"

subsection \<open>Restricting the process\<close>

text \<open>Rust's \<open>?\<close>, and \<open>die\<close>, which ends the launcher at once.\<close>

definition and_then :: "'e + 'a \<Rightarrow> ('a \<Rightarrow> 'e + 'b) \<Rightarrow> 'e + 'b" where
  "and_then r f = (case r of Inl e \<Rightarrow> Inl e | Inr x \<Rightarrow> f x)"

definition stop_unless :: "'e \<Rightarrow> bool \<Rightarrow> 'e + unit" where
  "stop_unless e b = (if b then Inr () else Inl e)"

definition stop_on :: "(string \<Rightarrow> 'e) \<Rightarrow> string option \<Rightarrow> 'e + unit" where
  "stop_on f failure = (case failure of Some e \<Rightarrow> Inl (f e) | None \<Rightarrow> Inr ())"

definition add_net_rule :: "host \<Rightarrow> u16 \<Rightarrow> shim_stop + u16 list" where
  "add_net_rule h port = and_then (stop_on (Port_Refused port) (sh_add_port h port)) (\<lambda>_. Inr [port])"

record ruleset =
  rs_rules :: "rule list"
  rs_ports :: "u16 list"

definition check_abi :: "host \<Rightarrow> shim_args \<Rightarrow> shim_stop + unit" where
  "check_abi h a =
     (case ag_abi_floor a of
        None \<Rightarrow> Inl (Flag_Missing ''--abi-floor'')
      | Some floor \<Rightarrow>
          and_then (stop_unless Abi_Unavailable (0 \<le> sh_abi h)) (\<lambda>_.
          stop_unless (Abi_Below_Floor (sh_abi h) floor) (unat floor \<le> nat (sh_abi h))))"

definition apply_landlock :: "nat \<Rightarrow> host \<Rightarrow> shim_args \<Rightarrow> shim_stop + ruleset" where
  "apply_landlock depth h a =
     and_then (check_abi h a) (\<lambda>_.
     and_then (stop_on Ruleset_Failed (sh_create_ruleset h)) (\<lambda>_.
     and_then (resolve_excludes h (ag_excludes a)) (\<lambda>excludes.
     and_then (gather (grant_tree depth h ro_dir_access excludes) (ag_ro a)) (\<lambda>ro.
     and_then (gather (grant_tree depth h rw_access excludes) (ag_rw a)) (\<lambda>rw.
     and_then (gather (grant_carveout h) (ag_ro_carveouts a)) (\<lambda>carved.
     and_then (gather (add_net_rule h) (if ag_net_allow a = Some True then ag_net_ports a else [])) (\<lambda>ports.
     and_then (stop_unless Privileges_Kept (sh_no_new_privs h)) (\<lambda>_.
     and_then (stop_on Restrict_Failed (sh_restrict_self h)) (\<lambda>_.
     Inr \<lparr>rs_rules = ro @ rw @ carved, rs_ports = ports\<rparr>)))))))))"

definition scope_of :: "shim_args \<Rightarrow> net_scope" where
  "scope_of a =
     (case (ag_net_allow a, ag_seccomp_checkout a) of
        (Some True, True) \<Rightarrow> Scope_Checkout
      | (Some True, False) \<Rightarrow> Scope_Allowed
      | _ \<Rightarrow> Scope_Denied)"

definition git_command :: "shim_args \<Rightarrow> string list" where
  "git_command a =
     ''git'' #
     (case ag_hooks_blocked_dir a of
        Some dir \<Rightarrow> [''-c'', ''core.hooksPath='' @ dir]
      | None \<Rightarrow> []) @
     tl (ag_program_args a)"

text \<open>What the launcher becomes: git with these arguments under these restrictions.\<close>

record confined =
  cf_ruleset :: ruleset
  cf_scope :: net_scope
  cf_argv :: "string list"

definition shim_main :: "nat \<Rightarrow> host \<Rightarrow> string list \<Rightarrow> shim_stop + confined" where
  "shim_main depth h argv =
     and_then (parse_shim no_args argv) (\<lambda>a.
     and_then (case validate_args a of Some e \<Rightarrow> Inl e | None \<Rightarrow> Inr ()) (\<lambda>_.
     and_then (apply_landlock depth h a) (\<lambda>rules.
     and_then (stop_on Filter_Failed (sh_seccomp h (scope_of a))) (\<lambda>_.
     Inr \<lparr>cf_ruleset = rules, cf_scope = scope_of a, cf_argv = git_command a\<rparr>))))"

subsection \<open>The system calls that are denied\<close>

datatype syscall =
    Sys_io_uring_setup | Sys_io_uring_enter | Sys_io_uring_register | Sys_unshare | Sys_setns
  | Sys_seccomp | Sys_init_module | Sys_finit_module | Sys_delete_module | Sys_kexec_load | Sys_ptrace
  | Sys_process_vm_readv | Sys_process_vm_writev | Sys_prctl | Sys_socket | Sys_socketpair

text \<open>A rule denies a call whose first argument is the named constant; no rules deny every call.\<close>

datatype call_rule = First_Is_PR_SET_SECCOMP | First_Is_AF_UNIX

definition denied_outright :: "syscall list" where
  "denied_outright =
     [Sys_io_uring_setup, Sys_io_uring_enter, Sys_io_uring_register, Sys_unshare, Sys_setns, Sys_seccomp,
      Sys_init_module, Sys_finit_module, Sys_delete_module, Sys_kexec_load, Sys_ptrace,
      Sys_process_vm_readv, Sys_process_vm_writev]"

definition unix_rules :: "(syscall \<rightharpoonup> call_rule list) \<Rightarrow> (syscall \<rightharpoonup> call_rule list)" where
  "unix_rules m = m(Sys_socket \<mapsto> [First_Is_AF_UNIX], Sys_socketpair \<mapsto> [First_Is_AF_UNIX])"

definition rules_for :: "net_scope \<Rightarrow> syscall \<rightharpoonup> call_rule list" where
  "rules_for net =
     (let m = (if net = Scope_Checkout then unix_rules Map.empty else Map.empty);
          m = fold (\<lambda>nr m. m(nr \<mapsto> [])) denied_outright m;
          m = m(Sys_prctl \<mapsto> [First_Is_PR_SET_SECCOMP])
      in if net = Scope_Denied then unix_rules m else m)"

text \<open>The keys of the map that is built into the program: on x86-64 every call and its x32 alias.\<close>

definition rules_with_x32_aliases :: "bool \<Rightarrow> net_scope \<Rightarrow> bool \<times> syscall \<rightharpoonup> call_rule list" where
  "rules_with_x32_aliases x86_64 net =
     (\<lambda>(alias, nr). if alias \<and> \<not> x86_64 then None else rules_for net nr)"

subsection \<open>What the rules reach\<close>

text \<open>
  Landlock lets a process use an object when a rule names it or a directory above it. Objects are
  named here by their canonical paths: a hard link is a second path.
\<close>

definition canonical :: "host \<Rightarrow> string \<Rightarrow> bool" where
  "canonical h p \<longleftrightarrow> sh_canonicalize h p = Inr p"

definition reaches :: "host \<Rightarrow> rule \<Rightarrow> string \<Rightarrow> bool" where
  "reaches h r q = (case r of Path_Rule p access \<Rightarrow>
     (case sh_canonicalize h p of Inl e \<Rightarrow> False | Inr real \<Rightarrow> path_starts_with q real))"

text \<open>
  What is relied on of the file system: \<open>canonicalize\<close> answers an absolute path that it leaves alone and
  that names the same object, \<open>metadata\<close> follows links, and what has something beneath it is a directory.
\<close>

definition file_system_ok :: "host \<Rightarrow> bool" where
  "file_system_ok h \<longleftrightarrow>
     (\<forall>p r. sh_canonicalize h p = Inr r \<longrightarrow>
        canonical h r \<and> is_absolute_path r \<and> sh_metadata h p = sh_metadata h r) \<and>
     (\<forall>r e kind n. canonical h r \<longrightarrow> canonical h e \<longrightarrow> \<not> path_eq e r \<longrightarrow> path_starts_with e r \<longrightarrow>
        sh_metadata h r = Inr (kind, n) \<longrightarrow> kind = Type_Dir)"

lemma canonicalD:
  assumes "file_system_ok h" "sh_canonicalize h p = Inr r"
  shows "canonical h r" "is_absolute_path r" "sh_metadata h p = sh_metadata h r"
proof -
  have "\<forall>p r. sh_canonicalize h p = Inr r \<longrightarrow>
      canonical h r \<and> is_absolute_path r \<and> sh_metadata h p = sh_metadata h r"
    using assms(1) unfolding file_system_ok_def by (rule conjunct1)
  with assms(2) show "canonical h r" "is_absolute_path r" "sh_metadata h p = sh_metadata h r" by blast+
qed

lemma above_is_dir:
  "file_system_ok h \<Longrightarrow> canonical h r \<Longrightarrow> canonical h e \<Longrightarrow> \<not> path_eq e r \<Longrightarrow> path_starts_with e r \<Longrightarrow>
   sh_metadata h r = Inr (kind, n) \<Longrightarrow> kind = Type_Dir"
  unfolding file_system_ok_def by blast

subsection \<open>The combinators\<close>

lemma and_then_Inr: "and_then r f = Inr y \<longleftrightarrow> (\<exists>x. r = Inr x \<and> f x = Inr y)"
  by (auto simp: and_then_def split: sum.splits)

lemma gather_Inr_set:
  "gather f xs = Inr rs \<Longrightarrow> r \<in> set rs \<longleftrightarrow> (\<exists>x \<in> set xs. \<exists>rs'. f x = Inr rs' \<and> r \<in> set rs')"
  by (induction xs arbitrary: rs) (auto split: sum.splits)

lemma gather_Inr_each: "gather f xs = Inr rs \<Longrightarrow> x \<in> set xs \<Longrightarrow> \<exists>rs'. f x = Inr rs' \<and> set rs' \<subseteq> set rs"
  by (induction xs arbitrary: rs) (fastforce split: sum.splits)+

lemma gather_Inl: "gather f xs = Inl e \<Longrightarrow> \<exists>x \<in> set xs. f x = Inl e"
  by (induction xs) (auto split: sum.splits)

lemma gather_no_Inl: "(\<And>x. x \<in> set xs \<Longrightarrow> f x \<noteq> Inl e) \<Longrightarrow> gather f xs \<noteq> Inl e"
  using gather_Inl[of f xs e] by blast

lemma path_starts_with_refl [simp]: "path_starts_with p p"
  by (simp add: path_starts_with_def)

lemma prefixes_comparable:
  assumes "path_starts_with q a" "path_starts_with q b"
  shows "path_starts_with a b \<or> (\<not> path_eq b a \<and> path_starts_with b a)"
proof -
  let ?q = "path_components q" and ?a = "path_components a" and ?b = "path_components b"
  from assms have a: "take (length ?a) ?q = ?a" and b: "take (length ?b) ?q = ?b"
    by (simp_all add: path_starts_with_def)
  show ?thesis
  proof (cases "length ?b \<le> length ?a")
    case True
    then have "take (length ?b) ?a = ?b" using a b by (metis min_def take_take)
    then show ?thesis by (simp add: path_starts_with_def)
  next
    case False
    then have "take (length ?a) ?b = ?a" using a b by (metis min_def nle_le take_take)
    moreover have "?b \<noteq> ?a" using False by auto
    ultimately show ?thesis by (simp add: path_starts_with_def path_eq_def)
  qed
qed

subsection \<open>No rule reaches an exclusion\<close>

definition safe_rule :: "host \<Rightarrow> string list \<Rightarrow> rule \<Rightarrow> bool" where
  "safe_rule h excludes r = (case r of Path_Rule p access \<Rightarrow>
     (case sh_canonicalize h p of
        Inl e \<Rightarrow> True
      | Inr real \<Rightarrow> \<not> is_or_inside_exclude real excludes \<and> \<not> is_ancestor_of_exclude real excludes))"

lemma safe_rule_misses:
  assumes "safe_rule h excludes r" "e \<in> set excludes" "path_starts_with q e"
  shows "\<not> reaches h r q"
proof
  assume "reaches h r q"
  then obtain p access real where r: "r = Path_Rule p access" "sh_canonicalize h p = Inr real"
    "path_starts_with q real" by (auto simp: reaches_def split: rule.splits sum.splits)
  with assms(1,2) have "\<not> path_starts_with real e" "\<not> (\<not> path_eq e real \<and> path_starts_with e real)"
    by (auto simp: safe_rule_def is_or_inside_exclude_def is_ancestor_of_exclude_def list_ex_iff)
  with prefixes_comparable[OF r(3) assms(3)] show False by blast
qed

lemma grant_one_rules: "grant_one h path access = Inr rs \<Longrightarrow> r \<in> set rs \<Longrightarrow>
   \<exists>is_dir. sh_open h path = Inr (Inr is_dir) \<and> r = Path_Rule path (rights_for_target access is_dir)"
  by (auto simp: grant_one_def add_path_rule_def Let_def split: sum.splits if_splits option.splits)

text \<open>What is granted as it stands is either no ancestor of an exclusion or a directory that is walked.\<close>

lemma granted_entry_safe:
  assumes ok: "file_system_ok h" "\<forall>e \<in> set excludes. canonical h e"
    and real: "sh_canonicalize h path = Inr real" "\<not> is_or_inside_exclude real excludes"
    and md: "sh_metadata h path = Inr (kind, nlink)" "\<not> (kind = Type_Dir \<and> is_ancestor_of_exclude real excludes)"
  shows "safe_rule h excludes (Path_Rule path access)"
proof -
  have "\<not> is_ancestor_of_exclude real excludes"
  proof
    assume anc: "is_ancestor_of_exclude real excludes"
    then obtain e where e: "e \<in> set excludes" "\<not> path_eq e real" "path_starts_with e real"
      by (auto simp: is_ancestor_of_exclude_def list_ex_iff)
    from canonicalD[OF ok(1) real(1)] md(1) have "canonical h real" "sh_metadata h real = Inr (kind, nlink)"
      by simp_all
    from above_is_dir[OF ok(1) this(1) _ e(2,3) this(2)] ok(2) e(1) anc md(2) show False by blast
  qed
  with real show ?thesis by (simp add: safe_rule_def)
qed

text \<open>Where a rule of the walk comes from: an entry that is granted, or a directory that is walked.\<close>

lemma enumerate_rule:
  assumes "enumerate_dir (Suc depth) h root access excludes dir = Inr rs" "r \<in> set rs"
  obtains name real kind nlink rs' where
    "sh_canonicalize h (path_join dir name) = Inr real" "\<not> is_or_inside_exclude real excludes"
    "sh_metadata h (path_join dir name) = Inr (kind, nlink)" "r \<in> set rs'"
    "if kind = Type_Dir \<and> is_ancestor_of_exclude real excludes
     then enumerate_dir depth h root access excludes (path_join dir name) = Inr rs'
     else grant_one h (path_join dir name) access = Inr rs'"
proof -
  from assms obtain names where "sh_read_dir h dir = Some names" by (auto split: option.splits)
  with assms(1) obtain name rs' where entry:
    "(let path = path_join dir name in
      case sh_canonicalize h path of
        Inl e \<Rightarrow> Inr []
      | Inr real \<Rightarrow>
          if is_or_inside_exclude real excludes then Inr []
          else case sh_metadata h path of
            Inl e \<Rightarrow> Inr []
          | Inr (kind, nlink) \<Rightarrow>
              if kind = Type_Dir \<and> is_ancestor_of_exclude real excludes
              then enumerate_dir depth h root access excludes path
              else if kind = Type_File \<and> 1 < nlink then Inr []
              else if disqualified_link h path root excludes real then Inr []
              else grant_one h path access) = Inr rs'" "r \<in> set rs'"
    using gather_Inr_set assms(2) by (fastforce simp del: gather.simps)
  show ?thesis
  proof (cases "sh_canonicalize h (path_join dir name)")
    case (Inr real)
    with entry obtain kind nlink where "sh_metadata h (path_join dir name) = Inr (kind, nlink)"
      by (auto simp: Let_def split: if_splits sum.splits)
    with Inr entry that show ?thesis by (auto simp: Let_def split: if_splits)
  qed (use entry in \<open>auto simp: Let_def\<close>)
qed

lemma enumerate_safe:
  assumes "file_system_ok h" "\<forall>e \<in> set excludes. canonical h e"
  shows "enumerate_dir depth h root access excludes dir = Inr rs \<Longrightarrow> r \<in> set rs \<Longrightarrow> safe_rule h excludes r"
proof (induction depth arbitrary: dir rs)
  case (Suc depth)
  from enumerate_rule[OF Suc.prems] obtain name real kind nlink rs' where e:
    "sh_canonicalize h (path_join dir name) = Inr real" "\<not> is_or_inside_exclude real excludes"
    "sh_metadata h (path_join dir name) = Inr (kind, nlink)" "r \<in> set rs'"
    "if kind = Type_Dir \<and> is_ancestor_of_exclude real excludes
     then enumerate_dir depth h root access excludes (path_join dir name) = Inr rs'
     else grant_one h (path_join dir name) access = Inr rs'" .
  show ?case
  proof (cases "kind = Type_Dir \<and> is_ancestor_of_exclude real excludes")
    case True
    with e(5) Suc.IH e(4) show ?thesis by auto
  next
    case False
    with e(5) have "grant_one h (path_join dir name) access = Inr rs'" by (simp only: if_not_P if_False)
    from grant_one_rules[OF this e(4)] granted_entry_safe[OF assms e(1,2,3) False] show ?thesis by blast
  qed
qed simp

lemma enumerate_rights:
  assumes "\<And>q rs. grant_one h q access = Inr rs \<Longrightarrow> \<forall>r \<in> set rs. P r"
  shows "enumerate_dir depth h root access excludes dir = Inr rs \<Longrightarrow> r \<in> set rs \<Longrightarrow> P r"
proof (induction depth arbitrary: dir rs)
  case (Suc depth)
  from enumerate_rule[OF Suc.prems] Suc.IH assms show ?case by metis
qed simp

lemma grant_tree_safe:
  assumes "file_system_ok h" "\<forall>e \<in> set excludes. canonical h e"
    and "grant_tree depth h access excludes tree = Inr rs" "r \<in> set rs"
  shows "safe_rule h excludes r"
proof (cases "sh_canonicalize h tree")
  case (Inr real)
  show ?thesis
  proof (cases "is_ancestor_of_exclude real excludes")
    case True
    with assms(3,4) Inr have "enumerate_dir depth h real access excludes real = Inr rs"
      by (auto simp: grant_tree_def split: if_splits)
    from enumerate_safe[OF assms(1,2) this assms(4)] show ?thesis .
  next
    case False
    with assms(3,4) Inr have g: "grant_one h real access = Inr rs" "\<not> is_or_inside_exclude real excludes"
      by (auto simp: grant_tree_def split: if_splits)
    from grant_one_rules[OF g(1) assms(4)] canonicalD[OF assms(1) Inr] False g(2) show ?thesis
      by (auto simp: safe_rule_def canonical_def)
  qed
qed (use assms in \<open>simp add: grant_tree_def\<close>)

lemma resolve_excludes_set:
  assumes "resolve_excludes h raw = Inr excludes"
  shows "e \<in> set excludes \<longleftrightarrow> (\<exists>p \<in> set raw. sh_canonicalize h p = Inr e)"
proof -
  from gather_Inr_set[OF assms[unfolded resolve_excludes_def], of e]
    gather_Inr_each[OF assms[unfolded resolve_excludes_def]]
  show ?thesis by (fastforce split: sum.splits io_error.splits)
qed

lemma resolve_excludes_canonical:
  "file_system_ok h \<Longrightarrow> resolve_excludes h raw = Inr excludes \<Longrightarrow> \<forall>e \<in> set excludes. canonical h e"
  using resolve_excludes_set canonicalD(1) by blast

text \<open>A carve-out is one regular file, named directly, and only to be read.\<close>

lemma grant_carveout_rules:
  assumes "grant_carveout h path = Inr rs" "r \<in> set rs"
  shows "\<exists>real n access. r = Path_Rule real access \<and> sh_canonicalize h path = Inr real \<and>
    sh_metadata h real = Inr (Type_File, n) \<and> sh_symlink_metadata h path \<noteq> Inr Type_Symlink \<and>
    (\<exists>is_dir. access = rights_for_target ro_dir_access is_dir)"
proof -
  from assms obtain r' where r': "add_carveout_rule h path = Inr r'" "r = r'"
    by (auto simp: grant_carveout_def split: sum.splits if_splits)
  then have "sh_symlink_metadata h path \<noteq> Inr Type_Symlink" by (auto simp: add_carveout_rule_def)
  moreover from r'(1) obtain real n access where "sh_canonicalize h path = Inr real"
    "sh_metadata h real = Inr (Type_File, n)" "add_path_rule h real ro_dir_access = Inr access"
    "r' = Path_Rule real access"
    by (auto simp: add_carveout_rule_def split: sum.splits io_error.splits file_type.splits prod.splits)
  moreover from this(3) have "\<exists>is_dir. access = rights_for_target ro_dir_access is_dir"
    by (auto simp: add_path_rule_def Let_def split: sum.splits if_splits option.splits)
  ultimately show ?thesis using r'(2) by blast
qed

lemma apply_landlock_parts:
  assumes "apply_landlock depth h a = Inr rules"
  obtains excludes ro rw carved where "resolve_excludes h (ag_excludes a) = Inr excludes"
    "gather (grant_tree depth h ro_dir_access excludes) (ag_ro a) = Inr ro"
    "gather (grant_tree depth h rw_access excludes) (ag_rw a) = Inr rw"
    "gather (grant_carveout h) (ag_ro_carveouts a) = Inr carved"
    "rs_rules rules = ro @ rw @ carved"
  using assms by (auto simp: apply_landlock_def and_then_Inr)

lemma carved_rule:
  assumes "apply_landlock depth h a = Inr rules" "r \<in> set (rs_rules rules)" "file_system_ok h"
  shows "(\<exists>excludes. resolve_excludes h (ag_excludes a) = Inr excludes \<and> safe_rule h excludes r) \<or>
    (\<exists>c \<in> set (ag_ro_carveouts a). \<exists>rs. grant_carveout h c = Inr rs \<and> r \<in> set rs)"
proof -
  from apply_landlock_parts[OF assms(1)] obtain excludes ro rw carved where
    x: "resolve_excludes h (ag_excludes a) = Inr excludes"
    "gather (grant_tree depth h ro_dir_access excludes) (ag_ro a) = Inr ro"
    "gather (grant_tree depth h rw_access excludes) (ag_rw a) = Inr rw"
    "gather (grant_carveout h) (ag_ro_carveouts a) = Inr carved"
    "rs_rules rules = ro @ rw @ carved" .
  note safe = grant_tree_safe[OF assms(3) resolve_excludes_canonical[OF assms(3) x(1)]]
  from x(5) assms(2) consider "r \<in> set ro" | "r \<in> set rw" | "r \<in> set carved" by auto
  then show ?thesis
  proof cases
    case 1
    then show ?thesis using gather_Inr_set[OF x(2), of r] safe x(1) by blast
  next
    case 2
    then show ?thesis using gather_Inr_set[OF x(3), of r] safe x(1) by blast
  next
    case 3
    then show ?thesis using gather_Inr_set[OF x(4), of r] by blast
  qed
qed


text \<open>
  A rule that reaches an exclusion is a carve-out: the path was listed as one, is no symbolic link,
  and names the very file that is reached.
\<close>

lemma reached_exclusion_is_carved:
  assumes "file_system_ok h" "apply_landlock depth h a = Inr rules" "r \<in> set (rs_rules rules)"
    and "p \<in> set (ag_excludes a)" "sh_canonicalize h p = Inr e" "path_starts_with q e" "canonical h q"
    and "reaches h r q"
  shows "\<exists>c real is_dir. c \<in> set (ag_ro_carveouts a) \<and> sh_canonicalize h c = Inr real \<and> path_eq q real \<and>
    sh_symlink_metadata h c \<noteq> Inr Type_Symlink \<and> r = Path_Rule real (rights_for_target ro_dir_access is_dir)"
  using carved_rule[OF assms(2,3,1)]
proof (elim disjE exE conjE bexE)
  fix excludes assume "resolve_excludes h (ag_excludes a) = Inr excludes" "safe_rule h excludes r"
  with resolve_excludes_set[of h "ag_excludes a" excludes e] safe_rule_misses[of h excludes r e q] assms
  show ?thesis by blast
next
  fix c rs assume c: "c \<in> set (ag_ro_carveouts a)" "grant_carveout h c = Inr rs" "r \<in> set rs"
  from grant_carveout_rules[OF c(2,3)] obtain real n access is_dir where real: "r = Path_Rule real access"
    "sh_canonicalize h c = Inr real" "sh_metadata h real = Inr (Type_File, n)"
    "sh_symlink_metadata h c \<noteq> Inr Type_Symlink" "access = rights_for_target ro_dir_access is_dir" by blast
  from canonicalD(1)[OF assms(1) real(2)] have can: "canonical h real" .
  with assms(8) real(1) have "path_starts_with q real" by (auto simp: reaches_def canonical_def)
  with above_is_dir[OF assms(1) can assms(7) _ _ real(3)] have "path_eq q real" by auto
  with c(1) real show ?thesis by blast
qed

subsection \<open>The walk ends\<close>

text \<open>
  A path longer than the kernel takes is refused by \<open>canonicalize\<close>, and a directory has no entry
  without a name: the walk cannot go deeper than the longest path.
\<close>

definition paths_bounded :: "host \<Rightarrow> nat \<Rightarrow> bool" where
  "paths_bounded h limit \<longleftrightarrow>
     (\<forall>p r. sh_canonicalize h p = Inr r \<longrightarrow> length p \<le> limit) \<and>
     (\<forall>d names. sh_read_dir h d = Some names \<longrightarrow> (\<forall>n \<in> set names. n \<noteq> [] \<and> \<not> is_absolute_path n))"

lemma grant_one_no_depth: "grant_one h path access \<noteq> Inl Depth_Spent"
  by (simp add: grant_one_def split: sum.split)

lemma path_join_longer: "name \<noteq> [] \<Longrightarrow> \<not> is_absolute_path name \<Longrightarrow> length dir < length (path_join dir name)"
  by (auto simp: path_join_def)

lemma enumerate_returns:
  assumes "paths_bounded h limit"
  shows "length dir \<le> limit \<Longrightarrow> limit < depth + length dir \<Longrightarrow>
    enumerate_dir depth h root access excludes dir \<noteq> Inl Depth_Spent"
proof (induction depth arbitrary: dir)
  case (Suc depth)
  show ?case
  proof (cases "sh_read_dir h dir")
    case (Some names)
    have entry: "(case sh_canonicalize h (path_join dir name) of
           Inl e \<Rightarrow> Inr []
         | Inr real \<Rightarrow>
             if is_or_inside_exclude real excludes then Inr []
             else case sh_metadata h (path_join dir name) of
               Inl e \<Rightarrow> Inr []
             | Inr (kind, nlink) \<Rightarrow>
                 if kind = Type_Dir \<and> is_ancestor_of_exclude real excludes
                 then enumerate_dir depth h root access excludes (path_join dir name)
                 else if kind = Type_File \<and> 1 < nlink then Inr []
                 else if disqualified_link h (path_join dir name) root excludes real then Inr []
                 else grant_one h (path_join dir name) access) \<noteq> Inl Depth_Spent" if "name \<in> set names" for name
    proof (cases "sh_canonicalize h (path_join dir name)")
      case (Inr real)
      from assms Some that have "name \<noteq> []" "\<not> is_absolute_path name" by (auto simp: paths_bounded_def)
      from path_join_longer[OF this, of dir] Suc.prems(2)
      have "limit < depth + length (path_join dir name)" by simp
      moreover have "length (path_join dir name) \<le> limit" using assms Inr by (auto simp: paths_bounded_def)
      ultimately have "enumerate_dir depth h root access excludes (path_join dir name) \<noteq> Inl Depth_Spent"
        using Suc.IH by blast
      then show ?thesis using Inr grant_one_no_depth by (auto split: sum.split)
    qed simp
    show ?thesis
    proof
      assume "enumerate_dir (Suc depth) h root access excludes dir = Inl Depth_Spent"
      with Some gather_Inl entry show False by (fastforce simp: Let_def)
    qed
  qed simp
qed simp

lemma grant_tree_returns:
  assumes "file_system_ok h" "paths_bounded h limit" "limit < depth"
  shows "grant_tree depth h access excludes tree \<noteq> Inl Depth_Spent"
proof (cases "sh_canonicalize h tree")
  case (Inr real)
  from canonicalD(1)[OF assms(1) Inr] have "length real \<le> limit"
    using assms(2) by (auto simp: canonical_def paths_bounded_def)
  from enumerate_returns[OF assms(2) this, of depth] assms(3) Inr grant_one_no_depth show ?thesis
    by (auto simp: grant_tree_def)
qed (simp add: grant_tree_def)

lemma and_then_Inl: "and_then r f = Inl e \<longleftrightarrow> r = Inl e \<or> (\<exists>x. r = Inr x \<and> f x = Inl e)"
  by (auto simp: and_then_def split: sum.splits)

lemma no_depth [simp]:
  "stop_unless e b = Inl Depth_Spent \<longleftrightarrow> \<not> b \<and> e = Depth_Spent"
  "stop_on f failure = Inl Depth_Spent \<longleftrightarrow> (\<exists>e. failure = Some e \<and> f e = Depth_Spent)"
  "add_net_rule h port \<noteq> Inl Depth_Spent"
  "grant_carveout h path \<noteq> Inl Depth_Spent"
  "check_abi h a \<noteq> Inl Depth_Spent"
  "validate_args a \<noteq> Some Depth_Spent"
  by (auto simp: stop_unless_def stop_on_def add_net_rule_def and_then_Inl grant_carveout_def check_abi_def
      validate_args_def split: option.splits sum.splits if_splits)

lemma parse_shim_no_depth: "parse_shim a argv \<noteq> Inl Depth_Spent"
  by (induction a argv rule: parse_shim.induct)
    (auto simp: absolute_def Let_def split: option.splits list.splits sum.splits if_splits)

lemma resolve_excludes_no_depth: "resolve_excludes h raw \<noteq> Inl Depth_Spent"
  using gather_Inl by (fastforce simp: resolve_excludes_def split: sum.splits io_error.splits)

text \<open>
  C40: the walk ends. Links may lead in circles, but as the kernel refuses paths over a limit, the
  launcher returns when its walk may go as deep as that limit.
\<close>

theorem launcher_returns:
  assumes "file_system_ok h" "paths_bounded h limit" "limit < depth"
  shows "shim_main depth h argv \<noteq> Inl Depth_Spent"
proof -
  have "gather (grant_tree depth h access excludes) trees \<noteq> Inl Depth_Spent" for access excludes trees
    by (rule gather_no_Inl) (rule grant_tree_returns[OF assms])
  moreover have "gather (grant_carveout h) cs \<noteq> Inl Depth_Spent" for cs
    by (rule gather_no_Inl) simp
  moreover have "gather (add_net_rule h) ps \<noteq> Inl Depth_Spent" for ps
    by (rule gather_no_Inl) simp
  ultimately have "apply_landlock depth h a \<noteq> Inl Depth_Spent" for a
    by (auto simp: apply_landlock_def and_then_Inl resolve_excludes_no_depth)
  then show ?thesis
    by (auto simp: shim_main_def and_then_Inl parse_shim_no_depth split: option.splits)
qed

subsection \<open>The rest of a tree is granted\<close>

text \<open>
  What is relied on besides: canonical paths of one object are one string, a listing names every entry,
  a canonical entry is no link and can be opened, and the kernel takes a rule whose rights the object
  can carry.
\<close>

definition listing_ok :: "host \<Rightarrow> bool" where
  "listing_ok h \<longleftrightarrow>
     (\<forall>p q. canonical h p \<longrightarrow> canonical h q \<longrightarrow> path_eq p q \<longrightarrow> p = q) \<and>
     (\<forall>d names q n rest. canonical h d \<longrightarrow> canonical h q \<longrightarrow> sh_read_dir h d = Some names \<longrightarrow>
        path_components q = path_components d @ n # rest \<longrightarrow>
        n \<in> set names \<and> canonical h (path_join d n) \<and> path_components (path_join d n) = path_components d @ [n])"

definition objects_ok :: "host \<Rightarrow> bool" where
  "objects_ok h \<longleftrightarrow>
     (\<forall>p. canonical h p \<longrightarrow> CHR 0x00 \<notin> set p \<and> sh_symlink_metadata h p \<noteq> Inr Type_Symlink \<and>
        (\<exists>kind n. sh_metadata h p = Inr (kind, n) \<and> sh_open h p = Inr (Inr (kind = Type_Dir)) \<and>
          (\<forall>access. access \<noteq> 0 \<longrightarrow> kind = Type_Dir \<or> access AND access_file = access \<longrightarrow>
             sh_add_path h p access = None)))"

lemma grant_one_canonical:
  assumes "objects_ok h" "canonical h p" "access AND access_file \<noteq> 0"
  shows "\<exists>effective. grant_one h p access = Inr [Path_Rule p effective]"
proof -
  from assms(1,2) obtain kind n where k: "CHR 0x00 \<notin> set p" "sh_open h p = Inr (Inr (kind = Type_Dir))"
    "\<And>a. a \<noteq> 0 \<Longrightarrow> kind = Type_Dir \<or> a AND access_file = a \<Longrightarrow> sh_add_path h p a = None"
    unfolding objects_ok_def by blast
  let ?eff = "rights_for_target access (kind = Type_Dir)"
  have eff: "?eff \<noteq> 0" "kind = Type_Dir \<or> ?eff AND access_file = ?eff"
    using assms(3) by (auto simp: rights_for_target_def and.assoc)
  from k(3)[OF this] eff(1) k(1,2) show ?thesis by (simp add: grant_one_def add_path_rule_def Let_def)
qed

lemma inside_inherits:
  "path_starts_with q c \<Longrightarrow> is_or_inside_exclude c excludes \<Longrightarrow> is_or_inside_exclude q excludes"
proof -
  assume q: "path_starts_with q c" and "is_or_inside_exclude c excludes"
  then obtain e where e: "e \<in> set excludes" "path_eq c e \<or> path_starts_with c e"
    by (auto simp: is_or_inside_exclude_def list_ex_iff)
  then have "path_starts_with c e" by (auto simp: path_eq_def path_starts_with_def)
  with q have "path_starts_with q e"
    unfolding path_starts_with_def by (metis append_take_drop_id length_take linear min.absorb2 take_all take_take)
  with e(1) show ?thesis by (auto simp: is_or_inside_exclude_def list_ex_iff)
qed

definition plain :: "host \<Rightarrow> string list \<Rightarrow> string \<Rightarrow> bool" where
  "plain h excludes q \<longleftrightarrow>
     canonical h q \<and> \<not> is_or_inside_exclude q excludes \<and> \<not> is_ancestor_of_exclude q excludes \<and>
     (\<forall>n. sh_metadata h q = Inr (Type_File, n) \<longrightarrow> n \<le> 1) \<and>
     (\<forall>d. canonical h d \<longrightarrow> path_starts_with q d \<longrightarrow> \<not> path_eq q d \<longrightarrow> sh_read_dir h d \<noteq> None)"

lemma enumerate_complete:
  assumes fs: "file_system_ok h" "listing_ok h" "objects_ok h"
    and q: "plain h excludes q" and access: "access AND access_file \<noteq> 0"
  shows "enumerate_dir depth h root access excludes d = Inr rs \<Longrightarrow> canonical h d \<Longrightarrow> path_starts_with q d \<Longrightarrow>
    \<not> path_eq q d \<Longrightarrow> \<exists>r \<in> set rs. reaches h r q"
proof (induction depth arbitrary: d rs)
  case (Suc depth)
  from q have cq: "canonical h q" by (simp add: plain_def)
  from Suc.prems q obtain names where names: "sh_read_dir h d = Some names" by (auto simp: plain_def)
  from Suc.prems(3,4) obtain n rest where comps: "path_components q = path_components d @ n # rest"
    unfolding path_starts_with_def path_eq_def by (metis append_Nil2 append_take_drop_id list.exhaust)
  let ?c = "path_join d n"
  from fs(2) Suc.prems(2) cq names comps have c: "n \<in> set names" "canonical h ?c"
    "path_components ?c = path_components d @ [n]" unfolding listing_ok_def by blast+
  then have below: "path_starts_with q ?c" using comps by (simp add: path_starts_with_def)
  from c(2) have can: "sh_canonicalize h ?c = Inr ?c" by (simp add: canonical_def)
  from below q have out: "\<not> is_or_inside_exclude ?c excludes" using inside_inherits by (auto simp: plain_def)
  from fs(3) c(2) obtain kind nlink where md: "sh_metadata h ?c = Inr (kind, nlink)"
    "sh_symlink_metadata h ?c \<noteq> Inr Type_Symlink" unfolding objects_ok_def by blast
  have each: "\<exists>rs'. (if kind = Type_Dir \<and> is_ancestor_of_exclude ?c excludes
        then enumerate_dir depth h root access excludes ?c
        else if kind = Type_File \<and> 1 < nlink then Inr []
        else if disqualified_link h ?c root excludes ?c then Inr []
        else grant_one h ?c access) = Inr rs' \<and> set rs' \<subseteq> set rs"
    using Suc.prems(1) names gather_Inr_each[OF _ c(1)] can out md(1) by (fastforce simp: Let_def)
  show ?case
  proof (cases "kind = Type_Dir \<and> is_ancestor_of_exclude ?c excludes")
    case True
    with each obtain rs' where rs': "enumerate_dir depth h root access excludes ?c = Inr rs'" "set rs' \<subseteq> set rs" by auto
    have "\<not> path_eq q ?c"
    proof
      assume "path_eq q ?c"
      with fs(2) cq c(2) have "q = ?c" unfolding listing_ok_def by blast
      with True q show False by (simp add: plain_def)
    qed
    from Suc.IH[OF rs'(1) c(2) below this] rs'(2) show ?thesis by blast
  next
    case False
    have "\<not> (kind = Type_File \<and> 1 < nlink)"
    proof
      assume f: "kind = Type_File \<and> 1 < nlink"
      with above_is_dir[OF fs(1) c(2) cq _ below md(1)] have "path_eq q ?c" by auto
      with fs(2) cq c(2) have "q = ?c" unfolding listing_ok_def by blast
      with f md(1) q show False by (fastforce simp: plain_def)
    qed
    with False each md(2) obtain rs' where "grant_one h ?c access = Inr rs'" "set rs' \<subseteq> set rs"
      by (auto simp: disqualified_link_def)
    with grant_one_canonical[OF fs(3) c(2) access] obtain effective where "Path_Rule ?c effective \<in> set rs" by auto
    moreover have "reaches h (Path_Rule ?c effective) q" using can below by (simp add: reaches_def)
    ultimately show ?thesis by blast
  qed
qed simp

text \<open>
  C17: nothing else is lost. When a granted tree holds exclusions, whatever of it is not an exclusion, not
  inside or above one, and not a file with a second name, is reached by one of its rules, as long as
  the directories above it can be listed.
\<close>

theorem plain_files_stay_granted:
  assumes "file_system_ok h" "listing_ok h" "objects_ok h" "plain h excludes q" "access AND access_file \<noteq> 0"
    and "grant_tree depth h access excludes tree = Inr rs" "sh_canonicalize h tree = Inr real"
    and "path_starts_with q real"
  shows "\<exists>r \<in> set rs. reaches h r q"
proof -
  from canonicalD(1)[OF assms(1,7)] have real: "canonical h real" .
  from assms(4,8) have out: "\<not> is_or_inside_exclude real excludes"
    using inside_inherits by (auto simp: plain_def)
  show ?thesis
  proof (cases "is_ancestor_of_exclude real excludes")
    case True
    have "\<not> path_eq q real"
    proof
      assume "path_eq q real"
      with assms(2,4) real have "q = real" unfolding listing_ok_def plain_def by blast
      with True assms(4) show False by (simp add: plain_def)
    qed
    moreover have "enumerate_dir depth h real access excludes real = Inr rs"
      using assms(6,7) out True by (simp add: grant_tree_def)
    ultimately show ?thesis using enumerate_complete[OF assms(1-5) _ real assms(8)] by blast
  next
    case False
    with assms(6,7) out grant_one_canonical[OF assms(3) real assms(5)] real assms(8) show ?thesis
      by (auto simp: grant_tree_def reaches_def canonical_def)
  qed
qed

subsection \<open>Hosts given by a table\<close>

text \<open>
  A host that knows the paths of a table: each with its canonical path, kind, number of links, and
  whether the path itself is a symbolic link.
\<close>

type_synonym path_table = "(string \<times> string \<times> file_type \<times> nat \<times> bool) list"

definition looked_up :: "path_table \<Rightarrow> (string \<times> file_type \<times> nat \<times> bool \<Rightarrow> 'a) \<Rightarrow> string \<Rightarrow> io_error + 'a" where
  "looked_up tbl f p =
     (case map_of tbl p of None \<Rightarrow> Inl (Not_Found ''no such file'') | Some e \<Rightarrow> Inr (f e))"

definition table_host :: "path_table \<Rightarrow> (string \<times> string list) list \<Rightarrow> host" where
  "table_host tbl dirs =
     (\<lparr>sh_canonicalize = looked_up tbl fst, sh_metadata = looked_up tbl (\<lambda>(c, kind, n, link). (kind, n)),
       sh_symlink_metadata = looked_up tbl (\<lambda>(c, kind, n, link). if link then Type_Symlink else kind),
       sh_read_dir = map_of dirs,
       sh_open = (\<lambda>p. case map_of tbl p of None \<Rightarrow> Inl ''no such file''
         | Some (c, kind, n, link) \<Rightarrow> Inr (Inr (kind = Type_Dir))),
       sh_abi = 8, sh_create_ruleset = None, sh_add_path = (\<lambda>p access. None), sh_add_port = (\<lambda>port. None),
       sh_no_new_privs = True, sh_restrict_self = None, sh_seccomp = (\<lambda>net. None)\<rparr>)"

definition table_ok :: "path_table \<Rightarrow> bool" where
  "table_ok tbl \<longleftrightarrow>
     list_all (\<lambda>(p, c, kind, n, link).
       is_absolute_path c \<and>
       (case map_of tbl c of Some (c', kind', n', link') \<Rightarrow> c' = c \<and> kind' = kind \<and> n' = n | None \<Rightarrow> False) \<and>
       (kind = Type_Dir \<or> list_all (\<lambda>(e, x). path_eq e c \<or> \<not> path_starts_with e c) tbl)) tbl"

lemma table_host_ok:
  assumes "table_ok tbl"
  shows "file_system_ok (table_host tbl dirs)"
proof -
  have entry: "is_absolute_path c \<and> (\<exists>link'. map_of tbl c = Some (c, kind, n, link')) \<and>
      (kind = Type_Dir \<or> (\<forall>e x. (e, x) \<in> set tbl \<longrightarrow> path_eq e c \<or> \<not> path_starts_with e c))"
    if "map_of tbl p = Some (c, kind, n, link)" for p c kind n link
    using assms map_of_SomeD[OF that] unfolding table_ok_def list_all_iff
    by (fastforce split: option.splits prod.splits)
  show ?thesis
    unfolding file_system_ok_def
  proof (intro conjI allI impI)
    fix p r assume "sh_canonicalize (table_host tbl dirs) p = Inr r"
    then obtain kind n link where e: "map_of tbl p = Some (r, kind, n, link)"
      by (auto simp: table_host_def looked_up_def split: option.splits)
    with entry[OF e] show "canonical (table_host tbl dirs) r" "is_absolute_path r"
      "sh_metadata (table_host tbl dirs) p = sh_metadata (table_host tbl dirs) r"
      by (auto simp: table_host_def looked_up_def canonical_def)
  next
    fix r e kind n
    assume a: "canonical (table_host tbl dirs) r" "canonical (table_host tbl dirs) e" "\<not> path_eq e r"
      "path_starts_with e r" "sh_metadata (table_host tbl dirs) r = Inr (kind, n)"
    then obtain link where r: "map_of tbl r = Some (r, kind, n, link)"
      by (auto simp: table_host_def looked_up_def canonical_def split: option.splits)
    from a(2) obtain y where "map_of tbl e = Some y"
      by (auto simp: table_host_def looked_up_def canonical_def split: option.splits)
    then have "(e, y) \<in> set tbl" by (rule map_of_SomeD)
    with entry[OF r] a(3,4) show "kind = Type_Dir" by blast
  qed
qed

definition entry_listed :: "path_table \<Rightarrow> string \<Rightarrow> string list \<Rightarrow> string \<Rightarrow> bool" where
  "entry_listed tbl d names q \<longleftrightarrow>
     path_components q = path_components d \<or> \<not> path_starts_with q d \<or>
     (let n = path_components q ! length (path_components d) in
      n \<in> set names \<and> map_option fst (map_of tbl (path_join d n)) = Some (path_join d n) \<and>
      path_components (path_join d n) = path_components d @ [n])"

definition table_lists :: "path_table \<Rightarrow> (string \<times> string list) list \<Rightarrow> bool" where
  "table_lists tbl dirs \<longleftrightarrow>
     (\<forall>p \<in> set (map fst tbl). \<forall>q \<in> set (map fst tbl). path_eq p q \<longrightarrow> p = q) \<and>
     (\<forall>x \<in> set dirs. \<forall>q \<in> set (map fst tbl). entry_listed tbl (fst x) (snd x) q)"

lemma table_host_lists:
  assumes "table_lists tbl dirs"
  shows "listing_ok (table_host tbl dirs)"
proof -
  let ?h = "table_host tbl dirs"
  have known: "canonical ?h p \<longleftrightarrow> map_option fst (map_of tbl p) = Some p" for p
    by (auto simp: canonical_def table_host_def looked_up_def split: option.split)
  have listed: "p \<in> set (map fst tbl)" if "canonical ?h p" for p
  proof -
    from that known obtain x where "map_of tbl p = Some x" by auto
    then show ?thesis by (force dest: map_of_SomeD)
  qed
  show ?thesis
    unfolding listing_ok_def
  proof (rule conjI; intro allI impI)
    fix p q assume "canonical ?h p" "canonical ?h q" "path_eq p q"
    with listed assms show "p = q" unfolding table_lists_def by blast
  next
    fix d names q n rest
    assume a: "canonical ?h d" "canonical ?h q" "sh_read_dir ?h d = Some names"
      "path_components q = path_components d @ n # rest"
    from a(3) have "map_of dirs d = Some names" by (simp add: table_host_def)
    then have "(d, names) \<in> set dirs" by (rule map_of_SomeD)
    with listed[OF a(2)] assms have "entry_listed tbl d names q" unfolding table_lists_def by fastforce
    with a(4) show "n \<in> set names \<and> canonical ?h (path_join d n) \<and>
        path_components (path_join d n) = path_components d @ [n]"
      by (simp add: known path_starts_with_def Let_def entry_listed_def)
  qed
qed

definition table_plain :: "path_table \<Rightarrow> bool" where
  "table_plain tbl \<longleftrightarrow>
     list_all (\<lambda>(p, c, kind, n, link). p = c \<longrightarrow> CHR 0x00 \<notin> set p \<and> \<not> link \<and> kind \<noteq> Type_Symlink) tbl"

lemma table_host_objects:
  assumes "table_plain tbl"
  shows "objects_ok (table_host tbl dirs)"
  unfolding objects_ok_def
proof (intro allI impI)
  fix p assume "canonical (table_host tbl dirs) p"
  then obtain kind n link where e: "map_of tbl p = Some (p, kind, n, link)"
    by (auto simp: canonical_def table_host_def looked_up_def split: option.splits)
  with assms map_of_SomeD[OF e] have "CHR 0x00 \<notin> set p" "\<not> link" "kind \<noteq> Type_Symlink"
    by (auto simp: table_plain_def list_all_iff)
  with e show "CHR 0x00 \<notin> set p \<and> sh_symlink_metadata (table_host tbl dirs) p \<noteq> Inr Type_Symlink \<and>
      (\<exists>kind n. sh_metadata (table_host tbl dirs) p = Inr (kind, n) \<and>
        sh_open (table_host tbl dirs) p = Inr (Inr (kind = Type_Dir)) \<and>
        (\<forall>access. access \<noteq> 0 \<longrightarrow> kind = Type_Dir \<or> access AND access_file = access \<longrightarrow>
           sh_add_path (table_host tbl dirs) p access = None))"
    by (simp add: table_host_def looked_up_def)
qed

lemma table_host_bounded:
  assumes "list_all (\<lambda>(p, x). length p \<le> limit) tbl"
    and "list_all (\<lambda>(d, names). list_all (\<lambda>n. n \<noteq> [] \<and> \<not> is_absolute_path n) names) dirs"
  shows "paths_bounded (table_host tbl dirs) limit"
  unfolding paths_bounded_def
proof (intro conjI allI impI)
  fix p r assume "sh_canonicalize (table_host tbl dirs) p = Inr r"
  then obtain x where "map_of tbl p = Some x"
    by (auto simp: table_host_def looked_up_def split: option.splits)
  from map_of_SomeD[OF this] assms(1) show "length p \<le> limit" by (auto simp: list_all_iff)
next
  fix d names assume "sh_read_dir (table_host tbl dirs) d = Some names"
  then have "map_of dirs d = Some names" by (simp add: table_host_def)
  from map_of_SomeD[OF this] assms(2) show "\<forall>n \<in> set names. n \<noteq> [] \<and> \<not> is_absolute_path n"
    by (auto simp: list_all_iff)
qed

text \<open>A home with an excluded directory, a plain file, and a link that leads round in a circle.\<close>

definition round_table :: path_table where
  "round_table =
     [(''/h'', ''/h'', Type_Dir, 1, False), (''/h/.ssh'', ''/h/.ssh'', Type_Dir, 1, False),
      (''/h/.config'', ''/h/.config'', Type_Dir, 1, False), (''/h/.config/git'', ''/h/.config/git'', Type_File, 1, False),
      (''/h/.config/gh'', ''/h/.config/gh'', Type_Dir, 1, False),
      (''/h/me'', ''/h'', Type_Dir, 1, True), (''/h/me/me'', ''/h'', Type_Dir, 1, True)]"

definition round_host :: host where
  "round_host = table_host round_table
     [(''/h'', [''me'', ''.ssh'', ''.config'']), (''/h/me'', [''me'', ''.ssh'', ''.config'']),
      (''/h/me/me'', [''me'']), (''/h/.config'', [''gh'', ''git''])]"

lemma round_host_ok: "file_system_ok round_host" "paths_bounded round_host 16"
proof -
  have "table_ok round_table" by code_simp
  then show "file_system_ok round_host" by (simp add: round_host_def table_host_ok)
  show "paths_bounded round_host 16" unfolding round_host_def by (rule table_host_bounded; code_simp)
qed

theorem launcher_returns_witness:
  "shim_main 17 round_host [''--ro'', ''/h'', ''--exclude'', ''/h/.ssh''] \<noteq> Inl Depth_Spent"
  using launcher_returns[OF round_host_ok, of 17] by simp

text \<open>The circle alone: two levels are not enough for it, three are.\<close>

lemma circle_is_walked:
  "grant_tree 2 round_host ro_dir_access [''/h/.ssh''] ''/h'' = Inl Depth_Spent"
  "grant_tree 3 round_host ro_dir_access [''/h/.ssh''] ''/h'' = Inr [Path_Rule ''/h/.config'' ro_dir_access]"
  by code_simp+

definition plain_table :: path_table where
  "plain_table = filter (\<lambda>(p, c, x). p = c) round_table"

definition plain_host :: host where
  "plain_host = table_host plain_table [(''/h'', [''.ssh'', ''.config'']), (''/h/.config'', [''gh'', ''git''])]"

lemma plain_host_ok: "file_system_ok plain_host" "listing_ok plain_host" "objects_ok plain_host"
proof -
  have "table_ok plain_table" "table_plain plain_table"
    "table_lists plain_table [(''/h'', [''.ssh'', ''.config'']), (''/h/.config'', [''gh'', ''git''])]"
    by code_simp+
  then show "file_system_ok plain_host" "listing_ok plain_host" "objects_ok plain_host"
    by (simp_all add: plain_host_def table_host_ok table_host_lists table_host_objects)
qed

lemma plain_sample: "plain plain_host [''/h/.ssh'', ''/h/.config/gh''] ''/h/.config/git''"
proof -
  have "canonical plain_host ''/h/.config/git'' \<and>
      \<not> is_or_inside_exclude ''/h/.config/git'' [''/h/.ssh'', ''/h/.config/gh''] \<and>
      \<not> is_ancestor_of_exclude ''/h/.config/git'' [''/h/.ssh'', ''/h/.config/gh''] \<and>
      sh_metadata plain_host ''/h/.config/git'' = Inr (Type_File, 1) \<and>
      list_all (\<lambda>(d, x). path_starts_with ''/h/.config/git'' d \<longrightarrow> \<not> path_eq ''/h/.config/git'' d \<longrightarrow>
        sh_read_dir plain_host d \<noteq> None) plain_table"
    unfolding canonical_def by code_simp
  moreover have "\<exists>x. (d, x) \<in> set plain_table" if "canonical plain_host d" for d
  proof -
    from that obtain x where "map_of plain_table d = Some x"
      by (auto simp: canonical_def plain_host_def table_host_def looked_up_def split: option.splits)
    then show ?thesis by (blast dest: map_of_SomeD)
  qed
  ultimately show ?thesis unfolding plain_def list_all_iff by fastforce
qed

theorem plain_files_stay_granted_witness:
  "\<exists>r \<in> {Path_Rule ''/h/.config/git'' (a_execute OR a_read_file)}. reaches plain_host r ''/h/.config/git''"
proof -
  have "grant_tree 4 plain_host ro_dir_access [''/h/.ssh'', ''/h/.config/gh''] ''/h'' =
      Inr [Path_Rule ''/h/.config/git'' (a_execute OR a_read_file)] \<and>
    sh_canonicalize plain_host ''/h'' = Inr ''/h'' \<and> path_starts_with ''/h/.config/git'' ''/h'' \<and>
    ro_dir_access AND access_file \<noteq> 0" by code_simp
  with plain_files_stay_granted[OF plain_host_ok plain_sample] show ?thesis by fastforce
qed

end
