(* ===== verification/Sandbox.thy ===== *)
theory Sandbox imports Shim begin

text \<open>
  The server's side of the sandbox (\<open>git-vista-server/src/sandbox/mod.rs\<close> with \<open>worktree.rs\<close>,
  \<open>repo_paths.rs\<close>, \<open>trust.rs\<close>, \<open>capabilities.rs\<close>, \<open>bwrap.rs\<close> and \<open>shim.rs\<close>, and \<open>state_dir\<close> of
  \<open>state.rs\<close>): which tier an operation runs in, what its policy grants, the policy each git command
  runs under (\<open>git_cmd.rs\<close>), and the command line that is handed to the launcher of \<open>Shim\<close>.

  The process environment and the files that are read are the record \<open>server_env\<close>, whose first part is
  the \<open>host\<close> of \<open>Shim\<close>. What is resolved once and cached is resolved at each use here.
\<close>

subsection \<open>The surroundings of the server\<close>

text \<open>\<open>ev_read\<close> is \<open>fs::read\<close>; \<open>ev_read_text\<close> is \<open>read_to_string\<close>, which refuses what is not UTF-8.\<close>

record server_env =
  ev_host :: host
  ev_var :: "string \<Rightarrow> string option"
  ev_file_len :: "string \<Rightarrow> io_error + nat"
  ev_read :: "string \<Rightarrow> io_error + string"
  ev_current_exe :: "string option"
  ev_temp_dir :: string

definition ev_read_text :: "server_env \<Rightarrow> string \<Rightarrow> io_error + string" where
  "ev_read_text env p =
     (case ev_read env p of
        Inl e \<Rightarrow> Inl e
      | Inr s \<Rightarrow> if valid_utf8 s then Inr s else Inl (Io_Other ''stream did not contain valid UTF-8''))"

definition io_text :: "io_error \<Rightarrow> string" where
  "io_text e = (case e of Not_Found s \<Rightarrow> s | Io_Other s \<Rightarrow> s)"

definition is_file :: "host \<Rightarrow> string \<Rightarrow> bool" where
  "is_file h p \<longleftrightarrow> (case sh_metadata h p of Inr (kind, n) \<Rightarrow> kind = Type_File | Inl e \<Rightarrow> False)"

text \<open>\<open>Path::parent\<close> of a path without a trailing separator.\<close>

definition path_parent :: "string \<Rightarrow> string option" where
  "path_parent p =
     (case rsplit_once (CHR ''/'') p of
        None \<Rightarrow> if p = [] then None else Some []
      | Some (dir, name) \<Rightarrow> if dir \<noteq> [] then Some dir else if name = [] then None else Some ''/'')"

subsection \<open>Linked worktrees\<close>

record linked_dirs =
  ld_gitdir :: string
  ld_commondir :: string

definition pointer_file_cap :: nat where "pointer_file_cap = 4096"

definition read_pointer_file :: "server_env \<Rightarrow> string \<Rightarrow> string \<Rightarrow> string + string" where
  "read_pointer_file env path what =
     (case ev_file_len env path of
        Inl e \<Rightarrow> Inl (what @ '' at '' @ path @ '' is unreadable: '' @ io_text e)
      | Inr len \<Rightarrow>
          if pointer_file_cap < len
          then Inl (what @ '' at '' @ path @ '' is '' @ decimal (int len) @
                 '' bytes; a pointer file is one short line'')
          else case ev_read_text env path of
            Inl e \<Rightarrow> Inl (what @ '' at '' @ path @ '' is not readable UTF-8: '' @ io_text e)
          | Inr s \<Rightarrow> Inr s)"

definition canonical_join :: "server_env \<Rightarrow> string \<Rightarrow> string \<Rightarrow> string \<Rightarrow> string + string" where
  "canonical_join env base target what =
     (if target = [] then Inl (what @ '' is empty'')
      else
        (let joined = (if is_absolute_path target then target else path_join base target) in
         case sh_canonicalize (ev_host env) joined of
           Inl e \<Rightarrow> Inl (what @ '' '' @ joined @ '' does not canonicalise: '' @ io_text e)
         | Inr p \<Rightarrow> Inr p))"

definition outside_worktrees :: "string \<Rightarrow> string \<Rightarrow> bool" where
  "outside_worktrees gitdir commondir \<longleftrightarrow>
     (let base = path_join commondir ''worktrees'' in \<not> path_starts_with gitdir base \<or> path_eq gitdir base)"

text \<open>The part of \<open>linked_worktree_dirs\<close> that follows the pointer of a regular file \<open>.git\<close>.\<close>

definition follow_pointer :: "server_env \<Rightarrow> string \<Rightarrow> string + linked_dirs" where
  "follow_pointer env repo =
     and_then (read_pointer_file env (path_join repo ''.git'') ''`.git`'') (\<lambda>pointer.
     case strip_prefix ''gitdir:'' pointer of
       None \<Rightarrow> Inl ''`.git` is a file but does not start with `gitdir:`''
     | Some target \<Rightarrow>
         and_then (canonical_join env repo (trim target) ''gitdir target'') (\<lambda>gitdir.
         and_then (read_pointer_file env (path_join gitdir ''commondir'') ''`commondir`'') (\<lambda>common_target.
         and_then (canonical_join env gitdir (trim common_target) ''commondir target'') (\<lambda>commondir.
         if outside_worktrees gitdir commondir
         then Inl (''gitdir '' @ gitdir @ '' is not strictly inside '' @ path_join commondir ''worktrees'' @
                '' '' @ em_dash @ '' the pointer does not describe a linked worktree of that repository, '' @
                ''so nothing is granted'')
         else Inr \<lparr>ld_gitdir = gitdir, ld_commondir = commondir\<rparr>))))"

definition linked_worktree_dirs :: "server_env \<Rightarrow> string \<Rightarrow> string + linked_dirs option" where
  "linked_worktree_dirs env repo =
     (let dotgit = path_join repo ''.git'' in
      case sh_symlink_metadata (ev_host env) dotgit of
        Inl (Not_Found e) \<Rightarrow> Inr None
      | Inl (Io_Other e) \<Rightarrow> Inl (''`.git` at '' @ dotgit @ '' is unreadable: '' @ e)
      | Inr Type_Dir \<Rightarrow> Inr None
      | Inr Type_Symlink \<Rightarrow>
          Inl ''`.git` is a symlink; a linked worktree's pointer must be a regular file''
      | Inr Type_Other \<Rightarrow> Inl ''`.git` is neither a directory nor a regular file''
      | Inr Type_File \<Rightarrow> map_sum id Some (follow_pointer env repo))"

datatype repo_paths_error =
    MissingGitFile string
  | UnreadableGitFile string string
  | MalformedGitFile string string
  | WorktreeGeometry string string

definition resolve_repo_paths :: "server_env \<Rightarrow> string \<Rightarrow> repo_paths_error + linked_dirs" where
  "resolve_repo_paths env repo =
     (case linked_worktree_dirs env repo of
        Inr (Some dirs) \<Rightarrow> Inr dirs
      | Inl why \<Rightarrow> Inl (WorktreeGeometry repo why)
      | Inr None \<Rightarrow>
          (let dotgit = path_join repo ''.git'' in
           case sh_symlink_metadata (ev_host env) dotgit of
             Inr Type_Dir \<Rightarrow>
               (case sh_canonicalize (ev_host env) dotgit of
                  Inl e \<Rightarrow> Inl (UnreadableGitFile repo (io_text e))
                | Inr p \<Rightarrow> Inr \<lparr>ld_gitdir = p, ld_commondir = p\<rparr>)
           | Inr _ \<Rightarrow>
               Inl (MalformedGitFile repo ''`.git` changed shape between two resolution passes'')
           | Inl (Not_Found e) \<Rightarrow> Inl (MissingGitFile repo)
           | Inl (Io_Other e) \<Rightarrow> Inl (UnreadableGitFile repo e)))"

subsection \<open>Trust\<close>

definition state_dir :: "server_env \<Rightarrow> string" where
  "state_dir env =
     path_join
       (case ev_var env ''XDG_STATE_HOME'' of
          Some p \<Rightarrow>
            if p \<noteq> [] then p
            else (case ev_var env ''HOME'' of
                    Some h \<Rightarrow> path_join h ''.local/state''
                  | None \<Rightarrow> path_join (ev_temp_dir env) ''git-vista-state'')
        | None \<Rightarrow>
            (case ev_var env ''HOME'' of
               Some h \<Rightarrow> path_join h ''.local/state''
             | None \<Rightarrow> path_join (ev_temp_dir env) ''git-vista-state''))
       ''git-vista''"

definition sandbox_trust_dir :: "server_env \<Rightarrow> string" where
  "sandbox_trust_dir env = path_join (state_dir env) ''trusted-repos''"

definition fnv_step :: "char \<Rightarrow> u64 \<Rightarrow> u64" where
  "fnv_step b hash = (hash XOR of_char b) * 0x100000001b3"

definition hash_bytes :: "u64 \<Rightarrow> u8 list" where
  "hash_bytes w = map (\<lambda>i. ucast (drop_bit (8 * i) w)) (rev [0..<8])"

definition marker_name :: "string \<Rightarrow> string" where
  "marker_name canonical_repo = to_hex (hash_bytes (fold fnv_step canonical_repo 0xcbf29ce484222325))"

definition is_trusted_in :: "server_env \<Rightarrow> string \<Rightarrow> string \<Rightarrow> bool" where
  "is_trusted_in env trust_dir canonical_repo \<longleftrightarrow>
     ev_read env (path_join trust_dir (marker_name canonical_repo)) = Inr canonical_repo"

definition repo_is_trusted :: "server_env \<Rightarrow> string \<Rightarrow> bool" where
  "repo_is_trusted env repo \<longleftrightarrow>
     (case sh_canonicalize (ev_host env) repo of
        Inr c \<Rightarrow> is_trusted_in env (sandbox_trust_dir env) c
      | Inl e \<Rightarrow> False)"

subsection \<open>What the host can provide\<close>

record capabilities =
  ca_landlock_abi :: int
  ca_bwrap_present :: bool
  ca_userns :: bool

definition landlock_abi_floor :: u32 where "landlock_abi_floor = 6"

definition bwrap_candidates :: "string list" where
  "bwrap_candidates = [''/usr/bin/bwrap'', ''/bin/bwrap'', ''/usr/local/bin/bwrap'']"

definition bwrap_path :: "server_env \<Rightarrow> string option" where
  "bwrap_path env = find (is_file (ev_host env)) bwrap_candidates"

definition i64_limit :: int where "i64_limit = 2 ^ 63"

text \<open>\<open>str::parse::<i64>\<close>: an optional sign and digits, within the range of the type.\<close>

definition parse_i64 :: "string \<Rightarrow> int option" where
  "parse_i64 s =
     (case strip_prefix ''-'' s of
        Some rest \<Rightarrow>
          if starts_with ''+'' rest then None else map_option uminus (parse_uint i64_limit rest)
      | None \<Rightarrow> parse_uint (i64_limit - 1) s)"

definition read_sysctl_int :: "server_env \<Rightarrow> string \<Rightarrow> int option" where
  "read_sysctl_int env path =
     (case ev_read_text env path of Inl e \<Rightarrow> None | Inr s \<Rightarrow> parse_i64 (trim s))"

definition userns_usable :: "server_env \<Rightarrow> bool" where
  "userns_usable env \<longleftrightarrow>
     read_sysctl_int env ''/proc/sys/kernel/unprivileged_userns_clone'' \<noteq> Some 0 \<and>
     read_sysctl_int env ''/proc/sys/user/max_user_namespaces'' \<noteq> Some 0 \<and>
     (case read_sysctl_int env ''/proc/sys/kernel/apparmor_restrict_unprivileged_userns'' of
        Some v \<Rightarrow> v = 0
      | None \<Rightarrow> True)"

definition probe_capabilities :: "server_env \<Rightarrow> capabilities" where
  "probe_capabilities env =
     \<lparr>ca_landlock_abi = (if sh_abi (ev_host env) < 0 then -1 else sh_abi (ev_host env)),
      ca_bwrap_present = (bwrap_path env \<noteq> None), ca_userns = userns_usable env\<rparr>"

definition landlock_meets_floor :: "capabilities \<Rightarrow> bool" where
  "landlock_meets_floor c \<longleftrightarrow> uint landlock_abi_floor \<le> ca_landlock_abi c"

definition strict_available :: "capabilities \<Rightarrow> bool" where
  "strict_available c \<longleftrightarrow> landlock_meets_floor c \<and> ca_bwrap_present c \<and> ca_userns c"

definition strict_missing :: "capabilities \<Rightarrow> string list" where
  "strict_missing c =
     (if landlock_meets_floor c then [] else [''landlock_abi>=6'']) @
     (if ca_bwrap_present c then [] else [''bwrap'']) @
     (if ca_userns c then [] else [''user_namespaces''])"

subsection \<open>The launcher's own path\<close>

datatype shim_error =
    Bad_Override string string
  | Shim_Not_Found string
  | No_Current_Exe
  | No_Home
  | Repo_Paths repo_paths_error
  | Strict_Unavailable "string list"

definition shim_beside :: "server_env \<Rightarrow> string \<Rightarrow> shim_error + string" where
  "shim_beside env exe =
     (case path_parent exe of
        None \<Rightarrow> Inl No_Current_Exe
      | Some dir0 \<Rightarrow>
          (let dir = (if path_file_name dir0 = Some ''deps''
                      then (case path_parent dir0 of Some parent \<Rightarrow> parent | None \<Rightarrow> dir0) else dir0);
               candidate = path_join dir ''gv-sandbox''
           in if is_file (ev_host env) candidate then Inr candidate else Inl (Shim_Not_Found dir)))"

definition resolve_shim :: "server_env \<Rightarrow> shim_error + string" where
  "resolve_shim env =
     (case ev_var env ''GIT_VISTA_SANDBOX_BIN'' of
        Some p \<Rightarrow>
          if \<not> is_absolute_path p then Inl (Bad_Override p ''it is not an absolute path'')
          else if \<not> is_file (ev_host env) p then Inl (Bad_Override p ''it does not name an existing file'')
          else Inr p
      | None \<Rightarrow>
          (case ev_current_exe env of None \<Rightarrow> Inl No_Current_Exe | Some exe \<Rightarrow> shim_beside env exe))"

subsection \<open>Tiers and policies\<close>

datatype tier = Tier_Strict | Tier_Network | Tier_Unsandboxed

datatype hook_mode = Hook_Run | Hook_Blocked string

record policy =
  po_tier :: tier
  po_shim :: string
  po_bwrap :: "string option"
  po_rw_trees :: "string list"
  po_ro_trees :: "string list"
  po_secret_excludes :: "string list"
  po_ro_carveouts :: "string list"
  po_net_ports :: "u16 list"
  po_hook_mode :: hook_mode

definition default_secret_excludes :: "string list" where
  "default_secret_excludes =
     [''.ssh'', ''.claude'', ''.claude.json'', ''.config/gh'', ''.aws'', ''.netrc'', ''.git-credentials'',
      ''.npmrc'', ''.gnupg'', ''.docker'', ''.kube'', ''.config/google-chrome'', ''.config/chromium'',
      ''.mozilla'']"

definition secret_excludes_for_home :: "string \<Rightarrow> string list" where
  "secret_excludes_for_home home = map (path_join home) default_secret_excludes"

definition ssh_known_hosts_carveout :: "string \<Rightarrow> string list" where
  "ssh_known_hosts_carveout home = [path_join home ''.ssh/known_hosts'']"

definition default_git_ports :: "u16 list" where "default_git_ports = [22, 443, 80, 9418]"
definition clone_checkout_ports :: "u16 list" where "clone_checkout_ports = [443]"

definition default_ro_trees :: "string list" where
  "default_ro_trees = [''/usr'', ''/bin'', ''/lib'', ''/lib64'', ''/etc'']"
definition default_rw_trees :: "string list" where "default_rw_trees = [''/dev'']"
definition network_only_ro_trees :: "string list" where
  "network_only_ro_trees = [''/run/systemd/resolve'', ''/run/resolvconf'', ''/run/NetworkManager'']"
definition strict_only_ro_trees :: "string list" where "strict_only_ro_trees = [''/proc'']"

definition strict_bwrap_args :: "string list" where
  "strict_bwrap_args =
     [''--bind'', ''/'', ''/'', ''--dev-bind'', ''/dev'', ''/dev'', ''--proc'', ''/proc'', ''--tmpfs'',
      ''/dev/shm'', ''--unshare-pid'', ''--unshare-net'', ''--unshare-ipc'', ''--unshare-uts'',
      ''--unshare-cgroup'', ''--die-with-parent'', ''--new-session'']"

definition default_system_trees :: "tier \<Rightarrow> string list \<times> string list" where
  "default_system_trees t =
     (default_rw_trees,
      default_ro_trees @ (if t = Tier_Strict then strict_only_ro_trees else network_only_ro_trees))"

definition ssh_agent_socket_grant :: "server_env \<Rightarrow> tier \<Rightarrow> string option" where
  "ssh_agent_socket_grant env t = (if t \<noteq> Tier_Network then None else ev_var env ''SSH_AUTH_SOCK'')"

definition strict_launcher :: "capabilities \<Rightarrow> string option \<Rightarrow> shim_error + string" where
  "strict_launcher caps bwrap =
     (case bwrap of
        Some path \<Rightarrow>
          if strict_available caps then Inr path
          else Inl (Strict_Unavailable (if strict_missing caps = [] then [''bwrap''] else strict_missing caps))
      | None \<Rightarrow> Inl (Strict_Unavailable (if strict_missing caps = [] then [''bwrap''] else strict_missing caps)))"

definition tier_for :: "network_need \<Rightarrow> bool \<Rightarrow> tier" where
  "tier_for need trusted =
     (if trusted then Tier_Unsandboxed
      else case need of Net_Remote \<Rightarrow> Tier_Network | Net_Local \<Rightarrow> Tier_Strict)"

text \<open>The git directory that lies outside the repository's own path.\<close>

definition extra_tree :: "string \<Rightarrow> linked_dirs option \<Rightarrow> string list" where
  "extra_tree repo paths =
     (case paths of
        None \<Rightarrow> []
      | Some dirs \<Rightarrow> if path_eq (ld_commondir dirs) repo then [] else [ld_commondir dirs])"

definition paths_or_missing :: "server_env \<Rightarrow> string \<Rightarrow> shim_error + linked_dirs option" where
  "paths_or_missing env repo =
     (case resolve_repo_paths env repo of
        Inr dirs \<Rightarrow> Inr (Some dirs)
      | Inl (MissingGitFile r) \<Rightarrow> Inr None
      | Inl other \<Rightarrow> Inl (Repo_Paths other))"

definition home_of :: "server_env \<Rightarrow> shim_error + string" where
  "home_of env = (case ev_var env ''HOME'' of None \<Rightarrow> Inl No_Home | Some h \<Rightarrow> Inr h)"

definition policy_for :: "server_env \<Rightarrow> string \<Rightarrow> bool \<Rightarrow> network_need \<Rightarrow> shim_error + policy" where
  "policy_for env repo read_only need =
     (let t = tier_for need (repo_is_trusted env repo) in
      and_then (home_of env) (\<lambda>home.
      and_then (resolve_shim env) (\<lambda>shim.
      and_then (case t of
          Tier_Strict \<Rightarrow> map_sum id Some (strict_launcher (probe_capabilities env) (bwrap_path env))
        | _ \<Rightarrow> Inr None) (\<lambda>bwrap.
      and_then (paths_or_missing env repo) (\<lambda>paths.
      (let served = repo # extra_tree repo paths;
           (rw, ro) = default_system_trees t in
       Inr \<lparr>po_tier = t, po_shim = shim, po_bwrap = bwrap,
         po_rw_trees = rw @ (if read_only then [] else served) @
           (case ssh_agent_socket_grant env t of Some s \<Rightarrow> [s] | None \<Rightarrow> []),
         po_ro_trees = ro @ (if read_only then served else []) @ [home],
         po_secret_excludes = secret_excludes_for_home home @ [sandbox_trust_dir env],
         po_ro_carveouts = (case t of Tier_Network \<Rightarrow> ssh_known_hosts_carveout home | _ \<Rightarrow> []),
         po_net_ports = (case t of Tier_Network \<Rightarrow> default_git_ports | _ \<Rightarrow> []),
         po_hook_mode = Hook_Run\<rparr>))))))"

definition policy_for_clone :: "server_env \<Rightarrow> string \<Rightarrow> shim_error + policy" where
  "policy_for_clone env clones_root =
     and_then (home_of env) (\<lambda>home.
     and_then (resolve_shim env) (\<lambda>shim.
     (let (rw, ro) = default_system_trees Tier_Network in
      Inr \<lparr>po_tier = Tier_Network, po_shim = shim, po_bwrap = None,
        po_rw_trees = rw @ [clones_root] @
          (case ssh_agent_socket_grant env Tier_Network of Some s \<Rightarrow> [s] | None \<Rightarrow> []),
        po_ro_trees = ro @ [home],
        po_secret_excludes = secret_excludes_for_home home @ [sandbox_trust_dir env],
        po_ro_carveouts = ssh_known_hosts_carveout home,
        po_net_ports = default_git_ports, po_hook_mode = Hook_Run\<rparr>)))"

definition policy_for_clone_checkout :: "server_env \<Rightarrow> string \<Rightarrow> shim_error + policy" where
  "policy_for_clone_checkout env clones_root =
     and_then (policy_for_clone env clones_root) (\<lambda>transfer.
     Inr (transfer\<lparr>
       po_rw_trees := filter (\<lambda>p. case ssh_agent_socket_grant env (po_tier transfer) of
           Some s \<Rightarrow> \<not> path_eq p s | None \<Rightarrow> True) (po_rw_trees transfer),
       po_ro_carveouts := [], po_net_ports := clone_checkout_ports,
       po_hook_mode := Hook_Blocked ''/dev/null''\<rparr>))"

subsection \<open>The command line\<close>

datatype seccomp_profile = Profile_Default | Profile_Checkout

definition each_with :: "string \<Rightarrow> string list \<Rightarrow> string list" where
  "each_with flag values = concat (map (\<lambda>v. [flag, v]) values)"

text \<open>
  \<open>shim_argv\<close> in three parts: what runs the launcher, the flag of the tier's network, and the
  launcher's flags. None is a panic: an \<open>expect\<close> or an assertion that does not hold.
\<close>

definition launcher_prefix :: "policy \<Rightarrow> string list option" where
  "launcher_prefix p =
     (if po_tier p = Tier_Strict
      then map_option (\<lambda>bwrap. bwrap # strict_bwrap_args @ [''--'']) (po_bwrap p)
      else Some [])"

definition net_flag :: "tier \<Rightarrow> string option" where
  "net_flag t =
     (case t of Tier_Strict \<Rightarrow> Some ''--net-deny'' | Tier_Network \<Rightarrow> Some ''--net-allow''
        | Tier_Unsandboxed \<Rightarrow> None)"

definition shim_flags :: "policy \<Rightarrow> seccomp_profile \<Rightarrow> string \<Rightarrow> string list" where
  "shim_flags p profile net =
     [''--abi-floor'', show_u32 landlock_abi_floor] @
     each_with ''--rw'' (po_rw_trees p) @ each_with ''--ro'' (po_ro_trees p) @
     each_with ''--exclude'' (po_secret_excludes p) @
     each_with ''--ro-carveout'' (po_ro_carveouts p) @
     (if profile = Profile_Checkout then [''--seccomp-checkout''] else []) @
     (case po_hook_mode p of Hook_Run \<Rightarrow> [''--hooks-run'']
       | Hook_Blocked dir \<Rightarrow> [''--hooks-blocked'', dir]) @
     [net] @
     (if po_tier p = Tier_Network
      then each_with ''--net-port'' (map (\<lambda>port. decimal (uint port)) (po_net_ports p)) else [])"

definition shim_argv :: "policy \<Rightarrow> seccomp_profile \<Rightarrow> string list option" where
  "shim_argv p profile =
     (case (launcher_prefix p, net_flag (po_tier p)) of
        (Some l, Some net) \<Rightarrow>
          if profile = Profile_Checkout \<and> po_tier p \<noteq> Tier_Network then None
          else Some (l @ [po_shim p] @ shim_flags p profile net)
      | _ \<Rightarrow> None)"

definition sandbox_argv :: "policy \<Rightarrow> seccomp_profile \<Rightarrow> string list option" where
  "sandbox_argv p profile =
     (if po_tier p = Tier_Unsandboxed
      then if profile \<noteq> Profile_Default then None
           else Some (''git'' #
             (case po_hook_mode p of Hook_Blocked dir \<Rightarrow> [''-c'', ''core.hooksPath='' @ dir] | Hook_Run \<Rightarrow> []))
      else map_option (\<lambda>argv. argv @ [''--'', ''git'']) (shim_argv p profile))"

subsection \<open>The check of the declared need\<close>

definition remote_subcommands :: "string list" where
  "remote_subcommands =
     [''push'', ''fetch'', ''clone'', ''ls-remote'', ''pull'', ''fetch-pack'', ''send-pack'', ''http-fetch'',
      ''http-push'']"

fun network_need_of_args :: "string list \<Rightarrow> network_need" where
  "network_need_of_args [] = Net_Local"
| "network_need_of_args (tok # rest) =
     (if tok = ''-C'' \<or> tok = ''-c'' then (case rest of [] \<Rightarrow> Net_Local | _ # rest' \<Rightarrow> network_need_of_args rest')
      else if starts_with ''-'' tok then network_need_of_args rest
      else if tok \<in> set remote_subcommands then Net_Remote
      else Net_Local)"

text \<open>The need that is used, and whether the mismatch was reported; a debug build panics instead.\<close>

definition reconcile_need :: "network_need \<Rightarrow> string list \<Rightarrow> network_need \<times> bool" where
  "reconcile_need declared args =
     (declared, declared = Net_Local \<and> network_need_of_args args = Net_Remote)"

subsection \<open>The policy of one git command\<close>

text \<open>
  \<open>sandboxed\<close> and \<open>sandboxed_with_grant\<close> of \<open>git_cmd.rs\<close>: every git command runs under the policy of
  its repository; \<open>git worktree add\<close> and \<open>git worktree remove\<close> run under that policy with one more
  read-write tree, the folder of the managed worktrees or the parent of the worktree that is removed, and
  may not be remote then. Why there is no policy stays a value here, the server sends its text.
\<close>

datatype no_policy = Grant_With_Network | No_Policy shim_error

definition sandboxed :: "server_env \<Rightarrow> string \<Rightarrow> bool \<Rightarrow> string list \<Rightarrow> network_need \<Rightarrow> no_policy + policy" where
  "sandboxed env repo read_only args declared =
     map_sum No_Policy id (policy_for env repo read_only (fst (reconcile_need declared args)))"

definition sandboxed_with_grant ::
  "server_env \<Rightarrow> string \<Rightarrow> bool \<Rightarrow> string list \<Rightarrow> network_need \<Rightarrow> string \<Rightarrow> no_policy + policy" where
  "sandboxed_with_grant env repo read_only args declared grant =
     (let need = fst (reconcile_need declared args) in
      if need = Net_Remote then Inl Grant_With_Network
      else map_sum No_Policy (\<lambda>p. p\<lparr>po_rw_trees := po_rw_trees p @ [grant]\<rparr>)
             (policy_for env repo read_only need))"

definition command_policy ::
  "server_env \<Rightarrow> string \<Rightarrow> bool \<Rightarrow> string list \<Rightarrow> network_need \<Rightarrow> string option \<Rightarrow> no_policy + policy" where
  "command_policy env repo read_only args declared grant =
     (case grant of
        None \<Rightarrow> sandboxed env repo read_only args declared
      | Some g \<Rightarrow> sandboxed_with_grant env repo read_only args declared g)"

subsection \<open>The launcher reads what the server wrote\<close>

text \<open>The arguments a policy means, with what follows on the line as git's.\<close>

definition policy_args :: "policy \<Rightarrow> seccomp_profile \<Rightarrow> string list \<Rightarrow> shim_args" where
  "policy_args p profile gargs =
     \<lparr>ag_abi_floor = Some landlock_abi_floor, ag_rw = po_rw_trees p, ag_ro = po_ro_trees p,
      ag_excludes = po_secret_excludes p, ag_ro_carveouts = po_ro_carveouts p,
      ag_net_ports = (if po_tier p = Tier_Network then po_net_ports p else []),
      ag_net_allow = Some (po_tier p = Tier_Network), ag_seccomp_checkout = (profile = Profile_Checkout),
      ag_hooks_blocked_dir = (case po_hook_mode p of Hook_Run \<Rightarrow> None | Hook_Blocked d \<Rightarrow> Some d),
      ag_hooks_seen = True, ag_program_args = ''git'' # gargs\<rparr>"

definition policy_paths :: "policy \<Rightarrow> string list" where
  "policy_paths p =
     po_rw_trees p @ po_ro_trees p @ po_secret_excludes p @ po_ro_carveouts p @
     (case po_hook_mode p of Hook_Run \<Rightarrow> [] | Hook_Blocked d \<Rightarrow> [d])"

text \<open>The launcher's arguments on the line: bwrap runs what follows its own options.\<close>

definition after_launcher :: "policy \<Rightarrow> string list \<Rightarrow> string list" where
  "after_launcher p argv =
     (if po_tier p = Tier_Strict then drop (length strict_bwrap_args + 3) argv else drop 1 argv)"

lemma each_with_simps [simp]:
  "each_with flag [] = []" "each_with flag (v # vs) = flag # v # each_with flag vs"
  by (simp_all add: each_with_def)

lemma parse_each_path:
  assumes "path_flag flag = Some f" "bare_flag flag = None" "flag \<noteq> ''--''"
  shows "list_all is_absolute_path ps \<Longrightarrow>
    parse_shim a (each_with flag ps @ rest) = parse_shim (fold f ps a) rest"
  using assms by (induction ps arbitrary: a) (simp_all add: absolute_def)

lemma parse_each_relative:
  assumes "path_flag flag = Some f" "bare_flag flag = None" "flag \<noteq> ''--''"
  shows "\<not> list_all is_absolute_path ps \<Longrightarrow>
    \<exists>p \<in> set ps. parse_shim a (each_with flag ps @ rest) = Inl (Not_Absolute flag p)"
  using assms by (induction ps arbitrary: a) (auto simp: absolute_def)

lemma parse_each_port:
  "parse_shim a (each_with ''--net-port'' (map (\<lambda>port. decimal (uint port)) ports) @ rest) =
   parse_shim (a\<lparr>ag_net_ports := ag_net_ports a @ ports\<rparr>) rest"
proof (induction ports arbitrary: a)
  case (Cons port ports)
  have "uint port \<le> 65535" using unsigned_less[of port, where 'a=int] by simp
  then have "parse_u16 (decimal (uint port)) = Some port" by (simp add: parse_u16_def parse_uint_decimal)
  with Cons show ?case by (simp add: bare_flag_def path_flag_def number_flag_def)
qed simp

lemma fold_fields [simp]:
  "fold (\<lambda>p a. a\<lparr>ag_rw := ag_rw a @ [p]\<rparr>) ps a = a\<lparr>ag_rw := ag_rw a @ ps\<rparr>"
  "fold (\<lambda>p a. a\<lparr>ag_ro := ag_ro a @ [p]\<rparr>) ps a = a\<lparr>ag_ro := ag_ro a @ ps\<rparr>"
  "fold (\<lambda>p a. a\<lparr>ag_excludes := ag_excludes a @ [p]\<rparr>) ps a = a\<lparr>ag_excludes := ag_excludes a @ ps\<rparr>"
  "fold (\<lambda>p a. a\<lparr>ag_ro_carveouts := ag_ro_carveouts a @ [p]\<rparr>) ps a = a\<lparr>ag_ro_carveouts := ag_ro_carveouts a @ ps\<rparr>"
  by (induction ps arbitrary: a) simp_all

lemma parse_trees:
  "parse_shim a (each_with ''--rw'' ps @ rest) = parse_shim (a\<lparr>ag_rw := ag_rw a @ ps\<rparr>) rest"
  "parse_shim a (each_with ''--ro'' ps @ rest) = parse_shim (a\<lparr>ag_ro := ag_ro a @ ps\<rparr>) rest"
  "parse_shim a (each_with ''--exclude'' ps @ rest) = parse_shim (a\<lparr>ag_excludes := ag_excludes a @ ps\<rparr>) rest"
  "parse_shim a (each_with ''--ro-carveout'' ps @ rest) =
     parse_shim (a\<lparr>ag_ro_carveouts := ag_ro_carveouts a @ ps\<rparr>) rest"
  if "list_all is_absolute_path ps"
  using that by (simp_all add: parse_each_path path_flag_def bare_flag_def)

lemma sandbox_argv_shape:
  assumes "sandbox_argv p profile = Some argv" "po_tier p \<noteq> Tier_Unsandboxed"
  obtains l net where "launcher_prefix p = Some l" "net_flag (po_tier p) = Some net"
    "argv = l @ po_shim p # shim_flags p profile net @ [''--'', ''git'']"
    "profile = Profile_Checkout \<Longrightarrow> po_tier p = Tier_Network"
  using assms that by (auto simp: sandbox_argv_def shim_argv_def split: option.splits if_splits)

lemma after_launcher_flags:
  assumes "launcher_prefix p = Some l"
  shows "after_launcher p (l @ po_shim p # rest) = rest"
  using assms by (auto simp: launcher_prefix_def after_launcher_def split: if_splits)

lemma parse_policy:
  assumes "sandbox_argv p profile = Some argv" "po_tier p \<noteq> Tier_Unsandboxed"
    and "list_all is_absolute_path (policy_paths p)"
  shows "parse_shim no_args (after_launcher p argv @ gargs) = Inr (policy_args p profile gargs)"
proof -
  from sandbox_argv_shape[OF assms(1,2)] obtain l net where
    "launcher_prefix p = Some l" "net_flag (po_tier p) = Some net"
    "argv = l @ po_shim p # shim_flags p profile net @ [''--'', ''git'']" .
  then have argv: "after_launcher p argv = shim_flags p profile net @ [''--'', ''git'']"
    and net: "net = (if po_tier p = Tier_Network then ''--net-allow'' else ''--net-deny'')"
    using assms(2) by (auto simp: after_launcher_flags net_flag_def split: tier.splits)
  show ?thesis
    using assms(3) unfolding argv net
    by (cases "po_hook_mode p"; cases profile; cases "po_tier p = Tier_Network")
      (simp_all add: shim_flags_def policy_paths_def parse_trees parse_each_port no_args_def policy_args_def
        bare_flag_def path_flag_def number_flag_def absolute_def)
qed

lemma validate_policy:
  assumes "sandbox_argv p profile = Some argv" "po_tier p \<noteq> Tier_Unsandboxed"
  shows "validate_args (policy_args p profile gargs) = None"
  using sandbox_argv_shape[OF assms] by (auto simp: validate_args_def policy_args_def)

lemma parse_relative:
  assumes "path_flag flag = Some f" "bare_flag flag = None" "flag \<noteq> ''--''" "\<not> list_all is_absolute_path ps"
  shows "\<exists>e. parse_shim a (each_with flag ps @ rest) = Inl e \<and> exit_code e = 90"
  using parse_each_relative[OF assms] by fastforce

lemma parse_policy_relative:
  assumes "sandbox_argv p profile = Some argv" "po_tier p \<noteq> Tier_Unsandboxed"
    and "\<not> list_all is_absolute_path (policy_paths p)"
  shows "\<exists>e. parse_shim no_args (after_launcher p argv @ gargs) = Inl e \<and> exit_code e = 90"
proof -
  from sandbox_argv_shape[OF assms(1,2)] obtain l net where
    "launcher_prefix p = Some l" "argv = l @ po_shim p # shim_flags p profile net @ [''--'', ''git'']" .
  then have argv: "after_launcher p argv = shim_flags p profile net @ [''--'', ''git'']"
    by (simp add: after_launcher_flags)
  note flags = path_flag_def bare_flag_def number_flag_def
  have start: "parse_shim no_args (after_launcher p argv @ gargs) =
      parse_shim (no_args\<lparr>ag_abi_floor := Some landlock_abi_floor\<rparr>) (each_with ''--rw'' (po_rw_trees p) @
        (each_with ''--ro'' (po_ro_trees p) @ (each_with ''--exclude'' (po_secret_excludes p) @
        (each_with ''--ro-carveout'' (po_ro_carveouts p) @ drop (length ([''--abi-floor'', show_u32 landlock_abi_floor] @
          each_with ''--rw'' (po_rw_trees p) @ each_with ''--ro'' (po_ro_trees p) @
          each_with ''--exclude'' (po_secret_excludes p) @ each_with ''--ro-carveout'' (po_ro_carveouts p)))
          (after_launcher p argv @ gargs)))))"
    unfolding argv by (simp add: shim_flags_def flags)
  show ?thesis
  proof (cases "list_all is_absolute_path (po_rw_trees p @ po_ro_trees p @ po_secret_excludes p @ po_ro_carveouts p)")
    case False
    show ?thesis unfolding start
      using False
      by (cases "list_all is_absolute_path (po_rw_trees p)"; cases "list_all is_absolute_path (po_ro_trees p)";
          cases "list_all is_absolute_path (po_secret_excludes p)")
        (simp_all add: parse_trees parse_relative flags)
  next
    case True
    with assms(3) obtain dir where dir: "po_hook_mode p = Hook_Blocked dir" "\<not> is_absolute_path dir"
      by (auto simp: policy_paths_def split: hook_mode.splits)
    with True show ?thesis unfolding argv
      by (simp add: shim_flags_def parse_trees flags absolute_def)
  qed
qed

text \<open>
  C16: the launcher understands the server. For every policy of a sandboxed tier whose paths are absolute
  the launcher's parser reads back from the command line exactly the trees, exclusions, carve-outs,
  ports, network and hook settings of the policy, and accepts them; with any path that is not absolute
  it refuses to start.
\<close>

theorem launcher_reads_the_policy:
  assumes "sandbox_argv p profile = Some argv" "po_tier p \<noteq> Tier_Unsandboxed"
  shows "if list_all is_absolute_path (policy_paths p)
    then parse_shim no_args (after_launcher p argv @ gargs) = Inr (policy_args p profile gargs) \<and>
         validate_args (policy_args p profile gargs) = None
    else \<exists>e. shim_main depth h (after_launcher p argv @ gargs) = Inl e \<and> exit_code e = 90"
  using parse_policy[OF assms] validate_policy[OF assms] parse_policy_relative[OF assms, of gargs]
  by (auto simp: shim_main_def and_then_Inl)

lemma confined_inv:
  assumes "sandbox_argv p profile = Some argv" "po_tier p \<noteq> Tier_Unsandboxed"
    and "shim_main depth h (after_launcher p argv @ gargs) = Inr c"
  shows "apply_landlock depth h (policy_args p profile gargs) = Inr (cf_ruleset c)"
    and "cf_scope c = scope_of (policy_args p profile gargs)"
    and "cf_argv c = git_command (policy_args p profile gargs)"
proof -
  from assms(3) obtain a where a: "parse_shim no_args (after_launcher p argv @ gargs) = Inr a"
    "apply_landlock depth h a = Inr (cf_ruleset c)" "cf_scope c = scope_of a" "cf_argv c = git_command a"
    by (auto simp: shim_main_def and_then_Inr)
  with parse_policy_relative[OF assms(1,2), of gargs] have "list_all is_absolute_path (policy_paths p)" by fastforce
  with parse_policy[OF assms(1,2), of gargs] a(1) have "a = policy_args p profile gargs" by simp
  with a show "apply_landlock depth h (policy_args p profile gargs) = Inr (cf_ruleset c)"
    "cf_scope c = scope_of (policy_args p profile gargs)" "cf_argv c = git_command (policy_args p profile gargs)"
    by simp_all
qed

lemma policy_for_fields:
  assumes "policy_for env repo read_only need = Inr p"
  obtains home where "ev_var env ''HOME'' = Some home" "po_tier p = tier_for need (repo_is_trusted env repo)"
    "po_secret_excludes p = secret_excludes_for_home home @ [sandbox_trust_dir env]"
    "po_ro_carveouts p = (if po_tier p = Tier_Network then ssh_known_hosts_carveout home else [])"
    "po_net_ports p = (if po_tier p = Tier_Network then default_git_ports else [])"
    "po_hook_mode p = Hook_Run"
  using assms that
  by (auto simp: policy_for_def and_then_Inr home_of_def Let_def default_system_trees_def
      split: option.splits tier.splits)

lemma landlock_abi_checked:
  assumes "apply_landlock depth h (policy_args p profile gargs) = Inr rules"
  shows "6 \<le> sh_abi h" and "rs_ports rules = (if po_tier p = Tier_Network then po_net_ports p else [])"
proof -
  from assms have "check_abi h (policy_args p profile gargs) = Inr ()"
    by (auto simp: apply_landlock_def and_then_Inr)
  then show "6 \<le> sh_abi h"
    by (auto simp: check_abi_def policy_args_def and_then_Inr stop_unless_def landlock_abi_floor_def
        split: if_splits)
  have ports: "gather (add_net_rule h) ps = Inr qs \<Longrightarrow> qs = ps" for ps qs
    by (induction ps arbitrary: qs) (auto simp: add_net_rule_def and_then_Inr stop_on_def split: sum.splits)
  from assms show "rs_ports rules = (if po_tier p = Tier_Network then po_net_ports p else [])"
    by (auto simp: apply_landlock_def and_then_Inr policy_args_def dest: ports split: if_splits)
qed

text \<open>The one exception: a rule that names the known hosts of ssh, not through a link, to be read.\<close>

definition known_hosts_only :: "host \<Rightarrow> string \<Rightarrow> rule \<Rightarrow> string \<Rightarrow> bool" where
  "known_hosts_only h home r q \<longleftrightarrow>
     (let known = path_join home ''.ssh/known_hosts'' in
      sh_symlink_metadata h known \<noteq> Inr Type_Symlink \<and>
      (\<exists>real is_dir. sh_canonicalize h known = Inr real \<and> path_eq q real \<and>
         r = Path_Rule real (rights_for_target ro_dir_access is_dir)))"

text \<open>
  C3: git runs confined. When an operation on a repository that the operator did not trust gets as far
  as running git, no rule of its sandbox reaches a file of the home directory's secrets or of the trust
  store that exists, except a read-only rule for the known hosts of ssh, and that only in an operation
  declared remote, when that file is no symbolic link; the kernel enforces at least version 6; a local operation has
  no port and no unix socket, a remote one the four ports of git; and what runs is git with the
  arguments the server gave.
\<close>

theorem sandboxed_git_is_confined:
  assumes "file_system_ok (ev_host env)" "policy_for env repo read_only need = Inr p"
    and "po_tier p \<noteq> Tier_Unsandboxed" "sandbox_argv p Profile_Default = Some argv"
    and "shim_main depth (ev_host env) (after_launcher p argv @ gargs) = Inr c"
  shows "\<exists>home. ev_var env ''HOME'' = Some home \<and>
    (\<forall>r \<in> set (rs_rules (cf_ruleset c)). \<forall>s \<in> set (secret_excludes_for_home home @ [sandbox_trust_dir env]).
      \<forall>e q. sh_canonicalize (ev_host env) s = Inr e \<longrightarrow> path_starts_with q e \<longrightarrow> canonical (ev_host env) q \<longrightarrow>
        reaches (ev_host env) r q \<longrightarrow>
        need = Net_Remote \<and> known_hosts_only (ev_host env) home r q) \<and>
    \<not> repo_is_trusted env repo \<and> 6 \<le> sh_abi (ev_host env) \<and>
    rs_ports (cf_ruleset c) = (if need = Net_Remote then [22, 443, 80, 9418] else []) \<and>
    cf_scope c = (if need = Net_Remote then Scope_Allowed else Scope_Denied) \<and>
    cf_argv c = ''git'' # gargs"
proof -
  from policy_for_fields[OF assms(2)] obtain home where p: "ev_var env ''HOME'' = Some home"
    "po_tier p = tier_for need (repo_is_trusted env repo)"
    "po_secret_excludes p = secret_excludes_for_home home @ [sandbox_trust_dir env]"
    "po_ro_carveouts p = (if po_tier p = Tier_Network then ssh_known_hosts_carveout home else [])"
    "po_net_ports p = (if po_tier p = Tier_Network then default_git_ports else [])"
    "po_hook_mode p = Hook_Run" .
  from assms(3) p(2) have t: "\<not> repo_is_trusted env repo" "po_tier p = Tier_Network \<longleftrightarrow> need = Net_Remote"
    by (auto simp: tier_for_def split: if_splits network_need.splits)
  note c = confined_inv[OF assms(4,3,5)]
  let ?a = "policy_args p Profile_Default gargs"
  have secret: "need = Net_Remote \<and> known_hosts_only (ev_host env) home r q"
    if "r \<in> set (rs_rules (cf_ruleset c))" "s \<in> set (secret_excludes_for_home home @ [sandbox_trust_dir env])"
      "sh_canonicalize (ev_host env) s = Inr e" "path_starts_with q e" "canonical (ev_host env) q"
      "reaches (ev_host env) r q" for r s e q
  proof -
    from that(2) p(3) have "s \<in> set (ag_excludes ?a)" by (simp add: policy_args_def)
    from reached_exclusion_is_carved[OF assms(1) c(1) that(1) this that(3-6)] p(4) t(2) show ?thesis
      by (auto simp: policy_args_def ssh_known_hosts_carveout_def known_hosts_only_def Let_def split: if_splits)
  qed
  have "rs_ports (cf_ruleset c) = (if need = Net_Remote then [22, 443, 80, 9418] else [])"
    using landlock_abi_checked(2)[OF c(1)] p(5) t(2) by (simp add: default_git_ports_def)
  moreover have "cf_scope c = (if need = Net_Remote then Scope_Allowed else Scope_Denied)"
    using c(2) t(2) by (simp add: scope_of_def policy_args_def)
  moreover have "cf_argv c = ''git'' # gargs" using c(3) p(6) by (simp add: git_command_def policy_args_def)
  ultimately show ?thesis using p(1) t(1) landlock_abi_checked(1)[OF c(1)] secret by blast
qed


lemma rights_read_only: "rights_for_target ro_dir_access is_dir AND NOT ro_dir_access = 0"
  by (auto simp: rights_for_target_def and.assoc and.commute and.left_commute)

definition reads_only :: "rule \<Rightarrow> bool" where
  "reads_only r = (case r of Path_Rule q access \<Rightarrow> access AND NOT ro_dir_access = 0)"

lemma grant_one_rights: "grant_one h path ro_dir_access = Inr rs \<Longrightarrow> \<forall>r \<in> set rs. reads_only r"
  using grant_one_rules rights_read_only by (fastforce simp: reads_only_def)

lemma grant_tree_rights:
  assumes "grant_tree depth h ro_dir_access excludes tree = Inr rs" "r \<in> set rs"
  shows "reads_only r"
proof -
  from assms have "(\<exists>real. enumerate_dir depth h real ro_dir_access excludes real = Inr rs) \<or>
      (\<exists>path. grant_one h path ro_dir_access = Inr rs)"
    by (auto simp: grant_tree_def split: sum.splits if_splits)
  with enumerate_rights[of h ro_dir_access reads_only] grant_one_rights assms(2) show ?thesis by blast
qed

lemma policy_rw_trees:
  assumes "policy_for env repo read_only need = Inr p" "t \<in> set (po_rw_trees p)"
  shows "t = ''/dev'' \<or> need = Net_Remote \<and> ev_var env ''SSH_AUTH_SOCK'' = Some t \<or> \<not> read_only \<and>
    (t = repo \<or> (\<exists>dirs. resolve_repo_paths env repo = Inr dirs \<and> t = ld_commondir dirs))"
  using assms
  by (auto simp: policy_for_def and_then_Inr Let_def default_system_trees_def default_rw_trees_def
      extra_tree_def paths_or_missing_def ssh_agent_socket_grant_def tier_for_def
      split: if_splits option.splits sum.splits repo_paths_error.splits network_need.splits)

lemma command_policy_rw_trees:
  assumes "command_policy env repo read_only args declared grant = Inr p" "t \<in> set (po_rw_trees p)"
  shows "t = ''/dev'' \<or> declared = Net_Remote \<and> grant = None \<and> ev_var env ''SSH_AUTH_SOCK'' = Some t \<or>
    \<not> read_only \<and> (t = repo \<or> (\<exists>dirs. resolve_repo_paths env repo = Inr dirs \<and> t = ld_commondir dirs)) \<or>
    declared = Net_Local \<and> grant = Some t"
proof (cases grant)
  case None
  with assms(1) have "policy_for env repo read_only declared = Inr p"
    by (cases "policy_for env repo read_only declared") (auto simp: command_policy_def sandboxed_def reconcile_need_def)
  from policy_rw_trees[OF this assms(2)] None show ?thesis by blast
next
  case (Some g)
  with assms(1) obtain q where q: "declared = Net_Local" "policy_for env repo read_only declared = Inr q"
    "p = q\<lparr>po_rw_trees := po_rw_trees q @ [g]\<rparr>"
    by (cases declared; cases "policy_for env repo read_only declared")
      (auto simp: command_policy_def sandboxed_with_grant_def reconcile_need_def Let_def split: if_splits)
  with assms(2) have "t \<in> set (po_rw_trees q) \<or> t = g" by auto
  with policy_rw_trees[OF q(2)] q(1) Some show ?thesis by auto
qed

definition exclusion_within :: "host \<Rightarrow> string \<Rightarrow> string \<Rightarrow> bool" where
  "exclusion_within h tree s =
     (case (sh_canonicalize h tree, sh_canonicalize h s) of
        (Inr tree', Inr s') \<Rightarrow> path_starts_with s' tree'
      | _ \<Rightarrow> False)"

text \<open>
  C39: writing stays in the read-write trees. Whatever git command the server runs in a sandbox for a
  repository, with an extra grant or without one, as long as no exclusion lies in a read-write tree, every
  rule with a right beyond reading and executing names such a tree itself: /dev, the served directories
  unless the operation only reads, the socket of the ssh agent for a remote command without a grant, and
  for a local command with a grant (\<open>git worktree add\<close> and \<open>git worktree remove\<close>) the one tree granted to it. (A clone has
  no repository yet and runs under policies of its own.)
\<close>

theorem writes_stay_in_their_trees:
  assumes "command_policy env repo read_only args declared grant = Inr p" "po_tier p \<noteq> Tier_Unsandboxed"
    and "sandbox_argv p Profile_Default = Some argv"
    and "shim_main depth (ev_host env) (after_launcher p argv @ gargs) = Inr c"
    and "\<not> list_ex (\<lambda>t. list_ex (exclusion_within (ev_host env) t) (po_secret_excludes p)) (po_rw_trees p)"
    and "Path_Rule path access \<in> set (rs_rules (cf_ruleset c))" "access AND NOT ro_dir_access \<noteq> 0"
  shows "\<exists>t \<in> set (po_rw_trees p). sh_canonicalize (ev_host env) t = Inr path \<and>
    (t = ''/dev'' \<or> declared = Net_Remote \<and> grant = None \<and> ev_var env ''SSH_AUTH_SOCK'' = Some t \<or> \<not> read_only \<and>
      (t = repo \<or> (\<exists>dirs. resolve_repo_paths env repo = Inr dirs \<and> t = ld_commondir dirs)) \<or>
     declared = Net_Local \<and> grant = Some t)"
proof -
  let ?h = "ev_host env" and ?a = "policy_args p Profile_Default gargs"
  from apply_landlock_parts[OF confined_inv(1)[OF assms(3,2,4)]] obtain excludes ro rw carved where
    "resolve_excludes ?h (ag_excludes ?a) = Inr excludes"
    "gather (grant_tree depth ?h ro_dir_access excludes) (ag_ro ?a) = Inr ro"
    "gather (grant_tree depth ?h rw_access excludes) (ag_rw ?a) = Inr rw"
    "gather (grant_carveout ?h) (ag_ro_carveouts ?a) = Inr carved"
    "rs_rules (cf_ruleset c) = ro @ rw @ carved" .
  then have x: "resolve_excludes ?h (po_secret_excludes p) = Inr excludes"
    "gather (grant_tree depth ?h ro_dir_access excludes) (po_ro_trees p) = Inr ro"
    "gather (grant_tree depth ?h rw_access excludes) (po_rw_trees p) = Inr rw"
    "gather (grant_carveout ?h) (po_ro_carveouts p) = Inr carved"
    "rs_rules (cf_ruleset c) = ro @ rw @ carved" by (simp_all add: policy_args_def)
  have "Path_Rule path access \<notin> set ro"
    using gather_Inr_set[OF x(2)] grant_tree_rights assms(7) by (fastforce simp: reads_only_def)
  moreover have "Path_Rule path access \<notin> set carved"
    using gather_Inr_set[OF x(4)] grant_carveout_rules assms(7) by (fastforce simp: rights_read_only)
  ultimately obtain t rs where t: "t \<in> set (po_rw_trees p)" "grant_tree depth ?h rw_access excludes t = Inr rs"
    "Path_Rule path access \<in> set rs" using assms(6) x(5) gather_Inr_set[OF x(3)] by auto
  then obtain t' where t': "sh_canonicalize ?h t = Inr t'" by (auto simp: grant_tree_def split: sum.splits)
  have "\<not> is_ancestor_of_exclude t' excludes"
    using assms(5) t(1) t' resolve_excludes_set[OF x(1)]
    by (fastforce simp: is_ancestor_of_exclude_def exclusion_within_def list_ex_iff)
  with t t' have "grant_one ?h t' rw_access = Inr rs" by (auto simp: grant_tree_def split: if_splits)
  from grant_one_rules[OF this t(3)] t' have "sh_canonicalize ?h t = Inr path" by auto
  with t(1) command_policy_rw_trees[OF assms(1) t(1)] show ?thesis by blast
qed

subsection \<open>Examples\<close>

definition sample_table :: path_table where
  "sample_table =
     [(''/dev'', ''/dev'', Type_Dir, 1, False), (''/usr'', ''/usr'', Type_Dir, 1, False),
      (''/opt/gv-sandbox'', ''/opt/gv-sandbox'', Type_File, 1, False),
      (''/home/u'', ''/home/u'', Type_Dir, 1, False), (''/home/u/r'', ''/home/u/r'', Type_Dir, 1, False),
      (''/home/u/r/.git'', ''/home/u/r/.git'', Type_Dir, 1, False),
      (''/home/u/.ssh'', ''/home/u/.ssh'', Type_Dir, 1, False),
      (''/home/u/.ssh/known_hosts'', ''/home/u/.ssh/known_hosts'', Type_File, 1, False),
      (''/home/u/.ssh/id'', ''/home/u/.ssh/id'', Type_File, 1, False),
      (''/home/u/k'', ''/home/u/.ssh/id'', Type_File, 1, True)]"

definition sample_env :: "string \<Rightarrow> server_env" where
  "sample_env state =
     \<lparr>ev_host = table_host sample_table [(''/home/u'', [''r'', ''.ssh'', ''k''])],
      ev_var = map_of [(''HOME'', ''/home/u''), (''GIT_VISTA_SANDBOX_BIN'', ''/opt/gv-sandbox''),
        (''XDG_STATE_HOME'', state)],
      ev_file_len = (\<lambda>p. Inl (Not_Found ''no such file'')), ev_read = (\<lambda>p. Inl (Not_Found ''no such file'')),
      ev_current_exe = None, ev_temp_dir = ''/tmp''\<rparr>"

lemma sample_host_ok: "file_system_ok (ev_host (sample_env state))"
proof -
  have "table_ok sample_table" by code_simp
  then show ?thesis by (simp add: sample_env_def table_host_ok)
qed

definition sample_policy :: "string \<Rightarrow> policy" where
  "sample_policy state =
     \<lparr>po_tier = Tier_Network, po_shim = ''/opt/gv-sandbox'', po_bwrap = None,
      po_rw_trees = [''/dev'', ''/home/u/r'', ''/home/u/r/.git''],
      po_ro_trees = default_ro_trees @ network_only_ro_trees @ [''/home/u''],
      po_secret_excludes = secret_excludes_for_home ''/home/u'' @ [state @ ''/git-vista/trusted-repos''],
      po_ro_carveouts = [''/home/u/.ssh/known_hosts''], po_net_ports = default_git_ports,
      po_hook_mode = Hook_Run\<rparr>"

lemma sample_policy_built:
  "policy_for (sample_env ''/var/s'') ''/home/u/r'' False Net_Remote = Inr (sample_policy ''/var/s'')"
  "policy_for (sample_env ''/home/u/r/s'') ''/home/u/r'' False Net_Remote = Inr (sample_policy ''/home/u/r/s'')"
  by code_simp+

definition sample_argv :: "string \<Rightarrow> string list" where
  "sample_argv state = ''/opt/gv-sandbox'' # shim_flags (sample_policy state) Profile_Default ''--net-allow'' @ [''--'', ''git'']"

lemma sample_argv_built: "sandbox_argv (sample_policy state) Profile_Default = Some (sample_argv state)"
  by (simp add: sandbox_argv_def shim_argv_def launcher_prefix_def net_flag_def sample_argv_def sample_policy_def)

lemma sample_sandboxed: "po_tier (sample_policy state) \<noteq> Tier_Unsandboxed"
  by (simp add: sample_policy_def)

text \<open>The rules of the example: the repository twice, the known hosts, and nothing of the link to a key.\<close>

definition sample_rules :: "rule list" where
  "sample_rules =
     [Path_Rule ''/usr'' ro_dir_access, Path_Rule ''/home/u/r'' ro_dir_access,
      Path_Rule ''/dev'' rw_access, Path_Rule ''/home/u/r'' rw_access, Path_Rule ''/home/u/r/.git'' rw_access,
      Path_Rule ''/home/u/.ssh/known_hosts'' (a_execute OR a_read_file)]"

definition sample_confined :: confined where
  "sample_confined =
     \<lparr>cf_ruleset = \<lparr>rs_rules = sample_rules, rs_ports = default_git_ports\<rparr>, cf_scope = Scope_Allowed,
      cf_argv = [''git'', ''fetch'']\<rparr>"

lemma sample_launch:
  "shim_main 3 (ev_host (sample_env ''/var/s''))
     (after_launcher (sample_policy ''/var/s'') (sample_argv ''/var/s'') @ [''fetch'']) = Inr sample_confined"
  by code_simp

text \<open>
  An exclusion that does not exist when the launcher starts is dropped. With the state directory inside
  the served repository the trust store can be created and a marker written in it.
\<close>

lemma absent_trust_store_is_writable:
  "shim_main 3 (ev_host (sample_env ''/home/u/r/s''))
     (after_launcher (sample_policy ''/home/u/r/s'') (sample_argv ''/home/u/r/s'') @ [''fetch'']) = Inr sample_confined \<and>
   sandbox_trust_dir (sample_env ''/home/u/r/s'') \<in> set (po_secret_excludes (sample_policy ''/home/u/r/s'')) \<and>
   reaches (ev_host (sample_env ''/home/u/r/s'')) (Path_Rule ''/home/u/r'' rw_access)
     (path_join (sandbox_trust_dir (sample_env ''/home/u/r/s'')) (marker_name ''/home/u/r''))"
  by code_simp

text \<open>
  A symbolic link to a directory above an exclusion is walked: the test that would pass it over comes
  after the one that descends. Through a link to the root the whole system becomes writable.
\<close>

lemma linked_ancestor_is_walked:
  "let h = table_host
       [(''/r'', ''/r'', Type_Dir, 1, False), (''/r/x'', ''/r/x'', Type_Dir, 1, False),
        (''/r/up'', ''/'', Type_Dir, 1, True), (''/r/up/etc'', ''/etc'', Type_Dir, 1, False)]
       [(''/r'', [''x'', ''up'']), (''/r/up'', [''r'', ''etc''])]
   in disqualified_link h ''/r/up'' ''/r'' [''/r/x''] ''/'' \<and>
     grant_tree 3 h rw_access [''/r/x''] ''/r'' = Inr [Path_Rule ''/r/up/etc'' rw_access] \<and>
     reaches h (Path_Rule ''/r/up/etc'' rw_access) ''/etc/passwd''"
  by code_simp

theorem launcher_reads_the_policy_witness:
  "parse_shim no_args (after_launcher (sample_policy ''/var/s'') (sample_argv ''/var/s'') @ [''fetch'']) =
   Inr (policy_args (sample_policy ''/var/s'') Profile_Default [''fetch''])"
proof -
  have "list_all is_absolute_path (policy_paths (sample_policy ''/var/s''))" by code_simp
  with launcher_reads_the_policy[OF sample_argv_built sample_sandboxed, of "''/var/s''" "[''fetch'']"] show ?thesis
    by simp
qed

theorem sandboxed_git_is_confined_witness:
  "\<not> list_ex (\<lambda>r. reaches (ev_host (sample_env ''/var/s'')) r ''/home/u/.ssh/id'') sample_rules \<and>
   list_ex (\<lambda>r. reaches (ev_host (sample_env ''/var/s'')) r ''/home/u/.ssh/known_hosts'') sample_rules"
proof (rule conjI)
  let ?h = "ev_host (sample_env ''/var/s'')"
  have sample: "ev_var (sample_env ''/var/s'') ''HOME'' = Some ''/home/u''"
    "''/home/u/.ssh'' \<in> set (secret_excludes_for_home ''/home/u'')"
    "sh_canonicalize ?h ''/home/u/.ssh'' = Inr ''/home/u/.ssh''"
    "path_starts_with ''/home/u/.ssh/id'' ''/home/u/.ssh''"
    "sh_canonicalize ?h ''/home/u/.ssh/id'' = Inr ''/home/u/.ssh/id''"
    "sh_canonicalize ?h (path_join ''/home/u'' ''.ssh/known_hosts'') = Inr ''/home/u/.ssh/known_hosts''"
    "\<not> path_eq ''/home/u/.ssh/id'' ''/home/u/.ssh/known_hosts''" by code_simp+
  note confined = sandboxed_git_is_confined[OF sample_host_ok sample_policy_built(1) sample_sandboxed
      sample_argv_built sample_launch]
  show "\<not> list_ex (\<lambda>r. reaches ?h r ''/home/u/.ssh/id'') sample_rules"
  proof
    assume "list_ex (\<lambda>r. reaches ?h r ''/home/u/.ssh/id'') sample_rules"
    then obtain r where r: "r \<in> set sample_rules" "reaches ?h r ''/home/u/.ssh/id''"
      by (auto simp: list_ex_iff)
    have "r \<in> set (rs_rules (cf_ruleset sample_confined))" using r(1) by (simp add: sample_confined_def)
    with confined r(2) sample(1-5) have "known_hosts_only ?h ''/home/u'' r ''/home/u/.ssh/id''"
      by (auto simp: canonical_def)
    with sample(6,7) show False by (auto simp: known_hosts_only_def Let_def)
  qed
  show "list_ex (\<lambda>r. reaches ?h r ''/home/u/.ssh/known_hosts'') sample_rules" by code_simp
qed

theorem writes_stay_in_their_trees_witness:
  "\<exists>t \<in> set (po_rw_trees (sample_policy ''/var/s'')).
     sh_canonicalize (ev_host (sample_env ''/var/s'')) t = Inr ''/home/u/r''"
proof -
  have "\<not> list_ex (\<lambda>t. list_ex (exclusion_within (ev_host (sample_env ''/var/s'')) t)
      (po_secret_excludes (sample_policy ''/var/s''))) (po_rw_trees (sample_policy ''/var/s''))"
    "Path_Rule ''/home/u/r'' rw_access \<in> set (rs_rules (cf_ruleset sample_confined))"
    "rw_access AND NOT ro_dir_access \<noteq> 0" by code_simp+
  moreover have "command_policy (sample_env ''/var/s'') ''/home/u/r'' False [''fetch''] Net_Remote None = Inr (sample_policy ''/var/s'')"
    by (simp add: command_policy_def sandboxed_def reconcile_need_def sample_policy_built(1))
  note writes_stay_in_their_trees[OF this sample_sandboxed sample_argv_built sample_launch]
  ultimately show ?thesis by blast
qed

end
