(* ===== verification/Spec2Isabelle.thy ===== *)
theory Spec2Isabelle imports Replay Patch_Build Shell_Words Reset_Branch Operations Freshness Pipeline Worktree_Exec Sandbox begin

text \<open>
  A verification library for GitVista, a local server with a browser and a terminal client that show a
  git repository as a graph, stage parts of its changes, resolve its conflicts and run git operations
  after showing a plan of them. The Rust crates are under \<open>src/crates/\<close>; every theory names the files
  it models in its first text block.

  \<^bold>\<open>How the parts interact.\<close> A client signs in with a one-time token and then sends every request with
  a cookie (\<open>Sessions\<close>, \<open>Access\<close>). It draws the commit graph from pages of history (\<open>Graph_Model\<close> up to
  \<open>Replay\<close>), selects lines of a diff (\<open>Diff\<close>, \<open>Patch_Plan\<close>, \<open>Patch_Build\<close>), looks at conflicts
  (\<open>Status_Parse\<close>, \<open>Conflicts\<close>, \<open>Conflict_View\<close>, \<open>Markers\<close>) and asks for an operation. The server
  observes the repository, shapes a plan and hands it out with the generation it was built at
  (\<open>Plan_Model\<close>, \<open>Argv\<close>, \<open>Plan_Export\<close>, \<open>Plan_Render\<close>, \<open>Repo_View\<close>, \<open>Generation\<close>, \<open>Plan_Shape\<close>). On
  submission it queues behind the repository's guard, checks the plan against the repository as it is
  then, and executes it (\<open>Plan_Gate\<close>, \<open>Coordinator\<close>, \<open>Pipeline\<close>, \<open>Reset_Branch\<close>, \<open>Conflict_Exec\<close>,
  \<open>Worktree_Exec\<close>), every git in a sandbox (\<open>Sandbox\<close>, \<open>Shim\<close>), while the registry records the operation (\<open>Operations\<close>) and the change feed tells
  the client whether the plan it is looking at is still current (\<open>Feed_Policy\<close>, \<open>Freshness\<close>).

  \<^bold>\<open>Shared layers.\<close> \<open>Prelude\<close> (Rust's integers and collections), \<open>Text\<close>, \<open>Whitespace\<close> and \<open>Paths\<close> (what
  the code uses of \<open>str\<close> and \<open>Path\<close>) and \<open>Newtypes\<close> (the validated strings of the wire). A string is
  the list of its UTF-8 bytes; machine integers are words of their width; a \<open>Result\<close> is a sum and an
  \<open>Option\<close> an option; a \<open>BTreeMap\<close> or \<open>HashMap\<close> is a map or, where order matters, a list of entries.

  \<^bold>\<open>The graph\<close> (\<open>git-vista-core/src/model.rs\<close>, \<open>color.rs\<close>, \<open>layout/\<close>). \<open>Graph_Model\<close>, \<open>Palette\<close>,
  \<open>Topology\<close> (the date-ordered walk), \<open>Lane_Stream\<close> (lanes and edges, one page at a time with a
  checkpoint), \<open>Coloring\<close>, \<open>Layout\<close> (cascades and badges over a whole graph) and \<open>Replay\<close> (the same
  decoration for a stream of pages). The lemmas show that the walk is a permutation in which children
  come before parents, that every edge ends where the link does, and that paging changes nothing: any
  division into pages gives the lanes, colours and badges of the whole graph.

  \<^bold>\<open>Partial staging\<close> (\<open>git-vista-protocol/src/diff.rs\<close>, \<open>patch_plan.rs\<close>, \<open>patch_build.rs\<close>). The lemmas
  show that a built patch holds the selected lines and no others, that both of its sides are the ones
  the selection means, and when building is refused.

  \<^bold>\<open>Plans\<close> (\<open>plan.rs\<close>, \<open>effects.rs\<close>, \<open>explain.rs\<close>, \<open>plan_export.rs\<close> of \<open>git-vista-protocol\<close>;
  \<open>planner.rs\<close>, \<open>git_cmd.rs\<close>, \<open>planner/run_failure.rs\<close>, \<open>coordinator.rs\<close>, \<open>worktree_census.rs\<close> of
  \<open>git-vista-server\<close>; \<open>git-vista-core/src/identity.rs\<close>). \<open>Plan_Model\<close> to \<open>Shell_Words\<close> hold the
  operations, their command lines and what a shell makes of a printed one; \<open>Worktrees\<close> and \<open>Census\<close> the
  listing of linked worktrees; \<open>Repo_View\<close> what the planner reads; \<open>Generation\<close> the reading that is hashed;
  \<open>Plan_Shape\<close> the review of each operation; \<open>Plan_Gate\<close> the gate; \<open>Coordinator\<close> the guard's key and the
  \<open>index.lock\<close> preflight; \<open>Pipeline\<close> the steps of all requests and of other programs that use git, as a
  transition relation. The lemmas show that a plan that passes the gate meets the repository it was
  built on, that what is executed is what was checked (up to the ref that pins its restore point), that one
  request at a time changes a repository and every one can be brought to its answer, and that a
  recovery about refs undoes what the plan lists.

  \<^bold>\<open>Executors\<close> (\<open>planner/branch_exec.rs\<close>, \<open>planner/conflict_exec.rs\<close>, \<open>planner/worktree_exec.rs\<close>). An
  executor takes the git commands that write as a function \<open>run\<close> that may change the state in any way,
  so what is shown of an executor holds whatever git does: which guards were passed when anything
  changed, and when the answer is OK.

  \<^bold>\<open>Conflicts\<close> (\<open>status.rs\<close> and \<open>conflict.rs\<close> of \<open>git-vista-protocol\<close>; \<open>conflicts.rs\<close> and
  \<open>handlers/conflicts.rs\<close> of \<open>git-vista-server\<close>; \<open>git-vista-conflicts\<close>). The lemmas show that the status
  parser reads back every stream git prints, that the scan finds every conflicted path with the right
  stages, that a pane shows only text fetched for its stage, that a composed file holds lines of the
  marker file in their order, and that a document the server serves can be resolved and sent back.

  \<^bold>\<open>Sessions\<close> (\<open>session.rs\<close>, \<open>ratelimit.rs\<close>, \<open>security.rs\<close>, \<open>handlers/session.rs\<close>, \<open>middleware.rs\<close> and
  \<open>route_authz.rs\<close> of \<open>git-vista-server\<close>, \<open>version.rs\<close> of \<open>git-vista-protocol\<close>). A run is a list of
  operations of the session manager from its start. The lemmas show where every accepted session comes
  from, that a token is spent once, which requests reach a handler, that the gate asks of every route
  what the table says, and how many sign-ins the limiter lets through.

  \<^bold>\<open>The sandbox\<close> (\<open>sandbox/mod.rs\<close>, \<open>worktree.rs\<close>, \<open>repo_paths.rs\<close>, \<open>trust.rs\<close>, \<open>capabilities.rs\<close>,
  \<open>bwrap.rs\<close> and \<open>shim.rs\<close> of \<open>git-vista-server/src/sandbox\<close>; the program \<open>bin/gv-sandbox\<close>). \<open>Sandbox\<close> is
  the server's side, which turns an operation into a policy (with the extra grant of \<open>git_cmd.rs\<close> for
  worktrees that are added or removed) and the policy into a command line; \<open>Shim\<close>
  is the launcher that reads it, grants trees rule by rule and becomes git. The lemmas show that the
  launcher reads what the server wrote, that no rule reaches a secret that exists, where writing is
  allowed, and that the walk around the secrets ends and loses nothing else.

  \<^bold>\<open>Operations and the feed\<close> (\<open>operation.rs\<close>, \<open>change_feed.rs\<close>; \<open>operations.rs\<close>, \<open>watcher/policy.rs\<close>;
  \<open>git-vista/src/features/freshness/core.rs\<close>). The lemmas show that a terminal record never changes, that
  every admitted key is answered, that the registry stays within its bound, and that the client says
  what the feed proves and no more.

  \<^bold>\<open>Interfaces.\<close> Four locales state what one part relies on of another, and each is interpreted on the
  model's own definitions in the theory that provides the laws. \<open>run_invariant\<close> (\<open>Prelude\<close>) is a component
  that consumes events one by one: \<open>feed\<close> (the readings of \<open>Feed_Policy\<close>), \<open>client\<close> (the snapshots of
  \<open>Freshness\<close>), \<open>kept\<close> (the commits pushed into \<open>Lane_Stream\<close>) and \<open>manager\<close> (the steps of the session
  manager, \<open>Access\<close>). \<open>step_invariant\<close> and \<open>step_stable\<close> are the same for step relations: \<open>registry\<close> and
  \<open>outcome\<close> (\<open>Operations\<close>), \<open>pipe\<close> (\<open>Pipeline\<close>). \<open>lane_alloc\<close> (\<open>Topology\<close>) is what the lane walk needs of an
  allocator, and \<open>leftmost\<close> and \<open>rightward\<close> are the code's two.

  \<^bold>\<open>Bounds and hypotheses.\<close> Only the launcher's walk over directories takes a bound on its depth, which
  any number above the longest path the kernel accepts satisfies (\<open>launcher_returns\<close>); every other
  recursion has a termination proof. The caps are
  the code's (8,000 bytes for the binary sniff, 2,000,000 for a file that is served, the widths of the
  words); a clock reading is an unbounded number. Hash functions, random bytes and the clock are
  parameters; a property that needs two hashed texts to have different digests, or a fresh secret not
  to repeat, says so as a hypothesis about that parameter. What git prints is a parameter, and where a
  property needs its format, the format of git's manual is written as a printer.

  \<^bold>\<open>Not modelled.\<close> The other executors of the planner (commit, stash, push, pull, fetch, tags, sequences,
  bisect, staging, the reset of a test repository) and the SQLite journal, the supervision of git
  processes and the boot probe of the sandbox, the watcher's threads, HTTP routing, JSON and response bodies, the
  gix readers of \<open>git-vista-git\<close>, the drawing and event code of the browser and terminal clients, the
  MCP and plan-runner programs, and test fixtures: these are input and output around the logic above,
  or wrap libraries that are not in the repository. Log lines and panics of background tasks are left
  out of every definition.
\<close>

end
